(* ===== verification/Prelude.thy ===== *)
theory Prelude
  imports Main "HOL-Library.Word" "HOL-Library.AList" "HOL-Library.Sublist"
    "HOL-Library.Code_Target_Nat"
begin

text \<open>
  What every component of the model shares: the machine integers of the Rust code and the
  conversions between them, results with errors, the hash maps of the code as association
  lists with distinct keys, and two interfaces for components that run over a sequence of
  events.

  A \<^verbatim>\<open>HashMap\<close> has no specified iteration order. It is modelled as an association list
  with distinct keys; the order of the list stands for the order in which one run iterates,
  so every statement below that does not mention the order holds for all of them.
\<close>

unbundle bit_operations_syntax

named_theorems keeps_inv \<open>operations keep the invariant of their component\<close>
named_theorems frame_simps \<open>what an operation leaves unchanged\<close>

section \<open>Machine integers\<close>

type_synonym u8 = "8 word"
type_synonym u16 = "16 word"
type_synonym u32 = "32 word"
type_synonym u64 = "64 word"

text \<open>\<^verbatim>\<open>u16::try_from(x)\<close> on a \<^verbatim>\<open>u32\<close>: fails above 65535.\<close>

definition u16_try_from :: "u32 \<Rightarrow> u16 option" where
  "u16_try_from x = (if x \<le> 65535 then Some (ucast x) else None)"

text \<open>\<^verbatim>\<open>u32::try_from(x)\<close> on a signed integer: fails when negative or above the range.\<close>

definition u32_try_from :: "int \<Rightarrow> u32 option" where
  "u32_try_from x = (if 0 \<le> x \<and> x < 2 ^ 32 then Some (word_of_int x) else None)"

text \<open>\<^verbatim>\<open>x as u32\<close> on a signed integer wraps.\<close>

definition as_u32 :: "int \<Rightarrow> u32" where
  "as_u32 x = word_of_int x"

definition saturating_sub :: "u64 \<Rightarrow> u64 \<Rightarrow> u64" where
  "saturating_sub a b = (if a < b then 0 else a - b)"

text \<open>\<^verbatim>\<open>x.clamp(lo, hi)\<close>\<close>

definition clamp :: "'a::linorder \<Rightarrow> 'a \<Rightarrow> 'a \<Rightarrow> 'a" where
  "clamp lo hi x = (if x < lo then lo else if hi < x then hi else x)"

lemma u16_try_from_Some_iff: "u16_try_from x = Some p \<longleftrightarrow> x \<le> 65535 \<and> p = ucast x"
  by (auto simp: u16_try_from_def)

lemma u16_try_from_None_iff: "u16_try_from x = None \<longleftrightarrow> 65535 < x"
  by (auto simp: u16_try_from_def)

lemma unat_u16_less: "unat (p :: u16) < 65536"
proof -
  have "unat p < 2 ^ LENGTH(16)" by (rule unsigned_less)
  then show ?thesis by simp
qed

lemma u16_try_from_ucast [simp]: "u16_try_from (ucast (p :: u16)) = Some p"
proof -
  have "(ucast p :: u32) \<le> 65535"
    using unat_u16_less [of p]
    by (simp add: word_le_nat_alt unsigned_ucast_eq take_bit_nat_eq_self)
  moreover have "(ucast (ucast p :: u32) :: u16) = p"
    by (rule bit_word_eqI) (simp add: bit_ucast_iff)
  ultimately show ?thesis
    by (simp add: u16_try_from_def)
qed

lemma clamp_bounds: "lo \<le> hi \<Longrightarrow> lo \<le> clamp lo hi x \<and> clamp lo hi x \<le> hi"
  by (auto simp: clamp_def)

lemma clamp_id: "lo \<le> x \<Longrightarrow> x \<le> hi \<Longrightarrow> clamp lo hi x = x"
  by (auto simp: clamp_def)

lemma saturating_sub_le: "saturating_sub a b \<le> a"
  unfolding saturating_sub_def by (auto simp: word_sub_le not_less)

section \<open>Strings\<close>

text \<open>\<^verbatim>\<open>starts_with\<close> and \<^verbatim>\<open>eq_ignore_ascii_case\<close>.\<close>

definition starts_with :: "'a list \<Rightarrow> 'a list \<Rightarrow> bool" where
  "starts_with s p = prefix p s"

definition lower :: "char \<Rightarrow> char" where
  "lower c = (let n = of_char c :: nat in if 65 \<le> n \<and> n \<le> 90 then char_of (n + 32) else c)"

definition eq_ignore_ascii_case :: "string \<Rightarrow> string \<Rightarrow> bool" where
  "eq_ignore_ascii_case s t = (map lower s = map lower t)"

section \<open>Results\<close>

text \<open>A \<^verbatim>\<open>Result<T, E>\<close>: \<open>Inl\<close> is the error. \<open>bindR\<close> is the \<^verbatim>\<open>?\<close> operator.\<close>

definition bindR :: "'e + 'a \<Rightarrow> ('a \<Rightarrow> 'e + 'b) \<Rightarrow> 'e + 'b" where
  "bindR r f = (case r of Inl e \<Rightarrow> Inl e | Inr x \<Rightarrow> f x)"

definition ok_or :: "'e \<Rightarrow> 'a option \<Rightarrow> 'e + 'a" where
  "ok_or e x = (case x of None \<Rightarrow> Inl e | Some v \<Rightarrow> Inr v)"

lemma bindR_simps [simp]:
  "bindR (Inl e) f = Inl e"
  "bindR (Inr x) f = f x"
  by (simp_all add: bindR_def)

lemma bindR_eq_Inr: "bindR r f = Inr y \<longleftrightarrow> (\<exists>x. r = Inr x \<and> f x = Inr y)"
  by (auto simp: bindR_def split: sum.splits)

lemma bindR_split:
  "P (bindR r f) \<longleftrightarrow> (\<forall>e. r = Inl e \<longrightarrow> P (Inl e)) \<and> (\<forall>x. r = Inr x \<longrightarrow> P (f x))"
  by (auto simp: bindR_def split: sum.splits)

lemma ok_or_simps [simp]:
  "ok_or e None = Inl e"
  "ok_or e (Some v) = Inr v"
  by (simp_all add: ok_or_def)

lemma ok_or_eq_Inr [simp]: "ok_or e x = Inr v \<longleftrightarrow> x = Some v"
  by (auto simp: ok_or_def split: option.splits)

section \<open>Hash maps\<close>

abbreviation hm_wf :: "('k \<times> 'v) list \<Rightarrow> bool" where
  "hm_wf m \<equiv> distinct (map fst m)"

abbreviation hm_get :: "('k \<times> 'v) list \<Rightarrow> 'k \<Rightarrow> 'v option" where
  "hm_get m k \<equiv> map_of m k"

abbreviation hm_insert :: "'k \<Rightarrow> 'v \<Rightarrow> ('k \<times> 'v) list \<Rightarrow> ('k \<times> 'v) list" where
  "hm_insert k v m \<equiv> AList.update k v m"

abbreviation hm_remove :: "'k \<Rightarrow> ('k \<times> 'v) list \<Rightarrow> ('k \<times> 'v) list" where
  "hm_remove k m \<equiv> AList.delete k m"

text \<open>\<^verbatim>\<open>HashMap::retain\<close> with a predicate on key and value.\<close>

definition hm_retain :: "('k \<Rightarrow> 'v \<Rightarrow> bool) \<Rightarrow> ('k \<times> 'v) list \<Rightarrow> ('k \<times> 'v) list" where
  "hm_retain p m = filter (\<lambda>(k, v). p k v) m"

lemma hm_get_insert [simp]: "hm_get (hm_insert k v m) k' = (if k' = k then Some v else hm_get m k')"
  by (simp add: update_conv')

lemma hm_get_remove [simp]: "hm_get (hm_remove k m) k' = (if k' = k then None else hm_get m k')"
  by (simp add: delete_conv')

lemma hm_wf_insert [simp]: "hm_wf m \<Longrightarrow> hm_wf (hm_insert k v m)"
  by (rule distinct_update)

lemma hm_wf_remove [simp]: "hm_wf m \<Longrightarrow> hm_wf (hm_remove k m)"
  by (rule distinct_delete)

lemma hm_wf_retain [simp]: "hm_wf m \<Longrightarrow> hm_wf (hm_retain p m)"
  unfolding hm_retain_def by (induction m) auto

lemma hm_keys_remove [simp]: "fst ` set (hm_remove k m) = fst ` set m - {k}"
  by (induction m) auto

lemma hm_keys_retain: "fst ` set (hm_retain p m) \<subseteq> fst ` set m"
  by (auto simp: hm_retain_def)

lemma hm_get_retain:
  "hm_wf m \<Longrightarrow> hm_get (hm_retain p m) k =
     (case hm_get m k of None \<Rightarrow> None | Some v \<Rightarrow> if p k v then Some v else None)"
proof (induction m)
  case Nil
  then show ?case by (simp add: hm_retain_def)
next
  case (Cons a m)
  obtain k' v' where a: "a = (k', v')" by (cases a)
  have "k = k' \<Longrightarrow> hm_get m k = None"
    using Cons.prems a by (auto simp: map_of_eq_None_iff)
  with Cons a show ?case by (auto simp: hm_retain_def split: option.splits)
qed

lemma hm_get_retain_key:
  "hm_get (hm_retain (\<lambda>k _. p k) m) k = (if p k then hm_get m k else None)"
  by (induction m) (auto simp: hm_retain_def)

lemma hm_get_in_keys: "hm_get m k \<noteq> None \<longleftrightarrow> k \<in> fst ` set m"
  by (metis map_of_eq_None_iff)

lemma hm_insert_new: "hm_get m k = None \<Longrightarrow> hm_insert k v m = m @ [(k, v)]"
  by (induction m) (auto split: if_splits)

lemma length_hm_insert:
  "length (hm_insert k v m) = (if k \<in> fst ` set m then length m else Suc (length m))"
  by (induction m) auto

lemma length_hm_remove_le: "length (hm_remove k m) \<le> length m"
  by (rule length_delete_le)

lemma length_hm_retain_le: "length (hm_retain p m) \<le> length m"
  by (simp add: hm_retain_def)

text \<open>
  \<^verbatim>\<open>v.sort_unstable(); v.dedup()\<close> on a list of numbers: the increasing list of its elements.
\<close>

definition sort_dedup :: "'a::linorder list \<Rightarrow> 'a list" where
  "sort_dedup xs = remdups_adj (sort xs)"

lemma set_sort_dedup [simp]: "set (sort_dedup xs) = set xs"
  by (simp add: sort_dedup_def)

lemma sorted_sort_dedup: "sorted (sort_dedup xs)"
  by (simp add: sort_dedup_def)

lemma distinct_sort_dedup: "distinct (sort_dedup xs)"
proof -
  have "sorted ys \<Longrightarrow> distinct (remdups_adj ys)" for ys :: "'a list"
    by (induction ys rule: remdups_adj.induct) auto
  then show ?thesis by (simp add: sort_dedup_def)
qed

lemma sort_dedup_unique: "set xs = set ys \<Longrightarrow> sort_dedup xs = sort_dedup ys"
  by (metis distinct_sort_dedup set_sort_dedup sorted_distinct_set_unique sorted_sort_dedup)

section \<open>Interfaces: components that run over events\<close>

text \<open>
  A component whose every operation keeps an invariant: then every run over a list of
  operations keeps it.
\<close>

locale invariant_machine =
  fixes step :: "'s \<Rightarrow> 'e \<Rightarrow> 's"
    and inv :: "'s \<Rightarrow> bool"
  assumes step_inv: "inv s \<Longrightarrow> inv (step s e)"
begin

lemma run_inv: "inv s \<Longrightarrow> inv (foldl step s es)"
  by (induction es arbitrary: s) (auto intro: step_inv)

lemma prefix_inv: "inv s \<Longrightarrow> inv (foldl step s (take n es))"
  by (rule run_inv)

end

text \<open>
  A table of sessions with a capacity: an operation may add an entry only while the table is
  below the capacity, so no run from a table within the capacity leaves it.
\<close>

locale capped_table =
  fixes step :: "'s \<Rightarrow> 'e \<Rightarrow> 's"
    and occupancy :: "'s \<Rightarrow> nat"
    and capacity :: "'s \<Rightarrow> nat"
  assumes grows_by_one: "occupancy (step s e) \<le> Suc (occupancy s)"
    and full_does_not_grow: "capacity s \<le> occupancy s \<Longrightarrow> occupancy (step s e) \<le> occupancy s"
    and capacity_fixed: "capacity (step s e) = capacity s"
begin

lemma step_within: "occupancy s \<le> capacity s \<Longrightarrow> occupancy (step s e) \<le> capacity (step s e)"
  using grows_by_one [of s e] full_does_not_grow [of s e] capacity_fixed [of s e]
  by (cases "capacity s \<le> occupancy s") auto

end

sublocale capped_table \<subseteq> within: invariant_machine step "\<lambda>s. occupancy s \<le> capacity s"
  by unfold_locales (rule step_within)

context capped_table
begin

lemma run_capacity: "capacity (foldl step s es) = capacity s"
  by (induction es arbitrary: s) (auto simp: capacity_fixed)

lemma run_within: "occupancy s \<le> capacity s \<Longrightarrow> occupancy (foldl step s es) \<le> capacity s"
  using within.run_inv [of s es] by (simp add: run_capacity)

end

end
