(* ===== verification/Stats.thy ===== *)
theory Stats
  imports Prelude
begin

text \<open>
  \<^verbatim>\<open>node-agent/src/stats.rs\<close>: the traffic counters of the rules. A counter is shared: the table
  and every live connection hold an \<^verbatim>\<open>Arc\<close> of it. The model keeps that aliasing: counters
  live in a store of cells, an \<^verbatim>\<open>Arc\<close> is the address of a cell, the table maps a rule to an
  address, and a cell stays alive when the table drops it. The 64-bit atomics wrap.
\<close>

record counter =
  cn_rx :: u64
  cn_tx :: u64
  cn_conn :: u64
  cn_err :: u64

definition counter_default :: counter where
  "counter_default = \<lparr>cn_rx = 0, cn_tx = 0, cn_conn = 0, cn_err = 0\<rparr>"

definition counter_add :: "counter \<Rightarrow> counter \<Rightarrow> counter" where
  "counter_add a b = \<lparr>cn_rx = cn_rx a + cn_rx b, cn_tx = cn_tx a + cn_tx b,
     cn_conn = cn_conn a + cn_conn b, cn_err = cn_err a + cn_err b\<rparr>"

record counter_snapshot =
  s_rule_id :: int
  s_rx_bytes :: u64
  s_tx_bytes :: u64
  s_connection_count :: u64
  s_error_count :: u64

definition snapshot_of :: "int \<Rightarrow> counter \<Rightarrow> counter_snapshot" where
  "snapshot_of rid c = \<lparr>s_rule_id = rid, s_rx_bytes = cn_rx c, s_tx_bytes = cn_tx c,
     s_connection_count = cn_conn c, s_error_count = cn_err c\<rparr>"

definition counter_of_snapshot :: "counter_snapshot \<Rightarrow> counter" where
  "counter_of_snapshot s = \<lparr>cn_rx = s_rx_bytes s, cn_tx = s_tx_bytes s,
     cn_conn = s_connection_count s, cn_err = s_error_count s\<rparr>"

record stats =
  st_cells :: "counter list"
  st_table :: "(int \<times> nat) list"

definition stats_new :: stats where
  "stats_new = \<lparr>st_cells = [], st_table = []\<rparr>"

definition ensure :: "int \<Rightarrow> stats \<Rightarrow> nat \<times> stats" where
  "ensure rule_id s = (case hm_get (st_table s) rule_id of
     Some a \<Rightarrow> (a, s)
   | None \<Rightarrow> (length (st_cells s),
       s\<lparr>st_cells := st_cells s @ [counter_default],
         st_table := hm_insert rule_id (length (st_cells s)) (st_table s)\<rparr>))"

text \<open>\<^verbatim>\<open>fetch_add\<close> on the fields of the counter behind an \<^verbatim>\<open>Arc\<close>.\<close>

definition fetch_add :: "nat \<Rightarrow> counter \<Rightarrow> stats \<Rightarrow> stats" where
  "fetch_add a d s = s\<lparr>st_cells := (st_cells s)[a := counter_add (st_cells s ! a) d]\<rparr>"

definition remove_counter :: "int \<Rightarrow> stats \<Rightarrow> stats" where
  "remove_counter rule_id s = s\<lparr>st_table := hm_remove rule_id (st_table s)\<rparr>"

definition retain_counters :: "int list \<Rightarrow> stats \<Rightarrow> stats" where
  "retain_counters keep_ids s =
     s\<lparr>st_table := hm_retain (\<lambda>rule_id _. rule_id \<in> set keep_ids) (st_table s)\<rparr>"

fun drain_entries :: "(int \<times> nat) list \<Rightarrow> counter list \<Rightarrow> counter_snapshot list \<times> counter list" where
  "drain_entries [] cells = ([], cells)"
| "drain_entries ((rule_id, a) # es) cells =
     (let c = cells ! a; (out, cells') = drain_entries es (cells[a := counter_default])
      in if c = counter_default then (out, cells') else (snapshot_of rule_id c # out, cells'))"

definition drain_snapshot :: "stats \<Rightarrow> counter_snapshot list \<times> stats" where
  "drain_snapshot s = (case drain_entries (st_table s) (st_cells s) of
     (out, cells) \<Rightarrow> (out, s\<lparr>st_cells := cells\<rparr>))"

fun restore :: "counter_snapshot list \<Rightarrow> stats \<Rightarrow> stats" where
  "restore [] s = s"
| "restore (x # xs) s =
     (case ensure (s_rule_id x) s of (a, s') \<Rightarrow> restore xs (fetch_add a (counter_of_snapshot x) s'))"

section \<open>Counters form a commutative monoid\<close>

lemma counter_add_ac:
  "counter_add a b = counter_add b a"
  "counter_add (counter_add a b) c = counter_add a (counter_add b c)"
  "counter_add a (counter_add b c) = counter_add b (counter_add a c)"
  by (simp_all add: counter_add_def ac_simps)

lemma counter_add_default [simp]:
  "counter_add counter_default a = a" "counter_add a counter_default = a"
  by (simp_all add: counter_add_def counter_default_def)

lemma counter_of_snapshot_of [simp]: "counter_of_snapshot (snapshot_of r c) = c"
  by (simp add: counter_of_snapshot_def snapshot_of_def)

lemma s_rule_id_snapshot_of [simp]: "s_rule_id (snapshot_of r c) = r"
  by (simp add: snapshot_of_def)

section \<open>The store is well formed\<close>

definition stats_wf :: "stats \<Rightarrow> bool" where
  "stats_wf s = (hm_wf (st_table s) \<and> distinct (map snd (st_table s))
     \<and> (\<forall>a \<in> set (map snd (st_table s)). a < length (st_cells s)))"

lemma stats_wf_new [keeps_inv]: "stats_wf stats_new"
  by (simp add: stats_wf_def stats_new_def)

lemma stats_wf_ensure [keeps_inv]: "stats_wf s \<Longrightarrow> stats_wf (snd (ensure r s))"
  by (fastforce simp: stats_wf_def ensure_def hm_insert_new map_of_eq_None_iff split: option.splits)

lemma ensure_addr: "stats_wf s \<Longrightarrow> fst (ensure r s) < length (st_cells (snd (ensure r s)))"
  by (auto simp: stats_wf_def ensure_def split: option.splits dest!: map_of_SomeD)

lemma stats_wf_fetch_add [keeps_inv]: "stats_wf s \<Longrightarrow> stats_wf (fetch_add a d s)"
  by (simp add: stats_wf_def fetch_add_def)

lemma set_hm_remove: "set (hm_remove k m) \<subseteq> set m"
  by (auto simp: AList.delete_eq)

lemma distinct_snd_delete: "distinct (map snd m) \<Longrightarrow> distinct (map snd (hm_remove k m))"
  by (simp add: AList.delete_eq distinct_map_filter)

lemma stats_wf_remove [keeps_inv]: "stats_wf s \<Longrightarrow> stats_wf (remove_counter r s)"
  unfolding stats_wf_def remove_counter_def
  using set_hm_remove [of r "st_table s"] by (auto simp: distinct_snd_delete)

lemma stats_wf_retain [keeps_inv]: "stats_wf s \<Longrightarrow> stats_wf (retain_counters ks s)"
  by (auto simp: stats_wf_def retain_counters_def hm_retain_def distinct_map_filter)

lemma length_drain_entries [simp]: "length (snd (drain_entries es cells)) = length cells"
  by (induction es cells rule: drain_entries.induct) (auto simp: Let_def split: prod.splits)

lemma stats_wf_drain [keeps_inv]: "stats_wf s \<Longrightarrow> stats_wf (snd (drain_snapshot s))"
  using length_drain_entries [of "st_table s" "st_cells s"]
  by (simp add: stats_wf_def drain_snapshot_def case_prod_beta)

lemma stats_wf_get_less: "stats_wf s \<Longrightarrow> hm_get (st_table s) r = Some a \<Longrightarrow> a < length (st_cells s)"
  by (auto simp: stats_wf_def dest!: map_of_SomeD)

lemma stats_wf_restore [keeps_inv]: "stats_wf s \<Longrightarrow> stats_wf (restore xs s)"
proof (induction xs arbitrary: s)
  case Nil
  then show ?case by simp
next
  case (Cons x xs)
  have "stats_wf (fetch_add (fst (ensure (s_rule_id x) s)) (counter_of_snapshot x) (snd (ensure (s_rule_id x) s)))"
    using Cons.prems by (intro stats_wf_fetch_add stats_wf_ensure)
  with Cons.IH show ?case by (simp add: case_prod_beta)
qed

section \<open>What a rule has counted\<close>

definition count_of :: "stats \<Rightarrow> int \<Rightarrow> counter" where
  "count_of s r = (case hm_get (st_table s) r of None \<Rightarrow> counter_default | Some a \<Rightarrow> st_cells s ! a)"

text \<open>What a list of snapshots holds for a rule.\<close>

fun total_of :: "counter_snapshot list \<Rightarrow> int \<Rightarrow> counter" where
  "total_of [] r = counter_default"
| "total_of (x # xs) r =
     (if s_rule_id x = r then counter_add (counter_of_snapshot x) (total_of xs r) else total_of xs r)"

lemma total_of_absent: "r \<notin> s_rule_id ` set xs \<Longrightarrow> total_of xs r = counter_default"
  by (induction xs) auto

lemma drain_entries_other:
  "a \<notin> snd ` set es \<Longrightarrow> snd (drain_entries es cells) ! a = cells ! a"
  by (induction es cells rule: drain_entries.induct) (auto simp: Let_def split: prod.splits)

lemma drain_entries_ids: "s_rule_id ` set (fst (drain_entries es cells)) \<subseteq> fst ` set es"
proof (induction es cells rule: drain_entries.induct)
  case (1 cells)
  then show ?case by simp
next
  case (2 r a es cells)
  then show ?case
    using 2 [OF refl] by (auto simp: Let_def case_prod_beta)
qed

lemma drain_entries_total:
  "\<lbrakk>hm_wf es; distinct (map snd es); hm_get es r = Some a\<rbrakk> \<Longrightarrow>
     total_of (fst (drain_entries es cells)) r = cells ! a"
proof (induction es cells rule: drain_entries.induct)
  case (1 cells)
  then show ?case by simp
next
  case (2 r' a' es cells)
  let ?cells = "cells[a' := counter_default]"
  show ?case
  proof (cases "r = r'")
    case True
    then have "r \<notin> s_rule_id ` set (fst (drain_entries es ?cells))"
      using 2(2) drain_entries_ids [of es ?cells] by auto
    then have "total_of (fst (drain_entries es ?cells)) r = counter_default"
      by (rule total_of_absent)
    then show ?thesis
      using True 2(4) by (auto simp: Let_def case_prod_beta)
  next
    case False
    then have get: "hm_get es r = Some a"
      using 2(4) by simp
    then have "a \<noteq> a'"
      using 2(3) by (force dest: map_of_SomeD)
    moreover have "total_of (fst (drain_entries es ?cells)) r = ?cells ! a"
      using 2(1) [OF refl] 2(2,3) get by simp
    ultimately show ?thesis
      using False by (auto simp: Let_def case_prod_beta)
  qed
qed

lemma drain_entries_zero:
  "\<lbrakk>a \<in> snd ` set es; distinct (map snd es); \<forall>b \<in> snd ` set es. b < length cells\<rbrakk> \<Longrightarrow>
     snd (drain_entries es cells) ! a = counter_default"
proof (induction es cells rule: drain_entries.induct)
  case (1 cells)
  then show ?case by simp
next
  case (2 r' a' es cells)
  then show ?case
    by (cases "a \<in> snd ` set es")
      (auto simp: Let_def case_prod_beta drain_entries_other)
qed

lemma count_of_ensure [simp]: "stats_wf s \<Longrightarrow> count_of (snd (ensure r' s)) r = count_of s r"
  using stats_wf_get_less [of s r]
  by (auto simp: count_of_def ensure_def nth_append split: option.splits)

lemma ensure_get: "hm_get (st_table (snd (ensure r s))) r = Some (fst (ensure r s))"
  by (auto simp: ensure_def split: option.splits)

lemma stats_wf_addr_inj:
  "stats_wf s \<Longrightarrow> hm_get (st_table s) r = Some a \<Longrightarrow> hm_get (st_table s) r' = Some a \<Longrightarrow> r = r'"
  unfolding stats_wf_def
  by (metis (no_types, lifting) distinct_map eq_snd_iff fst_conv inj_on_def map_of_SomeD)

lemma count_of_fetch_add:
  assumes "stats_wf s" "hm_get (st_table s) r' = Some a"
  shows "count_of (fetch_add a d s) r = (if r = r' then counter_add (count_of s r) d else count_of s r)"
proof -
  have "a < length (st_cells s)"
    using assms by (auto simp: stats_wf_def dest!: map_of_SomeD)
  moreover have "hm_get (st_table s) r = Some b \<Longrightarrow> r \<noteq> r' \<Longrightarrow> b \<noteq> a" for b
    using stats_wf_addr_inj assms by blast
  ultimately show ?thesis
    using assms by (auto simp: count_of_def fetch_add_def split: option.splits)
qed

lemma drain_total: "stats_wf s \<Longrightarrow> total_of (fst (drain_snapshot s)) r = count_of s r"
proof -
  assume wf: "stats_wf s"
  show ?thesis
  proof (cases "hm_get (st_table s) r")
    case None
    then have "r \<notin> s_rule_id ` set (fst (drain_entries (st_table s) (st_cells s)))"
      using drain_entries_ids [of "st_table s" "st_cells s"] by (auto simp: map_of_eq_None_iff)
    with None show ?thesis
      by (simp add: drain_snapshot_def count_of_def case_prod_beta total_of_absent)
  next
    case (Some a)
    with wf show ?thesis
      by (simp add: drain_snapshot_def count_of_def case_prod_beta stats_wf_def drain_entries_total)
  qed
qed

lemma drain_resets: "stats_wf s \<Longrightarrow> count_of (snd (drain_snapshot s)) r = counter_default"
  by (auto simp: count_of_def drain_snapshot_def case_prod_beta stats_wf_def
      split: option.splits dest!: map_of_SomeD intro!: drain_entries_zero) force

lemma restore_total:
  "stats_wf s \<Longrightarrow> count_of (restore xs s) r = counter_add (count_of s r) (total_of xs r)"
proof (induction xs arbitrary: s)
  case Nil
  then show ?case by simp
next
  case (Cons x xs)
  let ?e = "ensure (s_rule_id x) s"
  let ?s = "fetch_add (fst ?e) (counter_of_snapshot x) (snd ?e)"
  have wf: "stats_wf (snd ?e)"
    using Cons.prems by (rule stats_wf_ensure)
  have "count_of ?s r = (if r = s_rule_id x then counter_add (count_of s r) (counter_of_snapshot x)
                         else count_of s r)"
    using count_of_fetch_add [OF wf ensure_get] Cons.prems by simp
  with Cons.IH [of ?s] wf show ?case
    by (auto simp: case_prod_beta stats_wf_fetch_add counter_add_ac)
qed

lemma count_of_remove: "count_of (remove_counter r s) r' = (if r' = r then counter_default else count_of s r')"
  by (simp add: count_of_def remove_counter_def split: option.split)

lemma count_of_retain:
  "count_of (retain_counters ks s) r = (if r \<in> set ks then count_of s r else counter_default)"
  by (auto simp: count_of_def retain_counters_def hm_get_retain_key split: option.splits)

section \<open>The interface of a store that is drained and refilled\<close>

text \<open>
  What the reporter relies on: draining takes exactly what is pending, restoring puts exactly
  that back. One round reports what it drained and puts it back when the report fails.
\<close>

locale drain_restore =
  fixes drain :: "'s \<Rightarrow> 'd list \<times> 's"
    and put_back :: "'d list \<Rightarrow> 's \<Rightarrow> 's"
    and pending :: "'s \<Rightarrow> 'k \<Rightarrow> 'c"
    and amount :: "'d list \<Rightarrow> 'k \<Rightarrow> 'c"
    and plus :: "'c \<Rightarrow> 'c \<Rightarrow> 'c"
    and zero :: 'c
    and ok :: "'s \<Rightarrow> bool"
  assumes drain_ok: "ok s \<Longrightarrow> ok (snd (drain s))"
    and drain_amount: "ok s \<Longrightarrow> amount (fst (drain s)) k = pending s k"
    and drain_zero: "ok s \<Longrightarrow> pending (snd (drain s)) k = zero"
    and put_back_ok: "ok s \<Longrightarrow> ok (put_back d s)"
    and put_back_amount: "ok s \<Longrightarrow> pending (put_back d s) k = plus (pending s k) (amount d k)"
    and zero_left: "plus zero c = c"
    and zero_right: "plus c zero = c"
    and amount_nil: "amount [] k = zero"
begin

text \<open>One reporting round: the acknowledged items and the store.\<close>

definition report_round :: "('d list \<Rightarrow> bool) \<Rightarrow> 's \<Rightarrow> 'd list \<times> 's" where
  "report_round send s = (case drain s of (d, s') \<Rightarrow>
     if d = [] then ([], s') else if send d then (d, s') else ([], put_back d s'))"

lemma round_ok: "ok s \<Longrightarrow> ok (snd (report_round send s))"
  using drain_ok [of s] by (auto simp: report_round_def put_back_ok split: prod.splits)

lemma round_conserves:
  assumes "ok s"
  shows "plus (amount (fst (report_round send s)) k) (pending (snd (report_round send s)) k) = pending s k"
    (is "?lhs = _")
proof -
  obtain d s' where d: "drain s = (d, s')"
    by (cases "drain s")
  have a: "amount d k = pending s k" and z: "pending s' k = zero" and ok': "ok s'"
    using drain_amount [OF assms, of k] drain_zero [OF assms, of k] drain_ok [OF assms] d by simp_all
  have pb: "pending (put_back d s') k = pending s k"
    using put_back_amount [OF ok', of d k] a z zero_left by simp
  consider "d = []" | "d \<noteq> []" "send d" | "d \<noteq> []" "\<not> send d"
    by blast
  then show ?thesis
  proof cases
    case 1
    then have "pending s k = zero"
      using a amount_nil [of k] by simp
    with 1 d z show ?thesis
      by (simp add: report_round_def amount_nil zero_left)
  next
    case 2
    with d a z show ?thesis
      by (simp add: report_round_def zero_right)
  next
    case 3
    with d pb show ?thesis
      by (simp add: report_round_def amount_nil zero_left)
  qed
qed

end

interpretation rule_counters:
  drain_restore drain_snapshot restore count_of total_of counter_add counter_default stats_wf
  by unfold_locales
    (simp_all add: stats_wf_drain drain_total drain_resets stats_wf_restore restore_total)

section \<open>Properties\<close>

text \<open>C16. A drain hands out exactly what a rule has counted and leaves zero, and restoring a
  snapshot adds exactly what it holds, also for a rule whose counter was removed meanwhile:
  nothing is lost and nothing is counted twice.\<close>

theorem drain_restore_exact:
  assumes "stats_wf s" "stats_wf t"
  shows "total_of (fst (drain_snapshot s)) r = count_of s r
    \<and> count_of (snd (drain_snapshot s)) r = counter_default
    \<and> count_of (restore (fst (drain_snapshot s)) t) r = counter_add (count_of t r) (count_of s r)"
  using assms by (simp add: drain_total drain_resets restore_total)

lemma drain_restore_exact_witness:
  "count_of (restore (fst (drain_snapshot (fetch_add 0 \<lparr>cn_rx = 5, cn_tx = 7, cn_conn = 1, cn_err = 0\<rparr>
      (snd (ensure 3 stats_new))))) stats_new) 3
   = counter_add (count_of stats_new 3)
      (count_of (fetch_add 0 \<lparr>cn_rx = 5, cn_tx = 7, cn_conn = 1, cn_err = 0\<rparr> (snd (ensure 3 stats_new))) 3)"
  using drain_restore_exact [of "fetch_add 0 \<lparr>cn_rx = 5, cn_tx = 7, cn_conn = 1, cn_err = 0\<rparr>
      (snd (ensure 3 stats_new))" stats_new 3]
  by (simp add: stats_wf_new stats_wf_ensure stats_wf_fetch_add)

end
