(* ===== verification/Rate_Limits.thy ===== *)
theory Rate_Limits
  imports Prelude Complex_Main
begin

text \<open>
  \<^verbatim>\<open>node-agent/src/limit\<close>: the limit on concurrent connections of a rule (a semaphore) and the
  token bucket that limits its bandwidth. The bucket's \<^verbatim>\<open>f64\<close> arithmetic is modelled over the
  rationals, so rounding is not covered; an instant is the rational number of seconds since
  some origin and the clock is an argument of every operation.
\<close>

section \<open>Connection limit\<close>

text \<open>\<^verbatim>\<open>Semaphore::MAX_PERMITS\<close> on a 64-bit target: \<^verbatim>\<open>usize::MAX >> 3\<close>.\<close>

definition MAX_PERMITS :: nat where
  "MAX_PERMITS = 2 ^ 61 - 1"

record semaphore =
  sem_capacity :: nat
  sem_available :: nat

definition conn_limiter :: "int \<Rightarrow> semaphore option" where
  "conn_limiter max_connections =
     (if max_connections \<le> 0 then None
      else (let n = min (nat max_connections) MAX_PERMITS
            in Some \<lparr>sem_capacity = n, sem_available = n\<rparr>))"

text \<open>
  \<^verbatim>\<open>try_acquire\<close>: the limiter afterwards and whether a permit is held; \<open>release_permit\<close> is the
  drop of what it returned.
\<close>

fun try_acquire_permit :: "semaphore option \<Rightarrow> unit + (bool \<times> semaphore option)" where
  "try_acquire_permit None = Inr (False, None)"
| "try_acquire_permit (Some s) =
     (if sem_available s = 0 then Inl ()
      else Inr (True, Some (s\<lparr>sem_available := sem_available s - 1\<rparr>)))"

fun release_permit :: "bool \<Rightarrow> semaphore option \<Rightarrow> semaphore option" where
  "release_permit True (Some s) = Some (s\<lparr>sem_available := sem_available s + 1\<rparr>)"
| "release_permit _ l = l"

text \<open>A relay over its life: connections arrive and leave. The count is of those served.\<close>

datatype conn_event = Conn_Arrives | Conn_Leaves

definition conn_step :: "semaphore option \<times> nat \<Rightarrow> conn_event \<Rightarrow> semaphore option \<times> nat" where
  "conn_step st ev = (case st of (l, active) \<Rightarrow>
     (case ev of
        Conn_Arrives \<Rightarrow> (case try_acquire_permit l of
                           Inl _ \<Rightarrow> (l, active) | Inr (_, l') \<Rightarrow> (l', Suc active))
      | Conn_Leaves \<Rightarrow> if active = 0 then (l, active) else (release_permit (l \<noteq> None) l, active - 1)))"

definition conn_inv :: "nat \<Rightarrow> semaphore option \<times> nat \<Rightarrow> bool" where
  "conn_inv cap st = (case st of (l, active) \<Rightarrow>
     (case l of None \<Rightarrow> False
      | Some s \<Rightarrow> sem_capacity s = cap \<and> sem_available s + active = cap))"

lemma conn_step_inv [keeps_inv]: "conn_inv cap st \<Longrightarrow> conn_inv cap (conn_step st ev)"
  by (cases st; cases "fst st"; cases ev) (auto simp: conn_inv_def conn_step_def)

interpretation conns: invariant_machine conn_step "conn_inv cap" for cap
  by unfold_locales (rule conn_step_inv)

lemma conn_limiter_inv:
  "0 < m \<Longrightarrow> conn_inv (min (nat m) MAX_PERMITS) (conn_limiter m, 0)"
  by (simp add: conn_limiter_def conn_inv_def Let_def)

lemma conn_inv_active: "conn_inv cap st \<Longrightarrow> snd st \<le> cap"
  by (auto simp: conn_inv_def split: option.splits prod.splits)

section \<open>Token bucket\<close>

record token_bucket =
  tb_rate :: rat
  tb_burst :: rat
  tb_tokens :: rat
  tb_last :: rat

definition from_mbps :: "int \<Rightarrow> rat \<Rightarrow> token_bucket option" where
  "from_mbps mbps now =
     (if mbps \<le> 0 then None
      else (let rate = of_int mbps * 125000; burst = max (rate / 5) 65536
            in Some \<lparr>tb_rate = rate, tb_burst = burst, tb_tokens = burst, tb_last = now\<rparr>))"

definition refill :: "rat \<Rightarrow> token_bucket \<Rightarrow> token_bucket" where
  "refill now b =
     (let dt = max 0 (now - tb_last b)
      in b\<lparr>tb_tokens := min (tb_tokens b + dt * tb_rate b) (tb_burst b), tb_last := now\<rparr>)"

text \<open>\<^verbatim>\<open>try_acquire\<close>: the UDP path, which never waits.\<close>

definition try_acquire :: "rat \<Rightarrow> nat \<Rightarrow> token_bucket \<Rightarrow> bool \<times> token_bucket" where
  "try_acquire now want b =
     (let b' = refill now b in
      if of_nat want \<le> tb_tokens b' then (True, b'\<lparr>tb_tokens := tb_tokens b' - of_nat want\<rparr>)
      else (False, b'))"

text \<open>One turn of the inner loop of \<^verbatim>\<open>acquire\<close>, under the lock: the chunk is taken, or the time to sleep.\<close>

definition acquire_turn :: "rat \<Rightarrow> rat \<Rightarrow> token_bucket \<Rightarrow> rat option \<times> token_bucket" where
  "acquire_turn now chunk b =
     (let b' = refill now b in
      if chunk \<le> tb_tokens b' then (None, b'\<lparr>tb_tokens := tb_tokens b' - chunk\<rparr>)
      else (Some ((chunk - tb_tokens b') / tb_rate b'), b'))"

text \<open>
  \<^verbatim>\<open>acquire\<close> by the only user of the bucket, when a sleep takes exactly its duration: the time
  at which all of \<open>remaining\<close> has been taken. \<open>fuel\<close> bounds the turns.
\<close>

fun acquire :: "nat \<Rightarrow> rat \<Rightarrow> rat \<Rightarrow> token_bucket \<Rightarrow> (rat \<times> token_bucket) option" where
  "acquire 0 now remaining b = None"
| "acquire (Suc fuel) now remaining b =
     (if 0 < remaining then
        (let chunk = min remaining (tb_burst b) in
         case acquire_turn now chunk b of
           (None, b') \<Rightarrow> acquire fuel now (remaining - chunk) b'
         | (Some wait, b') \<Rightarrow> acquire fuel (now + wait) remaining b')
      else Some (now, b))"

definition bucket_ok :: "token_bucket \<Rightarrow> bool" where
  "bucket_ok b = (0 < tb_rate b \<and> 65536 \<le> tb_burst b \<and> 0 \<le> tb_tokens b \<and> tb_tokens b \<le> tb_burst b)"

lemma from_mbps_ok [keeps_inv]: "from_mbps m now = Some b \<Longrightarrow> bucket_ok b"
  by (auto simp: from_mbps_def bucket_ok_def Let_def split: if_splits)

lemma refill_fields [frame_simps, simp]:
  "tb_rate (refill now b) = tb_rate b" "tb_burst (refill now b) = tb_burst b"
  "tb_last (refill now b) = now"
  by (simp_all add: refill_def Let_def)

lemma refill_ok [keeps_inv]: "bucket_ok b \<Longrightarrow> bucket_ok (refill now b)"
  by (auto simp: bucket_ok_def refill_def Let_def)

lemma refill_tokens_le:
  "tb_last b \<le> now \<Longrightarrow> tb_tokens (refill now b) \<le> tb_tokens b + (now - tb_last b) * tb_rate b"
  by (simp add: refill_def Let_def max_def)

lemma try_acquire_fields [frame_simps]:
  "tb_rate (snd (try_acquire now w b)) = tb_rate b"
  "tb_burst (snd (try_acquire now w b)) = tb_burst b"
  "tb_last (snd (try_acquire now w b)) = now"
  by (simp_all add: try_acquire_def Let_def)

lemma try_acquire_ok [keeps_inv]: "bucket_ok b \<Longrightarrow> bucket_ok (snd (try_acquire now w b))"
  using refill_ok [of b now] by (auto simp: try_acquire_def Let_def bucket_ok_def)

lemma acquire_turn_fields [frame_simps]:
  "tb_rate (snd (acquire_turn now w b)) = tb_rate b"
  "tb_burst (snd (acquire_turn now w b)) = tb_burst b"
  "tb_last (snd (acquire_turn now w b)) = now"
  by (simp_all add: acquire_turn_def Let_def)

lemma acquire_turn_ok [keeps_inv]:
  "bucket_ok b \<Longrightarrow> 0 \<le> w \<Longrightarrow> bucket_ok (snd (acquire_turn now w b))"
  using refill_ok [of b now] by (auto simp: acquire_turn_def Let_def bucket_ok_def)

subsection \<open>The rate holds for any interleaving of users\<close>

text \<open>
  The users of a bucket interleave their turns under its lock. A turn is \<open>Udp now want\<close> or
  \<open>Tcp now chunk\<close>; \<open>granted\<close> adds up the bytes given out.
\<close>

datatype bucket_turn = Udp_Turn (turn_time: rat) nat | Tcp_Turn (turn_time: rat) rat

fun bucket_turn_step :: "token_bucket \<Rightarrow> bucket_turn \<Rightarrow> rat \<times> token_bucket" where
  "bucket_turn_step b (Udp_Turn now want) =
     (case try_acquire now want b of (ok, b') \<Rightarrow> (if ok then of_nat want else 0, b'))"
| "bucket_turn_step b (Tcp_Turn now chunk) =
     (case acquire_turn now chunk b of (w, b') \<Rightarrow> (if w = None then chunk else 0, b'))"

fun granted :: "token_bucket \<Rightarrow> bucket_turn list \<Rightarrow> rat" where
  "granted b [] = 0"
| "granted b (t # ts) = (case bucket_turn_step b t of (g, b') \<Rightarrow> g + granted b' ts)"

text \<open>The turns happen one after another: times do not go back.\<close>

fun times_from :: "rat \<Rightarrow> bucket_turn list \<Rightarrow> bool" where
  "times_from t0 [] = True"
| "times_from t0 (t # ts) = (t0 \<le> turn_time t \<and> times_from (turn_time t) ts)"

definition chunks_nonneg :: "bucket_turn list \<Rightarrow> bool" where
  "chunks_nonneg ts = list_all (\<lambda>t. case t of Udp_Turn _ _ \<Rightarrow> True | Tcp_Turn _ c \<Rightarrow> 0 \<le> c) ts"

lemma turn_step_fields:
  "tb_rate (snd (bucket_turn_step b t)) = tb_rate b"
  "tb_last (snd (bucket_turn_step b t)) = turn_time t"
  by (cases t; simp add: frame_simps split: prod.split;
      metis acquire_turn_fields snd_conv try_acquire_fields)+

lemma turn_step_pays:
  "fst (bucket_turn_step b t) + tb_tokens (snd (bucket_turn_step b t)) = tb_tokens (refill (turn_time t) b)"
  by (cases t) (auto simp: try_acquire_def acquire_turn_def Let_def)

lemma turn_step_ok:
  "bucket_ok b \<Longrightarrow> chunks_nonneg [t] \<Longrightarrow> bucket_ok (snd (bucket_turn_step b t))"
  using try_acquire_ok acquire_turn_ok
  by (cases t) (auto simp: chunks_nonneg_def split: prod.split, (metis snd_conv)+)

lemma granted_bound:
  assumes "bucket_ok b" "chunks_nonneg ts" "times_from (tb_last b) ts" "ts \<noteq> []"
  shows "granted b ts \<le> tb_tokens b + (turn_time (last ts) - tb_last b) * tb_rate b"
  using assms
proof (induction ts arbitrary: b)
  case Nil
  then show ?case by simp
next
  case (Cons t ts)
  obtain g b' where step: "bucket_turn_step b t = (g, b')"
    by (cases "bucket_turn_step b t")
  have ok: "bucket_ok b'"
    using turn_step_ok [of b t] Cons.prems step by (simp add: chunks_nonneg_def)
  have pay: "g + tb_tokens b' \<le> tb_tokens b + (turn_time t - tb_last b) * tb_rate b"
    using turn_step_pays [of b t] refill_tokens_le [of b "turn_time t"] Cons.prems step by simp
  have fields: "tb_rate b' = tb_rate b" "tb_last b' = turn_time t"
    using turn_step_fields [of b t] step by simp_all
  show ?case
  proof (cases "ts = []")
    case True
    moreover have "0 \<le> tb_tokens b'" using ok by (simp add: bucket_ok_def)
    ultimately show ?thesis using pay step by simp
  next
    case False
    have "granted b' ts \<le> tb_tokens b' + (turn_time (last ts) - tb_last b') * tb_rate b'"
      using Cons.IH [OF ok] Cons.prems False fields by (simp add: chunks_nonneg_def)
    with pay fields False step show ?thesis
      by (simp add: algebra_simps)
  qed
qed

subsection \<open>Waiting ends\<close>

lemma acquire_turn_after_wait:
  assumes "bucket_ok b" "chunk \<le> tb_burst b" "acquire_turn now chunk b = (Some w, b')"
  shows "0 < w" "\<exists>b''. acquire_turn (now + w) chunk b' = (None, b'') \<and> tb_tokens b'' = 0"
proof -
  let ?r = "refill now b"
  from assms(3) have b': "b' = ?r" and w: "w = (chunk - tb_tokens ?r) / tb_rate b"
    and short: "tb_tokens ?r < chunk"
    by (auto simp: acquire_turn_def Let_def split: if_splits)
  have rate: "0 < tb_rate b"
    using assms(1) by (simp add: bucket_ok_def)
  from w short rate show "0 < w" by simp
  have "w * tb_rate b = chunk - tb_tokens ?r"
    using w rate by simp
  then have "tb_tokens (refill (now + w) b') = chunk"
    using b' \<open>0 < w\<close> assms(2) by (simp add: refill_def [of "now + w"] Let_def max_def)
  then show "\<exists>b''. acquire_turn (now + w) chunk b' = (None, b'') \<and> tb_tokens b'' = 0"
    by (simp add: acquire_turn_def Let_def)
qed

text \<open>
  Each chunk takes at most two turns (one sleep), so the turns are bounded by twice the
  number of full bursts, plus three.
\<close>

lemma acquire_terminates_aux:
  assumes "bucket_ok b" "remaining \<le> of_nat k * tb_burst b" "2 * k < fuel"
  shows "\<exists>r. acquire fuel now remaining b = Some r"
  using assms
proof (induction k arbitrary: fuel now remaining b)
  case 0
  then show ?case by (cases fuel) auto
next
  case (Suc k)
  obtain f where f: "fuel = Suc (Suc f)" "2 * k < f"
  proof
    show "fuel = Suc (Suc (fuel - 2))" "2 * k < fuel - 2"
      using Suc.prems(3) by simp_all
  qed
  have burst: "0 < tb_burst b"
    using Suc.prems(1) by (simp add: bucket_ok_def)
  show ?case
  proof (cases "0 < remaining")
    case False
    with f show ?thesis by simp
  next
    case pos: True
    define chunk where "chunk = min remaining (tb_burst b)"
    have chunk: "0 < chunk" "chunk \<le> tb_burst b"
      using pos burst by (simp_all add: chunk_def)
    have rest: "remaining - chunk \<le> of_nat k * tb_burst b"
    proof (cases "remaining \<le> tb_burst b")
      case True
      with burst show ?thesis by (simp add: chunk_def)
    next
      case False
      with Suc.prems(2) show ?thesis by (simp add: chunk_def algebra_simps)
    qed
    obtain w b' where turn: "acquire_turn now chunk b = (w, b')"
      by (cases "acquire_turn now chunk b")
    have b': "bucket_ok b'" "tb_burst b' = tb_burst b"
      using acquire_turn_ok [of b chunk now] acquire_turn_fields [where now = now and w = chunk and b = b]
        Suc.prems(1) chunk turn by simp_all
    show ?thesis
    proof (cases w)
      case None
      have "\<exists>r. acquire (Suc f) now (remaining - chunk) b' = Some r"
        using Suc.IH [of b' "remaining - chunk" "Suc f" now] b' rest f by simp
      with None turn pos f show ?thesis
        by (simp add: chunk_def Let_def)
    next
      case (Some t)
      obtain b'' where turn': "acquire_turn (now + t) chunk b' = (None, b'')"
        using acquire_turn_after_wait(2) [OF Suc.prems(1) chunk(2)] turn Some by blast
      have b'': "bucket_ok b''" "tb_burst b'' = tb_burst b"
        using acquire_turn_ok [of b' chunk "now + t"]
          acquire_turn_fields [where now = "now + t" and w = chunk and b = b'] b' chunk turn'
        by simp_all
      have "\<exists>r. acquire f (now + t) (remaining - chunk) b'' = Some r"
        using Suc.IH [of b'' "remaining - chunk" f "now + t"] b'' rest f by simp
      with Some turn turn' pos f b' show ?thesis
        by (simp add: chunk_def Let_def)
    qed
  qed
qed

section \<open>Properties\<close>

text \<open>C18. However the users of a bucket interleave their turns, the bytes they are granted up to
  some time are at most the tokens the bucket started with plus the rate times the time that
  has passed.\<close>

theorem bucket_rate_bound:
  assumes "from_mbps mbps t0 = Some b" "chunks_nonneg ts" "times_from t0 ts" "ts \<noteq> []"
  shows "granted b ts \<le> tb_burst b + (turn_time (last ts) - t0) * (of_int mbps * 125000)"
proof -
  have b: "tb_last b = t0" "tb_tokens b = tb_burst b" "tb_rate b = of_int mbps * 125000"
    using assms(1) by (auto simp: from_mbps_def Let_def split: if_splits)
  with granted_bound [OF from_mbps_ok [OF assms(1)] assms(2)] assms(3,4) show ?thesis
    by simp
qed

lemma bucket_rate_bound_witness:
  "granted \<lparr>tb_rate = 1000000, tb_burst = 200000, tb_tokens = 200000, tb_last = 0\<rparr>
     [Udp_Turn 0 150000, Tcp_Turn 1 65536] \<le> 200000 + (1 - 0) * (of_int 8 * 125000)"
  using bucket_rate_bound [of 8 0 "\<lparr>tb_rate = 1000000, tb_burst = 200000, tb_tokens = 200000, tb_last = 0\<rparr>"
      "[Udp_Turn 0 150000, Tcp_Turn 1 65536]"]
  by (simp add: from_mbps_def chunks_nonneg_def)

text \<open>Acquiring bytes from a bucket nobody else uses ends: two turns per full burst and one
  more for the rest are enough, whatever the amount.\<close>

theorem acquire_terminates:
  assumes "from_mbps mbps t0 = Some b" "of_nat want \<le> of_nat k * tb_burst b" "2 * k < fuel"
  shows "\<exists>t b'. acquire fuel now (of_nat want) b = Some (t, b')"
  using acquire_terminates_aux [OF from_mbps_ok [OF assms(1)] assms(2,3)] by auto

lemma acquire_terminates_witness:
  "\<exists>t b'. acquire 5 0 (of_nat 300000) \<lparr>tb_rate = 1000000, tb_burst = 200000, tb_tokens = 200000, tb_last = 0\<rparr>
     = Some (t, b')"
  using acquire_terminates [of 8 0 "\<lparr>tb_rate = 1000000, tb_burst = 200000, tb_tokens = 200000, tb_last = 0\<rparr>"
      300000 2 5 0]
  by (simp add: from_mbps_def)

end
