(* ===== verification/Net_Addr.thy ===== *)
theory Net_Addr
  imports Prelude
begin

text \<open>
  What the code uses of \<^verbatim>\<open>std::net\<close>: IPv4 and IPv6 addresses, socket addresses, the
  classification methods, and \<^verbatim>\<open>FromStr\<close> for \<^verbatim>\<open>IpAddr\<close>. The parser follows the standard
  library's: decimal octets of at most three digits without a leading zero; IPv6 groups of
  at most four hexadecimal digits, one \<^verbatim>\<open>::\<close>, and an optional IPv4 tail; the whole input
  must be consumed.
\<close>

datatype ipv4 = Ipv4 (o1: u8) (o2: u8) (o3: u8) (o4: u8)

datatype ipv6 = Ipv6 (g0: u16) (g1: u16) (g2: u16) (g3: u16) (g4: u16) (g5: u16) (g6: u16) (g7: u16)

datatype ip_addr = V4 ipv4 | V6 ipv6

datatype sock_addr = Sock_Addr (sa_ip: ip_addr) (sa_port: u16)

fun is_ipv4 :: "ip_addr \<Rightarrow> bool" where
  "is_ipv4 (V4 _) = True"
| "is_ipv4 (V6 _) = False"

definition is_ipv6 :: "ip_addr \<Rightarrow> bool" where
  "is_ipv6 a = (\<not> is_ipv4 a)"

section \<open>Classification\<close>

definition v4_unspecified :: ipv4 where
  "v4_unspecified = Ipv4 0 0 0 0"

fun v4_is_loopback :: "ipv4 \<Rightarrow> bool" where
  "v4_is_loopback (Ipv4 a b c d) = (a = 127)"

fun v4_is_private :: "ipv4 \<Rightarrow> bool" where
  "v4_is_private (Ipv4 a b c d) =
     (a = 10 \<or> (a = 172 \<and> 16 \<le> b \<and> b \<le> 31) \<or> (a = 192 \<and> b = 168))"

fun v4_is_link_local :: "ipv4 \<Rightarrow> bool" where
  "v4_is_link_local (Ipv4 a b c d) = (a = 169 \<and> b = 254)"

definition v4_is_unspecified :: "ipv4 \<Rightarrow> bool" where
  "v4_is_unspecified a = (a = Ipv4 0 0 0 0)"

definition v4_is_broadcast :: "ipv4 \<Rightarrow> bool" where
  "v4_is_broadcast a = (a = Ipv4 255 255 255 255)"

definition v6_is_loopback :: "ipv6 \<Rightarrow> bool" where
  "v6_is_loopback a = (a = Ipv6 0 0 0 0 0 0 0 1)"

definition v6_is_unspecified :: "ipv6 \<Rightarrow> bool" where
  "v6_is_unspecified a = (a = Ipv6 0 0 0 0 0 0 0 0)"

text \<open>\<^verbatim>\<open>Ipv6Addr::to_ipv4_mapped\<close>: the address \<^verbatim>\<open>::ffff:a.b.c.d\<close> as \<^verbatim>\<open>a.b.c.d\<close>.\<close>

fun to_ipv4_mapped :: "ipv6 \<Rightarrow> ipv4 option" where
  "to_ipv4_mapped (Ipv6 s0 s1 s2 s3 s4 s5 s6 s7) =
     (if s0 = 0 \<and> s1 = 0 \<and> s2 = 0 \<and> s3 = 0 \<and> s4 = 0 \<and> s5 = 0xffff
      then Some (Ipv4 (ucast (drop_bit 8 s6)) (ucast s6) (ucast (drop_bit 8 s7)) (ucast s7))
      else None)"

fun v4_to_mapped :: "ipv4 \<Rightarrow> ipv6" where
  "v4_to_mapped (Ipv4 a b c d) =
     Ipv6 0 0 0 0 0 0xffff (push_bit 8 (ucast a) OR ucast b) (push_bit 8 (ucast c) OR ucast d)"

lemma ucast_high_octet:
  fixes a b :: u8
  shows "ucast (drop_bit 8 (push_bit 8 (ucast a) OR ucast b :: u16)) = a"
proof (rule bit_word_eqI)
  fix n
  assume "n < LENGTH(8)"
  moreover have "\<not> bit b (8 + n)"
    using bit_imp_le_length [of b "8 + n"] by auto
  ultimately show "bit (ucast (drop_bit 8 (push_bit 8 (ucast a) OR ucast b :: u16)) :: u8) n = bit a n"
    by (simp add: bit_ucast_iff bit_drop_bit_eq bit_push_bit_iff bit_or_iff)
qed

lemma ucast_low_octet:
  fixes a b :: u8
  shows "ucast (push_bit 8 (ucast a) OR ucast b :: u16) = b"
  by (rule bit_word_eqI)
    (auto simp: bit_ucast_iff bit_push_bit_iff bit_or_iff)

lemma to_ipv4_mapped_of_mapped [simp]: "to_ipv4_mapped (v4_to_mapped a) = Some a"
  by (cases a) (simp add: ucast_high_octet ucast_low_octet del: drop_bit_or)

section \<open>Parsing\<close>

text \<open>\<^verbatim>\<open>char::to_digit(radix)\<close>, for radix 10 and 16; letters of either case.\<close>

definition to_digit :: "nat \<Rightarrow> char \<Rightarrow> nat option" where
  "to_digit radix c =
     (let n = of_char c :: nat;
          d = (if 48 \<le> n \<and> n \<le> 57 then Some (n - 48)
               else if 97 \<le> n \<and> n \<le> 122 then Some (n - 87)
               else if 65 \<le> n \<and> n \<le> 90 then Some (n - 55)
               else None)
      in case d of None \<Rightarrow> None | Some k \<Rightarrow> if k < radix then Some k else None)"

text \<open>The maximal run of digits: its value, its length, and the rest of the input.\<close>

fun read_digits :: "nat \<Rightarrow> string \<Rightarrow> nat \<times> nat \<times> string" where
  "read_digits radix [] = (0, 0, [])"
| "read_digits radix (c # cs) =
     (case to_digit radix c of
        None \<Rightarrow> (0, 0, c # cs)
      | Some d \<Rightarrow> (case read_digits radix cs of
                    (v, n, rest) \<Rightarrow> (d * radix ^ n + v, Suc n, rest)))"

definition read_number :: "nat \<Rightarrow> nat \<Rightarrow> bool \<Rightarrow> nat \<Rightarrow> string \<Rightarrow> (nat \<times> string) option" where
  "read_number radix max_digits allow_zero_prefix bound s =
     (case read_digits radix s of (v, n, rest) \<Rightarrow>
        if n = 0 \<or> max_digits < n then None
        else if \<not> allow_zero_prefix \<and> hd s = CHR ''0'' \<and> 1 < n then None
        else if bound \<le> v then None
        else Some (v, rest))"

definition read_given_char :: "char \<Rightarrow> string \<Rightarrow> string option" where
  "read_given_char c s = (case s of [] \<Rightarrow> None | x # xs \<Rightarrow> if x = c then Some xs else None)"

text \<open>\<^verbatim>\<open>read_separator\<close>: the separator is read before every item but the first.\<close>

definition read_sep :: "char \<Rightarrow> bool \<Rightarrow> string \<Rightarrow> string option" where
  "read_sep c first s = (if first then Some s else read_given_char c s)"

definition read_octet :: "bool \<Rightarrow> string \<Rightarrow> (nat \<times> string) option" where
  "read_octet first s =
     (case read_sep CHR ''.'' first s of None \<Rightarrow> None | Some s' \<Rightarrow> read_number 10 3 False 256 s')"

definition read_ipv4 :: "string \<Rightarrow> (ipv4 \<times> string) option" where
  "read_ipv4 s =
     (case read_octet True s of None \<Rightarrow> None | Some (a, s1) \<Rightarrow>
      (case read_octet False s1 of None \<Rightarrow> None | Some (b, s2) \<Rightarrow>
       (case read_octet False s2 of None \<Rightarrow> None | Some (c, s3) \<Rightarrow>
        (case read_octet False s3 of None \<Rightarrow> None | Some (d, s4) \<Rightarrow>
           Some (Ipv4 (of_nat a) (of_nat b) (of_nat c) (of_nat d), s4)))))"

text \<open>
  \<^verbatim>\<open>read_groups\<close>: reads at most \<open>n\<close> groups (\<open>n\<close> is the room left), the first one without
  a separator; an IPv4 tail counts for two groups, needs room for two and ends the run.
  Returns the groups, whether an IPv4 tail was read, and the rest.
\<close>

fun read_groups :: "nat \<Rightarrow> bool \<Rightarrow> string \<Rightarrow> nat list \<times> bool \<times> string" where
  "read_groups 0 first s = ([], False, s)"
| "read_groups (Suc n) first s =
     (case (if 0 < n then (case read_sep CHR '':'' first s of None \<Rightarrow> None | Some s' \<Rightarrow> read_ipv4 s')
            else None) of
        Some (Ipv4 a b c d, rest) \<Rightarrow>
          ([unat a * 256 + unat b, unat c * 256 + unat d], True, rest)
      | None \<Rightarrow>
          (case (case read_sep CHR '':'' first s of None \<Rightarrow> None
                 | Some s' \<Rightarrow> read_number 16 4 True 65536 s') of
             None \<Rightarrow> ([], False, s)
           | Some (g, rest) \<Rightarrow>
               (case read_groups n False rest of (gs, v4, rest') \<Rightarrow> (g # gs, v4, rest'))))"

definition ipv6_of :: "nat list \<Rightarrow> ipv6 option" where
  "ipv6_of gs = (case map of_nat gs of
     [a, b, c, d, e, f, g, h] \<Rightarrow> Some (Ipv6 a b c d e f g h) | _ \<Rightarrow> None)"

definition read_ipv6 :: "string \<Rightarrow> (ipv6 \<times> string) option" where
  "read_ipv6 s =
     (case read_groups 8 True s of (head, head4, s1) \<Rightarrow>
        if length head = 8 then map_option (\<lambda>a. (a, s1)) (ipv6_of head)
        else if head4 then None
        else (case Option.bind (read_given_char CHR '':'' s1) (read_given_char CHR '':'') of
                None \<Rightarrow> None
              | Some s2 \<Rightarrow>
                  (case read_groups (8 - (length head + 1)) True s2 of (tail, _, s3) \<Rightarrow>
                     map_option (\<lambda>a. (a, s3))
                       (ipv6_of (head @ replicate (8 - length head - length tail) 0 @ tail)))))"

definition at_end :: "('a \<times> string) option \<Rightarrow> 'a option" where
  "at_end r = (case r of Some (a, []) \<Rightarrow> Some a | _ \<Rightarrow> None)"

definition parse_ipv6 :: "string \<Rightarrow> ipv6 option" where
  "parse_ipv6 s = at_end (read_ipv6 s)"

text \<open>\<^verbatim>\<open>IpAddr::from_str\<close>: the first reader that succeeds decides, then the input must be at its end.\<close>

definition parse_ip :: "string \<Rightarrow> ip_addr option" where
  "parse_ip s = at_end (case read_ipv4 s of
       Some (a, rest) \<Rightarrow> Some (V4 a, rest)
     | None \<Rightarrow> map_option (\<lambda>(a, rest). (V6 a, rest)) (read_ipv6 s))"

section \<open>Printing\<close>

fun dec :: "nat \<Rightarrow> string" where
  "dec n = (if n < 10 then [char_of (48 + n)] else dec (n div 10) @ [char_of (48 + n mod 10)])"

declare dec.simps [simp del]

definition show_int :: "int \<Rightarrow> string" where
  "show_int i = (if i < 0 then ''-'' @ dec (nat (- i)) else dec (nat i))"

fun show_ipv4 :: "ipv4 \<Rightarrow> string" where
  "show_ipv4 (Ipv4 a b c d) =
     dec (unat a) @ ''.'' @ dec (unat b) @ ''.'' @ dec (unat c) @ ''.'' @ dec (unat d)"

text \<open>Decimal numbers are read back.\<close>

definition undec :: "string \<Rightarrow> nat" where
  "undec s = foldl (\<lambda>a c. 10 * a + (of_char c - 48)) 0 s"

lemma undec_dec: "undec (dec n) = n"
proof (induction n rule: less_induct)
  case (less n)
  have digit: "k < 10 \<Longrightarrow> of_char (char_of (48 + k)) - 48 = k" for k :: nat
    by simp
  show ?case
  proof (cases "n < 10")
    case True
    then show ?thesis using digit [of n] by (subst dec.simps) (simp add: undec_def)
  next
    case False
    then have "undec (dec (n div 10)) = n div 10" by (intro less) simp
    with False digit [of "n mod 10"] show ?thesis
      by (subst dec.simps) (simp add: undec_def)
  qed
qed

lemma dec_inject [simp]: "dec m = dec n \<longleftrightarrow> m = n"
  by (metis undec_dec)

lemma dec_digits: "c \<in> set (dec n) \<Longrightarrow> c \<noteq> CHR ''-''"
proof (induction n rule: less_induct)
  case (less n)
  have digit: "k < 10 \<Longrightarrow> char_of (48 + k) \<noteq> CHR ''-''" for k :: nat
  proof
    assume "k < 10" "char_of (48 + k) = CHR ''-''"
    then have "of_char (char_of (48 + k) :: char) = (45 :: nat)" by simp
    with \<open>k < 10\<close> show False by simp
  qed
  show ?case
  proof (cases "n < 10")
    case True
    with less(2) digit [of n] show ?thesis by (subst (asm) dec.simps) auto
  next
    case False
    with less(2) less(1) [of "n div 10"] digit [of "n mod 10"] show ?thesis
      by (subst (asm) dec.simps) auto
  qed
qed

lemma dec_no_minus: "dec n \<noteq> CHR ''-'' # s"
  using dec_digits [of "CHR ''-''" n] by auto

lemma show_int_inject [simp]: "show_int i = show_int j \<longleftrightarrow> i = j"
proof -
  have "dec m \<noteq> CHR ''-'' # dec n" "CHR ''-'' # dec n \<noteq> dec m" for m n
    using dec_no_minus [of m "dec n"] by auto
  then show ?thesis
    by (auto simp: show_int_def)
qed

end
