(* ===== verification/Relay_Net.thy ===== *)
theory Relay_Net
  imports Net_Addr
begin

text \<open>
  \<^verbatim>\<open>node-agent/src/relay/mod.rs\<close>: the helpers the forwarding paths share. Classification of
  addresses that must not be reached through a resolved name, the guard after resolution,
  the errors of \<^verbatim>\<open>accept\<close>, joining host and port, and the address family preference.
\<close>

section \<open>Errors of accept\<close>

datatype io_error_kind = Connection_Aborted | Connection_Refused | Not_Found | Timed_Out
  | Would_Block | Invalid_Input | Other_Kind

record io_error =
  ioe_kind :: io_error_kind
  ioe_os_error :: "int option"

definition accept_error_is_benign :: "io_error \<Rightarrow> bool" where
  "accept_error_is_benign err = (ioe_kind err = Connection_Aborted)"

text \<open>The Linux values of \<^verbatim>\<open>libc\<close>: \<^verbatim>\<open>EMFILE\<close> 24, \<^verbatim>\<open>ENFILE\<close> 23, \<^verbatim>\<open>ENOBUFS\<close> 105, \<^verbatim>\<open>ENOMEM\<close> 12.\<close>

definition is_resource_exhausted :: "io_error \<Rightarrow> bool" where
  "is_resource_exhausted err = (case ioe_os_error err of
     None \<Rightarrow> False
   | Some c \<Rightarrow> c \<in> set [24, 23, 105, 12])"

text \<open>The milliseconds slept before the next \<^verbatim>\<open>accept\<close>.\<close>

definition accept_backoff :: "io_error \<Rightarrow> nat" where
  "accept_backoff err = (if is_resource_exhausted err then 1000 else 0)"

section \<open>Addresses behind a resolved name\<close>

fun is_internal_addr_v4 :: "ipv4 \<Rightarrow> bool" where
  "is_internal_addr_v4 (Ipv4 a b c d) =
     (v4_is_loopback (Ipv4 a b c d) \<or> v4_is_private (Ipv4 a b c d)
      \<or> v4_is_link_local (Ipv4 a b c d) \<or> v4_is_unspecified (Ipv4 a b c d)
      \<or> v4_is_broadcast (Ipv4 a b c d) \<or> (a = 100 \<and> b AND 0xc0 = 64))"

definition is_internal_addr :: "ip_addr \<Rightarrow> bool" where
  "is_internal_addr ip = (case ip of
     V4 v4 \<Rightarrow> is_internal_addr_v4 v4
   | V6 v6 \<Rightarrow> (case to_ipv4_mapped v6 of
        Some v4 \<Rightarrow> is_internal_addr_v4 v4
      | None \<Rightarrow> v6_is_loopback v6 \<or> v6_is_unspecified v6
          \<or> g0 v6 AND 0xfe00 = 0xfc00 \<or> g0 v6 AND 0xffc0 = 0xfe80))"

datatype guard_error = Resolved_To_Internal string ip_addr

definition guard_resolved_target :: "string \<Rightarrow> sock_addr \<Rightarrow> guard_error + unit" where
  "guard_resolved_target target_host peer =
     (if parse_ip target_host \<noteq> None then Inr ()
      else if is_internal_addr (sa_ip peer) then Inl (Resolved_To_Internal target_host (sa_ip peer))
      else Inr ())"

lemma guard_resolved_target_ok_iff:
  "guard_resolved_target h p = Inr () \<longleftrightarrow> parse_ip h \<noteq> None \<or> \<not> is_internal_addr (sa_ip p)"
  by (auto simp: guard_resolved_target_def)

lemma is_internal_addr_mapped: "is_internal_addr (V6 (v4_to_mapped a)) = is_internal_addr (V4 a)"
  by (simp add: is_internal_addr_def)

section \<open>Joining host and port, binding, address family\<close>

definition join_host_port :: "string \<Rightarrow> u16 \<Rightarrow> string" where
  "join_host_port host port =
     (if parse_ipv6 host \<noteq> None then ''['' @ host @ '']:'' @ dec (unat port)
      else host @ '':'' @ dec (unat port))"

definition udp_bind_addr_for :: "ip_addr \<Rightarrow> string" where
  "udp_bind_addr_for ip = (if is_ipv6 ip then ''[::]:0'' else ''0.0.0.0:0'')"

definition filter_af :: "ip_addr list \<Rightarrow> string \<Rightarrow> ip_addr list" where
  "filter_af ips remote_af =
     (if remote_af = ''v4'' then filter is_ipv4 ips
      else if remote_af = ''v6'' then filter is_ipv6 ips
      else ips)"

text \<open>
  \<^verbatim>\<open>bind_tcp_dual\<close>: what is bound for an address. \<open>try_dual\<close> is the outcome of binding
  \<^verbatim>\<open>[::]:port\<close> dual-stack and \<open>try_bind\<close> the outcome of a plain bind.
\<close>

datatype bound = Dual_Stack u16 | Plain sock_addr

definition bind_tcp_dual ::
    "(u16 \<Rightarrow> bool) \<Rightarrow> (sock_addr \<Rightarrow> bool) \<Rightarrow> sock_addr option \<Rightarrow> io_error_kind + bound" where
  "bind_tcp_dual try_dual try_bind addr = (case addr of
     None \<Rightarrow> Inl Invalid_Input
   | Some sa \<Rightarrow>
       (if sa_ip sa = V4 v4_unspecified \<and> try_dual (sa_port sa) then Inr (Dual_Stack (sa_port sa))
        else if try_bind sa then Inr (Plain sa) else Inl Other_Kind))"

lemma set_filter_af: "set (filter_af ips af) \<subseteq> set ips"
  by (auto simp: filter_af_def)

lemma filter_af_v4: "af = ''v4'' \<Longrightarrow> a \<in> set (filter_af ips af) \<Longrightarrow> is_ipv4 a"
  by (auto simp: filter_af_def)

lemma filter_af_v6: "af = ''v6'' \<Longrightarrow> a \<in> set (filter_af ips af) \<Longrightarrow> is_ipv6 a"
  by (auto simp: filter_af_def)

lemma bind_tcp_dual_port:
  "bind_tcp_dual td tb (Some sa) = Inr b \<Longrightarrow>
     (case b of Dual_Stack p \<Rightarrow> p = sa_port sa \<and> sa_ip sa = V4 v4_unspecified | Plain s \<Rightarrow> s = sa)"
  by (auto simp: bind_tcp_dual_def split: if_splits)

end
