(* ===== verification/Proto.thy ===== *)
theory Proto
  imports Prelude Complex_Main
begin

text \<open>
  The messages of the control plane (\<^verbatim>\<open>crates/common/proto/control.proto\<close>) that the two sides
  exchange. A \<^verbatim>\<open>uint32\<close> is a 32-bit word, an \<^verbatim>\<open>int64\<close> identifier is an integer, a message
  field is an option, a repeated field a list, and a \<^verbatim>\<open>oneof\<close> a datatype. The role of a tunnel
  hop is the number on the wire; \<open>tunnel_role_of\<close> is prost's checked conversion.
\<close>

datatype tunnel_role = Role_Unspecified | Role_Entry | Role_Mid | Role_Exit

definition tunnel_role_of :: "int \<Rightarrow> tunnel_role option" where
  "tunnel_role_of n =
     (if n = 0 then Some Role_Unspecified else if n = 1 then Some Role_Entry
      else if n = 2 then Some Role_Mid else if n = 3 then Some Role_Exit else None)"

fun role_number :: "tunnel_role \<Rightarrow> int" where
  "role_number Role_Unspecified = 0"
| "role_number Role_Entry = 1"
| "role_number Role_Mid = 2"
| "role_number Role_Exit = 3"

record target_endpoint =
  te_host :: string
  te_port :: u32

record tunnel_context =
  tc_tunnel_id :: int
  tc_role :: int
  tc_next_hop_addr :: string
  tc_next_hop_inter_port :: u32
  tc_self_inter_port :: u32
  tc_transport :: string
  tc_self_ordinal :: u32

record rule =
  r_id :: int
  r_protocol :: string
  r_listen_ip :: string
  r_listen_port :: u32
  r_target_host :: string
  r_target_port :: u32
  r_enabled :: bool
  r_bandwidth_mbps :: int
  r_tunnel :: "tunnel_context option"
  r_max_connections :: int
  r_blocked_protocols :: u32
  r_extra_targets :: "target_endpoint list"
  r_lb_strategy :: string
  r_send_proxy_protocol :: bool
  r_remote_af :: string

record tunnel_credentials =
  cr_tunnel_id :: int
  cr_ordinal :: int
  cr_server_cert_pem :: string
  cr_server_key_pem :: string
  cr_client_cert_pem :: string
  cr_client_key_pem :: string
  cr_ca_pem :: string

record probe =
  p_probe_id :: string
  p_target_host :: string
  p_target_port :: u32
  p_count :: u32

record upgrade_agent =
  ua_version :: string
  ua_base_url :: string
  ua_sha256_amd64 :: string
  ua_sha256_arm64 :: string

datatype body =
    Apply_Rule "rule option"
  | Remove_Rule int
  | Enable_Rule int
  | Disable_Rule int
  | Restart_Rule int
  | Tunnel_Credentials tunnel_credentials
  | Revoke_Tunnel_Credentials int
  | Upgrade_Agent upgrade_agent
  | Reconcile_Rules "int list"
  | Probe probe

record command =
  c_body :: "body option"

record rule_stats_bucket =
  sb_rule_id :: int
  sb_bucket_at :: int
  sb_rx :: int
  sb_tx :: int
  sb_conn :: int
  sb_err :: int

record node_stats_bucket =
  nb_bucket_at :: int
  nb_cpu_usage :: rat
  nb_memory_usage :: rat
  nb_load_average :: rat
  nb_rx :: int
  nb_tx :: int

record ack =
  ack_ok :: bool
  ack_error :: string

text \<open>The commands on rules, as the panel builds them.\<close>

definition apply_command :: "rule \<Rightarrow> command" where
  "apply_command r = \<lparr>c_body = Some (Apply_Rule (Some r))\<rparr>"

definition remove_command :: "int \<Rightarrow> command" where
  "remove_command i = \<lparr>c_body = Some (Remove_Rule i)\<rparr>"

definition restart_command :: "int \<Rightarrow> command" where
  "restart_command i = \<lparr>c_body = Some (Restart_Rule i)\<rparr>"

definition reconcile_command :: "int list \<Rightarrow> command" where
  "reconcile_command ids = \<lparr>c_body = Some (Reconcile_Rules ids)\<rparr>"

text \<open>The rules that a list of commands applies, in their order.\<close>

definition applied_rule :: "command \<Rightarrow> rule option" where
  "applied_rule c = (case c_body c of Some (Apply_Rule r) \<Rightarrow> r | _ \<Rightarrow> None)"

definition applied_rules :: "command list \<Rightarrow> rule list" where
  "applied_rules cs = List.map_filter applied_rule cs"

lemma applied_rule_simps [simp]:
  "applied_rule (apply_command r) = Some r"
  "applied_rule \<lparr>c_body = Some (Tunnel_Credentials cr)\<rparr> = None"
  by (simp_all add: applied_rule_def apply_command_def)

lemma applied_rules_simps [simp]:
  "applied_rules [] = []"
  "applied_rules (c # cs) = (case applied_rule c of None \<Rightarrow> [] | Some r \<Rightarrow> [r]) @ applied_rules cs"
  "applied_rules (cs @ ds) = applied_rules cs @ applied_rules ds"
  by (simp_all add: applied_rules_def map_filter_def split: option.split)

lemma applied_rules_apply [simp]: "applied_rules (map apply_command rs) = rs"
  by (induction rs) simp_all

lemma tunnel_role_of_number [simp]: "tunnel_role_of (role_number r) = Some r"
  by (cases r) (simp_all add: tunnel_role_of_def)

lemma tunnel_role_of_Some_iff: "tunnel_role_of n = Some r \<longleftrightarrow> n = role_number r"
  by (cases r) (auto simp: tunnel_role_of_def)

end
