(* ===== verification/World.thy ===== *)
theory World
  imports Stats Rate_Limits Relay_Net Proto
begin

text \<open>
  What the relays of one agent share while they run: the counters, the token buckets (an
  \<^verbatim>\<open>Arc\<close> of a bucket is its address), and the listening sockets the process holds. Whether a
  bind succeeds depends on the operating system and on the sockets already held; it is the
  field \<open>ev_bind\<close> of the environment. Dropping a listener releases its socket.
\<close>

datatype l4 = Tcp | Udp

type_synonym socket = "l4 \<times> sock_addr"

record world =
  w_stats :: stats
  w_buckets :: "token_bucket list"
  w_bound :: "socket list"

record env =
  ev_now :: rat
  ev_bind :: "socket list \<Rightarrow> l4 \<Rightarrow> sock_addr \<Rightarrow> bool"
  ev_credentials :: "int \<Rightarrow> u32 \<Rightarrow> bool"

datatype start_error =
    Invalid_Listen_Ip string
  | Listen_Port_Range u32
  | Bind_Failed l4 sock_addr
  | Target_Port_Range u32
  | No_Tunnel_Context
  | Unspecified_Role int
  | Unknown_Transport string
  | Transport_Load int u32
  | Entry_Must_Not_Bind
  | Bad_Bind_Addr u32

definition bind_socket :: "env \<Rightarrow> l4 \<Rightarrow> sock_addr \<Rightarrow> world \<Rightarrow> (start_error + unit) \<times> world" where
  "bind_socket ev l sa w =
     (if ev_bind ev (w_bound w) l sa then (Inr (), w\<lparr>w_bound := (l, sa) # w_bound w\<rparr>)
      else (Inl (Bind_Failed l sa), w))"

definition release_socket :: "l4 \<Rightarrow> sock_addr \<Rightarrow> world \<Rightarrow> world" where
  "release_socket l sa w = w\<lparr>w_bound := remove1 (l, sa) (w_bound w)\<rparr>"

text \<open>\<^verbatim>\<open>TokenBucket::from_mbps\<close> and the allocation of its \<^verbatim>\<open>Arc\<close>.\<close>

definition new_bucket :: "env \<Rightarrow> int \<Rightarrow> world \<Rightarrow> nat option \<times> world" where
  "new_bucket ev mbps w = (case from_mbps mbps (ev_now ev) of
     None \<Rightarrow> (None, w)
   | Some b \<Rightarrow> (Some (length (w_buckets w)), w\<lparr>w_buckets := w_buckets w @ [b]\<rparr>))"

definition ensure_counter :: "int \<Rightarrow> world \<Rightarrow> nat \<times> world" where
  "ensure_counter rid w = (case ensure rid (w_stats w) of (a, s) \<Rightarrow> (a, w\<lparr>w_stats := s\<rparr>))"

text \<open>The listening address of a rule, with the errors in the order of the code.\<close>

definition listen_addr :: "rule \<Rightarrow> start_error + sock_addr" where
  "listen_addr r =
     bindR (ok_or (Invalid_Listen_Ip (r_listen_ip r)) (parse_ip (r_listen_ip r))) (\<lambda>ip.
     bindR (ok_or (Listen_Port_Range (r_listen_port r)) (u16_try_from (r_listen_port r))) (\<lambda>port.
       Inr (Sock_Addr ip port)))"

lemma bind_socket_bound:
  "w_bound (snd (bind_socket ev l sa w)) =
     (if fst (bind_socket ev l sa w) = Inr () then (l, sa) # w_bound w else w_bound w)"
  by (simp add: bind_socket_def)

lemma bind_socket_frame [frame_simps]:
  "w_stats (snd (bind_socket ev l sa w)) = w_stats w"
  "w_buckets (snd (bind_socket ev l sa w)) = w_buckets w"
  by (simp_all add: bind_socket_def)

lemma new_bucket_frame [frame_simps]:
  "w_bound (snd (new_bucket ev m w)) = w_bound w"
  "w_stats (snd (new_bucket ev m w)) = w_stats w"
  by (auto simp: new_bucket_def split: option.split)

lemma ensure_counter_frame [frame_simps]:
  "w_bound (snd (ensure_counter r w)) = w_bound w"
  "w_buckets (snd (ensure_counter r w)) = w_buckets w"
  "w_stats (snd (ensure_counter r w)) = snd (ensure r (w_stats w))"
  by (simp_all add: ensure_counter_def split: prod.split)

lemma release_socket_frame [frame_simps]:
  "w_stats (release_socket l sa w) = w_stats w"
  "w_buckets (release_socket l sa w) = w_buckets w"
  "w_bound (release_socket l sa w) = remove1 (l, sa) (w_bound w)"
  by (simp_all add: release_socket_def)

lemma listen_addr_ok:
  "listen_addr r = Inr sa \<longleftrightarrow>
     parse_ip (r_listen_ip r) = Some (sa_ip sa) \<and> u16_try_from (r_listen_port r) = Some (sa_port sa)"
  by (cases sa) (auto simp: listen_addr_def bindR_eq_Inr)

end
