(* ===== verification/Dns_Cache.thy ===== *)
theory Dns_Cache
  imports Relay_Net
begin

text \<open>
  \<^verbatim>\<open>node-agent/src/dns.rs\<close>: the cache in front of \<^verbatim>\<open>getaddrinfo\<close>. Instants are seconds. The
  mutex is held by \<open>cache_get\<close> and by \<open>cache_put\<close>, not across the lookup, so a resolution is two
  steps between which other tasks run; the system's resolver is an argument.
\<close>

type_synonym dns_cache = "(string \<times> (ip_addr list \<times> int)) list"

definition TTL :: int where "TTL = 60"

definition MAX_ENTRIES :: nat where "MAX_ENTRIES = 1024"

definition elapsed :: "int \<Rightarrow> int \<Rightarrow> int" where
  "elapsed now at = max 0 (now - at)"

definition cache_get :: "int \<Rightarrow> string \<Rightarrow> dns_cache \<Rightarrow> ip_addr list option" where
  "cache_get now host m = (case hm_get m host of
     None \<Rightarrow> None
   | Some (ips, at) \<Rightarrow> if elapsed now at < TTL then Some ips else None)"

definition cache_put :: "int \<Rightarrow> string \<Rightarrow> ip_addr list \<Rightarrow> dns_cache \<Rightarrow> dns_cache" where
  "cache_put now host ips m =
     (if MAX_ENTRIES \<le> length m
      then (let m' = hm_retain (\<lambda>_ (_, at). elapsed now at < TTL) m
            in if MAX_ENTRIES \<le> length m' then m' else hm_insert host (ips, now) m')
      else hm_insert host (ips, now) m)"

text \<open>
  \<^verbatim>\<open>resolve_target\<close> up to the lookup: an answer, or the need to ask the resolver; and what it does
  with the resolver's answer.
\<close>

definition resolve_begin :: "int \<Rightarrow> string \<Rightarrow> dns_cache \<Rightarrow> ip_addr list option" where
  "resolve_begin now host m = (case parse_ip host of
     Some ip \<Rightarrow> Some [ip]
   | None \<Rightarrow> cache_get now host m)"

definition resolve_end ::
    "int \<Rightarrow> string \<Rightarrow> io_error_kind + ip_addr list \<Rightarrow> dns_cache
     \<Rightarrow> (io_error_kind + ip_addr list) \<times> dns_cache" where
  "resolve_end now host answer m = (case answer of
     Inl e \<Rightarrow> (Inl e, m)
   | Inr ips \<Rightarrow> (Inr ips, if ips = [] then m else cache_put now host ips m))"

definition resolve_target ::
    "(string \<Rightarrow> io_error_kind + ip_addr list) \<Rightarrow> int \<Rightarrow> int \<Rightarrow> string \<Rightarrow> dns_cache
     \<Rightarrow> (io_error_kind + ip_addr list) \<times> dns_cache" where
  "resolve_target getaddrinfo t0 t1 host m = (case resolve_begin t0 host m of
     Some ips \<Rightarrow> (Inr ips, m)
   | None \<Rightarrow> resolve_end t1 host (getaddrinfo host) m)"

section \<open>Size\<close>

datatype dns_op = Dns_Lookup int string | Dns_Answer int string "io_error_kind + ip_addr list"

fun dns_step :: "dns_cache \<Rightarrow> dns_op \<Rightarrow> dns_cache" where
  "dns_step m (Dns_Lookup now host) = m"
| "dns_step m (Dns_Answer now host a) = snd (resolve_end now host a m)"

lemma cache_put_length:
  "length (cache_put now host ips m) \<le> Suc (length m)
   \<and> (MAX_ENTRIES \<le> length m \<longrightarrow> length (cache_put now host ips m) \<le> length m)"
proof -
  let ?m = "hm_retain (\<lambda>_ (_, at). elapsed now at < TTL) m"
  have "length ?m \<le> length m"
    by (rule length_hm_retain_le)
  moreover have "length (hm_insert host (ips, now) x) \<le> Suc (length x)" for x
    by (simp add: length_hm_insert)
  ultimately show ?thesis
    unfolding cache_put_def Let_def
    by (auto simp: not_le length_hm_insert intro: le_SucI)
qed

interpretation dns: capped_table dns_step length "\<lambda>_. MAX_ENTRIES"
proof
  fix s e
  show "length (dns_step s e) \<le> Suc (length s)"
    using cache_put_length by (cases e) (auto simp: resolve_end_def split: sum.split)
  show "MAX_ENTRIES \<le> length s \<Longrightarrow> length (dns_step s e) \<le> length s"
    using cache_put_length by (cases e) (auto simp: resolve_end_def split: sum.split)
qed simp

section \<open>Content\<close>

lemma hm_wf_cache_put [keeps_inv]: "hm_wf m \<Longrightarrow> hm_wf (cache_put now host ips m)"
  by (auto simp: cache_put_def Let_def)

text \<open>Every entry was answered by the resolver at the time it carries.\<close>

definition sound_cache :: "(int \<times> string \<times> ip_addr list) set \<Rightarrow> dns_cache \<Rightarrow> bool" where
  "sound_cache answers m = (hm_wf m \<and> (\<forall>(h, ips, at) \<in> set m. ips \<noteq> [] \<and> (at, h, ips) \<in> answers))"

lemma set_hm_insert: "set (hm_insert k v m) \<subseteq> insert (k, v) (set m)"
  by (induction m) auto

lemma sound_cache_put:
  assumes "sound_cache A m" "ips \<noteq> []"
  shows "sound_cache (insert (now, host, ips) A) (cache_put now host ips m)"
proof -
  have "set (hm_retain p m) \<subseteq> set m" for p
    by (auto simp: hm_retain_def)
  then have "set (cache_put now host ips m) \<subseteq> insert (host, ips, now) (set m)"
    unfolding cache_put_def Let_def using set_hm_insert by (smt (verit) insert_mono subset_insertI2 subset_trans)
  moreover have "hm_wf (cache_put now host ips m)"
    using assms by (simp add: sound_cache_def hm_wf_cache_put)
  ultimately show ?thesis
    using assms unfolding sound_cache_def by blast
qed

lemma cache_get_sound:
  assumes "sound_cache A m" "cache_get now host m = Some ips"
  shows "\<exists>at. (at, host, ips) \<in> A \<and> now - at < TTL \<and> ips \<noteq> []"
  using assms
  by (fastforce simp: cache_get_def sound_cache_def elapsed_def dest!: map_of_SomeD
      split: option.splits prod.splits if_splits)

lemma cache_get_put:
  assumes "hm_wf m" "t \<le> now" "now - t < TTL" "length m < MAX_ENTRIES"
  shows "cache_get now host (cache_put t host ips m) = Some ips"
  using assms by (simp add: cache_get_def cache_put_def elapsed_def TTL_def)

section \<open>Properties\<close>

text \<open>The cache after a run of lookups and answers, with the answers it was given.\<close>

fun answers_of :: "dns_op list \<Rightarrow> (int \<times> string \<times> ip_addr list) set" where
  "answers_of [] = {}"
| "answers_of (Dns_Lookup _ _ # ops) = answers_of ops"
| "answers_of (Dns_Answer now host (Inl _) # ops) = answers_of ops"
| "answers_of (Dns_Answer now host (Inr ips) # ops) = insert (now, host, ips) (answers_of ops)"

lemma sound_cache_mono: "sound_cache A m \<Longrightarrow> A \<subseteq> B \<Longrightarrow> sound_cache B m"
  by (fastforce simp: sound_cache_def)

lemma sound_cache_run: "sound_cache A m \<Longrightarrow> sound_cache (A \<union> answers_of ops) (foldl dns_step m ops)"
proof (induction ops arbitrary: A m)
  case Nil
  then show ?case by simp
next
  case (Cons op ops)
  show ?case
  proof (cases op)
    case (Dns_Lookup now host)
    with Cons show ?thesis by simp
  next
    case (Dns_Answer now host a)
    show ?thesis
    proof (cases a)
      case (Inl e)
      with Dns_Answer Cons show ?thesis by (simp add: resolve_end_def)
    next
      case (Inr ips)
      have "sound_cache (insert (now, host, ips) A) (dns_step m op)"
        using sound_cache_put [OF Cons.prems, of ips now host] sound_cache_mono [OF Cons.prems]
        by (cases "ips = []") (auto simp: Dns_Answer Inr resolve_end_def)
      from Cons.IH [OF this] Dns_Answer Inr show ?thesis
        by simp
    qed
  qed
qed

text \<open>After any run of lookups and answers, in any order, the cache holds at most 1024 names,
  and what it answers for a name was given by the resolver for that name less than 60 seconds ago.\<close>

theorem dns_cache_fresh_and_bounded:
  assumes "cache_get now host (foldl dns_step [] ops) = Some ips"
  shows "length (foldl dns_step [] ops) \<le> 1024
    \<and> (\<exists>t. (t, host, ips) \<in> answers_of ops \<and> now - t < 60)"
proof -
  have "length (foldl dns_step [] ops) \<le> MAX_ENTRIES"
    by (rule dns.run_within) (simp add: MAX_ENTRIES_def)
  moreover have "sound_cache (answers_of ops) (foldl dns_step [] ops)"
    using sound_cache_run [of "{}" "[]" ops] by (simp add: sound_cache_def)
  ultimately show ?thesis
    using cache_get_sound [OF _ assms] by (auto simp: MAX_ENTRIES_def TTL_def)
qed

lemma dns_cache_fresh_and_bounded_witness:
  "length (foldl dns_step [] [Dns_Answer 3 ''h'' (Inr [V4 (Ipv4 1 2 3 4)])]) \<le> 1024"
  using dns_cache_fresh_and_bounded [of 10 "''h''" "[Dns_Answer 3 ''h'' (Inr [V4 (Ipv4 1 2 3 4)])]"
      "[V4 (Ipv4 1 2 3 4)]"]
  by (simp add: cache_get_def resolve_end_def cache_put_def elapsed_def TTL_def MAX_ENTRIES_def)

end
