(* ===== verification/Upstream.thy ===== *)
theory Upstream
  imports Dns_Cache
begin

text \<open>
  Connecting to a target, as \<^verbatim>\<open>relay/tcp.rs\<close>, \<^verbatim>\<open>relay/udp.rs\<close> and \<^verbatim>\<open>tunnel/task.rs\<close> do it:
  the addresses of the name, filtered by family, each one checked by the guard and then
  dialled, until one succeeds. \<open>dial\<close> is the outcome of dialling an address: \<open>None\<close> when it
  connects, or the error.
\<close>

datatype connect_error =
    Resolve_Failed string io_error_kind
  | No_Address string
  | No_Matching_Family string string
  | Guarded guard_error
  | Dial_Failed sock_addr io_error_kind
  | No_Target_Reachable
  | Blocked_Protocol string
  | Proxy_Header_Failed

fun connect_ips ::
    "(sock_addr \<Rightarrow> connect_error option) \<Rightarrow> string \<Rightarrow> u16 \<Rightarrow> ip_addr list \<Rightarrow> connect_error option
     \<Rightarrow> connect_error option + sock_addr" where
  "connect_ips dial host port [] last_err = Inl last_err"
| "connect_ips dial host port (ip # ips) last_err =
     (let sa = Sock_Addr ip port in
      case guard_resolved_target host sa of
        Inl e \<Rightarrow> connect_ips dial host port ips (Some (Guarded e))
      | Inr _ \<Rightarrow> (case dial sa of
            None \<Rightarrow> Inr sa
          | Some e \<Rightarrow> connect_ips dial host port ips (Some e)))"

text \<open>
  The target loop of \<^verbatim>\<open>bridge\<close>: the targets in the order chosen, each with all its
  addresses, until one connects.
\<close>

fun failover ::
    "(string \<Rightarrow> io_error_kind + ip_addr list) \<Rightarrow> (sock_addr \<Rightarrow> connect_error option) \<Rightarrow> string
     \<Rightarrow> (string \<times> u16) list \<Rightarrow> nat list \<Rightarrow> connect_error option \<Rightarrow> connect_error option + (nat \<times> sock_addr)"
  where
  "failover resolve dial remote_af pool [] last_err = Inl last_err"
| "failover resolve dial remote_af pool (idx # order) last_err =
     (case pool ! idx of (host, port) \<Rightarrow>
       (case resolve host of
          Inl e \<Rightarrow> failover resolve dial remote_af pool order (Some (Resolve_Failed host e))
        | Inr ips \<Rightarrow>
            (if ips = [] then failover resolve dial remote_af pool order (Some (No_Address host))
             else let ips' = filter_af ips remote_af in
                  if ips' = [] then failover resolve dial remote_af pool order (Some (No_Matching_Family host remote_af))
                  else (case connect_ips dial host port ips' last_err of
                          Inr sa \<Rightarrow> Inr (idx, sa)
                        | Inl err \<Rightarrow> failover resolve dial remote_af pool order err))))"

text \<open>The single target of a UDP relay and of a tunnel exit.\<close>

definition connect_upstream ::
    "(string \<Rightarrow> io_error_kind + ip_addr list) \<Rightarrow> (sock_addr \<Rightarrow> connect_error option) \<Rightarrow> string
     \<Rightarrow> string \<Rightarrow> u16 \<Rightarrow> connect_error + sock_addr" where
  "connect_upstream resolve dial remote_af host port =
     (case resolve host of
        Inl e \<Rightarrow> Inl (Resolve_Failed host e)
      | Inr ips \<Rightarrow>
          (let ips' = filter_af ips remote_af in
           if ips' = [] then Inl (No_Matching_Family host remote_af)
           else (case connect_ips dial host port ips' None of
                   Inr sa \<Rightarrow> Inr sa
                 | Inl None \<Rightarrow> Inl No_Target_Reachable
                 | Inl (Some e) \<Rightarrow> Inl e)))"

section \<open>What is dialled\<close>

text \<open>
  An address the agent may connect to for a target: one that the target's host resolves to, at
  the target's port, of the family asked for, and not an internal one unless the host is an
  address itself.
\<close>

definition allowed :: "(string \<Rightarrow> io_error_kind + ip_addr list) \<Rightarrow> string \<Rightarrow> u16 \<Rightarrow> string \<Rightarrow> sock_addr \<Rightarrow> bool" where
  "allowed resolve host port remote_af sa =
     ((case resolve host of Inl _ \<Rightarrow> False | Inr ips \<Rightarrow> sa_ip sa \<in> set ips)
      \<and> sa_port sa = port \<and> (parse_ip host \<noteq> None \<or> \<not> is_internal_addr (sa_ip sa))
      \<and> (remote_af = ''v4'' \<longrightarrow> is_ipv4 (sa_ip sa)) \<and> (remote_af = ''v6'' \<longrightarrow> is_ipv6 (sa_ip sa)))"

lemma connect_ips_ok:
  "connect_ips dial host port ips e = Inr sa \<Longrightarrow>
     sa_ip sa \<in> set ips \<and> sa_port sa = port \<and> guard_resolved_target host sa = Inr () \<and> dial sa = None"
  by (induction dial host port ips e rule: connect_ips.induct)
    (auto simp: Let_def split: sum.splits option.splits)

lemma connect_ips_fails:
  assumes "connect_ips dial host port ips e = Inl e'" "ip \<in> set ips"
  shows "guard_resolved_target host (Sock_Addr ip port) \<noteq> Inr () \<or> dial (Sock_Addr ip port) \<noteq> None"
  using assms
  by (induction dial host port ips e rule: connect_ips.induct)
    (auto simp: Let_def split: sum.splits option.splits)

lemma connect_ips_allowed:
  assumes "connect_ips dial host port (filter_af ips af) e = Inr sa" "resolve host = Inr ips"
  shows "allowed resolve host port af sa" "sa_ip sa \<in> set ips" "dial sa = None"
  using connect_ips_ok [OF assms(1)] assms(2) filter_af_v4 [of af _ ips] filter_af_v6 [of af _ ips] set_filter_af [of ips af]
  by (auto simp: allowed_def guard_resolved_target_ok_iff)

lemma connect_upstream_ok:
  assumes "connect_upstream resolve dial af host port = Inr sa"
  shows "allowed resolve host port af sa \<and> dial sa = None \<and> (\<exists>ips. resolve host = Inr ips \<and> sa_ip sa \<in> set ips)"
  using assms connect_ips_allowed
  by (auto simp: connect_upstream_def Let_def split: sum.splits option.splits if_splits)

lemma failover_ok:
  assumes "failover resolve dial af pool order e = Inr (idx, sa)"
  shows "idx \<in> set order \<and> allowed resolve (fst (pool ! idx)) (snd (pool ! idx)) af sa \<and> dial sa = None
    \<and> (\<exists>ips. resolve (fst (pool ! idx)) = Inr ips \<and> sa_ip sa \<in> set ips)"
  using assms
proof (induction resolve dial af pool order e rule: failover.induct)
  case (1 resolve dial af pool e)
  then show ?case by simp
next
  case (2 resolve dial af pool i order e)
  note IH = 2(1-4) and ok = 2(5)
  obtain host port where hp: "pool ! i = (host, port)" by (cases "pool ! i")
  show ?case
  proof (cases "resolve host")
    case (Inl err)
    with IH(1) ok hp show ?thesis by auto
  next
    case (Inr ips)
    consider "ips = []" | "ips \<noteq> []" "filter_af ips af = []" | "ips \<noteq> []" "filter_af ips af \<noteq> []"
      by blast
    then show ?thesis
    proof cases
      case 1
      with IH(2) ok hp Inr show ?thesis by auto
    next
      case 2
      with IH(3) ok hp Inr show ?thesis by (auto simp: Let_def)
    next
      case 3
      show ?thesis
      proof (cases "connect_ips dial host port (filter_af ips af) e")
        case (Inl err)
        with IH(4) ok hp Inr 3 \<open>resolve host = Inr ips\<close> show ?thesis by (auto simp: Let_def)
      next
        case (Inr sa')
        with ok hp 3 \<open>resolve host = Inr ips\<close> have "idx = i" "sa = sa'"
          by (auto simp: Let_def)
        with connect_ips_allowed [OF Inr, of resolve, OF \<open>resolve host = Inr ips\<close>] hp \<open>resolve host = Inr ips\<close> show ?thesis
          by auto
      qed
    qed
  qed
qed

text \<open>Failing means that every allowed address of every target was dialled in vain.\<close>

lemma failover_fails:
  assumes "failover resolve dial af pool order e = Inl e'" "idx \<in> set order"
    "resolve (fst (pool ! idx)) = Inr ips" "ip \<in> set (filter_af ips af)"
    "guard_resolved_target (fst (pool ! idx)) (Sock_Addr ip (snd (pool ! idx))) = Inr ()"
  shows "dial (Sock_Addr ip (snd (pool ! idx))) \<noteq> None"
  using assms
proof (induction resolve dial af pool order e rule: failover.induct)
  case (1 resolve dial af pool e)
  then show ?case by simp
next
  case (2 resolve dial af pool i order e)
  obtain host port where hp: "pool ! i = (host, port)" by (cases "pool ! i")
  show ?case
  proof (cases "idx = i")
    case True
    then have "filter_af ips af \<noteq> []" "ips \<noteq> []"
      using 2(8) set_filter_af [of ips af] by auto
    with True 2(5) 2(7) hp obtain err where "connect_ips dial host port (filter_af ips af) e = Inl err"
      by (auto simp: Let_def split: sum.splits)
    from connect_ips_fails [OF this 2(8)] 2(9) hp True show ?thesis by simp
  next
    case False
    then have "idx \<in> set order" using 2(6) by simp
    with 2(1-4) 2(5,7-9) hp show ?thesis
      by (auto simp: Let_def split: sum.splits if_splits)
  qed
qed

end
