(* ===== verification/Select.thy ===== *)
theory Select
  imports Net_Addr
begin

text \<open>
  \<^verbatim>\<open>node-agent/src/select.rs\<close>: the order in which a connection tries the targets of a rule.
  The round-robin counter is a 64-bit word that the operation returns advanced;
  \<^verbatim>\<open>hash_ip\<close> is \<^verbatim>\<open>DefaultHasher\<close> of the standard library, whose values are unspecified: it is
  the argument \<open>hash_ip\<close>.
\<close>

definition target_order :: "(ip_addr \<Rightarrow> u64) \<Rightarrow> nat \<Rightarrow> string \<Rightarrow> ip_addr \<Rightarrow> u64 \<Rightarrow> nat list \<times> u64" where
  "target_order hash_ip n strategy client_ip rr =
     (if n \<le> 1 then ([0..<n], rr)
      else (let (start, rr') =
              (if strategy = ''round'' then (unat rr mod n, rr + 1)
               else if strategy = ''rand'' then (unat (hash_ip client_ip + rr) mod n, rr + 1)
               else if strategy = ''hash'' then (unat (hash_ip client_ip) mod n, rr)
               else (0, rr))
            in (map (\<lambda>i. (start + i) mod n) [0..<n], rr')))"

definition rotation :: "nat \<Rightarrow> nat \<Rightarrow> nat list" where
  "rotation n start = map (\<lambda>i. (start + i) mod n) [0..<n]"

lemma rotation_eq_append:
  assumes "start < n"
  shows "rotation n start = [start..<n] @ [0..<start]"
proof (rule nth_equalityI)
  show "length (rotation n start) = length ([start..<n] @ [0..<start])"
    using assms by (simp add: rotation_def)
next
  fix i
  assume "i < length (rotation n start)"
  then have i: "i < n" by (simp add: rotation_def)
  show "rotation n start ! i = ([start..<n] @ [0..<start]) ! i"
  proof (cases "start + i < n")
    case True
    then have "i < n - start" by linarith
    with i True show ?thesis by (simp add: rotation_def nth_append)
  next
    case False
    with i assms have "(start + i) mod n = start + i - n"
      by (simp add: mod_if)
    moreover have "\<not> i < n - start"
      using False by linarith
    ultimately show ?thesis
      using i assms by (simp add: rotation_def nth_append add.commute)
  qed
qed

lemma rotation_props:
  assumes "start < n"
  shows "distinct (rotation n start)" "set (rotation n start) = {..<n}" "hd (rotation n start) = start"
  using assms by (auto simp: rotation_eq_append)

lemma target_order_rotation:
  assumes "1 < n"
  shows "\<exists>start < n. fst (target_order h n s ip rr) = rotation n start"
proof -
  define start where "start =
    (if s = ''round'' then unat rr mod n
     else if s = ''rand'' then unat (h ip + rr) mod n
     else if s = ''hash'' then unat (h ip) mod n else 0)"
  have "start < n"
    using assms by (simp add: start_def)
  moreover have "fst (target_order h n s ip rr) = rotation n start"
    using assms by (simp add: target_order_def rotation_def start_def)
  ultimately show ?thesis by blast
qed

lemma target_order_set_distinct:
  "set (fst (target_order h n s ip rr)) = {..<n}" "distinct (fst (target_order h n s ip rr))"
proof -
  have "set (fst (target_order h n s ip rr)) = {..<n} \<and> distinct (fst (target_order h n s ip rr))"
  proof (cases "1 < n")
    case True
    then obtain start where "start < n" "fst (target_order h n s ip rr) = rotation n start"
      using target_order_rotation by blast
    then show ?thesis by (simp add: rotation_props)
  next
    case False
    then show ?thesis by (auto simp: target_order_def)
  qed
  then show "set (fst (target_order h n s ip rr)) = {..<n}" "distinct (fst (target_order h n s ip rr))"
    by simp_all
qed

lemma target_order_bounds: "i \<in> set (fst (target_order h n s ip rr)) \<Longrightarrow> i < n"
  by (simp add: target_order_set_distinct)

section \<open>Properties\<close>

text \<open>Whatever the strategy, the hash of the client and the counter, the order lists every
  target of the pool exactly once, so a connection can fail over to all of them.\<close>

theorem target_order_complete:
  "distinct (fst (target_order h n s ip rr)) \<and> set (fst (target_order h n s ip rr)) = {..<n}"
  by (simp add: target_order_set_distinct)

end
