(* ===== verification/Sniff.thy ===== *)
theory Sniff
  imports Prelude "HOL-Library.Sublist"
begin

text \<open>
  \<^verbatim>\<open>node-agent/src/sniff.rs\<close>: passive matching of the first bytes of a connection against the
  protocols a node blocks, and the test whether more bytes could still make a match.
  \<open>sniff_loop\<close> is the accumulation loop of \<^verbatim>\<open>relay/tcp.rs\<close> over those two functions.
\<close>

definition BLOCK_HTTP :: u32 where "BLOCK_HTTP = 1"
definition BLOCK_TLS :: u32 where "BLOCK_TLS = 2"
definition BLOCK_SOCKS :: u32 where "BLOCK_SOCKS = 4"

text \<open>A byte string literal.\<close>

definition bytes :: "string \<Rightarrow> u8 list" where
  "bytes s = map (\<lambda>c. of_char c) s"

definition HTTP_METHODS :: "u8 list list" where
  "HTTP_METHODS = map bytes
     [''GET '', ''POST '', ''PUT '', ''HEAD '', ''DELETE '', ''OPTIONS '', ''PATCH '', ''TRACE '',
      ''CONNECT '', ''PRI '']"

definition is_tls_client_hello :: "u8 list \<Rightarrow> bool" where
  "is_tls_client_hello b = (3 \<le> length b \<and> b ! 0 = 0x16 \<and> b ! 1 = 0x03 \<and> b ! 2 \<le> 0x04)"

definition is_http_request :: "u8 list \<Rightarrow> bool" where
  "is_http_request b = list_ex (\<lambda>m. prefix m b) HTTP_METHODS"

definition is_socks :: "u8 list \<Rightarrow> bool" where
  "is_socks b =
     (if length b < 2 then False
      else if b ! 0 = 0x05 then 1 \<le> b ! 1
      else if b ! 0 = 0x04 then b ! 1 = 0x01 \<or> b ! 1 = 0x02
      else False)"

definition sniff_blocked :: "u8 list \<Rightarrow> u32 \<Rightarrow> string option" where
  "sniff_blocked first msk =
     (if msk = 0 \<or> first = [] then None
      else if msk AND BLOCK_TLS \<noteq> 0 \<and> is_tls_client_hello first then Some ''tls''
      else if msk AND BLOCK_HTTP \<noteq> 0 \<and> is_http_request first then Some ''http''
      else if msk AND BLOCK_SOCKS \<noteq> 0 \<and> is_socks first then Some ''socks''
      else None)"

definition tls_prefix_possible :: "u8 list \<Rightarrow> bool" where
  "tls_prefix_possible b =
     ((b = [] \<or> b ! 0 = 0x16) \<and> (length b < 2 \<or> b ! 1 = 0x03) \<and> (length b < 3 \<or> b ! 2 \<le> 0x04))"

definition http_prefix_possible :: "u8 list \<Rightarrow> bool" where
  "http_prefix_possible b = list_ex (\<lambda>m. prefix b m \<or> prefix m b) HTTP_METHODS"

definition socks_prefix_possible :: "u8 list \<Rightarrow> bool" where
  "socks_prefix_possible b = (b = [] \<or> b ! 0 = 0x05 \<or> b ! 0 = 0x04)"

definition could_be_blocked :: "u8 list \<Rightarrow> u32 \<Rightarrow> bool" where
  "could_be_blocked first msk =
     (if msk = 0 then False
      else if first = [] then True
      else (msk AND BLOCK_TLS \<noteq> 0 \<and> tls_prefix_possible first)
         \<or> (msk AND BLOCK_HTTP \<noteq> 0 \<and> http_prefix_possible first)
         \<or> (msk AND BLOCK_SOCKS \<noteq> 0 \<and> socks_prefix_possible first))"

section \<open>Prefixes of a match\<close>

lemma prefix_nth: "prefix p b \<Longrightarrow> i < length p \<Longrightarrow> p ! i = b ! i"
  by (auto simp: prefix_def nth_append)

lemma tls_prefix: "is_tls_client_hello b \<Longrightarrow> prefix p b \<Longrightarrow> tls_prefix_possible p"
  by (auto simp: is_tls_client_hello_def tls_prefix_possible_def prefix_def nth_append split: if_splits)

lemma http_prefix: "is_http_request b \<Longrightarrow> prefix p b \<Longrightarrow> http_prefix_possible p"
  unfolding is_http_request_def http_prefix_possible_def list_ex_iff
  by (meson prefix_same_cases)

lemma socks_prefix: "is_socks b \<Longrightarrow> prefix p b \<Longrightarrow> socks_prefix_possible p"
  unfolding is_socks_def socks_prefix_possible_def
  using prefix_nth [of p b 0] by (cases p) (auto split: if_splits)

lemma sniff_blocked_Some_prefix:
  "sniff_blocked b msk = Some x \<Longrightarrow> prefix p b \<Longrightarrow> could_be_blocked p msk"
  unfolding sniff_blocked_def could_be_blocked_def
  by (auto split: if_splits dest: tls_prefix http_prefix socks_prefix)

lemma sniff_blocked_mask0 [simp]: "sniff_blocked b 0 = None"
  by (simp add: sniff_blocked_def)

text \<open>A match is not undone by more bytes.\<close>

lemma is_tls_mono: "is_tls_client_hello p \<Longrightarrow> prefix p b \<Longrightarrow> is_tls_client_hello b"
  by (auto simp: is_tls_client_hello_def prefix_def nth_append)

lemma is_http_mono: "is_http_request p \<Longrightarrow> prefix p b \<Longrightarrow> is_http_request b"
  unfolding is_http_request_def list_ex_iff by (meson prefix_order.trans)

lemma is_socks_mono: "is_socks p \<Longrightarrow> prefix p b \<Longrightarrow> is_socks b"
  by (auto simp: is_socks_def prefix_def nth_append split: if_splits)

lemma sniff_blocked_mono:
  assumes "sniff_blocked p msk \<noteq> None" "prefix p b"
  shows "sniff_blocked b msk \<noteq> None"
proof -
  have "b \<noteq> []"
    using assms by (auto simp: sniff_blocked_def)
  then show ?thesis
    using assms is_tls_mono is_http_mono is_socks_mono
    by (auto simp: sniff_blocked_def split: if_splits)
qed

text \<open>Eight bytes decide: the longest fingerprint is a method of eight bytes.\<close>

lemma http_methods_length: "m \<in> set HTTP_METHODS \<Longrightarrow> length m \<le> 8"
  by (auto simp: HTTP_METHODS_def bytes_def)

lemma is_http_final:
  assumes "is_http_request b" "prefix p b" "8 \<le> length p"
  shows "is_http_request p"
proof -
  obtain m where m: "m \<in> set HTTP_METHODS" "prefix m b"
    using assms(1) by (auto simp: is_http_request_def list_ex_iff)
  then have "prefix m p"
    using assms http_methods_length [of m] by (auto intro: prefix_length_prefix)
  with m show ?thesis
    by (auto simp: is_http_request_def list_ex_iff)
qed

lemma is_tls_final: "is_tls_client_hello b \<Longrightarrow> prefix p b \<Longrightarrow> 8 \<le> length p \<Longrightarrow> is_tls_client_hello p"
  by (auto simp: is_tls_client_hello_def prefix_def nth_append split: if_splits)

lemma is_socks_final: "is_socks b \<Longrightarrow> prefix p b \<Longrightarrow> 8 \<le> length p \<Longrightarrow> is_socks p"
  by (auto simp: is_socks_def prefix_def nth_append split: if_splits)

lemma sniff_blocked_final:
  assumes "prefix p b" "8 \<le> length p"
  shows "sniff_blocked b msk = sniff_blocked p msk"
proof -
  have "p \<noteq> []" "b \<noteq> []"
    using assms by auto
  moreover have "is_tls_client_hello b = is_tls_client_hello p" "is_http_request b = is_http_request p"
    "is_socks b = is_socks p"
    using assms is_tls_mono is_tls_final is_http_mono is_http_final is_socks_mono is_socks_final
    by blast+
  ultimately show ?thesis
    by (simp add: sniff_blocked_def)
qed

end
