(* ===== verification/Byte_Pump.thy ===== *)
theory Byte_Pump
  imports Prelude
begin

text \<open>
  The copy loops of the data plane: \<^verbatim>\<open>pump\<close> of \<^verbatim>\<open>relay/tcp.rs\<close>, \<^verbatim>\<open>copy_counted\<close> and
  \<^verbatim>\<open>copy_raw\<close> of \<^verbatim>\<open>tunnel/task.rs\<close>, and the zero-copy \<^verbatim>\<open>splice_one\<close> of \<^verbatim>\<open>relay/splice.rs\<close>. The
  outcomes of the system calls are scripts: what each read returns, how each write ends.
  A script that runs out leaves the loop waiting. Waiting for the token bucket only delays
  the loop and is not in the script.
\<close>

datatype read_result = Data "u8 list" | Read_Error

datatype write_result = Written | Write_Failed nat | Flush_Failed

record pump_state =
  pu_delivered :: "u8 list"
  pu_counted :: u64
  pu_total :: u64
  pu_shutdown :: bool
  pu_ended :: "(unit + u64) option"

definition pump_init :: "u64 \<Rightarrow> pump_state" where
  "pump_init c = \<lparr>pu_delivered = [], pu_counted = c, pu_total = 0, pu_shutdown = False, pu_ended = None\<rparr>"

text \<open>A read of no bytes is the end of the stream.\<close>

fun pump :: "read_result list \<Rightarrow> write_result list \<Rightarrow> pump_state \<Rightarrow> pump_state" where
  "pump [] ws st = st"
| "pump (Read_Error # rs) ws st = st\<lparr>pu_ended := Some (Inl ())\<rparr>"
| "pump (Data b # rs) ws st =
     (if b = [] then st\<lparr>pu_shutdown := True, pu_ended := Some (Inr (pu_total st))\<rparr>
      else (case ws of
              [] \<Rightarrow> st
            | Write_Failed k # ws' \<Rightarrow>
                st\<lparr>pu_delivered := pu_delivered st @ take k b, pu_ended := Some (Inl ())\<rparr>
            | _ # ws' \<Rightarrow> pump rs ws'
                (st\<lparr>pu_delivered := pu_delivered st @ b,
                   pu_counted := pu_counted st + of_nat (length b),
                   pu_total := pu_total st + of_nat (length b)\<rparr>)))"

text \<open>\<^verbatim>\<open>copy_counted\<close> flushes every block before counting it.\<close>

fun copy_counted :: "read_result list \<Rightarrow> write_result list \<Rightarrow> pump_state \<Rightarrow> pump_state" where
  "copy_counted [] ws st = st"
| "copy_counted (Read_Error # rs) ws st = st\<lparr>pu_ended := Some (Inl ())\<rparr>"
| "copy_counted (Data b # rs) ws st =
     (if b = [] then st\<lparr>pu_shutdown := True, pu_ended := Some (Inr (pu_total st))\<rparr>
      else (case ws of
              [] \<Rightarrow> st
            | Write_Failed k # ws' \<Rightarrow>
                st\<lparr>pu_delivered := pu_delivered st @ take k b, pu_ended := Some (Inl ())\<rparr>
            | Flush_Failed # ws' \<Rightarrow>
                st\<lparr>pu_delivered := pu_delivered st @ b, pu_ended := Some (Inl ())\<rparr>
            | Written # ws' \<Rightarrow> copy_counted rs ws'
                (st\<lparr>pu_delivered := pu_delivered st @ b,
                   pu_counted := pu_counted st + of_nat (length b),
                   pu_total := pu_total st + of_nat (length b)\<rparr>)))"

text \<open>\<^verbatim>\<open>copy_raw\<close> of the middle and last hops counts nothing.\<close>

fun copy_raw :: "read_result list \<Rightarrow> write_result list \<Rightarrow> pump_state \<Rightarrow> pump_state" where
  "copy_raw [] ws st = st"
| "copy_raw (Read_Error # rs) ws st = st\<lparr>pu_ended := Some (Inl ())\<rparr>"
| "copy_raw (Data b # rs) ws st =
     (if b = [] then st\<lparr>pu_shutdown := True, pu_ended := Some (Inr (pu_total st))\<rparr>
      else (case ws of
              [] \<Rightarrow> st
            | Write_Failed k # ws' \<Rightarrow>
                st\<lparr>pu_delivered := pu_delivered st @ take k b, pu_ended := Some (Inl ())\<rparr>
            | Flush_Failed # ws' \<Rightarrow>
                st\<lparr>pu_delivered := pu_delivered st @ b, pu_ended := Some (Inl ())\<rparr>
            | Written # ws' \<Rightarrow> copy_raw rs ws'
                (st\<lparr>pu_delivered := pu_delivered st @ b,
                   pu_total := pu_total st + of_nat (length b)\<rparr>)))"

section \<open>Splice\<close>

text \<open>
  The state of one direction: the bytes the source socket still has to give, those in the
  pipe, those the destination took. \<open>Moved n\<close> is a \<^verbatim>\<open>splice\<close> that moves at most \<open>n\<close> bytes; it can
  move no more than there are, nor more than asked. \<open>At_Eof\<close> is a splice that returns 0,
  which the kernel does only when the source is exhausted and closed.
\<close>

datatype splice_result = Moved nat | At_Eof | Would_Block | Splice_Error

record splice_state =
  sp_src :: "u8 list"
  sp_pipe :: "u8 list"
  sp_eof :: bool
  sp_out :: "u8 list"
  sp_total :: u64
  sp_counted :: u64
  sp_shutdown :: bool
  sp_ended :: "(unit + u64) option"

definition splice_init :: "u8 list \<Rightarrow> u64 \<Rightarrow> splice_state" where
  "splice_init src c = \<lparr>sp_src = src, sp_pipe = [], sp_eof = False, sp_out = [], sp_total = 0,
     sp_counted = c, sp_shutdown = False, sp_ended = None\<rparr>"

text \<open>The inner loop of the read branch: until the pipe is full, the socket is empty, or an error.\<close>

fun splice_in :: "nat \<Rightarrow> splice_result list \<Rightarrow> splice_state \<Rightarrow> splice_state" where
  "splice_in cap [] st = st"
| "splice_in cap (r # rs) st =
     (if length (sp_pipe st) < cap then
        (case r of
           Moved n \<Rightarrow>
             (let k = min n (min (cap - length (sp_pipe st)) (length (sp_src st))) in
              if k = 0 then st
              else splice_in cap rs (st\<lparr>sp_pipe := sp_pipe st @ take k (sp_src st),
                                       sp_src := drop k (sp_src st)\<rparr>))
         | At_Eof \<Rightarrow> if sp_src st = [] then st\<lparr>sp_eof := True\<rparr> else st
         | Would_Block \<Rightarrow> st
         | Splice_Error \<Rightarrow> st\<lparr>sp_ended := Some (Inl ())\<rparr>)
      else st)"

text \<open>The inner loop of the write branch: until the pipe is empty or the socket takes no more.\<close>

fun splice_out :: "splice_result list \<Rightarrow> splice_state \<Rightarrow> splice_state" where
  "splice_out [] st = st"
| "splice_out (r # rs) st =
     (if sp_pipe st \<noteq> [] then
        (case r of
           Moved n \<Rightarrow>
             (let k = min n (length (sp_pipe st)) in
              if k = 0 then st
              else splice_out rs (st\<lparr>sp_out := sp_out st @ take k (sp_pipe st),
                                    sp_pipe := drop k (sp_pipe st),
                                    sp_total := sp_total st + of_nat k,
                                    sp_counted := sp_counted st + of_nat k\<rparr>))
         | At_Eof \<Rightarrow> st
         | Would_Block \<Rightarrow> st
         | Splice_Error \<Rightarrow> st\<lparr>sp_ended := Some (Inl ())\<rparr>)
      else st)"

text \<open>
  A turn of the outer loop: the end test, then one of the two branches of \<^verbatim>\<open>select!\<close>, each
  only when its guard holds.
\<close>

datatype splice_wake = Readable "splice_result list" | Writable "splice_result list"

definition splice_turn :: "nat \<Rightarrow> splice_state \<Rightarrow> splice_wake \<Rightarrow> splice_state" where
  "splice_turn cap st wk =
     (if sp_ended st \<noteq> None then st
      else if sp_eof st \<and> sp_pipe st = [] then
        st\<lparr>sp_shutdown := True, sp_ended := Some (Inr (sp_total st))\<rparr>
      else (case wk of
              Readable rs \<Rightarrow>
                if \<not> sp_eof st \<and> length (sp_pipe st) < cap then splice_in cap rs st else st
            | Writable rs \<Rightarrow> if sp_pipe st \<noteq> [] then splice_out rs st else st))"

definition splice_one :: "nat \<Rightarrow> splice_wake list \<Rightarrow> splice_state \<Rightarrow> splice_state" where
  "splice_one cap wks st = foldl (splice_turn cap) st wks"

section \<open>Invariants\<close>

definition splice_inv :: "nat \<Rightarrow> u8 list \<Rightarrow> u64 \<Rightarrow> splice_state \<Rightarrow> bool" where
  "splice_inv cap src c st =
     (src = sp_out st @ sp_pipe st @ sp_src st \<and> length (sp_pipe st) \<le> cap
      \<and> sp_total st = of_nat (length (sp_out st)) \<and> sp_counted st = c + of_nat (length (sp_out st))
      \<and> (sp_eof st \<longrightarrow> sp_src st = [])
      \<and> (\<forall>n. sp_ended st = Some (Inr n) \<longrightarrow>
            sp_shutdown st \<and> sp_out st = src \<and> n = of_nat (length src)))"

lemma splice_in_inv [keeps_inv]:
  "splice_inv cap src c st \<Longrightarrow> sp_ended st = None \<Longrightarrow> splice_inv cap src c (splice_in cap rs st)"
proof (induction cap rs st rule: splice_in.induct)
  case (1 cap st)
  then show ?case by simp
next
  case (2 cap r rs st)
  show ?case
  proof (cases "length (sp_pipe st) < cap")
    case False
    with 2 show ?thesis by simp
  next
    case room: True
    show ?thesis
    proof (cases r)
      case (Moved n)
      let ?k = "min n (min (cap - length (sp_pipe st)) (length (sp_src st)))"
      let ?st = "st\<lparr>sp_pipe := sp_pipe st @ take ?k (sp_src st), sp_src := drop ?k (sp_src st)\<rparr>"
      have "splice_inv cap src c ?st"
        using 2(2,3) room by (auto simp: splice_inv_def)
      then have "?k \<noteq> 0 \<Longrightarrow> splice_inv cap src c (splice_in cap rs ?st)"
        using 2(1) [OF room Moved refl] 2(3) by simp
      with room Moved 2(2) show ?thesis by (simp add: Let_def)
    qed (use 2(2,3) room in \<open>auto simp: splice_inv_def\<close>)
  qed
qed

lemma splice_out_inv [keeps_inv]:
  "splice_inv cap src c st \<Longrightarrow> sp_ended st = None \<Longrightarrow> splice_inv cap src c (splice_out rs st)"
proof (induction rs st rule: splice_out.induct)
  case (1 st)
  then show ?case by simp
next
  case (2 r rs st)
  show ?case
  proof (cases "sp_pipe st = []")
    case True
    with 2 show ?thesis by simp
  next
    case ne: False
    show ?thesis
    proof (cases r)
      case (Moved n)
      let ?k = "min n (length (sp_pipe st))"
      let ?st = "st\<lparr>sp_out := sp_out st @ take ?k (sp_pipe st), sp_pipe := drop ?k (sp_pipe st),
        sp_total := sp_total st + of_nat ?k, sp_counted := sp_counted st + of_nat ?k\<rparr>"
      have "take ?k (sp_pipe st) @ drop ?k (sp_pipe st) @ sp_src st = sp_pipe st @ sp_src st"
        by (simp add: append.assoc [symmetric])
      then have "splice_inv cap src c ?st"
        using 2(2,3) by (auto simp: splice_inv_def)
      then have "?k \<noteq> 0 \<Longrightarrow> splice_inv cap src c (splice_out rs ?st)"
        using 2(1) [OF ne Moved refl] 2(3) by simp
      with ne Moved 2(2) show ?thesis by (simp add: Let_def)
    qed (use 2(2,3) ne in \<open>auto simp: splice_inv_def\<close>)
  qed
qed

lemma splice_turn_inv [keeps_inv]:
  "splice_inv cap src c st \<Longrightarrow> splice_inv cap src c (splice_turn cap st wk)"
  using splice_in_inv splice_out_inv
  by (cases wk) (auto simp: splice_turn_def, auto simp: splice_inv_def)

interpretation splice: invariant_machine "splice_turn cap" "splice_inv cap src c" for cap src c
  by unfold_locales (rule splice_turn_inv)

lemma splice_init_inv: "splice_inv cap src c (splice_init src c)"
  by (simp add: splice_inv_def splice_init_def)

lemma splice_one_inv: "splice_inv cap src c (splice_one cap wks (splice_init src c))"
  unfolding splice_one_def by (rule splice.run_inv) (rule splice_init_inv)

lemma splice_inv_prefix: "splice_inv cap src c st \<Longrightarrow> prefix (sp_out st) src"
  unfolding splice_inv_def by (blast intro: prefixI)

lemma splice_inv_ended:
  "splice_inv cap src c st \<Longrightarrow> sp_ended st = Some (Inr n) \<Longrightarrow>
     sp_out st = src \<and> sp_shutdown st \<and> n = of_nat (length src)"
  unfolding splice_inv_def by blast

text \<open>The bytes a script of reads gives before its end.\<close>

fun read_bytes :: "read_result list \<Rightarrow> u8 list" where
  "read_bytes [] = []"
| "read_bytes (Read_Error # rs) = []"
| "read_bytes (Data b # rs) = (if b = [] then [] else b @ read_bytes rs)"

text \<open>
  What the loops have in common, started in a state that is still running: the bytes
  delivered before, then a prefix of the bytes read, all of them when the loop returns.
\<close>

definition pump_ok :: "pump_state \<Rightarrow> u8 list \<Rightarrow> pump_state \<Rightarrow> bool" where
  "pump_ok st src st' =
     (\<exists>d. pu_delivered st' = pu_delivered st @ d \<and> prefix d src
        \<and> (\<forall>n. pu_ended st' = Some (Inr n) \<longrightarrow>
              d = src \<and> pu_shutdown st' \<and> n = pu_total st + of_nat (length src)))"

lemma prefix_takeI: "prefix (take k b) (b @ c)"
  by (metis append_take_drop_id append.assoc prefixI)

lemma pump_ok_step:
  assumes "pump_ok st1 src st'" "pu_delivered st1 = pu_delivered st @ b"
    "pu_total st1 = pu_total st + of_nat (length b)"
  shows "pump_ok st (b @ src) st'"
proof -
  obtain d where d: "pu_delivered st' = (pu_delivered st @ b) @ d" "prefix d src"
    "\<And>n. pu_ended st' = Some (Inr n) \<Longrightarrow>
       d = src \<and> pu_shutdown st' \<and> n = pu_total st + of_nat (length b) + of_nat (length src)"
    using assms by (auto simp: pump_ok_def)
  then show ?thesis
    unfolding pump_ok_def by (intro exI [of _ "b @ d"]) (auto simp: add.assoc)
qed

lemma pump_ok_refl: "pu_ended st = None \<Longrightarrow> pump_ok st src st"
  by (simp add: pump_ok_def)

lemma pump_correct: "pu_ended st = None \<Longrightarrow> pump_ok st (read_bytes rs) (pump rs ws st)"
proof (induction rs ws st rule: pump.induct)
  case (3 b rs ws st)
  show ?case
  proof (cases "b = [] \<or> ws = []")
    case True
    with 3(3) show ?thesis by (auto simp: pump_ok_def)
  next
    case False
    then obtain w ws' where ws: "ws = w # ws'" and b: "b \<noteq> []" by (cases ws) auto
    show ?thesis
    proof (cases w)
      case (Write_Failed k)
      with b ws show ?thesis by (simp add: pump_ok_def prefix_takeI)
    qed (use 3 b ws in \<open>auto intro: pump_ok_step\<close>)
  qed
qed (auto simp: pump_ok_def)

lemma copy_counted_correct:
  "pu_ended st = None \<Longrightarrow> pump_ok st (read_bytes rs) (copy_counted rs ws st)"
proof (induction rs ws st rule: copy_counted.induct)
  case (3 b rs ws st)
  show ?case
  proof (cases "b = [] \<or> ws = []")
    case True
    with 3(2) show ?thesis by (auto simp: pump_ok_def)
  next
    case False
    then obtain w ws' where ws: "ws = w # ws'" and b: "b \<noteq> []" by (cases ws) auto
    show ?thesis
    proof (cases w)
      case (Write_Failed k)
      with b ws show ?thesis by (simp add: pump_ok_def prefix_takeI)
    next
      case Flush_Failed
      with b ws show ?thesis by (simp add: pump_ok_def)
    qed (use 3 b ws in \<open>auto intro: pump_ok_step\<close>)
  qed
qed (auto simp: pump_ok_def)

lemma copy_raw_correct:
  "pu_ended st = None \<Longrightarrow> pump_ok st (read_bytes rs) (copy_raw rs ws st)"
proof (induction rs ws st rule: copy_raw.induct)
  case (3 b rs ws st)
  show ?case
  proof (cases "b = [] \<or> ws = []")
    case True
    with 3(2) show ?thesis by (auto simp: pump_ok_def)
  next
    case False
    then obtain w ws' where ws: "ws = w # ws'" and b: "b \<noteq> []" by (cases ws) auto
    show ?thesis
    proof (cases w)
      case (Write_Failed k)
      with b ws show ?thesis by (simp add: pump_ok_def prefix_takeI)
    next
      case Flush_Failed
      with b ws show ?thesis by (simp add: pump_ok_def)
    qed (use 3 b ws in \<open>auto intro: pump_ok_step\<close>)
  qed
qed (auto simp: pump_ok_def)

lemma pump_ok_initD:
  "pump_ok (pump_init c) src st \<Longrightarrow> prefix (pu_delivered st) src
     \<and> (\<forall>n. pu_ended st = Some (Inr n) \<longrightarrow> pu_delivered st = src \<and> pu_shutdown st \<and> n = of_nat (length src))"
  by (auto simp: pump_ok_def pump_init_def)

lemma pump_init_running [simp]: "pu_ended (pump_init c) = None"
  by (simp add: pump_init_def)

lemmas pump_run = pump_ok_initD [OF pump_correct [OF pump_init_running]]
lemmas copy_counted_run = pump_ok_initD [OF copy_counted_correct [OF pump_init_running]]
lemmas copy_raw_run = pump_ok_initD [OF copy_raw_correct [OF pump_init_running]]

section \<open>The interface of a byte pump\<close>

text \<open>
  What a bridge relies on, whichever loop it uses: what reaches the destination is a prefix of
  what the source gave, and all of it, with the write side closed, when the loop returns.
\<close>

locale byte_pump =
  fixes source :: "'i \<Rightarrow> u8 list"
    and delivered :: "'i \<Rightarrow> u8 list"
    and returned :: "'i \<Rightarrow> u64 option"
    and closed :: "'i \<Rightarrow> bool"
  assumes delivered_prefix: "prefix (delivered i) (source i)"
    and returned_all: "returned i = Some n \<Longrightarrow> delivered i = source i \<and> closed i \<and> n = of_nat (length (source i))"
begin

lemma byte_intact: "k < length (delivered i) \<Longrightarrow> delivered i ! k = source i ! k"
  using delivered_prefix [of i] by (auto simp: prefix_def nth_append)

lemma no_more_than_read: "length (delivered i) \<le> length (source i)"
  by (rule prefix_length_le) (rule delivered_prefix)

text \<open>Hops in a row: the bytes at the end are a prefix of the bytes at the start.\<close>

lemma two_hops: "source j = delivered i \<Longrightarrow> prefix (delivered j) (source i)"
  using delivered_prefix [of i] delivered_prefix [of j] by auto

lemma chain:
  assumes "\<forall>k. Suc k < length is \<longrightarrow> source (is ! Suc k) = delivered (is ! k)" "is \<noteq> []"
  shows "prefix (delivered (last is)) (source (hd is))"
  using assms
proof (induction "is")
  case Nil
  then show ?case by simp
next
  case (Cons i is')
  show ?case
  proof (cases is')
    case Nil
    then show ?thesis by (simp add: delivered_prefix)
  next
    case (Cons j js)
    have "\<forall>k. Suc k < length is' \<longrightarrow> source (is' ! Suc k) = delivered (is' ! k)"
      using Cons.prems(1) by (metis Suc_less_eq length_Cons nth_Cons_Suc)
    then have "prefix (delivered (last is')) (source j)"
      using Cons.IH Cons by simp
    moreover have "source j = delivered i"
      using Cons.prems(1) Cons by (metis Suc_less_eq length_Cons nth_Cons_0 nth_Cons_Suc zero_less_Suc)
    ultimately show ?thesis
      using delivered_prefix [of i] Cons by auto
  qed
qed

end

definition result_of :: "(unit + u64) option \<Rightarrow> u64 option" where
  "result_of r = (case r of Some (Inr n) \<Rightarrow> Some n | _ \<Rightarrow> None)"

lemma result_of_Some [simp]: "result_of r = Some n \<longleftrightarrow> r = Some (Inr n)"
  by (auto simp: result_of_def split: option.splits sum.splits)

interpretation pump: byte_pump
  "\<lambda>(rs, ws, c). read_bytes rs" "\<lambda>(rs, ws, c). pu_delivered (pump rs ws (pump_init c))"
  "\<lambda>(rs, ws, c). result_of (pu_ended (pump rs ws (pump_init c)))"
  "\<lambda>(rs, ws, c). pu_shutdown (pump rs ws (pump_init c))"
  by unfold_locales (auto intro: pump_run [THEN conjunct1] dest: pump_run [THEN conjunct2, THEN spec, THEN mp]
      split: prod.splits)

interpretation counted: byte_pump
  "\<lambda>(rs, ws, c). read_bytes rs" "\<lambda>(rs, ws, c). pu_delivered (copy_counted rs ws (pump_init c))"
  "\<lambda>(rs, ws, c). result_of (pu_ended (copy_counted rs ws (pump_init c)))"
  "\<lambda>(rs, ws, c). pu_shutdown (copy_counted rs ws (pump_init c))"
  by unfold_locales (auto intro: copy_counted_run [THEN conjunct1] dest: copy_counted_run [THEN conjunct2, THEN spec, THEN mp]
      split: prod.splits)

interpretation raw: byte_pump
  "\<lambda>(rs, ws, c). read_bytes rs" "\<lambda>(rs, ws, c). pu_delivered (copy_raw rs ws (pump_init c))"
  "\<lambda>(rs, ws, c). result_of (pu_ended (copy_raw rs ws (pump_init c)))"
  "\<lambda>(rs, ws, c). pu_shutdown (copy_raw rs ws (pump_init c))"
  by unfold_locales (auto intro: copy_raw_run [THEN conjunct1] dest: copy_raw_run [THEN conjunct2, THEN spec, THEN mp]
      split: prod.splits)

interpretation spliced: byte_pump
  "\<lambda>(cap, wks, src, c). src" "\<lambda>(cap, wks, src, c). sp_out (splice_one cap wks (splice_init src c))"
  "\<lambda>(cap, wks, src, c). result_of (sp_ended (splice_one cap wks (splice_init src c)))"
  "\<lambda>(cap, wks, src, c). sp_shutdown (splice_one cap wks (splice_init src c))"
  by unfold_locales
    (auto intro: splice_inv_prefix [OF splice_one_inv] dest: splice_inv_ended [OF splice_one_inv]
      split: prod.splits)

section \<open>Counting\<close>

text \<open>Only what was written is counted: the counter advances by the bytes delivered, less a block that failed.\<close>

lemma copy_raw_counted [simp]: "pu_counted (copy_raw rs ws st) = pu_counted st"
  by (induction rs ws st rule: copy_raw.induct) (auto split: list.splits write_result.splits)

lemma pump_counts:
  "pu_ended st = None \<Longrightarrow> pu_ended (pump rs ws st) = None \<or> (\<exists>n. pu_ended (pump rs ws st) = Some (Inr n)) \<Longrightarrow>
   pu_counted (pump rs ws st) - pu_counted st
     = of_nat (length (pu_delivered (pump rs ws st))) - of_nat (length (pu_delivered st))"
  by (induction rs ws st rule: pump.induct)
    (auto split: list.splits write_result.splits if_splits simp: algebra_simps)

section \<open>Properties\<close>

text \<open>C20. Zero-copy forwarding is faithful: at every moment, under any sequence of wake-ups and any
  partial moves of the kernel, what the destination got is a prefix of what the source sent, the
  rest is in the pipe or still in the source, the pipe holds no more than its capacity, and the
  counter has advanced by exactly the bytes delivered; when the direction returns, everything
  was delivered and the write side was closed.\<close>

theorem splice_faithful:
  "let st = splice_one cap wks (splice_init src c) in
     src = sp_out st @ sp_pipe st @ sp_src st \<and> length (sp_pipe st) \<le> cap
     \<and> sp_counted st = c + of_nat (length (sp_out st))
     \<and> (\<forall>n. sp_ended st = Some (Inr n) \<longrightarrow> sp_out st = src \<and> sp_shutdown st \<and> n = of_nat (length src))"
  using splice_one_inv [of cap src c wks] unfolding splice_inv_def Let_def by blast

lemma splice_faithful_witness:
  "sp_out (splice_one 4 [Readable [Moved 3, Would_Block], Writable [Moved 2, Would_Block], Writable [Moved 9],
     Readable [At_Eof], Readable []] (splice_init [1, 2, 3] 0)) = [1, 2, 3]"
proof -
  have "sp_ended (splice_one 4 [Readable [Moved 3, Would_Block], Writable [Moved 2, Would_Block], Writable [Moved 9],
     Readable [At_Eof], Readable []] (splice_init [1, 2, 3] 0)) = Some (Inr 3)"
    by (simp add: splice_one_def splice_turn_def splice_init_def)
  then show ?thesis
    using splice_faithful [of 4 "[Readable [Moved 3, Would_Block], Writable [Moved 2, Would_Block],
        Writable [Moved 9], Readable [At_Eof], Readable []]" "[1, 2, 3]" 0]
    unfolding Let_def by blast
qed

end
