(* ===== verification/Tcp_Relay.thy ===== *)
theory Tcp_Relay
  imports World Upstream Select Sniff Byte_Pump
begin

text \<open>
  \<^verbatim>\<open>node-agent/src/relay/tcp.rs\<close>: a TCP forwarding rule. Starting the listener, the accept loop
  with its connection limit, and the life of one connection: sniffing, choosing and dialling
  a target, the PROXY header, and the two copy loops of \<^verbatim>\<open>Byte_Pump\<close>.
\<close>

section \<open>Starting the listener\<close>

record tcp_relay =
  tr_addr :: sock_addr
  tr_counter :: nat
  tr_pool :: "(string \<times> u16) list"
  tr_strategy :: string
  tr_rr :: u64
  tr_limiter :: "semaphore option"
  tr_blocked :: u32
  tr_send_proxy :: bool
  tr_remote_af :: string
  tr_bucket :: "nat option"
  tr_conns :: "nat list"
  tr_stopped :: bool

text \<open>The extra targets whose port fits; the others are skipped.\<close>

definition extra_pool :: "target_endpoint list \<Rightarrow> (string \<times> u16) list" where
  "extra_pool ts = concat (map (\<lambda>t. case u16_try_from (te_port t) of
       None \<Rightarrow> [] | Some p \<Rightarrow> [(te_host t, p)]) ts)"

definition tcp_start :: "env \<Rightarrow> rule \<Rightarrow> nat option \<Rightarrow> world \<Rightarrow> (start_error + tcp_relay) \<times> world" where
  "tcp_start ev r bucket w =
     (case listen_addr r of
        Inl e \<Rightarrow> (Inl e, w)
      | Inr sa \<Rightarrow>
          (case bind_socket ev Tcp sa w of
             (Inl e, w1) \<Rightarrow> (Inl e, w1)
           | (Inr _, w1) \<Rightarrow>
               (case ensure_counter (r_id r) w1 of (c, w2) \<Rightarrow>
                  (case u16_try_from (r_target_port r) of
                     None \<Rightarrow> (Inl (Target_Port_Range (r_target_port r)), release_socket Tcp sa w2)
                   | Some port \<Rightarrow>
                       (Inr \<lparr>tr_addr = sa, tr_counter = c,
                             tr_pool = (r_target_host r, port) # extra_pool (r_extra_targets r),
                             tr_strategy = (if r_lb_strategy r = [] then ''fifo'' else r_lb_strategy r),
                             tr_rr = 0,
                             tr_limiter = conn_limiter (r_max_connections r),
                             tr_blocked = r_blocked_protocols r,
                             tr_send_proxy = r_send_proxy_protocol r,
                             tr_remote_af = r_remote_af r,
                             tr_bucket = bucket,
                             tr_conns = [], tr_stopped = False\<rparr>, w2)))))"

text \<open>\<^verbatim>\<open>TcpRelayHandle::stop\<close> waits for the task, so the socket is released when it returns.\<close>

definition tcp_stop :: "tcp_relay \<Rightarrow> world \<Rightarrow> world" where
  "tcp_stop h w = release_socket Tcp (tr_addr h) w"

lemma tcp_start_bound:
  "w_bound (snd (tcp_start ev r b w)) =
     (case fst (tcp_start ev r b w) of Inl _ \<Rightarrow> w_bound w | Inr h \<Rightarrow> (Tcp, tr_addr h) # w_bound w)"
  by (auto simp: tcp_start_def bind_socket_def ensure_counter_def release_socket_def
      split: sum.splits option.splits prod.splits)

lemma tcp_start_stats_wf [keeps_inv]:
  "stats_wf (w_stats w) \<Longrightarrow> stats_wf (w_stats (snd (tcp_start ev r b w)))"
  using stats_wf_ensure [of "w_stats w" "r_id r"]
  by (auto simp: tcp_start_def bind_socket_def ensure_counter_def release_socket_def
      split: sum.splits option.splits prod.splits)

lemma tcp_start_ok:
  assumes "tcp_start ev r b w = (Inr h, w')"
  shows "listen_addr r = Inr (tr_addr h)" "tr_pool h \<noteq> []"
    "hd (tr_pool h) = (r_target_host r, ucast (r_target_port r))" "tr_bucket h = b"
    "tr_limiter h = conn_limiter (r_max_connections r)" "tr_conns h = []" "\<not> tr_stopped h"
  using assms
  by (auto simp: tcp_start_def u16_try_from_Some_iff split: sum.splits option.splits prod.splits)

section \<open>The accept loop\<close>

datatype tcp_event =
    Accepted nat
  | Accept_Failed io_error
  | Conn_Returned nat bool
  | Stop_Relay

definition one_conn :: counter where
  "one_conn = counter_default\<lparr>cn_conn := 1\<rparr>"

definition one_error :: counter where
  "one_error = counter_default\<lparr>cn_err := 1\<rparr>"

text \<open>
  One turn of \<^verbatim>\<open>select!\<close>, or the end of a connection's task. The permit of a connection is
  released when its task ends; \<open>Stop_Relay\<close> ends the listener and cancels every connection.
\<close>

fun tcp_step :: "stats \<times> tcp_relay \<Rightarrow> tcp_event \<Rightarrow> stats \<times> tcp_relay" where
  "tcp_step (s, h) (Accepted c) =
     (if tr_stopped h then (s, h)
      else (case try_acquire_permit (tr_limiter h) of
              Inl _ \<Rightarrow> (fetch_add (tr_counter h) one_error s, h)
            | Inr (_, l) \<Rightarrow> (fetch_add (tr_counter h) one_conn s,
                            h\<lparr>tr_limiter := l, tr_conns := c # tr_conns h\<rparr>)))"
| "tcp_step (s, h) (Accept_Failed e) =
     (if tr_stopped h \<or> accept_error_is_benign e then (s, h)
      else (fetch_add (tr_counter h) one_error s, h))"
| "tcp_step (s, h) (Conn_Returned c ok) =
     (if c \<in> set (tr_conns h)
      then (if ok then s else fetch_add (tr_counter h) one_error s,
            h\<lparr>tr_conns := remove1 c (tr_conns h),
              tr_limiter := release_permit (tr_limiter h \<noteq> None) (tr_limiter h)\<rparr>)
      else (s, h))"
| "tcp_step (s, h) Stop_Relay =
     (s, h\<lparr>tr_stopped := True, tr_conns := [],
           tr_limiter := map_option (\<lambda>l. l\<lparr>sem_available := sem_capacity l\<rparr>) (tr_limiter h)\<rparr>)"

definition tcp_inv :: "nat option \<Rightarrow> stats \<times> tcp_relay \<Rightarrow> bool" where
  "tcp_inv cap sh = (case (cap, tr_limiter (snd sh)) of
     (None, None) \<Rightarrow> True
   | (Some n, Some l) \<Rightarrow> sem_capacity l = n \<and> sem_available l + length (tr_conns (snd sh)) = n
   | _ \<Rightarrow> False)"

lemma tcp_inv_step [keeps_inv]: "tcp_inv cap sh \<Longrightarrow> tcp_inv cap (tcp_step sh ev)"
proof (cases sh)
  case (Pair s h)
  assume inv: "tcp_inv cap sh"
  show ?thesis
  proof (cases ev)
    case (Conn_Returned c ok)
    show ?thesis
    proof (cases "c \<in> set (tr_conns h)")
      case True
      then have "length (tr_conns h) = Suc (length (remove1 c (tr_conns h)))"
        by (simp add: length_remove1) (metis Suc_pred length_pos_if_in_set)
      with inv Pair Conn_Returned True show ?thesis
        by (auto simp: tcp_inv_def split: option.splits)
    next
      case False
      with inv Pair Conn_Returned show ?thesis by (auto simp: tcp_inv_def)
    qed
  qed (use inv Pair in \<open>auto simp: tcp_inv_def split: option.splits sum.splits prod.splits if_splits\<close>)
qed

interpretation tcp_loop: invariant_machine tcp_step "tcp_inv cap" for cap
  by unfold_locales (rule tcp_inv_step)

lemma tcp_inv_start:
  "tcp_start ev r b w = (Inr h, w') \<Longrightarrow> tcp_inv (map_option sem_capacity (conn_limiter (r_max_connections r))) (s, h)"
  using tcp_start_ok(5,6) [of ev r b w h w']
  by (auto simp: tcp_inv_def conn_limiter_def Let_def)

lemma tcp_inv_conns: "tcp_inv (Some n) sh \<Longrightarrow> length (tr_conns (snd sh)) \<le> n"
  by (auto simp: tcp_inv_def split: option.splits)

section \<open>Sniffing\<close>

definition MIN_SNIFF_LEN :: nat where "MIN_SNIFF_LEN = 8"

text \<open>
  What each \<^verbatim>\<open>peek\<close> returned before the deadline of two seconds. A peek does not consume, so
  each one returns a prefix of what the client sends. The list ends when the deadline passes.
\<close>

datatype peek = Peeked "u8 list" | Peek_Failed

fun sniff_loop :: "u32 \<Rightarrow> peek list \<Rightarrow> string option" where
  "sniff_loop msk [] = None"
| "sniff_loop msk (Peek_Failed # ps) = None"
| "sniff_loop msk (Peeked b # ps) =
     (if b = [] then None
      else (case sniff_blocked b msk of
              Some proto \<Rightarrow> Some proto
            | None \<Rightarrow>
                if \<not> could_be_blocked b msk then None
                else if MIN_SNIFF_LEN \<le> length b then None
                else sniff_loop msk ps))"

definition sniff :: "u32 \<Rightarrow> peek list \<Rightarrow> string option" where
  "sniff msk ps = (if msk \<noteq> 0 then sniff_loop msk ps else None)"

text \<open>The peeks see a stream: each one is a non-empty prefix of it.\<close>

definition peeks_of :: "u8 list \<Rightarrow> peek list \<Rightarrow> bool" where
  "peeks_of s ps = (\<forall>p \<in> set ps. \<exists>b. p = Peeked b \<and> b \<noteq> [] \<and> prefix b s)"

lemma sniff_loop_sound:
  "peeks_of s ps \<Longrightarrow> sniff_loop msk ps = Some proto \<Longrightarrow> sniff_blocked s msk \<noteq> None"
proof (induction msk ps rule: sniff_loop.induct)
  case (3 msk b ps)
  then show ?case
    using sniff_blocked_mono [of b msk s]
    by (auto simp: peeks_of_def split: if_splits option.splits)
qed auto

lemma sniff_loop_complete:
  assumes "peeks_of s ps" "Peeked b \<in> set ps" "sniff_blocked b msk \<noteq> None"
  shows "sniff_loop msk ps \<noteq> None"
  using assms
proof (induction msk ps rule: sniff_loop.induct)
  case (3 msk c ps)
  show ?case
  proof (cases "sniff_blocked c msk")
    case None
    have c: "c \<noteq> []" "prefix c s" and bs: "prefix b s"
      using 3(2,3) by (auto simp: peeks_of_def)
    have b: "Peeked b \<in> set ps"
      using 3(3,4) None by auto
    have hit: "sniff_blocked s msk \<noteq> None"
      using sniff_blocked_mono [OF 3(4) bs] .
    then have "could_be_blocked c msk"
      using sniff_blocked_Some_prefix c(2) by blast
    moreover have "\<not> MIN_SNIFF_LEN \<le> length c"
      using sniff_blocked_final [OF c(2), of msk] hit None by (auto simp: MIN_SNIFF_LEN_def)
    moreover have "peeks_of s ps"
      using 3(2) by (simp add: peeks_of_def)
    ultimately show ?thesis
      using 3(1) [OF c(1) None] b 3(4) c(1) None by simp
  qed (use 3 in \<open>auto simp: peeks_of_def\<close>)
qed (auto simp: peeks_of_def)

section \<open>One connection\<close>

record client_conn =
  cc_peer :: "sock_addr option"
  cc_local :: "sock_addr option"
  cc_peeks :: "peek list"
  cc_header_written :: bool

record upstream_conn =
  uc_target :: nat
  uc_addr :: sock_addr
  uc_header :: "string option"
  uc_splice :: bool

definition show_port :: "u16 \<Rightarrow> string" where
  "show_port p = dec (unat p)"

text \<open>\<^verbatim>\<open>\r\n\<close>\<close>

definition crlf :: string where
  "crlf = [CHR 0x0D, CHR 0x0A]"

text \<open>
  \<^verbatim>\<open>send_proxy_header_v1\<close>: the header from the two addresses of the client's socket. The
  textual form of an IPv6 address is the standard library's, the argument \<open>show6\<close>.
\<close>

definition proxy_header_v1 :: "(ipv6 \<Rightarrow> string) \<Rightarrow> sock_addr \<Rightarrow> sock_addr \<Rightarrow> string" where
  "proxy_header_v1 show6 peer loc = (case (sa_ip peer, sa_ip loc) of
     (V4 s, V4 d) \<Rightarrow> ''PROXY TCP4 '' @ show_ipv4 s @ '' '' @ show_ipv4 d @ '' ''
        @ show_port (sa_port peer) @ '' '' @ show_port (sa_port loc) @ crlf
   | (V6 s, V6 d) \<Rightarrow> ''PROXY TCP6 '' @ show6 s @ '' '' @ show6 d @ '' ''
        @ show_port (sa_port peer) @ '' '' @ show_port (sa_port loc) @ crlf
   | _ \<Rightarrow> ''PROXY UNKNOWN'' @ crlf)"

definition send_proxy_header_v1 :: "(ipv6 \<Rightarrow> string) \<Rightarrow> client_conn \<Rightarrow> connect_error + string" where
  "send_proxy_header_v1 show6 c =
     bindR (ok_or Proxy_Header_Failed (cc_peer c)) (\<lambda>p.
     bindR (ok_or Proxy_Header_Failed (cc_local c)) (\<lambda>l.
       if cc_header_written c then Inr (proxy_header_v1 show6 p l) else Inl Proxy_Header_Failed))"

text \<open>
  \<^verbatim>\<open>bridge\<close> up to the copy loops: the upstream connection with the header already on it, or
  the error, and the advanced round-robin counter.
\<close>

definition client_ip :: "client_conn \<Rightarrow> ip_addr" where
  "client_ip c = (case cc_peer c of None \<Rightarrow> V4 v4_unspecified | Some a \<Rightarrow> sa_ip a)"

definition bridge ::
    "(ip_addr \<Rightarrow> u64) \<Rightarrow> (ipv6 \<Rightarrow> string) \<Rightarrow> (string \<Rightarrow> io_error_kind + ip_addr list)
     \<Rightarrow> (sock_addr \<Rightarrow> connect_error option) \<Rightarrow> bool \<Rightarrow> tcp_relay \<Rightarrow> client_conn
     \<Rightarrow> (connect_error + upstream_conn) \<times> u64" where
  "bridge hash_ip show6 resolve dial force_pump h c =
     (case sniff (tr_blocked h) (cc_peeks c) of
        Some proto \<Rightarrow> (Inl (Blocked_Protocol proto), tr_rr h)
      | None \<Rightarrow>
          (case target_order hash_ip (length (tr_pool h)) (tr_strategy h) (client_ip c) (tr_rr h) of
             (order, rr) \<Rightarrow>
               (case failover resolve dial (tr_remote_af h) (tr_pool h) order None of
                  Inl None \<Rightarrow> (Inl No_Target_Reachable, rr)
                | Inl (Some e) \<Rightarrow> (Inl e, rr)
                | Inr (idx, sa) \<Rightarrow>
                    (bindR (if tr_send_proxy h
                            then bindR (send_proxy_header_v1 show6 c) (\<lambda>hd. Inr (Some hd))
                            else Inr None)
                       (\<lambda>hd. Inr \<lparr>uc_target = idx, uc_addr = sa, uc_header = hd,
                                  uc_splice = (tr_bucket h = None \<and> \<not> force_pump)\<rparr>), rr))))"

lemma bridge_Inr:
  assumes "fst (bridge hash_ip show6 resolve dial fp h c) = Inr u"
  shows "sniff (tr_blocked h) (cc_peeks c) = None"
    "uc_target u < length (tr_pool h)"
    "allowed resolve (fst (tr_pool h ! uc_target u)) (snd (tr_pool h ! uc_target u)) (tr_remote_af h) (uc_addr u)"
    "dial (uc_addr u) = None"
    "uc_header u \<noteq> None \<longleftrightarrow> tr_send_proxy h"
    "uc_splice u \<Longrightarrow> tr_bucket h = None"
proof -
  obtain order rr where ord: "target_order hash_ip (length (tr_pool h)) (tr_strategy h) (client_ip c) (tr_rr h)
      = (order, rr)" by fastforce
  from assms show sn: "sniff (tr_blocked h) (cc_peeks c) = None"
    by (auto simp: bridge_def split: option.splits)
  from assms ord sn obtain idx sa where
    f: "failover resolve dial (tr_remote_af h) (tr_pool h) order None = Inr (idx, sa)"
    and u: "uc_target u = idx" "uc_addr u = sa" "uc_header u \<noteq> None \<longleftrightarrow> tr_send_proxy h"
      "uc_splice u \<longrightarrow> tr_bucket h = None"
    by (auto simp: bridge_def bindR_eq_Inr split: sum.splits option.splits if_splits)
  from failover_ok [OF f] have "idx \<in> set order" and al: "allowed resolve (fst (tr_pool h ! idx)) (snd (tr_pool h ! idx)) (tr_remote_af h) sa"
    and "dial sa = None"
    by simp_all
  moreover have "idx < length (tr_pool h)"
    using \<open>idx \<in> set order\<close> target_order_bounds ord by (metis fst_conv)
  ultimately show "uc_target u < length (tr_pool h)"
    "allowed resolve (fst (tr_pool h ! uc_target u)) (snd (tr_pool h ! uc_target u)) (tr_remote_af h) (uc_addr u)"
    "dial (uc_addr u) = None" "uc_header u \<noteq> None \<longleftrightarrow> tr_send_proxy h" "uc_splice u \<Longrightarrow> tr_bucket h = None"
    using u by simp_all
qed

text \<open>
  The other direction: a connection that is not blocked reaches a target as soon as one
  address of one target answers.
\<close>

lemma bridge_reaches:
  assumes "sniff (tr_blocked h) (cc_peeks c) = None" "\<not> tr_send_proxy h"
    "idx < length (tr_pool h)" "tr_pool h ! idx = (host, port)" "resolve host = Inr ips"
    "ip \<in> set (filter_af ips (tr_remote_af h))"
    "guard_resolved_target host (Sock_Addr ip port) = Inr ()" "dial (Sock_Addr ip port) = None"
  shows "\<exists>u. fst (bridge hash_ip show6 resolve dial fp h c) = Inr u"
proof -
  obtain order rr where ord: "target_order hash_ip (length (tr_pool h)) (tr_strategy h) (client_ip c) (tr_rr h)
      = (order, rr)" by fastforce
  have "set order = {..<length (tr_pool h)}"
    using target_order_rotation [of "length (tr_pool h)" hash_ip "tr_strategy h" "client_ip c" "tr_rr h"]
      ord assms(3)
    by (cases "1 < length (tr_pool h)") (auto simp: rotation_props target_order_def)
  then have "idx \<in> set order" using assms(3) by simp
  then obtain r where "failover resolve dial (tr_remote_af h) (tr_pool h) order None = Inr r"
    using failover_fails [of resolve dial "tr_remote_af h" "tr_pool h" order None _ idx ips ip] assms
    by (cases "failover resolve dial (tr_remote_af h) (tr_pool h) order None") auto
  with assms(1,2) ord show ?thesis
    by (cases r) (auto simp: bridge_def)
qed

text \<open>
  The two directions run under \<^verbatim>\<open>try_join!\<close>: an error in one ends both. What the connection adds
  to the rule's counters: sent bytes to \<open>tx\<close>, received bytes to \<open>rx\<close>.
\<close>

definition bridge_copy ::
    "(read_result list \<times> write_result list) \<Rightarrow> (read_result list \<times> write_result list)
     \<Rightarrow> counter \<Rightarrow> (unit + unit) option \<times> counter" where
  "bridge_copy c2s s2c ctr =
     (let a = pump (fst c2s) (snd c2s) (pump_init (cn_tx ctr));
          b = pump (fst s2c) (snd s2c) (pump_init (cn_rx ctr))
      in (case (pu_ended a, pu_ended b) of
            (Some (Inl _), _) \<Rightarrow> Some (Inl ())
          | (_, Some (Inl _)) \<Rightarrow> Some (Inl ())
          | (Some (Inr _), Some (Inr _)) \<Rightarrow> Some (Inr ())
          | _ \<Rightarrow> None,
          ctr\<lparr>cn_tx := pu_counted a, cn_rx := pu_counted b\<rparr>))"

lemma bridge_copy_returns:
  assumes "fst (bridge_copy (rs, ws) (rs', ws') ctr) = Some (Inr ())"
  shows "pu_delivered (pump rs ws (pump_init (cn_tx ctr))) = read_bytes rs"
    "pu_delivered (pump rs' ws' (pump_init (cn_rx ctr))) = read_bytes rs'"
    "cn_tx (snd (bridge_copy (rs, ws) (rs', ws') ctr)) = cn_tx ctr + of_nat (length (read_bytes rs))"
    "cn_rx (snd (bridge_copy (rs, ws) (rs', ws') ctr)) = cn_rx ctr + of_nat (length (read_bytes rs'))"
proof -
  let ?a = "pump rs ws (pump_init (cn_tx ctr))" and ?b = "pump rs' ws' (pump_init (cn_rx ctr))"
  obtain n m where nm: "pu_ended ?a = Some (Inr n)" "pu_ended ?b = Some (Inr m)"
    using assms by (auto simp: bridge_copy_def Let_def split: option.splits sum.splits)
  then show d: "pu_delivered ?a = read_bytes rs" "pu_delivered ?b = read_bytes rs'"
    using pump_run by blast+
  show "cn_tx (snd (bridge_copy (rs, ws) (rs', ws') ctr)) = cn_tx ctr + of_nat (length (read_bytes rs))"
    using pump_counts [of "pump_init (cn_tx ctr)" rs ws] nm d
    by (simp add: bridge_copy_def Let_def pump_init_def algebra_simps)
  show "cn_rx (snd (bridge_copy (rs, ws) (rs', ws') ctr)) = cn_rx ctr + of_nat (length (read_bytes rs'))"
    using pump_counts [of "pump_init (cn_rx ctr)" rs' ws'] nm d
    by (simp add: bridge_copy_def Let_def pump_init_def algebra_simps)
qed

section \<open>Properties\<close>

text \<open>Fragmenting the first packet does not get a blocked protocol through: as soon as one
  peek shows eight bytes, the connection is blocked if and only if the whole stream matches a
  blocked protocol, whatever the peeks before it showed; and nothing is blocked that does not match.\<close>

theorem sniff_ignores_fragmentation:
  assumes "peeks_of stream ps" "Peeked b \<in> set ps" "8 \<le> length b"
  shows "sniff msk ps \<noteq> None \<longleftrightarrow> sniff_blocked stream msk \<noteq> None"
proof -
  have "prefix b stream"
    using assms(1,2) by (auto simp: peeks_of_def)
  then have "sniff_blocked stream msk = sniff_blocked b msk"
    using assms(3) by (rule sniff_blocked_final)
  with sniff_loop_sound [OF assms(1), of msk] sniff_loop_complete [OF assms(1,2), of msk] show ?thesis
    by (auto simp: sniff_def)
qed

lemma sniff_ignores_fragmentation_witness:
  "sniff 1 [Peeked (bytes ''CON''), Peeked (bytes ''CONNECT ''), Peeked (bytes ''CONNECT x'')] \<noteq> None"
proof -
  have "peeks_of (bytes ''CONNECT x'') [Peeked (bytes ''CON''), Peeked (bytes ''CONNECT ''), Peeked (bytes ''CONNECT x'')]"
    by (simp add: peeks_of_def bytes_def)
  moreover have "sniff_blocked (bytes ''CONNECT x'') 1 \<noteq> None"
    by (simp add: sniff_blocked_def bytes_def BLOCK_TLS_def BLOCK_HTTP_def is_http_request_def HTTP_METHODS_def)
  ultimately show ?thesis
    using sniff_ignores_fragmentation [of "bytes ''CONNECT x''"
        "[Peeked (bytes ''CON''), Peeked (bytes ''CONNECT ''), Peeked (bytes ''CONNECT x'')]" "bytes ''CONNECT ''" 1]
    by (simp add: bytes_def)
qed

text \<open>
  The resolver a connection meets: for each name the cache as the lookups and answers so far
  (\<open>ops\<close>) have left it, looked up at \<open>t0\<close>, and the system's resolver behind it.
\<close>

definition cached_resolve ::
    "(string \<Rightarrow> io_error_kind + ip_addr list) \<Rightarrow> (string \<Rightarrow> int) \<Rightarrow> (string \<Rightarrow> int) \<Rightarrow> (string \<Rightarrow> dns_op list)
     \<Rightarrow> string \<Rightarrow> io_error_kind + ip_addr list" where
  "cached_resolve getaddrinfo t0 t1 ops host =
     fst (resolve_target getaddrinfo (t0 host) (t1 host) host (foldl dns_step [] (ops host)))"

lemma cached_resolve_sound:
  assumes "cached_resolve getaddrinfo t0 t1 ops host = Inr ips"
  shows "case parse_ip host of
       Some ip \<Rightarrow> ips = [ip]
     | None \<Rightarrow> (\<exists>t. (t, host, ips) \<in> answers_of (ops host) \<and> t0 host - t < 60) \<or> getaddrinfo host = Inr ips"
proof (cases "parse_ip host")
  case None
  have "sound_cache (answers_of (ops host)) (foldl dns_step [] (ops host))"
    using sound_cache_run [of "{}" "[]" "ops host"] by (simp add: sound_cache_def)
  from cache_get_sound [OF this] None assms show ?thesis
    by (fastforce simp: cached_resolve_def resolve_target_def resolve_begin_def resolve_end_def TTL_def
        split: option.splits sum.splits)
qed (use assms in \<open>simp add: cached_resolve_def resolve_target_def resolve_begin_def\<close>)

text \<open>C19. A forwarded connection has been dialled with success to a target of the rule's pool: on
  that target's port, at the target's own address when the target is written as an address, and
  otherwise at an address that the system's resolver gives for the target's name or gave for it
  less than 60 seconds before, which is not internal; in the family the rule asks for. It is made only when the sniffer did not
  block it; the PROXY header is there exactly when the rule asks for it; and the copy is not
  zero-copy when the rule has a bandwidth limit. The cache in front of the resolver is in whatever
  state earlier lookups and answers, in any order, have left it.\<close>

theorem bridge_connects_only_allowed:
  assumes "fst (bridge hash_ip show6 (cached_resolve getaddrinfo t0 t1 ops) dial fp h c) = Inr u"
  shows "sniff (tr_blocked h) (cc_peeks c) = None \<and> dial (uc_addr u) = None
    \<and> (\<exists>host port. (host, port) \<in> set (tr_pool h) \<and> tr_pool h ! uc_target u = (host, port)
        \<and> sa_port (uc_addr u) = port
        \<and> (case parse_ip host of
             Some ip \<Rightarrow> sa_ip (uc_addr u) = ip
           | None \<Rightarrow> \<not> is_internal_addr (sa_ip (uc_addr u))
               \<and> (\<exists>ips. sa_ip (uc_addr u) \<in> set ips
                   \<and> ((\<exists>t. (t, host, ips) \<in> answers_of (ops host) \<and> t0 host - t < 60) \<or> getaddrinfo host = Inr ips))))
    \<and> (tr_remote_af h = ''v4'' \<longrightarrow> is_ipv4 (sa_ip (uc_addr u))) \<and> (tr_remote_af h = ''v6'' \<longrightarrow> is_ipv6 (sa_ip (uc_addr u)))
    \<and> (uc_header u \<noteq> None \<longleftrightarrow> tr_send_proxy h) \<and> (uc_splice u \<longrightarrow> tr_bucket h = None)"
proof -
  note b = bridge_Inr [OF assms]
  obtain host port where hp: "tr_pool h ! uc_target u = (host, port)" by (cases "tr_pool h ! uc_target u")
  with b(3) obtain ips where ips: "cached_resolve getaddrinfo t0 t1 ops host = Inr ips" "sa_ip (uc_addr u) \<in> set ips"
    by (auto simp: allowed_def split: sum.splits)
  have "(host, port) \<in> set (tr_pool h)"
    using nth_mem [OF b(2)] hp by simp
  with b hp cached_resolve_sound [OF ips(1)] ips(2) show ?thesis
    by (cases "parse_ip host") (auto simp: allowed_def)
qed

definition relay0 :: tcp_relay where
  "relay0 = \<lparr>tr_addr = Sock_Addr (V4 (Ipv4 1 1 1 1)) 80, tr_counter = 0,
     tr_pool = [(''a'', 81), (''b'', 82)], tr_strategy = ''fifo'', tr_rr = 0, tr_limiter = None, tr_blocked = 0,
     tr_send_proxy = False, tr_remote_af = [], tr_bucket = None, tr_conns = [], tr_stopped = False\<rparr>"

definition client0 :: client_conn where
  "client0 = \<lparr>cc_peer = None, cc_local = None, cc_peeks = [], cc_header_written = True\<rparr>"

definition resolve0 :: "string \<Rightarrow> io_error_kind + ip_addr list" where
  "resolve0 host = Inr [V4 (Ipv4 9 9 9 9), V4 (Ipv4 8 8 8 8)]"

definition dial0 :: "sock_addr \<Rightarrow> connect_error option" where
  "dial0 sa = (if sa = Sock_Addr (V4 (Ipv4 8 8 8 8)) 82 then None else Some (Dial_Failed sa Connection_Refused))"

lemma bridge0: "fst (bridge (\<lambda>_. 0) (\<lambda>_. []) resolve0 dial0 False relay0 client0)
    = Inr \<lparr>uc_target = 1, uc_addr = Sock_Addr (V4 (Ipv4 8 8 8 8)) 82, uc_header = None, uc_splice = True\<rparr>"
proof -
  have "parse_ip ''a'' = None" "parse_ip ''b'' = None"
    by code_simp+
  then show ?thesis
    by (simp add: bridge_def relay0_def client0_def resolve0_def dial0_def sniff_def target_order_def
        guard_resolved_target_def is_internal_addr_def filter_af_def v4_is_unspecified_def
        v4_is_broadcast_def upt_rec)
qed

lemma bridge0_cached: "fst (bridge (\<lambda>_. 0) (\<lambda>_. []) (cached_resolve resolve0 (\<lambda>_. 0) (\<lambda>_. 0) (\<lambda>_. [])) dial0 False relay0 client0)
    = Inr \<lparr>uc_target = 1, uc_addr = Sock_Addr (V4 (Ipv4 8 8 8 8)) 82, uc_header = None, uc_splice = True\<rparr>"
proof -
  have "parse_ip ''a'' = None" "parse_ip ''b'' = None"
    by code_simp+
  then have "cached_resolve resolve0 (\<lambda>_. 0) (\<lambda>_. 0) (\<lambda>_. []) ''a'' = resolve0 ''a''"
    "cached_resolve resolve0 (\<lambda>_. 0) (\<lambda>_. 0) (\<lambda>_. []) ''b'' = resolve0 ''b''"
    by (simp_all add: cached_resolve_def resolve_target_def resolve_begin_def resolve_end_def resolve0_def cache_get_def)
  with \<open>parse_ip ''a'' = None\<close> \<open>parse_ip ''b'' = None\<close> show ?thesis
    by (simp add: bridge_def relay0_def client0_def resolve0_def dial0_def sniff_def target_order_def
        guard_resolved_target_def is_internal_addr_def filter_af_def v4_is_unspecified_def
        v4_is_broadcast_def upt_rec)
qed

lemma bridge_connects_only_allowed_witness:
  "\<exists>ips. V4 (Ipv4 8 8 8 8) \<in> set ips \<and> resolve0 ''b'' = Inr ips \<and> \<not> is_internal_addr (V4 (Ipv4 8 8 8 8))"
proof -
  have "parse_ip ''b'' = None"
    by code_simp
  with bridge_connects_only_allowed [OF bridge0_cached] show ?thesis
    by (auto simp: relay0_def)
qed

text \<open>Failover reaches what can be reached: if some address of some target of the pool is
  allowed and answers, an unblocked connection is bridged, whichever strategy the rule uses and
  however the other targets fail.\<close>

theorem bridge_fails_over:
  assumes "sniff (tr_blocked h) (cc_peeks c) = None" "\<not> tr_send_proxy h"
    "idx < length (tr_pool h)" "tr_pool h ! idx = (host, port)" "resolve host = Inr ips"
    "ip \<in> set (filter_af ips (tr_remote_af h))"
    "guard_resolved_target host (Sock_Addr ip port) = Inr ()" "dial (Sock_Addr ip port) = None"
  shows "\<exists>u. fst (bridge hash_ip show6 resolve dial fp h c) = Inr u"
  by (rule bridge_reaches [where idx = idx and host = host and port = port and ips = ips and ip = ip])
    (use assms in simp_all)

lemma bridge_fails_over_witness:
  "\<exists>u. fst (bridge (\<lambda>_. 0) (\<lambda>_. []) resolve0 dial0 False relay0 client0) = Inr u"
proof -
  have "parse_ip ''b'' = None"
    by code_simp
  then show ?thesis
    by (intro bridge_fails_over [of relay0 client0 1 "''b''" 82 resolve0
          "[V4 (Ipv4 9 9 9 9), V4 (Ipv4 8 8 8 8)]" "V4 (Ipv4 8 8 8 8)" dial0])
      (simp_all add: relay0_def client0_def resolve0_def dial0_def sniff_def guard_resolved_target_def
        is_internal_addr_def filter_af_def v4_is_unspecified_def v4_is_broadcast_def)
qed

text \<open>A rule with a connection limit never serves more connections at once than its limit, over
  any sequence of arrivals, ends, errors and stops.\<close>

theorem connection_limit_holds:
  assumes "tcp_start ev r b w = (Inr h, w')" "0 < r_max_connections r"
  shows "int (length (tr_conns (snd (foldl tcp_step (s, h) evs)))) \<le> r_max_connections r"
proof -
  obtain l where l: "conn_limiter (r_max_connections r) = Some l" "int (sem_capacity l) \<le> r_max_connections r"
    using assms(2) by (auto simp: conn_limiter_def Let_def)
  have "tcp_inv (Some (sem_capacity l)) (foldl tcp_step (s, h) evs)"
    using tcp_loop.run_inv [OF tcp_inv_start [OF assms(1)]] l by simp
  from tcp_inv_conns [OF this] l show ?thesis
    by simp
qed

definition rule0 :: rule where
  "rule0 = \<lparr>r_id = 7, r_protocol = ''tcp'', r_listen_ip = ''1.1.1.1'', r_listen_port = 80, r_target_host = ''a'',
    r_target_port = 81, r_enabled = True, r_bandwidth_mbps = 0, r_tunnel = None, r_max_connections = 1,
    r_blocked_protocols = 0, r_extra_targets = [], r_lb_strategy = [], r_send_proxy_protocol = False,
    r_remote_af = []\<rparr>"

definition env0 :: env where
  "env0 = \<lparr>ev_now = 0, ev_bind = (\<lambda>_ _ _. True), ev_credentials = (\<lambda>_ _. True)\<rparr>"

definition world0 :: world where
  "world0 = \<lparr>w_stats = stats_new, w_buckets = [], w_bound = []\<rparr>"

lemma rule0_starts: "\<exists>h w. tcp_start env0 rule0 None world0 = (Inr h, w)"
proof -
  have "parse_ip ''1.1.1.1'' = Some (V4 (Ipv4 1 1 1 1))"
    by code_simp
  then show ?thesis
    by (simp add: tcp_start_def rule0_def env0_def world0_def listen_addr_def u16_try_from_def bind_socket_def
        ensure_counter_def split: prod.split)
qed

lemma connection_limit_holds_witness:
  "\<exists>h. int (length (tr_conns (snd (foldl tcp_step (stats_new, h) [Accepted 1, Accepted 2])))) \<le> 1"
proof -
  have max: "r_max_connections rule0 = 1" "0 < r_max_connections rule0"
    by (simp_all add: rule0_def)
  obtain h w where "tcp_start env0 rule0 None world0 = (Inr h, w)"
    using rule0_starts by blast
  from connection_limit_holds [OF this max(2), of stats_new "[Accepted 1, Accepted 2]"] show ?thesis
    unfolding max(1) by blast
qed

text \<open>When a bridged connection returns, each side got exactly the bytes the other side sent, in
  order, and the rule's counters grew by exactly their numbers: sent bytes in one, received bytes
  in the other.\<close>

theorem bridge_copy_exact:
  assumes "fst (bridge_copy (rs, ws) (rs', ws') ctr) = Some (Inr ())"
  shows "pu_delivered (pump rs ws (pump_init (cn_tx ctr))) = read_bytes rs
    \<and> pu_delivered (pump rs' ws' (pump_init (cn_rx ctr))) = read_bytes rs'
    \<and> cn_tx (snd (bridge_copy (rs, ws) (rs', ws') ctr)) = cn_tx ctr + of_nat (length (read_bytes rs))
    \<and> cn_rx (snd (bridge_copy (rs, ws) (rs', ws') ctr)) = cn_rx ctr + of_nat (length (read_bytes rs'))"
  using bridge_copy_returns [OF assms] by blast

lemma bridge_copy_exact_witness:
  "cn_tx (snd (bridge_copy ([Data [1, 2], Data []], [Written]) ([Data [3], Data []], [Written]) counter_default)) = 2"
proof -
  have "fst (bridge_copy ([Data [1, 2], Data []], [Written]) ([Data [3], Data []], [Written]) counter_default)
      = Some (Inr ())"
    by (simp add: bridge_copy_def Let_def pump_init_def)
  from bridge_copy_exact [OF this] show ?thesis
    by (simp add: counter_default_def)
qed

end
