(* ===== verification/Udp_Relay.thy ===== *)
theory Udp_Relay
  imports World Upstream "HOL-Library.Multiset"
begin

text \<open>
  \<^verbatim>\<open>node-agent/src/relay/udp.rs\<close>: a UDP forwarding rule with one session per client address.
  The connection to the target is made without the lock on the table, so forwarding a packet
  is three steps between which other tasks run: the first critical section, connecting and
  sending the first packet, the second critical section. An upstream socket is a number; a
  socket is open while a session or a packet in flight owns it.
\<close>

definition SESSION_TIMEOUT :: int where "SESSION_TIMEOUT = 120"

definition MAX_UDP_SESSIONS :: nat where "MAX_UDP_SESSIONS = 4096"

record session =
  ss_upstream :: nat
  ss_last_seen :: int
  ss_finished :: bool

text \<open>A packet whose sender has no session: still to be connected, or connected and in flight.\<close>

record in_flight =
  if_client :: sock_addr
  if_data :: "u8 list"
  if_upstream :: "nat option"

record udp_relay =
  ur_addr :: sock_addr
  ur_max_sessions :: nat
  ur_target_host :: string
  ur_target_port :: u16
  ur_remote_af :: string
  ur_sessions :: "(sock_addr \<times> session) list"
  ur_in_flight :: "in_flight list"
  ur_open :: "nat list"
  ur_next :: nat
  ur_bucket :: "token_bucket option"
  ur_count :: counter
  ur_sent :: "(nat \<times> u8 list) list"

definition add_error :: "udp_relay \<Rightarrow> udp_relay" where
  "add_error st = st\<lparr>ur_count := (ur_count st)\<lparr>cn_err := cn_err (ur_count st) + 1\<rparr>\<rparr>"

definition add_tx :: "nat \<Rightarrow> udp_relay \<Rightarrow> udp_relay" where
  "add_tx n st = st\<lparr>ur_count := (ur_count st)\<lparr>cn_tx := cn_tx (ur_count st) + of_nat n\<rparr>\<rparr>"

definition add_rx :: "nat \<Rightarrow> udp_relay \<Rightarrow> udp_relay" where
  "add_rx n st = st\<lparr>ur_count := (ur_count st)\<lparr>cn_rx := cn_rx (ur_count st) + of_nat n\<rparr>\<rparr>"

definition add_conn :: "udp_relay \<Rightarrow> udp_relay" where
  "add_conn st = st\<lparr>ur_count := (ur_count st)\<lparr>cn_conn := cn_conn (ur_count st) + 1\<rparr>\<rparr>"

text \<open>\<^verbatim>\<open>b.try_acquire(n)\<close> on the shared bucket, if the rule has one.\<close>

definition take_quota :: "rat \<Rightarrow> nat \<Rightarrow> udp_relay \<Rightarrow> bool \<times> udp_relay" where
  "take_quota clock n st = (case ur_bucket st of
     None \<Rightarrow> (True, st)
   | Some b \<Rightarrow> (case try_acquire clock n b of (ok, b') \<Rightarrow> (ok, st\<lparr>ur_bucket := Some b'\<rparr>)))"

text \<open>Dropping a session drops the last \<^verbatim>\<open>Arc\<close> of its upstream socket.\<close>

definition drop_session :: "sock_addr \<Rightarrow> udp_relay \<Rightarrow> udp_relay" where
  "drop_session a st = (case hm_get (ur_sessions st) a of
     None \<Rightarrow> st
   | Some s \<Rightarrow> st\<lparr>ur_sessions := hm_remove a (ur_sessions st),
                ur_open := remove1 (ss_upstream s) (ur_open st)\<rparr>)"

text \<open>
  Sending on the session of a client that has one: \<open>send_ok\<close> is the outcome of the system
  call; the error is counted by the caller.
\<close>

definition touch_and_send :: "int \<Rightarrow> bool \<Rightarrow> sock_addr \<Rightarrow> u8 list \<Rightarrow> session \<Rightarrow> udp_relay \<Rightarrow> udp_relay" where
  "touch_and_send now send_ok a data s st =
     (let st' = st\<lparr>ur_sessions := hm_insert a (s\<lparr>ss_last_seen := now\<rparr>) (ur_sessions st)\<rparr>
      in if send_ok then st'\<lparr>ur_sent := ur_sent st' @ [(ss_upstream s, data)]\<rparr> else add_error st')"

text \<open>
  The first critical section: a session whose reverse task has ended is removed, a live one
  takes the packet, and a new one is refused at the cap.
\<close>

definition reap_finished :: "sock_addr \<Rightarrow> udp_relay \<Rightarrow> udp_relay" where
  "reap_finished a st = (case hm_get (ur_sessions st) a of
     Some s \<Rightarrow> if ss_finished s then drop_session a st else st
   | None \<Rightarrow> st)"

definition critical_1 :: "int \<Rightarrow> bool \<Rightarrow> sock_addr \<Rightarrow> u8 list \<Rightarrow> udp_relay \<Rightarrow> udp_relay" where
  "critical_1 now send_ok a data st =
     (let st' = reap_finished a st in
      case hm_get (ur_sessions st') a of
        Some s \<Rightarrow> touch_and_send now send_ok a data s st'
      | None \<Rightarrow>
          (if ur_max_sessions st' \<le> length (ur_sessions st') then add_error st'
           else st'\<lparr>ur_in_flight := ur_in_flight st'
                     @ [\<lparr>if_client = a, if_data = data, if_upstream = None\<rparr>]\<rparr>))"

text \<open>A packet arrives: counted, metered, then the first critical section.\<close>

definition forward_begin :: "rat \<Rightarrow> int \<Rightarrow> bool \<Rightarrow> sock_addr \<Rightarrow> u8 list \<Rightarrow> udp_relay \<Rightarrow> udp_relay" where
  "forward_begin clock now send_ok a data st =
     (case take_quota clock (length data) (add_tx (length data) st) of
        (ok, st1) \<Rightarrow> if ok then critical_1 now send_ok a data st1 else add_error st1)"

text \<open>
  Connecting without the lock, for the i-th packet in flight. \<open>outcome\<close> is the result of
  \<open>connect_upstream\<close> or \<open>None\<close> for the timeout; \<open>send_ok\<close> is the send of the first packet.
  On success the socket is open and its reverse task runs.
\<close>

definition take_nth :: "nat \<Rightarrow> 'a list \<Rightarrow> 'a list" where
  "take_nth i xs = take i xs @ drop (Suc i) xs"

definition forward_connect ::
    "nat \<Rightarrow> (connect_error + sock_addr) option \<Rightarrow> bool \<Rightarrow> udp_relay \<Rightarrow> udp_relay" where
  "forward_connect i outcome send_ok st =
     (if i < length (ur_in_flight st) \<and> if_upstream (ur_in_flight st ! i) = None then
        (let p = ur_in_flight st ! i;
             gone = st\<lparr>ur_in_flight := take_nth i (ur_in_flight st)\<rparr>
         in case outcome of
              Some (Inr sa) \<Rightarrow>
                (if send_ok
                 then st\<lparr>ur_in_flight := (ur_in_flight st)[i := p\<lparr>if_upstream := Some (ur_next st)\<rparr>],
                         ur_open := ur_next st # ur_open st,
                         ur_next := Suc (ur_next st),
                         ur_sent := ur_sent st @ [(ur_next st, if_data p)]\<rparr>
                 else add_error (gone\<lparr>ur_next := Suc (ur_next st)\<rparr>))
            | _ \<Rightarrow> add_error gone)
      else st)"

text \<open>The second critical section, for the i-th packet in flight.\<close>

definition forward_finish :: "nat \<Rightarrow> int \<Rightarrow> bool \<Rightarrow> udp_relay \<Rightarrow> udp_relay" where
  "forward_finish i now send_ok st =
     (if i < length (ur_in_flight st) then
        (case if_upstream (ur_in_flight st ! i) of
           None \<Rightarrow> st
         | Some u \<Rightarrow>
             (let p = ur_in_flight st ! i; a = if_client p;
                  st1 = st\<lparr>ur_in_flight := take_nth i (ur_in_flight st)\<rparr>;
                  aborted = st1\<lparr>ur_open := remove1 u (ur_open st1)\<rparr>
              in case hm_get (ur_sessions st) a of
                   Some s \<Rightarrow>
                     (if \<not> ss_finished s then touch_and_send now send_ok a (if_data p) s aborted
                      else add_conn (st1\<lparr>
                             ur_sessions := hm_insert a \<lparr>ss_upstream = u, ss_last_seen = now, ss_finished = False\<rparr>
                                              (ur_sessions st1),
                             ur_open := remove1 (ss_upstream s) (ur_open st1)\<rparr>))
                 | None \<Rightarrow>
                     (if ur_max_sessions st \<le> length (ur_sessions st) then add_error aborted
                      else add_conn (st1\<lparr>
                             ur_sessions := hm_insert a \<lparr>ss_upstream = u, ss_last_seen = now, ss_finished = False\<rparr>
                                              (ur_sessions st1)\<rparr>))))
      else st)"

text \<open>
  The reverse task of a session: a response of \<open>n\<close> bytes, metered and sent back, or the end of
  the task after an error.
\<close>

definition mark_finished :: "sock_addr \<Rightarrow> udp_relay \<Rightarrow> udp_relay" where
  "mark_finished a st = (case hm_get (ur_sessions st) a of
     None \<Rightarrow> st
   | Some s \<Rightarrow> add_error (st\<lparr>ur_sessions := hm_insert a (s\<lparr>ss_finished := True\<rparr>) (ur_sessions st)\<rparr>))"

definition response :: "rat \<Rightarrow> sock_addr \<Rightarrow> nat \<Rightarrow> bool \<Rightarrow> udp_relay \<Rightarrow> udp_relay" where
  "response clock a n send_ok st = (case hm_get (ur_sessions st) a of
     None \<Rightarrow> st
   | Some s \<Rightarrow>
       (if ss_finished s then st
        else (case take_quota clock n (add_rx n st) of
                (False, st1) \<Rightarrow> add_error st1
              | (True, st1) \<Rightarrow> if send_ok then st1 else mark_finished a st1)))"

definition sweep_expired :: "int \<Rightarrow> udp_relay \<Rightarrow> udp_relay" where
  "sweep_expired now st =
     (let expired = map fst (filter (\<lambda>(_, s). SESSION_TIMEOUT < now - ss_last_seen s) (ur_sessions st))
      in foldl (\<lambda>st a. drop_session a st) st expired)"

text \<open>Stopping: every session is drained; packets in flight belong to the loop's future, which ends.\<close>

definition udp_stop_relay :: "udp_relay \<Rightarrow> udp_relay" where
  "udp_stop_relay st = st\<lparr>ur_sessions := [], ur_in_flight := [], ur_open := []\<rparr>"

datatype udp_event =
    Packet rat int bool sock_addr "u8 list"
  | Connect_Done nat "(connect_error + sock_addr) option" bool
  | Finish nat int bool
  | Response rat sock_addr nat bool
  | Upstream_Error sock_addr
  | Recv_Error
  | Sweep int
  | Stop_Udp

fun udp_step :: "udp_relay \<Rightarrow> udp_event \<Rightarrow> udp_relay" where
  "udp_step st (Packet clock now ok a data) = forward_begin clock now ok a data st"
| "udp_step st (Connect_Done i outcome ok) = forward_connect i outcome ok st"
| "udp_step st (Finish i now ok) = forward_finish i now ok st"
| "udp_step st (Response clock a n ok) = response clock a n ok st"
| "udp_step st (Upstream_Error a) =
     (case hm_get (ur_sessions st) a of
        Some s \<Rightarrow> if ss_finished s then st else mark_finished a st
      | None \<Rightarrow> st)"
| "udp_step st Recv_Error = add_error st"
| "udp_step st (Sweep now) = sweep_expired now st"
| "udp_step st Stop_Udp = udp_stop_relay st"

definition udp_init :: "sock_addr \<Rightarrow> string \<Rightarrow> u16 \<Rightarrow> string \<Rightarrow> nat \<Rightarrow> token_bucket option \<Rightarrow> udp_relay" where
  "udp_init sa host port af max_sessions b =
     \<lparr>ur_addr = sa, ur_max_sessions = max_sessions, ur_target_host = host, ur_target_port = port,
      ur_remote_af = af, ur_sessions = [], ur_in_flight = [], ur_open = [], ur_next = 0,
      ur_bucket = b, ur_count = counter_default, ur_sent = []\<rparr>"

section \<open>Frame lemmas\<close>

lemma add_frame [frame_simps, simp]:
  "ur_sessions (add_error st) = ur_sessions st" "ur_sessions (add_tx n st) = ur_sessions st"
  "ur_sessions (add_rx n st) = ur_sessions st" "ur_sessions (add_conn st) = ur_sessions st"
  "ur_in_flight (add_error st) = ur_in_flight st" "ur_in_flight (add_tx n st) = ur_in_flight st"
  "ur_in_flight (add_rx n st) = ur_in_flight st" "ur_in_flight (add_conn st) = ur_in_flight st"
  "ur_open (add_error st) = ur_open st" "ur_open (add_tx n st) = ur_open st"
  "ur_open (add_rx n st) = ur_open st" "ur_open (add_conn st) = ur_open st"
  "ur_next (add_error st) = ur_next st" "ur_next (add_tx n st) = ur_next st"
  "ur_next (add_rx n st) = ur_next st" "ur_next (add_conn st) = ur_next st"
  "ur_max_sessions (add_error st) = ur_max_sessions st" "ur_max_sessions (add_tx n st) = ur_max_sessions st"
  "ur_max_sessions (add_rx n st) = ur_max_sessions st" "ur_max_sessions (add_conn st) = ur_max_sessions st"
  "ur_sent (add_error st) = ur_sent st" "ur_sent (add_tx n st) = ur_sent st"
  "ur_sent (add_rx n st) = ur_sent st" "ur_sent (add_conn st) = ur_sent st"
  by (simp_all add: add_error_def add_tx_def add_rx_def add_conn_def)

lemma take_quota_frame [frame_simps, simp]:
  "ur_sessions (snd (take_quota t n st)) = ur_sessions st"
  "ur_in_flight (snd (take_quota t n st)) = ur_in_flight st"
  "ur_open (snd (take_quota t n st)) = ur_open st"
  "ur_next (snd (take_quota t n st)) = ur_next st"
  "ur_max_sessions (snd (take_quota t n st)) = ur_max_sessions st"
  "ur_sent (snd (take_quota t n st)) = ur_sent st"
  "ur_count (snd (take_quota t n st)) = ur_count st"
  by (simp_all add: take_quota_def split: option.split prod.split)

lemma drop_session_max [simp]: "ur_max_sessions (drop_session a st) = ur_max_sessions st"
  by (simp add: drop_session_def split: option.split)

lemma drop_session_length: "length (ur_sessions (drop_session a st)) \<le> length (ur_sessions st)"
  by (simp add: drop_session_def length_hm_remove_le split: option.split)

lemma drops_frame:
  "ur_max_sessions (foldl (\<lambda>st a. drop_session a st) st as) = ur_max_sessions st
   \<and> length (ur_sessions (foldl (\<lambda>st a. drop_session a st) st as)) \<le> length (ur_sessions st)"
proof (induction as arbitrary: st)
  case Nil
  then show ?case by simp
next
  case (Cons a as)
  from Cons.IH [of "drop_session a st"] drop_session_length [of a st] show ?case
    by simp
qed

lemma touch_length:
  "hm_get (ur_sessions st) a \<noteq> None \<Longrightarrow>
   length (ur_sessions (touch_and_send now ok a d s st)) = length (ur_sessions st)"
  by (auto simp: touch_and_send_def Let_def length_hm_insert hm_get_in_keys [symmetric])

lemma touch_max [simp]: "ur_max_sessions (touch_and_send now ok a d s st) = ur_max_sessions st"
  by (simp add: touch_and_send_def Let_def)

section \<open>The table stays within its capacity\<close>

lemma reap_finished_frame:
  "length (ur_sessions (reap_finished a st)) \<le> length (ur_sessions st)"
  "ur_max_sessions (reap_finished a st) = ur_max_sessions st"
  using drop_session_length [of a st] by (simp_all add: reap_finished_def split: option.split)

lemma critical_1_frame:
  "length (ur_sessions (critical_1 now ok a data st)) \<le> length (ur_sessions st)
   \<and> ur_max_sessions (critical_1 now ok a data st) = ur_max_sessions st"
  using reap_finished_frame [of a st]
  by (auto simp: critical_1_def Let_def touch_length split: option.split)

lemma forward_begin_frame:
  "length (ur_sessions (forward_begin clock now ok a data st)) \<le> length (ur_sessions st)
   \<and> ur_max_sessions (forward_begin clock now ok a data st) = ur_max_sessions st"
proof -
  let ?q = "take_quota clock (length data) (add_tx (length data) st)"
  have "length (ur_sessions (critical_1 now ok a data (snd ?q))) \<le> length (ur_sessions st)"
    "ur_max_sessions (critical_1 now ok a data (snd ?q)) = ur_max_sessions st"
    using critical_1_frame [of now ok a data "snd ?q"] by simp_all
  then show ?thesis
    by (simp add: forward_begin_def case_prod_beta)
qed

lemma mark_finished_length [simp]: "length (ur_sessions (mark_finished a st)) = length (ur_sessions st)"
  by (auto simp: mark_finished_def length_hm_insert hm_get_in_keys [symmetric] split: option.split)

lemma mark_finished_max [simp]: "ur_max_sessions (mark_finished a st) = ur_max_sessions st"
  by (simp add: mark_finished_def split: option.split)

lemma response_frame:
  "length (ur_sessions (response clock a n ok st)) = length (ur_sessions st)
   \<and> ur_max_sessions (response clock a n ok st) = ur_max_sessions st"
  using take_quota_frame(1,5) [of clock n "add_rx n st"]
  by (cases "take_quota clock n (add_rx n st)")
    (auto simp: response_def split: option.split bool.split)

lemma forward_connect_frame:
  "ur_sessions (forward_connect i outcome ok st) = ur_sessions st
   \<and> ur_max_sessions (forward_connect i outcome ok st) = ur_max_sessions st"
  by (simp add: forward_connect_def Let_def split: option.split sum.split)

lemma forward_finish_frame:
  "length (ur_sessions (forward_finish i now ok st)) \<le> Suc (length (ur_sessions st))
   \<and> (ur_max_sessions st \<le> length (ur_sessions st) \<longrightarrow>
        length (ur_sessions (forward_finish i now ok st)) \<le> length (ur_sessions st))
   \<and> ur_max_sessions (forward_finish i now ok st) = ur_max_sessions st"
  by (auto simp: forward_finish_def Let_def touch_length length_hm_insert hm_get_in_keys [symmetric]
      split: option.split)

lemma udp_step_frame:
  "length (ur_sessions (udp_step st ev)) \<le> Suc (length (ur_sessions st))
   \<and> (ur_max_sessions st \<le> length (ur_sessions st) \<longrightarrow>
        length (ur_sessions (udp_step st ev)) \<le> length (ur_sessions st))
   \<and> ur_max_sessions (udp_step st ev) = ur_max_sessions st"
proof (cases ev)
  case (Packet clock now ok a data)
  then show ?thesis
    using forward_begin_frame [of clock now ok a data st] by simp
next
  case (Response clock a n ok)
  then show ?thesis using response_frame [of clock a n ok st] by simp
next
  case (Connect_Done i outcome ok)
  then show ?thesis using forward_connect_frame [of i outcome ok st] by simp
next
  case (Finish i now ok)
  then show ?thesis using forward_finish_frame [of i now ok st] by simp
next
  case (Sweep now)
  then show ?thesis
    using drops_frame [of st] by (simp add: sweep_expired_def Let_def le_SucI)
qed (auto simp: udp_stop_relay_def split: option.split)

interpretation udp_table: capped_table udp_step "\<lambda>st. length (ur_sessions st)" ur_max_sessions
  using udp_step_frame by unfold_locales blast+

section \<open>No upstream socket is lost\<close>

definition owners :: "udp_relay \<Rightarrow> nat list" where
  "owners st = map (\<lambda>(_, s). ss_upstream s) (ur_sessions st)
     @ concat (map (\<lambda>p. case if_upstream p of None \<Rightarrow> [] | Some u \<Rightarrow> [u]) (ur_in_flight st))"

definition udp_inv :: "udp_relay \<Rightarrow> bool" where
  "udp_inv st = (hm_wf (ur_sessions st) \<and> mset (ur_open st) = mset (owners st)
     \<and> distinct (ur_open st) \<and> (\<forall>u \<in> set (ur_open st). u < ur_next st))"

lemma mset_hm_remove:
  "hm_wf m \<Longrightarrow> hm_get m a = Some s \<Longrightarrow>
     mset (map f m) = add_mset (f (a, s)) (mset (map f (hm_remove a m)))"
proof (induction m)
  case Nil
  then show ?case by simp
next
  case (Cons x m)
  have "fst x = a \<Longrightarrow> hm_remove a m = m"
    using Cons.prems(1) by (auto intro!: delete_idem)
  with Cons show ?case by (cases x) auto
qed

lemma mset_hm_insert:
  "hm_wf m \<Longrightarrow> mset (map f (hm_insert a v m)) = add_mset (f (a, v)) (mset (map f (hm_remove a m)))"
proof (induction m)
  case Nil
  then show ?case by simp
next
  case (Cons x m)
  have "fst x = a \<Longrightarrow> hm_remove a m = m"
    using Cons.prems by (auto intro!: delete_idem)
  with Cons show ?case by (cases x) auto
qed

lemma mset_take_nth: "i < length xs \<Longrightarrow> mset xs = add_mset (xs ! i) (mset (take_nth i xs))"
  unfolding take_nth_def
  by (metis append_Cons id_take_nth_drop mset.simps(2) mset_append union_mset_add_mset_right)

lemma mset_map_take_nth: "i < length xs \<Longrightarrow> mset (map f xs) = add_mset (f (xs ! i)) (mset (map f (take_nth i xs)))"
  using mset_take_nth [of i xs] by simp

definition owned :: "in_flight \<Rightarrow> nat list" where
  "owned p = (case if_upstream p of None \<Rightarrow> [] | Some u \<Rightarrow> [u])"

text \<open>The open sockets, with the owners as a multiset.\<close>

lemma owners_alt:
  "mset (owners st) = image_mset (\<lambda>(_, s). ss_upstream s) (mset (ur_sessions st))
     + \<Sum>\<^sub># (image_mset (\<lambda>p. mset (owned p)) (mset (ur_in_flight st)))"
proof -
  have "mset (concat (map owned xs)) = \<Sum>\<^sub># (image_mset (\<lambda>p. mset (owned p)) (mset xs))" for xs
    by (induction xs) auto
  then show ?thesis
    by (simp add: owners_def owned_def [abs_def])
qed

lemma udp_invI:
  assumes "hm_wf (ur_sessions st)" "mset (ur_open st) = mset (owners st)"
    "distinct (ur_open st)" "\<forall>u \<in> set (ur_open st). u < ur_next st"
  shows "udp_inv st"
  using assms by (simp add: udp_inv_def)

lemma udp_inv_same:
  assumes "udp_inv st" "ur_sessions st' = ur_sessions st" "ur_in_flight st' = ur_in_flight st"
    "ur_open st' = ur_open st" "ur_next st' = ur_next st"
  shows "udp_inv st'"
  using assms by (simp add: udp_inv_def owners_def)

lemma udp_inv_add [keeps_inv]:
  "udp_inv st \<Longrightarrow> udp_inv (add_error st)" "udp_inv st \<Longrightarrow> udp_inv (add_tx n st)"
  "udp_inv st \<Longrightarrow> udp_inv (add_rx n st)" "udp_inv st \<Longrightarrow> udp_inv (add_conn st)"
  by (erule udp_inv_same; simp)+

lemma udp_inv_quota [keeps_inv]: "udp_inv st \<Longrightarrow> udp_inv (snd (take_quota t n st))"
  by (erule udp_inv_same) simp_all

lemma udp_inv_drop [keeps_inv]:
  assumes "udp_inv st"
  shows "udp_inv (drop_session a st)"
proof (cases "hm_get (ur_sessions st) a")
  case None
  with assms show ?thesis by (simp add: drop_session_def)
next
  case (Some s)
  have wf: "hm_wf (ur_sessions st)" using assms by (simp add: udp_inv_def)
  from mset_hm_remove [OF wf Some, of "\<lambda>(_, s). ss_upstream s"] assms Some show ?thesis
    by (auto simp: drop_session_def udp_inv_def owners_def mset_remove1 dest: set_remove1_subset [THEN subsetD])
qed

lemma udp_inv_update_session:
  assumes "udp_inv st" "hm_get (ur_sessions st) a = Some s" "ss_upstream s' = ss_upstream s"
  shows "udp_inv (st\<lparr>ur_sessions := hm_insert a s' (ur_sessions st)\<rparr>)"
proof -
  have wf: "hm_wf (ur_sessions st)" using assms by (simp add: udp_inv_def)
  have "mset (map (\<lambda>(_, s). ss_upstream s) (hm_insert a s' (ur_sessions st)))
      = mset (map (\<lambda>(_, s). ss_upstream s) (ur_sessions st))"
    using mset_hm_remove [OF wf assms(2), of "\<lambda>(_, s). ss_upstream s"]
      mset_hm_insert [OF wf, of "\<lambda>(_, s). ss_upstream s" a s'] assms(3) by simp
  with assms(1) show ?thesis
    by (simp add: udp_inv_def owners_def)
qed

lemma udp_inv_sent [simp]: "udp_inv (st\<lparr>ur_sent := x\<rparr>) = udp_inv st"
  by (simp add: udp_inv_def owners_def)

lemma udp_inv_touch [keeps_inv]:
  "udp_inv st \<Longrightarrow> hm_get (ur_sessions st) a = Some s \<Longrightarrow> udp_inv (touch_and_send now ok a d s st)"
  using udp_inv_update_session [of st a s "s\<lparr>ss_last_seen := now\<rparr>"]
  by (simp add: touch_and_send_def Let_def udp_inv_add)

lemma udp_inv_mark [keeps_inv]: "udp_inv st \<Longrightarrow> udp_inv (mark_finished a st)"
  using udp_inv_update_session [of st a _ "_\<lparr>ss_finished := True\<rparr>"]
  by (auto simp: mark_finished_def intro!: udp_inv_add split: option.split)

lemma udp_inv_reap [keeps_inv]: "udp_inv st \<Longrightarrow> udp_inv (reap_finished a st)"
  by (simp add: reap_finished_def udp_inv_drop split: option.split)

lemma udp_inv_critical_1 [keeps_inv]:
  assumes "udp_inv st"
  shows "udp_inv (critical_1 now ok a data st)"
proof -
  have inv: "udp_inv (reap_finished a st)" using assms by (rule udp_inv_reap)
  then have "udp_inv (reap_finished a st\<lparr>ur_in_flight := ur_in_flight (reap_finished a st)
      @ [\<lparr>if_client = a, if_data = data, if_upstream = None\<rparr>]\<rparr>)"
    by (simp add: udp_inv_def owners_def)
  with inv show ?thesis
    by (auto simp: critical_1_def Let_def keeps_inv split: option.split)
qed

lemma udp_inv_begin [keeps_inv]: "udp_inv st \<Longrightarrow> udp_inv (forward_begin clock now ok a data st)"
  using udp_inv_quota [of "add_tx (length data) st" clock "length data"]
  by (simp add: forward_begin_def case_prod_beta keeps_inv)

lemma udp_inv_response [keeps_inv]: "udp_inv st \<Longrightarrow> udp_inv (response clock a n ok st)"
  using udp_inv_quota [of "add_rx n st" clock n]
  by (auto simp: response_def case_prod_beta keeps_inv split: option.split bool.split)

lemma udp_inv_sweep [keeps_inv]: "udp_inv st \<Longrightarrow> udp_inv (sweep_expired now st)"
proof -
  have "udp_inv st \<Longrightarrow> udp_inv (foldl (\<lambda>st a. drop_session a st) st as)" for as
    by (induction as arbitrary: st) (auto simp: udp_inv_drop)
  then show "udp_inv st \<Longrightarrow> udp_inv (sweep_expired now st)"
    by (simp add: sweep_expired_def Let_def)
qed

text \<open>Taking the i-th packet out of flight.\<close>

lemma owners_take_nth:
  assumes "i < length (ur_in_flight st)"
  shows "mset (owners st) = mset (owned (ur_in_flight st ! i))
    + mset (owners (st\<lparr>ur_in_flight := take_nth i (ur_in_flight st)\<rparr>))"
  using mset_take_nth [OF assms] by (simp add: owners_alt)

lemma udp_inv_connect [keeps_inv]:
  assumes inv: "udp_inv st"
  shows "udp_inv (forward_connect i outcome ok st)"
proof (cases "i < length (ur_in_flight st) \<and> if_upstream (ur_in_flight st ! i) = None")
  case False
  with inv show ?thesis by (auto simp: forward_connect_def)
next
  case True
  let ?p = "ur_in_flight st ! i"
  have own: "owned ?p = []" using True by (simp add: owned_def)
  have gone: "udp_inv (st\<lparr>ur_in_flight := take_nth i (ur_in_flight st), ur_next := n\<rparr>)"
    if "ur_next st \<le> n" for n
    using inv owners_take_nth [of i st] True own that
    by (auto simp: udp_inv_def owners_def)
  have gone': "udp_inv (st\<lparr>ur_in_flight := take_nth i (ur_in_flight st)\<rparr>)"
    using gone [of "ur_next st"] by simp
  let ?fl = "(ur_in_flight st)[i := ?p\<lparr>if_upstream := Some (ur_next st)\<rparr>]"
  have "mset ?fl = add_mset (?p\<lparr>if_upstream := Some (ur_next st)\<rparr>) (mset (ur_in_flight st) - {#?p#})"
    using True by (simp add: mset_update)
  moreover have "mset (ur_in_flight st) - {#?p#} = mset (take_nth i (ur_in_flight st))"
    using mset_take_nth [of i "ur_in_flight st"] True by simp
  ultimately have "\<Sum>\<^sub># (image_mset (\<lambda>p. mset (owned p)) (mset ?fl))
      = add_mset (ur_next st) (\<Sum>\<^sub># (image_mset (\<lambda>p. mset (owned p)) (mset (ur_in_flight st))))"
    using mset_take_nth [of i "ur_in_flight st"] True own by (simp add: owned_def)
  then have ok': "udp_inv (st\<lparr>ur_in_flight := ?fl, ur_open := ur_next st # ur_open st, ur_next := Suc (ur_next st)\<rparr>)"
    using inv by (auto simp: udp_inv_def owners_alt less_Suc_eq)
  have ok'': "udp_inv (st\<lparr>ur_in_flight := ?fl, ur_open := ur_next st # ur_open st, ur_next := Suc (ur_next st),
      ur_sent := x\<rparr>)" for x
    using ok' by (simp add: udp_inv_def owners_def)
  show ?thesis
    using True gone [of "Suc (ur_next st)"] gone' ok''
    by (auto simp: forward_connect_def Let_def intro!: udp_inv_add split: option.split sum.split)
qed

lemma udp_inv_finish [keeps_inv]:
  assumes inv: "udp_inv st"
  shows "udp_inv (forward_finish i now ok st)"
proof (cases "i < length (ur_in_flight st) \<and> if_upstream (ur_in_flight st ! i) \<noteq> None")
  case False
  with inv show ?thesis by (auto simp: forward_finish_def)
next
  case True
  then obtain u where u: "if_upstream (ur_in_flight st ! i) = Some u" and i: "i < length (ur_in_flight st)"
    by auto
  let ?p = "ur_in_flight st ! i" and ?a = "if_client (ur_in_flight st ! i)"
  let ?s1 = "st\<lparr>ur_in_flight := take_nth i (ur_in_flight st)\<rparr>"
  let ?new = "\<lparr>ss_upstream = u, ss_last_seen = now, ss_finished = False\<rparr>"
  have wf: "hm_wf (ur_sessions st)" using inv by (simp add: udp_inv_def)
  have own: "mset (owners st) = add_mset u (mset (owners ?s1))"
    using owners_take_nth [OF i] u by (simp add: owned_def)
  have op: "mset (ur_open st) = add_mset u (mset (owners ?s1))"
    using inv own by (simp add: udp_inv_def)
  have aborted: "udp_inv (?s1\<lparr>ur_open := remove1 u (ur_open st)\<rparr>)"
    using inv op by (auto simp: udp_inv_def owners_def mset_remove1 dest: set_remove1_subset [THEN subsetD])
  have ins: "mset (map (\<lambda>(_, s). ss_upstream s) (hm_insert ?a ?new (ur_sessions st)))
      = add_mset u (mset (map (\<lambda>(_, s). ss_upstream s) (hm_remove ?a (ur_sessions st))))"
    using mset_hm_insert [OF wf, of "\<lambda>(_, s). ss_upstream s" ?a ?new] by simp
  show ?thesis
  proof (cases "hm_get (ur_sessions st) ?a")
    case None
    then have "hm_remove ?a (ur_sessions st) = ur_sessions st"
      by (auto intro!: delete_idem simp: map_of_eq_None_iff)
    with inv ins op have "udp_inv (?s1\<lparr>ur_sessions := hm_insert ?a ?new (ur_sessions st)\<rparr>)"
      by (auto simp: udp_inv_def owners_def)
    with None aborted u i show ?thesis
      by (auto simp: forward_finish_def Let_def intro!: udp_inv_add)
  next
    case (Some s)
    note mset_hm_remove [OF wf Some, of "\<lambda>(_, s). ss_upstream s"]
    with inv ins op have repl: "udp_inv (?s1\<lparr>ur_sessions := hm_insert ?a ?new (ur_sessions st),
        ur_open := remove1 (ss_upstream s) (ur_open st)\<rparr>)"
      by (auto simp: udp_inv_def owners_def mset_remove1 dest: set_remove1_subset [THEN subsetD])
    have "udp_inv (touch_and_send now ok ?a (if_data ?p) s (?s1\<lparr>ur_open := remove1 u (ur_open st)\<rparr>))"
      using aborted Some by (intro udp_inv_touch) simp_all
    with repl Some u i show ?thesis
      by (auto simp: forward_finish_def Let_def intro!: udp_inv_add)
  qed
qed

lemma udp_inv_stop [keeps_inv]: "udp_inv (udp_stop_relay st)"
  by (simp add: udp_stop_relay_def udp_inv_def owners_def)

lemma udp_inv_step [keeps_inv]: "udp_inv st \<Longrightarrow> udp_inv (udp_step st ev)"
  by (cases ev) (auto simp: keeps_inv split: option.split)

interpretation udp_sockets: invariant_machine udp_step udp_inv
  by unfold_locales (rule udp_inv_step)

lemma udp_init_inv: "udp_inv (udp_init sa host port af n b)"
  by (simp add: udp_inv_def udp_init_def owners_def)

section \<open>Starting and stopping the relay\<close>

record udp_handle =
  uh_relay :: udp_relay
  uh_counter :: nat
  uh_bucket :: "nat option"

definition udp_start :: "env \<Rightarrow> rule \<Rightarrow> nat option \<Rightarrow> world \<Rightarrow> (start_error + udp_handle) \<times> world" where
  "udp_start ev r bucket w =
     (case listen_addr r of
        Inl e \<Rightarrow> (Inl e, w)
      | Inr sa \<Rightarrow>
          (case bind_socket ev Udp sa w of
             (Inl e, w1) \<Rightarrow> (Inl e, w1)
           | (Inr _, w1) \<Rightarrow>
               (case ensure_counter (r_id r) w1 of (c, w2) \<Rightarrow>
                  (case u16_try_from (r_target_port r) of
                     None \<Rightarrow> (Inl (Target_Port_Range (r_target_port r)), release_socket Udp sa w2)
                   | Some port \<Rightarrow>
                       (Inr \<lparr>uh_relay = udp_init sa (r_target_host r) port (r_remote_af r) MAX_UDP_SESSIONS
                                (case bucket of None \<Rightarrow> None | Some i \<Rightarrow> Some (w_buckets w2 ! i)),
                             uh_counter = c, uh_bucket = bucket\<rparr>, w2)))))"

definition udp_stop :: "udp_handle \<Rightarrow> world \<Rightarrow> world" where
  "udp_stop h w = release_socket Udp (ur_addr (uh_relay h)) w"

lemma udp_start_bound:
  "w_bound (snd (udp_start ev r b w)) =
     (case fst (udp_start ev r b w) of Inl _ \<Rightarrow> w_bound w | Inr h \<Rightarrow> (Udp, ur_addr (uh_relay h)) # w_bound w)"
  by (auto simp: udp_start_def bind_socket_def ensure_counter_def release_socket_def udp_init_def
      split: sum.splits option.splits prod.splits)

lemma udp_start_stats_wf [keeps_inv]:
  "stats_wf (w_stats w) \<Longrightarrow> stats_wf (w_stats (snd (udp_start ev r b w)))"
  using stats_wf_ensure [of "w_stats w" "r_id r"]
  by (auto simp: udp_start_def bind_socket_def ensure_counter_def release_socket_def
      split: sum.splits option.splits prod.splits)

section \<open>Properties\<close>

text \<open>The NAT table of a UDP rule never grows beyond its cap, under any interleaving of packets,
  connections in progress, responses, dying sessions and sweeps: also when many first packets are
  connecting at the same time.\<close>

theorem udp_table_bounded:
  "length (ur_sessions (foldl udp_step (udp_init sa host port af cap b) evs)) \<le> cap"
  using udp_table.run_within [of "udp_init sa host port af cap b" evs]
  by (simp add: udp_init_def)

text \<open>C21. No upstream socket is leaked: after any interleaving of events, the open sockets are
  exactly those that a session or a packet in flight owns, each owned once; after a stop none is open.\<close>

theorem udp_no_socket_leak:
  "(let st = foldl udp_step (udp_init sa host port af cap b) evs in
     mset (ur_open st) = mset (owners st) \<and> distinct (ur_open st))
   \<and> ur_open (foldl udp_step (udp_init sa host port af cap b) (evs @ [Stop_Udp])) = []"
proof -
  have "udp_inv (foldl udp_step (udp_init sa host port af cap b) evs)"
    by (rule udp_sockets.run_inv) (rule udp_init_inv)
  then show ?thesis
    by (simp add: Let_def udp_inv_def udp_stop_relay_def)
qed

text \<open>When two first packets of a client connect at the same time, the second one to finish is
  sent twice: once on its own socket before the check, and again on the session it finds. The
  comment at that place says the packet is not sent again.\<close>

theorem udp_dedup_sends_twice:
  assumes "i < length (ur_in_flight st)" "if_upstream (ur_in_flight st ! i) = None"
    "hm_get (ur_sessions st) (if_client (ur_in_flight st ! i)) = Some s" "\<not> ss_finished s"
  shows "ur_sent (forward_finish i now True (forward_connect i (Some (Inr sa)) True st))
    = ur_sent st @ [(ur_next st, if_data (ur_in_flight st ! i)), (ss_upstream s, if_data (ur_in_flight st ! i))]"
  using assms
  by (simp add: forward_connect_def forward_finish_def touch_and_send_def Let_def)

definition racing :: udp_relay where
  "racing = foldl udp_step (udp_init (Sock_Addr (V4 (Ipv4 1 1 1 1)) 53) ''t'' 53 [] 10 None)
     [Packet 0 0 True (Sock_Addr (V4 (Ipv4 2 2 2 2)) 9) [1],
      Packet 0 0 True (Sock_Addr (V4 (Ipv4 2 2 2 2)) 9) [2],
      Connect_Done 0 (Some (Inr (Sock_Addr (V4 (Ipv4 3 3 3 3)) 53))) True, Finish 0 0 True]"

lemma udp_dedup_sends_twice_witness:
  "ur_sent (forward_finish 0 0 True (forward_connect 0 (Some (Inr (Sock_Addr (V4 (Ipv4 3 3 3 3)) 53))) True racing))
   = [(0, [1]), (1, [2]), (0, [2])]"
proof -
  have eq: "racing = \<lparr>ur_addr = Sock_Addr (V4 (Ipv4 1 1 1 1)) 53, ur_max_sessions = 10, ur_target_host = ''t'',
      ur_target_port = 53, ur_remote_af = [],
      ur_sessions = [(Sock_Addr (V4 (Ipv4 2 2 2 2)) 9, \<lparr>ss_upstream = 0, ss_last_seen = 0, ss_finished = False\<rparr>)],
      ur_in_flight = [\<lparr>if_client = Sock_Addr (V4 (Ipv4 2 2 2 2)) 9, if_data = [2], if_upstream = None\<rparr>],
      ur_open = [0], ur_next = 1, ur_bucket = None,
      ur_count = \<lparr>cn_rx = 0, cn_tx = 2, cn_conn = 1, cn_err = 0\<rparr>, ur_sent = [(0, [1])]\<rparr>"
    by (simp add: racing_def udp_init_def forward_begin_def take_quota_def critical_1_def reap_finished_def
        forward_connect_def forward_finish_def take_nth_def add_tx_def add_conn_def counter_default_def Let_def)
  show ?thesis
    using udp_dedup_sends_twice [of 0 racing "\<lparr>ss_upstream = 0, ss_last_seen = 0, ss_finished = False\<rparr>" 0
        "Sock_Addr (V4 (Ipv4 3 3 3 3)) 53"]
    by (simp add: eq)
qed

end
