(* ===== verification/Frame.thy ===== *)
theory Frame
  imports Prelude
begin

text \<open>
  \<^verbatim>\<open>node-agent/src/tunnel/frame.rs\<close>: the wire format of UDP packets inside a tunnel stream, a
  big-endian length of two bytes and the payload. A writer appends to the bytes of the
  stream, a reader consumes a prefix of them.
\<close>

definition STREAM_TCP :: u8 where "STREAM_TCP = 0x01"

definition STREAM_UDP :: u8 where "STREAM_UDP = 0x02"

datatype frame_error = Payload_Too_Large | Unexpected_Eof

definition to_be_bytes :: "u16 \<Rightarrow> u8 list" where
  "to_be_bytes x = [ucast (drop_bit 8 x), ucast x]"

definition from_be_bytes :: "u8 \<Rightarrow> u8 \<Rightarrow> u16" where
  "from_be_bytes a b = push_bit 8 (ucast a) OR ucast b"

text \<open>What \<^verbatim>\<open>write_frame\<close> puts on the stream.\<close>

definition write_frame :: "u8 list \<Rightarrow> frame_error + u8 list" where
  "write_frame payload =
     (if length payload \<le> 65535 then Inr (to_be_bytes (of_nat (length payload)) @ payload)
      else Inl Payload_Too_Large)"

text \<open>\<^verbatim>\<open>read_exact\<close> on the bytes before the end of the stream.\<close>

definition read_exact :: "nat \<Rightarrow> u8 list \<Rightarrow> frame_error + (u8 list \<times> u8 list)" where
  "read_exact n bs = (if n \<le> length bs then Inr (take n bs, drop n bs) else Inl Unexpected_Eof)"

definition read_frame :: "u8 list \<Rightarrow> frame_error + (u8 list \<times> u8 list)" where
  "read_frame bs =
     bindR (read_exact 2 bs) (\<lambda>(len_bytes, rest).
       read_exact (unat (from_be_bytes (len_bytes ! 0) (len_bytes ! 1))) rest)"

text \<open>Reading frames until the stream ends, as the loops over a tunnel do.\<close>

fun read_frames :: "nat \<Rightarrow> u8 list \<Rightarrow> u8 list list" where
  "read_frames 0 bs = []"
| "read_frames (Suc fuel) bs =
     (case read_frame bs of Inl _ \<Rightarrow> [] | Inr (p, rest) \<Rightarrow> p # read_frames fuel rest)"

fun write_frames :: "u8 list list \<Rightarrow> frame_error + u8 list" where
  "write_frames [] = Inr []"
| "write_frames (p # ps) =
     bindR (write_frame p) (\<lambda>b. bindR (write_frames ps) (\<lambda>bs. Inr (b @ bs)))"

lemma be_bytes_inverse [simp]:
  "from_be_bytes (ucast (drop_bit 8 x)) (ucast x) = x"
  unfolding from_be_bytes_def
proof (rule bit_word_eqI)
  fix n
  assume "n < LENGTH(16)"
  then show "bit (push_bit 8 (ucast (ucast (drop_bit 8 x) :: u8)) OR ucast (ucast x :: u8) :: u16) n = bit x n"
    by (auto simp: bit_or_iff bit_push_bit_iff bit_ucast_iff bit_drop_bit_eq)
qed

lemma read_frame_write:
  assumes "write_frame p = Inr bs"
  shows "read_frame (bs @ rest) = Inr (p, rest)"
proof -
  have len: "length p < 65536" and bs: "bs = to_be_bytes (of_nat (length p)) @ p"
    using assms by (auto simp: write_frame_def split: if_splits)
  have "unat (of_nat (length p) :: u16) = length p"
    using len by (simp add: unat_of_nat take_bit_nat_eq_self)
  then show ?thesis
    by (simp add: bs read_frame_def read_exact_def to_be_bytes_def)
qed

lemma read_frames_write_aux:
  assumes "write_frames ps = Inr bs" "length ps < fuel"
  shows "read_frames fuel bs = ps"
  using assms
proof (induction ps arbitrary: fuel bs)
  case Nil
  then show ?case
    by (cases fuel) (auto simp: read_frame_def read_exact_def)
next
  case (Cons p ps)
  obtain b bs' where b: "write_frame p = Inr b" "write_frames ps = Inr bs'" "bs = b @ bs'"
    using Cons.prems(1) by (auto simp: bindR_eq_Inr)
  obtain f where "fuel = Suc f" "length ps < f"
    using Cons.prems(2) by (cases fuel) auto
  with Cons.IH [of bs' f] b show ?case
    by (simp add: read_frame_write)
qed

lemma read_frame_length:
  "read_frame bs = Inr (p, rest) \<Longrightarrow> length bs = 2 + length p + length rest"
  by (auto simp: read_frame_def read_exact_def bindR_eq_Inr split: if_splits)

text \<open>A frame cs short is an error, never a shorter payload.\<close>

lemma read_frame_truncated:
  assumes "write_frame p = Inr bs" "n < length bs"
  shows "read_frame (take n bs) = Inl Unexpected_Eof"
proof -
  have len: "length p < 65536" and bs: "bs = to_be_bytes (of_nat (length p)) @ p"
    using assms(1) by (auto simp: write_frame_def split: if_splits)
  have u: "unat (of_nat (length p) :: u16) = length p"
    using len by (simp add: unat_of_nat take_bit_nat_eq_self)
  consider "n = 0" | "n = 1" | m where "n = Suc (Suc m)" "m < length p"
    using assms(2) bs by (cases n; cases "n - 1") (auto simp: to_be_bytes_def)
  then show ?thesis
  proof cases
    case 3
    then have "take n bs = to_be_bytes (of_nat (length p)) @ take m p"
      by (simp add: bs to_be_bytes_def)
    with 3 u show ?thesis
      by (simp add: read_frame_def read_exact_def to_be_bytes_def)
  qed (simp_all add: read_frame_def read_exact_def)
qed

text \<open>A stream cs anywhere gives the first frames, each one intact.\<close>

lemma read_frames_prefix:
  assumes "write_frames ps = Inr bs" "prefix cs bs"
  shows "prefix (read_frames fuel cs) ps"
  using assms
proof (induction ps arbitrary: fuel bs cs)
  case Nil
  then have "read_frame cs = Inl Unexpected_Eof"
    by (simp add: read_frame_def read_exact_def)
  then show ?case
    by (cases fuel) auto
next
  case (Cons p ps)
  obtain b bs' where b: "write_frame p = Inr b" "write_frames ps = Inr bs'" "bs = b @ bs'"
    using Cons.prems(1) by (auto simp: bindR_eq_Inr)
  show ?case
  proof (cases fuel)
    case 0
    then show ?thesis by simp
  next
    case (Suc f)
    show ?thesis
    proof (cases "length cs < length b")
      case True
      then have "cs = take (length cs) b"
        using Cons.prems(2) b(3) by (auto simp: prefix_def) (metis append_eq_append_conv_if take_all_iff
            append_take_drop_id linorder_not_le order_less_imp_le same_append_eq take_append)
      then have "read_frame cs = Inl Unexpected_Eof"
        using read_frame_truncated [OF b(1) True] by simp
      with Suc show ?thesis by simp
    next
      case False
      then obtain t where t: "cs = b @ t" "prefix t bs'"
        using Cons.prems(2) b(3) by (auto simp: prefix_def append_eq_append_conv2)
      with Cons.IH [OF b(2) t(2), of f] read_frame_write [OF b(1), of t] Suc show ?thesis
        by simp
    qed
  qed
qed

text \<open>
  Which frames those are: all that have arrived whole. \<open>framed_length\<close> is the number of bytes
  that packets take on the stream.
\<close>

definition framed_length :: "u8 list list \<Rightarrow> nat" where
  "framed_length ps = sum_list (map (\<lambda>p. 2 + length p) ps)"

lemma framed_length_simps [simp]:
  "framed_length [] = 0" "framed_length (p # ps) = 2 + length p + framed_length ps"
  by (simp_all add: framed_length_def)

lemma framed_length_take: "framed_length (take k ps) \<le> framed_length ps"
  by (induction ps arbitrary: k) (auto simp: take_Cons split: nat.split)

lemma write_frame_length: "write_frame p = Inr b \<Longrightarrow> length b = 2 + length p"
  by (auto simp: write_frame_def to_be_bytes_def split: if_splits)

lemma write_frames_length: "write_frames ps = Inr bs \<Longrightarrow> length bs = framed_length ps"
  by (induction ps arbitrary: bs) (auto simp: bindR_eq_Inr write_frame_length)

lemma read_frame_short:
  assumes "write_frame p = Inr b" "prefix cs (b @ bs)" "length cs < length b"
  shows "read_frame cs = Inl Unexpected_Eof"
proof -
  have "cs = take (length cs) b"
    using assms(2,3) by (auto simp: prefix_def) (metis append_eq_append_conv_if take_all_iff
        append_take_drop_id linorder_not_le order_less_imp_le same_append_eq take_append)
  then show ?thesis
    using read_frame_truncated [OF assms(1,3)] by simp
qed

lemma read_frames_take:
  assumes "write_frames ps = Inr bs" "prefix cs bs" "length cs < fuel"
  shows "\<exists>k \<le> length ps. read_frames fuel cs = take k ps \<and> framed_length (take k ps) \<le> length cs
    \<and> (k < length ps \<longrightarrow> length cs < framed_length (take (Suc k) ps))"
  using assms
proof (induction ps arbitrary: fuel bs cs)
  case Nil
  then have "read_frame cs = Inl Unexpected_Eof"
    by (simp add: read_frame_def read_exact_def)
  then show ?case
    by (cases fuel) auto
next
  case (Cons p ps)
  obtain b bs' where b: "write_frame p = Inr b" "write_frames ps = Inr bs'" "bs = b @ bs'"
    using Cons.prems(1) by (auto simp: bindR_eq_Inr)
  obtain f where f: "fuel = Suc f" "length cs \<le> f"
    using Cons.prems(3) by (cases fuel) auto
  note len = write_frame_length [OF b(1)]
  show ?case
  proof (cases "length cs < length b")
    case True
    with read_frame_short [OF b(1) _ True] Cons.prems(2) b(3) f len show ?thesis
      by (intro exI [of _ 0]) simp
  next
    case False
    then obtain t where t: "cs = b @ t" "prefix t bs'"
      using Cons.prems(2) b(3) by (auto simp: prefix_def append_eq_append_conv2)
    with f len have "length t < f" by simp
    from Cons.IH [OF b(2) t(2) this] obtain k where k: "k \<le> length ps" "read_frames f t = take k ps"
      "framed_length (take k ps) \<le> length t" "k < length ps \<longrightarrow> length t < framed_length (take (Suc k) ps)"
      by blast
    with read_frame_write [OF b(1), of t] f t(1) len show ?thesis
      by (intro exI [of _ "Suc k"]) simp
  qed
qed

section \<open>Properties\<close>

text \<open>Packets written as frames on a stream are read back as the same packets, in order; when
  the stream is cut anywhere, what is read is a prefix of them: no packet is split, merged or
  shortened.\<close>

theorem frames_round_trip:
  assumes "write_frames ps = Inr bs"
  shows "read_frames (Suc (length ps)) bs = ps
    \<and> (\<forall>fuel k. prefix (read_frames fuel (take k bs)) ps)"
  using read_frames_write_aux [OF assms, of "Suc (length ps)"] read_frames_prefix [OF assms take_is_prefix]
  by simp

lemma frames_round_trip_witness:
  "read_frames 3 [0, 2, 7, 8, 0, 0] = [[7, 8], []]"
proof -
  have "write_frames [[7, 8], []] = Inr [0, 2, 7, 8, 0, 0]"
    by (simp add: write_frame_def to_be_bytes_def)
  from frames_round_trip [OF this] show ?thesis
    by (simp add: numeral_3_eq_3)
qed

end
