(* ===== verification/Tunnel_Task.thy ===== *)
theory Tunnel_Task
  imports World Upstream Frame Byte_Pump
begin

text \<open>
  \<^verbatim>\<open>node-agent/src/tunnel\<close>: a hop of a multi-hop tunnel. The transports and the names the
  hops authenticate each other with, starting a hop in its role, the UDP loop of an entry,
  what a middle hop and an exit do with a connection, and what passes through a chain of hops.
  Whether the files of a hop load is the field \<open>ev_credentials\<close> of the environment; the certificates
  in them and the handshake are in \<^verbatim>\<open>Tunnel_Certs\<close>.
\<close>

section \<open>Transports\<close>

text \<open>The DNS name of a hop in its certificate.\<close>

definition hop_name :: "int \<Rightarrow> u32 \<Rightarrow> string" where
  "hop_name tunnel_id ordinal =
     ''tunnel-'' @ show_int tunnel_id @ ''-hop-'' @ dec (unat ordinal) @ ''.emorelay.internal''"

datatype transport =
    Tcp_Transport
  | Tls_Transport (dial_sni: string) (expect_client_san: "string option")
  | Wss_Transport (dial_sni: string) (expect_client_san: "string option")

definition load_tls :: "env \<Rightarrow> tunnel_context \<Rightarrow> start_error + (string \<times> string option)" where
  "load_tls ev ctx =
     (if ev_credentials ev (tc_tunnel_id ctx) (tc_self_ordinal ctx)
      then Inr (hop_name (tc_tunnel_id ctx) (tc_self_ordinal ctx + 1),
                if tc_self_ordinal ctx = 0 then None
                else Some (hop_name (tc_tunnel_id ctx) (tc_self_ordinal ctx - 1)))
      else Inl (Transport_Load (tc_tunnel_id ctx) (tc_self_ordinal ctx)))"

definition make_transport :: "env \<Rightarrow> tunnel_context \<Rightarrow> start_error + transport" where
  "make_transport ev ctx =
     (if tc_transport ctx = ''tcp'' then Inr Tcp_Transport
      else if tc_transport ctx = ''tls'' then
        bindR (load_tls ev ctx) (\<lambda>(sni, san). Inr (Tls_Transport sni san))
      else if tc_transport ctx = ''wss'' then
        bindR (load_tls ev ctx) (\<lambda>(sni, san). Inr (Wss_Transport sni san))
      else Inl (Unknown_Transport (tc_transport ctx)))"

text \<open>\<^verbatim>\<open>verify_client_san\<close>: some DNS name of the client's certificate is the expected one.\<close>

definition verify_client_san :: "string list \<Rightarrow> string \<Rightarrow> bool" where
  "verify_client_san cert_names expected = list_ex (\<lambda>d. d = expected) cert_names"

text \<open>\<^verbatim>\<open>bind\<close> of the transports; the address is \<^verbatim>\<open>0.0.0.0:port\<close>.\<close>

definition v6_unspecified :: ipv6 where
  "v6_unspecified = Ipv6 0 0 0 0 0 0 0 0"

definition bound_socket :: "bound \<Rightarrow> socket" where
  "bound_socket b = (Tcp, case b of Dual_Stack p \<Rightarrow> Sock_Addr (V6 v6_unspecified) p | Plain sa \<Rightarrow> sa)"

definition transport_bind :: "env \<Rightarrow> transport \<Rightarrow> u32 \<Rightarrow> world \<Rightarrow> (start_error + socket) \<times> world" where
  "transport_bind ev t port w =
     (if t \<noteq> Tcp_Transport \<and> expect_client_san t = None then (Inl Entry_Must_Not_Bind, w)
      else (case u16_try_from port of
              None \<Rightarrow> (Inl (Bad_Bind_Addr port), w)
            | Some p \<Rightarrow>
                (case bind_tcp_dual (\<lambda>q. ev_bind ev (w_bound w) Tcp (Sock_Addr (V6 v6_unspecified) q))
                        (\<lambda>sa. ev_bind ev (w_bound w) Tcp sa) (Some (Sock_Addr (V4 v4_unspecified) p)) of
                   Inl _ \<Rightarrow> (Inl (Bind_Failed Tcp (Sock_Addr (V4 v4_unspecified) p)), w)
                 | Inr b \<Rightarrow> (Inr (bound_socket b), w\<lparr>w_bound := bound_socket b # w_bound w\<rparr>))))"

section \<open>Starting a hop\<close>

datatype hop_mode = Mid_Mode | Exit_Mode string u16 string

record tunnel_task =
  tt_sockets :: "socket list"
  tt_next_hop :: string
  tt_transport :: transport
  tt_counter :: "nat option"
  tt_bucket :: "nat option"
  tt_limiter :: "semaphore option"
  tt_mode :: "hop_mode option"

definition want_tcp :: "rule \<Rightarrow> bool" where
  "want_tcp r = (r_protocol r = ''tcp'' \<or> r_protocol r = ''tcp_udp'')"

definition want_udp :: "rule \<Rightarrow> bool" where
  "want_udp r = (r_protocol r = ''udp'' \<or> r_protocol r = ''tcp_udp'')"

definition next_hop_of :: "tunnel_context \<Rightarrow> string" where
  "next_hop_of ctx = join_host_port (tc_next_hop_addr ctx) (ucast (tc_next_hop_inter_port ctx))"

definition bind_if :: "bool \<Rightarrow> env \<Rightarrow> l4 \<Rightarrow> sock_addr \<Rightarrow> world \<Rightarrow> (start_error + socket list) \<times> world" where
  "bind_if wanted ev l sa w =
     (if wanted then (case bind_socket ev l sa w of (Inl e, w') \<Rightarrow> (Inl e, w') | (Inr _, w') \<Rightarrow> (Inr [(l, sa)], w'))
      else (Inr [], w))"

text \<open>When the UDP bind fails the TCP listener goes out of scope.\<close>

definition release_all :: "socket list \<Rightarrow> world \<Rightarrow> world" where
  "release_all ss w = foldl (\<lambda>w (l, sa). release_socket l sa w) w ss"

definition start_entry ::
    "env \<Rightarrow> rule \<Rightarrow> tunnel_context \<Rightarrow> nat option \<Rightarrow> transport \<Rightarrow> world \<Rightarrow> (start_error + tunnel_task) \<times> world"
  where
  "start_entry ev r ctx bucket t w =
     (case listen_addr r of
        Inl e \<Rightarrow> (Inl e, w)
      | Inr sa \<Rightarrow>
          (case ensure_counter (r_id r) w of (c, w1) \<Rightarrow>
            (case bind_if (want_tcp r) ev Tcp sa w1 of
               (Inl e, w2) \<Rightarrow> (Inl e, w2)
             | (Inr ts, w2) \<Rightarrow>
                 (case bind_if (want_udp r) ev Udp sa w2 of
                    (Inl e, w3) \<Rightarrow> (Inl e, release_all ts w3)
                  | (Inr us, w3) \<Rightarrow>
                      (Inr \<lparr>tt_sockets = us @ ts, tt_next_hop = next_hop_of ctx, tt_transport = t,
                            tt_counter = Some c, tt_bucket = bucket,
                            tt_limiter = conn_limiter (r_max_connections r), tt_mode = None\<rparr>, w3)))))"

definition start_relay_hop ::
    "env \<Rightarrow> tunnel_context \<Rightarrow> transport \<Rightarrow> hop_mode \<Rightarrow> world \<Rightarrow> (start_error + tunnel_task) \<times> world" where
  "start_relay_hop ev ctx t mode w =
     (case transport_bind ev t (tc_self_inter_port ctx) w of
        (Inl e, w') \<Rightarrow> (Inl e, w')
      | (Inr s, w') \<Rightarrow>
          (Inr \<lparr>tt_sockets = [s], tt_next_hop = next_hop_of ctx, tt_transport = t, tt_counter = None,
                tt_bucket = None, tt_limiter = None, tt_mode = Some mode\<rparr>, w'))"

definition tunnel_start ::
    "env \<Rightarrow> rule \<Rightarrow> nat option \<Rightarrow> transport \<Rightarrow> world \<Rightarrow> (start_error + tunnel_task) \<times> world" where
  "tunnel_start ev r bucket t w =
     (case r_tunnel r of
        None \<Rightarrow> (Inl No_Tunnel_Context, w)
      | Some ctx \<Rightarrow>
          (case tunnel_role_of (tc_role ctx) of
             Some Role_Entry \<Rightarrow> start_entry ev r ctx bucket t w
           | Some Role_Mid \<Rightarrow> start_relay_hop ev ctx t Mid_Mode w
           | Some Role_Exit \<Rightarrow>
               (case u16_try_from (r_target_port r) of
                  None \<Rightarrow> (Inl (Target_Port_Range (r_target_port r)), w)
                | Some p \<Rightarrow> start_relay_hop ev ctx t (Exit_Mode (r_target_host r) p (r_remote_af r)) w)
           | _ \<Rightarrow> (Inl (Unspecified_Role (tc_role ctx)), w)))"

definition tunnel_stop :: "tunnel_task \<Rightarrow> world \<Rightarrow> world" where
  "tunnel_stop h w = release_all (tt_sockets h) w"

lemma release_all_bound:
  "w_bound (release_all ss w) = fold remove1 ss (w_bound w)"
  "w_stats (release_all ss w) = w_stats w"
  by (induction ss arbitrary: w) (auto simp: release_all_def frame_simps)

lemma bind_if_bound:
  "w_bound (snd (bind_if b ev l sa w)) =
     (case fst (bind_if b ev l sa w) of Inl _ \<Rightarrow> w_bound w | Inr ss \<Rightarrow> ss @ w_bound w)"
  by (auto simp: bind_if_def bind_socket_def)

lemma bind_if_stats [frame_simps]: "w_stats (snd (bind_if b ev l sa w)) = w_stats w"
  by (simp add: bind_if_def bind_socket_def)

lemma bind_if_sockets: "bind_if b ev l sa w = (Inr ss, w') \<Longrightarrow> ss = (if b then [(l, sa)] else [])"
  by (auto simp: bind_if_def bind_socket_def split: if_splits)

lemma start_entry_bound:
  "w_bound (snd (start_entry ev r ctx b t w)) =
     (case fst (start_entry ev r ctx b t w) of Inl _ \<Rightarrow> w_bound w | Inr h \<Rightarrow> tt_sockets h @ w_bound w)"
proof (cases "listen_addr r")
  case (Inl e)
  then show ?thesis by (simp add: start_entry_def)
next
  case (Inr sa)
  obtain c w1 where c: "ensure_counter (r_id r) w = (c, w1)" by fastforce
  have w1: "w_bound w1 = w_bound w"
    using ensure_counter_frame(1) [of "r_id r" w] c by simp
  obtain x w2 where b1: "bind_if (want_tcp r) ev Tcp sa w1 = (x, w2)" by fastforce
  show ?thesis
  proof (cases x)
    case (Inl e)
    with Inr c w1 b1 bind_if_bound [of "want_tcp r" ev Tcp sa w1] show ?thesis
      by (simp add: start_entry_def)
  next
    case (Inr ts)
    obtain y w3 where b2: "bind_if (want_udp r) ev Udp sa w2 = (y, w3)" by fastforce
    have "ts = [] \<or> ts = [(Tcp, sa)]"
      using bind_if_sockets b1 Inr by fastforce
    with Inr \<open>listen_addr r = Inr sa\<close> c w1 b1 b2 bind_if_bound [of "want_tcp r" ev Tcp sa w1]
      bind_if_bound [of "want_udp r" ev Udp sa w2] show ?thesis
      by (auto simp: start_entry_def release_all_bound split: sum.split)
  qed
qed

lemma start_relay_hop_bound:
  "w_bound (snd (start_relay_hop ev ctx t m w)) =
     (case fst (start_relay_hop ev ctx t m w) of Inl _ \<Rightarrow> w_bound w | Inr h \<Rightarrow> tt_sockets h @ w_bound w)"
  by (auto simp: start_relay_hop_def transport_bind_def split: option.split sum.split)

lemma tunnel_start_bound:
  "w_bound (snd (tunnel_start ev r b t w)) =
     (case fst (tunnel_start ev r b t w) of Inl _ \<Rightarrow> w_bound w | Inr h \<Rightarrow> tt_sockets h @ w_bound w)"
  using start_entry_bound start_relay_hop_bound
  by (auto simp: tunnel_start_def split: option.split tunnel_role.split)

lemma tunnel_start_stats_wf [keeps_inv]:
  "stats_wf (w_stats w) \<Longrightarrow> stats_wf (w_stats (snd (tunnel_start ev r b t w)))"
proof -
  assume wf: "stats_wf (w_stats w)"
  have "stats_wf (w_stats (snd (ensure_counter (r_id r) w)))"
    using stats_wf_ensure [OF wf] by (simp add: frame_simps)
  moreover have "w_stats (snd (start_entry ev r ctx b t w)) = w_stats w
      \<or> w_stats (snd (start_entry ev r ctx b t w)) = w_stats (snd (ensure_counter (r_id r) w))" for ctx
    using bind_if_stats
    by (auto simp: start_entry_def release_all_bound split: sum.split prod.split)
      (metis snd_conv)+
  ultimately have "stats_wf (w_stats (snd (start_entry ev r ctx b t w)))" for ctx
    using wf by metis
  moreover have "w_stats (snd (start_relay_hop ev ctx t m w)) = w_stats w" for ctx m
    by (auto simp: start_relay_hop_def transport_bind_def split: option.split sum.split)
  ultimately show ?thesis
    using wf by (auto simp: tunnel_start_def split: option.split tunnel_role.split)
qed

end
