(* ===== verification/Tunnel_Flow.thy ===== *)
theory Tunnel_Flow
  imports Tunnel_Task
begin

text \<open>
  What flows through a tunnel: the UDP session table of an entry, the byte that tells the
  exit what the stream carries, what a middle hop and an exit do with a connection, and the
  end-to-end statement over a chain of hops.
\<close>

section \<open>The UDP loop of an entry\<close>

definition UDP_SESSION_TIMEOUT :: int where "UDP_SESSION_TIMEOUT = 120"

definition MAX_TUNNEL_SESSIONS :: nat where "MAX_TUNNEL_SESSIONS = 4096"

text \<open>
  A session is a channel to its writer task. What \<^verbatim>\<open>try_send\<close> finds: room, a full channel, or
  a writer that has ended.
\<close>

datatype try_send = Sent | Full | Closed

record tunnel_session =
  ts_id :: nat
  ts_last_seen :: int

record entry_udp =
  eu_sessions :: "(sock_addr \<times> tunnel_session) list"
  eu_next :: nat
  eu_bucket :: "token_bucket option"
  eu_count :: counter
  eu_framed :: "(nat \<times> u8 list) list"

definition eu_error :: "entry_udp \<Rightarrow> entry_udp" where
  "eu_error st = st\<lparr>eu_count := (eu_count st)\<lparr>cn_err := cn_err (eu_count st) + 1\<rparr>\<rparr>"

definition eu_quota :: "rat \<Rightarrow> nat \<Rightarrow> entry_udp \<Rightarrow> bool \<times> entry_udp" where
  "eu_quota clock n st = (case eu_bucket st of
     None \<Rightarrow> (True, st)
   | Some b \<Rightarrow> (case try_acquire clock n b of (ok, b') \<Rightarrow> (ok, st\<lparr>eu_bucket := Some b'\<rparr>)))"

definition eu_tx :: "nat \<Rightarrow> entry_udp \<Rightarrow> entry_udp" where
  "eu_tx n st = st\<lparr>eu_count := (eu_count st)\<lparr>cn_tx := cn_tx (eu_count st) + of_nat n\<rparr>\<rparr>"

text \<open>
  The packet of a client with a session. \<open>Full\<close> drops the packet; \<open>Closed\<close> drops the session
  too, so that the next packet opens a new one.
\<close>

definition eu_existing :: "int \<Rightarrow> try_send \<Rightarrow> sock_addr \<Rightarrow> u8 list \<Rightarrow> tunnel_session \<Rightarrow> entry_udp \<Rightarrow> entry_udp" where
  "eu_existing now sent a data s st =
     (let st' = st\<lparr>eu_sessions := hm_insert a (s\<lparr>ts_last_seen := now\<rparr>) (eu_sessions st)\<rparr> in
      case sent of
        Sent \<Rightarrow> st'\<lparr>eu_framed := eu_framed st' @ [(ts_id s, data)]\<rparr>
      | Full \<Rightarrow> eu_error st'
      | Closed \<Rightarrow> eu_error (st'\<lparr>eu_sessions := hm_remove a (eu_sessions st')\<rparr>))"

text \<open>Opening a session: \<open>opened\<close> is false for an error and for the timeout of five seconds.\<close>

definition eu_new :: "int \<Rightarrow> bool \<Rightarrow> try_send \<Rightarrow> sock_addr \<Rightarrow> u8 list \<Rightarrow> entry_udp \<Rightarrow> entry_udp" where
  "eu_new now opened sent a data st =
     (if MAX_TUNNEL_SESSIONS \<le> length (eu_sessions st) then eu_error st
      else if \<not> opened then eu_error st
      else (let st1 = st\<lparr>eu_count := (eu_count st)\<lparr>cn_conn := cn_conn (eu_count st) + 1\<rparr>\<rparr>;
                st2 = (if sent = Sent then st1\<lparr>eu_framed := eu_framed st1 @ [(eu_next st, data)]\<rparr>
                       else eu_error st1)
            in st2\<lparr>eu_sessions := hm_insert a \<lparr>ts_id = eu_next st, ts_last_seen = now\<rparr> (eu_sessions st2),
                   eu_next := Suc (eu_next st)\<rparr>))"

definition eu_packet :: "rat \<Rightarrow> int \<Rightarrow> bool \<Rightarrow> try_send \<Rightarrow> sock_addr \<Rightarrow> u8 list \<Rightarrow> entry_udp \<Rightarrow> entry_udp" where
  "eu_packet clock now opened sent a data st =
     (case eu_quota clock (length data) (eu_tx (length data) st) of (ok, st1) \<Rightarrow>
        if \<not> ok then eu_error st1
        else (case hm_get (eu_sessions st1) a of
                Some s \<Rightarrow> eu_existing now sent a data s st1
              | None \<Rightarrow> eu_new now opened sent a data st1))"

definition eu_sweep :: "int \<Rightarrow> entry_udp \<Rightarrow> entry_udp" where
  "eu_sweep now st =
     st\<lparr>eu_sessions := hm_retain (\<lambda>_ s. now - ts_last_seen s \<le> UDP_SESSION_TIMEOUT) (eu_sessions st)\<rparr>"

datatype eu_event =
    Eu_Packet rat int bool try_send sock_addr "u8 list"
  | Eu_Recv_Error
  | Eu_Sweep int

fun entry_udp_step :: "entry_udp \<Rightarrow> eu_event \<Rightarrow> entry_udp" where
  "entry_udp_step st (Eu_Packet clock now opened sent a data) = eu_packet clock now opened sent a data st"
| "entry_udp_step st Eu_Recv_Error = eu_error st"
| "entry_udp_step st (Eu_Sweep now) = eu_sweep now st"

lemma eu_frame [simp]:
  "eu_sessions (eu_error st) = eu_sessions st" "eu_sessions (eu_tx n st) = eu_sessions st"
  "eu_framed (eu_error st) = eu_framed st" "eu_framed (eu_tx n st) = eu_framed st"
  "eu_bucket (eu_error st) = eu_bucket st" "eu_bucket (eu_tx n st) = eu_bucket st"
  by (simp_all add: eu_error_def eu_tx_def)

lemma eu_quota_frame [simp]:
  "eu_sessions (snd (eu_quota c n st)) = eu_sessions st"
  "eu_framed (snd (eu_quota c n st)) = eu_framed st"
  by (simp_all add: eu_quota_def split: option.split prod.split)

lemma eu_existing_length:
  "hm_get (eu_sessions st) a \<noteq> None \<Longrightarrow>
     length (eu_sessions (eu_existing now sent a data s st)) \<le> length (eu_sessions st)"
proof -
  assume "hm_get (eu_sessions st) a \<noteq> None"
  then have len: "length (hm_insert a v (eu_sessions st)) = length (eu_sessions st)" for v
    by (auto simp: length_hm_insert hm_get_in_keys [symmetric])
  then have "length (hm_remove a (hm_insert a v (eu_sessions st))) \<le> length (eu_sessions st)" for v
    by (metis length_hm_remove_le)
  with len show ?thesis
    by (simp add: eu_existing_def Let_def split: try_send.split)
qed

lemma eu_new_length:
  "length (eu_sessions (eu_new now opened sent a data st)) \<le> Suc (length (eu_sessions st))
   \<and> (MAX_TUNNEL_SESSIONS \<le> length (eu_sessions st) \<longrightarrow>
        length (eu_sessions (eu_new now opened sent a data st)) \<le> length (eu_sessions st))"
  by (simp add: eu_new_def Let_def length_hm_insert)

lemma eu_packet_length:
  "length (eu_sessions (eu_packet clock now opened sent a data st)) \<le> Suc (length (eu_sessions st))
   \<and> (MAX_TUNNEL_SESSIONS \<le> length (eu_sessions st) \<longrightarrow>
        length (eu_sessions (eu_packet clock now opened sent a data st)) \<le> length (eu_sessions st))"
proof -
  obtain ok st1 where q: "eu_quota clock (length data) (eu_tx (length data) st) = (ok, st1)"
    by fastforce
  have s1: "eu_sessions st1 = eu_sessions st"
    using eu_quota_frame(1) [of clock "length data" "eu_tx (length data) st"] q by simp
  show ?thesis
    using eu_existing_length [of st1 a now sent data] eu_new_length [of now opened sent a data st1] q s1
    by (auto simp: eu_packet_def le_SucI split: option.split)
qed

interpretation entry_table: capped_table entry_udp_step "\<lambda>st. length (eu_sessions st)" "\<lambda>_. MAX_TUNNEL_SESSIONS"
proof
  fix s e
  show "length (eu_sessions (entry_udp_step s e)) \<le> Suc (length (eu_sessions s))"
    using eu_packet_length
    by (cases e) (auto simp: eu_sweep_def intro: le_SucI [OF length_hm_retain_le])
  show "MAX_TUNNEL_SESSIONS \<le> length (eu_sessions s) \<Longrightarrow>
      length (eu_sessions (entry_udp_step s e)) \<le> length (eu_sessions s)"
    using eu_packet_length length_hm_retain_le
    by (cases e) (auto simp: eu_sweep_def)
qed simp

text \<open>No black hole: after a packet that found its writer gone, the client has no session.\<close>

lemma eu_closed_forgets:
  assumes "fst (eu_quota clock (length data) (eu_tx (length data) st))"
    "hm_get (eu_sessions st) a \<noteq> None"
  shows "hm_get (eu_sessions (eu_packet clock now opened Closed a data st)) a = None"
  using assms eu_quota_frame(1) [of clock "length data" "eu_tx (length data) st"]
  by (cases "eu_quota clock (length data) (eu_tx (length data) st)")
    (auto simp: eu_packet_def eu_existing_def Let_def)

section \<open>A connection at a hop\<close>

datatype hop_error =
    Dial_Next_Hop string
  | Preamble_Timeout
  | Preamble_Eof
  | Unknown_Preamble u8
  | Upstream_Failed connect_error

datatype hop_action =
    Relay_To_Next_Hop string
  | Relay_To_Target sock_addr "u8 list"
  | Udp_To_Target sock_addr "u8 list list"

text \<open>
  \<^verbatim>\<open>handle_hop_conn\<close> on the bytes that arrive: a middle hop passes all of them on; an exit
  reads the first byte and connects. \<open>dial_hop\<close> is the outcome of dialling the next hop.
\<close>

definition handle_hop_conn ::
    "(string \<Rightarrow> bool) \<Rightarrow> (string \<Rightarrow> io_error_kind + ip_addr list) \<Rightarrow> (sock_addr \<Rightarrow> connect_error option)
     \<Rightarrow> string \<Rightarrow> hop_mode \<Rightarrow> u8 list \<Rightarrow> hop_error + hop_action" where
  "handle_hop_conn dial_hop resolve dial next_hop mode bytes =
     (case mode of
        Mid_Mode \<Rightarrow> if dial_hop next_hop then Inr (Relay_To_Next_Hop next_hop) else Inl (Dial_Next_Hop next_hop)
      | Exit_Mode host port af \<Rightarrow>
          (case bytes of
             [] \<Rightarrow> Inl Preamble_Eof
           | b # rest \<Rightarrow>
               (if b = STREAM_TCP then
                  (case connect_upstream resolve dial af host port of
                     Inl e \<Rightarrow> Inl (Upstream_Failed e)
                   | Inr sa \<Rightarrow> Inr (Relay_To_Target sa rest))
                else if b = STREAM_UDP then
                  (case connect_upstream resolve dial af host port of
                     Inl e \<Rightarrow> Inl (Upstream_Failed e)
                   | Inr sa \<Rightarrow> Inr (Udp_To_Target sa (read_frames (Suc (length rest)) rest)))
                else Inl (Unknown_Preamble b))))"

text \<open>What the entry writes on the stream of a TCP connection and of a UDP session.\<close>

definition entry_tcp_stream :: "u8 list \<Rightarrow> u8 list" where
  "entry_tcp_stream payload = STREAM_TCP # payload"

definition entry_udp_stream :: "u8 list list \<Rightarrow> u8 list" where
  "entry_udp_stream packets = STREAM_UDP # (case write_frames packets of Inl _ \<Rightarrow> [] | Inr bs \<Rightarrow> bs)"

lemma exit_allowed:
  assumes "handle_hop_conn dh resolve dial nh (Exit_Mode host port af) bs = Inr act"
  shows "case act of Relay_To_Target sa _ \<Rightarrow> allowed resolve host port af sa | Udp_To_Target sa _ \<Rightarrow> allowed resolve host port af sa
     | Relay_To_Next_Hop _ \<Rightarrow> False"
  using assms connect_upstream_ok
  by (auto simp: handle_hop_conn_def split: list.splits if_splits sum.splits)

section \<open>A chain of hops\<close>

text \<open>
  The scripts of the copy loops of the middle hops, in order: each hop reads what the one
  before delivered.
\<close>

definition raw_delivered :: "read_result list \<times> write_result list \<times> u64 \<Rightarrow> u8 list" where
  "raw_delivered hop = (case hop of (rs, ws, c) \<Rightarrow> pu_delivered (copy_raw rs ws (pump_init c)))"

definition raw_source :: "read_result list \<times> write_result list \<times> u64 \<Rightarrow> u8 list" where
  "raw_source hop = (case hop of (rs, ws, c) \<Rightarrow> read_bytes rs)"

definition hop_chain :: "u8 list \<Rightarrow> (read_result list \<times> write_result list \<times> u64) list \<Rightarrow> bool" where
  "hop_chain stream hops =
     (\<forall>k < length hops. raw_source (hops ! k) = (if k = 0 then stream else raw_delivered (hops ! (k - 1))))"

text \<open>What arrives at the exit: the output of the last middle hop, or the stream itself.\<close>

definition at_exit :: "u8 list \<Rightarrow> (read_result list \<times> write_result list \<times> u64) list \<Rightarrow> u8 list" where
  "at_exit stream hops = (if hops = [] then stream else raw_delivered (last hops))"

lemma at_exit_prefix:
  assumes "hop_chain stream hops"
  shows "prefix (at_exit stream hops) stream"
proof (cases "hops = []")
  case True
  then show ?thesis by (simp add: at_exit_def)
next
  case False
  have "raw_source (hops ! Suc k) = raw_delivered (hops ! k)" if "Suc k < length hops" for k
    using assms that by (simp add: hop_chain_def)
  then have "prefix (raw_delivered (last hops)) (raw_source (hd hops))"
    using raw.chain [of hops] False by (simp add: raw_source_def raw_delivered_def case_prod_beta)
  moreover have "raw_source (hd hops) = stream"
    using assms False by (simp add: hop_chain_def hd_conv_nth)
  ultimately show ?thesis
    using False by (simp add: at_exit_def)
qed

lemma exit_tcp_payload:
  assumes "hop_chain (entry_tcp_stream payload) hops" "at_exit (entry_tcp_stream payload) hops \<noteq> []"
    "connect_upstream resolve dial af host port = Inr sa"
  shows "\<exists>got. handle_hop_conn dh resolve dial nh (Exit_Mode host port af) (at_exit (entry_tcp_stream payload) hops)
      = Inr (Relay_To_Target sa got) \<and> prefix got payload"
  using at_exit_prefix [OF assms(1)] assms(2,3)
  by (cases "at_exit (entry_tcp_stream payload) hops")
    (auto simp: entry_tcp_stream_def handle_hop_conn_def)

lemma stream_kinds_differ: "STREAM_TCP \<noteq> STREAM_UDP"
  by (simp add: STREAM_TCP_def STREAM_UDP_def)

lemma write_frames_total: "\<forall>p \<in> set ps. length p \<le> 65535 \<Longrightarrow> \<exists>bs. write_frames ps = Inr bs"
  by (induction ps) (auto simp: write_frame_def)

lemma exit_udp_packets:
  assumes "hop_chain (entry_udp_stream packets) hops" "at_exit (entry_udp_stream packets) hops \<noteq> []"
    "connect_upstream resolve dial af host port = Inr sa" "\<forall>p \<in> set packets. length p \<le> 65535"
  shows "\<exists>k \<le> length packets.
      handle_hop_conn dh resolve dial nh (Exit_Mode host port af) (at_exit (entry_udp_stream packets) hops)
        = Inr (Udp_To_Target sa (take k packets))
    \<and> 1 + framed_length (take k packets) \<le> length (at_exit (entry_udp_stream packets) hops)
    \<and> (k < length packets \<longrightarrow>
        length (at_exit (entry_udp_stream packets) hops) < 1 + framed_length (take (Suc k) packets))"
proof -
  obtain bs where bs: "write_frames packets = Inr bs"
    using write_frames_total [OF assms(4)] by blast
  obtain rest where rest: "at_exit (entry_udp_stream packets) hops = STREAM_UDP # rest" "prefix rest bs"
    using at_exit_prefix [OF assms(1)] assms(2) bs
    by (cases "at_exit (entry_udp_stream packets) hops") (auto simp: entry_udp_stream_def)
  obtain k where "k \<le> length packets" "read_frames (Suc (length rest)) rest = take k packets"
    "framed_length (take k packets) \<le> length rest"
    "k < length packets \<longrightarrow> length rest < framed_length (take (Suc k) packets)"
    using read_frames_take [OF bs rest(2), of "Suc (length rest)"] by auto
  with rest assms(3) stream_kinds_differ show ?thesis
    by (intro exI [of _ k]) (simp add: handle_hop_conn_def)
qed

lemma entry_udp_stream_length:
  assumes "\<forall>p \<in> set packets. length p \<le> 65535"
  shows "length (entry_udp_stream packets) = 1 + framed_length packets"
proof -
  obtain bs where "write_frames packets = Inr bs"
    using write_frames_total [OF assms] by blast
  then show ?thesis
    by (simp add: entry_udp_stream_def write_frames_length)
qed

section \<open>Properties\<close>

text \<open>C22. A TCP connection through a tunnel: whatever the copy loops of the hops between do, if
  anything arrives at the exit it connects to the rule's target, and what it passes on there is a
  prefix of what the client sent; the byte that marks the stream is not passed on.\<close>

theorem tunnel_tcp_end_to_end:
  assumes "hop_chain (entry_tcp_stream payload) hops" "at_exit (entry_tcp_stream payload) hops \<noteq> []"
    "connect_upstream resolve dial af host port = Inr sa"
  shows "\<exists>got. handle_hop_conn dh resolve dial nh (Exit_Mode host port af) (at_exit (entry_tcp_stream payload) hops)
      = Inr (Relay_To_Target sa got) \<and> prefix got payload \<and> allowed resolve host port af sa"
  using exit_tcp_payload [OF assms] connect_upstream_ok [OF assms(3)] by blast

definition one_hop :: "(read_result list \<times> write_result list \<times> u64) list" where
  "one_hop = [([Data [STREAM_TCP, 5], Data [6], Data []], [Written, Written], 0)]"

lemma connect_literal:
  "connect_upstream (\<lambda>_. Inr [V4 (Ipv4 1 1 1 1)]) (\<lambda>_. None) [] ''1.1.1.1'' 80 = Inr (Sock_Addr (V4 (Ipv4 1 1 1 1)) 80)"
proof -
  have "parse_ip ''1.1.1.1'' = Some (V4 (Ipv4 1 1 1 1))"
    by code_simp
  then show ?thesis
    by (simp add: connect_upstream_def filter_af_def guard_resolved_target_def)
qed

lemma tunnel_tcp_end_to_end_witness:
  "\<exists>got. handle_hop_conn (\<lambda>_. True) (\<lambda>_. Inr [V4 (Ipv4 1 1 1 1)]) (\<lambda>_. None) [] (Exit_Mode ''1.1.1.1'' 80 [])
     (at_exit (entry_tcp_stream [5, 6]) one_hop)
     = Inr (Relay_To_Target (Sock_Addr (V4 (Ipv4 1 1 1 1)) 80) got) \<and> prefix got [5, 6]"
proof -
  have "hop_chain (entry_tcp_stream [5, 6]) one_hop" "at_exit (entry_tcp_stream [5, 6]) one_hop \<noteq> []"
    by (simp_all add: hop_chain_def one_hop_def raw_source_def raw_delivered_def entry_tcp_stream_def
        at_exit_def pump_init_def)
  from tunnel_tcp_end_to_end [OF this connect_literal] show ?thesis
    by blast
qed

text \<open>C23. UDP packets through a tunnel: if anything arrives at the exit and the exit connects, it
  sends the target exactly those packets of the entry whose frames have arrived whole, each one
  as it was, in order, and none else: the first \<open>k\<close> packets, where the bytes that arrived hold their
  frames and not the frame of one more. When the whole stream has arrived, these are all packets. What arrives is
  decided by the copy loops of the hops between, which may fail at any byte.\<close>

theorem tunnel_udp_end_to_end:
  assumes "hop_chain (entry_udp_stream packets) hops" "at_exit (entry_udp_stream packets) hops \<noteq> []"
    "connect_upstream resolve dial af host port = Inr sa" "\<forall>p \<in> set packets. length p \<le> 65535"
  shows "\<exists>k \<le> length packets.
      handle_hop_conn dh resolve dial nh (Exit_Mode host port af) (at_exit (entry_udp_stream packets) hops)
        = Inr (Udp_To_Target sa (take k packets))
    \<and> 1 + framed_length (take k packets) \<le> length (at_exit (entry_udp_stream packets) hops)
    \<and> (k < length packets \<longrightarrow>
        length (at_exit (entry_udp_stream packets) hops) < 1 + framed_length (take (Suc k) packets))
    \<and> (at_exit (entry_udp_stream packets) hops = entry_udp_stream packets \<longrightarrow> k = length packets)
    \<and> allowed resolve host port af sa"
proof -
  let ?in = "at_exit (entry_udp_stream packets) hops"
  from exit_udp_packets [OF assms, of dh nh] obtain k where k: "k \<le> length packets"
    "handle_hop_conn dh resolve dial nh (Exit_Mode host port af) ?in = Inr (Udp_To_Target sa (take k packets))"
    "1 + framed_length (take k packets) \<le> length ?in"
    "k < length packets \<longrightarrow> length ?in < 1 + framed_length (take (Suc k) packets)"
    by blast
  have "k = length packets" if "?in = entry_udp_stream packets"
    using k(1,4) entry_udp_stream_length [OF assms(4)] framed_length_take [of "Suc k" packets] that
    by (cases "k < length packets") simp_all
  with k connect_upstream_ok [OF assms(3)] show ?thesis by blast
qed

text \<open>The second packet is cut by a write that fails: one packet comes out. Uncut, both do.\<close>

lemma tunnel_udp_end_to_end_witness:
  "handle_hop_conn (\<lambda>_. True) (\<lambda>_. Inr [V4 (Ipv4 1 1 1 1)]) (\<lambda>_. None) [] (Exit_Mode ''1.1.1.1'' 80 [])
     (at_exit (entry_udp_stream [[7, 8], [9]]) [([Data [2, 0, 2, 7, 8, 0, 1, 9], Data []], [Write_Failed 6], 0)])
     = Inr (Udp_To_Target (Sock_Addr (V4 (Ipv4 1 1 1 1)) 80) [[7, 8]])
   \<and> handle_hop_conn (\<lambda>_. True) (\<lambda>_. Inr [V4 (Ipv4 1 1 1 1)]) (\<lambda>_. None) [] (Exit_Mode ''1.1.1.1'' 80 [])
     (at_exit (entry_udp_stream [[7, 8], [9]]) [])
     = Inr (Udp_To_Target (Sock_Addr (V4 (Ipv4 1 1 1 1)) 80) [[7, 8], [9]])"
proof -
  let ?cut = "[([Data [2, 0, 2, 7, 8, 0, 1, 9], Data []], [Write_Failed 6], 0 :: u64)]"
  have stream: "entry_udp_stream [[7, 8], [9]] = [2, 0, 2, 7, 8, 0, 1, 9]"
    by (simp add: entry_udp_stream_def write_frame_def to_be_bytes_def STREAM_UDP_def)
  have chain: "hop_chain (entry_udp_stream [[7, 8], [9]]) ?cut" "hop_chain (entry_udp_stream [[7, 8], [9]]) []"
    by (simp_all add: stream hop_chain_def raw_source_def)
  have out: "at_exit (entry_udp_stream [[7, 8], [9]]) ?cut = [2, 0, 2, 7, 8, 0]"
    by (simp add: at_exit_def raw_delivered_def pump_init_def)
  have all: "at_exit (entry_udp_stream [[7, 8], [9]]) [] = entry_udp_stream [[7, 8], [9]]"
    by (simp add: at_exit_def)
  have ne: "at_exit (entry_udp_stream [[7, 8], [9]]) ?cut \<noteq> []" "at_exit (entry_udp_stream [[7, 8], [9]]) [] \<noteq> []"
    and small: "\<forall>p \<in> set [[7, 8], [9 :: u8]]. length p \<le> 65535"
    unfolding out all by (simp_all add: stream)
  obtain k where k: "k \<le> length [[7, 8], [9 :: u8]]"
    "handle_hop_conn (\<lambda>_. True) (\<lambda>_. Inr [V4 (Ipv4 1 1 1 1)]) (\<lambda>_. None) [] (Exit_Mode ''1.1.1.1'' 80 [])
       (at_exit (entry_udp_stream [[7, 8], [9]]) ?cut)
     = Inr (Udp_To_Target (Sock_Addr (V4 (Ipv4 1 1 1 1)) 80) (take k [[7, 8], [9]]))"
    "1 + framed_length (take k [[7, 8], [9 :: u8]]) \<le> 6"
    "k < length [[7, 8], [9 :: u8]] \<longrightarrow> 6 < 1 + framed_length (take (Suc k) [[7, 8], [9 :: u8]])"
    using tunnel_udp_end_to_end [OF chain(1) ne(1) connect_literal small, of "\<lambda>_. True" "[]"] unfolding out by auto
  then have "k = 1"
    by (cases k; cases "k - 1") (simp_all add: take_Cons')
  moreover obtain k' where "handle_hop_conn (\<lambda>_. True) (\<lambda>_. Inr [V4 (Ipv4 1 1 1 1)]) (\<lambda>_. None) [] (Exit_Mode ''1.1.1.1'' 80 [])
       (at_exit (entry_udp_stream [[7, 8], [9]]) [])
     = Inr (Udp_To_Target (Sock_Addr (V4 (Ipv4 1 1 1 1)) 80) (take k' [[7, 8], [9]]))" "k' = length [[7, 8], [9 :: u8]]"
    using tunnel_udp_end_to_end [OF chain(2) ne(2) connect_literal small, of "\<lambda>_. True" "[]"] all by blast
  ultimately show ?thesis
    using k(2) by simp
qed

text \<open>The UDP session table of a tunnel entry never grows beyond 4096 sessions, and a session
  whose tunnel connection has died is forgotten with the first packet that notices, so the next
  packet of that client opens a new one.\<close>

theorem tunnel_udp_table:
  assumes "length (eu_sessions st) \<le> 4096"
  shows "length (eu_sessions (foldl entry_udp_step st evs)) \<le> 4096
    \<and> (hm_get (eu_sessions st) a \<noteq> None \<and> eu_bucket st = None \<longrightarrow>
        hm_get (eu_sessions (eu_packet clock now opened Closed a data st)) a = None)"
  using entry_table.run_within [of st evs] assms eu_closed_forgets [of clock data st a now opened]
  by (auto simp: MAX_TUNNEL_SESSIONS_def eu_quota_def)

lemma tunnel_udp_table_witness:
  "hm_get (eu_sessions (eu_packet 0 1 True Closed (Sock_Addr (V4 (Ipv4 2 2 2 2)) 9) [1]
     \<lparr>eu_sessions = [(Sock_Addr (V4 (Ipv4 2 2 2 2)) 9, \<lparr>ts_id = 0, ts_last_seen = 0\<rparr>)], eu_next = 1,
      eu_bucket = None, eu_count = counter_default, eu_framed = []\<rparr>)) (Sock_Addr (V4 (Ipv4 2 2 2 2)) 9) = None"
  using tunnel_udp_table [of "\<lparr>eu_sessions = [(Sock_Addr (V4 (Ipv4 2 2 2 2)) 9, \<lparr>ts_id = 0, ts_last_seen = 0\<rparr>)],
      eu_next = 1, eu_bucket = None, eu_count = counter_default, eu_framed = []\<rparr>" "[]"
      "Sock_Addr (V4 (Ipv4 2 2 2 2)) 9" 0 1 True "[1]"]
  by simp

end
