(* ===== verification/Manager.thy ===== *)
theory Manager
  imports Tcp_Relay Udp_Relay Tunnel_Flow
begin

text \<open>
  \<^verbatim>\<open>node-agent/src/manager.rs\<close>: the rules that run on a node. A rule holds the handles of its
  listeners; the manager applies, removes, restarts and reconciles rules. The invariant says
  that the sockets the process holds are exactly those of the handles.
\<close>

record rule_handles =
  rh_rule :: "rule option"
  rh_tcp :: "tcp_relay option"
  rh_udp :: "udp_handle option"
  rh_tunnel :: "tunnel_task option"

definition no_handles :: rule_handles where
  "no_handles = \<lparr>rh_rule = None, rh_tcp = None, rh_udp = None, rh_tunnel = None\<rparr>"

record manager =
  mg_handles :: "(int \<times> rule_handles) list"
  mg_world :: world

definition stop_all :: "rule_handles \<Rightarrow> world \<Rightarrow> world" where
  "stop_all h w =
     (let w1 = (case rh_tcp h of None \<Rightarrow> w | Some t \<Rightarrow> tcp_stop t w);
          w2 = (case rh_udp h of None \<Rightarrow> w1 | Some u \<Rightarrow> udp_stop u w1)
      in case rh_tunnel h of None \<Rightarrow> w2 | Some t \<Rightarrow> tunnel_stop t w2)"

text \<open>\<^verbatim>\<open>handles.remove(&id)\<close> and \<^verbatim>\<open>stop_all\<close> on what it returned.\<close>

definition drop_handles :: "int \<Rightarrow> manager \<Rightarrow> manager" where
  "drop_handles i m = (case hm_get (mg_handles m) i of
     None \<Rightarrow> m
   | Some h \<Rightarrow> m\<lparr>mg_handles := hm_remove i (mg_handles m), mg_world := stop_all h (mg_world m)\<rparr>)"

definition insert_handles :: "int \<Rightarrow> rule_handles \<Rightarrow> world \<Rightarrow> manager \<Rightarrow> manager" where
  "insert_handles i h w m = m\<lparr>mg_handles := hm_insert i h (mg_handles m), mg_world := w\<rparr>"

text \<open>The listeners of a rule: the bundle, or the error with nothing left running.\<close>

definition start_bundle :: "env \<Rightarrow> rule \<Rightarrow> world \<Rightarrow> (start_error + rule_handles option) \<times> world" where
  "start_bundle ev r w =
     (case new_bucket ev (r_bandwidth_mbps r) w of (bucket, w1) \<Rightarrow>
        (case r_tunnel r of
           Some ctx \<Rightarrow>
             (case make_transport ev ctx of
                Inl e \<Rightarrow> (Inl e, w1)
              | Inr t \<Rightarrow>
                  (case tunnel_start ev r bucket t w1 of
                     (Inl e, w2) \<Rightarrow> (Inl e, w2)
                   | (Inr h, w2) \<Rightarrow> (Inr (Some (no_handles\<lparr>rh_rule := Some r, rh_tunnel := Some h\<rparr>)), w2)))
         | None \<Rightarrow>
             (if r_protocol r = ''tcp'' then
                (case tcp_start ev r bucket w1 of
                   (Inl e, w2) \<Rightarrow> (Inl e, w2)
                 | (Inr t, w2) \<Rightarrow> (Inr (Some (no_handles\<lparr>rh_rule := Some r, rh_tcp := Some t\<rparr>)), w2))
              else if r_protocol r = ''udp'' then
                (case udp_start ev r bucket w1 of
                   (Inl e, w2) \<Rightarrow> (Inl e, w2)
                 | (Inr u, w2) \<Rightarrow> (Inr (Some (no_handles\<lparr>rh_rule := Some r, rh_udp := Some u\<rparr>)), w2))
              else if r_protocol r = ''tcp_udp'' then
                (case tcp_start ev r bucket w1 of
                   (Inl e, w2) \<Rightarrow> (Inl e, w2)
                 | (Inr t, w2) \<Rightarrow>
                     (case udp_start ev r bucket w2 of
                        (Inl e, w3) \<Rightarrow> (Inl e, tcp_stop t w3)
                      | (Inr u, w3) \<Rightarrow>
                          (Inr (Some (no_handles\<lparr>rh_rule := Some r, rh_tcp := Some t, rh_udp := Some u\<rparr>)), w3)))
              else (Inr None, w1))))"

definition apply_rule :: "env \<Rightarrow> rule \<Rightarrow> manager \<Rightarrow> (start_error + unit) \<times> manager" where
  "apply_rule ev r m =
     (let m1 = drop_handles (r_id r) m in
      if \<not> r_enabled r then (Inr (), m1)
      else (case start_bundle ev r (mg_world m1) of
              (Inl e, w) \<Rightarrow> (Inl e, m1\<lparr>mg_world := w\<rparr>)
            | (Inr None, w) \<Rightarrow> (Inr (), m1\<lparr>mg_world := w\<rparr>)
            | (Inr (Some h), w) \<Rightarrow> (Inr (), insert_handles (r_id r) h w m1)))"

definition remove_rule :: "int \<Rightarrow> manager \<Rightarrow> manager" where
  "remove_rule i m =
     (let m1 = drop_handles i m in
      m1\<lparr>mg_world := (mg_world m1)\<lparr>w_stats := remove_counter i (w_stats (mg_world m1))\<rparr>\<rparr>)"

definition reconcile :: "int list \<Rightarrow> manager \<Rightarrow> int list \<times> manager" where
  "reconcile keep_ids m =
     (let orphans = filter (\<lambda>i. i \<notin> set keep_ids) (map fst (mg_handles m));
          m1 = foldl (\<lambda>m i. drop_handles i m) m orphans
      in (orphans,
          m1\<lparr>mg_world := (mg_world m1)\<lparr>w_stats := retain_counters keep_ids (w_stats (mg_world m1))\<rparr>\<rparr>))"

definition restart_rule :: "env \<Rightarrow> int \<Rightarrow> manager \<Rightarrow> (start_error + unit) \<times> manager" where
  "restart_rule ev i m = (case hm_get (mg_handles m) i of
     None \<Rightarrow> (Inr (), m)
   | Some h \<Rightarrow>
       (let m1 = drop_handles i m in
        case rh_rule h of
          None \<Rightarrow> (Inr (), m1)
        | Some r \<Rightarrow> apply_rule ev r m1))"

definition current_rules :: "manager \<Rightarrow> rule list" where
  "current_rules m = concat (map (\<lambda>(_, h). case rh_rule h of None \<Rightarrow> [] | Some r \<Rightarrow> [r]) (mg_handles m))"

section \<open>No socket is leaked\<close>

definition handle_sockets :: "rule_handles \<Rightarrow> socket list" where
  "handle_sockets h =
     (case rh_tcp h of None \<Rightarrow> [] | Some t \<Rightarrow> [(Tcp, tr_addr t)])
     @ (case rh_udp h of None \<Rightarrow> [] | Some u \<Rightarrow> [(Udp, ur_addr (uh_relay u))])
     @ (case rh_tunnel h of None \<Rightarrow> [] | Some t \<Rightarrow> tt_sockets t)"

definition held_sockets :: "manager \<Rightarrow> socket list" where
  "held_sockets m = concat (map (\<lambda>(_, h). handle_sockets h) (mg_handles m))"

text \<open>The invariant of the manager.\<close>

definition manager_inv :: "manager \<Rightarrow> bool" where
  "manager_inv m = (hm_wf (mg_handles m) \<and> stats_wf (w_stats (mg_world m))
     \<and> mset (w_bound (mg_world m)) = mset (held_sockets m)
     \<and> (\<forall>(i, h) \<in> set (mg_handles m). \<exists>r. rh_rule h = Some r \<and> r_id r = i \<and> r_enabled r))"

lemma mset_fold_remove1: "mset (fold remove1 ss xs) = mset xs - mset ss"
  by (induction ss arbitrary: xs) (auto simp: mset_remove1 diff_diff_add_mset)

lemma stop_all_bound: "mset (w_bound (stop_all h w)) = mset (w_bound w) - mset (handle_sockets h)"
  by (auto simp: stop_all_def handle_sockets_def Let_def tcp_stop_def udp_stop_def tunnel_stop_def
      release_socket_def release_all_bound mset_fold_remove1 mset_remove1 split: option.split)

lemma stop_all_stats [frame_simps]: "w_stats (stop_all h w) = w_stats w"
  by (simp add: stop_all_def Let_def tcp_stop_def udp_stop_def tunnel_stop_def frame_simps
      release_all_bound split: option.split)

lemma drop_handles_get:
  "hm_get (mg_handles (drop_handles i m)) j = (if j = i then None else hm_get (mg_handles m) j)"
  by (auto simp: drop_handles_def split: option.split)

lemma drop_handles_keys: "fst ` set (mg_handles (drop_handles i m)) = fst ` set (mg_handles m) - {i}"
  by (auto simp: drop_handles_def map_of_eq_None_iff split: option.split)

lemma drop_handles_stats [frame_simps]: "w_stats (mg_world (drop_handles i m)) = w_stats (mg_world m)"
  by (simp add: drop_handles_def frame_simps split: option.split)

lemma held_sockets_alt: "mset (held_sockets m) = \<Sum>\<^sub># (image_mset (\<lambda>x. mset (handle_sockets (snd x))) (mset (mg_handles m)))"
proof -
  have "mset (concat (map (\<lambda>(_, h). handle_sockets h) hs))
      = \<Sum>\<^sub># (image_mset (\<lambda>x. mset (handle_sockets (snd x))) (mset hs))" for hs :: "(int \<times> rule_handles) list"
    by (induction hs) auto
  then show ?thesis by (simp add: held_sockets_def)
qed

lemma held_sockets_remove:
  assumes "hm_wf hs" "hm_get hs i = Some h"
  shows "mset hs = add_mset (i, h) (mset (hm_remove i hs))"
  using mset_hm_remove [OF assms, of "\<lambda>x. x"] by simp

lemma manager_inv_drop [keeps_inv]:
  assumes "manager_inv m"
  shows "manager_inv (drop_handles i m)"
proof (cases "hm_get (mg_handles m) i")
  case None
  with assms show ?thesis by (simp add: drop_handles_def)
next
  case (Some h)
  have wf: "hm_wf (mg_handles m)" using assms by (simp add: manager_inv_def)
  have "mset (held_sockets m) = mset (handle_sockets h)
      + mset (held_sockets (m\<lparr>mg_handles := hm_remove i (mg_handles m)\<rparr>))"
    using held_sockets_remove [OF wf Some] by (simp add: held_sockets_alt)
  moreover have "mset (held_sockets (m\<lparr>mg_handles := hm_remove i (mg_handles m), mg_world := w\<rparr>))
      = mset (held_sockets (m\<lparr>mg_handles := hm_remove i (mg_handles m)\<rparr>))" for w
    by (simp add: held_sockets_def)
  ultimately show ?thesis
    using assms Some set_hm_remove [of i "mg_handles m"]
    by (auto simp: manager_inv_def drop_handles_def stop_all_bound frame_simps)
qed

lemma start_bundle_bound:
  "mset (w_bound (snd (start_bundle ev r w))) =
     (case fst (start_bundle ev r w) of
        Inr (Some h) \<Rightarrow> mset (handle_sockets h) + mset (w_bound w)
      | _ \<Rightarrow> mset (w_bound w))"
proof -
  obtain b w1 where b: "new_bucket ev (r_bandwidth_mbps r) w = (b, w1)" by fastforce
  have w1: "w_bound w1 = w_bound w"
    using new_bucket_frame(1) [of ev "r_bandwidth_mbps r" w] b by simp
  show ?thesis
  proof (cases "r_tunnel r")
    case (Some ctx)
    with b w1 tunnel_start_bound [of ev r b _ w1] show ?thesis
      by (auto simp: start_bundle_def handle_sockets_def no_handles_def split: sum.split prod.split)
        (metis (no_types, lifting) fst_conv snd_conv mset_append sum.case)+
  next
    case None
    obtain t w2 where t: "tcp_start ev r b w1 = (t, w2)" by fastforce
    obtain u w3 where u: "udp_start ev r b w1 = (u, w3)" by fastforce
    obtain u' w3' where u': "udp_start ev r b w2 = (u', w3')" by fastforce
    have "w_bound w2 = (case t of Inl _ \<Rightarrow> w_bound w1 | Inr h \<Rightarrow> (Tcp, tr_addr h) # w_bound w1)"
      "w_bound w3 = (case u of Inl _ \<Rightarrow> w_bound w1 | Inr h \<Rightarrow> (Udp, ur_addr (uh_relay h)) # w_bound w1)"
      "w_bound w3' = (case u' of Inl _ \<Rightarrow> w_bound w2 | Inr h \<Rightarrow> (Udp, ur_addr (uh_relay h)) # w_bound w2)"
      using tcp_start_bound [of ev r b w1] udp_start_bound [of ev r b w1] udp_start_bound [of ev r b w2]
        t u u' by simp_all
    with None b w1 t u u' show ?thesis
      by (auto simp: start_bundle_def handle_sockets_def no_handles_def tcp_stop_def frame_simps
          split: sum.split)
  qed
qed

lemma start_bundle_stats_wf [keeps_inv]:
  assumes "stats_wf (w_stats w)"
  shows "stats_wf (w_stats (snd (start_bundle ev r w)))"
proof -
  obtain b w1 where b: "new_bucket ev (r_bandwidth_mbps r) w = (b, w1)" by fastforce
  have w1: "stats_wf (w_stats w1)"
    using new_bucket_frame(2) [of ev "r_bandwidth_mbps r" w] b assms by simp
  have "stats_wf (w_stats (snd (tcp_start ev r b w1)))" "stats_wf (w_stats (snd (udp_start ev r b w1)))"
    "\<And>t. stats_wf (w_stats (snd (tunnel_start ev r b t w1)))"
    "stats_wf (w_stats (snd (udp_start ev r b (snd (tcp_start ev r b w1)))))"
    using w1 by (auto intro: tcp_start_stats_wf udp_start_stats_wf tunnel_start_stats_wf)
  with b w1 show ?thesis
    by (auto simp: start_bundle_def tcp_stop_def frame_simps split: option.split sum.split prod.splits)
      (metis snd_conv)+
qed

lemma start_bundle_rule: "fst (start_bundle ev r w) = Inr (Some h) \<Longrightarrow> rh_rule h = Some r"
  by (auto simp: start_bundle_def split: option.splits sum.splits prod.splits if_splits)

lemma held_sockets_insert:
  assumes "hm_get hs i = None"
  shows "mset (hm_insert i h hs) = add_mset (i, h) (mset hs)"
  using assms by (simp add: hm_insert_new)

lemma manager_inv_apply [keeps_inv]:
  assumes "manager_inv m"
  shows "manager_inv (snd (apply_rule ev r m))"
proof -
  let ?m = "drop_handles (r_id r) m"
  have inv: "manager_inv ?m" using assms by (rule manager_inv_drop)
  obtain res w where res: "start_bundle ev r (mg_world ?m) = (res, w)" by fastforce
  have wf: "stats_wf (w_stats w)"
    using start_bundle_stats_wf [of "mg_world ?m" ev r] inv res by (simp add: manager_inv_def)
  have none: "hm_get (mg_handles ?m) (r_id r) = None" by (simp add: drop_handles_get)
  have bound: "mset (w_bound w) = (case res of Inr (Some h) \<Rightarrow> mset (handle_sockets h) + mset (w_bound (mg_world ?m))
      | _ \<Rightarrow> mset (w_bound (mg_world ?m)))"
    using start_bundle_bound [of ev r "mg_world ?m"] res by simp
  show ?thesis
  proof (cases "\<exists>h. r_enabled r \<and> res = Inr (Some h)")
    case True
    then obtain h where h: "res = Inr (Some h)" "r_enabled r" by blast
    have "rh_rule h = Some r"
      using start_bundle_rule [of ev r "mg_world ?m" h] res h by simp
    then have "manager_inv (insert_handles (r_id r) h w ?m)"
      using inv h wf bound none
      by (auto simp: manager_inv_def insert_handles_def held_sockets_alt held_sockets_insert
          hm_insert_new hm_wf_insert [unfolded hm_insert_new] map_of_eq_None_iff)
    with h res show ?thesis
      by (simp add: apply_rule_def Let_def)
  next
    case False
    have "manager_inv (?m\<lparr>mg_world := w\<rparr>)" if "r_enabled r"
      using inv wf bound False that
      by (auto simp: manager_inv_def held_sockets_def split: sum.splits option.splits)
    with inv res False show ?thesis
      by (auto simp: apply_rule_def Let_def split: sum.split option.split)
  qed
qed

lemma manager_inv_stats:
  "manager_inv m \<Longrightarrow> stats_wf s \<Longrightarrow> manager_inv (m\<lparr>mg_world := (mg_world m)\<lparr>w_stats := s\<rparr>\<rparr>)"
  by (simp add: manager_inv_def held_sockets_def)

lemma manager_inv_statsD: "manager_inv m \<Longrightarrow> stats_wf (w_stats (mg_world m))"
  by (simp add: manager_inv_def)

lemma manager_inv_remove [keeps_inv]: "manager_inv m \<Longrightarrow> manager_inv (remove_rule i m)"
  using manager_inv_drop [of m i]
  by (auto simp: remove_rule_def Let_def intro!: manager_inv_stats stats_wf_remove dest: manager_inv_statsD)

lemma manager_inv_drops: "manager_inv m \<Longrightarrow> manager_inv (foldl (\<lambda>m i. drop_handles i m) m is)"
  by (induction "is" arbitrary: m) (auto simp: manager_inv_drop)

lemma manager_inv_reconcile [keeps_inv]: "manager_inv m \<Longrightarrow> manager_inv (snd (reconcile ks m))"
  using manager_inv_drops [of m]
  by (auto simp: reconcile_def Let_def intro!: manager_inv_stats stats_wf_retain dest: manager_inv_statsD)

lemma manager_inv_restart [keeps_inv]: "manager_inv m \<Longrightarrow> manager_inv (snd (restart_rule ev i m))"
  by (auto simp: restart_rule_def Let_def manager_inv_apply manager_inv_drop split: option.split)

section \<open>What is running\<close>

text \<open>The rule a node runs under an identifier.\<close>

definition running :: "manager \<Rightarrow> int \<Rightarrow> rule option" where
  "running m i = Option.bind (hm_get (mg_handles m) i) rh_rule"

lemma running_drop: "running (drop_handles i m) j = (if j = i then None else running m j)"
  by (simp add: running_def drop_handles_get)

lemma running_apply:
  "running (snd (apply_rule ev r m)) j =
     (if j \<noteq> r_id r then running m j
      else (case fst (start_bundle ev r (mg_world (drop_handles (r_id r) m))) of
              Inr (Some _) \<Rightarrow> if r_enabled r then Some r else None
            | _ \<Rightarrow> None))"
proof -
  let ?b = "start_bundle ev r (mg_world (drop_handles (r_id r) m))"
  have "fst ?b = Inr (Some h) \<Longrightarrow> rh_rule h = Some r" for h
    by (rule start_bundle_rule)
  then show ?thesis
    by (cases ?b) (auto simp: apply_rule_def Let_def running_def drop_handles_get insert_handles_def
        split: sum.splits option.splits)
qed

lemma apply_result:
  "fst (apply_rule ev r m) = (if r_enabled r then (case fst (start_bundle ev r (mg_world (drop_handles (r_id r) m))) of
      Inl e \<Rightarrow> Inl e | Inr _ \<Rightarrow> Inr ()) else Inr ())"
  by (cases "start_bundle ev r (mg_world (drop_handles (r_id r) m))")
    (auto simp: apply_rule_def Let_def split: sum.split option.split)

lemma start_bundle_known:
  "fst (start_bundle ev r w) = Inr None \<Longrightarrow> r_tunnel r = None \<and> r_protocol r \<notin> {''tcp'', ''udp'', ''tcp_udp''}"
  by (auto simp: start_bundle_def split: option.splits sum.splits prod.splits if_splits)

definition startable :: "rule \<Rightarrow> bool" where
  "startable r = (r_tunnel r \<noteq> None \<or> r_protocol r \<in> {''tcp'', ''udp'', ''tcp_udp''})"

lemma running_apply_ok:
  assumes "fst (apply_rule ev r m) = Inr ()" "startable r"
  shows "running (snd (apply_rule ev r m)) (r_id r) = (if r_enabled r then Some r else None)"
  using assms start_bundle_known [of ev r]
  by (auto simp: running_apply apply_result startable_def split: sum.splits option.splits if_splits)

lemma running_apply_error:
  assumes "fst (apply_rule ev r m) = Inl e"
  shows "running (snd (apply_rule ev r m)) (r_id r) = None"
  using assms by (auto simp: running_apply apply_result split: sum.splits option.splits if_splits)

lemma running_apply_other: "j \<noteq> r_id r \<Longrightarrow> running (snd (apply_rule ev r m)) j = running m j"
  by (simp add: running_apply)

lemma running_remove: "running (remove_rule i m) j = (if j = i then None else running m j)"
  by (simp add: remove_rule_def Let_def running_def drop_handles_get)

lemma running_drops: "running (foldl (\<lambda>m i. drop_handles i m) m is) j = (if j \<in> set is then None else running m j)"
  by (induction "is" arbitrary: m) (auto simp: running_drop)

lemma running_reconcile: "running (snd (reconcile ks m)) j = (if j \<in> set ks then running m j else None)"
proof -
  have world: "running (m'\<lparr>mg_world := w\<rparr>) j = running m' j" for m' w
    by (simp add: running_def)
  have "j \<notin> fst ` set (mg_handles m) \<Longrightarrow> running m j = None"
    by (simp add: running_def map_of_eq_None_iff [THEN iffD2])
  then show ?thesis
    by (auto simp: reconcile_def Let_def world running_drops)
qed

lemma running_restart_other: "manager_inv m \<Longrightarrow> j \<noteq> i \<Longrightarrow> running (snd (restart_rule ev i m)) j = running m j"
  by (fastforce simp: restart_rule_def Let_def manager_inv_def running_drop running_apply
      dest: map_of_SomeD split: option.splits)

lemma running_id: "manager_inv m \<Longrightarrow> running m i = Some r \<Longrightarrow> r_id r = i \<and> r_enabled r"
  by (fastforce simp: running_def manager_inv_def bind_eq_Some_conv dest: map_of_SomeD)

text \<open>The rules written to disk are the running ones.\<close>

lemma current_rules_running:
  assumes "manager_inv m"
  shows "r \<in> set (current_rules m) \<longleftrightarrow> running m (r_id r) = Some r"
proof
  assume "r \<in> set (current_rules m)"
  then obtain i h where ih: "(i, h) \<in> set (mg_handles m)" "rh_rule h = Some r"
    by (auto simp: current_rules_def split: option.splits)
  with assms have "i = r_id r" "hm_wf (mg_handles m)"
    by (auto simp: manager_inv_def)
  with ih show "running m (r_id r) = Some r"
    by (simp add: running_def)
next
  assume "running m (r_id r) = Some r"
  then obtain h where "hm_get (mg_handles m) (r_id r) = Some h" "rh_rule h = Some r"
    by (auto simp: running_def bind_eq_Some_conv)
  then show "r \<in> set (current_rules m)"
    by (force simp: current_rules_def dest: map_of_SomeD)
qed

lemma current_rules_enabled: "manager_inv m \<Longrightarrow> r \<in> set (current_rules m) \<Longrightarrow> r_enabled r"
  by (fastforce simp: current_rules_def manager_inv_def split: option.splits)

section \<open>Properties\<close>

text \<open>C15. Applying a rule stops the old one first and is all or nothing: on success exactly this
  rule runs under its identifier when it is enabled, and nothing when it is disabled; on failure
  nothing runs under it; in every case all other rules are untouched, and the sockets the process
  holds are exactly those of the rules that run, so a half-started rule leaves no listener.\<close>

theorem apply_all_or_nothing:
  assumes "manager_inv m" "startable r"
  shows "running (snd (apply_rule ev r m)) (r_id r) =
       (if fst (apply_rule ev r m) = Inr () \<and> r_enabled r then Some r else None)
    \<and> (\<forall>j. j \<noteq> r_id r \<longrightarrow> running (snd (apply_rule ev r m)) j = running m j)
    \<and> mset (w_bound (mg_world (snd (apply_rule ev r m)))) = mset (held_sockets (snd (apply_rule ev r m)))"
proof -
  have "manager_inv (snd (apply_rule ev r m))"
    using assms(1) by (rule manager_inv_apply)
  moreover have "running (snd (apply_rule ev r m)) (r_id r) =
      (if fst (apply_rule ev r m) = Inr () \<and> r_enabled r then Some r else None)"
    using running_apply_ok [OF _ assms(2), of ev m] running_apply_error [of ev r m]
    by (cases "fst (apply_rule ev r m)") auto
  ultimately show ?thesis
    by (auto simp: running_apply_other manager_inv_def)
qed

text \<open>A machine on which the UDP port of the rule is taken: the TCP listener starts and is given up.\<close>

definition env_no_udp :: env where
  "env_no_udp = \<lparr>ev_now = 0, ev_bind = (\<lambda>_ l _. l = Tcp), ev_credentials = (\<lambda>_ _. True)\<rparr>"

definition empty_manager :: manager where
  "empty_manager = \<lparr>mg_handles = [], mg_world = world0\<rparr>"

lemma empty_manager_inv: "manager_inv empty_manager"
  by (simp add: manager_inv_def empty_manager_def world0_def stats_wf_new held_sockets_def)

lemma apply_all_or_nothing_witness:
  "running (snd (apply_rule env_no_udp (rule0\<lparr>r_protocol := ''tcp_udp''\<rparr>) empty_manager)) 7 = None
   \<and> mset (w_bound (mg_world (snd (apply_rule env_no_udp (rule0\<lparr>r_protocol := ''tcp_udp''\<rparr>) empty_manager)))) = {#}"
proof -
  let ?r = "rule0\<lparr>r_protocol := ''tcp_udp''\<rparr>"
  have r: "startable ?r" "r_id ?r = 7"
    by (simp_all add: startable_def rule0_def)
  have failed: "fst (apply_rule env_no_udp ?r empty_manager) \<noteq> Inr ()"
    by code_simp
  have none: "held_sockets (snd (apply_rule env_no_udp ?r empty_manager)) = []"
    by code_simp
  from apply_all_or_nothing [OF empty_manager_inv r(1), of env_no_udp] r(2) failed none show ?thesis
    by simp
qed

text \<open>Reconciling with the panel's list keeps exactly the rules on the list: every other rule is
  stopped and its sockets are released, and no rule on the list is disturbed.\<close>

theorem reconcile_removes_orphans:
  assumes "manager_inv m"
  shows "running (snd (reconcile ids m)) i = (if i \<in> set ids then running m i else None)
    \<and> set (fst (reconcile ids m)) = fst ` set (mg_handles m) - set ids
    \<and> mset (w_bound (mg_world (snd (reconcile ids m)))) = mset (held_sockets (snd (reconcile ids m)))"
proof (intro conjI)
  show "set (fst (reconcile ids m)) = fst ` set (mg_handles m) - set ids"
    by (auto simp: reconcile_def Let_def)
qed (use manager_inv_reconcile [OF assms, of ids] in \<open>simp_all add: running_reconcile manager_inv_def\<close>)

lemma reconcile_removes_orphans_witness:
  "running (snd (reconcile [8] (snd (apply_rule env0 rule0 empty_manager)))) 7 = None"
  using reconcile_removes_orphans [OF manager_inv_apply [OF empty_manager_inv], of "[8]" env0 rule0 7]
  by simp

text \<open>A restart that fails takes the rule down, and the restart command that the retry queue
  runs later finds no handle and reports success without starting anything: the retry hides the
  failure and the rule stays down.\<close>

theorem restart_retry_reports_success:
  assumes "fst (restart_rule ev i m) = Inl e" "manager_inv m"
  shows "running (snd (restart_rule ev i m)) i = None
    \<and> restart_rule ev' i (snd (restart_rule ev i m)) = (Inr (), snd (restart_rule ev i m))"
proof -
  obtain h where h: "hm_get (mg_handles m) i = Some h"
    using assms(1) by (auto simp: restart_rule_def split: option.splits)
  then obtain r where r: "rh_rule h = Some r" "r_id r = i"
    using assms(2) by (fastforce simp: manager_inv_def dest: map_of_SomeD)
  let ?m = "drop_handles i m"
  have eq: "restart_rule ev i m = apply_rule ev r ?m"
    using h r by (simp add: restart_rule_def Let_def)
  have inv: "manager_inv (snd (restart_rule ev i m))"
    using assms(2) by (rule manager_inv_restart)
  have none: "running (snd (restart_rule ev i m)) i = None"
    using running_apply_error [of ev r ?m e] assms(1) eq r(2) by simp
  then have "hm_get (mg_handles (snd (restart_rule ev i m))) i = None"
    using inv by (fastforce simp: running_def manager_inv_def dest: map_of_SomeD
        split: option.splits bind_splits)
  with none show ?thesis
    by (simp add: restart_rule_def [of ev'])
qed

definition env_no_bind :: env where
  "env_no_bind = \<lparr>ev_now = 0, ev_bind = (\<lambda>_ _ _. False), ev_credentials = (\<lambda>_ _. True)\<rparr>"

lemma restart_retry_reports_success_witness:
  "\<exists>e. fst (restart_rule env_no_bind 7 (snd (apply_rule env0 rule0 empty_manager))) = Inl e
   \<and> fst (restart_rule env0 7 (snd (restart_rule env_no_bind 7 (snd (apply_rule env0 rule0 empty_manager))))) = Inr ()
   \<and> running (snd (restart_rule env_no_bind 7 (snd (apply_rule env0 rule0 empty_manager)))) 7 = None"
proof -
  let ?m = "snd (apply_rule env0 rule0 empty_manager)"
  have "fst (restart_rule env_no_bind 7 ?m) \<noteq> Inr ()"
    by code_simp
  then obtain e where e: "fst (restart_rule env_no_bind 7 ?m) = Inl e"
    by (cases "fst (restart_rule env_no_bind 7 ?m)") auto
  from restart_retry_reports_success [OF e manager_inv_apply [OF empty_manager_inv], of env0] e show ?thesis
    by simp
qed

end
