(* ===== verification/Store.thy ===== *)
theory Store
  imports Proto Net_Addr
begin

text \<open>
  What an agent keeps on disk: its rules (\<^verbatim>\<open>node-agent/src/store.rs\<close>), the credentials of
  tunnel hops (\<^verbatim>\<open>tunnel/creds.rs\<close>) and its own binary (\<^verbatim>\<open>upgrade.rs\<close>). A file system maps paths
  to contents. The faults of an operation are an argument, so that every early return is a case; an
  upgrade gives the list of the states it passes through, so that a crash at any point is one of them. JSON encoding, hashing and downloading belong to
  libraries and are arguments.
\<close>

section \<open>The JSON mirror of a rule\<close>

record target_json =
  tj_host :: string
  tj_port :: u32

record tunnel_json =
  nj_tunnel_id :: int
  nj_role :: int
  nj_next_hop_addr :: string
  nj_next_hop_inter_port :: u32
  nj_self_inter_port :: u32
  nj_transport :: string
  nj_self_ordinal :: u32

record rule_json =
  j_id :: int
  j_protocol :: string
  j_listen_ip :: string
  j_listen_port :: u32
  j_target_host :: string
  j_target_port :: u32
  j_enabled :: bool
  j_bandwidth_mbps :: int
  j_tunnel :: "tunnel_json option"
  j_max_connections :: int
  j_blocked_protocols :: u32
  j_extra_targets :: "target_json list"
  j_lb_strategy :: string
  j_send_proxy_protocol :: bool
  j_remote_af :: string

definition tunnel_to_json :: "tunnel_context \<Rightarrow> tunnel_json" where
  "tunnel_to_json t =
     \<lparr>nj_tunnel_id = tc_tunnel_id t, nj_role = tc_role t, nj_next_hop_addr = tc_next_hop_addr t,
      nj_next_hop_inter_port = tc_next_hop_inter_port t, nj_self_inter_port = tc_self_inter_port t,
      nj_transport = tc_transport t, nj_self_ordinal = tc_self_ordinal t\<rparr>"

definition tunnel_of_json :: "tunnel_json \<Rightarrow> tunnel_context" where
  "tunnel_of_json t =
     \<lparr>tc_tunnel_id = nj_tunnel_id t, tc_role = nj_role t, tc_next_hop_addr = nj_next_hop_addr t,
      tc_next_hop_inter_port = nj_next_hop_inter_port t, tc_self_inter_port = nj_self_inter_port t,
      tc_transport = nj_transport t, tc_self_ordinal = nj_self_ordinal t\<rparr>"

definition rule_to_json :: "rule \<Rightarrow> rule_json" where
  "rule_to_json r =
     \<lparr>j_id = r_id r, j_protocol = r_protocol r, j_listen_ip = r_listen_ip r,
      j_listen_port = r_listen_port r, j_target_host = r_target_host r, j_target_port = r_target_port r,
      j_enabled = r_enabled r, j_bandwidth_mbps = r_bandwidth_mbps r,
      j_tunnel = map_option tunnel_to_json (r_tunnel r),
      j_max_connections = r_max_connections r, j_blocked_protocols = r_blocked_protocols r,
      j_extra_targets = map (\<lambda>t. \<lparr>tj_host = te_host t, tj_port = te_port t\<rparr>) (r_extra_targets r),
      j_lb_strategy = r_lb_strategy r, j_send_proxy_protocol = r_send_proxy_protocol r,
      j_remote_af = r_remote_af r\<rparr>"

definition rule_of_json :: "rule_json \<Rightarrow> rule" where
  "rule_of_json r =
     \<lparr>r_id = j_id r, r_protocol = j_protocol r, r_listen_ip = j_listen_ip r,
      r_listen_port = j_listen_port r, r_target_host = j_target_host r, r_target_port = j_target_port r,
      r_enabled = j_enabled r, r_bandwidth_mbps = j_bandwidth_mbps r,
      r_tunnel = map_option tunnel_of_json (j_tunnel r),
      r_max_connections = j_max_connections r, r_blocked_protocols = j_blocked_protocols r,
      r_extra_targets = map (\<lambda>t. \<lparr>te_host = tj_host t, te_port = tj_port t\<rparr>) (j_extra_targets r),
      r_lb_strategy = j_lb_strategy r, r_send_proxy_protocol = j_send_proxy_protocol r,
      r_remote_af = j_remote_af r\<rparr>"

lemma tunnel_json_round_trip [simp]: "tunnel_of_json (tunnel_to_json t) = t"
  by (simp add: tunnel_of_json_def tunnel_to_json_def)

lemma rule_json_round_trip [simp]: "rule_of_json (rule_to_json r) = r"
  by (simp add: rule_of_json_def rule_to_json_def map_option.compositionality comp_def map_idI option.map_ident)

section \<open>The state file\<close>

type_synonym file_system = "(string list \<times> string) list"

datatype store_error = Parse_Failed | Read_Failed | Serialize_Failed | Create_Tmp_Failed
  | Write_Tmp_Failed | Rename_Failed

text \<open>Where a save goes wrong, or the machine crashes; \<open>Write_Fault k\<close> after \<open>k\<close> bytes.\<close>

datatype save_fault = No_Fault | Create_Fault | Write_Fault nat | Rename_Fault

definition load ::
    "(string \<Rightarrow> rule_json list option) \<Rightarrow> bool \<Rightarrow> string list \<Rightarrow> file_system \<Rightarrow> store_error + rule list" where
  "load from_slice read_fault path fs =
     (if read_fault then Inl Read_Failed
      else (case hm_get fs path of
              None \<Rightarrow> Inr []
            | Some bytes \<Rightarrow> (case from_slice bytes of
                  None \<Rightarrow> Inl Parse_Failed
                | Some js \<Rightarrow> Inr (map rule_of_json js))))"

text \<open>The temporary file is the path with \<^verbatim>\<open>.tmp\<close> pushed onto its last component.\<close>

definition tmp_path :: "string list \<Rightarrow> string list" where
  "tmp_path p = butlast p @ [last p @ ''.tmp'']"

definition save ::
    "(rule_json list \<Rightarrow> string option) \<Rightarrow> save_fault \<Rightarrow> string list \<Rightarrow> rule list \<Rightarrow> file_system
     \<Rightarrow> (store_error + unit) \<times> file_system" where
  "save to_vec flt path rules fs =
     (case to_vec (map rule_to_json rules) of
        None \<Rightarrow> (Inl Serialize_Failed, fs)
      | Some bytes \<Rightarrow>
          (case flt of
             Create_Fault \<Rightarrow> (Inl Create_Tmp_Failed, fs)
           | Write_Fault k \<Rightarrow> (Inl Write_Tmp_Failed, hm_insert (tmp_path path) (take k bytes) fs)
           | Rename_Fault \<Rightarrow> (Inl Rename_Failed, hm_insert (tmp_path path) bytes fs)
           | No_Fault \<Rightarrow>
               (Inr (), hm_remove (tmp_path path) (hm_insert path bytes (hm_insert (tmp_path path) bytes fs)))))"

lemma tmp_path_neq [simp]: "path \<noteq> [] \<Longrightarrow> tmp_path path \<noteq> path"
proof
  assume "path \<noteq> []" "tmp_path path = path"
  then have "last (tmp_path path) = last path" by simp
  then show False by (simp add: tmp_path_def)
qed

lemma neq_tmp_path [simp]: "path \<noteq> [] \<Longrightarrow> path \<noteq> tmp_path path"
  by (metis tmp_path_neq)

lemma save_get:
  assumes "path \<noteq> []" "q \<noteq> tmp_path path"
  shows "hm_get (snd (save to_vec flt path rules fs)) q =
     (if q = path \<and> fst (save to_vec flt path rules fs) = Inr ()
      then to_vec (map rule_to_json rules) else hm_get fs q)"
  using assms tmp_path_neq [OF assms(1)]
  by (auto simp: save_def split: option.split save_fault.split)

section \<open>Credentials of tunnel hops\<close>

definition hop_dir :: "string list \<Rightarrow> int \<Rightarrow> u32 \<Rightarrow> string list" where
  "hop_dir data_dir tunnel_id ordinal =
     data_dir @ [''tunnels'', show_int tunnel_id,
       ''hop-'' @ dec (unat ordinal)]"

datatype creds_error = Negative_Ordinal | Create_Dir_Failed | Write_File_Failed string | Remove_Failed

text \<open>The five files, in the order of the code.\<close>

definition creds_files :: "tunnel_credentials \<Rightarrow> (string \<times> string) list" where
  "creds_files c = [(''server.pem'', cr_server_cert_pem c), (''server.key'', cr_server_key_pem c),
     (''client.pem'', cr_client_cert_pem c), (''client.key'', cr_client_key_pem c),
     (''ca.pem'', cr_ca_pem c)]"

fun write_files ::
    "(string \<Rightarrow> bool) \<Rightarrow> string list \<Rightarrow> (string \<times> string) list \<Rightarrow> file_system
     \<Rightarrow> (creds_error + unit) \<times> file_system" where
  "write_files fault dir [] fs = (Inr (), fs)"
| "write_files fault dir ((name, content) # rest) fs =
     (if fault name then (Inl (Write_File_Failed name), fs)
      else write_files fault dir rest (hm_insert (dir @ [name]) content fs))"

definition store_creds ::
    "bool \<Rightarrow> (string \<Rightarrow> bool) \<Rightarrow> string list \<Rightarrow> tunnel_credentials \<Rightarrow> file_system
     \<Rightarrow> (creds_error + unit) \<times> file_system" where
  "store_creds dir_fault fault data_dir c fs =
     (case u32_try_from (cr_ordinal c) of
        None \<Rightarrow> (Inl Negative_Ordinal, fs)
      | Some ordinal \<Rightarrow>
          (if dir_fault then (Inl Create_Dir_Failed, fs)
           else write_files fault (hop_dir data_dir (cr_tunnel_id c) ordinal) (creds_files c) fs))"

definition tunnel_dir :: "string list \<Rightarrow> int \<Rightarrow> string list" where
  "tunnel_dir data_dir tunnel_id =
     data_dir @ [''tunnels'', show_int tunnel_id]"

text \<open>\<^verbatim>\<open>remove_dir_all\<close>; a directory that is not there is not an error.\<close>

definition remove_tunnel :: "bool \<Rightarrow> string list \<Rightarrow> int \<Rightarrow> file_system \<Rightarrow> (creds_error + unit) \<times> file_system" where
  "remove_tunnel fault data_dir tunnel_id fs =
     (if fault then (Inl Remove_Failed, fs)
      else (Inr (), hm_retain (\<lambda>p _. \<not> prefix (tunnel_dir data_dir tunnel_id) p) fs))"

lemma hop_dir_prefix: "prefix (tunnel_dir d t) (hop_dir d t k)"
  by (simp add: tunnel_dir_def hop_dir_def)

lemma tunnel_dir_prefix_iff: "prefix (tunnel_dir d t) (hop_dir d t' k @ rest) \<longleftrightarrow> t = t'"
  by (auto simp: tunnel_dir_def hop_dir_def)

lemma hop_dir_inject: "hop_dir d t k @ [n] = hop_dir d t' k' @ [n'] \<longleftrightarrow> t = t' \<and> k = k' \<and> n = n'"
  by (auto simp: hop_dir_def word_unat_eq_iff)

lemma write_files_get:
  assumes "fst (write_files fault dir fl fs) = Inr ()" "distinct (map fst fl)"
  shows "hm_get (snd (write_files fault dir fl fs)) p =
     (case (if p \<noteq> [] \<and> butlast p = dir then map_of fl (last p) else None) of
        Some content \<Rightarrow> Some content | None \<Rightarrow> hm_get fs p)"
  using assms
proof (induction fault dir fl fs rule: write_files.induct)
  case (1 fault dir fs)
  then show ?case by simp
next
  case (2 fault dir name content rest fs)
  have rest: "map_of rest name = None"
    using 2(3) by (simp add: map_of_eq_None_iff)
  have "p = dir @ [name] \<longleftrightarrow> p \<noteq> [] \<and> butlast p = dir \<and> last p = name"
    by (metis append_butlast_last_id butlast_snoc last_snoc snoc_eq_iff_butlast)
  with 2 rest show ?case
    by (auto split: if_splits option.split)
qed

section \<open>Replacing the agent's own binary\<close>

text \<open>
  \<^verbatim>\<open>replace_and_exec\<close> on the three paths of the binary: the binary itself, and beside it the
  files with the extensions \<^verbatim>\<open>new\<close> and \<^verbatim>\<open>bak\<close>. Renaming is atomic; it fails when the system refuses it or there is no such file.
\<close>

datatype slot = Exe | Staged | Backup

type_synonym binary_dir = "slot \<Rightarrow> string option"

definition rename_file :: "bool \<Rightarrow> slot \<Rightarrow> slot \<Rightarrow> binary_dir \<Rightarrow> bool \<times> binary_dir" where
  "rename_file fault src dst d =
     (if fault \<or> d src = None then (False, d) else (True, d(src := None, dst := d src)))"

text \<open>
  Which calls the system refuses. \<open>uf_partial\<close> is what is at the path of the staged file while it is being written,
  and after a write that failed.
\<close>

record upgrade_faults =
  uf_current_exe :: bool
  uf_write :: bool
  uf_partial :: "string option"
  uf_chmod :: bool
  uf_backup :: bool
  uf_promote :: bool
  uf_rollback :: bool

datatype upgrade_error = No_Exe | Stage_Failed | Chmod_Failed | Backup_Failed | Promote_Failed | Exec_Failed
  | Unsupported_Arch string | Empty_Sha | Empty_Base_Url | Download_Failed | Too_Large | Sha_Mismatch

datatype upgrade_outcome = Running string | Skipped

text \<open>Whether the file at a path runs: there is one, and the system loads it. Trying again may go differently.\<close>

definition runs :: "(string \<Rightarrow> bool) \<Rightarrow> string option \<Rightarrow> bool" where
  "runs exec_ok b = (case b of None \<Rightarrow> False | Some c \<Rightarrow> exec_ok c)"

text \<open>
  The outcome and the states of the three paths, the first one to the last one: a process that is killed, or a
  machine that stops, leaves one of them. The error of a rename that rolls back is ignored.
\<close>

definition replace_and_exec ::
    "upgrade_faults \<Rightarrow> (nat \<Rightarrow> string \<Rightarrow> bool) \<Rightarrow> string \<Rightarrow> binary_dir
     \<Rightarrow> (upgrade_error + upgrade_outcome) \<times> binary_dir list" where
  "replace_and_exec f exec_ok bytes d =
     (if uf_current_exe f then (Inl No_Exe, [d])
      else (let d0 = d(Staged := uf_partial f); d1 = d(Staged := Some bytes) in
      if uf_write f then (Inl Stage_Failed, [d, d0])
      else if uf_chmod f then (Inl Chmod_Failed, [d, d0, d1])
      else (case rename_file (uf_backup f) Exe Backup d1 of
          (False, d2) \<Rightarrow> (Inl Backup_Failed, [d, d0, d1, d2])
        | (True, d2) \<Rightarrow>
            (case rename_file (uf_promote f) Staged Exe d2 of
               (False, d3) \<Rightarrow> (Inl Promote_Failed, [d, d0, d1, d2, d3, snd (rename_file (uf_rollback f) Backup Exe d3)])
             | (True, d3) \<Rightarrow>
                 if runs (exec_ok 0) (d3 Exe) then (Inr (Running (the (d3 Exe))), [d, d0, d1, d2, d3])
                 else (let d4 = snd (rename_file (uf_rollback f) Backup Exe d3) in
                       if runs (exec_ok 1) (d4 Exe) then (Inr (Running (the (d4 Exe))), [d, d0, d1, d2, d3, d4])
                       else (Inl Exec_Failed, [d, d0, d1, d2, d3, d4]))))))"

definition pick_artifact :: "string \<Rightarrow> upgrade_agent \<Rightarrow> upgrade_error + (string \<times> string)" where
  "pick_artifact arch cmd =
     (if arch = ''x86_64'' then Inr (''amd64'', ua_sha256_amd64 cmd)
      else if arch = ''aarch64'' then Inr (''arm64'', ua_sha256_arm64 cmd)
      else Inl (Unsupported_Arch arch))"

definition MAX_BINARY_BYTES :: nat where "MAX_BINARY_BYTES = 268435456"

text \<open>The download: chunks until the end, refused above the limit; \<open>None\<close> is a transport error.\<close>

fun collect_chunks :: "nat \<Rightarrow> string option list \<Rightarrow> string \<Rightarrow> upgrade_error + string" where
  "collect_chunks limit [] acc = Inr acc"
| "collect_chunks limit (None # cs) acc = Inl Download_Failed"
| "collect_chunks limit (Some c # cs) acc =
     (if limit < length acc + length c then Inl Too_Large else collect_chunks limit cs (acc @ c))"

definition is_space :: "char \<Rightarrow> bool" where
  "is_space c = (c \<in> {CHR '' '', CHR 0x09, CHR 0x0A, CHR 0x0B, CHR 0x0C, CHR 0x0D})"

text \<open>
  \<^verbatim>\<open>perform\<close> up to the replacement, and whole in \<open>upgrade\<close>: \<open>sha\<close> is the hexadecimal SHA-256, \<open>self\<close> the bytes of the
  running binary when they can be read, \<open>response\<close> the response to the request.
\<close>

definition perform ::
    "(string \<Rightarrow> string) \<Rightarrow> string \<Rightarrow> string \<Rightarrow> string option \<Rightarrow> (int option \<times> string option list) option
     \<Rightarrow> upgrade_agent \<Rightarrow> upgrade_error + string option" where
  "perform sha current arch self response cmd =
     (if ua_version cmd = current then Inr None
      else bindR (pick_artifact arch cmd) (\<lambda>(_, want_sha).
        if want_sha = [] then Inl Empty_Sha
        else if list_all is_space (ua_base_url cmd) then Inl Empty_Base_Url
        else if (case self of None \<Rightarrow> False | Some b \<Rightarrow> eq_ignore_ascii_case (sha b) want_sha) then Inr None
        else (case response of
                None \<Rightarrow> Inl Download_Failed
              | Some (len, chunks) \<Rightarrow>
                  (if (case len of None \<Rightarrow> False | Some n \<Rightarrow> int MAX_BINARY_BYTES < n) then Inl Too_Large
                   else bindR (collect_chunks MAX_BINARY_BYTES chunks []) (\<lambda>bytes.
                     if eq_ignore_ascii_case (sha bytes) want_sha then Inr (Some bytes)
                     else Inl Sha_Mismatch)))))"

definition upgrade ::
    "(string \<Rightarrow> string) \<Rightarrow> string \<Rightarrow> string \<Rightarrow> string option \<Rightarrow> (int option \<times> string option list) option
     \<Rightarrow> upgrade_faults \<Rightarrow> (nat \<Rightarrow> string \<Rightarrow> bool) \<Rightarrow> upgrade_agent \<Rightarrow> binary_dir
     \<Rightarrow> (upgrade_error + upgrade_outcome) \<times> binary_dir list" where
  "upgrade sha current arch self response f exec_ok cmd d =
     (case perform sha current arch self response cmd of
        Inl e \<Rightarrow> (Inl e, [d])
      | Inr None \<Rightarrow> (Inr Skipped, [d])
      | Inr (Some bytes) \<Rightarrow> replace_and_exec f exec_ok bytes d)"

lemma collect_chunks_bound:
  "collect_chunks limit cs acc = Inr b \<Longrightarrow> length acc \<le> limit \<Longrightarrow> length b \<le> limit"
  by (induction limit cs acc rule: collect_chunks.induct) (auto split: if_splits)

lemma collect_chunks_error: "collect_chunks limit cs acc = Inl e \<Longrightarrow> e \<in> {Download_Failed, Too_Large}"
  by (induction limit cs acc rule: collect_chunks.induct) (auto split: if_splits)

lemma perform_error:
  assumes "perform sha current arch self response cmd = Inl e"
  shows "e \<notin> {Promote_Failed, Exec_Failed}"
proof -
  have "pick_artifact arch cmd = Inl x \<Longrightarrow> x \<notin> {Promote_Failed, Exec_Failed}" for x
    by (auto simp: pick_artifact_def split: if_splits)
  with assms show ?thesis
    by (cases "pick_artifact arch cmd")
      (auto simp: perform_def bindR_def [of "collect_chunks _ _ _"] dest: collect_chunks_error
        split: if_splits option.splits prod.splits sum.splits)
qed

lemma perform_bytes:
  assumes "perform sha current arch self response cmd = Inr (Some bytes)"
  shows "\<exists>suffix want. pick_artifact arch cmd = Inr (suffix, want) \<and> want \<noteq> []
     \<and> eq_ignore_ascii_case (sha bytes) want" "length bytes \<le> MAX_BINARY_BYTES"
  using assms collect_chunks_bound [of MAX_BINARY_BYTES _ "[]" bytes]
  by (auto simp: perform_def bindR_eq_Inr split: if_splits option.splits prod.splits)

text \<open>The bytes an upgrade may install.\<close>

definition verified :: "(string \<Rightarrow> string) \<Rightarrow> string \<Rightarrow> upgrade_agent \<Rightarrow> string \<Rightarrow> bool" where
  "verified sha arch cmd bytes =
     (case pick_artifact arch cmd of
        Inl _ \<Rightarrow> False
      | Inr (_, want) \<Rightarrow> want \<noteq> [] \<and> eq_ignore_ascii_case (sha bytes) want \<and> length bytes \<le> 268435456)"

lemma perform_verified: "perform sha current arch self response cmd = Inr (Some bytes) \<Longrightarrow> verified sha arch cmd bytes"
  using perform_bytes [of sha current arch self response cmd bytes] by (auto simp: verified_def MAX_BINARY_BYTES_def)

text \<open>In every state either the old binary is in place, or it is the backup and at the path there is nothing or the new one.\<close>

lemma replace_states:
  assumes "d Exe = Some old" "s \<in> set (snd (replace_and_exec f exec_ok bytes d))"
  shows "s Exe = Some old \<or> (s Backup = Some old \<and> s Exe \<in> {None, Some bytes})"
  using assms
  by (auto simp: replace_and_exec_def rename_file_def Let_def split: if_splits)

lemma replace_result:
  assumes "d Exe = Some old" "replace_and_exec f exec_ok bytes d = (res, states)"
  shows "case res of
      Inr (Running b) \<Rightarrow> last states Exe = Some b \<and> b \<in> {old, bytes}
    | Inr Skipped \<Rightarrow> False
    | Inl e \<Rightarrow> (if uf_rollback f \<and> e = Promote_Failed then last states Exe = None \<and> last states Backup = Some old
        else if uf_rollback f \<and> e = Exec_Failed then last states Exe = Some bytes \<and> last states Backup = Some old
        else last states Exe = Some old)"
  using assms
  by (auto simp: replace_and_exec_def rename_file_def runs_def Let_def split: if_splits)

lemma replace_succeeds:
  assumes "d Exe = Some old" "\<not> uf_current_exe f" "\<not> uf_write f" "\<not> uf_chmod f" "\<not> uf_backup f" "\<not> uf_promote f"
  shows "exec_ok 0 bytes \<Longrightarrow> fst (replace_and_exec f exec_ok bytes d) = Inr (Running bytes)"
    "\<not> exec_ok 0 bytes \<Longrightarrow> \<not> uf_rollback f \<Longrightarrow> exec_ok 1 old \<Longrightarrow> fst (replace_and_exec f exec_ok bytes d) = Inr (Running old)"
  using assms by (simp_all add: replace_and_exec_def rename_file_def runs_def Let_def)

text \<open>
  Between the two renames, and after a promotion and a roll-back that both fail, there is no binary at the path.
\<close>

lemma no_binary_left:
  "\<exists>s \<in> set (snd (replace_and_exec \<lparr>uf_current_exe = False, uf_write = False, uf_partial = None, uf_chmod = False, uf_backup = False,
      uf_promote = False, uf_rollback = False\<rparr> exec_ok bytes [Exe \<mapsto> old])). s Exe = None"
  "last (snd (replace_and_exec \<lparr>uf_current_exe = False, uf_write = False, uf_partial = None, uf_chmod = False, uf_backup = False,
      uf_promote = True, uf_rollback = True\<rparr> exec_ok bytes [Exe \<mapsto> old])) Exe = None"
  by (simp_all add: replace_and_exec_def rename_file_def Let_def)

section \<open>Properties\<close>

text \<open>Saving the rules is atomic: wherever it fails or the machine stops, the state file is
  either untouched or holds the complete new content, which reads back as the saved rules with
  every field intact; no file other than the state file and its temporary sibling changes.\<close>

theorem save_is_atomic:
  assumes "path \<noteq> []" "to_vec (map rule_to_json rules) = Some s"
    "from_slice s = Some (map rule_to_json rules)"
  shows "(if fst (save to_vec flt path rules fs) = Inr ()
          then load from_slice False path (snd (save to_vec flt path rules fs)) = Inr rules
          else hm_get (snd (save to_vec flt path rules fs)) path = hm_get fs path)
    \<and> (\<forall>q. q \<noteq> path \<and> q \<noteq> tmp_path path \<longrightarrow> hm_get (snd (save to_vec flt path rules fs)) q = hm_get fs q)"
proof -
  have "load from_slice False path (snd (save to_vec flt path rules fs)) = Inr rules"
    if "fst (save to_vec flt path rules fs) = Inr ()"
    using save_get [OF assms(1), of path to_vec flt rules fs] assms that
    by (simp add: load_def comp_def)
  then show ?thesis
    using save_get [OF assms(1)] assms(1) by auto
qed

definition rule1 :: rule where
  "rule1 = \<lparr>r_id = 7, r_protocol = ''tcp'', r_listen_ip = ''1.1.1.1'', r_listen_port = 80, r_target_host = ''a'',
    r_target_port = 81, r_enabled = True, r_bandwidth_mbps = 0, r_tunnel = None, r_max_connections = 1,
    r_blocked_protocols = 0, r_extra_targets = [\<lparr>te_host = ''b'', te_port = 82\<rparr>], r_lb_strategy = ''round'',
    r_send_proxy_protocol = False, r_remote_af = []\<rparr>"

lemma save_is_atomic_witness:
  "hm_get (snd (save (\<lambda>_. Some ''new'') (Write_Fault 1) [''s''] [rule1] [([''s''], ''old'')])) [''s''] = Some ''old''
   \<and> load (\<lambda>_. Some [rule_to_json rule1]) False [''s'']
       (snd (save (\<lambda>_. Some ''new'') No_Fault [''s''] [rule1] [([''s''], ''old'')])) = Inr [rule1]"
  using save_is_atomic [of "[''s'']" "\<lambda>_. Some ''new''" "[rule1]" "''new''" "\<lambda>_. Some [rule_to_json rule1]"
      "Write_Fault 1" "[([''s''], ''old'')]"]
    save_is_atomic [of "[''s'']" "\<lambda>_. Some ''new''" "[rule1]" "''new''" "\<lambda>_. Some [rule_to_json rule1]"
      No_Fault "[([''s''], ''old'')]"]
  by (simp add: save_def)

text \<open>Revoking a tunnel removes every credential file of every hop of that tunnel and no file of
  another tunnel; storing the credentials of a hop writes its five files and nothing else.\<close>

theorem credentials_exact:
  "(fst (remove_tunnel flt d t fs) = Inr () \<longrightarrow>
      hm_get (snd (remove_tunnel flt d t fs)) (hop_dir d t' k @ [name]) =
        (if t' = t then None else hm_get fs (hop_dir d t' k @ [name])))
   \<and> (fst (store_creds df ff d c fs) = Inr () \<longrightarrow>
      hm_get (snd (store_creds df ff d c fs)) (hop_dir d t' k @ [name]) =
        (if t' = cr_tunnel_id c \<and> u32_try_from (cr_ordinal c) = Some k \<and> map_of (creds_files c) name \<noteq> None
         then map_of (creds_files c) name else hm_get fs (hop_dir d t' k @ [name])))"
proof (intro conjI impI)
  show "hm_get (snd (remove_tunnel flt d t fs)) (hop_dir d t' k @ [name]) =
      (if t' = t then None else hm_get fs (hop_dir d t' k @ [name]))"
    if "fst (remove_tunnel flt d t fs) = Inr ()"
    using that tunnel_dir_prefix_iff [of d t t' k "[name]"]
    by (auto simp: remove_tunnel_def hm_get_retain_key split: if_splits)
next
  assume ok: "fst (store_creds df ff d c fs) = Inr ()"
  then obtain ord where ord: "u32_try_from (cr_ordinal c) = Some ord"
    and wr: "store_creds df ff d c fs = write_files ff (hop_dir d (cr_tunnel_id c) ord) (creds_files c) fs"
    by (auto simp: store_creds_def split: option.splits if_splits)
  have dist: "distinct (map fst (creds_files c))"
    by (simp add: creds_files_def)
  have dirs: "hop_dir d t' k = hop_dir d (cr_tunnel_id c) ord \<longleftrightarrow> t' = cr_tunnel_id c \<and> k = ord"
    using hop_dir_inject [of d t' k name "cr_tunnel_id c" ord name] by simp
  show "hm_get (snd (store_creds df ff d c fs)) (hop_dir d t' k @ [name]) =
        (if t' = cr_tunnel_id c \<and> u32_try_from (cr_ordinal c) = Some k \<and> map_of (creds_files c) name \<noteq> None
         then map_of (creds_files c) name else hm_get fs (hop_dir d t' k @ [name]))"
    using write_files_get [of ff "hop_dir d (cr_tunnel_id c) ord" "creds_files c" fs "hop_dir d t' k @ [name]"]
      dist ok wr dirs ord
    by (auto split: option.splits)
qed

lemma credentials_exact_witness:
  "hm_get (snd (remove_tunnel False [''d''] 4 [(hop_dir [''d''] 4 1 @ [''ca.pem''], ''x'')]))
     (hop_dir [''d''] 4 1 @ [''ca.pem'']) = None"
  using credentials_exact [of False "[''d'']" 4 "[(hop_dir [''d''] 4 1 @ [''ca.pem''], ''x'')]" 4 1 "''ca.pem''"]
  by (simp add: remove_tunnel_def)

text \<open>C40. An upgrade installs only bytes whose SHA-256 is the non-empty one of the command for this
  architecture, at most 256 MiB of them. In every state it passes through, so also where it is killed, the old
  binary is at its path, or it is the backup and at the path there is the new one or, between the two renames,
  nothing. When it fails, the old binary is at its path, unless the rename that rolls back
  fails too: then the old one is the backup, and at the path there is nothing after a failed promotion and the new
  one after a failed start. When it succeeds, what runs is what is at the path, the old or the new one: the new one when no
  call fails and the system loads it, and the old one again when the new one does not load, rolling back works and the old one
  loads. (There is a binary at the path before.)\<close>

theorem upgrade_verified_and_safe:
  assumes "d Exe = Some old" "upgrade sha current arch self response f exec_ok cmd d = (res, states)"
  shows "(\<forall>s \<in> set states. s Exe = Some old
        \<or> (s Backup = Some old \<and> (s Exe = None \<or> (\<exists>new. s Exe = Some new \<and> verified sha arch cmd new))))
    \<and> (case res of
          Inl e \<Rightarrow> (if uf_rollback f \<and> e = Promote_Failed then last states Exe = None \<and> last states Backup = Some old
            else if uf_rollback f \<and> e = Exec_Failed
              then (\<exists>new. last states Exe = Some new \<and> verified sha arch cmd new) \<and> last states Backup = Some old
            else last states Exe = Some old)
        | Inr Skipped \<Rightarrow> states = [d]
        | Inr (Running b) \<Rightarrow> last states Exe = Some b \<and> (b = old \<or> verified sha arch cmd b))
    \<and> (\<forall>new. perform sha current arch self response cmd = Inr (Some new) \<and> \<not> uf_current_exe f \<and> \<not> uf_write f \<and> \<not> uf_chmod f
          \<and> \<not> uf_backup f \<and> \<not> uf_promote f \<longrightarrow>
         (exec_ok 0 new \<longrightarrow> res = Inr (Running new))
         \<and> (\<not> exec_ok 0 new \<and> \<not> uf_rollback f \<and> exec_ok 1 old \<longrightarrow> res = Inr (Running old)))"
proof (cases "perform sha current arch self response cmd")
  case (Inl e)
  then have "res = Inl e \<and> states = [d]" "e \<notin> {Promote_Failed, Exec_Failed}"
    using assms(2) perform_error [of sha current arch self response cmd] by (auto simp: upgrade_def)
  with Inl assms(1) show ?thesis by simp
next
  case (Inr b)
  show ?thesis
  proof (cases b)
    case None
    with Inr assms show ?thesis by (auto simp: upgrade_def)
  next
    case (Some new)
    with Inr assms(2) have r: "replace_and_exec f exec_ok new d = (res, states)"
      by (simp add: upgrade_def)
    have v: "verified sha arch cmd new"
      using perform_verified Inr Some by blast
    note states = replace_states [where d = d and old = old and f = f and exec_ok = exec_ok and bytes = new, OF assms(1), unfolded r snd_conv]
    note ok = replace_succeeds [where d = d and old = old and f = f and exec_ok = exec_ok and bytes = new, OF assms(1), unfolded r fst_conv]
    from replace_result [where d = d and old = old and f = f and exec_ok = exec_ok and bytes = new, OF assms(1) r] v have "case res of
          Inl e \<Rightarrow> (if uf_rollback f \<and> e = Promote_Failed then last states Exe = None \<and> last states Backup = Some old
            else if uf_rollback f \<and> e = Exec_Failed
              then (\<exists>new. last states Exe = Some new \<and> verified sha arch cmd new) \<and> last states Backup = Some old
            else last states Exe = Some old)
        | Inr Skipped \<Rightarrow> states = [d]
        | Inr (Running b) \<Rightarrow> last states Exe = Some b \<and> (b = old \<or> verified sha arch cmd b)"
      by (auto split: sum.splits upgrade_outcome.splits if_splits)
    moreover have "\<forall>s \<in> set states. s Exe = Some old
        \<or> (s Backup = Some old \<and> (s Exe = None \<or> (\<exists>new. s Exe = Some new \<and> verified sha arch cmd new)))"
      using states v by blast
    ultimately show ?thesis
      using ok Inr Some by auto
  qed
qed

text \<open>The promotion fails and is rolled back.\<close>

lemma upgrade_verified_and_safe_witness:
  "last (snd (upgrade (\<lambda>b. b) ''1'' ''x86_64'' None (Some (None, [Some ''n'']))
     \<lparr>uf_current_exe = False, uf_write = False, uf_partial = None, uf_chmod = False, uf_backup = False, uf_promote = True, uf_rollback = False\<rparr>
     (\<lambda>_ _. True) \<lparr>ua_version = ''2'', ua_base_url = ''u'', ua_sha256_amd64 = ''N'', ua_sha256_arm64 = []\<rparr> [Exe \<mapsto> ''o''])) Exe
   = Some ''o''"
proof -
  let ?f = "\<lparr>uf_current_exe = False, uf_write = False, uf_partial = None, uf_chmod = False, uf_backup = False, uf_promote = True,
     uf_rollback = False\<rparr>"
  let ?cmd = "\<lparr>ua_version = ''2'', ua_base_url = ''u'', ua_sha256_amd64 = ''N'', ua_sha256_arm64 = []\<rparr>"
  have p: "perform (\<lambda>b. b) ''1'' ''x86_64'' None (Some (None, [Some ''n''])) ?cmd = Inr (Some ''n'')"
    by code_simp
  obtain states where u: "upgrade (\<lambda>b. b) ''1'' ''x86_64'' None (Some (None, [Some ''n''])) ?f (\<lambda>_ _. True) ?cmd [Exe \<mapsto> ''o'']
      = (Inl Promote_Failed, states)"
    by (simp add: upgrade_def p replace_and_exec_def rename_file_def Let_def)
  have "[Exe \<mapsto> ''o''] Exe = Some ''o''" by simp
  from upgrade_verified_and_safe [OF this u] show ?thesis
    unfolding u by simp
qed

end
