(* ===== verification/Retry.thy ===== *)
theory Retry
  imports Proto
begin

text \<open>
  \<^verbatim>\<open>node-agent/src/retry.rs\<close>: the queue of failed commands. Instants are milliseconds.
\<close>

definition MAX_ATTEMPTS :: nat where "MAX_ATTEMPTS = 5"

definition RETRY_DELAY :: int where "RETRY_DELAY = 30000"

record pending_command =
  pc_cmd :: command
  pc_attempts :: nat

record entry =
  e_cmd :: command
  e_due :: int
  e_attempts :: nat

type_synonym retry_queue = "entry list"

fun body_rule_id :: "body \<Rightarrow> int option" where
  "body_rule_id (Apply_Rule r) = map_option r_id r"
| "body_rule_id (Remove_Rule i) = Some i"
| "body_rule_id (Restart_Rule i) = Some i"
| "body_rule_id (Enable_Rule i) = Some i"
| "body_rule_id (Disable_Rule i) = Some i"
| "body_rule_id _ = None"

definition rule_id_of :: "command \<Rightarrow> int option" where
  "rule_id_of cmd = Option.bind (c_body cmd) body_rule_id"

definition push_failed :: "command \<Rightarrow> nat \<Rightarrow> int \<Rightarrow> retry_queue \<Rightarrow> bool \<times> retry_queue" where
  "push_failed cmd prev_attempts now items =
     (case rule_id_of cmd of
        None \<Rightarrow> (False, items)
      | Some rid \<Rightarrow>
          (let attempts = prev_attempts + 1;
               items' = filter (\<lambda>e. rule_id_of (e_cmd e) \<noteq> Some rid) items
           in if MAX_ATTEMPTS \<le> attempts then (False, items')
              else (True, items' @ [\<lparr>e_cmd = cmd, e_due = now + RETRY_DELAY, e_attempts = attempts\<rparr>])))"

definition supersede :: "command \<Rightarrow> retry_queue \<Rightarrow> retry_queue" where
  "supersede cmd items =
     (case rule_id_of cmd of
        None \<Rightarrow> items
      | Some rid \<Rightarrow> filter (\<lambda>e. rule_id_of (e_cmd e) \<noteq> Some rid) items)"

definition take_due :: "int \<Rightarrow> retry_queue \<Rightarrow> pending_command list \<times> retry_queue" where
  "take_due now items =
     (map (\<lambda>e. \<lparr>pc_cmd = e_cmd e, pc_attempts = e_attempts e\<rparr>) (filter (\<lambda>e. e_due e \<le> now) items),
      filter (\<lambda>e. \<not> e_due e \<le> now) items)"

section \<open>The queue's invariant\<close>

definition entry_rule :: "entry \<Rightarrow> int option" where
  "entry_rule e = rule_id_of (e_cmd e)"

definition retry_inv :: "retry_queue \<Rightarrow> bool" where
  "retry_inv q = (distinct (map entry_rule q)
     \<and> list_all (\<lambda>e. entry_rule e \<noteq> None \<and> 1 \<le> e_attempts e \<and> e_attempts e < MAX_ATTEMPTS) q)"

datatype retry_op = Push_Failed command nat int | Supersede command | Take_Due int

fun retry_step :: "retry_queue \<Rightarrow> retry_op \<Rightarrow> retry_queue" where
  "retry_step q (Push_Failed c n t) = snd (push_failed c n t q)"
| "retry_step q (Supersede c) = supersede c q"
| "retry_step q (Take_Due t) = snd (take_due t q)"

lemma retry_inv_filter [keeps_inv]: "retry_inv q \<Longrightarrow> retry_inv (filter p q)"
  by (auto simp: retry_inv_def list_all_iff distinct_map_filter)

lemma retry_inv_push [keeps_inv]: "retry_inv q \<Longrightarrow> retry_inv (snd (push_failed c n t q))"
  by (auto simp: push_failed_def retry_inv_def Let_def list_all_iff distinct_map_filter entry_rule_def
      split: option.splits)

lemma retry_inv_step [keeps_inv]: "retry_inv q \<Longrightarrow> retry_inv (retry_step q op)"
  by (cases op) (auto simp: supersede_def take_due_def keeps_inv split: option.splits)

interpretation retry_queue: invariant_machine retry_step retry_inv
  by unfold_locales (rule retry_inv_step)

lemma retry_inv_Nil [simp]: "retry_inv []"
  by (simp add: retry_inv_def)

section \<open>What the operations do\<close>

text \<open>The queue as a map: the pending attempt of each rule.\<close>

definition pending_of :: "retry_queue \<Rightarrow> int \<Rightarrow> entry option" where
  "pending_of q rid = find (\<lambda>e. entry_rule e = Some rid) q"

lemma find_filter_id: "(\<And>x. p x \<Longrightarrow> r x) \<Longrightarrow> find p (filter r xs) = find p xs"
  by (induction xs) auto

lemma find_filter_none: "(\<And>x. p x \<Longrightarrow> \<not> r x) \<Longrightarrow> find p (filter r xs) = None"
  by (induction xs) auto

lemma find_append: "find p (xs @ ys) = (case find p xs of None \<Rightarrow> find p ys | Some x \<Rightarrow> Some x)"
  by (induction xs) auto

lemma pending_of_supersede:
  "rule_id_of c = Some rid \<Longrightarrow>
     pending_of (supersede c q) rid' = (if rid' = rid then None else pending_of q rid')"
  unfolding pending_of_def supersede_def
  by (auto simp: entry_rule_def intro!: find_filter_none find_filter_id)

lemma pending_of_push:
  assumes "rule_id_of c = Some rid"
  shows "pending_of (snd (push_failed c n t q)) rid' =
     (if rid' \<noteq> rid then pending_of q rid'
      else if MAX_ATTEMPTS \<le> n + 1 then None
      else Some \<lparr>e_cmd = c, e_due = t + RETRY_DELAY, e_attempts = n + 1\<rparr>)"
proof -
  let ?q = "filter (\<lambda>e. rule_id_of (e_cmd e) \<noteq> Some rid) q"
  have same: "find (\<lambda>e. entry_rule e = Some rid) ?q = None"
    by (rule find_filter_none) (simp add: entry_rule_def)
  have other: "rid' \<noteq> rid \<Longrightarrow> find (\<lambda>e. entry_rule e = Some rid') ?q = find (\<lambda>e. entry_rule e = Some rid') q"
    by (rule find_filter_id) (simp add: entry_rule_def)
  show ?thesis
    using assms same other
    by (auto simp: pending_of_def push_failed_def Let_def find_append entry_rule_def split: option.splits)
qed

lemma push_failed_result:
  "fst (push_failed c n t q) \<longleftrightarrow> rule_id_of c \<noteq> None \<and> n + 1 < MAX_ATTEMPTS"
  by (auto simp: push_failed_def Let_def split: option.splits)

lemma take_due_partition:
  "length (fst (take_due t q)) + length (snd (take_due t q)) = length q"
  using sum_length_filter_compl [of "\<lambda>e. e_due e \<le> t" q] by (simp add: take_due_def)

lemma take_due_attempts:
  "retry_inv q \<Longrightarrow> p \<in> set (fst (take_due t q)) \<Longrightarrow> 1 \<le> pc_attempts p \<and> pc_attempts p < MAX_ATTEMPTS"
  by (auto simp: take_due_def retry_inv_def list_all_iff)

section \<open>Properties\<close>

text \<open>
  A command that always fails, from its arrival: executed at once, then once per retry tick at
  which it is due. The number of executions.
\<close>

fun executions :: "command \<Rightarrow> int list \<Rightarrow> retry_queue \<Rightarrow> nat" where
  "executions c [] q = 0"
| "executions c (t # ts) q =
     (case take_due t q of (due, q') \<Rightarrow>
        (case find (\<lambda>p. pc_cmd p = c) due of
           None \<Rightarrow> executions c ts q'
         | Some p \<Rightarrow> Suc (executions c ts (snd (push_failed c (pc_attempts p) t q')))))"

definition attempts_left :: "command \<Rightarrow> retry_queue \<Rightarrow> nat" where
  "attempts_left c q = (case find (\<lambda>e. e_cmd e = c) q of None \<Rightarrow> 0 | Some e \<Rightarrow> MAX_ATTEMPTS - e_attempts e)"

lemma find_due:
  assumes "find (\<lambda>p. pc_cmd p = c) (fst (take_due t q)) = Some p" "retry_inv q"
  shows "\<exists>e. find (\<lambda>e. e_cmd e = c) q = Some e \<and> e_attempts e = pc_attempts p"
  using assms
proof (induction q)
  case Nil
  then show ?case by (simp add: take_due_def)
next
  case (Cons x q)
  have inv: "retry_inv q" using Cons.prems(2) by (simp add: retry_inv_def)
  have other: "find (\<lambda>e. e_cmd e = c) q = Some e \<Longrightarrow> e_cmd x \<noteq> c" for e
    using Cons.prems(2) by (auto simp: retry_inv_def entry_rule_def find_Some_iff image_iff in_set_conv_nth)
      (metis nth_mem)
  show ?case
  proof (cases "e_due x \<le> t \<and> e_cmd x = c")
    case True
    with Cons.prems(1) show ?thesis by (auto simp: take_due_def)
  next
    case False
    then have "find (\<lambda>p. pc_cmd p = c) (fst (take_due t q)) = Some p"
      using Cons.prems(1) by (auto simp: take_due_def split: if_splits)
    from Cons.IH [OF this inv] other show ?thesis by auto
  qed
qed

lemma attempts_left_not_due:
  "retry_inv q \<Longrightarrow> attempts_left c (snd (take_due t q)) \<le> attempts_left c q"
proof (induction q)
  case Nil
  then show ?case by (simp add: take_due_def)
next
  case (Cons x q)
  have inv: "retry_inv q" using Cons.prems by (simp add: retry_inv_def)
  have "e_cmd x = c \<Longrightarrow> find (\<lambda>e. e_cmd e = c) (filter p q) = None" for p
    using Cons.prems by (auto simp: retry_inv_def entry_rule_def find_None_iff image_iff)
  with Cons.IH [OF inv] show ?case
    by (auto simp: attempts_left_def take_due_def split: option.splits)
qed

lemma attempts_left_push:
  assumes "rule_id_of c \<noteq> None"
  shows "attempts_left c (snd (push_failed c n t q)) = MAX_ATTEMPTS - (n + 1)"
proof -
  obtain rid where rid: "rule_id_of c = Some rid" using assms by auto
  have "find (\<lambda>e. e_cmd e = c) (filter (\<lambda>e. rule_id_of (e_cmd e) \<noteq> Some rid) q) = None"
    using rid by (auto simp: find_None_iff)
  with rid show ?thesis
    by (auto simp: attempts_left_def push_failed_def Let_def find_append)
qed

lemma executions_le:
  assumes "retry_inv q" "rule_id_of c \<noteq> None"
  shows "executions c ts q \<le> attempts_left c q"
  using assms(1)
proof (induction ts arbitrary: q)
  case Nil
  then show ?case by simp
next
  case (Cons t ts)
  obtain due q' where td: "take_due t q = (due, q')" by fastforce
  have inv': "retry_inv q'"
    using retry_inv_step [OF Cons.prems, of "Take_Due t"] td by simp
  show ?case
  proof (cases "find (\<lambda>p. pc_cmd p = c) due")
    case None
    with td Cons.IH [OF inv'] attempts_left_not_due [OF Cons.prems, of c t] show ?thesis
      by simp
  next
    case (Some p)
    then obtain e where e: "find (\<lambda>e. e_cmd e = c) q = Some e" "e_attempts e = pc_attempts p"
      using find_due [of c t q p] td Cons.prems by auto
    have "p \<in> set due" using Some by (auto simp: find_Some_iff)
    then have lt: "pc_attempts p < MAX_ATTEMPTS"
      using take_due_attempts [OF Cons.prems, of p t] td by simp
    have "executions c ts (snd (push_failed c (pc_attempts p) t q')) \<le> MAX_ATTEMPTS - (pc_attempts p + 1)"
      using Cons.IH [OF retry_inv_push [OF inv']] attempts_left_push [OF assms(2)] by metis
    with Some e lt td show ?thesis
      by (simp add: attempts_left_def)
  qed
qed

text \<open>The queue never holds two entries for one rule, and a rule command that always fails is
  retried at most four times after its first execution, at any times of the retry ticks and
  whatever else is in the queue.\<close>

theorem retries_bounded:
  assumes "rule_id_of c \<noteq> None" "retry_inv q"
  shows "retry_inv (foldl retry_step q ops)
    \<and> executions c ts (snd (push_failed c 0 now q)) \<le> 4"
  using executions_le [OF retry_inv_push [OF assms(2), of c 0 now] assms(1), of ts]
    attempts_left_push [OF assms(1), of 0 now q] retry_queue.run_inv [OF assms(2), of ops]
  by (simp add: MAX_ATTEMPTS_def)

lemma retries_bounded_witness:
  "executions \<lparr>c_body = Some (Restart_Rule 7)\<rparr> [30000, 60000, 90000, 120000, 150000]
     (snd (push_failed \<lparr>c_body = Some (Restart_Rule 7)\<rparr> 0 0 [])) \<le> 4"
  using retries_bounded [of "\<lparr>c_body = Some (Restart_Rule 7)\<rparr>" "[]" "[]" "[30000, 60000, 90000, 120000, 150000]" 0]
  by (simp add: rule_id_of_def)

end
