(* ===== verification/Probe.thy ===== *)
theory Probe
  imports Proto
begin

text \<open>
  \<^verbatim>\<open>node-agent/src/probe.rs\<close>: the probe the panel may ask for. The outcome of the n-th connect
  is an argument: its latency, an error, or the timeout of three seconds. Latencies are
  rational numbers of milliseconds.
\<close>

definition MAX_COUNT :: u32 where "MAX_COUNT = 20"

datatype connect_outcome = Connected rat | Connect_Error string | Connect_Timeout

record probe_result =
  pr_probe_id :: string
  pr_reachable :: bool
  pr_avg_latency_ms :: rat
  pr_loss_pct :: rat
  pr_error :: string

text \<open>The loop: successes, summed latency, and the last error.\<close>

fun probe_loop :: "connect_outcome list \<Rightarrow> nat \<times> rat \<times> string \<Rightarrow> nat \<times> rat \<times> string" where
  "probe_loop [] acc = acc"
| "probe_loop (Connected ms # os) (k, ms_sum, err) = probe_loop os (Suc k, ms_sum + ms, err)"
| "probe_loop (Connect_Error e # os) (k, ms_sum, err) = probe_loop os (k, ms_sum, e)"
| "probe_loop (Connect_Timeout # os) (k, ms_sum, err) = probe_loop os (k, ms_sum, ''connect timeout'')"

definition run_probe :: "(nat \<Rightarrow> connect_outcome) \<Rightarrow> string \<Rightarrow> u32 \<Rightarrow> probe_result" where
  "run_probe connect probe_id count =
     (let n = unat (clamp 1 MAX_COUNT count) in
      case probe_loop (map connect [0..<n]) (0, 0, []) of (successes, total_latency_ms, last_err) \<Rightarrow>
        \<lparr>pr_probe_id = probe_id,
         pr_reachable = 0 < successes,
         pr_avg_latency_ms = (if 0 < successes then total_latency_ms / of_nat successes else 0),
         pr_loss_pct = of_nat (n - successes) / of_nat n * 100,
         pr_error = (if 0 < successes then [] else last_err)\<rparr>)"

definition probe_latencies :: "connect_outcome list \<Rightarrow> rat list" where
  "probe_latencies os = concat (map (\<lambda>c. case c of Connected ms \<Rightarrow> [ms] | _ \<Rightarrow> []) os)"

lemma probe_loop_eq:
  "\<exists>e. probe_loop os (k, ms_sum, err) =
     (k + length (probe_latencies os), ms_sum + sum_list (probe_latencies os), e)"
proof (induction os arbitrary: k ms_sum err)
  case Nil
  then show ?case by (simp add: probe_latencies_def)
next
  case (Cons c os)
  show ?case
  proof (cases c)
    case (Connected ms)
    with Cons.IH [of "Suc k" "ms_sum + ms" err] show ?thesis by (simp add: probe_latencies_def add.assoc)
  next
    case (Connect_Error e)
    with Cons.IH [of k ms_sum e] show ?thesis by (simp add: probe_latencies_def)
  next
    case Connect_Timeout
    with Cons.IH [of k ms_sum "''connect timeout''"] show ?thesis by (simp add: probe_latencies_def)
  qed
qed

lemma length_probe_latencies: "length (probe_latencies os) \<le> length os"
  unfolding probe_latencies_def
  by (induction os) (auto split: connect_outcome.splits)

lemma probe_count_bounds: "1 \<le> unat (clamp 1 MAX_COUNT c) \<and> unat (clamp 1 MAX_COUNT c) \<le> 20"
proof -
  have "1 \<le> clamp 1 MAX_COUNT c \<and> clamp 1 MAX_COUNT c \<le> MAX_COUNT"
    by (rule clamp_bounds) (simp add: MAX_COUNT_def)
  then show ?thesis
    by (simp add: MAX_COUNT_def word_le_nat_alt)
qed

lemma run_probe_eq:
  fixes connect probe_id count
  defines "n \<equiv> unat (clamp 1 MAX_COUNT count)"
  defines "ls \<equiv> probe_latencies (map connect [0..<n])"
  shows "pr_reachable (run_probe connect probe_id count) = (ls \<noteq> [])"
    "pr_avg_latency_ms (run_probe connect probe_id count) =
       (if ls = [] then 0 else sum_list ls / of_nat (length ls))"
    "pr_loss_pct (run_probe connect probe_id count) = of_nat (n - length ls) / of_nat n * 100"
    "pr_error (run_probe connect probe_id count) \<noteq> [] \<longrightarrow> ls = []"
  using probe_loop_eq [of "map connect [0..<n]" 0 0 "[]"]
  by (auto simp: run_probe_def Let_def n_def [symmetric] ls_def [symmetric] split: if_splits)

lemma sum_list_bounds:
  fixes xs :: "rat list"
  assumes "\<forall>x \<in> set xs. lo \<le> x \<and> x \<le> hi"
  shows "of_nat (length xs) * lo \<le> sum_list xs \<and> sum_list xs \<le> of_nat (length xs) * hi"
  using assms by (induction xs) (auto simp: algebra_simps)

section \<open>Properties\<close>

text \<open>A probe makes between 1 and 20 attempts whatever the panel asks for, its loss lies between
  0 and 100 percent, and it says reachable exactly when some attempt connected, that is when the
  loss is below 100.\<close>

theorem probe_result_bounds:
  "0 \<le> pr_loss_pct (run_probe connect pid count) \<and> pr_loss_pct (run_probe connect pid count) \<le> 100
   \<and> (pr_reachable (run_probe connect pid count) \<longleftrightarrow> (\<exists>k < unat (clamp 1 MAX_COUNT count). \<exists>ms. connect k = Connected ms))
   \<and> (pr_reachable (run_probe connect pid count) \<longleftrightarrow> pr_loss_pct (run_probe connect pid count) < 100)"
proof -
  define n where "n = unat (clamp 1 MAX_COUNT count)"
  define ls where "ls = probe_latencies (map connect [0..<n])"
  have n: "1 \<le> n" using probe_count_bounds by (simp add: n_def)
  have len: "length ls \<le> n"
    using length_probe_latencies [of "map connect [0..<n]"] by (simp add: ls_def)
  have ls: "ls \<noteq> [] \<longleftrightarrow> (\<exists>k < n. \<exists>ms. connect k = Connected ms)"
  proof -
    have "(case c of Connected ms \<Rightarrow> [ms] | _ \<Rightarrow> []) \<noteq> [] \<longleftrightarrow> (\<exists>ms. c = Connected ms)" for c
      by (cases c) auto
    then show ?thesis
      by (auto simp: ls_def probe_latencies_def)
  qed
  have loss: "pr_loss_pct (run_probe connect pid count) = of_nat (n - length ls) / of_nat n * 100"
    and reach: "pr_reachable (run_probe connect pid count) = (ls \<noteq> [])"
    using run_probe_eq(1,3) [of connect pid count] by (simp_all add: n_def ls_def)
  define x where "x = (of_nat (n - length ls) :: rat) / of_nat n"
  have x: "0 \<le> x" "x \<le> 1"
    using n by (simp_all add: x_def divide_le_eq del: of_nat_diff)
  have "ls \<noteq> [] \<longleftrightarrow> n - length ls < n"
    using n len by (cases ls) auto
  also have "\<dots> \<longleftrightarrow> x < 1"
    using n by (simp add: x_def divide_less_eq del: of_nat_diff)
  finally have "ls \<noteq> [] \<longleftrightarrow> x < 1" .
  moreover have "pr_loss_pct (run_probe connect pid count) = x * 100"
    using loss by (simp add: x_def)
  ultimately show ?thesis
    using x reach ls by (simp add: n_def)
qed

end
