(* ===== verification/Sampler.thy ===== *)
theory Sampler
  imports Prelude
begin

text \<open>
  \<^verbatim>\<open>node-agent/src/system.rs\<close>: the network totals of the node and the increments reported. The
  interfaces and their counters come from \<^verbatim>\<open>sysinfo\<close> and are an argument; CPU, memory and
  load are read through it too and only passed on, so the model keeps the traffic part of the
  state. Totals are 64-bit words, an increment is cast to \<^verbatim>\<open>i64\<close>.
\<close>

type_synonym networks = "(string \<times> u64 \<times> u64) list"

record sampler =
  sm_last_rx :: u64
  sm_last_tx :: u64
  sm_primed :: bool

definition is_loopback :: "string \<Rightarrow> bool" where
  "is_loopback name = (name = ''lo'' \<or> starts_with name ''lo0''
     \<or> eq_ignore_ascii_case name ''loopback'' \<or> starts_with name ''Loopback'')"

fun total_traffic :: "networks \<Rightarrow> u64 \<times> u64" where
  "total_traffic [] = (0, 0)"
| "total_traffic ((name, rx, tx) # ns) =
     (case total_traffic ns of (r, t) \<Rightarrow> if is_loopback name then (r, t) else (rx + r, tx + t))"

definition sampler_new :: "networks \<Rightarrow> sampler" where
  "sampler_new ns = (case total_traffic ns of (rx, tx) \<Rightarrow>
     \<lparr>sm_last_rx = rx, sm_last_tx = tx, sm_primed = False\<rparr>)"

definition drain :: "networks \<Rightarrow> sampler \<Rightarrow> (int \<times> int) \<times> sampler" where
  "drain ns g = (case total_traffic ns of (rx_now, tx_now) \<Rightarrow>
     ((if sm_primed g
       then (sint (saturating_sub rx_now (sm_last_rx g)), sint (saturating_sub tx_now (sm_last_tx g)))
       else (0, 0)),
      \<lparr>sm_last_rx = rx_now, sm_last_tx = tx_now, sm_primed = True\<rparr>))"

definition restore_traffic :: "int \<Rightarrow> int \<Rightarrow> sampler \<Rightarrow> sampler" where
  "restore_traffic rx_delta tx_delta g =
     g\<lparr>sm_last_rx := saturating_sub (sm_last_rx g) (word_of_int (max rx_delta 0)),
       sm_last_tx := saturating_sub (sm_last_tx g) (word_of_int (max tx_delta 0))\<rparr>"

text \<open>One reporting round of \<^verbatim>\<open>report_node_stats\<close>: what the panel got, and the state.\<close>

definition traffic_round :: "networks \<Rightarrow> bool \<Rightarrow> sampler \<Rightarrow> (int \<times> int) \<times> sampler" where
  "traffic_round ns acked g = (case drain ns g of ((rx, tx), g') \<Rightarrow>
     if acked then ((rx, tx), g') else ((0, 0), restore_traffic rx tx g'))"

section \<open>Lemmas\<close>

lemma total_traffic_loopback:
  "list_all (\<lambda>(n, _, _). is_loopback n) ns \<Longrightarrow> total_traffic ns = (0, 0)"
  by (induction ns) auto

lemma sint_word_small: "uint (x :: u64) < 2 ^ 63 \<Longrightarrow> sint x = uint x"
  unfolding sint_uint signed_take_bit_int_eq_self_iff
  by (simp add: order_trans [OF _ unsigned_greater_eq])

lemma sint_saturating_sub:
  assumes "unat b < 2 ^ 63"
  shows "sint (saturating_sub b a) = int (unat b - unat a)"
proof -
  have u: "uint (saturating_sub b a) = int (unat b - unat a)"
  proof (cases "b < a")
    case True
    then show ?thesis by (simp add: saturating_sub_def word_less_nat_alt)
  next
    case False
    then have "unat (b - a) = unat b - unat a"
      by (simp add: unat_sub word_le_nat_alt word_less_nat_alt)
    then have "uint (b - a) = int (unat b - unat a)"
      by (simp add: uint_nat)
    with False show ?thesis
      by (simp add: saturating_sub_def)
  qed
  then have "uint (saturating_sub b a) < 2 ^ 63"
    using assms by simp
  then show ?thesis
    using sint_word_small u by simp
qed

lemma saturating_sub_restore:
  assumes "unat b < 2 ^ 63" "a \<le> b"
  shows "saturating_sub b (word_of_int (max (sint (saturating_sub b a)) 0)) = a"
proof -
  have "sint (saturating_sub b a) = uint (b - a)"
    using sint_saturating_sub [OF assms(1), of a] assms(2)
    by (simp add: unat_sub uint_nat)
  then have "word_of_int (max (sint (saturating_sub b a)) 0) = b - a"
    by simp
  with assms(2) show ?thesis
    by (simp add: saturating_sub_def word_sub_le not_less [THEN iffD2])
qed

text \<open>The signed increments of a primed sampler, while the totals grow and stay below \<open>2 ^ 63\<close>.\<close>

definition grown :: "networks \<Rightarrow> sampler \<Rightarrow> bool" where
  "grown ns g = (sm_last_rx g \<le> fst (total_traffic ns) \<and> sm_last_tx g \<le> snd (total_traffic ns)
     \<and> unat (fst (total_traffic ns)) < 2 ^ 63 \<and> unat (snd (total_traffic ns)) < 2 ^ 63)"

lemma drain_primed:
  "sm_primed g \<Longrightarrow> grown ns g \<Longrightarrow>
   fst (drain ns g) = (int (unat (fst (total_traffic ns))) - int (unat (sm_last_rx g)),
                       int (unat (snd (total_traffic ns))) - int (unat (sm_last_tx g)))"
  by (simp add: drain_def grown_def case_prod_beta sint_saturating_sub word_le_nat_alt of_nat_diff)

lemma drain_restore_id:
  assumes "sm_primed g" "grown ns g"
  shows "restore_traffic (fst (fst (drain ns g))) (snd (fst (drain ns g))) (snd (drain ns g)) = g"
  using assms
  by (simp add: drain_def restore_traffic_def grown_def case_prod_beta saturating_sub_restore)

fun rounds :: "(networks \<times> bool) list \<Rightarrow> sampler \<Rightarrow> int \<times> sampler" where
  "rounds [] g = (0, g)"
| "rounds ((ns, acked) # rs) g = (case traffic_round ns acked g of ((rx, _), g') \<Rightarrow>
     (case rounds rs g' of (got, g'') \<Rightarrow> (rx + got, g'')))"

text \<open>The totals never go back and fit a signed 64-bit number.\<close>

fun totals_grow :: "u64 \<Rightarrow> u64 \<Rightarrow> (networks \<times> bool) list \<Rightarrow> bool" where
  "totals_grow r t [] = True"
| "totals_grow r t ((ns, _) # rs) =
     (r \<le> fst (total_traffic ns) \<and> t \<le> snd (total_traffic ns)
      \<and> unat (fst (total_traffic ns)) < 2 ^ 63 \<and> unat (snd (total_traffic ns)) < 2 ^ 63
      \<and> totals_grow (fst (total_traffic ns)) (snd (total_traffic ns)) rs)"

lemma totals_grow_weaken:
  "totals_grow r t rs \<Longrightarrow> r' \<le> r \<Longrightarrow> t' \<le> t \<Longrightarrow> totals_grow r' t' rs"
  by (cases rs) auto

lemma traffic_round_primed: "sm_primed g \<Longrightarrow> sm_primed (snd (traffic_round ns acked g))"
  by (simp add: traffic_round_def drain_def restore_traffic_def case_prod_beta)

lemma rounds_telescope:
  assumes "sm_primed g" "totals_grow (sm_last_rx g) (sm_last_tx g) rs"
  shows "fst (rounds rs g) = int (unat (sm_last_rx (snd (rounds rs g)))) - int (unat (sm_last_rx g))"
  using assms
proof (induction rs arbitrary: g)
  case Nil
  then show ?case by simp
next
  case (Cons x rs)
  obtain ns acked where x: "x = (ns, acked)" by (cases x)
  let ?g = "snd (traffic_round ns acked g)"
  have grown: "grown ns g" and rest: "totals_grow (fst (total_traffic ns)) (snd (total_traffic ns)) rs"
    using Cons.prems x by (auto simp: grown_def)
  have primed: "sm_primed ?g"
    using Cons.prems(1) by (rule traffic_round_primed)
  have step: "fst (fst (traffic_round ns acked g)) = int (unat (sm_last_rx ?g)) - int (unat (sm_last_rx g))
      \<and> sm_last_rx ?g \<le> fst (total_traffic ns) \<and> sm_last_tx ?g \<le> snd (total_traffic ns)"
  proof (cases acked)
    case True
    with drain_primed [OF Cons.prems(1) grown] show ?thesis
      by (simp add: traffic_round_def case_prod_beta) (simp add: drain_def case_prod_beta)
  next
    case False
    then have "?g = g"
      using drain_restore_id [OF Cons.prems(1) grown] by (simp add: traffic_round_def case_prod_beta)
    with False grown show ?thesis
      by (simp add: traffic_round_def case_prod_beta grown_def)
  qed
  have "totals_grow (sm_last_rx ?g) (sm_last_tx ?g) rs"
    using totals_grow_weaken [OF rest] step by simp
  with Cons.IH [OF primed] step x show ?case
    by (simp add: case_prod_beta)
qed

section \<open>Properties\<close>

text \<open>Over any number of reporting rounds, failed ones included, the received bytes that the
  panel acknowledged are the growth of the node's total up to the last acknowledged one: a failed
  report is made up for by a later one.\<close>

theorem acknowledged_traffic:
  assumes "sm_primed g" "totals_grow (sm_last_rx g) (sm_last_tx g) rs"
  shows "fst (rounds rs g) = int (unat (sm_last_rx (snd (rounds rs g)))) - int (unat (sm_last_rx g))"
  using rounds_telescope [OF assms] .

lemma acknowledged_traffic_witness:
  "fst (rounds [([(''eth0'', 100, 50)], False), ([(''lo'', 9, 9), (''eth0'', 180, 70)], True)]
     \<lparr>sm_last_rx = 40, sm_last_tx = 10, sm_primed = True\<rparr>)
   = int (unat (sm_last_rx (snd (rounds [([(''eth0'', 100, 50)], False), ([(''lo'', 9, 9), (''eth0'', 180, 70)], True)]
     \<lparr>sm_last_rx = 40, sm_last_tx = 10, sm_primed = True\<rparr>)))) - int (unat (40 :: u64))"
proof -
  have "totals_grow 40 10 [([(''eth0'', 100, 50)], False), ([(''lo'', 9, 9), (''eth0'', 180, 70)], True)]"
    by (simp add: is_loopback_def starts_with_def eq_ignore_ascii_case_def lower_def)
  then show ?thesis
    using acknowledged_traffic [of "\<lparr>sm_last_rx = 40, sm_last_tx = 10, sm_primed = True\<rparr>"
        "[([(''eth0'', 100, 50)], False), ([(''lo'', 9, 9), (''eth0'', 180, 70)], True)]"]
    by simp
qed

end
