(* ===== verification/Agent.thy ===== *)
theory Agent
  imports Manager Store Retry Probe Sampler
begin

text \<open>
  \<^verbatim>\<open>node-agent/src/agent.rs\<close>: the agent as a whole. Loading the rules at startup, executing a
  command of the panel, the session loop with its retry queue, and the reporting of
  counters. The environment of the operating system and the libraries is the record \<open>host\<close>.
\<close>

record host =
  ho_env :: env
  ho_to_vec :: "rule_json list \<Rightarrow> string option"
  ho_from_slice :: "string \<Rightarrow> rule_json list option"
  ho_state_path :: "string list"
  ho_data_dir :: "string list"
  ho_read_fault :: bool
  ho_save_fault :: save_fault
  ho_dir_fault :: bool
  ho_file_fault :: "string \<Rightarrow> bool"
  ho_remove_fault :: bool

record agent =
  ag_manager :: manager
  ag_files :: file_system
  ag_retry :: retry_queue
  ag_probes :: nat
  ag_upgrading :: bool

datatype command_error = Start_Failed start_error | Unreachable

section \<open>Executing a command\<close>

text \<open>The snapshot taken under the lock is written after it; a failed write is only logged.\<close>

definition persist :: "host \<Rightarrow> agent \<Rightarrow> agent" where
  "persist h ag = ag\<lparr>ag_files := snd (save (ho_to_vec h) (ho_save_fault h) (ho_state_path h)
     (current_rules (ag_manager ag)) (ag_files ag))\<rparr>"

definition rule_op :: "host \<Rightarrow> (start_error + unit) \<times> manager \<Rightarrow> agent \<Rightarrow> (command_error + unit) \<times> agent" where
  "rule_op h res ag = (case res of
     (Inl e, m) \<Rightarrow> (Inl (Start_Failed e), ag\<lparr>ag_manager := m\<rparr>)
   | (Inr _, m) \<Rightarrow> (Inr (), persist h (ag\<lparr>ag_manager := m\<rparr>)))"

definition handle_command :: "host \<Rightarrow> command \<Rightarrow> agent \<Rightarrow> (command_error + unit) \<times> agent" where
  "handle_command h cmd ag =
     (case c_body cmd of
        None \<Rightarrow> (Inr (), ag)
      | Some b \<Rightarrow>
          (case b of
             Upgrade_Agent u \<Rightarrow>
               if ag_upgrading ag then (Inr (), ag) else (Inr (), ag\<lparr>ag_upgrading := True\<rparr>)
           | Tunnel_Credentials c \<Rightarrow>
               (Inr (), ag\<lparr>ag_files := snd (store_creds (ho_dir_fault h) (ho_file_fault h) (ho_data_dir h) c (ag_files ag))\<rparr>)
           | Revoke_Tunnel_Credentials t \<Rightarrow>
               (Inr (), ag\<lparr>ag_files := snd (remove_tunnel (ho_remove_fault h) (ho_data_dir h) t (ag_files ag))\<rparr>)
           | Probe _ \<Rightarrow> (Inl Unreachable, ag)
           | Apply_Rule None \<Rightarrow> rule_op h (Inr (), ag_manager ag) ag
           | Apply_Rule (Some r) \<Rightarrow> rule_op h (apply_rule (ho_env h) r (ag_manager ag)) ag
           | Remove_Rule i \<Rightarrow> rule_op h (Inr (), remove_rule i (ag_manager ag)) ag
           | Enable_Rule _ \<Rightarrow> rule_op h (Inr (), ag_manager ag) ag
           | Disable_Rule _ \<Rightarrow> rule_op h (Inr (), ag_manager ag) ag
           | Restart_Rule i \<Rightarrow> rule_op h (restart_rule (ho_env h) i (ag_manager ag)) ag
           | Reconcile_Rules ids \<Rightarrow> rule_op h (Inr (), snd (reconcile ids (ag_manager ag))) ag))"

section \<open>The session\<close>

definition MAX_PROBE_INFLIGHT :: nat where "MAX_PROBE_INFLIGHT = 16"

definition is_probe :: "command \<Rightarrow> bool" where
  "is_probe cmd = (case c_body cmd of Some (Probe _) \<Rightarrow> True | _ \<Rightarrow> False)"

text \<open>A command arrives on the stream. The flag is false when a probe is dropped at the cap.\<close>

definition on_command :: "host \<Rightarrow> int \<Rightarrow> command \<Rightarrow> agent \<Rightarrow> agent" where
  "on_command h now cmd ag =
     (if is_probe cmd then
        (if MAX_PROBE_INFLIGHT \<le> ag_probes ag then ag else ag\<lparr>ag_probes := Suc (ag_probes ag)\<rparr>)
      else (let ag1 = ag\<lparr>ag_retry := supersede cmd (ag_retry ag)\<rparr> in
            case handle_command h cmd ag1 of
              (Inr _, ag2) \<Rightarrow> ag2
            | (Inl _, ag2) \<Rightarrow> ag2\<lparr>ag_retry := snd (push_failed cmd 0 now (ag_retry ag2))\<rparr>))"

fun retry_each :: "host \<Rightarrow> int \<Rightarrow> pending_command list \<Rightarrow> agent \<Rightarrow> agent" where
  "retry_each h now [] ag = ag"
| "retry_each h now (p # ps) ag =
     (case handle_command h (pc_cmd p) ag of
        (Inr _, ag1) \<Rightarrow> retry_each h now ps ag1
      | (Inl _, ag1) \<Rightarrow> retry_each h now ps
          (ag1\<lparr>ag_retry := snd (push_failed (pc_cmd p) (pc_attempts p) now (ag_retry ag1))\<rparr>))"

definition on_retry_tick :: "host \<Rightarrow> int \<Rightarrow> agent \<Rightarrow> agent" where
  "on_retry_tick h now ag =
     (case take_due now (ag_retry ag) of (due, q) \<Rightarrow> retry_each h now due (ag\<lparr>ag_retry := q\<rparr>))"

datatype session_event =
    Command_Received int command
  | Retry_Tick int
  | Probe_Finished
  | Upgrade_Finished

fun session_step :: "host \<Rightarrow> agent \<Rightarrow> session_event \<Rightarrow> agent" where
  "session_step h ag (Command_Received now cmd) = on_command h now cmd ag"
| "session_step h ag (Retry_Tick now) = on_retry_tick h now ag"
| "session_step h ag Probe_Finished = ag\<lparr>ag_probes := ag_probes ag - 1\<rparr>"
| "session_step h ag Upgrade_Finished = ag\<lparr>ag_upgrading := False\<rparr>"

text \<open>A new session begins with an empty queue; the rules keep running.\<close>

definition session_begin :: "agent \<Rightarrow> agent" where
  "session_begin ag = ag\<lparr>ag_retry := []\<rparr>"

section \<open>Startup\<close>

definition manager_new :: manager where
  "manager_new = \<lparr>mg_handles = [], mg_world = \<lparr>w_stats = stats_new, w_buckets = [], w_bound = []\<rparr>\<rparr>"

fun apply_all :: "env \<Rightarrow> rule list \<Rightarrow> manager \<Rightarrow> manager" where
  "apply_all ev [] m = m"
| "apply_all ev (r # rs) m = apply_all ev rs (snd (apply_rule ev r m))"

definition agent_start :: "host \<Rightarrow> file_system \<Rightarrow> agent" where
  "agent_start h fs =
     \<lparr>ag_manager = apply_all (ho_env h)
        (case load (ho_from_slice h) (ho_read_fault h) (ho_state_path h) fs of Inl _ \<Rightarrow> [] | Inr rs \<Rightarrow> rs)
        manager_new,
      ag_files = fs, ag_retry = [], ag_probes = 0, ag_upgrading = False\<rparr>"

section \<open>Reporting\<close>

text \<open>The start of the minute, for a time after the epoch.\<close>

definition minute_of :: "int \<Rightarrow> int" where
  "minute_of now = now div 60 * 60"

definition bucket_of :: "int \<Rightarrow> counter_snapshot \<Rightarrow> rule_stats_bucket" where
  "bucket_of minute s = \<lparr>sb_rule_id = s_rule_id s, sb_bucket_at = minute, sb_rx = sint (s_rx_bytes s),
     sb_tx = sint (s_tx_bytes s), sb_conn = sint (s_connection_count s), sb_err = sint (s_error_count s)\<rparr>"

text \<open>
  \<^verbatim>\<open>report_stats\<close>: \<open>clock\<close> is \<open>None\<close> when the system time is before the epoch; \<open>send\<close> is the
  outcome of the call. The first component is the batch that was acknowledged.
\<close>

definition report_stats ::
    "int option \<Rightarrow> (rule_stats_bucket list \<Rightarrow> bool) \<Rightarrow> stats \<Rightarrow> rule_stats_bucket list option \<times> stats" where
  "report_stats clock send s =
     (case clock of
        None \<Rightarrow> (None, s)
      | Some now \<Rightarrow>
          (case drain_snapshot s of (snapshot, s') \<Rightarrow>
             if snapshot = [] then (None, s')
             else (let batch = map (bucket_of (minute_of now)) snapshot in
                   if send batch then (Some batch, s') else (None, restore snapshot s'))))"

definition stats_interval :: "int option \<Rightarrow> int" where
  "stats_interval env_secs = max 1 (case env_secs of None \<Rightarrow> 60 | Some s \<Rightarrow> s)"

section \<open>The invariant of the agent\<close>

definition agent_inv :: "agent \<Rightarrow> bool" where
  "agent_inv ag = (manager_inv (ag_manager ag) \<and> retry_inv (ag_retry ag) \<and> ag_probes ag \<le> MAX_PROBE_INFLIGHT)"

lemma persist_frame [frame_simps, simp]:
  "ag_manager (persist h ag) = ag_manager ag" "ag_retry (persist h ag) = ag_retry ag"
  "ag_probes (persist h ag) = ag_probes ag"
  by (simp_all add: persist_def)

lemma rule_op_frame [simp]:
  "ag_manager (snd (rule_op h res ag)) = snd res" "ag_retry (snd (rule_op h res ag)) = ag_retry ag"
  "ag_probes (snd (rule_op h res ag)) = ag_probes ag"
  by (auto simp: rule_op_def split: prod.split sum.split)

lemma handle_command_frame [simp]:
  "ag_retry (snd (handle_command h cmd ag)) = ag_retry ag"
  "ag_probes (snd (handle_command h cmd ag)) = ag_probes ag"
  by (auto simp: handle_command_def split: option.split body.split)

lemma handle_command_inv [keeps_inv]:
  "agent_inv ag \<Longrightarrow> agent_inv (snd (handle_command h cmd ag))"
  by (auto simp: handle_command_def agent_inv_def manager_inv_apply manager_inv_remove
      manager_inv_restart manager_inv_reconcile split: option.split body.split)

lemma agent_inv_retry: "agent_inv ag \<Longrightarrow> retry_inv q \<Longrightarrow> agent_inv (ag\<lparr>ag_retry := q\<rparr>)"
  by (simp add: agent_inv_def)

lemma agent_inv_retryD: "agent_inv ag \<Longrightarrow> retry_inv (ag_retry ag)"
  by (simp add: agent_inv_def)

lemma agent_inv_push:
  "agent_inv ag \<Longrightarrow> agent_inv (ag\<lparr>ag_retry := snd (push_failed c n t (ag_retry ag))\<rparr>)"
  by (intro agent_inv_retry retry_inv_push agent_inv_retryD)

lemma on_command_inv [keeps_inv]:
  assumes "agent_inv ag"
  shows "agent_inv (on_command h now cmd ag)"
proof (cases "is_probe cmd")
  case True
  with assms show ?thesis by (auto simp: on_command_def agent_inv_def)
next
  case False
  let ?ag = "ag\<lparr>ag_retry := supersede cmd (ag_retry ag)\<rparr>"
  have "retry_inv (supersede cmd (ag_retry ag))"
    using retry_inv_step [of "ag_retry ag" "Supersede cmd"] assms by (simp add: agent_inv_def)
  moreover obtain res ag2 where r: "handle_command h cmd ?ag = (res, ag2)" by fastforce
  ultimately have "agent_inv ag2"
    using handle_command_inv [of ?ag h cmd] assms by (simp add: agent_inv_retry)
  with r False show ?thesis
    by (auto simp: on_command_def agent_inv_push split: sum.split)
qed

lemma retry_each_inv [keeps_inv]: "agent_inv ag \<Longrightarrow> agent_inv (retry_each h now ps ag)"
proof (induction ps arbitrary: ag)
  case Nil
  then show ?case by simp
next
  case (Cons p ps)
  obtain res ag2 where r: "handle_command h (pc_cmd p) ag = (res, ag2)" by fastforce
  then have "agent_inv ag2"
    using handle_command_inv [OF Cons.prems, of h "pc_cmd p"] by simp
  with r Cons.IH show ?case
    by (auto simp: agent_inv_push split: sum.split)
qed

lemma session_step_inv [keeps_inv]: "agent_inv ag \<Longrightarrow> agent_inv (session_step h ag ev)"
proof (cases ev)
  case (Retry_Tick now)
  assume inv: "agent_inv ag"
  then have "retry_inv (snd (take_due now (ag_retry ag)))"
    using retry_inv_step [of "ag_retry ag" "Take_Due now"] by (simp add: agent_inv_def)
  with inv Retry_Tick show ?thesis
    by (auto simp: on_retry_tick_def case_prod_beta intro!: retry_each_inv agent_inv_retry)
qed (auto simp: on_command_inv, auto simp: agent_inv_def)

interpretation session: invariant_machine "session_step h" agent_inv for h
  by unfold_locales (rule session_step_inv)

lemma manager_new_inv: "manager_inv manager_new"
  by (simp add: manager_inv_def manager_new_def stats_wf_new held_sockets_def)

lemma apply_all_inv [keeps_inv]: "manager_inv m \<Longrightarrow> manager_inv (apply_all ev rs m)"
  by (induction rs arbitrary: m) (auto simp: manager_inv_apply)

lemma agent_start_inv: "agent_inv (agent_start h fs)"
  by (simp add: agent_inv_def agent_start_def apply_all_inv manager_new_inv MAX_PROBE_INFLIGHT_def)

section \<open>What the rule commands do\<close>

abbreviation agent_running :: "agent \<Rightarrow> int \<Rightarrow> rule option" where
  "agent_running ag i \<equiv> running (ag_manager ag) i"

lemma rule_op_result: "fst (rule_op h res ag) = (case fst res of Inl e \<Rightarrow> Inl (Start_Failed e) | Inr _ \<Rightarrow> Inr ())"
  by (auto simp: rule_op_def split: prod.split sum.split)

lemma apply_command_manager [simp]:
  "ag_manager (snd (handle_command h (apply_command r) ag)) = snd (apply_rule (ho_env h) r (ag_manager ag))"
  by (simp add: handle_command_def apply_command_def)

lemma apply_command_result [simp]:
  "fst (handle_command h (apply_command r) ag) = Inr () \<longleftrightarrow> fst (apply_rule (ho_env h) r (ag_manager ag)) = Inr ()"
  by (auto simp: handle_command_def apply_command_def rule_op_result split: sum.split)

lemma reconcile_command_manager [simp]:
  "ag_manager (snd (handle_command h (reconcile_command ids) ag)) = snd (reconcile ids (ag_manager ag))"
  by (simp add: handle_command_def reconcile_command_def)

lemma reconcile_command_result [simp]:
  "fst (handle_command h (reconcile_command ids) ag) = Inr ()"
  by (simp add: handle_command_def reconcile_command_def rule_op_result)

text \<open>Delivering commands in order: whether all succeeded, and the agent.\<close>

fun deliver :: "host \<Rightarrow> command list \<Rightarrow> agent \<Rightarrow> bool \<times> agent" where
  "deliver h [] ag = (True, ag)"
| "deliver h (c # cs) ag =
     (case handle_command h c ag of (res, ag1) \<Rightarrow>
       (case deliver h cs ag1 of (ok, ag2) \<Rightarrow> (res = Inr () \<and> ok, ag2)))"

lemma deliver_append:
  "deliver h (cs @ ds) ag = (case deliver h cs ag of (ok, ag1) \<Rightarrow> (case deliver h ds ag1 of (ok', ag2) \<Rightarrow> (ok \<and> ok', ag2)))"
  by (induction cs arbitrary: ag) (auto split: prod.split)

lemma find_id_None: "i \<notin> r_id ` set rs \<Longrightarrow> find (\<lambda>r. r_id r = i) rs = None"
  "i \<notin> r_id ` set rs \<Longrightarrow> find (\<lambda>r. r_id r = i \<and> r_enabled r) rs = None"
  by (induction rs) auto

text \<open>The commands of a replay: rules to apply, and tunnel credentials.\<close>

definition replay_command :: "command \<Rightarrow> bool" where
  "replay_command c = (case c_body c of
     Some (Apply_Rule (Some _)) \<Rightarrow> True | Some (Tunnel_Credentials _) \<Rightarrow> True | _ \<Rightarrow> False)"

lemma replay_command_simps [simp]:
  "replay_command (apply_command r)"
  "replay_command \<lparr>c_body = Some (Tunnel_Credentials cr)\<rparr>"
  by (simp_all add: replay_command_def apply_command_def)

lemma replay_command_cases:
  assumes "replay_command c"
  obtains r where "c = apply_command r" | cr where "c = \<lparr>c_body = Some (Tunnel_Credentials cr)\<rparr>"
  using assms
  by (cases c) (auto simp: replay_command_def apply_command_def split: option.splits body.splits)

lemma credentials_command_manager [simp]:
  "ag_manager (snd (handle_command h \<lparr>c_body = Some (Tunnel_Credentials cr)\<rparr> ag)) = ag_manager ag"
  by (simp add: handle_command_def)

lemma deliver_applies:
  assumes "fst (deliver h cs ag)" "distinct (map r_id (applied_rules cs))"
    "\<forall>r \<in> set (applied_rules cs). startable r" "\<forall>c \<in> set cs. replay_command c"
  shows "agent_running (snd (deliver h cs ag)) i =
     (case find (\<lambda>r. r_id r = i) (applied_rules cs) of
        Some r \<Rightarrow> if r_enabled r then Some r else None
      | None \<Rightarrow> agent_running ag i)"
  using assms
proof (induction cs arbitrary: ag)
  case Nil
  then show ?case by simp
next
  case (Cons c cs)
  let ?ag = "snd (handle_command h c ag)"
  have "replay_command c"
    using Cons.prems(4) by simp
  then show ?case
  proof (cases rule: replay_command_cases)
    case (1 r)
    have "fst (handle_command h c ag) = Inr ()" and rest: "fst (deliver h cs ?ag)"
      using Cons.prems(1) by (simp_all add: case_prod_beta)
    then have ok: "fst (apply_rule (ho_env h) r (ag_manager ag)) = Inr ()"
      using 1 by simp
    have IH: "agent_running (snd (deliver h cs ?ag)) i =
       (case find (\<lambda>r. r_id r = i) (applied_rules cs) of
          Some r \<Rightarrow> if r_enabled r then Some r else None | None \<Rightarrow> agent_running ?ag i)"
      using Cons.IH [OF rest] Cons.prems 1 by simp
    have "find (\<lambda>r'. r_id r' = r_id r) (applied_rules cs) = None"
      using Cons.prems(2) 1 by (simp add: find_id_None)
    with IH running_apply_ok [OF ok] running_apply_other [of i r "ho_env h" "ag_manager ag"] Cons.prems(3) 1
    show ?thesis
      by (auto simp: case_prod_beta split: option.split)
  next
    case (2 cr)
    have "fst (deliver h cs ?ag)"
      using Cons.prems(1) by (simp add: case_prod_beta)
    moreover have "ag_manager ?ag = ag_manager ag" "applied_rules (c # cs) = applied_rules cs"
      using 2 by simp_all
    ultimately show ?thesis
      using Cons.IH [of ?ag] Cons.prems(2-4) by (simp add: case_prod_beta split: option.split)
  qed
qed

lemma deliver_inv [keeps_inv]: "agent_inv ag \<Longrightarrow> agent_inv (snd (deliver h cs ag))"
proof (induction cs arbitrary: ag)
  case Nil
  then show ?case by simp
next
  case (Cons c cs)
  then show ?case
    using handle_command_inv [OF Cons.prems, of h c] by (simp add: case_prod_beta)
qed

text \<open>
  Rules the panel wants on the node, replayed and reconciled: whatever ran before, exactly
  those run afterwards.
\<close>

lemma find_enabled:
  "distinct (map r_id rs) \<Longrightarrow> find (\<lambda>r. r_id r = i \<and> r_enabled r) rs =
     (case find (\<lambda>r. r_id r = i) rs of Some r \<Rightarrow> if r_enabled r then Some r else None | None \<Rightarrow> None)"
proof (induction rs)
  case (Cons r rs)
  have "r_id r = i \<Longrightarrow> find (\<lambda>r'. r_id r' = i \<and> r_enabled r') rs = None"
    using Cons.prems by (auto simp: find_id_None)
  with Cons show ?case by auto
qed simp

lemma deliver_reconcile:
  assumes "fst (deliver h (cs @ [reconcile_command ids]) ag)" "\<forall>c \<in> set cs. replay_command c"
    "distinct (map r_id (applied_rules cs))" "\<forall>r \<in> set (applied_rules cs). startable r"
    "set ids = r_id ` set (applied_rules cs)"
  shows "agent_running (snd (deliver h (cs @ [reconcile_command ids]) ag)) i =
     find (\<lambda>r. r_id r = i \<and> r_enabled r) (applied_rules cs)"
proof -
  let ?ag = "snd (deliver h cs ag)"
  have ok: "fst (deliver h cs ag)"
    using assms(1) by (simp add: deliver_append case_prod_beta)
  have run: "agent_running (snd (deliver h (cs @ [reconcile_command ids]) ag)) i
      = (if i \<in> set ids then agent_running ?ag i else None)"
    by (simp add: deliver_append case_prod_beta running_reconcile)
  show ?thesis
  proof (cases "i \<in> set ids")
    case True
    then have "find (\<lambda>r. r_id r = i) (applied_rules cs) \<noteq> None"
      using assms(5) by (auto simp: find_None_iff)
    with run True find_enabled [OF assms(3), of i] deliver_applies [OF ok assms(3,4,2), of i] show ?thesis
      by (auto split: option.splits)
  next
    case False
    then have "find (\<lambda>r. r_id r = i \<and> r_enabled r) (applied_rules cs) = None"
      using assms(5) by (auto simp: find_None_iff)
    with run False show ?thesis by simp
  qed
qed

section \<open>What is on disk\<close>

text \<open>
  The library contract of \<^verbatim>\<open>serde_json\<close>, for a list of rules: it is written, and read back.
\<close>

definition codec_ok :: "host \<Rightarrow> rule list \<Rightarrow> bool" where
  "codec_ok h rules = (case ho_to_vec h (map rule_to_json rules) of
     None \<Rightarrow> False | Some s \<Rightarrow> ho_from_slice h s = Some (map rule_to_json rules))"

lemma persist_load:
  assumes "codec_ok h (current_rules (ag_manager ag))" "ho_save_fault h = No_Fault" "ho_state_path h \<noteq> []"
  shows "load (ho_from_slice h) False (ho_state_path h) (ag_files (persist h ag)) = Inr (current_rules (ag_manager ag))"
proof -
  obtain s where s: "ho_to_vec h (map rule_to_json (current_rules (ag_manager ag))) = Some s"
    "ho_from_slice h s = Some (map rule_to_json (current_rules (ag_manager ag)))"
    using assms(1) by (auto simp: codec_ok_def split: option.splits)
  have "hm_get (ag_files (persist h ag)) (ho_state_path h) = Some s"
    using assms(2,3) s(1) by (auto simp: persist_def save_def)
  with s(2) show ?thesis
    by (simp add: load_def comp_def)
qed

lemma current_rules_distinct: "manager_inv m \<Longrightarrow> distinct (map r_id (current_rules m))"
proof -
  assume inv: "manager_inv m"
  have "\<forall>(i, h) \<in> set hs. \<exists>r. rh_rule h = Some r \<and> r_id r = i \<Longrightarrow>
      map r_id (concat (map (\<lambda>(_, h). case rh_rule h of None \<Rightarrow> [] | Some r \<Rightarrow> [r]) hs)) = map fst hs" for hs
    by (induction hs) auto
  then have "map r_id (current_rules m) = map fst (mg_handles m)"
    using inv by (fastforce simp: current_rules_def manager_inv_def)
  with inv show ?thesis by (simp add: manager_inv_def)
qed

text \<open>Whether every rule of a list starts, one after another.\<close>

fun all_start :: "env \<Rightarrow> rule list \<Rightarrow> manager \<Rightarrow> bool" where
  "all_start ev [] m = True"
| "all_start ev (r # rs) m = (fst (apply_rule ev r m) = Inr () \<and> all_start ev rs (snd (apply_rule ev r m)))"

lemma apply_all_running:
  assumes "all_start ev rs m" "distinct (map r_id rs)" "\<forall>r \<in> set rs. startable r"
  shows "running (apply_all ev rs m) i =
     (case find (\<lambda>r. r_id r = i) rs of
        Some r \<Rightarrow> if r_enabled r then Some r else None | None \<Rightarrow> running m i)"
  using assms
proof (induction rs arbitrary: m)
  case Nil
  then show ?case by simp
next
  case (Cons r rs)
  have "find (\<lambda>r'. r_id r' = r_id r) rs = None"
    using Cons.prems(2) by (simp add: find_id_None)
  with Cons running_apply_ok [of ev r m] running_apply_other [of i r ev m] show ?case
    by (auto split: option.split)
qed

section \<open>Reporting\<close>

lemma report_stats_round:
  assumes "clock = Some now"
  shows "report_stats clock send s =
     (let (d, s') = rule_counters.report_round (\<lambda>d. send (map (bucket_of (minute_of now)) d)) s
      in (if d = [] then None else Some (map (bucket_of (minute_of now)) d), s'))"
  using assms
  by (auto simp: report_stats_def rule_counters.report_round_def Let_def split: prod.splits)

section \<open>Properties\<close>

definition host0 :: host where
  "host0 = \<lparr>ho_env = env0, ho_to_vec = (\<lambda>_. Some ''j''), ho_from_slice = (\<lambda>_. Some [rule_to_json rule0]),
    ho_state_path = [''s''], ho_data_dir = [''d''],
    ho_read_fault = False, ho_save_fault = No_Fault, ho_dir_fault = False, ho_file_fault = (\<lambda>_. False),
    ho_remove_fault = False\<rparr>"

text \<open>C3. Convergence: when the panel replays the rules a node should have, with credentials among
  them, and then the list of their ids, and every start succeeds, then whatever the node ran
  before, it runs afterwards exactly the enabled rules of the panel, each with the panel's
  content, and nothing else.\<close>

theorem reconcile_converges:
  assumes "fst (deliver h (cs @ [reconcile_command ids]) ag)" "\<forall>c \<in> set cs. replay_command c"
    "distinct (map r_id (applied_rules cs))" "\<forall>r \<in> set (applied_rules cs). startable r"
    "set ids = r_id ` set (applied_rules cs)"
  shows "agent_running (snd (deliver h (cs @ [reconcile_command ids]) ag)) i =
     find (\<lambda>r. r_id r = i \<and> r_enabled r) (applied_rules cs)"
  using deliver_reconcile [OF assms] .

definition old_agent :: agent where
  "old_agent = snd (handle_command host0 (apply_command (rule0\<lparr>r_id := 9, r_listen_port := 90\<rparr>)) (agent_start host0 []))"

lemma reconcile_converges_witness:
  "agent_running old_agent 9 \<noteq> None
   \<and> agent_running (snd (deliver host0 ([apply_command rule0] @ [reconcile_command [7]]) old_agent)) 9 = None
   \<and> agent_running (snd (deliver host0 ([apply_command rule0] @ [reconcile_command [7]]) old_agent)) 7 = Some rule0"
proof -
  have old: "agent_running old_agent 9 \<noteq> None"
    by code_simp
  have ok: "fst (deliver host0 ([apply_command rule0] @ [reconcile_command [7]]) old_agent)"
    by code_simp
  have r: "\<forall>c \<in> set [apply_command rule0]. replay_command c" "distinct (map r_id (applied_rules [apply_command rule0]))"
      "\<forall>r \<in> set (applied_rules [apply_command rule0]). startable r"
      "set [7] = r_id ` set (applied_rules [apply_command rule0])"
    by (simp_all add: rule0_def startable_def)
  from reconcile_converges [OF ok r, of 9] reconcile_converges [OF ok r, of 7] old show ?thesis
    by (simp add: rule0_def)
qed

text \<open>A node without its panel keeps its rules over a restart: after any rule command that
  succeeded and was written, an agent started from the files, with every rule starting again,
  runs exactly the rules that ran before.\<close>

theorem restart_keeps_rules:
  assumes "agent_inv ag" "codec_ok h (current_rules (ag_manager ag))" "ho_save_fault h = No_Fault"
    "\<not> ho_read_fault h" "ho_state_path h \<noteq> []"
    "all_start (ho_env h) (current_rules (ag_manager ag)) manager_new"
    "\<forall>r \<in> set (current_rules (ag_manager ag)). startable r"
  shows "agent_running (agent_start h (ag_files (persist h ag))) i = agent_running ag i"
proof -
  let ?rs = "current_rules (ag_manager ag)"
  have inv: "manager_inv (ag_manager ag)"
    using assms(1) by (simp add: agent_inv_def)
  have start: "agent_running (agent_start h (ag_files (persist h ag))) i = running (apply_all (ho_env h) ?rs manager_new) i"
    using persist_load [OF assms(2,3,5)] assms(4) by (simp add: agent_start_def)
  have none: "running manager_new i = None"
    by (simp add: running_def manager_new_def)
  show ?thesis
  proof (cases "find (\<lambda>r. r_id r = i) ?rs")
    case None
    have "agent_running ag i = None"
    proof (rule ccontr)
      assume "agent_running ag i \<noteq> None"
      then obtain r where r: "agent_running ag i = Some r"
        by blast
      then have "r_id r = i" and "r \<in> set ?rs"
        using running_id [OF inv] current_rules_running [OF inv] by blast+
      with None show False
        by (simp add: find_None_iff)
    qed
    with None start none apply_all_running [OF assms(6) current_rules_distinct [OF inv] assms(7), of i]
    show ?thesis by simp
  next
    case (Some r)
    then have r: "r \<in> set ?rs" "r_id r = i"
      by (auto simp: find_Some_iff)
    with Some start current_rules_enabled [OF inv] current_rules_running [OF inv]
      apply_all_running [OF assms(6) current_rules_distinct [OF inv] assms(7), of i]
    show ?thesis by auto
  qed
qed

lemma restart_keeps_rules_witness:
  "agent_running (agent_start host0 (ag_files (persist host0
      (snd (handle_command host0 (apply_command rule0) (agent_start host0 [])))))) 7 = Some rule0"
proof -
  let ?ag = "snd (handle_command host0 (apply_command rule0) (agent_start host0 []))"
  have inv: "agent_inv ?ag"
    by (rule handle_command_inv) (rule agent_start_inv)
  have ok: "fst (apply_rule (ho_env host0) rule0 (ag_manager (agent_start host0 []))) = Inr ()"
    by code_simp
  have rules: "current_rules (ag_manager ?ag) = [rule0]"
    by code_simp
  have run: "agent_running ?ag 7 = Some rule0"
    using current_rules_running [of "ag_manager ?ag" rule0] inv rules
    by (simp add: agent_inv_def rule0_def)
  have all: "all_start (ho_env host0) [rule0] manager_new"
    by code_simp
  have codec: "codec_ok host0 [rule0]"
    by (simp add: codec_ok_def host0_def)
  show ?thesis
    using restart_keeps_rules [OF inv, of host0 7] codec all run rules
    by (simp add: host0_def startable_def rule0_def)
qed

text \<open>C4. Over the whole life of an agent, whatever commands, retries and ends of tasks come in any
  order, the listening sockets of the process are exactly those of the rules that run, the retry
  queue holds at most one entry per rule, and at most 16 probes run at once.\<close>

theorem agent_life_invariant:
  "let ag = foldl (session_step h) (agent_start h fs) evs in
     mset (w_bound (mg_world (ag_manager ag))) = mset (held_sockets (ag_manager ag))
     \<and> distinct (map entry_rule (ag_retry ag)) \<and> ag_probes ag \<le> 16"
  using session.run_inv [OF agent_start_inv [of h fs], of h evs]
  by (simp add: Let_def agent_inv_def manager_inv_def retry_inv_def MAX_PROBE_INFLIGHT_def)

text \<open>C17. No traffic is lost by reporting: when a report is not acknowledged every rule still has
  exactly what it had counted, and when it is acknowledged the batch is made of exactly the
  amounts the rules had counted, with all counters back at zero.\<close>

theorem report_stats_conserves:
  assumes "stats_wf s"
  shows "case report_stats clock send s of
      (None, s') \<Rightarrow> count_of s' r = count_of s r
    | (Some batch, s') \<Rightarrow> count_of s' r = counter_default
        \<and> (\<exists>now snapshot. clock = Some now \<and> batch = map (bucket_of (minute_of now)) snapshot
             \<and> total_of snapshot r = count_of s r)"
proof (cases clock)
  case None
  then show ?thesis by (simp add: report_stats_def)
next
  case (Some now)
  let ?send = "\<lambda>d. send (map (bucket_of (minute_of now)) d)"
  obtain d s' where d: "rule_counters.report_round ?send s = (d, s')" by fastforce
  have conserve: "counter_add (total_of d r) (count_of s' r) = count_of s r"
    using rule_counters.round_conserves [OF assms, of ?send r] d by simp
  have rep: "report_stats clock send s = (if d = [] then None else Some (map (bucket_of (minute_of now)) d), s')"
    using report_stats_round [OF Some, of send s] d by simp
  show ?thesis
  proof (cases "d = []")
    case True
    with rep conserve show ?thesis by simp
  next
    case False
    then have "s' = snd (drain_snapshot s)"
      using d by (auto simp: rule_counters.report_round_def split: prod.splits if_splits)
    then have "count_of s' r = counter_default"
      using drain_resets [OF assms] by simp
    with rep conserve Some False show ?thesis by auto
  qed
qed

lemma report_stats_conserves_witness:
  "count_of (snd (report_stats (Some 100) (\<lambda>_. False)
      (fetch_add 0 \<lparr>cn_rx = 5, cn_tx = 7, cn_conn = 1, cn_err = 0\<rparr> (snd (ensure 3 stats_new))))) 3
   = count_of (fetch_add 0 \<lparr>cn_rx = 5, cn_tx = 7, cn_conn = 1, cn_err = 0\<rparr> (snd (ensure 3 stats_new))) 3"
proof -
  let ?s = "fetch_add 0 \<lparr>cn_rx = 5, cn_tx = 7, cn_conn = 1, cn_err = 0\<rparr> (snd (ensure 3 stats_new))"
  have wf: "stats_wf ?s"
    by (simp add: stats_wf_new stats_wf_ensure stats_wf_fetch_add)
  have "fst (report_stats (Some 100) (\<lambda>_. False) ?s) = None"
    by (simp add: report_stats_def split: prod.split)
  with report_stats_conserves [OF wf, where clock = "Some 100" and send = "\<lambda>_. False" and r = 3] show ?thesis
    by (cases "report_stats (Some 100) (\<lambda>_. False) ?s") auto
qed

end
