(* ===== verification/Tunnel_Certs.thy ===== *)
theory Tunnel_Certs
  imports Tunnel_Flow
begin

text \<open>
  Who may connect to whom in a tunnel. The certificates the panel issues
  (\<^verbatim>\<open>panel-server/src/tls/issue.rs\<close>, and the panel's own one of \<^verbatim>\<open>tls/ca.rs\<close>), and the checks a
  dialling and a listening hop make on the certificate of the other side
  (\<^verbatim>\<open>node-agent/src/tunnel/tls_transport.rs\<close>, \<^verbatim>\<open>wss_transport.rs\<close>).

  A certificate is what those checks read of it: names, usage, the key that signed it and the
  time it is valid. Keys are numbers. That the other side holds the private key of the
  certificate it shows is the TLS library's part; whether a certificate is signed by a trusted
  root, for a usage, at a time, is the argument \<open>webpki\<close>, with the laws \<open>chain_laws\<close>.
\<close>

section \<open>The certificates of the panel\<close>

datatype cert_usage = Server_Auth | Client_Auth

record certificate =
  ct_names :: "string list"
  ct_usage :: cert_usage
  ct_is_ca :: bool
  ct_signer :: nat
  ct_not_before :: int
  ct_not_after :: int

definition DAY :: int where "DAY = 86400"

definition TUNNEL_CERT_VALIDITY_DAYS :: int where "TUNNEL_CERT_VALIDITY_DAYS = 30"

text \<open>The name of a hop as the panel writes it; both numbers are \<^verbatim>\<open>i64\<close>.\<close>

definition hop_san :: "int \<Rightarrow> int \<Rightarrow> string" where
  "hop_san tunnel_id ordinal =
     ''tunnel-'' @ show_int tunnel_id @ ''-hop-'' @ show_int ordinal @ ''.emorelay.internal''"

definition node_san :: "int \<Rightarrow> string" where
  "node_san node_id = ''node-'' @ show_int node_id @ ''.emorelay.internal''"

text \<open>\<open>made\<close> is whether the certificate library generates the key and signs.\<close>

definition issue_tunnel_leaf :: "bool \<Rightarrow> nat \<Rightarrow> int \<Rightarrow> string \<Rightarrow> cert_usage \<Rightarrow> certificate option" where
  "issue_tunnel_leaf made ca now san eku =
     (if made then Some \<lparr>ct_names = [san], ct_usage = eku, ct_is_ca = False, ct_signer = ca,
        ct_not_before = now - DAY, ct_not_after = now + TUNNEL_CERT_VALIDITY_DAYS * DAY\<rparr>
      else None)"

text \<open>The server's and the client's certificate of a hop; each leaf reads the clock itself.\<close>

definition issue_tunnel_hop_certs ::
    "bool \<times> bool \<Rightarrow> nat \<Rightarrow> int \<times> int \<Rightarrow> int \<Rightarrow> int \<Rightarrow> (certificate \<times> certificate) option" where
  "issue_tunnel_hop_certs made ca now tunnel_id ordinal =
     (case issue_tunnel_leaf (fst made) ca (fst now) (hop_san tunnel_id ordinal) Server_Auth of
        None \<Rightarrow> None
      | Some server \<Rightarrow>
          map_option (Pair server)
            (issue_tunnel_leaf (snd made) ca (snd now) (hop_san tunnel_id ordinal) Client_Auth))"

text \<open>The certificate a node shows to the panel, by the same authority.\<close>

definition issue_client_cert :: "bool \<Rightarrow> nat \<Rightarrow> int \<Rightarrow> int \<Rightarrow> certificate option" where
  "issue_client_cert made ca now node_id =
     (if made then Some \<lparr>ct_names = [node_san node_id], ct_usage = Client_Auth, ct_is_ca = False, ct_signer = ca,
        ct_not_before = now - DAY, ct_not_after = now + 1825 * DAY\<rparr>
      else None)"

text \<open>The panel's own certificate, from \<^verbatim>\<open>bootstrap_ca\<close>.\<close>

definition server_leaf :: "nat \<Rightarrow> int \<Rightarrow> string option \<Rightarrow> certificate" where
  "server_leaf ca now public_host =
     \<lparr>ct_names = [''127.0.0.1'', ''localhost''] @ (case public_host of None \<Rightarrow> [] | Some h \<Rightarrow> [h]),
      ct_usage = Server_Auth, ct_is_ca = False, ct_signer = ca,
      ct_not_before = now - DAY, ct_not_after = now + 1825 * DAY\<rparr>"

text \<open>All leaves the authority \<open>ca\<close> of a panel signs, with what each one was issued for.\<close>

datatype cert_holder =
    Hop_Server int int
  | Hop_Client int int
  | Node_Client int
  | Panel_Server

inductive panel_issued :: "nat \<Rightarrow> string option \<Rightarrow> cert_holder \<Rightarrow> certificate \<Rightarrow> bool"
  for ca :: nat and public_host :: "string option" where
  hop_server: "issue_tunnel_hop_certs made ca now tid ord = Some (s, c) \<Longrightarrow> panel_issued ca public_host (Hop_Server tid ord) s"
| hop_client: "issue_tunnel_hop_certs made ca now tid ord = Some (s, c) \<Longrightarrow> panel_issued ca public_host (Hop_Client tid ord) c"
| node_client: "issue_client_cert ok ca t node_id = Some c \<Longrightarrow> panel_issued ca public_host (Node_Client node_id) c"
| panel_server: "panel_issued ca public_host Panel_Server (server_leaf ca t public_host)"

section \<open>The checks of a hop\<close>

text \<open>
  What \<^verbatim>\<open>rustls\<close> documents of verifying an end-entity certificate: it is signed by the trusted
  root, within its validity, and its extended key usage is the one asked for.
\<close>

type_synonym webpki = "nat \<Rightarrow> int \<Rightarrow> cert_usage \<Rightarrow> certificate \<Rightarrow> bool"

definition chain_laws :: "webpki \<Rightarrow> bool" where
  "chain_laws webpki = (\<forall>anchor t u c. \<not> ct_is_ca c \<longrightarrow>
     webpki anchor t u c = (ct_signer c = anchor \<and> ct_not_before c \<le> t \<and> t \<le> ct_not_after c \<and> ct_usage c = u))"

text \<open>
  A dialling hop: the server's certificate is verified against the root of \<^verbatim>\<open>ca.pem\<close> and the name
  \<open>dial_sni\<close>. A listening hop: the client's certificate is verified against the root, then
  \<^verbatim>\<open>verify_client_san\<close>; a hop that expects nobody does not listen.
\<close>

definition dial_accepts :: "webpki \<Rightarrow> nat \<Rightarrow> int \<Rightarrow> transport \<Rightarrow> certificate \<Rightarrow> bool" where
  "dial_accepts webpki anchor now t server_cert =
     (t \<noteq> Tcp_Transport \<and> webpki anchor now Server_Auth server_cert
      \<and> list_ex (\<lambda>d. d = dial_sni t) (ct_names server_cert))"

definition listen_accepts :: "webpki \<Rightarrow> nat \<Rightarrow> int \<Rightarrow> transport \<Rightarrow> certificate \<Rightarrow> bool" where
  "listen_accepts webpki anchor now t client_cert =
     (t \<noteq> Tcp_Transport \<and> webpki anchor now Client_Auth client_cert
      \<and> (case expect_client_san t of None \<Rightarrow> False | Some e \<Rightarrow> verify_client_san (ct_names client_cert) e))"

text \<open>The files of a hop, as \<^verbatim>\<open>creds::store\<close> has written them: \<^verbatim>\<open>ca.pem\<close>, \<^verbatim>\<open>server.pem\<close> and \<^verbatim>\<open>client.pem\<close>.\<close>

record hop_files =
  hf_root :: nat
  hf_server :: certificate
  hf_client :: certificate

text \<open>
  A dial and the accept at the other end, each side with its own clock: both run the same
  protocol, and with TLS each side accepts the certificate of the other. The time limits and the WebSocket upgrade
  that follows the TLS handshake of \<^verbatim>\<open>wss\<close> are left out.
\<close>

definition handshake_ok ::
    "webpki \<Rightarrow> int \<Rightarrow> transport \<Rightarrow> hop_files \<Rightarrow> int \<Rightarrow> transport \<Rightarrow> hop_files \<Rightarrow> bool" where
  "handshake_ok webpki now c cf now' s sf =
     (case (c, s) of
        (Tcp_Transport, Tcp_Transport) \<Rightarrow> True
      | (Tls_Transport _ _, Tls_Transport _ _) \<Rightarrow>
          dial_accepts webpki (hf_root cf) now c (hf_server sf) \<and> listen_accepts webpki (hf_root sf) now' s (hf_client cf)
      | (Wss_Transport _ _, Wss_Transport _ _) \<Rightarrow>
          dial_accepts webpki (hf_root cf) now c (hf_server sf) \<and> listen_accepts webpki (hf_root sf) now' s (hf_client cf)
      | _ \<Rightarrow> False)"

section \<open>Names\<close>

lemma dec_digit: "c \<in> set (dec n) \<Longrightarrow> \<exists>k < 10. c = char_of (48 + k :: nat)"
proof (induction n rule: less_induct)
  case (less n)
  show ?case
  proof (cases "n < 10")
    case True
    with less(2) show ?thesis by (subst (asm) dec.simps) auto
  next
    case False
    with less(2) less(1) [of "n div 10"] show ?thesis
      by (subst (asm) dec.simps) (auto intro: exI [of _ "n mod 10"])
  qed
qed

lemma dec_no_h: "CHR ''h'' \<notin> set (dec n)"
proof
  assume "CHR ''h'' \<in> set (dec n)"
  then obtain k where "k < 10" "CHR ''h'' = char_of (48 + k :: nat)"
    using dec_digit by blast
  then have "of_char (CHR ''h'') = (48 + k :: nat)" by simp
  with \<open>k < 10\<close> show False by simp
qed

lemma show_int_no_h: "CHR ''h'' \<notin> set (show_int i)"
  using dec_no_h by (simp add: show_int_def)

lemma before_h: "CHR ''h'' \<notin> set xs \<Longrightarrow> takeWhile (\<lambda>c. c \<noteq> CHR ''h'') (xs @ ''-hop-'' @ ys) = xs @ ''-''"
  by (induction xs) auto

lemma hop_san_inject [simp]: "hop_san t k = hop_san t' k' \<longleftrightarrow> t = t' \<and> k = k'"
proof
  assume eq: "hop_san t k = hop_san t' k'"
  let ?rest = "\<lambda>k. show_int k @ ''.emorelay.internal''"
  from eq have e: "show_int t @ ''-hop-'' @ ?rest k = show_int t' @ ''-hop-'' @ ?rest k'"
    unfolding hop_san_def by (simp only: same_append_eq)
  have "takeWhile (\<lambda>c. c \<noteq> CHR ''h'') (show_int t @ ''-hop-'' @ ?rest k)
      = takeWhile (\<lambda>c. c \<noteq> CHR ''h'') (show_int t' @ ''-hop-'' @ ?rest k')"
    by (simp only: e)
  then have "show_int t = show_int t'"
    unfolding before_h [OF show_int_no_h] by simp
  with eq show "t = t' \<and> k = k'"
    by (simp add: hop_san_def)
qed simp

lemma hop_san_not_node: "hop_san t k \<noteq> node_san i" "node_san i \<noteq> hop_san t k"
  by (simp_all add: hop_san_def node_san_def)

lemma hop_san_not_local: "hop_san t k \<noteq> ''127.0.0.1''" "hop_san t k \<noteq> ''localhost''"
  by (simp_all add: hop_san_def)

text \<open>The agent writes the same name from its \<^verbatim>\<open>u32\<close>.\<close>

lemma hop_name_san: "hop_name t k = hop_san t (uint k)"
  by (simp add: hop_name_def hop_san_def show_int_def not_less)

section \<open>Who is accepted\<close>

lemma issued_pair:
  assumes "issue_tunnel_hop_certs made ca now tid ord = Some (s, c)"
  shows "ct_names s = [hop_san tid ord]" "ct_usage s = Server_Auth" "ct_signer s = ca" "\<not> ct_is_ca s"
    "ct_not_before s = fst now - DAY" "ct_not_after s = fst now + 30 * DAY"
    "ct_names c = [hop_san tid ord]" "ct_usage c = Client_Auth" "ct_signer c = ca" "\<not> ct_is_ca c"
    "ct_not_before c = snd now - DAY" "ct_not_after c = snd now + 30 * DAY"
  using assms
  by (auto simp: issue_tunnel_hop_certs_def issue_tunnel_leaf_def TUNNEL_CERT_VALIDITY_DAYS_def split: if_splits)

lemma issued_leaf: "panel_issued ca host who c \<Longrightarrow> \<not> ct_is_ca c"
  by (induction rule: panel_issued.induct)
    (auto simp: issued_pair issue_client_cert_def server_leaf_def split: if_splits)

lemma issued_client:
  assumes "panel_issued ca host who c" "ct_usage c = Client_Auth"
  shows "(\<exists>t k. who = Hop_Client t k \<and> ct_names c = [hop_san t k]) \<or> (\<exists>i. who = Node_Client i \<and> ct_names c = [node_san i])"
  using assms
  by (induction rule: panel_issued.induct)
    (auto simp: issued_pair issue_client_cert_def server_leaf_def split: if_splits)

lemma issued_server:
  assumes "panel_issued ca host who c" "ct_usage c = Server_Auth"
  shows "(\<exists>t k. who = Hop_Server t k \<and> ct_names c = [hop_san t k])
    \<or> (who = Panel_Server \<and> set (ct_names c) \<subseteq> {''127.0.0.1'', ''localhost''} \<union> set_option host)"
  using assms
  by (induction rule: panel_issued.induct)
    (auto simp: issued_pair issue_client_cert_def server_leaf_def split: if_splits option.splits)

text \<open>What a transport made for a hop dials and expects.\<close>

lemma make_transport_names:
  assumes "make_transport ev ctx = Inr t" "t \<noteq> Tcp_Transport"
  shows "dial_sni t = hop_name (tc_tunnel_id ctx) (tc_self_ordinal ctx + 1)"
    "expect_client_san t = (if tc_self_ordinal ctx = 0 then None
       else Some (hop_name (tc_tunnel_id ctx) (tc_self_ordinal ctx - 1)))"
    "tc_transport ctx = ''tls'' \<and> (\<exists>a b. t = Tls_Transport a b) \<or> tc_transport ctx = ''wss'' \<and> (\<exists>a b. t = Wss_Transport a b)"
  using assms by (auto simp: make_transport_def load_tls_def bindR_eq_Inr split: if_splits)

lemma listen_only_previous:
  assumes "chain_laws w" "panel_issued ca host who c" "listen_accepts w ca now t c"
    "expect_client_san t = Some (hop_san tid k)"
  shows "who = Hop_Client tid k"
proof -
  have "ct_usage c = Client_Auth" "list_ex (\<lambda>d. d = hop_san tid k) (ct_names c)"
    using assms issued_leaf [OF assms(2)] by (auto simp: listen_accepts_def verify_client_san_def chain_laws_def)
  with issued_client [OF assms(2)] show ?thesis
    by (auto simp: hop_san_not_node)
qed

lemma dial_only_next:
  assumes "chain_laws w" "panel_issued ca host who c" "dial_accepts w ca now t c" "dial_sni t = hop_san tid k"
    "host \<noteq> Some (hop_san tid k)"
  shows "who = Hop_Server tid k"
proof -
  have "ct_usage c = Server_Auth" and n: "hop_san tid k \<in> set (ct_names c)"
    using assms issued_leaf [OF assms(2)] by (auto simp: dial_accepts_def chain_laws_def list_ex_iff)
  with issued_server [OF assms(2)] show ?thesis
    using assms(5) by (auto simp: hop_san_not_local dest!: subsetD)
qed

section \<open>Properties\<close>

text \<open>C24. In a tunnel over TLS or WSS, with the certificates the panel issues: a hop and the next one
  complete the TLS handshake whenever both certificates are between one day before and 30 days after
  their issue at the clock of the side that checks; of all certificates the panel's
  authority signs, for any hop of any tunnel, any node, and the panel itself, a listening hop
  accepts only the client certificate of the hop before it in its own tunnel, and a dialling hop
  only the server certificate of the hop after it. The panel's public host must not be the name
  of a hop, and the TLS library verifies a leaf as documented: signed by the root, in
  its validity, for the usage asked for.\<close>

theorem adjacent_hops_authenticate:
  assumes "chain_laws webpki" "make_transport ev ctx = Inr t" "make_transport ev' ctx' = Inr t'"
    "tc_transport ctx' = tc_transport ctx" "t \<noteq> Tcp_Transport" "tc_tunnel_id ctx' = tc_tunnel_id ctx"
    "uint (tc_self_ordinal ctx') = uint (tc_self_ordinal ctx) + 1"
    "\<forall>tid k. public_host \<noteq> Some (hop_san tid k)"
  shows "(\<forall>made made' issued issued' s c s' c' clock clock'.
      issue_tunnel_hop_certs made ca issued (tc_tunnel_id ctx) (uint (tc_self_ordinal ctx)) = Some (s, c)
      \<and> issue_tunnel_hop_certs made' ca issued' (tc_tunnel_id ctx') (uint (tc_self_ordinal ctx')) = Some (s', c')
      \<and> fst issued' - DAY \<le> clock \<and> clock \<le> fst issued' + 30 * DAY
      \<and> snd issued - DAY \<le> clock' \<and> clock' \<le> snd issued + 30 * DAY
      \<longrightarrow> handshake_ok webpki clock t \<lparr>hf_root = ca, hf_server = s, hf_client = c\<rparr>
            clock' t' \<lparr>hf_root = ca, hf_server = s', hf_client = c'\<rparr>)
    \<and> (\<forall>who cert clock. panel_issued ca public_host who cert \<and> listen_accepts webpki ca clock t' cert
         \<longrightarrow> who = Hop_Client (tc_tunnel_id ctx) (uint (tc_self_ordinal ctx)))
    \<and> (\<forall>who cert clock. panel_issued ca public_host who cert \<and> dial_accepts webpki ca clock t cert
         \<longrightarrow> who = Hop_Server (tc_tunnel_id ctx') (uint (tc_self_ordinal ctx')))"
proof -
  have next_ord: "tc_self_ordinal ctx' = tc_self_ordinal ctx + 1"
    using assms(7) by (metis of_int_1 of_int_add word_of_int_uint)
  have "tc_self_ordinal ctx' \<noteq> 0"
    using assms(7) uint_ge_0 [of "tc_self_ordinal ctx"] by (intro notI) simp
  have t': "t' \<noteq> Tcp_Transport"
    using assms(3-5) make_transport_names(3) [OF assms(2,5)] by (auto simp: make_transport_def load_tls_def split: if_splits)
  note n = make_transport_names [OF assms(2,5)] and n' = make_transport_names [OF assms(3) t']
  have sni: "dial_sni t = hop_san (tc_tunnel_id ctx') (uint (tc_self_ordinal ctx'))"
    and san: "expect_client_san t' = Some (hop_san (tc_tunnel_id ctx) (uint (tc_self_ordinal ctx)))"
    using n(1) n'(2) \<open>tc_self_ordinal ctx' \<noteq> 0\<close> by (simp_all add: hop_name_san next_ord assms(6))
  have kind: "(\<exists>a b. t = Tls_Transport a b) \<and> (\<exists>a b. t' = Tls_Transport a b) \<or> (\<exists>a b. t = Wss_Transport a b) \<and> (\<exists>a b. t' = Wss_Transport a b)"
    using n(3) n'(3) assms(4) by auto
  have "handshake_ok webpki clock t \<lparr>hf_root = ca, hf_server = s, hf_client = c\<rparr> clock' t' \<lparr>hf_root = ca, hf_server = s', hf_client = c'\<rparr>"
    if i: "issue_tunnel_hop_certs made ca issued (tc_tunnel_id ctx) (uint (tc_self_ordinal ctx)) = Some (s, c)"
      "issue_tunnel_hop_certs made' ca issued' (tc_tunnel_id ctx') (uint (tc_self_ordinal ctx')) = Some (s', c')"
      and v: "fst issued' - DAY \<le> clock" "clock \<le> fst issued' + 30 * DAY" "snd issued - DAY \<le> clock'" "clock' \<le> snd issued + 30 * DAY"
    for made made' issued issued' s c s' c' clock clock'
  proof -
    have "dial_accepts webpki ca clock t s'" "listen_accepts webpki ca clock' t' c"
      using assms(1,5) t' issued_pair [OF i(1)] issued_pair [OF i(2)] v sni san
      by (simp_all add: dial_accepts_def listen_accepts_def verify_client_san_def chain_laws_def)
    with kind show ?thesis by (auto simp: handshake_ok_def)
  qed
  moreover have "who = Hop_Client (tc_tunnel_id ctx) (uint (tc_self_ordinal ctx))"
    if "panel_issued ca public_host who cert" "listen_accepts webpki ca clock t' cert" for who cert clock
    using listen_only_previous [OF assms(1) that san] .
  moreover have "who = Hop_Server (tc_tunnel_id ctx') (uint (tc_self_ordinal ctx'))"
    if "panel_issued ca public_host who cert" "dial_accepts webpki ca clock t cert" for who cert clock
    using dial_only_next [OF assms(1) that sni] assms(8) by blast
  ultimately show ?thesis by blast
qed

definition leaf_check :: webpki where
  "leaf_check anchor now u c = (ct_signer c = anchor \<and> ct_not_before c \<le> now \<and> now \<le> ct_not_after c \<and> ct_usage c = u)"

definition ctx0 :: "u32 \<Rightarrow> tunnel_context" where
  "ctx0 k = \<lparr>tc_tunnel_id = 4, tc_role = 2, tc_next_hop_addr = [], tc_next_hop_inter_port = 0,
     tc_self_inter_port = 0, tc_transport = ''tls'', tc_self_ordinal = k\<rparr>"

definition env_tls :: env where
  "env_tls = \<lparr>ev_now = 0, ev_bind = (\<lambda>_ _ _. True), ev_credentials = (\<lambda>_ _. True)\<rparr>"

definition hop_leaf :: "int \<Rightarrow> int \<Rightarrow> cert_usage \<Rightarrow> certificate" where
  "hop_leaf tid k u = \<lparr>ct_names = [hop_san tid k], ct_usage = u, ct_is_ca = False, ct_signer = 7,
     ct_not_before = - DAY, ct_not_after = 30 * DAY\<rparr>"

lemma hop_leaves: "issue_tunnel_hop_certs (True, True) 7 (0, 0) tid k = Some (hop_leaf tid k Server_Auth, hop_leaf tid k Client_Auth)"
  by (simp add: issue_tunnel_hop_certs_def issue_tunnel_leaf_def hop_leaf_def TUNNEL_CERT_VALIDITY_DAYS_def)

text \<open>Hops 1 and 2 of tunnel 4 accept each other; hop 2 refuses hop 1 of tunnel 5.\<close>

lemma adjacent_hops_authenticate_witness:
  "handshake_ok leaf_check 100 (Tls_Transport (hop_name 4 2) (Some (hop_name 4 0)))
       \<lparr>hf_root = 7, hf_server = hop_leaf 4 1 Server_Auth, hf_client = hop_leaf 4 1 Client_Auth\<rparr>
     200 (Tls_Transport (hop_name 4 3) (Some (hop_name 4 1)))
       \<lparr>hf_root = 7, hf_server = hop_leaf 4 2 Server_Auth, hf_client = hop_leaf 4 2 Client_Auth\<rparr>
   \<and> \<not> listen_accepts leaf_check 7 200 (Tls_Transport (hop_name 4 3) (Some (hop_name 4 1))) (hop_leaf 5 1 Client_Auth)"
proof -
  have laws: "chain_laws leaf_check"
    by (simp add: chain_laws_def leaf_check_def)
  have t: "make_transport env_tls (ctx0 1) = Inr (Tls_Transport (hop_name 4 2) (Some (hop_name 4 0)))"
    "make_transport env_tls (ctx0 2) = Inr (Tls_Transport (hop_name 4 3) (Some (hop_name 4 1)))"
    by (simp_all add: make_transport_def load_tls_def ctx0_def env_tls_def)
  have c: "tc_transport (ctx0 2) = tc_transport (ctx0 1)" "tc_tunnel_id (ctx0 2) = tc_tunnel_id (ctx0 1)"
    "uint (tc_self_ordinal (ctx0 2)) = uint (tc_self_ordinal (ctx0 1)) + 1" "tc_tunnel_id (ctx0 1) = 4"
    "uint (tc_self_ordinal (ctx0 1)) = 1" "uint (tc_self_ordinal (ctx0 2)) = 2"
    by (simp_all add: ctx0_def)
  have n: "Tls_Transport (hop_name 4 2) (Some (hop_name 4 0)) \<noteq> Tcp_Transport" "\<forall>tid k. None \<noteq> Some (hop_san tid k)"
    by simp_all
  note both = adjacent_hops_authenticate [OF laws t c(1) n(1) c(2,3) n(2), of 7, unfolded c(2,4-6)]
  have other: "panel_issued 7 None (Hop_Client 5 1) (hop_leaf 5 1 Client_Auth)"
    using hop_leaves by (rule panel_issued.hop_client)
  have "\<not> listen_accepts leaf_check 7 200 (Tls_Transport (hop_name 4 3) (Some (hop_name 4 1))) (hop_leaf 5 1 Client_Auth)"
    using both other by fastforce
  moreover have "handshake_ok leaf_check 100 (Tls_Transport (hop_name 4 2) (Some (hop_name 4 0)))
       \<lparr>hf_root = 7, hf_server = hop_leaf 4 1 Server_Auth, hf_client = hop_leaf 4 1 Client_Auth\<rparr>
     200 (Tls_Transport (hop_name 4 3) (Some (hop_name 4 1)))
       \<lparr>hf_root = 7, hf_server = hop_leaf 4 2 Server_Auth, hf_client = hop_leaf 4 2 Client_Auth\<rparr>"
    by (rule both [THEN conjunct1, rule_format, of "(True, True)" "(0, 0)" _ _ "(True, True)" "(0, 0)"])
      (simp add: hop_leaves DAY_def)
  ultimately show ?thesis by blast
qed

end
