(* ===== verification/Panel_Db.thy ===== *)
theory Panel_Db
  imports Prelude Complex_Main
begin

text \<open>
  The database of the panel (migrations/, models/rule.rs, models/tunnel.rs, models/node.rs,
  models/user.rs, models/grant.rs, models/settings.rs): tables are lists of rows in the order of
  insertion, the queries of the models are functions on them, with the uniqueness, check and
  foreign key constraints of the schema. A \<^verbatim>\<open>deleted_at\<close> column is a flag; a time is a number
  of seconds, since the textual form of the schema orders the same way; the columns
  \<^verbatim>\<open>created_at\<close> and \<^verbatim>\<open>updated_at\<close> are kept for nodes, where users see them, and the first for
  tunnels, where a sweep reads it; elsewhere no decision reads them and they are left out.

  \<open>dr_bandwidth_mbps\<close> is the derived column of the rule queries: what a stored row holds there
  is ignored, and every query fills it from the profile.
\<close>

section \<open>Rows\<close>

record db_rule =
  dr_id :: int
  dr_user_id :: int
  dr_node_id :: int
  dr_name :: string
  dr_protocol :: string
  dr_listen_ip :: string
  dr_listen_port :: int
  dr_target_host :: string
  dr_target_port :: int
  dr_enabled :: int
  dr_rx :: int
  dr_tx :: int
  dr_conn :: int
  dr_profile_id :: "int option"
  dr_bandwidth_mbps :: "int option"
  dr_tunnel_id :: "int option"
  dr_max_connections :: "int option"
  dr_extra_targets :: "string option"
  dr_lb_strategy :: string
  dr_send_proxy :: int
  dr_remote_af :: string
  dr_deleted :: bool

record node_row =
  nd_id :: int
  nd_name :: string
  nd_region :: string
  nd_public_ip :: string
  nd_display_address :: string
  nd_grpc_endpoint :: string
  nd_token_hash :: string
  nd_cert_serial :: "string option"
  nd_cert_fingerprint :: "string option"
  nd_status :: string
  nd_last_seen :: "int option"
  nd_cpu_usage :: rat
  nd_memory_usage :: rat
  nd_load_average :: rat
  nd_rx_total :: int
  nd_tx_total :: int
  nd_pool_min :: int
  nd_pool_max :: int
  nd_agent_version :: string
  nd_block_protocols :: int
  nd_has_ipv4 :: "int option"
  nd_has_ipv6 :: "int option"
  nd_created_at :: int
  nd_updated_at :: int
  nd_deleted :: bool

record user_row =
  us_id :: int
  us_username :: string
  us_password_hash :: string
  us_role :: string
  us_expires_at :: "int option"
  us_limit_30d :: "int option"
  us_used_cached :: int
  us_calculated_at :: "int option"
  us_must_change :: int
  us_reset_day :: "int option"
  us_rules_quota :: "int option"
  us_deleted :: bool

record profile_row =
  bp_id :: int
  bp_name :: string
  bp_mbps :: int
  bp_description :: string
  bp_deleted :: bool

record tunnel_row =
  tu_id :: int
  tu_name :: string
  tu_transport :: string
  tu_status :: string
  tu_ratio :: rat
  tu_billing_mode :: int
  tu_created_at :: int
  tu_rotated_at :: "int option"
  tu_deleted :: bool

record hop_row =
  hp_tunnel_id :: int
  hp_ordinal :: int
  hp_node_id :: int
  hp_inter_port :: "int option"

record rule_stat_row =
  rs_rule_id :: int
  rs_bucket_at :: int
  rs_rx :: int
  rs_tx :: int
  rs_conn :: int
  rs_err :: int

record node_stat_row =
  ns_node_id :: int
  ns_bucket_at :: int
  ns_cpu_usage :: rat
  ns_memory_usage :: rat
  ns_load_average :: rat
  ns_rx :: int
  ns_tx :: int

record audit_row =
  au_actor :: "int option"
  au_ip :: "string option"
  au_action :: string
  au_target_type :: "string option"
  au_target_id :: "int option"
  au_payload :: "string option"
  au_result :: string
  au_error :: "string option"

record panel_db =
  db_rules :: "db_rule list"
  db_next_rule :: int
  db_nodes :: "node_row list"
  db_next_node :: int
  db_users :: "user_row list"
  db_next_user :: int
  db_profiles :: "profile_row list"
  db_next_profile :: int
  db_tunnels :: "tunnel_row list"
  db_next_tunnel :: int
  db_hops :: "hop_row list"
  db_node_grants :: "(int \<times> int) list"
  db_tunnel_grants :: "(int \<times> int \<times> int option) list"
  db_rule_stats :: "rule_stat_row list"
  db_node_stats :: "node_stat_row list"
  db_settings :: "(string \<times> string) list"
  db_audit :: "audit_row list"
  db_now :: int

text \<open>What a statement may be refused for; the unique index on the ports of hops is told apart by its name.\<close>

datatype sql_error = Unique_Violation | Unique_Port_Violation | Check_Violation | Foreign_Key_Violation | Sql_Failed

section \<open>Queries on rules\<close>

definition mbps_of :: "panel_db \<Rightarrow> int option \<Rightarrow> int option" where
  "mbps_of db pid = (case pid of None \<Rightarrow> None
     | Some p \<Rightarrow> map_option bp_mbps (find (\<lambda>b. bp_id b = p \<and> \<not> bp_deleted b) (db_profiles db)))"

definition select_rule :: "panel_db \<Rightarrow> db_rule \<Rightarrow> db_rule" where
  "select_rule db r = r\<lparr>dr_bandwidth_mbps := mbps_of db (dr_profile_id r)\<rparr>"

definition live_rules :: "panel_db \<Rightarrow> db_rule list" where
  "live_rules db = filter (\<lambda>r. \<not> dr_deleted r) (db_rules db)"

definition find_rule :: "panel_db \<Rightarrow> int \<Rightarrow> db_rule option" where
  "find_rule db i = map_option (select_rule db) (find (\<lambda>r. dr_id r = i \<and> \<not> dr_deleted r) (db_rules db))"

definition list_active_for_node :: "panel_db \<Rightarrow> int \<Rightarrow> db_rule list" where
  "list_active_for_node db n =
     map (select_rule db) (sort_key dr_id (filter (\<lambda>r. dr_node_id r = n \<and> \<not> dr_deleted r) (db_rules db)))"

definition list_active_for_tunnel :: "panel_db \<Rightarrow> int \<Rightarrow> db_rule list" where
  "list_active_for_tunnel db t =
     map (select_rule db)
       (sort_key dr_id (filter (\<lambda>r. dr_tunnel_id r = Some t \<and> \<not> dr_deleted r) (db_rules db)))"

text \<open>The unique index \<^verbatim>\<open>idx_forward_rules_binding_active\<close>.\<close>

definition same_binding :: "db_rule \<Rightarrow> db_rule \<Rightarrow> bool" where
  "same_binding a b =
     (dr_node_id a = dr_node_id b \<and> dr_protocol a = dr_protocol b \<and> dr_listen_ip a = dr_listen_ip b
      \<and> dr_listen_port a = dr_listen_port b)"

definition rule_checks :: "db_rule \<Rightarrow> bool" where
  "rule_checks r =
     (dr_protocol r \<in> set [''tcp'', ''udp'', ''tcp_udp''] \<and> 1 \<le> dr_listen_port r \<and> dr_listen_port r \<le> 65535
      \<and> 1 \<le> dr_target_port r \<and> dr_target_port r \<le> 65535 \<and> dr_enabled r \<in> set [0, 1])"

text \<open>The constraints on a new or changed row, against the other rows.\<close>

definition rule_constraints :: "panel_db \<Rightarrow> db_rule \<Rightarrow> sql_error option" where
  "rule_constraints db r =
     (if \<not> rule_checks r then Some Check_Violation
      else if list_ex (\<lambda>x. dr_id x \<noteq> dr_id r \<and> \<not> dr_deleted x \<and> same_binding x r) (db_rules db)
        then Some Unique_Violation
      else if \<not> list_ex (\<lambda>u. us_id u = dr_user_id r) (db_users db)
           \<or> \<not> list_ex (\<lambda>n. nd_id n = dr_node_id r) (db_nodes db) then Some Foreign_Key_Violation
      else None)"

text \<open>\<^verbatim>\<open>Rule::create\<close>: the columns it does not name take the defaults of the schema.\<close>

definition insert_rule ::
    "int \<Rightarrow> int \<Rightarrow> string \<Rightarrow> string \<Rightarrow> string \<Rightarrow> int \<Rightarrow> string \<Rightarrow> int \<Rightarrow> int option \<Rightarrow> int option
     \<Rightarrow> int option \<Rightarrow> string \<Rightarrow> panel_db \<Rightarrow> (sql_error + int) \<times> panel_db" where
  "insert_rule user node name protocol ip port host tport profile tunnel maxc af db =
     (let r = \<lparr>dr_id = db_next_rule db, dr_user_id = user, dr_node_id = node, dr_name = name,
               dr_protocol = protocol, dr_listen_ip = ip, dr_listen_port = port,
               dr_target_host = host, dr_target_port = tport, dr_enabled = 1,
               dr_rx = 0, dr_tx = 0, dr_conn = 0, dr_profile_id = profile, dr_bandwidth_mbps = None,
               dr_tunnel_id = tunnel, dr_max_connections = maxc, dr_extra_targets = None,
               dr_lb_strategy = ''fifo'', dr_send_proxy = 0, dr_remote_af = af, dr_deleted = False\<rparr>
      in case rule_constraints db r of
           Some e \<Rightarrow> (Inl e, db)
         | None \<Rightarrow> (Inr (dr_id r), db\<lparr>db_rules := db_rules db @ [r], db_next_rule := dr_id r + 1\<rparr>))"

text \<open>\<^verbatim>\<open>UPDATE forward_rules SET ... WHERE id = ? AND deleted_at IS NULL\<close>: the number of rows.\<close>

definition change_rules :: "(db_rule \<Rightarrow> bool) \<Rightarrow> (db_rule \<Rightarrow> db_rule) \<Rightarrow> panel_db \<Rightarrow> panel_db" where
  "change_rules p f db = db\<lparr>db_rules := map (\<lambda>r. if p r then f r else r) (db_rules db)\<rparr>"

definition live_id :: "int \<Rightarrow> db_rule \<Rightarrow> bool" where
  "live_id i r = (dr_id r = i \<and> \<not> dr_deleted r)"

definition count_rules :: "(db_rule \<Rightarrow> bool) \<Rightarrow> panel_db \<Rightarrow> nat" where
  "count_rules p db = length (filter p (db_rules db))"

definition set_remote_af :: "int \<Rightarrow> string \<Rightarrow> panel_db \<Rightarrow> panel_db" where
  "set_remote_af i af = change_rules (live_id i) (\<lambda>r. r\<lparr>dr_remote_af := af\<rparr>)"

definition set_send_proxy_protocol :: "int \<Rightarrow> bool \<Rightarrow> panel_db \<Rightarrow> panel_db" where
  "set_send_proxy_protocol i on = change_rules (live_id i) (\<lambda>r. r\<lparr>dr_send_proxy := (if on then 1 else 0)\<rparr>)"

definition set_targets :: "int \<Rightarrow> string option \<Rightarrow> string \<Rightarrow> panel_db \<Rightarrow> panel_db" where
  "set_targets i extra strat =
     change_rules (live_id i) (\<lambda>r. r\<lparr>dr_extra_targets := extra, dr_lb_strategy := strat\<rparr>)"

definition set_enabled :: "int \<Rightarrow> bool \<Rightarrow> panel_db \<Rightarrow> nat \<times> panel_db" where
  "set_enabled i on db =
     (count_rules (live_id i) db, change_rules (live_id i) (\<lambda>r. r\<lparr>dr_enabled := (if on then 1 else 0)\<rparr>) db)"

definition soft_delete_rule :: "int \<Rightarrow> panel_db \<Rightarrow> nat \<times> panel_db" where
  "soft_delete_rule i db =
     (count_rules (live_id i) db, change_rules (live_id i) (\<lambda>r. r\<lparr>dr_deleted := True\<rparr>) db)"

text \<open>\<^verbatim>\<open>COALESCE(?, col)\<close>, and the columns that \<open>0\<close> clears.\<close>

definition coalesce :: "'a option \<Rightarrow> 'a \<Rightarrow> 'a" where
  "coalesce x old = (case x of None \<Rightarrow> old | Some v \<Rightarrow> v)"

definition clearable :: "int option \<Rightarrow> int option \<Rightarrow> int option" where
  "clearable x old = (case x of None \<Rightarrow> old | Some v \<Rightarrow> if v = 0 then None else Some v)"

definition patched ::
    "string option \<Rightarrow> string option \<Rightarrow> int option \<Rightarrow> string option \<Rightarrow> int option \<Rightarrow> int option \<Rightarrow> int option
     \<Rightarrow> db_rule \<Rightarrow> db_rule" where
  "patched name ip port host tport profile maxc r =
     r\<lparr>dr_name := coalesce name (dr_name r), dr_listen_ip := coalesce ip (dr_listen_ip r),
       dr_listen_port := coalesce port (dr_listen_port r), dr_target_host := coalesce host (dr_target_host r),
       dr_target_port := coalesce tport (dr_target_port r),
       dr_profile_id := clearable profile (dr_profile_id r),
       dr_max_connections := clearable maxc (dr_max_connections r)\<rparr>"

definition update_fields ::
    "int \<Rightarrow> string option \<Rightarrow> string option \<Rightarrow> int option \<Rightarrow> string option \<Rightarrow> int option \<Rightarrow> int option \<Rightarrow> int option
     \<Rightarrow> panel_db \<Rightarrow> (sql_error + nat) \<times> panel_db" where
  "update_fields i name ip port host tport profile maxc db =
     (let f = patched name ip port host tport profile maxc;
          bad = List.map_filter (\<lambda>r. rule_constraints db (f r)) (filter (live_id i) (db_rules db))
      in case bad of
           e # _ \<Rightarrow> (Inl e, db)
         | [] \<Rightarrow> (Inr (count_rules (live_id i) db), change_rules (live_id i) f db))"

section \<open>Queries on the other tables\<close>

definition find_node :: "panel_db \<Rightarrow> int \<Rightarrow> node_row option" where
  "find_node db i = find (\<lambda>n. nd_id n = i \<and> \<not> nd_deleted n) (db_nodes db)"

definition find_user :: "panel_db \<Rightarrow> int \<Rightarrow> user_row option" where
  "find_user db i = find (\<lambda>u. us_id u = i \<and> \<not> us_deleted u) (db_users db)"

definition find_profile :: "panel_db \<Rightarrow> int \<Rightarrow> profile_row option" where
  "find_profile db i = find (\<lambda>p. bp_id p = i \<and> \<not> bp_deleted p) (db_profiles db)"

definition find_tunnel :: "panel_db \<Rightarrow> int \<Rightarrow> tunnel_row option" where
  "find_tunnel db i = find (\<lambda>t. tu_id t = i \<and> \<not> tu_deleted t) (db_tunnels db)"

definition list_for_tunnel :: "panel_db \<Rightarrow> int \<Rightarrow> hop_row list" where
  "list_for_tunnel db t = sort_key hp_ordinal (filter (\<lambda>h. hp_tunnel_id h = t) (db_hops db))"

text \<open>The tunnels a node takes part in: \<^verbatim>\<open>SELECT DISTINCT t.id ... ORDER BY t.id\<close>.\<close>

definition list_tunnel_ids_for_node :: "panel_db \<Rightarrow> int \<Rightarrow> int list" where
  "list_tunnel_ids_for_node db n =
     sort_dedup (map hp_tunnel_id
       (filter (\<lambda>h. hp_node_id h = n \<and> list_ex (\<lambda>t. tu_id t = hp_tunnel_id h \<and> \<not> tu_deleted t) (db_tunnels db))
         (db_hops db)))"

definition find_hop_for_node :: "panel_db \<Rightarrow> int \<Rightarrow> int \<Rightarrow> hop_row option" where
  "find_hop_for_node db t n = find (\<lambda>h. hp_tunnel_id h = t \<and> hp_node_id h = n) (db_hops db)"

definition node_granted :: "panel_db \<Rightarrow> int \<Rightarrow> int \<Rightarrow> bool" where
  "node_granted db u n = list_ex (\<lambda>g. g = (u, n)) (db_node_grants db)"

definition tunnel_granted :: "panel_db \<Rightarrow> int \<Rightarrow> int \<Rightarrow> bool" where
  "tunnel_granted db u t = list_ex (\<lambda>(u', t', _). u' = u \<and> t' = t) (db_tunnel_grants db)"

definition tunnel_grant_num :: "panel_db \<Rightarrow> int \<Rightarrow> int \<Rightarrow> int option" where
  "tunnel_grant_num db u t =
     (case find (\<lambda>(u', t', _). u' = u \<and> t' = t) (db_tunnel_grants db) of
        None \<Rightarrow> None | Some (_, _, n) \<Rightarrow> n)"

text \<open>
  The reserved ports: a missing row, an unreadable value and a failed read all give the default
  list. Reading the JSON array is an argument.
\<close>

definition DEFAULT_RESERVED_PORTS :: "int list" where
  "DEFAULT_RESERVED_PORTS = [22, 80, 443, 3306, 5432]"

definition reserved_ports :: "(string \<Rightarrow> int list option) \<Rightarrow> bool \<Rightarrow> panel_db \<Rightarrow> int list" where
  "reserved_ports decode failed db =
     (if failed then DEFAULT_RESERVED_PORTS
      else case map_of (db_settings db) ''reserved_ports'' of
             None \<Rightarrow> DEFAULT_RESERVED_PORTS
           | Some v \<Rightarrow> (case decode v of None \<Rightarrow> DEFAULT_RESERVED_PORTS | Some ps \<Rightarrow> ps))"

text \<open>The active inter-hop ports of tunnels on a node.\<close>

definition tunnel_ports :: "panel_db \<Rightarrow> int \<Rightarrow> int list" where
  "tunnel_ports db n =
     List.map_filter hp_inter_port
       (filter (\<lambda>h. hp_node_id h = n \<and> list_ex (\<lambda>t. tu_id t = hp_tunnel_id h \<and> \<not> tu_deleted t) (db_tunnels db))
         (db_hops db))"

section \<open>Facts about the queries\<close>

text \<open>Rule ids are the primary key.\<close>

definition rules_wf :: "panel_db \<Rightarrow> bool" where
  "rules_wf db = (distinct (map dr_id (db_rules db)) \<and> (\<forall>r \<in> set (db_rules db). dr_id r < db_next_rule db))"

named_theorems row_simps \<open>what a query or a statement keeps of a row or a table\<close>

lemma select_rule_simps [row_simps, simp]:
  "dr_id (select_rule db r) = dr_id r" "dr_node_id (select_rule db r) = dr_node_id r"
  "dr_user_id (select_rule db r) = dr_user_id r" "dr_tunnel_id (select_rule db r) = dr_tunnel_id r"
  "dr_enabled (select_rule db r) = dr_enabled r" "dr_protocol (select_rule db r) = dr_protocol r"
  "dr_listen_ip (select_rule db r) = dr_listen_ip r" "dr_listen_port (select_rule db r) = dr_listen_port r"
  "dr_deleted (select_rule db r) = dr_deleted r" "dr_lb_strategy (select_rule db r) = dr_lb_strategy r"
  "dr_extra_targets (select_rule db r) = dr_extra_targets r" "dr_target_host (select_rule db r) = dr_target_host r"
  "dr_target_port (select_rule db r) = dr_target_port r" "dr_rx (select_rule db r) = dr_rx r"
  "dr_tx (select_rule db r) = dr_tx r" "dr_conn (select_rule db r) = dr_conn r"
  by (simp_all add: select_rule_def)

lemma patched_simps [row_simps, simp]:
  "dr_id (patched a b c d e f g r) = dr_id r" "dr_node_id (patched a b c d e f g r) = dr_node_id r"
  "dr_user_id (patched a b c d e f g r) = dr_user_id r" "dr_tunnel_id (patched a b c d e f g r) = dr_tunnel_id r"
  "dr_protocol (patched a b c d e f g r) = dr_protocol r" "dr_deleted (patched a b c d e f g r) = dr_deleted r"
  "dr_enabled (patched a b c d e f g r) = dr_enabled r"
  "dr_listen_ip (patched a b c d e f g r) = coalesce b (dr_listen_ip r)"
  "dr_listen_port (patched a b c d e f g r) = coalesce c (dr_listen_port r)"
  "dr_extra_targets (patched a b c d e f g r) = dr_extra_targets r"
  by (simp_all add: patched_def)

lemma find_SomeD: "find P xs = Some x \<Longrightarrow> x \<in> set xs \<and> P x"
  by (induction xs) (auto split: if_splits)

lemma find_ids:
  assumes "distinct (map f xs)" "x \<in> set xs"
  shows "find (\<lambda>y. f y = f x \<and> P y) xs = (if P x then Some x else None)"
  using assms
proof (induction xs)
  case Nil
  then show ?case by simp
next
  case (Cons a xs)
  show ?case
  proof (cases "a = x")
    case True
    with Cons.prems have "f x \<notin> f ` set xs" by simp
    then have "\<forall>y \<in> set xs. f y \<noteq> f x" by (metis image_eqI)
    then have "find (\<lambda>y. f y = f x \<and> P y) xs = None" by (auto simp: find_None_iff)
    with True show ?thesis by simp
  next
    case False
    with Cons have "f a \<noteq> f x" "x \<in> set xs" by auto
    with Cons show ?thesis by simp
  qed
qed

lemma find_rule_Some_iff:
  assumes "rules_wf db"
  shows "find_rule db i = Some r \<longleftrightarrow> (\<exists>x \<in> set (db_rules db). r = select_rule db x \<and> dr_id x = i \<and> \<not> dr_deleted x)"
proof
  assume "find_rule db i = Some r"
  then show "\<exists>x \<in> set (db_rules db). r = select_rule db x \<and> dr_id x = i \<and> \<not> dr_deleted x"
    by (auto simp: find_rule_def dest: find_SomeD)
next
  assume "\<exists>x \<in> set (db_rules db). r = select_rule db x \<and> dr_id x = i \<and> \<not> dr_deleted x"
  then show "find_rule db i = Some r"
    using assms find_ids [of dr_id "db_rules db" _ "\<lambda>y. \<not> dr_deleted y"]
    by (auto simp: find_rule_def rules_wf_def)
qed

lemma set_list_active_for_node:
  "set (list_active_for_node db n) =
     {select_rule db r |r. r \<in> set (db_rules db) \<and> dr_node_id r = n \<and> \<not> dr_deleted r}"
  by (auto simp: list_active_for_node_def)

lemma set_list_active_for_tunnel:
  "set (list_active_for_tunnel db t) =
     {select_rule db r |r. r \<in> set (db_rules db) \<and> dr_tunnel_id r = Some t \<and> \<not> dr_deleted r}"
  by (auto simp: list_active_for_tunnel_def)

lemma set_list_tunnel_ids_for_node:
  "set (list_tunnel_ids_for_node db n) =
     {hp_tunnel_id h |h. h \<in> set (db_hops db) \<and> hp_node_id h = n
        \<and> (\<exists>t \<in> set (db_tunnels db). tu_id t = hp_tunnel_id h \<and> \<not> tu_deleted t)}"
  by (auto simp: list_tunnel_ids_for_node_def list_ex_iff)

lemma set_list_for_tunnel: "set (list_for_tunnel db t) = {h \<in> set (db_hops db). hp_tunnel_id h = t}"
  by (auto simp: list_for_tunnel_def)

lemma change_rules_ids [row_simps, simp]:
  assumes "\<And>r. dr_id (f r) = dr_id r"
  shows "map dr_id (db_rules (change_rules p f db)) = map dr_id (db_rules db)"
  using assms by (simp add: change_rules_def)

lemma change_rules_frame [row_simps, simp]:
  "db_next_rule (change_rules p f db) = db_next_rule db" "db_nodes (change_rules p f db) = db_nodes db"
  "db_users (change_rules p f db) = db_users db" "db_tunnels (change_rules p f db) = db_tunnels db"
  "db_hops (change_rules p f db) = db_hops db" "db_profiles (change_rules p f db) = db_profiles db"
  "db_node_grants (change_rules p f db) = db_node_grants db"
  "db_tunnel_grants (change_rules p f db) = db_tunnel_grants db"
  "db_rule_stats (change_rules p f db) = db_rule_stats db" "db_now (change_rules p f db) = db_now db"
  "db_settings (change_rules p f db) = db_settings db" "db_audit (change_rules p f db) = db_audit db"
  by (simp_all add: change_rules_def)

lemma set_change_rules: "set (db_rules (change_rules p f db)) = (\<lambda>r. if p r then f r else r) ` set (db_rules db)"
  by (simp add: change_rules_def)

lemma rules_wf_change:
  assumes "rules_wf db" "\<And>r. dr_id (f r) = dr_id r"
  shows "rules_wf (change_rules p f db)"
  using assms by (auto simp: rules_wf_def set_change_rules)

lemma rules_wf_insert: "rules_wf db \<Longrightarrow> rules_wf (snd (insert_rule a b c d e f g h i j k l db))"
  by (auto simp: insert_rule_def Let_def rules_wf_def split: option.split)

end
