(* ===== verification/Tunnel_Split.thy ===== *)
theory Tunnel_Split
  imports Proto Panel_Db
begin

text \<open>
  grpc/commands.rs and grpc/tunnel_split.rs: the message for a rule of the database, and the
  messages for the hops of a tunnel. Reading the JSON array of the extra targets is the argument
  \<open>decode\<close>.
\<close>

section \<open>Messages for a rule\<close>

type_synonym target_decoder = "string \<Rightarrow> (string \<times> u32) list option"

definition parse_extra_targets :: "target_decoder \<Rightarrow> string option \<Rightarrow> target_endpoint list" where
  "parse_extra_targets decode json = (case json of
     None \<Rightarrow> []
   | Some s \<Rightarrow> (case decode s of
        None \<Rightarrow> []
      | Some v \<Rightarrow> map (\<lambda>(h, p). \<lparr>te_host = h, te_port = p\<rparr>) v))"

definition unwrap_or :: "'a \<Rightarrow> 'a option \<Rightarrow> 'a" where
  "unwrap_or d x = (case x of None \<Rightarrow> d | Some v \<Rightarrow> v)"

lemma unwrap_or_simps [simp]: "unwrap_or d None = d" "unwrap_or d (Some v) = v"
  by (simp_all add: unwrap_or_def)

definition rule_to_proto :: "target_decoder \<Rightarrow> db_rule \<Rightarrow> u32 \<Rightarrow> rule" where
  "rule_to_proto decode r blocked =
     \<lparr>r_id = dr_id r,
      r_protocol = dr_protocol r,
      r_listen_ip = dr_listen_ip r,
      r_listen_port = as_u32 (dr_listen_port r),
      r_target_host = dr_target_host r,
      r_target_port = as_u32 (dr_target_port r),
      r_enabled = (dr_enabled r \<noteq> 0),
      r_bandwidth_mbps = unwrap_or 0 (dr_bandwidth_mbps r),
      r_tunnel = None,
      r_max_connections = unwrap_or 0 (dr_max_connections r),
      r_blocked_protocols = blocked,
      r_extra_targets = parse_extra_targets decode (dr_extra_targets r),
      r_lb_strategy = dr_lb_strategy r,
      r_send_proxy_protocol = (dr_send_proxy r \<noteq> 0),
      r_remote_af = dr_remote_af r\<rparr>"

section \<open>Splitting a tunnel rule\<close>

record split_input =
  si_rule_id :: int
  si_protocol :: string
  si_listen_ip :: string
  si_listen_port :: u32
  si_target_host :: string
  si_target_port :: u32
  si_enabled :: bool
  si_bandwidth_mbps :: int
  si_max_connections :: int
  si_tunnel_id :: int
  si_transport :: string
  si_remote_af :: string

record hop_input =
  hi_node_id :: int
  hi_inter_port :: "int option"
  hi_addr :: string

definition hop_at :: "hop_input list \<Rightarrow> nat \<Rightarrow> hop_input option" where
  "hop_at hops i = (if i < length hops then Some (hops ! i) else None)"

definition split_role :: "nat \<Rightarrow> nat \<Rightarrow> tunnel_role" where
  "split_role n i = (if i = 0 then Role_Entry else if i = n - 1 then Role_Exit else Role_Mid)"

definition split_context :: "split_input \<Rightarrow> hop_input list \<Rightarrow> nat \<Rightarrow> hop_input \<Rightarrow> tunnel_context" where
  "split_context inp hops i hop =
     (let next = hop_at hops (Suc i) in
      \<lparr>tc_tunnel_id = si_tunnel_id inp,
       tc_role = role_number (split_role (length hops) i),
       tc_next_hop_addr = unwrap_or [] (map_option hi_addr next),
       tc_next_hop_inter_port = as_u32 (unwrap_or 0 (Option.bind next hi_inter_port)),
       tc_self_inter_port = as_u32 (unwrap_or 0 (hi_inter_port hop)),
       tc_transport = si_transport inp,
       tc_self_ordinal = of_nat i\<rparr>)"

definition split_part :: "split_input \<Rightarrow> hop_input list \<Rightarrow> nat \<Rightarrow> hop_input \<Rightarrow> rule" where
  "split_part inp hops i hop =
     \<lparr>r_id = si_rule_id inp,
      r_protocol = si_protocol inp,
      r_listen_ip = si_listen_ip inp,
      r_listen_port = si_listen_port inp,
      r_target_host = si_target_host inp,
      r_target_port = si_target_port inp,
      r_enabled = si_enabled inp,
      r_bandwidth_mbps = (if i = 0 then si_bandwidth_mbps inp else 0),
      r_tunnel = Some (split_context inp hops i hop),
      r_max_connections = (if i = 0 then si_max_connections inp else 0),
      r_blocked_protocols = 0,
      r_extra_targets = [],
      r_lb_strategy = [],
      r_send_proxy_protocol = False,
      r_remote_af = si_remote_af inp\<rparr>"

definition split_tunnel_rule :: "split_input \<Rightarrow> hop_input list \<Rightarrow> (int \<times> rule) list" where
  "split_tunnel_rule inp hops =
     map (\<lambda>(i, hop). (hi_node_id hop, split_part inp hops i hop)) (enumerate 0 hops)"

lemma length_split [simp]: "length (split_tunnel_rule inp hops) = length hops"
  by (simp add: split_tunnel_rule_def)

lemma split_nth:
  "k < length hops \<Longrightarrow> split_tunnel_rule inp hops ! k = (hi_node_id (hops ! k), split_part inp hops k (hops ! k))"
  by (simp add: split_tunnel_rule_def nth_enumerate_eq)

lemma split_nodes: "map fst (split_tunnel_rule inp hops) = map hi_node_id hops"
  by (rule nth_equalityI) (simp_all add: split_nth)

lemma split_ids: "q \<in> set (split_tunnel_rule inp hops) \<Longrightarrow> r_id (snd q) = si_rule_id inp"
  by (auto simp: split_tunnel_rule_def split_part_def)

lemma split_enabled: "q \<in> set (split_tunnel_rule inp hops) \<Longrightarrow> r_enabled (snd q) = si_enabled inp"
  by (auto simp: split_tunnel_rule_def split_part_def)

section \<open>Properties\<close>

text \<open>The parts of a tunnel rule fit together: there is one part per hop, on its node, with the
  entry first, the exit last and middle hops between; each hop dials the address and the port on
  which the next one listens, over the same transport and with consecutive positions; the
  business address and the target are those of the rule; and only the entry limits the bandwidth
  and the connections.\<close>

theorem split_chain:
  assumes "2 \<le> length hops" "k < length hops"
  shows "\<exists>p ctx. split_tunnel_rule inp hops ! k = (hi_node_id (hops ! k), p) \<and> r_tunnel p = Some ctx
    \<and> tc_role ctx = role_number (if k = 0 then Role_Entry else if k = length hops - 1 then Role_Exit else Role_Mid)
    \<and> tc_self_ordinal ctx = of_nat k
    \<and> (Suc k < length hops \<longrightarrow>
        (\<exists>p' ctx'. split_tunnel_rule inp hops ! Suc k = (hi_node_id (hops ! Suc k), p') \<and> r_tunnel p' = Some ctx'
          \<and> tc_next_hop_addr ctx = hi_addr (hops ! Suc k)
          \<and> tc_next_hop_inter_port ctx = tc_self_inter_port ctx'
          \<and> tc_transport ctx' = tc_transport ctx \<and> tc_tunnel_id ctx' = tc_tunnel_id ctx
          \<and> tc_self_ordinal ctx' = tc_self_ordinal ctx + 1))
    \<and> r_id p = si_rule_id inp \<and> r_listen_port p = si_listen_port inp \<and> r_target_host p = si_target_host inp
    \<and> r_target_port p = si_target_port inp
    \<and> (r_bandwidth_mbps p, r_max_connections p) = (if k = 0 then (si_bandwidth_mbps inp, si_max_connections inp) else (0, 0))"
  using assms
  by (auto simp: split_nth split_part_def split_context_def split_role_def hop_at_def Let_def)

definition sample_input :: split_input where
  "sample_input = \<lparr>si_rule_id = 5, si_protocol = ''tcp'', si_listen_ip = ''0.0.0.0'', si_listen_port = 8080,
     si_target_host = ''10.0.0.9'', si_target_port = 80, si_enabled = True, si_bandwidth_mbps = 10,
     si_max_connections = 3, si_tunnel_id = 1, si_transport = ''tls'', si_remote_af = ''auto''\<rparr>"

definition sample_hops :: "hop_input list" where
  "sample_hops = [\<lparr>hi_node_id = 1, hi_inter_port = None, hi_addr = ''a''\<rparr>,
     \<lparr>hi_node_id = 2, hi_inter_port = Some 20000, hi_addr = ''b''\<rparr>,
     \<lparr>hi_node_id = 3, hi_inter_port = Some 30000, hi_addr = ''c''\<rparr>]"

lemma split_chain_witness:
  "r_bandwidth_mbps (snd (split_tunnel_rule sample_input sample_hops ! 1)) = 0
   \<and> (\<exists>ctx. r_tunnel (snd (split_tunnel_rule sample_input sample_hops ! 1)) = Some ctx \<and> tc_next_hop_addr ctx = ''c'')"
  using split_chain [of sample_hops 1 sample_input] by (auto simp: sample_hops_def)

end
