(* ===== verification/Dispatcher.thy ===== *)
theory Dispatcher
  imports Proto
begin

text \<open>
  grpc/dispatcher.rs and the stream guard of grpc/service.rs: one bounded channel per online
  node, with a generation per subscription, and the per-node locks. A channel is a cell of the
  list \<open>dp_cells\<close>, whose index is its generation (the counter of the code counts the same
  subscriptions); the logs \<open>ch_sent\<close> and \<open>ch_received\<close> are what the two ends have seen.
\<close>

section \<open>Channels\<close>

definition CHANNEL_CAPACITY :: nat where "CHANNEL_CAPACITY = 1024"

record channel =
  ch_node :: int
  ch_queue :: "command list"
  ch_open :: bool
  ch_sent :: "command list"
  ch_received :: "command list"

record dispatcher =
  dp_channels :: "(int \<times> nat) list"
  dp_cells :: "channel list"

definition dispatcher_new :: dispatcher where
  "dispatcher_new = \<lparr>dp_channels = [], dp_cells = []\<rparr>"

definition subscribe :: "int \<Rightarrow> dispatcher \<Rightarrow> nat \<times> dispatcher" where
  "subscribe node d =
     (let g = length (dp_cells d) in
      (g, d\<lparr>dp_channels := hm_insert node g (dp_channels d),
            dp_cells := dp_cells d @ [\<lparr>ch_node = node, ch_queue = [], ch_open = True, ch_sent = [], ch_received = []\<rparr>]\<rparr>))"

text \<open>\<^verbatim>\<open>try_send\<close>: refused when the receiver is gone or the channel is full.\<close>

definition try_send_cell :: "nat \<Rightarrow> command \<Rightarrow> dispatcher \<Rightarrow> bool \<times> dispatcher" where
  "try_send_cell g c d =
     (if g < length (dp_cells d) \<and> ch_open (dp_cells d ! g) \<and> length (ch_queue (dp_cells d ! g)) < CHANNEL_CAPACITY
      then (True, d\<lparr>dp_cells := (dp_cells d)[g := (dp_cells d ! g)
                     \<lparr>ch_queue := ch_queue (dp_cells d ! g) @ [c], ch_sent := ch_sent (dp_cells d ! g) @ [c]\<rparr>]\<rparr>)
      else (False, d))"

definition dispatch :: "int \<Rightarrow> command \<Rightarrow> dispatcher \<Rightarrow> bool \<times> dispatcher" where
  "dispatch node c d = (case hm_get (dp_channels d) node of
     None \<Rightarrow> (False, d)
   | Some g \<Rightarrow> try_send_cell g c d)"

definition unsubscribe_if :: "int \<Rightarrow> nat \<Rightarrow> dispatcher \<Rightarrow> dispatcher" where
  "unsubscribe_if node g d = (case hm_get (dp_channels d) node of
     None \<Rightarrow> d
   | Some g' \<Rightarrow> if g' = g then d\<lparr>dp_channels := hm_remove node (dp_channels d)\<rparr> else d)"

text \<open>The end of a stream: the receiver closes and the guard unsubscribes its generation.\<close>

definition guard_drop :: "nat \<Rightarrow> dispatcher \<Rightarrow> dispatcher" where
  "guard_drop g d =
     (if g < length (dp_cells d)
      then unsubscribe_if (ch_node (dp_cells d ! g)) g
             (d\<lparr>dp_cells := (dp_cells d)[g := (dp_cells d ! g)\<lparr>ch_open := False\<rparr>]\<rparr>)
      else d)"

text \<open>The stream takes the next command.\<close>

definition recv :: "nat \<Rightarrow> dispatcher \<Rightarrow> dispatcher" where
  "recv g d =
     (if g < length (dp_cells d) \<and> ch_open (dp_cells d ! g)
      then (case ch_queue (dp_cells d ! g) of
              [] \<Rightarrow> d
            | c # q \<Rightarrow> d\<lparr>dp_cells := (dp_cells d)[g := (dp_cells d ! g)
                          \<lparr>ch_queue := q, ch_received := ch_received (dp_cells d ! g) @ [c]\<rparr>]\<rparr>)
      else d)"

text \<open>
  The replay sends on its own sender and waits for room: a full channel lets the stream take
  commands until there is room, so only a closed receiver refuses.
\<close>

definition send_await :: "nat \<Rightarrow> command \<Rightarrow> dispatcher \<Rightarrow> bool \<times> dispatcher" where
  "send_await g c d = try_send_cell g c
     (if g < length (dp_cells d) \<and> CHANNEL_CAPACITY \<le> length (ch_queue (dp_cells d ! g)) then recv g d else d)"

datatype dispatcher_event =
    Subscribe int | Dispatch int command | Guard_Drop nat | Recv nat | Send_Await nat command

fun dispatcher_step :: "dispatcher \<Rightarrow> dispatcher_event \<Rightarrow> dispatcher" where
  "dispatcher_step d (Subscribe n) = snd (subscribe n d)"
| "dispatcher_step d (Dispatch n c) = snd (dispatch n c d)"
| "dispatcher_step d (Guard_Drop g) = guard_drop g d"
| "dispatcher_step d (Recv g) = recv g d"
| "dispatcher_step d (Send_Await g c) = snd (send_await g c d)"

text \<open>
  A channel is a queue: what was received and what waits are what was sent, in order, and at
  most the capacity waits. The table names channels of the right node.
\<close>

definition channel_ok :: "channel \<Rightarrow> bool" where
  "channel_ok c = (ch_received c @ ch_queue c = ch_sent c \<and> length (ch_queue c) \<le> CHANNEL_CAPACITY)"

definition dispatcher_inv :: "dispatcher \<Rightarrow> bool" where
  "dispatcher_inv d =
     (hm_wf (dp_channels d) \<and> list_all channel_ok (dp_cells d)
      \<and> (\<forall>n g. hm_get (dp_channels d) n = Some g \<longrightarrow>
            g < length (dp_cells d) \<and> ch_node (dp_cells d ! g) = n \<and> ch_open (dp_cells d ! g)))"

lemma list_all_update: "list_all P xs \<Longrightarrow> P x \<Longrightarrow> list_all P (xs[i := x])"
  by (auto simp: list_all_iff dest!: set_update_subset_insert [THEN subsetD])

lemma channel_ok_nth: "dispatcher_inv d \<Longrightarrow> g < length (dp_cells d) \<Longrightarrow> channel_ok (dp_cells d ! g)"
  by (simp add: dispatcher_inv_def list_all_length)

lemma cell_update_inv:
  assumes "dispatcher_inv d" "g < length (dp_cells d)" "channel_ok c"
    "ch_node c = ch_node (dp_cells d ! g)" "ch_open c = ch_open (dp_cells d ! g)"
  shows "dispatcher_inv (d\<lparr>dp_cells := (dp_cells d)[g := c]\<rparr>)"
  using assms by (auto simp: dispatcher_inv_def nth_list_update intro!: list_all_update)

lemma try_send_cell_inv [keeps_inv]:
  assumes "dispatcher_inv d"
  shows "dispatcher_inv (snd (try_send_cell g c d))"
proof (cases "g < length (dp_cells d)")
  case True
  have "channel_ok (dp_cells d ! g)"
    using channel_ok_nth assms True by blast
  then show ?thesis
    using assms True by (auto simp: try_send_cell_def channel_ok_def intro!: cell_update_inv)
qed (simp add: assms try_send_cell_def)

lemma recv_inv [keeps_inv]:
  assumes "dispatcher_inv d"
  shows "dispatcher_inv (recv g d)"
proof (cases "g < length (dp_cells d)")
  case True
  have "channel_ok (dp_cells d ! g)"
    using channel_ok_nth assms True by blast
  then show ?thesis
    using assms True by (auto simp: recv_def channel_ok_def intro!: cell_update_inv split: list.split)
qed (simp add: assms recv_def)

lemma dispatch_inv [keeps_inv]: "dispatcher_inv d \<Longrightarrow> dispatcher_inv (snd (dispatch n c d))"
  by (simp add: dispatch_def keeps_inv split: option.split)

lemma send_await_inv [keeps_inv]: "dispatcher_inv d \<Longrightarrow> dispatcher_inv (snd (send_await g c d))"
  by (simp add: send_await_def keeps_inv)

lemma subscribe_inv [keeps_inv]: "dispatcher_inv d \<Longrightarrow> dispatcher_inv (snd (subscribe n d))"
  by (auto simp: dispatcher_inv_def subscribe_def Let_def channel_ok_def nth_append less_SucI)

lemma guard_drop_inv [keeps_inv]:
  assumes "dispatcher_inv d"
  shows "dispatcher_inv (guard_drop g d)"
proof (cases "g < length (dp_cells d)")
  case True
  let ?c = "(dp_cells d ! g)\<lparr>ch_open := False\<rparr>"
  have "channel_ok ?c"
    using channel_ok_nth [OF assms True] by (simp add: channel_ok_def)
  then have all: "list_all channel_ok ((dp_cells d)[g := ?c])"
    using assms by (auto simp: dispatcher_inv_def intro!: list_all_update)
  have tab: "hm_wf (dp_channels d)"
    "\<And>n g'. hm_get (dp_channels d) n = Some g' \<Longrightarrow>
       g' < length (dp_cells d) \<and> ch_node (dp_cells d ! g') = n \<and> ch_open (dp_cells d ! g')"
    using assms by (simp_all add: dispatcher_inv_def)
  let ?n = "ch_node (dp_cells d ! g)"
  show ?thesis
  proof (cases "hm_get (dp_channels d) ?n = Some g")
    case True
    then have "guard_drop g d = d\<lparr>dp_cells := (dp_cells d)[g := ?c], dp_channels := hm_remove ?n (dp_channels d)\<rparr>"
      using \<open>g < length (dp_cells d)\<close> by (simp add: guard_drop_def unsubscribe_if_def)
    moreover have "(dp_cells d)[g := ?c] ! g' = dp_cells d ! g'" if "n \<noteq> ?n" "hm_get (dp_channels d) n = Some g'" for n g'
      using tab(2) [OF that(2)] that(1) by (cases "g' = g") simp_all
    ultimately show ?thesis
      using all tab unfolding dispatcher_inv_def by (simp del: map_of_eq_Some_iff)
  next
    case False
    then have "guard_drop g d = d\<lparr>dp_cells := (dp_cells d)[g := ?c]\<rparr>"
      using \<open>g < length (dp_cells d)\<close> by (simp add: guard_drop_def unsubscribe_if_def split: option.split)
    moreover have "(dp_cells d)[g := ?c] ! g' = dp_cells d ! g'" if "hm_get (dp_channels d) n = Some g'" for n g'
      using tab(2) [OF that] that False by (cases "g' = g") auto
    ultimately show ?thesis
      using all tab unfolding dispatcher_inv_def by (simp del: map_of_eq_Some_iff)
  qed
qed (simp add: assms guard_drop_def)

lemma dispatcher_step_inv: "dispatcher_inv d \<Longrightarrow> dispatcher_inv (dispatcher_step d e)"
  by (cases e) (simp_all add: keeps_inv)

interpretation channels: invariant_machine dispatcher_step dispatcher_inv
  by unfold_locales (rule dispatcher_step_inv)

lemma dispatcher_new_inv: "dispatcher_inv dispatcher_new"
  by (simp add: dispatcher_inv_def dispatcher_new_def)

text \<open>Dispatching reaches a node whose current channel has room.\<close>

lemma dispatch_succeeds:
  assumes "dispatcher_inv d" "hm_get (dp_channels d) n = Some g"
    "length (ch_queue (dp_cells d ! g)) < CHANNEL_CAPACITY"
  shows "fst (dispatch n c d)
    \<and> ch_queue (dp_cells (snd (dispatch n c d)) ! g) = ch_queue (dp_cells d ! g) @ [c]"
  using assms by (auto simp: dispatch_def try_send_cell_def dispatcher_inv_def)

text \<open>Only a newer subscription or the end of its own stream takes a node's channel away.\<close>

lemma current_kept:
  assumes "hm_get (dp_channels d) n = Some g" "e \<noteq> Subscribe n" "e \<noteq> Guard_Drop g"
  shows "hm_get (dp_channels (dispatcher_step d e)) n = Some g"
  using assms
  by (cases e)
    (auto simp: subscribe_def Let_def dispatch_def try_send_cell_def guard_drop_def unsubscribe_if_def
      recv_def send_await_def split: option.split list.split)

lemma current_kept_run:
  assumes "hm_get (dp_channels d) n = Some g" "Subscribe n \<notin> set es" "Guard_Drop g \<notin> set es"
  shows "hm_get (dp_channels (foldl dispatcher_step d es)) n = Some g"
  using assms
proof (induction es arbitrary: d)
  case Nil
  then show ?case by simp
next
  case (Cons e es)
  then have "hm_get (dp_channels (dispatcher_step d e)) n = Some g"
    using current_kept [of d n g e] by auto
  with Cons show ?case by simp
qed

section \<open>Per-node locks\<close>

text \<open>
  \<^verbatim>\<open>lock_nodes\<close> sorts and deduplicates the nodes and takes the locks one after the other. A
  task is the locks it holds and the locks it still waits for; dropping the guards (or the
  future that waits) releases what it holds.
\<close>

type_synonym lock_task = "int list \<times> int list"

datatype lock_event = Lock_Call "int list" | Lock_Acquire nat | Guards_Drop nat

definition lock_free :: "int \<Rightarrow> lock_task list \<Rightarrow> bool" where
  "lock_free n ts = (\<not> list_ex (\<lambda>t. n \<in> set (fst t)) ts)"

fun lock_step :: "lock_task list \<Rightarrow> lock_event \<Rightarrow> lock_task list" where
  "lock_step ts (Lock_Call ids) = ts @ [([], sort_dedup ids)]"
| "lock_step ts (Lock_Acquire t) =
     (if t < length ts then
        (case ts ! t of
           (held, n # want) \<Rightarrow> if lock_free n ts then ts[t := (held @ [n], want)] else ts
         | (held, []) \<Rightarrow> ts)
      else ts)"
| "lock_step ts (Guards_Drop t) = (if t < length ts then ts[t := ([], [])] else ts)"

definition lock_inv :: "lock_task list \<Rightarrow> bool" where
  "lock_inv ts =
     ((\<forall>t < length ts. sorted_wrt (<) (fst (ts ! t) @ snd (ts ! t)))
      \<and> (\<forall>t < length ts. \<forall>u < length ts. t \<noteq> u \<longrightarrow> set (fst (ts ! t)) \<inter> set (fst (ts ! u)) = {}))"

lemma sort_dedup_strict: "sorted_wrt (<) (sort_dedup xs)"
  using sorted_sort_dedup [of xs] distinct_sort_dedup [of xs] by (simp add: strict_sorted_iff)

lemma lock_free_iff: "lock_free n ts \<longleftrightarrow> (\<forall>t < length ts. n \<notin> set (fst (ts ! t)))"
  by (auto simp: lock_free_def list_ex_length)

definition task_sorted :: "lock_task \<Rightarrow> bool" where
  "task_sorted t = sorted_wrt (<) (fst t @ snd t)"

definition exclusive :: "lock_task list \<Rightarrow> bool" where
  "exclusive ts = (\<forall>t < length ts. \<forall>u < length ts. t \<noteq> u \<longrightarrow> set (fst (ts ! t)) \<inter> set (fst (ts ! u)) = {})"

lemma lock_inv_alt: "lock_inv ts \<longleftrightarrow> (\<forall>t < length ts. task_sorted (ts ! t)) \<and> exclusive ts"
  by (simp add: lock_inv_def task_sorted_def exclusive_def)

lemma lock_inv_update:
  assumes "lock_inv ts" "t < length ts" "task_sorted x"
    "\<And>u. u < length ts \<Longrightarrow> u \<noteq> t \<Longrightarrow> set (fst x) \<inter> set (fst (ts ! u)) = {}"
  shows "lock_inv (ts[t := x])"
proof -
  have "exclusive (ts[t := x])"
    unfolding exclusive_def
  proof (intro allI impI)
    fix u v
    assume uv: "u < length (ts[t := x])" "v < length (ts[t := x])" "u \<noteq> v"
    have old: "set (fst (ts ! u)) \<inter> set (fst (ts ! v)) = {}"
      using assms(1) uv by (simp add: lock_inv_alt exclusive_def)
    show "set (fst (ts[t := x] ! u)) \<inter> set (fst (ts[t := x] ! v)) = {}"
    proof (cases "u = t")
      case True
      then show ?thesis using uv assms(2) assms(4) [of v] by (simp add: nth_list_update)
    next
      case False
      then show ?thesis using uv assms(2) assms(4) [of u] old by (cases "v = t") (auto simp: nth_list_update)
    qed
  qed
  moreover have "\<forall>u < length (ts[t := x]). task_sorted (ts[t := x] ! u)"
    using assms(1-3) by (simp add: lock_inv_alt nth_list_update)
  ultimately show ?thesis
    by (simp add: lock_inv_alt)
qed

lemma lock_inv_append: "lock_inv ts \<Longrightarrow> task_sorted x \<Longrightarrow> fst x = [] \<Longrightarrow> lock_inv (ts @ [x])"
  by (simp add: lock_inv_alt exclusive_def nth_append less_Suc_eq)

lemma lock_step_inv:
  assumes "lock_inv ts"
  shows "lock_inv (lock_step ts e)"
proof (cases e)
  case (Lock_Call ids)
  with assms show ?thesis
    by (simp add: lock_inv_append task_sorted_def sort_dedup_strict)
next
  case (Guards_Drop t)
  with assms show ?thesis
    by (simp add: lock_inv_update task_sorted_def)
next
  case (Lock_Acquire t)
  show ?thesis
  proof (cases "t < length ts \<and> (\<exists>held n want. ts ! t = (held, n # want) \<and> lock_free n ts)")
    case False
    then have "lock_step ts e = ts"
      using Lock_Acquire by (auto split: prod.split list.split)
    with assms show ?thesis by simp
  next
    case True
    then obtain held n want where t: "t < length ts" "ts ! t = (held, n # want)" "lock_free n ts"
      by blast
    have "task_sorted (ts ! t)"
      using assms t(1) by (simp add: lock_inv_alt)
    then have "task_sorted (held @ [n], want)"
      by (simp add: task_sorted_def t(2))
    moreover have "set (held @ [n]) \<inter> set (fst (ts ! u)) = {}" if "u < length ts" "u \<noteq> t" for u
    proof -
      have "set (fst (ts ! t)) \<inter> set (fst (ts ! u)) = {}"
        using assms that t(1) by (simp add: lock_inv_alt exclusive_def)
      with t that show ?thesis by (simp add: lock_free_iff)
    qed
    ultimately have "lock_inv (ts[t := (held @ [n], want)])"
      using assms t(1) by (intro lock_inv_update) simp_all
    with t Lock_Acquire show ?thesis by simp
  qed
qed

interpretation locks: invariant_machine lock_step lock_inv
  by unfold_locales (rule lock_step_inv)

text \<open>Among the waiting tasks, the one that waits for the largest node is not blocked by a waiting one.\<close>

lemma some_task_progresses:
  assumes inv: "lock_inv ts" and wait: "t0 < length ts" "snd (ts ! t0) \<noteq> []"
  shows "\<exists>t < length ts. (snd (ts ! t) \<noteq> [] \<and> lock_free (hd (snd (ts ! t))) ts)
           \<or> (snd (ts ! t) = [] \<and> fst (ts ! t) \<noteq> [])"
proof -
  let ?W = "{t. t < length ts \<and> snd (ts ! t) \<noteq> []}"
  let ?head = "\<lambda>t. hd (snd (ts ! t))"
  have "finite ?W" "?W \<noteq> {}"
    using wait by auto
  then have "Max (?head ` ?W) \<in> ?head ` ?W"
    by (intro Max_in) auto
  then obtain t where t: "t \<in> ?W" "?head t = Max (?head ` ?W)"
    by (metis (no_types, lifting) imageE)
  have max: "?head u \<le> ?head t" if "u \<in> ?W" for u
    unfolding t(2) using \<open>finite ?W\<close> that by (intro Max_ge) auto
  show ?thesis
  proof (cases "lock_free (?head t) ts")
    case True
    with t show ?thesis by blast
  next
    case False
    then obtain u where u: "u < length ts" "?head t \<in> set (fst (ts ! u))"
      by (auto simp: lock_free_iff)
    show ?thesis
    proof (cases "snd (ts ! u) = []")
      case True
      with u show ?thesis by (metis empty_iff list.set(1))
    next
      case waits: False
      have "sorted_wrt (<) (fst (ts ! u) @ snd (ts ! u))"
        using inv u(1) by (simp add: lock_inv_def)
      then have "?head t < ?head u"
        using u(2) waits by (auto simp: sorted_wrt_append)
      with max [of u] u(1) waits show ?thesis by simp
    qed
  qed
qed

section \<open>Properties\<close>

text \<open>A node that subscribes again stays reachable: whatever happens afterwards, the end of an
  older stream of the same node included, its commands go to the newest stream until that one
  ends or is replaced; and in every state each stream has received a prefix of what was sent to
  it, in order, with at most 1024 commands waiting.\<close>

theorem newest_stream_reachable:
  assumes "dispatcher_inv d" "subscribe n d = (g, d')"
    "Subscribe n \<notin> set es" "Guard_Drop g \<notin> set es"
  shows "let d'' = foldl dispatcher_step d' es in
    hm_get (dp_channels d'') n = Some g
    \<and> (length (ch_queue (dp_cells d'' ! g)) < CHANNEL_CAPACITY \<longrightarrow>
         fst (dispatch n c d'') \<and> ch_queue (dp_cells (snd (dispatch n c d'')) ! g) = ch_queue (dp_cells d'' ! g) @ [c])
    \<and> (\<forall>ch \<in> set (dp_cells d''). ch_received ch @ ch_queue ch = ch_sent ch \<and> length (ch_queue ch) \<le> 1024)"
proof -
  let ?d = "foldl dispatcher_step d' es"
  have d': "d' = snd (subscribe n d)" "hm_get (dp_channels d') n = Some g"
    using assms(2) by (auto simp: subscribe_def Let_def)
  have inv: "dispatcher_inv ?d"
    by (rule channels.run_inv) (simp add: d'(1) subscribe_inv [OF assms(1)])
  have cur: "hm_get (dp_channels ?d) n = Some g"
    by (rule current_kept_run [OF d'(2) assms(3,4)])
  have "\<forall>ch \<in> set (dp_cells ?d). channel_ok ch"
    using inv by (simp add: dispatcher_inv_def list_all_iff)
  with cur dispatch_succeeds [OF inv cur] show ?thesis
    by (simp add: Let_def channel_ok_def CHANNEL_CAPACITY_def)
qed

lemma newest_stream_reachable_witness:
  "hm_get (dp_channels (foldl dispatcher_step (snd (subscribe 7 (snd (subscribe 7 dispatcher_new)))) [Guard_Drop 0])) 7 = Some 1"
proof -
  have inv: "dispatcher_inv (snd (subscribe 7 dispatcher_new))"
    by (rule subscribe_inv) (rule dispatcher_new_inv)
  have "fst (subscribe 7 (snd (subscribe 7 dispatcher_new))) = 1"
    by (simp add: subscribe_def dispatcher_new_def Let_def)
  then have "subscribe 7 (snd (subscribe 7 dispatcher_new)) = (1, snd (subscribe 7 (snd (subscribe 7 dispatcher_new))))"
    by (metis prod.collapse)
  from newest_stream_reachable [OF inv this, of "[Guard_Drop 0]"] show ?thesis
    by (simp add: Let_def)
qed

text \<open>The per-node locks exclude each other and cannot deadlock: over any sequence of calls,
  acquisitions and releases, two tasks never hold the lock of the same node, and while a task
  waits there is always a task that can go on, by taking its next lock or, having all of its
  locks, by releasing them.\<close>

theorem lock_nodes_sound:
  "let ts = foldl lock_step [] es in
     (\<forall>t < length ts. \<forall>u < length ts. t \<noteq> u \<longrightarrow> set (fst (ts ! t)) \<inter> set (fst (ts ! u)) = {})
     \<and> ((\<exists>t < length ts. snd (ts ! t) \<noteq> []) \<longrightarrow>
          (\<exists>t < length ts. (snd (ts ! t) \<noteq> [] \<and> lock_free (hd (snd (ts ! t))) ts)
             \<or> (snd (ts ! t) = [] \<and> fst (ts ! t) \<noteq> [])))"
proof -
  let ?ts = "foldl lock_step [] es"
  have inv: "lock_inv ?ts"
    by (rule locks.run_inv) (simp add: lock_inv_def)
  have "(\<exists>t < length ?ts. snd (?ts ! t) \<noteq> []) \<Longrightarrow>
      \<exists>t < length ?ts. (snd (?ts ! t) \<noteq> [] \<and> lock_free (hd (snd (?ts ! t))) ?ts)
        \<or> (snd (?ts ! t) = [] \<and> fst (?ts ! t) \<noteq> [])"
    using some_task_progresses [OF inv] by blast
  with inv show ?thesis
    unfolding Let_def lock_inv_def by blast
qed

lemma lock_nodes_sound_witness:
  "let ts = foldl lock_step [] [Lock_Call [3, 1], Lock_Call [1, 3], Lock_Acquire 0, Lock_Acquire 1] in
     \<exists>t < length ts. (snd (ts ! t) \<noteq> [] \<and> lock_free (hd (snd (ts ! t))) ts) \<or> (snd (ts ! t) = [] \<and> fst (ts ! t) \<noteq> [])"
proof -
  let ?ts = "foldl lock_step [] [Lock_Call [3, 1], Lock_Call [1, 3], Lock_Acquire 0, Lock_Acquire 1]"
  have ts: "?ts = [([1], [3]), ([], [1, 3])]"
    by (simp add: sort_dedup_def lock_free_def)
  have "\<exists>t < length ?ts. snd (?ts ! t) \<noteq> []"
    unfolding ts by (intro exI [of _ 0]) simp
  then show ?thesis
    using lock_nodes_sound [of "[Lock_Call [3, 1], Lock_Call [1, 3], Lock_Acquire 0, Lock_Acquire 1]"]
    unfolding Let_def by blast
qed

end
