(* ===== verification/Tunnel_Dispatch.thy ===== *)
theory Tunnel_Dispatch
  imports Tunnel_Split Dispatcher
begin

text \<open>
  grpc/tunnel_dispatch.rs: sending the commands of a rule to its nodes, the credentials of a
  tunnel, and the commands that bring a node that connects up to date. A query that the database
  refuses is a name for which \<open>io\<close> holds; the certificates of a hop come from the argument
  \<open>issue\<close>, \<open>None\<close> when issuing fails.
\<close>

type_synonym query_faults = "string \<Rightarrow> bool"

record panel =
  pn_db :: panel_db
  pn_dispatcher :: dispatcher

record hop_certs =
  hc_server_cert :: string
  hc_server_key :: string
  hc_client_cert :: string
  hc_client_key :: string

type_synonym issuer = "int \<Rightarrow> int \<Rightarrow> hop_certs option"

record panel_env =
  pe_decode :: target_decoder
  pe_issue :: issuer
  pe_ca_pem :: string

text \<open>A query gives its value unless the database refuses it.\<close>

definition query :: "query_faults \<Rightarrow> string \<Rightarrow> 'a \<Rightarrow> sql_error + 'a" where
  "query io q v = (if io q then Inl Sql_Failed else Inr v)"

lemma query_ok [simp]: "\<not> io q \<Longrightarrow> query io q v = Inr v"
  by (simp add: query_def)

lemma query_eq_Inr [simp]: "query io q v = Inr w \<longleftrightarrow> \<not> io q \<and> w = v"
  by (auto simp: query_def)

section \<open>The parts of a rule\<close>

definition authoritative_rule_ids :: "command list \<Rightarrow> int list" where
  "authoritative_rule_ids cmds = sort_dedup (map r_id (applied_rules cmds))"

definition hop_input_of :: "panel_db \<Rightarrow> hop_row \<Rightarrow> hop_input" where
  "hop_input_of db h =
     \<lparr>hi_node_id = hp_node_id h, hi_inter_port = hp_inter_port h,
      hi_addr = unwrap_or [] (map_option nd_public_ip (find_node db (hp_node_id h)))\<rparr>"

definition split_input_of :: "db_rule \<Rightarrow> int \<Rightarrow> tunnel_row \<Rightarrow> split_input" where
  "split_input_of r tid t =
     \<lparr>si_rule_id = dr_id r, si_protocol = dr_protocol r, si_listen_ip = dr_listen_ip r,
      si_listen_port = as_u32 (dr_listen_port r), si_target_host = dr_target_host r,
      si_target_port = as_u32 (dr_target_port r), si_enabled = (dr_enabled r \<noteq> 0),
      si_bandwidth_mbps = unwrap_or 0 (dr_bandwidth_mbps r),
      si_max_connections = unwrap_or 0 (dr_max_connections r),
      si_tunnel_id = tid, si_transport = tu_transport t, si_remote_af = dr_remote_af r\<rparr>"

definition split_for :: "query_faults \<Rightarrow> panel_db \<Rightarrow> db_rule \<Rightarrow> int \<Rightarrow> sql_error + (int \<times> rule) list option" where
  "split_for io db r tid =
     bindR (query io ''find_tunnel'' (find_tunnel db tid)) (\<lambda>tunnel. case tunnel of
        None \<Rightarrow> Inr None
      | Some t \<Rightarrow>
          bindR (query io ''list_hops'' (list_for_tunnel db tid)) (\<lambda>hops.
            if hops = [] then Inr None
            else bindR (query io ''node_addr'' (map (hop_input_of db) hops)) (\<lambda>inputs.
              Inr (Some (split_tunnel_rule (split_input_of r tid t) inputs)))))"

definition node_block_protocols :: "query_faults \<Rightarrow> panel_db \<Rightarrow> int \<Rightarrow> sql_error + u32" where
  "node_block_protocols io db n =
     bindR (query io ''block_protocols'' (find_node db n))
       (\<lambda>row. Inr (as_u32 (max 0 (unwrap_or 0 (map_option nd_block_protocols row)))))"

definition tunnel_node_ids :: "query_faults \<Rightarrow> panel_db \<Rightarrow> int \<Rightarrow> sql_error + int list" where
  "tunnel_node_ids io db tid = query io ''tunnel_nodes'' (map hp_node_id (list_for_tunnel db tid))"

definition rule_target_nodes :: "query_faults \<Rightarrow> panel_db \<Rightarrow> db_rule \<Rightarrow> sql_error + int list" where
  "rule_target_nodes io db r = (case dr_tunnel_id r of
     Some tid \<Rightarrow> tunnel_node_ids io db tid
   | None \<Rightarrow> Inr [dr_node_id r])"

section \<open>Sending\<close>

text \<open>Sending a command to each of a list of nodes: which ones were reached.\<close>

fun dispatch_each :: "(int \<times> command) list \<Rightarrow> dispatcher \<Rightarrow> bool list \<times> dispatcher" where
  "dispatch_each [] d = ([], d)"
| "dispatch_each ((n, c) # ncs) d =
     (case dispatch n c d of (ok, d1) \<Rightarrow> (case dispatch_each ncs d1 of (oks, d2) \<Rightarrow> (ok # oks, d2)))"

definition send_each :: "(int \<times> command) list \<Rightarrow> panel \<Rightarrow> panel" where
  "send_each ncs p = p\<lparr>pn_dispatcher := snd (dispatch_each ncs (pn_dispatcher p))\<rparr>"

definition dispatch_rule_apply ::
    "panel_env \<Rightarrow> query_faults \<Rightarrow> db_rule \<Rightarrow> panel \<Rightarrow> (sql_error + unit) \<times> panel" where
  "dispatch_rule_apply pe io r p = (case dr_tunnel_id r of
     Some tid \<Rightarrow>
       (case split_for io (pn_db p) r tid of
          Inl e \<Rightarrow> (Inl e, p)
        | Inr (Some parts) \<Rightarrow> (Inr (), send_each (map (\<lambda>(n, q). (n, apply_command q)) parts) p)
        | Inr None \<Rightarrow> (Inr (), p))
   | None \<Rightarrow>
       (case node_block_protocols io (pn_db p) (dr_node_id r) of
          Inl e \<Rightarrow> (Inl e, p)
        | Inr blocked \<Rightarrow>
            (Inr (), send_each [(dr_node_id r, apply_command (rule_to_proto (pe_decode pe) r blocked))] p)))"

text \<open>
  Under the locks of the target nodes; when those cannot be read nothing is sent. An error of
  the sending is only logged. The argument is the row as the caller read it before the locks.
\<close>

definition dispatch_rule_apply_locked :: "panel_env \<Rightarrow> query_faults \<Rightarrow> db_rule \<Rightarrow> panel \<Rightarrow> panel" where
  "dispatch_rule_apply_locked pe io r p =
     (case rule_target_nodes io (pn_db p) r of
        Inl _ \<Rightarrow> p
      | Inr _ \<Rightarrow> snd (dispatch_rule_apply pe io r p))"

definition dispatch_rule_remove_to :: "int \<Rightarrow> int list \<Rightarrow> panel \<Rightarrow> bool \<times> panel" where
  "dispatch_rule_remove_to i nodes p =
     (case dispatch_each (map (\<lambda>n. (n, remove_command i)) nodes) (pn_dispatcher p) of
        (oks, d) \<Rightarrow> (list_all id oks, p\<lparr>pn_dispatcher := d\<rparr>))"

definition dispatch_rule_restart :: "query_faults \<Rightarrow> db_rule \<Rightarrow> panel \<Rightarrow> (sql_error + bool) \<times> panel" where
  "dispatch_rule_restart io r p =
     (case rule_target_nodes io (pn_db p) r of
        Inl e \<Rightarrow> (Inl e, p)
      | Inr nodes \<Rightarrow>
          (case dispatch_each (map (\<lambda>n. (n, restart_command (dr_id r))) nodes) (pn_dispatcher p) of
             (oks, d) \<Rightarrow> (Inr (list_ex id oks), p\<lparr>pn_dispatcher := d\<rparr>)))"

section \<open>Credentials\<close>

text \<open>\<^verbatim>\<open>ordinal as i32\<close>\<close>

definition as_i32 :: "int \<Rightarrow> int" where
  "as_i32 x = sint (word_of_int x :: 32 word)"

definition credentials_command :: "panel_env \<Rightarrow> int \<Rightarrow> int \<Rightarrow> command option" where
  "credentials_command pe tid ord = map_option (\<lambda>c.
     \<lparr>c_body = Some (Tunnel_Credentials
        \<lparr>cr_tunnel_id = tid, cr_ordinal = as_i32 ord,
         cr_server_cert_pem = hc_server_cert c, cr_server_key_pem = hc_server_key c,
         cr_client_cert_pem = hc_client_cert c, cr_client_key_pem = hc_client_key c,
         cr_ca_pem = pe_ca_pem pe\<rparr>)\<rparr>) (pe_issue pe tid ord)"

fun send_credentials :: "panel_env \<Rightarrow> int \<Rightarrow> hop_row list \<Rightarrow> panel \<Rightarrow> bool \<times> panel" where
  "send_credentials pe tid [] p = (True, p)"
| "send_credentials pe tid (h # hs) p = (case credentials_command pe tid (hp_ordinal h) of
     None \<Rightarrow> (False, p)
   | Some c \<Rightarrow> send_credentials pe tid hs (send_each [(hp_node_id h, c)] p))"

datatype dispatch_error = Dispatch_Sql sql_error | Issue_Failed

definition mark_rotated :: "int \<Rightarrow> panel \<Rightarrow> panel" where
  "mark_rotated tid p = p\<lparr>pn_db := (pn_db p)
     \<lparr>db_tunnels := map (\<lambda>t. if tu_id t = tid then t\<lparr>tu_rotated_at := Some (db_now (pn_db p))\<rparr> else t)
        (db_tunnels (pn_db p))\<rparr>\<rparr>"

definition dispatch_tunnel_credentials ::
    "panel_env \<Rightarrow> query_faults \<Rightarrow> tunnel_row \<Rightarrow> panel \<Rightarrow> (dispatch_error + unit) \<times> panel" where
  "dispatch_tunnel_credentials pe io t p =
     (if tu_transport t = ''tcp'' then (Inr (), p)
      else if io ''list_hops'' then (Inl (Dispatch_Sql Sql_Failed), p)
      else (case send_credentials pe (tu_id t) (list_for_tunnel (pn_db p) (tu_id t)) p of
              (False, p1) \<Rightarrow> (Inl Issue_Failed, p1)
            | (True, p1) \<Rightarrow>
                if io ''mark_rotated'' then (Inl (Dispatch_Sql Sql_Failed), p1)
                else (Inr (), mark_rotated (tu_id t) p1)))"

fun restart_each :: "query_faults \<Rightarrow> db_rule list \<Rightarrow> bool \<Rightarrow> panel \<Rightarrow> (dispatch_error + bool) \<times> panel" where
  "restart_each io [] any p = (Inr any, p)"
| "restart_each io (r # rs) any p = (case dispatch_rule_restart io r p of
     (Inl e, p1) \<Rightarrow> (Inl (Dispatch_Sql e), p1)
   | (Inr ok, p1) \<Rightarrow> restart_each io rs (any \<or> ok) p1)"

definition rotate_credentials_and_restart ::
    "panel_env \<Rightarrow> query_faults \<Rightarrow> tunnel_row \<Rightarrow> panel \<Rightarrow> (dispatch_error + bool) \<times> panel" where
  "rotate_credentials_and_restart pe io t p =
     (case dispatch_tunnel_credentials pe io t p of
        (Inl e, p1) \<Rightarrow> (Inl e, p1)
      | (Inr _, p1) \<Rightarrow>
          if io ''list_rules'' then (Inl (Dispatch_Sql Sql_Failed), p1)
          else restart_each io (list_active_for_tunnel (pn_db p1) (tu_id t)) False p1)"

definition dispatch_revoke_tunnel_credentials :: "int \<Rightarrow> int list \<Rightarrow> panel \<Rightarrow> panel" where
  "dispatch_revoke_tunnel_credentials tid nodes =
     send_each (map (\<lambda>n. (n, \<lparr>c_body = Some (Revoke_Tunnel_Credentials tid)\<rparr>)) nodes)"

section \<open>Bringing a node up to date\<close>

fun collectR :: "('a \<Rightarrow> 'e + 'b list) \<Rightarrow> 'a list \<Rightarrow> 'e + 'b list" where
  "collectR f [] = Inr []"
| "collectR f (x # xs) = bindR (f x) (\<lambda>ys. bindR (collectR f xs) (\<lambda>zs. Inr (ys @ zs)))"

text \<open>The share of a node in a rule of a tunnel.\<close>

definition node_share :: "query_faults \<Rightarrow> panel_db \<Rightarrow> int \<Rightarrow> int \<Rightarrow> db_rule \<Rightarrow> sql_error + command list" where
  "node_share io db n tid r =
     bindR (split_for io db r tid) (\<lambda>parts. case parts of
        None \<Rightarrow> Inr []
      | Some ps \<Rightarrow> Inr (map (\<lambda>(_, q). apply_command q) (filter (\<lambda>(nid, _). nid = n) ps)))"

definition node_credentials :: "panel_env \<Rightarrow> query_faults \<Rightarrow> panel_db \<Rightarrow> int \<Rightarrow> tunnel_row \<Rightarrow> sql_error + command list" where
  "node_credentials pe io db n t =
     (if tu_transport t = ''tcp'' then Inr []
      else bindR (query io ''find_hop'' (find_hop_for_node db (tu_id t) n)) (\<lambda>hop. case hop of
             None \<Rightarrow> Inr []
           | Some h \<Rightarrow> (case credentials_command pe (tu_id t) (hp_ordinal h) of
                          None \<Rightarrow> Inr [] | Some c \<Rightarrow> Inr [c])))"

definition tunnel_commands :: "panel_env \<Rightarrow> query_faults \<Rightarrow> panel_db \<Rightarrow> int \<Rightarrow> int \<Rightarrow> sql_error + command list" where
  "tunnel_commands pe io db n tid =
     bindR (query io ''find_tunnel'' (find_tunnel db tid)) (\<lambda>tunnel. case tunnel of
        None \<Rightarrow> Inr []
      | Some t \<Rightarrow>
          bindR (node_credentials pe io db n t) (\<lambda>creds.
          bindR (query io ''list_tunnel_rules'' (list_active_for_tunnel db tid)) (\<lambda>rules.
          bindR (collectR (node_share io db n tid) rules) (\<lambda>shares. Inr (creds @ shares)))))"

definition reconcile_commands_for_node ::
    "panel_env \<Rightarrow> query_faults \<Rightarrow> panel_db \<Rightarrow> int \<Rightarrow> sql_error + command list" where
  "reconcile_commands_for_node pe io db n =
     bindR (node_block_protocols io db n) (\<lambda>blocked.
     bindR (query io ''list_node_rules'' (list_active_for_node db n)) (\<lambda>rules.
     bindR (query io ''list_tunnels'' (list_tunnel_ids_for_node db n)) (\<lambda>tids.
     bindR (collectR (tunnel_commands pe io db n) tids) (\<lambda>cmds.
       Inr (map (\<lambda>r. apply_command (rule_to_proto (pe_decode pe) r blocked))
              (filter (\<lambda>r. dr_tunnel_id r = None) rules) @ cmds)))))"

text \<open>What the replay task of a new stream sends: nothing at all when a query failed.\<close>

definition replay_batch :: "panel_env \<Rightarrow> query_faults \<Rightarrow> panel_db \<Rightarrow> int \<Rightarrow> command list" where
  "replay_batch pe io db n = (case reconcile_commands_for_node pe io db n of
     Inl _ \<Rightarrow> []
   | Inr cmds \<Rightarrow> cmds @ [reconcile_command (authoritative_rule_ids cmds)])"

section \<open>What a node should run\<close>

text \<open>
  The specification: the message a node should have for a rule, read off the database. A rule
  of a tunnel goes to the nodes of its hops, any other rule to its own node.
\<close>

definition node_mask :: "panel_db \<Rightarrow> int \<Rightarrow> u32" where
  "node_mask db n = as_u32 (max 0 (unwrap_or 0 (map_option nd_block_protocols (find_node db n))))"

definition tunnel_parts :: "panel_db \<Rightarrow> db_rule \<Rightarrow> int \<Rightarrow> (int \<times> rule) list" where
  "tunnel_parts db r tid = (case find_tunnel db tid of
     None \<Rightarrow> []
   | Some t \<Rightarrow> split_tunnel_rule (split_input_of r tid t) (map (hop_input_of db) (list_for_tunnel db tid)))"

definition wanted :: "panel_env \<Rightarrow> panel_db \<Rightarrow> int \<Rightarrow> int \<Rightarrow> rule option" where
  "wanted pe db n i = (case find_rule db i of
     None \<Rightarrow> None
   | Some r \<Rightarrow> (case dr_tunnel_id r of
        None \<Rightarrow> if dr_node_id r = n then Some (rule_to_proto (pe_decode pe) r (node_mask db n)) else None
      | Some tid \<Rightarrow> map_of (tunnel_parts db r tid) n))"

text \<open>Every tunnel goes through a node at most once, as the creation of tunnels checks.\<close>

definition tunnels_wf :: "panel_db \<Rightarrow> bool" where
  "tunnels_wf db = (\<forall>t. distinct (map hp_node_id (list_for_tunnel db t)))"

lemma split_for_parts:
  assumes "split_for io db r tid = Inr x"
  shows "(case x of None \<Rightarrow> [] | Some ps \<Rightarrow> ps) = tunnel_parts db r tid"
  using assms
  by (auto simp: split_for_def tunnel_parts_def bindR_eq_Inr split_tunnel_rule_def split: option.splits if_splits)

lemma node_share_applied:
  assumes "node_share io db n tid r = Inr cs"
  shows "applied_rules cs = map snd (filter (\<lambda>(nid, _). nid = n) (tunnel_parts db r tid))"
    "\<forall>c \<in> set cs. \<exists>q. c = apply_command q"
proof -
  obtain x where x: "split_for io db r tid = Inr x"
    and cs: "cs = (case x of None \<Rightarrow> [] | Some ps \<Rightarrow> map (\<lambda>(_, q). apply_command q) (filter (\<lambda>(nid, _). nid = n) ps))"
    using assms by (auto simp: node_share_def bindR_eq_Inr split: option.splits)
  have e: "cs = map apply_command (map snd (filter (\<lambda>(nid, _). nid = n) (tunnel_parts db r tid)))"
    unfolding cs split_for_parts [OF x, symmetric] by (cases x) auto
  show "applied_rules cs = map snd (filter (\<lambda>(nid, _). nid = n) (tunnel_parts db r tid))"
    unfolding e by (rule applied_rules_apply)
  show "\<forall>c \<in> set cs. \<exists>q. c = apply_command q"
    unfolding e by auto
qed

lemma collectR_applied:
  assumes "collectR f xs = Inr cs" "\<And>x ys. x \<in> set xs \<Longrightarrow> f x = Inr ys \<Longrightarrow> applied_rules ys = g x"
  shows "applied_rules cs = concat (map g xs)"
  using assms
  by (induction xs arbitrary: cs) (auto simp: bindR_eq_Inr)

lemma collectR_all:
  assumes "collectR f xs = Inr cs" "\<And>x ys. x \<in> set xs \<Longrightarrow> f x = Inr ys \<Longrightarrow> \<forall>c \<in> set ys. P c"
  shows "\<forall>c \<in> set cs. P c"
  using assms
  by (induction xs arbitrary: cs) (fastforce simp: bindR_eq_Inr)+

text \<open>The rules of a tunnel on a node.\<close>

definition tunnel_node_rules :: "panel_db \<Rightarrow> int \<Rightarrow> int \<Rightarrow> rule list" where
  "tunnel_node_rules db n tid = (case find_tunnel db tid of
     None \<Rightarrow> []
   | Some _ \<Rightarrow> concat (map (\<lambda>r. map snd (filter (\<lambda>(nid, _). nid = n) (tunnel_parts db r tid)))
                 (list_active_for_tunnel db tid)))"

definition credentials :: "command \<Rightarrow> bool" where
  "credentials c = (case c_body c of Some (Tunnel_Credentials _) \<Rightarrow> True | _ \<Rightarrow> False)"

lemma credentials_command_body:
  "credentials_command pe t o1 = Some c \<Longrightarrow> credentials c \<and> applied_rule c = None"
  by (auto simp: credentials_command_def credentials_def applied_rule_def)

lemma node_credentials_shape:
  assumes "node_credentials pe io db n t = Inr creds"
  shows "applied_rules creds = [] \<and> (\<forall>c \<in> set creds. credentials c)"
proof -
  have "creds = [] \<or> (\<exists>o1 c. credentials_command pe (tu_id t) o1 = Some c \<and> creds = [c])"
    using assms by (auto simp: node_credentials_def bindR_eq_Inr split: if_splits option.splits)
  then show ?thesis
  proof (elim disjE exE conjE)
    assume "creds = []"
    then show ?thesis by simp
  next
    fix o1 c
    assume "credentials_command pe (tu_id t) o1 = Some c" "creds = [c]"
    then show ?thesis using credentials_command_body [of pe "tu_id t" o1 c] by simp
  qed
qed

lemma shares_applied:
  assumes "collectR (node_share io db n tid) rs = Inr shares"
  shows "applied_rules shares = concat (map (\<lambda>r. map snd (filter (\<lambda>(nid, _). nid = n) (tunnel_parts db r tid))) rs)"
    "\<forall>c \<in> set shares. \<exists>q. c = apply_command q"
proof -
  show "applied_rules shares = concat (map (\<lambda>r. map snd (filter (\<lambda>(nid, _). nid = n) (tunnel_parts db r tid))) rs)"
    by (rule collectR_applied [OF assms]) (rule node_share_applied(1))
  show "\<forall>c \<in> set shares. \<exists>q. c = apply_command q"
    by (rule collectR_all [OF assms]) (rule node_share_applied(2))
qed

lemma tunnel_commands_parts:
  assumes "tunnel_commands pe io db n tid = Inr cs" "find_tunnel db tid = Some t"
  shows "\<exists>creds shares. cs = creds @ shares \<and> node_credentials pe io db n t = Inr creds
    \<and> collectR (node_share io db n tid) (list_active_for_tunnel db tid) = Inr shares"
  using assms
  by (auto simp: tunnel_commands_def query_def bindR_def split: if_splits sum.splits)

lemma tunnel_commands_applied:
  assumes "tunnel_commands pe io db n tid = Inr cs"
  shows "applied_rules cs = tunnel_node_rules db n tid"
    "\<forall>c \<in> set cs. (\<exists>q. c = apply_command q) \<or> credentials c"
proof -
  have "applied_rules cs = tunnel_node_rules db n tid \<and> (\<forall>c \<in> set cs. (\<exists>q. c = apply_command q) \<or> credentials c)"
  proof (cases "find_tunnel db tid")
    case None
    with assms have "cs = []"
      by (simp add: tunnel_commands_def query_def bindR_def split: if_splits)
    with None show ?thesis
      by (simp add: tunnel_node_rules_def)
  next
    case (Some t)
    from tunnel_commands_parts [OF assms this] obtain creds shares where
      cs: "cs = creds @ shares" and cr: "node_credentials pe io db n t = Inr creds"
      and sh: "collectR (node_share io db n tid) (list_active_for_tunnel db tid) = Inr shares"
      by blast
    show ?thesis
      using node_credentials_shape [OF cr] shares_applied [OF sh] Some
      by (auto simp: cs tunnel_node_rules_def)
  qed
  then show "applied_rules cs = tunnel_node_rules db n tid"
    "\<forall>c \<in> set cs. (\<exists>q. c = apply_command q) \<or> credentials c"
    by blast+
qed

lemma reconcile_applied:
  assumes "reconcile_commands_for_node pe io db n = Inr cmds"
  shows "applied_rules cmds =
      map (\<lambda>r. rule_to_proto (pe_decode pe) r (node_mask db n))
        (filter (\<lambda>r. dr_tunnel_id r = None) (list_active_for_node db n))
      @ concat (map (tunnel_node_rules db n) (list_tunnel_ids_for_node db n))"
    "\<forall>c \<in> set cmds. (\<exists>q. c = apply_command q) \<or> credentials c"
proof -
  obtain ts where ts: "collectR (tunnel_commands pe io db n) (list_tunnel_ids_for_node db n) = Inr ts"
    and cmds: "cmds = map (\<lambda>r. apply_command (rule_to_proto (pe_decode pe) r (node_mask db n)))
      (filter (\<lambda>r. dr_tunnel_id r = None) (list_active_for_node db n)) @ ts"
    using assms by (auto simp: reconcile_commands_for_node_def bindR_eq_Inr node_block_protocols_def node_mask_def)
  have 1: "applied_rules ts = concat (map (tunnel_node_rules db n) (list_tunnel_ids_for_node db n))"
    by (rule collectR_applied [OF ts]) (rule tunnel_commands_applied(1))
  have 2: "\<forall>c \<in> set ts. (\<exists>q. c = apply_command q) \<or> credentials c"
    by (rule collectR_all [OF ts]) (rule tunnel_commands_applied(2))
  have 3: "applied_rules (map (\<lambda>r. apply_command (f r)) rs) = map f rs" for f :: "db_rule \<Rightarrow> rule" and rs
    by (induction rs) simp_all
  show "applied_rules cmds =
      map (\<lambda>r. rule_to_proto (pe_decode pe) r (node_mask db n))
        (filter (\<lambda>r. dr_tunnel_id r = None) (list_active_for_node db n))
      @ concat (map (tunnel_node_rules db n) (list_tunnel_ids_for_node db n))"
    unfolding cmds by (simp only: applied_rules_simps(3) 1 3)
  show "\<forall>c \<in> set cmds. (\<exists>q. c = apply_command q) \<or> credentials c"
    unfolding cmds using 2 by auto
qed

end
