(* ===== verification/Panel_Util.thy ===== *)
theory Panel_Util
  imports Relay_Net
begin

text \<open>
  \<^verbatim>\<open>panel-server/src/util.rs\<close>: validation of what a user may enter, the panel's check
  against internal targets, and the escaping of \<^verbatim>\<open>LIKE\<close> patterns. Strings are lists of
  ASCII characters. \<^verbatim>\<open>normalize_datetime\<close> rests on \<^verbatim>\<open>chrono\<close> and is not modelled.
\<close>

definition is_valid_ip :: "string \<Rightarrow> bool" where
  "is_valid_ip s = (parse_ip s \<noteq> None)"

text \<open>\<^verbatim>\<open>str::trim\<close> on ASCII text.\<close>

definition is_whitespace :: "char \<Rightarrow> bool" where
  "is_whitespace c = (let n = of_char c :: nat in 9 \<le> n \<and> n \<le> 13 \<or> n = 32)"

definition trim :: "string \<Rightarrow> string" where
  "trim s = rev (dropWhile is_whitespace (rev (dropWhile is_whitespace s)))"

text \<open>\<^verbatim>\<open>str::split(c)\<close>: always at least one segment.\<close>

fun split_on :: "char \<Rightarrow> string \<Rightarrow> string list" where
  "split_on c [] = [[]]"
| "split_on c (x # xs) =
     (if x = c then [] # split_on c xs
      else (case split_on c xs of [] \<Rightarrow> [[x]] | s # ss \<Rightarrow> (x # s) # ss))"

definition is_ascii_digit :: "char \<Rightarrow> bool" where
  "is_ascii_digit c = (let n = of_char c :: nat in 48 \<le> n \<and> n \<le> 57)"

text \<open>\<^verbatim>\<open>str::parse\<close> on a signed and an unsigned 64-bit integer.\<close>

definition digits_value :: "string \<Rightarrow> int option" where
  "digits_value s = (if s = [] \<or> \<not> list_all is_ascii_digit s then None
     else Some (foldl (\<lambda>n c. 10 * n + (of_char c - 48)) 0 s))"

definition within :: "int \<Rightarrow> int \<Rightarrow> int option \<Rightarrow> int option" where
  "within lo hi x = (case x of None \<Rightarrow> None | Some v \<Rightarrow> if lo \<le> v \<and> v \<le> hi then Some v else None)"

definition parse_u64 :: "string \<Rightarrow> int option" where
  "parse_u64 s = within 0 (2 ^ 64 - 1) (case s of c # t \<Rightarrow> if c = CHR ''+'' then digits_value t else digits_value s | [] \<Rightarrow> None)"

definition parse_i64 :: "string \<Rightarrow> int option" where
  "parse_i64 s = within (- (2 ^ 63)) (2 ^ 63 - 1) (case s of
       c # t \<Rightarrow> if c = CHR ''+'' then digits_value t else if c = CHR ''-'' then map_option uminus (digits_value t) else digits_value s
     | [] \<Rightarrow> None)"

definition is_ascii_alphanumeric :: "char \<Rightarrow> bool" where
  "is_ascii_alphanumeric c =
     (let n = of_char c :: nat in
      48 \<le> n \<and> n \<le> 57 \<or> 65 \<le> n \<and> n \<le> 90 \<or> 97 \<le> n \<and> n \<le> 122)"

definition segment_ok :: "string \<Rightarrow> bool" where
  "segment_ok seg =
     (seg \<noteq> [] \<and> length seg \<le> 63 \<and> hd seg \<noteq> CHR ''-'' \<and> last seg \<noteq> CHR ''-''
      \<and> list_all (\<lambda>c. is_ascii_alphanumeric c \<or> c = CHR ''-'') seg)"

definition is_valid_target_host :: "string \<Rightarrow> bool" where
  "is_valid_target_host host =
     (if host = [] \<or> 253 < length host then False
      else if parse_ip host \<noteq> None then True
      else (let segs = split_on CHR ''.'' host in
            list_all segment_ok segs \<and> \<not> list_all is_ascii_digit (last segs)))"

fun is_internal_v4 :: "ipv4 \<Rightarrow> bool" where
  "is_internal_v4 v4 =
     (v4_is_loopback v4 \<or> v4_is_private v4 \<or> v4_is_link_local v4 \<or> v4_is_unspecified v4)"

definition is_internal_target_ip :: "string \<Rightarrow> bool" where
  "is_internal_target_ip host = (case parse_ip host of
     Some (V4 v4) \<Rightarrow> is_internal_v4 v4
   | Some (V6 v6) \<Rightarrow>
       (case to_ipv4_mapped v6 of
          Some v4 \<Rightarrow> is_internal_v4 v4
        | None \<Rightarrow> v6_is_loopback v6 \<or> v6_is_unspecified v6
            \<or> g0 v6 AND 0xfe00 = 0xfc00 \<or> g0 v6 AND 0xffc0 = 0xfe80)
   | None \<Rightarrow> False)"

text \<open>
  \<^verbatim>\<open>escape_like\<close>: three replacements in a row; \<open>replace_char c\<close> is \<^verbatim>\<open>str::replace\<close> with a
  one-character pattern.
\<close>

definition replace_char :: "char \<Rightarrow> string \<Rightarrow> string \<Rightarrow> string" where
  "replace_char c r s = concat (map (\<lambda>x. if x = c then r else [x]) s)"

definition bs :: char where
  "bs = CHR 0x5C"

definition escape_like :: "string \<Rightarrow> string" where
  "escape_like s =
     replace_char CHR ''_'' [bs, CHR ''_'']
       (replace_char CHR ''%'' [bs, CHR ''%''] (replace_char bs [bs, bs] s))"

text \<open>
  SQLite's \<^verbatim>\<open>LIKE .. ESCAPE\<close> with the escape character \<open>bs\<close>: \<open>%\<close> matches any run, \<open>_\<close> one
  character, an escaped character itself; letters match in either case.
\<close>

fun like_match :: "string \<Rightarrow> string \<Rightarrow> bool" where
  "like_match [] t = (t = [])"
| "like_match (p # ps) [] = (p = CHR ''%'' \<and> like_match ps [])"
| "like_match (p # ps) (x # xs) =
     (if p = bs then (case ps of [] \<Rightarrow> False | q # qs \<Rightarrow> lower x = lower q \<and> like_match qs xs)
      else if p = CHR ''%'' then like_match ps (x # xs) \<or> like_match (p # ps) xs
      else if p = CHR ''_'' then like_match ps xs
      else lower x = lower p \<and> like_match ps xs)"

section \<open>Lemmas\<close>

lemma bs_neq [simp]: "bs \<noteq> CHR ''_''" "bs \<noteq> CHR ''%''" "CHR ''_'' \<noteq> bs" "CHR ''%'' \<noteq> bs"
  by (simp_all add: bs_def)

definition escape_char :: "char \<Rightarrow> string" where
  "escape_char x = (if x = bs \<or> x = CHR ''%'' \<or> x = CHR ''_'' then [bs, x] else [x])"

lemma replace_char_append: "replace_char c r (s @ t) = replace_char c r s @ replace_char c r t"
  by (simp add: replace_char_def)

lemma escape_like_append: "escape_like (s @ t) = escape_like s @ escape_like t"
  by (simp add: escape_like_def replace_char_append)

lemma escape_like_single: "escape_like [x] = escape_char x"
  by (auto simp: escape_like_def escape_char_def replace_char_def)

lemma escape_like_Cons: "escape_like (x # s) = escape_char x @ escape_like s"
  using escape_like_append [of "[x]" s] by (simp add: escape_like_single)

lemma escape_like_Nil [simp]: "escape_like [] = []"
  by (simp add: escape_like_def replace_char_def)

lemma like_match_escape_char:
  "like_match (escape_char c @ ps) t \<longleftrightarrow> (\<exists>x xs. t = x # xs \<and> lower x = lower c \<and> like_match ps xs)"
  by (cases t) (auto simp: escape_char_def)

lemma like_match_escaped_append:
  "like_match (escape_like s @ ps) t \<longleftrightarrow>
     (\<exists>m xs. t = m @ xs \<and> map lower m = map lower s \<and> like_match ps xs)"
proof (induction s arbitrary: t)
  case Nil
  then show ?case by simp
next
  case (Cons c s)
  have "like_match (escape_like (c # s) @ ps) t \<longleftrightarrow>
      (\<exists>x m xs. t = x # m @ xs \<and> lower x = lower c \<and> map lower m = map lower s \<and> like_match ps xs)"
    by (auto simp: escape_like_Cons like_match_escape_char Cons.IH)
  also have "\<dots> \<longleftrightarrow> (\<exists>m xs. t = m @ xs \<and> map lower m = map lower (c # s) \<and> like_match ps xs)"
    by (auto simp: map_eq_Cons_conv Cons_eq_append_conv) (metis append_Cons)+
  finally show ?case .
qed

lemma like_match_percent: "like_match (CHR ''%'' # ps) t \<longleftrightarrow> (\<exists>a b. t = a @ b \<and> like_match ps b)"
proof (induction t)
  case Nil
  then show ?case by simp
next
  case (Cons x xs)
  have "(\<exists>a b. x # xs = a @ b \<and> like_match ps b) \<longleftrightarrow>
        like_match ps (x # xs) \<or> (\<exists>a b. xs = a @ b \<and> like_match ps b)"
    by (metis append_Cons append_Nil append_eq_Cons_conv)
  with Cons show ?case by simp
qed

lemma like_match_contains:
  "like_match (CHR ''%'' # escape_like s @ [CHR ''%'']) t \<longleftrightarrow>
     (\<exists>a m b. t = a @ m @ b \<and> map lower m = map lower s)"
proof -
  have "like_match [CHR ''%''] u" for u
    by (simp add: like_match_percent)
  then show ?thesis
    by (auto simp: like_match_percent like_match_escaped_append)
qed

text \<open>The panel's classification is included in the agent's.\<close>

lemma panel_v4_in_agent: "is_internal_v4 a \<Longrightarrow> is_internal_addr_v4 a"
  by (cases a) auto

lemma panel_internal_in_agent:
  "is_internal_target_ip h \<Longrightarrow> \<exists>ip. parse_ip h = Some ip \<and> is_internal_addr ip"
  by (auto simp: is_internal_target_ip_def is_internal_addr_def panel_v4_in_agent
      split: option.splits ip_addr.splits)

lemma split_on_not_Nil [simp]: "split_on c s \<noteq> []"
  by (induction s) (auto split: list.splits)

text \<open>Splitting loses nothing: the segments joined by the separator are the input.\<close>

fun join_with :: "char \<Rightarrow> string list \<Rightarrow> string" where
  "join_with c [] = []"
| "join_with c [s] = s"
| "join_with c (s # t # ss) = s @ c # join_with c (t # ss)"

lemma join_split_on: "join_with c (split_on c s) = s"
proof (induction s)
  case Nil
  then show ?case by simp
next
  case (Cons x xs)
  obtain a as where as: "split_on c xs = a # as"
    by (cases "split_on c xs") auto
  with Cons show ?case by (cases as) auto
qed

lemma split_on_no_sep: "seg \<in> set (split_on c s) \<Longrightarrow> c \<notin> set seg"
proof (induction s arbitrary: seg)
  case Nil
  then show ?case by simp
next
  case (Cons x xs)
  obtain a as where "split_on c xs = a # as"
    by (cases "split_on c xs") auto
  with Cons show ?case by (auto split: if_splits)
qed

section \<open>Properties\<close>

text \<open>A search term, escaped and wrapped in percent signs as the routes do, matches exactly the
  texts that contain it (letters in either case): no character of the term acts as a wildcard.\<close>

theorem escape_like_literal:
  "like_match (CHR ''%'' # escape_like s @ ''%'') t \<longleftrightarrow>
     (\<exists>a m b. t = a @ m @ b \<and> map lower m = map lower s)"
  using like_match_contains [of s t] by simp

text \<open>The panel's check of a literal target covers less than the agent's check of a resolved
  one: every literal the panel refuses is internal for the agent, the carrier-grade NAT range and
  the broadcast address are internal for the agent only, and the agent does not check a literal,
  so a user can target them by writing the address.\<close>

theorem panel_check_weaker:
  "(is_internal_target_ip h \<longrightarrow> (\<exists>ip. parse_ip h = Some ip \<and> is_internal_addr ip))
   \<and> is_internal_addr (V4 (Ipv4 100 64 0 1)) \<and> \<not> is_internal_target_ip ''100.64.0.1''
   \<and> guard_resolved_target ''100.64.0.1'' (Sock_Addr (V4 (Ipv4 100 64 0 1)) 80) = Inr ()"
proof -
  have p: "parse_ip ''100.64.0.1'' = Some (V4 (Ipv4 100 64 0 1))"
    by code_simp
  show ?thesis
    using panel_internal_in_agent [of h]
    by (auto simp: p is_internal_target_ip_def is_internal_addr_def guard_resolved_target_def
        v4_is_unspecified_def)
qed

lemma panel_check_weaker_witness:
  "\<exists>ip. parse_ip ''10.0.0.1'' = Some ip \<and> is_internal_addr ip"
proof -
  have "parse_ip ''10.0.0.1'' = Some (V4 (Ipv4 10 0 0 1))"
    by code_simp
  then have "is_internal_target_ip ''10.0.0.1''"
    by (simp add: is_internal_target_ip_def)
  with panel_check_weaker [of "''10.0.0.1''"] show ?thesis
    by blast
qed

text \<open>A target host that is accepted and is not an address consists of labels of 1 to 63
  characters joined by dots, none with a hyphen at an end, the last one not all digits: what looks
  like a mistyped address is refused.\<close>

theorem target_host_labels:
  assumes "is_valid_target_host h" "parse_ip h = None"
  shows "\<exists>labels. h = join_with CHR ''.'' labels \<and> labels \<noteq> []
    \<and> (\<forall>l \<in> set labels. l \<noteq> [] \<and> length l \<le> 63 \<and> CHR ''.'' \<notin> set l
         \<and> hd l \<noteq> CHR ''-'' \<and> last l \<noteq> CHR ''-'')
    \<and> \<not> list_all is_ascii_digit (last labels)"
proof (intro exI [of _ "split_on CHR ''.'' h"] conjI)
  show "h = join_with CHR ''.'' (split_on CHR ''.'' h)"
    by (simp add: join_split_on)
  show "\<forall>l \<in> set (split_on CHR ''.'' h). l \<noteq> [] \<and> length l \<le> 63 \<and> CHR ''.'' \<notin> set l
         \<and> hd l \<noteq> CHR ''-'' \<and> last l \<noteq> CHR ''-''"
    using assms split_on_no_sep [of _ "CHR ''.''" h]
    by (auto simp: is_valid_target_host_def Let_def list_all_iff segment_ok_def split: if_splits)
  show "\<not> list_all is_ascii_digit (last (split_on CHR ''.'' h))"
    using assms by (auto simp: is_valid_target_host_def Let_def split: if_splits)
qed simp

lemma target_host_labels_witness:
  "\<exists>labels. ''a.b1'' = join_with CHR ''.'' labels \<and> labels \<noteq> []"
proof -
  have "is_valid_target_host ''a.b1''" "parse_ip ''a.b1'' = None"
    by code_simp+
  from target_host_labels [OF this] show ?thesis
    by blast
qed

end
