(* ===== verification/Api.thy ===== *)
theory Api
  imports Tunnel_Dispatch Panel_Util
begin

text \<open>
  What the handlers of the REST interface share: the errors of error.rs with their status codes,
  the user of a request (auth/extractor.rs), the address of the client, the audit log (audit.rs)
  and the shape of a handler, a function from the state of the panel to a result and a new state.
  Verifying a token is the argument \<open>decode_jwt\<close>; the text of a refusal is given in English.
\<close>

section \<open>Errors\<close>

datatype api_error =
    Internal
  | Database sql_error
  | Bad_Request string
  | Not_Found
  | Unauthorized
  | Unauthorized_Msg string
  | Forbidden
  | Too_Many_Requests string

text \<open>\<^verbatim>\<open>into_response\<close>: the status and the machine-readable code.\<close>

fun into_response :: "api_error \<Rightarrow> nat \<times> string" where
  "into_response Internal = (500, ''internal_error'')"
| "into_response (Database _) = (500, ''internal_error'')"
| "into_response (Bad_Request _) = (400, ''bad_request'')"
| "into_response Not_Found = (404, ''not_found'')"
| "into_response Unauthorized = (401, ''unauthorized'')"
| "into_response (Unauthorized_Msg _) = (401, ''unauthorized'')"
| "into_response Forbidden = (403, ''forbidden'')"
| "into_response (Too_Many_Requests _) = (429, ''too_many_requests'')"

section \<open>The user of a request\<close>

record claims =
  cl_sub :: int
  cl_username :: string
  cl_role :: string
  cl_exp :: int
  cl_mcp :: bool
  cl_scope :: string

text \<open>
  A request: its headers, with lower-case names, and the address of the peer. \<^verbatim>\<open>to_str\<close> reads a
  header value only when all its characters are visible.
\<close>

record request =
  rq_headers :: "(string \<times> string) list"
  rq_peer :: "string option"

definition visible :: "char \<Rightarrow> bool" where
  "visible c = (let n = of_char c :: nat in 32 \<le> n \<and> n < 127 \<or> n = 9)"

definition header :: "request \<Rightarrow> string \<Rightarrow> string option" where
  "header rq name = (case map_of (rq_headers rq) name of
     None \<Rightarrow> None
   | Some v \<Rightarrow> if list_all visible v then Some v else None)"

definition strip_prefix :: "string \<Rightarrow> string \<Rightarrow> string option" where
  "strip_prefix p s = (if starts_with s p then Some (drop (length p) s) else None)"

definition bearer_claims :: "(string \<Rightarrow> claims option) \<Rightarrow> request \<Rightarrow> api_error + claims" where
  "bearer_claims decode_jwt rq =
     bindR (ok_or Unauthorized (header rq ''authorization'')) (\<lambda>raw.
     bindR (ok_or Unauthorized (strip_prefix ''Bearer '' raw)) (\<lambda>token.
       ok_or Unauthorized (decode_jwt token)))"

definition auth_user :: "(string \<Rightarrow> claims option) \<Rightarrow> request \<Rightarrow> api_error + claims" where
  "auth_user decode_jwt rq =
     bindR (bearer_claims decode_jwt rq) (\<lambda>c.
       if cl_mcp c then Inl Forbidden
       else if cl_scope c = ''sub'' then Inl Forbidden
       else Inr c)"

definition auth_user_allow_mcp :: "(string \<Rightarrow> claims option) \<Rightarrow> request \<Rightarrow> api_error + claims" where
  "auth_user_allow_mcp decode_jwt rq =
     bindR (bearer_claims decode_jwt rq) (\<lambda>c. if cl_scope c = ''sub'' then Inl Forbidden else Inr c)"

definition is_admin :: "claims \<Rightarrow> bool" where
  "is_admin c = (cl_role c = ''admin'')"

definition require_admin :: "claims \<Rightarrow> api_error + unit" where
  "require_admin c = (if is_admin c then Inr () else Inl Forbidden)"

definition actor_ip :: "request \<Rightarrow> string" where
  "actor_ip rq = (case header rq ''x-real-ip'' of
     Some v \<Rightarrow> trim v
   | None \<Rightarrow> (case header rq ''x-forwarded-for'' of
        Some v \<Rightarrow> trim (hd (split_on CHR '','' v))
      | None \<Rightarrow> (case rq_peer rq of Some a \<Rightarrow> a | None \<Rightarrow> [])))"

definition as_option :: "string \<Rightarrow> string option" where
  "as_option ip = (if ip = [] then None else Some ip)"

section \<open>Handlers\<close>

type_synonym 'a api = "panel \<Rightarrow> (api_error + 'a) \<times> panel"

definition returnA :: "'a \<Rightarrow> 'a api" where
  "returnA x p = (Inr x, p)"

definition bindA :: "'a api \<Rightarrow> ('a \<Rightarrow> 'b api) \<Rightarrow> 'b api" where
  "bindA m f p = (case m p of (Inl e, p1) \<Rightarrow> (Inl e, p1) | (Inr x, p1) \<Rightarrow> f x p1)"

text \<open>A step that only reads: a check, or a query on the tables.\<close>

definition ask :: "(panel_db \<Rightarrow> api_error + 'a) \<Rightarrow> 'a api" where
  "ask f p = (f (pn_db p), p)"

definition reject_if :: "bool \<Rightarrow> api_error \<Rightarrow> api_error + unit" where
  "reject_if b e = (if b then Inl e else Inr ())"

definition read_db :: "query_faults \<Rightarrow> string \<Rightarrow> 'a \<Rightarrow> api_error + 'a" where
  "read_db io q v = (if io q then Inl (Database Sql_Failed) else Inr v)"

text \<open>A statement that writes; its errors are turned into those of the interface by \<open>conv\<close>.\<close>

definition write_db ::
    "query_faults \<Rightarrow> string \<Rightarrow> (sql_error \<Rightarrow> api_error) \<Rightarrow> (panel_db \<Rightarrow> (sql_error + 'a) \<times> panel_db) \<Rightarrow> 'a api" where
  "write_db io q conv f p =
     (if io q then (Inl (conv Sql_Failed), p)
      else (case f (pn_db p) of
              (Inl e, _) \<Rightarrow> (Inl (conv e), p)
            | (Inr x, db) \<Rightarrow> (Inr x, p\<lparr>pn_db := db\<rparr>)))"

text \<open>A statement that cannot violate a constraint.\<close>

definition update_db :: "query_faults \<Rightarrow> string \<Rightarrow> (panel_db \<Rightarrow> panel_db) \<Rightarrow> unit api" where
  "update_db io q f = write_db io q Database (\<lambda>db. (Inr (), f db))"

text \<open>A step that cannot fail.\<close>

definition doA :: "(panel \<Rightarrow> panel) \<Rightarrow> unit api" where
  "doA f p = (Inr (), f p)"

lemma api_simps [simp]:
  "returnA x p = (Inr x, p)" "ask f p = (f (pn_db p), p)" "doA g p = (Inr (), g p)"
  by (simp_all add: returnA_def ask_def doA_def)

lemma reject_if_eq_Inr [simp]: "reject_if b e = Inr u \<longleftrightarrow> \<not> b"
  by (simp add: reject_if_def)

lemma reject_if_eq_Inl [simp]: "reject_if b e = Inl e' \<longleftrightarrow> b \<and> e' = e"
  by (auto simp: reject_if_def)

lemma read_db_eq_Inr [simp]: "read_db io q v = Inr w \<longleftrightarrow> \<not> io q \<and> w = v"
  by (auto simp: read_db_def)

lemma read_db_eq_Inl [simp]: "read_db io q v = Inl e \<longleftrightarrow> io q \<and> e = Database Sql_Failed"
  by (auto simp: read_db_def)

lemma bindA_ok:
  assumes "bindA m f p = (Inr y, p')"
  obtains x p1 where "m p = (Inr x, p1)" "f x p1 = (Inr y, p')"
  using assms by (auto simp: bindA_def split: prod.splits sum.splits)

lemma bindA_ask_ok:
  assumes "bindA (ask g) f p = (Inr y, p')"
  obtains x where "g (pn_db p) = Inr x" "f x p = (Inr y, p')"
  using assms by (auto simp: bindA_def split: sum.splits)

text \<open>A handler keeps a predicate of the state when each of its steps does.\<close>

definition keepsA :: "(panel \<Rightarrow> bool) \<Rightarrow> 'a api \<Rightarrow> bool" where
  "keepsA P m = (\<forall>p. P p \<longrightarrow> P (snd (m p)))"

lemma keepsA_bind: "keepsA P m \<Longrightarrow> (\<And>x. keepsA P (f x)) \<Longrightarrow> keepsA P (bindA m f)"
  by (simp add: keepsA_def bindA_def split: prod.splits sum.splits) (metis snd_conv)

lemma keepsA_ask: "keepsA P (ask f)" "keepsA P (returnA x)"
  by (simp_all add: keepsA_def)

lemma keepsA_do: "(\<And>p. P p \<Longrightarrow> P (g p)) \<Longrightarrow> keepsA P (doA g)"
  by (simp add: keepsA_def)

lemma keepsA_if: "keepsA P a \<Longrightarrow> keepsA P b \<Longrightarrow> keepsA P (if c then a else b)"
  by simp

text \<open>What holds after a handler that succeeds, from what holds before.\<close>

definition okA :: "(panel \<Rightarrow> bool) \<Rightarrow> 'a api \<Rightarrow> ('a \<Rightarrow> panel \<Rightarrow> bool) \<Rightarrow> bool" where
  "okA P m Q = (\<forall>p x q. P p \<longrightarrow> m p = (Inr x, q) \<longrightarrow> Q x q)"

lemma okA_bind: "okA P m R \<Longrightarrow> (\<And>x. okA (R x) (f x) Q) \<Longrightarrow> okA P (bindA m f) Q"
  unfolding okA_def by (blast elim: bindA_ok)

lemma okA_keep: "keepsA P m \<Longrightarrow> okA P m (\<lambda>_. P)"
  unfolding okA_def keepsA_def by (metis snd_conv)

lemma okA_ask: "okA P (ask g) (\<lambda>x p. P p \<and> g (pn_db p) = Inr x)"
  by (simp add: okA_def)

lemma okA_D: "okA P m Q \<Longrightarrow> P p \<Longrightarrow> m p = (Inr x, q) \<Longrightarrow> Q x q"
  by (simp add: okA_def)

lemma keepsA_write:
  "(\<And>db x db'. Q db \<Longrightarrow> f db = (Inr x, db') \<Longrightarrow> Q db') \<Longrightarrow> keepsA (\<lambda>p. Q (pn_db p)) (write_db io q c f)"
  by (auto simp: keepsA_def write_db_def split: prod.splits sum.splits)

lemma keepsA_update: "(\<And>db. Q db \<Longrightarrow> Q (f db)) \<Longrightarrow> keepsA (\<lambda>p. Q (pn_db p)) (update_db io q f)"
  unfolding update_db_def by (rule keepsA_write) auto

section \<open>The audit log\<close>

text \<open>\<^verbatim>\<open>record_with_ip\<close>: a log that cannot be written is only a warning.\<close>

definition record_with_ip ::
    "query_faults \<Rightarrow> int option \<Rightarrow> string option \<Rightarrow> string \<Rightarrow> string option \<Rightarrow> int option \<Rightarrow> string option
     \<Rightarrow> bool \<Rightarrow> string option \<Rightarrow> panel \<Rightarrow> panel" where
  "record_with_ip io actor ip action ttype tid payload success err p =
     (if io ''audit'' then p
      else p\<lparr>pn_db := (pn_db p)\<lparr>db_audit := db_audit (pn_db p) @
        [\<lparr>au_actor = actor, au_ip = ip, au_action = action, au_target_type = ttype, au_target_id = tid,
          au_payload = payload, au_result = (if success then ''success'' else ''failure''), au_error = err\<rparr>]\<rparr>\<rparr>)"

definition record_plain ::
    "query_faults \<Rightarrow> int option \<Rightarrow> string \<Rightarrow> string option \<Rightarrow> int option \<Rightarrow> string option \<Rightarrow> bool
     \<Rightarrow> string option \<Rightarrow> panel \<Rightarrow> panel" where
  "record_plain io actor action ttype tid payload success err =
     record_with_ip io actor None action ttype tid payload success err"

lemma record_frame [row_simps, simp]:
  "db_rules (pn_db (record_with_ip io a b c d e f g h p)) = db_rules (pn_db p)"
  "db_next_rule (pn_db (record_with_ip io a b c d e f g h p)) = db_next_rule (pn_db p)"
  "db_nodes (pn_db (record_with_ip io a b c d e f g h p)) = db_nodes (pn_db p)"
  "db_users (pn_db (record_with_ip io a b c d e f g h p)) = db_users (pn_db p)"
  "db_profiles (pn_db (record_with_ip io a b c d e f g h p)) = db_profiles (pn_db p)"
  "db_tunnels (pn_db (record_with_ip io a b c d e f g h p)) = db_tunnels (pn_db p)"
  "db_hops (pn_db (record_with_ip io a b c d e f g h p)) = db_hops (pn_db p)"
  "pn_dispatcher (record_with_ip io a b c d e f g h p) = pn_dispatcher p"
  by (simp_all add: record_with_ip_def)

section \<open>The failed logins that are recorded\<close>

record login_window =
  lw_start :: nat
  lw_suppressed :: u32

definition LOGIN_AUDIT_WINDOW :: nat where
  "LOGIN_AUDIT_WINDOW = 60000"

datatype audit_decision = Record u32 | Suppress

text \<open>\<^verbatim>\<open>decide\<close>, with the time in milliseconds.\<close>

definition decide ::
    "string \<Rightarrow> nat \<Rightarrow> (string \<times> login_window) list \<Rightarrow> audit_decision \<times> (string \<times> login_window) list" where
  "decide key now m =
     (let (d, m1) = (case hm_get m key of
            Some w \<Rightarrow>
              if now - lw_start w < LOGIN_AUDIT_WINDOW
              then (Suppress, hm_insert key (w\<lparr>lw_suppressed := (if lw_suppressed w = 0xFFFFFFFF then 0xFFFFFFFF
                                                             else lw_suppressed w + 1)\<rparr>) m)
              else (Record (lw_suppressed w), hm_insert key \<lparr>lw_start = now, lw_suppressed = 0\<rparr> m)
          | None \<Rightarrow> (Record 0, hm_insert key \<lparr>lw_start = now, lw_suppressed = 0\<rparr> m))
      in (d, hm_retain (\<lambda>k w. k = key \<or> now - lw_start w < LOGIN_AUDIT_WINDOW * 2) m1))"

end
