(* ===== verification/Rules_Api.thy ===== *)
theory Rules_Api
  imports Api
begin

text \<open>
  routes/rules.rs: the handlers for forwarding rules. A handler is a chain of steps in the order
  of the code: checks and queries (\<open>ask\<close>), statements (\<open>write_db\<close>, \<open>update_db\<close>), the audit log and
  the commands to the nodes. The long handler \<^verbatim>\<open>create\<close> is cut into the groups of checks it makes.
  JSON texts are read and written by arguments, and so is the \<^verbatim>\<open>ORDER BY\<close> of the list.
\<close>

section \<open>Data\<close>

type_synonym target_dto = "string \<times> u16"

record route_env =
  re_panel :: panel_env
  re_encode :: "target_dto list \<Rightarrow> string"
  re_decode :: "string \<Rightarrow> target_dto list option"
  re_ports :: "string \<Rightarrow> int list option"
  re_order :: "string \<Rightarrow> bool \<Rightarrow> db_rule list \<Rightarrow> db_rule list"

record rule_view =
  rv_id :: int
  rv_user_id :: int
  rv_user_name :: "string option"
  rv_node_id :: int
  rv_name :: string
  rv_protocol :: string
  rv_listen_ip :: string
  rv_listen_port :: int
  rv_target_host :: string
  rv_target_port :: int
  rv_enabled :: bool
  rv_rx :: int
  rv_tx :: int
  rv_conn :: int
  rv_profile_id :: "int option"
  rv_bandwidth_mbps :: "int option"
  rv_tunnel_id :: "int option"
  rv_max_connections :: "int option"
  rv_extra_targets :: "target_dto list"
  rv_lb_strategy :: string
  rv_send_proxy :: bool
  rv_remote_af :: string

definition parse_targets :: "route_env \<Rightarrow> string option \<Rightarrow> target_dto list" where
  "parse_targets re json = unwrap_or [] (Option.bind json (re_decode re))"

definition rule_view_of :: "route_env \<Rightarrow> db_rule \<Rightarrow> rule_view" where
  "rule_view_of re r =
     \<lparr>rv_id = dr_id r, rv_user_id = dr_user_id r, rv_user_name = None, rv_node_id = dr_node_id r,
      rv_name = dr_name r, rv_protocol = dr_protocol r, rv_listen_ip = dr_listen_ip r,
      rv_listen_port = dr_listen_port r, rv_target_host = dr_target_host r, rv_target_port = dr_target_port r,
      rv_enabled = (dr_enabled r \<noteq> 0), rv_rx = dr_rx r, rv_tx = dr_tx r, rv_conn = dr_conn r,
      rv_profile_id = dr_profile_id r, rv_bandwidth_mbps = dr_bandwidth_mbps r, rv_tunnel_id = dr_tunnel_id r,
      rv_max_connections = dr_max_connections r, rv_extra_targets = parse_targets re (dr_extra_targets r),
      rv_lb_strategy = dr_lb_strategy r, rv_send_proxy = (dr_send_proxy r \<noteq> 0), rv_remote_af = dr_remote_af r\<rparr>"

record create_request =
  cq_node_id :: int
  cq_name :: string
  cq_protocol :: string
  cq_listen_ip :: string
  cq_listen_port :: "u16 option"
  cq_target_host :: string
  cq_target_port :: u16
  cq_profile_id :: "int option"
  cq_tunnel_id :: "int option"
  cq_user_id :: "int option"
  cq_max_connections :: "int option"
  cq_extra_targets :: "target_dto list option"
  cq_lb_strategy :: "string option"
  cq_send_proxy :: "bool option"
  cq_remote_af :: "string option"

record update_request =
  uq_name :: "string option"
  uq_listen_ip :: "string option"
  uq_listen_port :: "u16 option"
  uq_target_host :: "string option"
  uq_target_port :: "u16 option"
  uq_profile_id :: "int option"
  uq_max_connections :: "int option"
  uq_extra_targets :: "target_dto list option"
  uq_lb_strategy :: "string option"
  uq_send_proxy :: "bool option"
  uq_remote_af :: "string option"

record list_query =
  lq_page :: "int option"
  lq_page_size :: "int option"
  lq_sort :: "string option"
  lq_order :: "string option"
  lq_node_id :: "int option"
  lq_protocol :: "string option"
  lq_search :: "string option"
  lq_user_id :: "int option"
  lq_enabled :: "bool option"

section \<open>Checks\<close>

primrec check_each :: "('a \<Rightarrow> 'e + unit) \<Rightarrow> 'a list \<Rightarrow> 'e + unit" where
  "check_each f [] = Inr ()"
| "check_each f (x # xs) = bindR (f x) (\<lambda>_. check_each f xs)"

lemma check_each_ok [simp]: "check_each f xs = Inr () \<longleftrightarrow> (\<forall>x \<in> set xs. f x = Inr ())"
  by (induction xs) (auto simp: bindR_eq_Inr)

definition validate_targets ::
    "route_env \<Rightarrow> target_dto list \<Rightarrow> string option \<Rightarrow> bool \<Rightarrow> api_error + (string option \<times> string)" where
  "validate_targets re extra strategy admin =
     (let strat = unwrap_or ''fifo'' strategy in
      bindR (reject_if (strat \<notin> set [''fifo'', ''round'', ''rand'', ''hash'']) (Bad_Request ''strategy'')) (\<lambda>_.
      bindR (reject_if (32 < length extra) (Bad_Request ''too many targets'')) (\<lambda>_.
      bindR (check_each (\<lambda>(host, port).
          bindR (reject_if (port = 0) (Bad_Request ''target port'')) (\<lambda>_.
          bindR (reject_if (\<not> is_valid_target_host (trim host)) (Bad_Request ''target host'')) (\<lambda>_.
            reject_if (\<not> admin \<and> is_internal_target_ip (trim host)) (Bad_Request ''internal target'')))) extra) (\<lambda>_.
        Inr (if extra = [] then None else Some (re_encode re (map (\<lambda>(h, p). (trim h, p)) extra)), strat)))))"

definition ensure_can_touch :: "claims \<Rightarrow> db_rule \<Rightarrow> api_error + unit" where
  "ensure_can_touch auth r = reject_if (\<not> (is_admin auth \<or> dr_user_id r = cl_sub auth)) Not_Found"

definition validate_protocol :: "string \<Rightarrow> api_error + unit" where
  "validate_protocol p = reject_if (p \<notin> set [''tcp'', ''udp'', ''tcp_udp'']) (Bad_Request ''protocol'')"

definition conflicts_with :: "string \<Rightarrow> string list" where
  "conflicts_with p =
     (if p = ''tcp'' then [''tcp_udp''] else if p = ''udp'' then [''tcp_udp'']
      else if p = ''tcp_udp'' then [''tcp'', ''udp''] else [])"

definition ensure_no_protocol_conflict ::
    "query_faults \<Rightarrow> panel_db \<Rightarrow> int \<Rightarrow> string \<Rightarrow> int \<Rightarrow> string \<Rightarrow> int option \<Rightarrow> api_error + unit" where
  "ensure_no_protocol_conflict io db node ip port proto exclude =
     (if conflicts_with proto = [] then Inr ()
      else bindR (read_db io ''protocol_conflict''
             (filter (\<lambda>r. dr_node_id r = node \<and> dr_listen_ip r = ip \<and> dr_listen_port r = port
                \<and> dr_protocol r \<in> set (conflicts_with proto) \<and> \<not> dr_deleted r
                \<and> (case exclude of None \<Rightarrow> True | Some e \<Rightarrow> dr_id r \<noteq> e)) (db_rules db)))
        (\<lambda>rows. reject_if (rows \<noteq> []) (Bad_Request ''listen port in use'')))"

text \<open>\<^verbatim>\<open>port_pool_min..=port_pool_max\<close> is \<open>upto\<close>; the first port that passes is taken.\<close>

definition port_conflicts :: "string \<Rightarrow> string \<Rightarrow> bool" where
  "port_conflicts proto existing =
     (if proto = ''tcp'' then existing \<in> set [''tcp'', ''tcp_udp'']
      else if proto = ''udp'' then existing \<in> set [''udp'', ''tcp_udp''] else True)"

definition blocked_ports :: "panel_db \<Rightarrow> node_row \<Rightarrow> string \<Rightarrow> string \<Rightarrow> int list" where
  "blocked_ports db node ip proto =
     map dr_listen_port (filter (\<lambda>r. port_conflicts proto (dr_protocol r))
       (filter (\<lambda>r. dr_node_id r = nd_id node \<and> dr_listen_ip r = ip \<and> \<not> dr_deleted r
          \<and> nd_pool_min node \<le> dr_listen_port r \<and> dr_listen_port r \<le> nd_pool_max node) (db_rules db)))
     @ tunnel_ports db (nd_id node)"

definition allocate_port ::
    "query_faults \<Rightarrow> panel_db \<Rightarrow> node_row \<Rightarrow> string \<Rightarrow> string \<Rightarrow> int list \<Rightarrow> api_error + int" where
  "allocate_port io db node ip proto reserved =
     bindR (read_db io ''taken_ports'' ()) (\<lambda>_.
     bindR (read_db io ''tunnel_ports'' (blocked_ports db node ip proto)) (\<lambda>blocked.
       ok_or (Bad_Request ''no port left'')
         (find (\<lambda>port. \<not> List.member reserved port \<and> \<not> List.member blocked port)
            [nd_pool_min node..nd_pool_max node])))"

fun map_sqlx_to_api :: "sql_error \<Rightarrow> api_error" where
  "map_sqlx_to_api Unique_Violation = Bad_Request ''rule exists''"
| "map_sqlx_to_api Unique_Port_Violation = Bad_Request ''rule exists''"
| "map_sqlx_to_api Check_Violation = Bad_Request ''constraint''"
| "map_sqlx_to_api Foreign_Key_Violation = Bad_Request ''no such node or user''"
| "map_sqlx_to_api Sql_Failed = Database Sql_Failed"

definition lookup_username :: "query_faults \<Rightarrow> panel_db \<Rightarrow> int \<Rightarrow> api_error + string option" where
  "lookup_username io db u =
     read_db io ''username'' (map_option us_username (find (\<lambda>x. us_id x = u) (db_users db)))"

definition fetch_rule :: "query_faults \<Rightarrow> string \<Rightarrow> panel_db \<Rightarrow> int \<Rightarrow> api_error + db_rule" where
  "fetch_rule io q db i = bindR (read_db io q (find_rule db i)) (ok_or Not_Found)"

section \<open>Creating a rule\<close>

definition create_owner :: "query_faults \<Rightarrow> claims \<Rightarrow> create_request \<Rightarrow> panel_db \<Rightarrow> api_error + int" where
  "create_owner io auth req db = (case cq_user_id req of
     None \<Rightarrow> Inr (cl_sub auth)
   | Some uid \<Rightarrow>
       if \<not> is_admin auth then
         bindR (reject_if (uid \<noteq> cl_sub auth) (Bad_Request ''owner'')) (\<lambda>_. Inr uid)
       else
         bindR (read_db io ''find_owner'' (find_user db uid)) (\<lambda>u.
         bindR (ok_or (Bad_Request ''no such owner'') u) (\<lambda>_. Inr uid)))"

definition create_fields :: "claims \<Rightarrow> create_request \<Rightarrow> api_error + unit" where
  "create_fields auth req =
     bindR (reject_if (\<not> is_admin auth \<and> (cq_profile_id req \<noteq> None \<or> cq_max_connections req \<noteq> None
              \<or> cq_send_proxy req \<noteq> None)) (Bad_Request ''admin only'')) (\<lambda>_.
     bindR (reject_if (cq_send_proxy req = Some True \<and> cq_tunnel_id req \<noteq> None) (Bad_Request ''proxy protocol'')) (\<lambda>_.
     bindR (reject_if (unwrap_or ''auto'' (cq_remote_af req) \<notin> set [''auto'', ''v4'', ''v6'']) (Bad_Request ''remote_af'')) (\<lambda>_.
     bindR (reject_if (unwrap_or 0 (cq_max_connections req) < 0) (Bad_Request ''max_connections'')) (\<lambda>_.
     bindR (reject_if (trim (cq_name req) = []) (Bad_Request ''name'')) (\<lambda>_.
     bindR (validate_protocol (cq_protocol req)) (\<lambda>_.
     bindR (reject_if (cq_listen_port req = Some 0 \<or> cq_target_port req = 0) (Bad_Request ''port'')) (\<lambda>_.
     bindR (reject_if (\<not> is_valid_ip (cq_listen_ip req)) (Bad_Request ''listen_ip'')) (\<lambda>_.
     bindR (reject_if (\<not> is_valid_target_host (cq_target_host req)) (Bad_Request ''target_host'')) (\<lambda>_.
     bindR (reject_if (\<not> is_admin auth \<and> is_internal_target_ip (trim (cq_target_host req))) (Bad_Request ''internal target'')) (\<lambda>_.
       reject_if (cq_tunnel_id req \<noteq> None \<and> unwrap_or [] (cq_extra_targets req) \<noteq> []) (Bad_Request ''tunnel targets'')))))))))))"

definition create_granted :: "query_faults \<Rightarrow> claims \<Rightarrow> int \<Rightarrow> create_request \<Rightarrow> panel_db \<Rightarrow> api_error + unit" where
  "create_granted io auth owner req db = (case cq_tunnel_id req of
     Some tid \<Rightarrow>
       bindR (if is_admin auth then Inr True else read_db io ''tunnel_granted'' (tunnel_granted db owner tid)) (\<lambda>ok.
       bindR (reject_if (\<not> ok) (Bad_Request ''tunnel not granted'')) (\<lambda>_.
       bindR (read_db io ''tunnel_hops'' (list_for_tunnel db tid)) (\<lambda>hops.
       bindR (ok_or (Bad_Request ''no such tunnel'') (find (\<lambda>h. hp_ordinal h = 0) hops)) (\<lambda>entry.
         reject_if (hp_node_id entry \<noteq> cq_node_id req) (Bad_Request ''not the entry node'')))))
   | None \<Rightarrow>
       bindR (if is_admin auth then Inr True else read_db io ''node_granted'' (node_granted db owner (cq_node_id req)))
         (\<lambda>ok. reject_if (\<not> ok) (Bad_Request ''node not granted'')))"

definition rules_of_user :: "panel_db \<Rightarrow> int \<Rightarrow> nat" where
  "rules_of_user db u = count_rules (\<lambda>r. dr_user_id r = u \<and> \<not> dr_deleted r) db"

definition rules_in_tunnel :: "panel_db \<Rightarrow> int \<Rightarrow> int \<Rightarrow> nat" where
  "rules_in_tunnel db u t = count_rules (\<lambda>r. dr_user_id r = u \<and> dr_tunnel_id r = Some t \<and> \<not> dr_deleted r) db"

definition create_quota :: "query_faults \<Rightarrow> int \<Rightarrow> create_request \<Rightarrow> panel_db \<Rightarrow> api_error + unit" where
  "create_quota io owner req db =
     bindR (read_db io ''find_owner_quota'' (find_user db owner)) (\<lambda>u.
     bindR (ok_or (Bad_Request ''no such owner'') u) (\<lambda>u.
     bindR (case us_rules_quota u of
              None \<Rightarrow> Inr ()
            | Some limit \<Rightarrow> bindR (read_db io ''count_user_rules'' (rules_of_user db owner))
                (\<lambda>used. reject_if (limit \<le> int used) (Bad_Request ''rule quota''))) (\<lambda>_.
       case cq_tunnel_id req of
         None \<Rightarrow> Inr ()
       | Some tid \<Rightarrow>
           bindR (read_db io ''tunnel_grant_num'' (tunnel_grant_num db owner tid)) (\<lambda>limit.
             case limit of
               None \<Rightarrow> Inr ()
             | Some limit \<Rightarrow> bindR (read_db io ''count_tunnel_rules'' (rules_in_tunnel db owner tid))
                 (\<lambda>used. reject_if (limit \<le> int used) (Bad_Request ''tunnel quota''))))))"

definition create_profile :: "query_faults \<Rightarrow> create_request \<Rightarrow> panel_db \<Rightarrow> api_error + unit" where
  "create_profile io req db = (case cq_profile_id req of
     None \<Rightarrow> Inr ()
   | Some pid \<Rightarrow>
       bindR (reject_if (pid \<le> 0) (Bad_Request ''profile id'')) (\<lambda>_.
       bindR (read_db io ''find_profile'' (find_profile db pid)) (\<lambda>row.
       bindR (ok_or (Bad_Request ''no such profile'') row) (\<lambda>_. Inr ()))))"

definition reserved_now :: "route_env \<Rightarrow> query_faults \<Rightarrow> panel_db \<Rightarrow> int list" where
  "reserved_now re io db = reserved_ports (re_ports re) (io ''settings'') db"

definition create_port ::
    "route_env \<Rightarrow> query_faults \<Rightarrow> claims \<Rightarrow> node_row \<Rightarrow> create_request \<Rightarrow> panel_db \<Rightarrow> api_error + int" where
  "create_port re io auth node req db =
     (let reserved = reserved_now re io db in
      case cq_listen_port req of
        Some p \<Rightarrow>
          if cq_tunnel_id req \<noteq> None \<and> is_admin auth then
            bindR (reject_if (List.member reserved (uint p)) (Bad_Request ''reserved port'')) (\<lambda>_. Inr (uint p))
          else
            bindR (reject_if (uint p < nd_pool_min node \<or> nd_pool_max node < uint p) (Bad_Request ''port pool'')) (\<lambda>_.
            bindR (reject_if (List.member reserved (uint p)) (Bad_Request ''reserved port'')) (\<lambda>_. Inr (uint p)))
      | None \<Rightarrow> allocate_port io db node (cq_listen_ip req) (cq_protocol req) reserved)"

text \<open>All the checks: the owner, the columns of the targets, the node and the port.\<close>

definition create_checks ::
    "route_env \<Rightarrow> query_faults \<Rightarrow> claims \<Rightarrow> create_request \<Rightarrow> panel_db \<Rightarrow> api_error + (int \<times> (string option \<times> string) \<times> int)" where
  "create_checks re io auth req db =
     bindR (create_owner io auth req db) (\<lambda>owner.
     bindR (create_fields auth req) (\<lambda>_.
     bindR (validate_targets re (unwrap_or [] (cq_extra_targets req)) (cq_lb_strategy req) (is_admin auth)) (\<lambda>targets.
     bindR (read_db io ''find_node'' (find_node db (cq_node_id req))) (\<lambda>row.
     bindR (ok_or (Bad_Request ''no such node'') row) (\<lambda>node.
     bindR (create_granted io auth owner req db) (\<lambda>_.
     bindR (create_quota io owner req db) (\<lambda>_.
     bindR (create_profile io req db) (\<lambda>_.
     bindR (create_port re io auth node req db) (\<lambda>port.
     bindR (ensure_no_protocol_conflict io db (cq_node_id req) (cq_listen_ip req) port (cq_protocol req) None) (\<lambda>_.
       Inr (owner, targets, port)))))))))))"

definition create_insert :: "create_request \<Rightarrow> int \<Rightarrow> int \<Rightarrow> panel_db \<Rightarrow> (sql_error + int) \<times> panel_db" where
  "create_insert req owner port =
     insert_rule owner (cq_node_id req) (trim (cq_name req)) (cq_protocol req) (cq_listen_ip req) port
       (trim (cq_target_host req)) (uint (cq_target_port req)) (cq_profile_id req) (cq_tunnel_id req)
       (case cq_max_connections req of Some n \<Rightarrow> if 0 < n then Some n else None | None \<Rightarrow> None)
       (unwrap_or ''auto'' (cq_remote_af req))"

definition create_rule :: "route_env \<Rightarrow> query_faults \<Rightarrow> claims \<Rightarrow> string \<Rightarrow> create_request \<Rightarrow> rule_view api" where
  "create_rule re io auth ip req =
     bindA (ask (create_checks re io auth req)) (\<lambda>(owner, (extra_json, lb_strat), port).
     bindA (write_db io ''insert_rule'' map_sqlx_to_api (create_insert req owner port)) (\<lambda>new_id.
     bindA (if extra_json \<noteq> None \<or> lb_strat \<noteq> ''fifo''
            then update_db io ''set_targets'' (set_targets new_id extra_json lb_strat) else returnA ()) (\<lambda>_.
     bindA (if cq_send_proxy req = Some True
            then update_db io ''set_send_proxy'' (set_send_proxy_protocol new_id True) else returnA ()) (\<lambda>_.
     bindA (ask (\<lambda>db. fetch_rule io ''reread_rule'' db new_id)) (\<lambda>r.
     bindA (doA (record_with_ip io (Some (cl_sub auth)) (as_option ip) ''rule.create'' (Some ''rule'') (Some new_id)
              (Some (trim (cq_name req) @ '',owner='' @ show_int owner)) True None)) (\<lambda>_.
     bindA (doA (dispatch_rule_apply_locked (re_panel re) io r)) (\<lambda>_.
     bindA (ask (\<lambda>db. lookup_username io db (dr_user_id r))) (\<lambda>name.
       returnA ((rule_view_of re r)\<lparr>rv_user_name := name\<rparr>)))))))))"

section \<open>Changing a rule\<close>

definition redirecting :: "update_request \<Rightarrow> bool" where
  "redirecting req = (uq_target_host req \<noteq> None \<or> uq_target_port req \<noteq> None \<or> uq_listen_ip req \<noteq> None
     \<or> uq_listen_port req \<noteq> None \<or> uq_extra_targets req \<noteq> None)"

definition update_granted :: "query_faults \<Rightarrow> claims \<Rightarrow> db_rule \<Rightarrow> update_request \<Rightarrow> panel_db \<Rightarrow> api_error + unit" where
  "update_granted io auth r req db =
     (if redirecting req \<and> \<not> is_admin auth then
        bindR (case dr_tunnel_id r of
                 Some tid \<Rightarrow> read_db io ''tunnel_granted'' (tunnel_granted db (dr_user_id r) tid)
               | None \<Rightarrow> read_db io ''node_granted'' (node_granted db (dr_user_id r) (dr_node_id r)))
          (\<lambda>ok. reject_if (\<not> ok) (Bad_Request ''grant revoked''))
      else Inr ())"

definition option_check :: "'a option \<Rightarrow> ('a \<Rightarrow> 'e + unit) \<Rightarrow> 'e + unit" where
  "option_check x f = (case x of None \<Rightarrow> Inr () | Some v \<Rightarrow> f v)"

lemma option_check_ok [simp]: "option_check x f = Inr () \<longleftrightarrow> (\<forall>v. x = Some v \<longrightarrow> f v = Inr ())"
  by (simp add: option_check_def split: option.split)

definition update_columns :: "claims \<Rightarrow> db_rule \<Rightarrow> update_request \<Rightarrow> api_error + unit" where
  "update_columns auth r req =
     bindR (option_check (uq_name req) (\<lambda>n. reject_if (trim n = []) (Bad_Request ''name''))) (\<lambda>_.
     bindR (option_check (uq_listen_ip req) (\<lambda>a. reject_if (\<not> is_valid_ip a) (Bad_Request ''listen_ip''))) (\<lambda>_.
     bindR (option_check (uq_target_host req) (\<lambda>h.
        bindR (reject_if (\<not> is_valid_target_host (trim h)) (Bad_Request ''target_host'')) (\<lambda>_.
          reject_if (\<not> is_admin auth \<and> is_internal_target_ip (trim h)) (Bad_Request ''internal target'')))) (\<lambda>_.
     bindR (reject_if (uq_listen_port req = Some 0 \<or> uq_target_port req = Some 0) (Bad_Request ''port'')) (\<lambda>_.
     bindR (reject_if (uq_max_connections req \<noteq> None \<and> \<not> is_admin auth) (Bad_Request ''admin only'')) (\<lambda>_.
     bindR (reject_if (uq_send_proxy req \<noteq> None \<and> \<not> is_admin auth) (Bad_Request ''admin only'')) (\<lambda>_.
     bindR (reject_if (uq_send_proxy req = Some True \<and> dr_tunnel_id r \<noteq> None) (Bad_Request ''proxy protocol'')) (\<lambda>_.
     bindR (option_check (uq_remote_af req) (\<lambda>af. reject_if (af \<notin> set [''auto'', ''v4'', ''v6'']) (Bad_Request ''remote_af''))) (\<lambda>_.
       reject_if (unwrap_or 0 (uq_max_connections req) < 0) (Bad_Request ''max_connections'')))))))))"

definition update_profile :: "query_faults \<Rightarrow> claims \<Rightarrow> update_request \<Rightarrow> panel_db \<Rightarrow> api_error + unit" where
  "update_profile io auth req db = option_check (uq_profile_id req) (\<lambda>pid.
     bindR (reject_if (\<not> is_admin auth) (Bad_Request ''admin only'')) (\<lambda>_.
     bindR (reject_if (pid < 0) (Bad_Request ''profile id'')) (\<lambda>_.
       if 0 < pid then
         bindR (read_db io ''find_profile'' (find_profile db pid)) (\<lambda>row.
         bindR (ok_or (Bad_Request ''no such profile'') row) (\<lambda>_. Inr ()))
       else Inr ())))"

definition update_port ::
    "route_env \<Rightarrow> query_faults \<Rightarrow> db_rule \<Rightarrow> update_request \<Rightarrow> panel_db \<Rightarrow> api_error + unit" where
  "update_port re io r req db =
     (let port = unwrap_or (dr_listen_port r) (map_option uint (uq_listen_port req));
          ip = unwrap_or (dr_listen_ip r) (uq_listen_ip req) in
      bindR (read_db io ''find_node'' (find_node db (dr_node_id r))) (\<lambda>row.
      bindR (ok_or Not_Found row) (\<lambda>node.
      bindR (reject_if (port < nd_pool_min node \<or> nd_pool_max node < port) (Bad_Request ''port pool'')) (\<lambda>_.
      bindR (reject_if (List.member (reserved_now re io db) port) (Bad_Request ''reserved port'')) (\<lambda>_.
        ensure_no_protocol_conflict io db (dr_node_id r) ip port (dr_protocol r) (Some (dr_id r)))))))"

definition update_targets ::
    "route_env \<Rightarrow> claims \<Rightarrow> db_rule \<Rightarrow> update_request \<Rightarrow> api_error + (string option \<times> string) option" where
  "update_targets re auth r req =
     (if uq_extra_targets req \<noteq> None \<or> uq_lb_strategy req \<noteq> None then
        (let extra = unwrap_or [] (uq_extra_targets req) in
         bindR (reject_if (dr_tunnel_id r \<noteq> None \<and> extra \<noteq> []) (Bad_Request ''tunnel targets'')) (\<lambda>_.
         bindR (validate_targets re extra (Some (unwrap_or (dr_lb_strategy r) (uq_lb_strategy req))) (is_admin auth))
           (\<lambda>t. Inr (Some t))))
      else Inr None)"

definition update_checks ::
    "route_env \<Rightarrow> query_faults \<Rightarrow> claims \<Rightarrow> int \<Rightarrow> update_request \<Rightarrow> panel_db \<Rightarrow> api_error + (string option \<times> string) option" where
  "update_checks re io auth i req db =
     bindR (fetch_rule io ''find_rule'' db i) (\<lambda>r.
     bindR (ensure_can_touch auth r) (\<lambda>_.
     bindR (update_granted io auth r req db) (\<lambda>_.
     bindR (update_columns auth r req) (\<lambda>_.
     bindR (update_profile io auth req db) (\<lambda>_.
     bindR (update_port re io r req db) (\<lambda>_.
       update_targets re auth r req))))))"

definition update_row :: "int \<Rightarrow> update_request \<Rightarrow> panel_db \<Rightarrow> (sql_error + nat) \<times> panel_db" where
  "update_row i req =
     update_fields i (map_option trim (uq_name req)) (uq_listen_ip req) (map_option uint (uq_listen_port req))
       (map_option trim (uq_target_host req)) (map_option uint (uq_target_port req)) (uq_profile_id req)
       (uq_max_connections req)"

text \<open>The part of \<^verbatim>\<open>update\<close> before the commands: the new row.\<close>

definition update_stored :: "route_env \<Rightarrow> query_faults \<Rightarrow> claims \<Rightarrow> string \<Rightarrow> int \<Rightarrow> update_request \<Rightarrow> db_rule api" where
  "update_stored re io auth ip i req =
     bindA (ask (update_checks re io auth i req)) (\<lambda>targets.
     bindA (write_db io ''update_rule'' map_sqlx_to_api (update_row i req)) (\<lambda>rows.
     bindA (ask (\<lambda>_. reject_if (rows = 0) Not_Found)) (\<lambda>_.
     bindA (case targets of
              Some (extra_json, lb_strat) \<Rightarrow> update_db io ''set_targets'' (set_targets i extra_json lb_strat)
            | None \<Rightarrow> returnA ()) (\<lambda>_.
     bindA (case uq_send_proxy req of
              Some v \<Rightarrow> update_db io ''set_send_proxy'' (set_send_proxy_protocol i v) | None \<Rightarrow> returnA ()) (\<lambda>_.
     bindA (case uq_remote_af req of
              Some af \<Rightarrow> update_db io ''set_remote_af'' (set_remote_af i af) | None \<Rightarrow> returnA ()) (\<lambda>_.
     bindA (ask (\<lambda>db. fetch_rule io ''reread_rule'' db i)) (\<lambda>r.
     bindA (doA (record_with_ip io (Some (cl_sub auth)) (as_option ip) ''rule.update'' (Some ''rule'') (Some i)
              None True None)) (\<lambda>_.
       returnA r))))))))"

definition update_rule :: "route_env \<Rightarrow> query_faults \<Rightarrow> claims \<Rightarrow> string \<Rightarrow> int \<Rightarrow> update_request \<Rightarrow> rule_view api" where
  "update_rule re io auth ip i req =
     bindA (update_stored re io auth ip i req) (\<lambda>r.
     bindA (doA (dispatch_rule_apply_locked (re_panel re) io r)) (\<lambda>_.
       returnA (rule_view_of re r)))"

section \<open>The other handlers\<close>

definition own_rule :: "query_faults \<Rightarrow> claims \<Rightarrow> int \<Rightarrow> panel_db \<Rightarrow> api_error + db_rule" where
  "own_rule io auth i db =
     bindR (fetch_rule io ''find_rule'' db i) (\<lambda>r. bindR (ensure_can_touch auth r) (\<lambda>_. Inr r))"

definition get_rule :: "route_env \<Rightarrow> query_faults \<Rightarrow> claims \<Rightarrow> int \<Rightarrow> rule_view api" where
  "get_rule re io auth i =
     bindA (ask (own_rule io auth i)) (\<lambda>r.
     bindA (ask (\<lambda>db. lookup_username io db (dr_user_id r))) (\<lambda>name.
       returnA ((rule_view_of re r)\<lparr>rv_user_name := name\<rparr>)))"

text \<open>The nodes are read before the row is marked; without them nothing is sent.\<close>

definition delete_rule :: "query_faults \<Rightarrow> claims \<Rightarrow> string \<Rightarrow> int \<Rightarrow> bool api" where
  "delete_rule io auth ip i =
     bindA (ask (own_rule io auth i)) (\<lambda>r.
     bindA (ask (\<lambda>db. Inr (case rule_target_nodes io db r of Inl _ \<Rightarrow> None | Inr ns \<Rightarrow> Some ns))) (\<lambda>nodes.
     bindA (write_db io ''soft_delete'' Database (\<lambda>db. case soft_delete_rule i db of (n, db') \<Rightarrow> (Inr n, db'))) (\<lambda>rows.
     bindA (ask (\<lambda>_. reject_if (rows = 0) Not_Found)) (\<lambda>_.
     bindA (doA (record_with_ip io (Some (cl_sub auth)) (as_option ip) ''rule.delete'' (Some ''rule'') (Some i)
              None True None)) (\<lambda>_.
       case nodes of
         Some ns \<Rightarrow> (\<lambda>p. case dispatch_rule_remove_to (dr_id r) ns p of (ok, p1) \<Rightarrow> (Inr ok, p1))
       | None \<Rightarrow> returnA False)))))"

definition set_enabled_handler ::
    "route_env \<Rightarrow> query_faults \<Rightarrow> claims \<Rightarrow> string \<Rightarrow> int \<Rightarrow> bool \<Rightarrow> string \<Rightarrow> bool api" where
  "set_enabled_handler re io auth ip i on action =
     bindA (ask (own_rule io auth i)) (\<lambda>_.
     bindA (write_db io ''set_enabled'' Database (\<lambda>db. case set_enabled i on db of (n, db') \<Rightarrow> (Inr n, db'))) (\<lambda>rows.
     bindA (ask (\<lambda>_. reject_if (rows = 0) Not_Found)) (\<lambda>_.
     bindA (doA (record_with_ip io (Some (cl_sub auth)) (as_option ip) action (Some ''rule'') (Some i)
              None True None)) (\<lambda>_.
     bindA (ask (\<lambda>db. Inr (case fetch_rule io ''reread_rule'' db i of Inl _ \<Rightarrow> None | Inr r \<Rightarrow> Some r))) (\<lambda>r.
     bindA (case r of Some r \<Rightarrow> doA (dispatch_rule_apply_locked (re_panel re) io r) | None \<Rightarrow> returnA ()) (\<lambda>_.
       returnA on))))))"

definition enable_rule :: "route_env \<Rightarrow> query_faults \<Rightarrow> claims \<Rightarrow> string \<Rightarrow> int \<Rightarrow> bool api" where
  "enable_rule re io auth ip i = set_enabled_handler re io auth ip i True ''rule.enable''"

definition disable_rule :: "route_env \<Rightarrow> query_faults \<Rightarrow> claims \<Rightarrow> string \<Rightarrow> int \<Rightarrow> bool api" where
  "disable_rule re io auth ip i = set_enabled_handler re io auth ip i False ''rule.disable''"

definition restart_rule_handler :: "query_faults \<Rightarrow> claims \<Rightarrow> string \<Rightarrow> int \<Rightarrow> bool api" where
  "restart_rule_handler io auth ip i =
     bindA (ask (own_rule io auth i)) (\<lambda>r.
     bindA (doA (record_with_ip io (Some (cl_sub auth)) (as_option ip) ''rule.restart'' (Some ''rule'') (Some i)
              None True None)) (\<lambda>_.
       (\<lambda>p. case dispatch_rule_restart io r p of
              (Inl e, p1) \<Rightarrow> (Inl (Database e), p1) | (Inr ok, p1) \<Rightarrow> (Inr ok, p1))))"

text \<open>The last 144 buckets of a rule, the newest first; a bucket occurs once per rule.\<close>

definition rule_series :: "panel_db \<Rightarrow> int \<Rightarrow> rule_stat_row list" where
  "rule_series db i = take 144 (rev (sort_key rs_bucket_at (filter (\<lambda>s. rs_rule_id s = i) (db_rule_stats db))))"

definition rule_stats :: "query_faults \<Rightarrow> claims \<Rightarrow> int \<Rightarrow> (bool \<times> int \<times> int \<times> int \<times> rule_stat_row list) api" where
  "rule_stats io auth i =
     bindA (ask (own_rule io auth i)) (\<lambda>r.
     bindA (ask (\<lambda>db. read_db io ''rule_series'' (rule_series db i))) (\<lambda>series.
       returnA (dr_enabled r \<noteq> 0, dr_rx r, dr_tx r, dr_conn r, series)))"

text \<open>The log of a rule, also of a deleted one; ids of log entries grow with their order.\<close>

definition rule_logs :: "query_faults \<Rightarrow> claims \<Rightarrow> int \<Rightarrow> audit_row list api" where
  "rule_logs io auth i =
     bindA (ask (\<lambda>db. read_db io ''log_owner'' (map_option dr_user_id (find (\<lambda>r. dr_id r = i) (db_rules db))))) (\<lambda>owner.
     bindA (ask (\<lambda>_. ok_or Not_Found owner)) (\<lambda>owner.
     bindA (ask (\<lambda>_. reject_if (\<not> is_admin auth \<and> owner \<noteq> cl_sub auth) Not_Found)) (\<lambda>_.
     ask (\<lambda>db. read_db io ''rule_logs''
       (take 200 (rev (filter (\<lambda>a. au_target_type a = Some ''rule'' \<and> au_target_id a = Some i) (db_audit db))))))))"

section \<open>Listing\<close>

definition SORT_FIELDS :: "string list" where
  "SORT_FIELDS = [''id'', ''name'', ''node_id'', ''protocol'', ''listen_port'', ''enabled'', ''created_at'', ''updated_at'']"

text \<open>The filter of \<^verbatim>\<open>rule_filter_where\<close> with the values of \<^verbatim>\<open>bind_rule_filters!\<close>.\<close>

definition like_pattern :: "string \<Rightarrow> string" where
  "like_pattern s = CHR ''%'' # escape_like s @ ''%''"

definition rule_filter ::
    "int option \<Rightarrow> string option \<Rightarrow> string option \<Rightarrow> int option \<Rightarrow> int option \<Rightarrow> bool option \<Rightarrow> db_rule \<Rightarrow> bool" where
  "rule_filter node proto search restrict user enabled r =
     (\<not> dr_deleted r
      \<and> (case node of None \<Rightarrow> True | Some n \<Rightarrow> dr_node_id r = n)
      \<and> (case proto of None \<Rightarrow> True | Some q \<Rightarrow> dr_protocol r = q)
      \<and> (case search of None \<Rightarrow> True
         | Some s \<Rightarrow> like_match (like_pattern s) (dr_name r) \<or> like_match (like_pattern s) (dr_target_host r)
             \<or> show_int (dr_listen_port r) = s)
      \<and> (case restrict of None \<Rightarrow> True | Some u \<Rightarrow> dr_user_id r = u)
      \<and> (case user of None \<Rightarrow> True | Some u \<Rightarrow> dr_user_id r = u)
      \<and> (case enabled of None \<Rightarrow> True | Some e \<Rightarrow> dr_enabled r = (if e then 1 else 0)))"

definition list_paged ::
    "route_env \<Rightarrow> string \<Rightarrow> bool \<Rightarrow> nat \<Rightarrow> nat \<Rightarrow> (db_rule \<Rightarrow> bool) \<Rightarrow> panel_db \<Rightarrow> db_rule list" where
  "list_paged re field desc limit offset f db =
     take limit (drop offset (re_order re field desc (map (select_rule db) (filter f (db_rules db)))))"

text \<open>\<^verbatim>\<open>saturating_mul\<close> on the \<^verbatim>\<open>i64\<close> values of the query.\<close>

definition list_offset :: "int \<Rightarrow> int \<Rightarrow> int" where
  "list_offset page psize = min (2 ^ 63 - 1) ((page - 1) * psize)"

definition list_rules ::
    "route_env \<Rightarrow> query_faults \<Rightarrow> claims \<Rightarrow> list_query \<Rightarrow> (rule_view list \<times> nat \<times> int \<times> int) api" where
  "list_rules re io auth q =
     (let page = max 1 (unwrap_or 1 (lq_page q)); psize = clamp 1 100 (unwrap_or 20 (lq_page_size q));
          field = unwrap_or ''id'' (lq_sort q); order = unwrap_or ''desc'' (lq_order q);
          restrict = (if is_admin auth then None else Some (cl_sub auth));
          f = rule_filter (lq_node_id q) (lq_protocol q) (lq_search q) restrict (lq_user_id q) (lq_enabled q) in
      bindA (ask (\<lambda>_. reject_if (field \<notin> set SORT_FIELDS) (Bad_Request ''sort''))) (\<lambda>_.
      bindA (ask (\<lambda>_. reject_if (order \<notin> set [''asc'', ''desc'']) (Bad_Request ''order''))) (\<lambda>_.
      bindA (ask (\<lambda>_. option_check (lq_protocol q) validate_protocol)) (\<lambda>_.
      bindA (ask (\<lambda>db. read_db io ''list_rules''
        (list_paged re field (order = ''desc'') (nat psize) (nat (list_offset page psize)) f db))) (\<lambda>items.
      bindA (ask (\<lambda>db. read_db io ''count_rules'' (length (filter f (db_rules db))))) (\<lambda>n.
      bindA (ask (\<lambda>db. if items = [] then Inr []
        else read_db io ''usernames'' (map (\<lambda>r. map_option us_username
          (find (\<lambda>u. us_id u = dr_user_id r) (db_users db))) items))) (\<lambda>names.
        returnA (map (\<lambda>(r, name). (rule_view_of re r)\<lparr>rv_user_name := name\<rparr>) (zip items names), n, page, psize))))))))"

end
