(* ===== verification/Replay.thy ===== *)
theory Replay
  imports Tunnel_Dispatch
begin

text \<open>
  What the commands of a replay make a node run: the rows of the database that concern a node,
  one message for each of them, and the comparison with the specification \<open>wanted\<close> of
  Tunnel_Dispatch.
\<close>

section \<open>The rows of a node\<close>

definition tunnel_rows :: "panel_db \<Rightarrow> int \<Rightarrow> int \<Rightarrow> db_rule list" where
  "tunnel_rows db n tid = filter (\<lambda>r. map_of (tunnel_parts db r tid) n \<noteq> None) (list_active_for_tunnel db tid)"

definition node_rows :: "panel_db \<Rightarrow> int \<Rightarrow> db_rule list" where
  "node_rows db n = filter (\<lambda>r. dr_tunnel_id r = None) (list_active_for_node db n)
     @ concat (map (tunnel_rows db n) (list_tunnel_ids_for_node db n))"

definition node_part :: "panel_env \<Rightarrow> panel_db \<Rightarrow> int \<Rightarrow> db_rule \<Rightarrow> rule" where
  "node_part pe db n r = (case dr_tunnel_id r of
     None \<Rightarrow> rule_to_proto (pe_decode pe) r (node_mask db n)
   | Some tid \<Rightarrow> the (map_of (tunnel_parts db r tid) n))"

lemma filter_node:
  "distinct (map fst ps) \<Longrightarrow>
   map snd (filter (\<lambda>(a, _). a = n) ps) = (case map_of ps n of None \<Rightarrow> [] | Some x \<Rightarrow> [x])"
proof (induction ps)
  case Nil
  then show ?case by simp
next
  case (Cons p ps)
  obtain a x where p: "p = (a, x)" by (cases p)
  show ?case
  proof (cases "a = n")
    case True
    then have "map_of ps n = None"
      using Cons.prems p by (simp add: map_of_eq_None_iff)
    with Cons p True show ?thesis by simp
  next
    case False
    with Cons p show ?thesis by simp
  qed
qed

lemma distinct_concat_map:
  assumes "distinct ts" "\<And>t. distinct (g t)" "\<And>t r. r \<in> set (g t) \<Longrightarrow> h r = t"
  shows "distinct (concat (map g ts))"
  using assms(1)
proof (induction ts)
  case Nil
  then show ?case by simp
next
  case (Cons t ts)
  have "r \<notin> set (concat (map g ts))" if "r \<in> set (g t)" for r
  proof
    assume "r \<in> set (concat (map g ts))"
    then obtain u where "u \<in> set ts" "r \<in> set (g u)" by auto
    with assms(3) [of r u] assms(3) [OF that] Cons.prems show False by auto
  qed
  then have "set (g t) \<inter> set (concat (map g ts)) = {}" by blast
  with Cons assms(2) show ?case by simp
qed

lemma concat_optional:
  "concat (map (\<lambda>r. case f r of None \<Rightarrow> [] | Some x \<Rightarrow> [x]) rs) = map (\<lambda>r. the (f r)) (filter (\<lambda>r. f r \<noteq> None) rs)"
  by (induction rs) (auto split: option.splits)

lemma parts_nodes:
  assumes "tunnels_wf db"
  shows "distinct (map fst (tunnel_parts db r tid))"
  using assms
  by (auto simp: tunnels_wf_def tunnel_parts_def split_nodes hop_input_of_def comp_def split: option.split)

lemma parts_ids:
  "map_of (tunnel_parts db r tid) n = Some q \<Longrightarrow> r_id q = dr_id r"
  by (auto simp: tunnel_parts_def split_input_of_def dest!: map_of_SomeD split_ids split: option.splits)

lemma parts_enabled:
  "map_of (tunnel_parts db r tid) n = Some q \<Longrightarrow> r_enabled q \<longleftrightarrow> dr_enabled r \<noteq> 0"
  by (auto simp: tunnel_parts_def split_input_of_def dest!: map_of_SomeD split_enabled split: option.splits)

lemma tunnel_of_rows: "r \<in> set (list_active_for_tunnel db tid) \<Longrightarrow> dr_tunnel_id r = Some tid"
  by (auto simp: set_list_active_for_tunnel)

lemma tunnel_node_rules_rows:
  assumes "tunnels_wf db"
  shows "tunnel_node_rules db n tid = map (node_part pe db n) (tunnel_rows db n tid)"
proof (cases "find_tunnel db tid")
  case None
  then show ?thesis
    by (simp add: tunnel_node_rules_def tunnel_rows_def tunnel_parts_def)
next
  case (Some t)
  have "tunnel_node_rules db n tid =
      concat (map (\<lambda>r. case map_of (tunnel_parts db r tid) n of None \<Rightarrow> [] | Some x \<Rightarrow> [x]) (list_active_for_tunnel db tid))"
    using Some filter_node [OF parts_nodes [OF assms]] by (simp add: tunnel_node_rules_def)
  also have "\<dots> = map (\<lambda>r. the (map_of (tunnel_parts db r tid) n)) (tunnel_rows db n tid)"
    by (simp only: concat_optional tunnel_rows_def)
  also have "\<dots> = map (node_part pe db n) (tunnel_rows db n tid)"
    by (rule map_cong) (auto simp: tunnel_rows_def node_part_def dest: tunnel_of_rows)
  finally show ?thesis .
qed

lemma applied_node_rows:
  assumes "reconcile_commands_for_node pe io db n = Inr cmds" "tunnels_wf db"
  shows "applied_rules cmds = map (node_part pe db n) (node_rows db n)"
proof -
  have "map (\<lambda>r. rule_to_proto (pe_decode pe) r (node_mask db n)) (filter (\<lambda>r. dr_tunnel_id r = None) rs)
      = map (node_part pe db n) (filter (\<lambda>r. dr_tunnel_id r = None) rs)" for rs
    by (rule map_cong) (auto simp: node_part_def)
  then show ?thesis
    unfolding reconcile_applied(1) [OF assms(1)] node_rows_def
    by (simp add: tunnel_node_rules_rows [OF assms(2), of n _ pe, abs_def] map_concat comp_def)
qed

lemma live_tunnel_listed:
  assumes "map_of (tunnel_parts db r tid) n \<noteq> None"
  shows "tid \<in> set (list_tunnel_ids_for_node db n)"
proof -
  have "find_tunnel db tid \<noteq> None"
    using assms by (cases "find_tunnel db tid") (simp_all add: tunnel_parts_def)
  then obtain t where t: "find_tunnel db tid = Some t" by blast
  with assms have n: "n \<in> fst ` set (split_tunnel_rule (split_input_of r tid t) (map (hop_input_of db) (list_for_tunnel db tid)))"
    by (simp add: tunnel_parts_def map_of_eq_None_iff)
  have "n \<in> set (map hi_node_id (map (hop_input_of db) (list_for_tunnel db tid)))"
    using n by (metis list.set_map split_nodes)
  then obtain h where "h \<in> set (list_for_tunnel db tid)" "hp_node_id h = n"
    by (auto simp: hop_input_of_def)
  with t show ?thesis
    by (auto simp: set_list_tunnel_ids_for_node set_list_for_tunnel find_tunnel_def dest!: find_SomeD)
qed

lemma found_row:
  assumes "rules_wf db"
  shows "find_rule db (dr_id r) = Some r \<longleftrightarrow> (\<exists>x \<in> set (db_rules db). r = select_rule db x \<and> \<not> dr_deleted x)"
  unfolding find_rule_Some_iff [OF assms] by (metis select_rule_simps(1))

lemma listed_for_node:
  assumes "rules_wf db"
  shows "r \<in> set (list_active_for_node db n) \<longleftrightarrow> find_rule db (dr_id r) = Some r \<and> dr_node_id r = n"
  unfolding found_row [OF assms] set_list_active_for_node mem_Collect_eq by (metis select_rule_simps(2))

lemma listed_for_tunnel:
  assumes "rules_wf db"
  shows "r \<in> set (list_active_for_tunnel db t) \<longleftrightarrow> find_rule db (dr_id r) = Some r \<and> dr_tunnel_id r = Some t"
  unfolding found_row [OF assms] set_list_active_for_tunnel mem_Collect_eq by (metis select_rule_simps(4))

text \<open>The rows of a node are the live rules that the specification gives it a message for.\<close>

lemma set_node_rows:
  assumes "rules_wf db"
  shows "r \<in> set (node_rows db n) \<longleftrightarrow> find_rule db (dr_id r) = Some r \<and> wanted pe db n (dr_id r) = Some (node_part pe db n r)"
proof (cases "dr_tunnel_id r")
  case None
  have "r \<notin> set (tunnel_rows db n tid)" for tid
    using None by (auto simp: tunnel_rows_def dest: tunnel_of_rows)
  then have "r \<in> set (node_rows db n) \<longleftrightarrow> r \<in> set (list_active_for_node db n)"
    using None by (auto simp: node_rows_def)
  also have "\<dots> \<longleftrightarrow> find_rule db (dr_id r) = Some r \<and> dr_node_id r = n"
    by (rule listed_for_node [OF assms])
  finally show ?thesis
    using None by (cases "find_rule db (dr_id r)") (auto simp: wanted_def node_part_def)
next
  case (Some tid)
  have "r \<in> set (tunnel_rows db n u) \<Longrightarrow> u = tid" for u
    using Some by (auto simp: tunnel_rows_def dest: tunnel_of_rows)
  then have "r \<in> set (node_rows db n) \<longleftrightarrow> tid \<in> set (list_tunnel_ids_for_node db n) \<and> r \<in> set (tunnel_rows db n tid)"
    using Some by (auto simp: node_rows_def)
  also have "\<dots> \<longleftrightarrow> r \<in> set (list_active_for_tunnel db tid) \<and> map_of (tunnel_parts db r tid) n \<noteq> None"
    using live_tunnel_listed [of db r tid n] unfolding tunnel_rows_def by auto
  also have "\<dots> \<longleftrightarrow> find_rule db (dr_id r) = Some r \<and> map_of (tunnel_parts db r tid) n \<noteq> None"
    using listed_for_tunnel [OF assms] Some by simp
  finally show ?thesis
    using Some by (cases "find_rule db (dr_id r)") (auto simp: wanted_def node_part_def)
qed

lemma wanted_row:
  assumes "rules_wf db" "wanted pe db n i = Some q"
  obtains r where "r \<in> set (node_rows db n)" "dr_id r = i" "node_part pe db n r = q"
proof -
  from assms(2) obtain r where r: "find_rule db i = Some r"
    by (auto simp: wanted_def split: option.splits)
  then have i: "dr_id r = i"
    unfolding find_rule_Some_iff [OF assms(1)] by auto
  have q: "node_part pe db n r = q"
    using assms(2) r by (auto simp: wanted_def node_part_def split: option.splits if_splits)
  have "r \<in> set (node_rows db n)"
    using set_node_rows [OF assms(1), of r n pe] r i q assms(2) by simp
  with i q that show thesis by blast
qed

lemma node_part_id:
  assumes "rules_wf db" "r \<in> set (node_rows db n)"
  shows "r_id (node_part pe db n r) = dr_id r"
proof -
  have *: "find_rule db (dr_id r) = Some r" "wanted pe db n (dr_id r) = Some (node_part pe db n r)"
    using assms by (simp_all add: set_node_rows [OF assms(1), of _ _ pe])
  show ?thesis
  proof (cases "dr_tunnel_id r")
    case None
    then show ?thesis by (simp add: node_part_def rule_to_proto_def)
  next
    case (Some tid)
    with * have "map_of (tunnel_parts db r tid) n = Some (node_part pe db n r)"
      by (simp add: wanted_def)
    then show ?thesis by (rule parts_ids)
  qed
qed

lemma distinct_select:
  assumes "rules_wf db"
  shows "distinct (map (select_rule db) (sort_key dr_id (filter P (db_rules db))))"
proof -
  have "distinct (map dr_id (sort_key dr_id (filter P (db_rules db))))"
    using assms
    by (metis rules_wf_def distinct_map distinct_filter distinct_sort filter_is_subset inj_on_subset set_sort)
  then have "distinct (map dr_id (map (select_rule db) (sort_key dr_id (filter P (db_rules db)))))"
    by (simp add: comp_def)
  then show ?thesis
    by (metis distinct_map)
qed

lemma distinct_node_rows:
  assumes "rules_wf db"
  shows "distinct (map dr_id (node_rows db n))"
proof -
  have "distinct (concat (map (tunnel_rows db n) (list_tunnel_ids_for_node db n)))"
    by (rule distinct_concat_map [where h = "\<lambda>r. the (dr_tunnel_id r)"])
      (auto simp: tunnel_rows_def list_tunnel_ids_for_node_def list_active_for_tunnel_def distinct_sort_dedup
         distinct_select [OF assms] intro: distinct_filter)
  then have "distinct (node_rows db n)"
    using distinct_select [OF assms]
    by (auto simp: node_rows_def list_active_for_node_def tunnel_rows_def dest!: tunnel_of_rows)
  moreover have "inj_on dr_id (set (node_rows db n))"
    by (rule inj_onI) (metis set_node_rows [OF assms] option.inject)
  ultimately show ?thesis
    by (simp add: distinct_map)
qed

lemma find_eq_map:
  assumes "distinct (map f xs)" "\<And>x. x \<in> set xs \<Longrightarrow> w (f x) = Some x" "\<And>i x. w i = Some x \<Longrightarrow> x \<in> set xs \<and> f x = i"
  shows "find (\<lambda>x. f x = i \<and> P x) xs = (case w i of None \<Rightarrow> None | Some x \<Rightarrow> if P x then Some x else None)"
proof (cases "w i")
  case None
  then have "\<forall>x \<in> set xs. f x \<noteq> i"
    using assms(2) by force
  with None show ?thesis by (auto simp: find_None_iff)
next
  case (Some x)
  with assms(3) have "x \<in> set xs" "f x = i" by blast+
  with Some find_ids [OF assms(1)] show ?thesis by auto
qed

lemma applied_wanted:
  assumes "reconcile_commands_for_node pe io db n = Inr cmds" "rules_wf db" "tunnels_wf db"
    "q \<in> set (applied_rules cmds)"
  shows "wanted pe db n (r_id q) = Some q"
proof -
  obtain r where r: "r \<in> set (node_rows db n)" "q = node_part pe db n r"
    using assms(4) by (auto simp: applied_node_rows [OF assms(1,3)])
  with set_node_rows [OF assms(2), of r n pe] node_part_id [OF assms(2), of r n pe] show ?thesis
    by simp
qed

lemma replay_rules:
  assumes "reconcile_commands_for_node pe io db n = Inr cmds" "rules_wf db" "tunnels_wf db"
  shows "distinct (map r_id (applied_rules cmds))"
    "find (\<lambda>r. r_id r = i \<and> P r) (applied_rules cmds) =
       (case wanted pe db n i of None \<Rightarrow> None | Some r \<Rightarrow> if P r then Some r else None)"
proof -
  note eq = applied_node_rows [OF assms(1,3)]
  have "map r_id (applied_rules cmds) = map dr_id (node_rows db n)"
    unfolding eq by (simp add: node_part_id [OF assms(2)])
  with distinct_node_rows [OF assms(2)] show d: "distinct (map r_id (applied_rules cmds))"
    by simp
  have w: "wanted pe db n (r_id q) = Some q" if "q \<in> set (applied_rules cmds)" for q
    using applied_wanted [OF assms that] .
  have v: "q \<in> set (applied_rules cmds) \<and> r_id q = j" if "wanted pe db n j = Some q" for j q
    by (rule wanted_row [OF assms(2) that]) (auto simp: eq node_part_id [OF assms(2)])
  show "find (\<lambda>r. r_id r = i \<and> P r) (applied_rules cmds) =
       (case wanted pe db n i of None \<Rightarrow> None | Some r \<Rightarrow> if P r then Some r else None)"
    by (rule find_eq_map [of r_id "applied_rules cmds" "wanted pe db n", OF d w v])
qed

lemma replay_ids: "set (authoritative_rule_ids cmds) = r_id ` set (applied_rules cmds)"
  by (simp add: authoritative_rule_ids_def)

section \<open>Properties\<close>

text \<open>C2. The replay for a node that connects is what the database says: when no query fails, the
  rules it applies have pairwise different ids, rule \<open>i\<close> is applied exactly as the specification
  says, which for a rule of a tunnel is the part of this node and for any other rule its own
  message with the blocked protocols of the node, and the ids of the closing reconciliation are
  exactly those of the rules the node should have. Nothing but rules and credentials is sent before it.\<close>

theorem replay_matches_database:
  assumes "reconcile_commands_for_node pe io db n = Inr cmds" "rules_wf db" "tunnels_wf db"
  shows "distinct (map r_id (applied_rules cmds))
    \<and> find (\<lambda>r. r_id r = i) (applied_rules cmds) = wanted pe db n i
    \<and> (i \<in> set (authoritative_rule_ids cmds) \<longleftrightarrow> wanted pe db n i \<noteq> None)
    \<and> replay_batch pe io db n = cmds @ [reconcile_command (authoritative_rule_ids cmds)]
    \<and> (\<forall>c \<in> set cmds. (\<exists>q. c = apply_command q) \<or> credentials c)"
proof -
  have f: "find (\<lambda>r. r_id r = i) (applied_rules cmds) = wanted pe db n i"
    using replay_rules(2) [OF assms, of i "\<lambda>_. True"] by (simp split: option.splits)
  then have "i \<in> r_id ` set (applied_rules cmds) \<longleftrightarrow> wanted pe db n i \<noteq> None"
    by (metis (mono_tags, lifting) find_None_iff image_iff)
  with f show ?thesis
    using replay_rules(1) [OF assms] reconcile_applied(2) [OF assms(1)] assms(1)
    by (simp add: replay_ids replay_batch_def)
qed

definition sample_rule :: "int \<Rightarrow> int \<Rightarrow> int option \<Rightarrow> db_rule" where
  "sample_rule i port tid =
     \<lparr>dr_id = i, dr_user_id = 1, dr_node_id = 1, dr_name = ''r'', dr_protocol = ''tcp'',
      dr_listen_ip = ''1.1.1.1'', dr_listen_port = port, dr_target_host = ''a'', dr_target_port = 81,
      dr_enabled = 1, dr_rx = 0, dr_tx = 0, dr_conn = 0, dr_profile_id = None, dr_bandwidth_mbps = None,
      dr_tunnel_id = tid, dr_max_connections = None, dr_extra_targets = None, dr_lb_strategy = ''fifo'',
      dr_send_proxy = 0, dr_remote_af = ''auto'', dr_deleted = False\<rparr>"

definition sample_node :: "int \<Rightarrow> string \<Rightarrow> node_row" where
  "sample_node i ip =
     \<lparr>nd_id = i, nd_name = ''n'', nd_region = [], nd_public_ip = ip, nd_display_address = [],
      nd_grpc_endpoint = [], nd_token_hash = ''h'', nd_cert_serial = Some ''s'', nd_cert_fingerprint = Some ''f'',
      nd_status = ''online'', nd_last_seen = None, nd_cpu_usage = 0, nd_memory_usage = 0, nd_load_average = 0,
      nd_rx_total = 0, nd_tx_total = 0, nd_pool_min = 10000, nd_pool_max = 20000, nd_agent_version = ''v'',
      nd_block_protocols = 0, nd_has_ipv4 = None, nd_has_ipv6 = None, nd_created_at = 0, nd_updated_at = 0, nd_deleted = False\<rparr>"

definition sample_tunnel :: tunnel_row where
  "sample_tunnel = \<lparr>tu_id = 4, tu_name = ''t'', tu_transport = ''tls'', tu_status = ''unknown'', tu_ratio = 1, tu_billing_mode = 0,
     tu_created_at = 0, tu_rotated_at = None, tu_deleted = False\<rparr>"

text \<open>Two nodes, a tunnel from node 1 to node 2, a rule of node 1 and a rule of the tunnel.\<close>

definition sample_db :: panel_db where
  "sample_db =
     \<lparr>db_rules = [sample_rule 7 80 None, sample_rule 8 90 (Some 4)], db_next_rule = 9,
      db_nodes = [sample_node 1 ''1.1.1.1'', sample_node 2 ''2.2.2.2''], db_next_node = 3,
      db_users = [\<lparr>us_id = 1, us_username = ''u'', us_password_hash = ''w'', us_role = ''user'', us_expires_at = None, us_limit_30d = None, us_used_cached = 0, us_calculated_at = None, us_must_change = 0,
         us_reset_day = None, us_rules_quota = None, us_deleted = False\<rparr>],
      db_next_user = 2, db_profiles = [], db_next_profile = 1, db_tunnels = [sample_tunnel], db_next_tunnel = 5,
      db_hops = [\<lparr>hp_tunnel_id = 4, hp_ordinal = 0, hp_node_id = 1, hp_inter_port = None\<rparr>,
         \<lparr>hp_tunnel_id = 4, hp_ordinal = 1, hp_node_id = 2, hp_inter_port = Some 20000\<rparr>],
      db_node_grants = [(1, 1)], db_tunnel_grants = [(1, 4, None)], db_rule_stats = [], db_node_stats = [],
      db_settings = [], db_audit = [], db_now = 0\<rparr>"

definition sample_env :: panel_env where
  "sample_env = \<lparr>pe_decode = (\<lambda>_. None),
     pe_issue = (\<lambda>_ _. Some \<lparr>hc_server_cert = ''a'', hc_server_key = ''b'', hc_client_cert = ''c'', hc_client_key = ''d''\<rparr>),
     pe_ca_pem = ''ca''\<rparr>"

lemma sample_db_wf: "rules_wf sample_db" "tunnels_wf sample_db" "\<forall>r \<in> set (db_rules sample_db). rule_checks r"
proof -
  show "rules_wf sample_db"
    by (simp add: rules_wf_def sample_db_def sample_rule_def)
  show "tunnels_wf sample_db"
    by (simp add: tunnels_wf_def list_for_tunnel_def sample_db_def)
  show "\<forall>r \<in> set (db_rules sample_db). rule_checks r"
    by (simp add: sample_db_def sample_rule_def rule_checks_def)
qed

lemma replay_matches_database_witness:
  "\<exists>cmds. reconcile_commands_for_node sample_env (\<lambda>_. False) sample_db 2 = Inr cmds
     \<and> authoritative_rule_ids cmds = [8] \<and> find (\<lambda>r. r_id r = 8) (applied_rules cmds) = wanted sample_env sample_db 2 8"
proof -
  have "(case reconcile_commands_for_node sample_env (\<lambda>_. False) sample_db 2 of
      Inl _ \<Rightarrow> False | Inr cmds \<Rightarrow> authoritative_rule_ids cmds = [8])"
    by code_simp
  then obtain cmds where c: "reconcile_commands_for_node sample_env (\<lambda>_. False) sample_db 2 = Inr cmds"
    "authoritative_rule_ids cmds = [8]"
    by (auto split: sum.splits)
  with replay_matches_database [OF c(1) sample_db_wf(1,2), of 8] show ?thesis by blast
qed

end
