(* ===== verification/Rules_Inv.thy ===== *)
theory Rules_Inv
  imports Rules_Api Replay
begin

text \<open>
  What the handlers for rules promise: the invariant of the table of rules over every run of
  calls, who may do what, what a successful call stores and what a refused one leaves alone.
\<close>

section \<open>The invariant\<close>

definition protocols_overlap :: "string \<Rightarrow> string \<Rightarrow> bool" where
  "protocols_overlap a b = (a = b \<or> a = ''tcp_udp'' \<or> b = ''tcp_udp'')"

text \<open>No two live rules listen on the same address and port of a node with a common protocol.\<close>

definition same_listener :: "db_rule \<Rightarrow> db_rule \<Rightarrow> bool" where
  "same_listener a b =
     (dr_node_id a = dr_node_id b \<and> dr_listen_ip a = dr_listen_ip b \<and> dr_listen_port a = dr_listen_port b
      \<and> protocols_overlap (dr_protocol a) (dr_protocol b))"

definition bindings_ok :: "panel_db \<Rightarrow> bool" where
  "bindings_ok db = (\<forall>a \<in> set (db_rules db). \<forall>b \<in> set (db_rules db).
     \<not> dr_deleted a \<longrightarrow> \<not> dr_deleted b \<longrightarrow> dr_id a \<noteq> dr_id b \<longrightarrow> \<not> same_listener a b)"

definition rules_inv :: "panel_db \<Rightarrow> bool" where
  "rules_inv db = (rules_wf db \<and> (\<forall>r \<in> set (db_rules db). rule_checks r) \<and> bindings_ok db)"

lemma same_listener_sym: "same_listener a b \<longleftrightarrow> same_listener b a"
  by (auto simp: same_listener_def protocols_overlap_def)

text \<open>A new value for a row that keeps its binding, or a row that goes away.\<close>

definition tame :: "(db_rule \<Rightarrow> db_rule) \<Rightarrow> bool" where
  "tame f = (\<forall>r. dr_id (f r) = dr_id r \<and> (rule_checks r \<longrightarrow> rule_checks (f r))
     \<and> (\<not> dr_deleted (f r) \<longrightarrow> \<not> dr_deleted r \<and> dr_node_id (f r) = dr_node_id r \<and> dr_listen_ip (f r) = dr_listen_ip r
          \<and> dr_listen_port (f r) = dr_listen_port r \<and> dr_protocol (f r) = dr_protocol r))"

lemma rules_inv_tame:
  assumes "rules_inv db" "tame f"
  shows "rules_inv (change_rules p f db)"
proof -
  let ?g = "\<lambda>r. if p r then f r else r"
  have g: "dr_id (?g r) = dr_id r" "rule_checks r \<Longrightarrow> rule_checks (?g r)"
      "\<not> dr_deleted (?g r) \<Longrightarrow> \<not> dr_deleted r \<and> dr_node_id (?g r) = dr_node_id r \<and> dr_listen_ip (?g r) = dr_listen_ip r
        \<and> dr_listen_port (?g r) = dr_listen_port r \<and> dr_protocol (?g r) = dr_protocol r" for r
    using assms(2) by (auto simp: tame_def)
  have l: "same_listener (?g a) (?g b) \<longleftrightarrow> same_listener a b" if "\<not> dr_deleted (?g a)" "\<not> dr_deleted (?g b)" for a b
    using g(3) [OF that(1)] g(3) [OF that(2)] unfolding same_listener_def by presburger
  have "bindings_ok (change_rules p f db)"
    unfolding bindings_ok_def set_change_rules
  proof (intro ballI impI)
    fix a b
    assume "a \<in> ?g ` set (db_rules db)" "b \<in> ?g ` set (db_rules db)" "\<not> dr_deleted a" "\<not> dr_deleted b" "dr_id a \<noteq> dr_id b"
    then obtain x y where xy: "a = ?g x" "b = ?g y" "x \<in> set (db_rules db)" "y \<in> set (db_rules db)" by blast
    have "\<not> dr_deleted x" "\<not> dr_deleted y" "dr_id x \<noteq> dr_id y"
      using \<open>\<not> dr_deleted a\<close> \<open>\<not> dr_deleted b\<close> \<open>dr_id a \<noteq> dr_id b\<close> g(1) [of x] g(1) [of y] g(3) [of x] g(3) [of y]
      unfolding xy(1,2) by simp_all
    with xy assms(1) have "\<not> same_listener x y"
      by (simp add: rules_inv_def bindings_ok_def)
    with xy l \<open>\<not> dr_deleted a\<close> \<open>\<not> dr_deleted b\<close> show "\<not> same_listener a b" by simp
  qed
  moreover have "rules_wf (change_rules p f db)"
    using assms by (auto simp: rules_inv_def tame_def intro: rules_wf_change)
  moreover have "\<forall>r \<in> set (db_rules (change_rules p f db)). rule_checks r"
    using assms by (auto simp: set_change_rules rules_inv_def tame_def)
  ultimately show ?thesis
    by (simp add: rules_inv_def)
qed

lemma rule_statements_tame:
  "tame (\<lambda>r. r\<lparr>dr_remote_af := a\<rparr>)" "tame (\<lambda>r. r\<lparr>dr_send_proxy := b\<rparr>)"
  "tame (\<lambda>r. r\<lparr>dr_extra_targets := c, dr_lb_strategy := d\<rparr>)" "e \<in> {0, 1} \<Longrightarrow> tame (\<lambda>r. r\<lparr>dr_enabled := e\<rparr>)"
  "tame (\<lambda>r. r\<lparr>dr_deleted := True\<rparr>)"
  by (simp_all add: tame_def rule_checks_def)

lemma rules_inv_statements [keeps_inv]:
  assumes "rules_inv db"
  shows "rules_inv (set_remote_af i af db)" "rules_inv (set_send_proxy_protocol i on db)"
    "rules_inv (set_targets i x s db)" "rules_inv (snd (set_enabled i on db))" "rules_inv (snd (soft_delete_rule i db))"
  using assms rule_statements_tame
  by (auto simp: set_remote_af_def set_send_proxy_protocol_def set_targets_def set_enabled_def soft_delete_rule_def
      intro!: rules_inv_tame)

text \<open>The unique index and the check of the protocols together exclude every other listener.\<close>

lemma conflict_free:
  assumes "ensure_no_protocol_conflict io db n a q proto ex = Inr ()" "x \<in> set (db_rules db)" "\<not> dr_deleted x"
    "ex = None \<or> ex = Some e \<and> dr_id x \<noteq> e" "dr_node_id x = n" "dr_listen_ip x = a" "dr_listen_port x = q"
  shows "dr_protocol x \<notin> set (conflicts_with proto)"
  using assms
  by (auto simp: ensure_no_protocol_conflict_def bindR_eq_Inr filter_empty_conv split: if_splits)

lemma overlap_cases:
  assumes "protocols_overlap a b" "a \<in> {''tcp'', ''udp'', ''tcp_udp''}" "b \<in> {''tcp'', ''udp'', ''tcp_udp''}"
  shows "a = b \<or> a \<in> set (conflicts_with b)"
  using assms by (auto simp: protocols_overlap_def conflicts_with_def)

lemma no_listener:
  assumes "ensure_no_protocol_conflict io db (dr_node_id r) (dr_listen_ip r) (dr_listen_port r) (dr_protocol r) ex = Inr ()"
    "rule_constraints db r = None" "x \<in> set (db_rules db)" "\<not> dr_deleted x" "dr_id x \<noteq> dr_id r"
    "ex = None \<or> ex = Some (dr_id r)" "rule_checks x"
  shows "\<not> same_listener x r"
proof
  assume s: "same_listener x r"
  have u: "\<not> same_binding x r" and "rule_checks r"
    using assms(2-5) by (auto simp: rule_constraints_def list_ex_iff split: if_splits)
  then have "dr_protocol x = dr_protocol r \<or> dr_protocol x \<in> set (conflicts_with (dr_protocol r))"
    using s assms(7) by (intro overlap_cases) (auto simp: same_listener_def rule_checks_def)
  moreover have "dr_protocol x \<notin> set (conflicts_with (dr_protocol r))"
    by (rule conflict_free [OF assms(1,3,4), of "dr_id r"]) (use assms(5,6) s in \<open>auto simp: same_listener_def\<close>)
  ultimately show False
    using u s by (auto simp: same_binding_def same_listener_def)
qed

lemma constraints_checks: "rule_constraints db r = None \<Longrightarrow> rule_checks r"
  by (simp add: rule_constraints_def split: if_splits)

text \<open>A new row, or a new value for the one row with an id.\<close>

lemma rules_inv_insert:
  assumes "rules_inv db" "insert_rule u n nm proto a q h tp pf t mc af db = (Inr i, db')"
    "ensure_no_protocol_conflict io db n a q proto None = Inr ()"
  shows "rules_inv db'"
proof -
  obtain r where r: "rule_constraints db r = None" "dr_id r = db_next_rule db" "dr_node_id r = n" "dr_listen_ip r = a"
      "dr_listen_port r = q" "dr_protocol r = proto" and db': "db' = db\<lparr>db_rules := db_rules db @ [r], db_next_rule := dr_id r + 1\<rparr>"
    using assms(2) by (auto simp: insert_rule_def Let_def split: option.splits)
  have new: "\<not> same_listener x r" if "x \<in> set (db_rules db)" "\<not> dr_deleted x" for x
  proof (rule no_listener [of io db r None])
    show "dr_id x \<noteq> dr_id r"
      using that(1) assms(1) r(2) by (auto simp: rules_inv_def rules_wf_def)
    show "rule_checks x"
      using that(1) assms(1) by (simp add: rules_inv_def)
  qed (use r assms(3) that in simp_all)
  have "rule_checks r"
    using r(1) by (simp add: rule_constraints_def split: if_splits)
  then show ?thesis
    using assms(1) new r(2) same_listener_sym by (auto simp: db' rules_inv_def rules_wf_def bindings_ok_def)
qed

lemma rules_inv_replace:
  assumes "rules_inv db" "\<And>r. dr_id (f r) = dr_id r" "\<And>r. dr_deleted (f r) = dr_deleted r"
    "\<And>r. r \<in> set (db_rules db) \<Longrightarrow> live_id i r \<Longrightarrow> rule_constraints db (f r) = None
       \<and> ensure_no_protocol_conflict io db (dr_node_id (f r)) (dr_listen_ip (f r)) (dr_listen_port (f r)) (dr_protocol (f r)) (Some i) = Inr ()"
  shows "rules_inv (change_rules (live_id i) f db)"
proof -
  let ?g = "\<lambda>r. if live_id i r then f r else r"
  have new: "\<not> same_listener x (f r)"
    if "r \<in> set (db_rules db)" "live_id i r" "x \<in> set (db_rules db)" "\<not> dr_deleted x" "dr_id x \<noteq> i" for r x
  proof (rule no_listener [of io db "f r" "Some i"])
    show "rule_checks x"
      using that(3) assms(1) by (simp add: rules_inv_def)
  qed (use assms(2) assms(4) [OF that(1,2)] that in \<open>auto simp: live_id_def\<close>)
  have "bindings_ok (change_rules (live_id i) f db)"
    unfolding bindings_ok_def set_change_rules
  proof (intro ballI impI)
    fix a b
    assume ab: "a \<in> ?g ` set (db_rules db)" "b \<in> ?g ` set (db_rules db)" "\<not> dr_deleted a" "\<not> dr_deleted b" "dr_id a \<noteq> dr_id b"
    then obtain x y where xy: "a = ?g x" "b = ?g y" "x \<in> set (db_rules db)" "y \<in> set (db_rules db)" by blast
    have d: "\<not> dr_deleted x" "\<not> dr_deleted y" "dr_id x \<noteq> dr_id y"
      using ab(3-5) xy assms(2,3) by (auto split: if_splits)
    then have "\<not> same_listener x y"
      using xy assms(1) by (simp add: rules_inv_def bindings_ok_def)
    with xy d new [of x y] new [of y x] show "\<not> same_listener a b"
      by (auto simp: live_id_def same_listener_sym)
  qed
  moreover have "\<forall>r \<in> set (db_rules (change_rules (live_id i) f db)). rule_checks r"
    using assms(1) assms(4) [THEN conjunct1, THEN constraints_checks] by (auto simp: set_change_rules rules_inv_def)
  moreover have "rules_wf (change_rules (live_id i) f db)"
    using assms(1,2) by (auto simp: rules_inv_def intro: rules_wf_change)
  ultimately show ?thesis
    by (simp add: rules_inv_def)
qed

section \<open>The handlers keep the invariant\<close>

lemma send_frame [frame_simps, simp]:
  "pn_db (send_each ncs p) = pn_db p"
  "pn_db (snd (dispatch_rule_apply pe io r p)) = pn_db p"
  "pn_db (dispatch_rule_apply_locked pe io r p) = pn_db p"
  "pn_db (snd (dispatch_rule_remove_to i ns p)) = pn_db p"
  "pn_db (snd (dispatch_rule_restart io r p)) = pn_db p"
proof -
  show s: "pn_db (send_each ncs p) = pn_db p" for ncs
    by (simp add: send_each_def)
  show a: "pn_db (snd (dispatch_rule_apply pe io r p)) = pn_db p"
    by (simp add: dispatch_rule_apply_def s split: option.split sum.split)
  show "pn_db (dispatch_rule_apply_locked pe io r p) = pn_db p"
    by (simp add: dispatch_rule_apply_locked_def a split: sum.split)
  show "pn_db (snd (dispatch_rule_remove_to i ns p)) = pn_db p"
    by (simp add: dispatch_rule_remove_to_def split: prod.split)
  show "pn_db (snd (dispatch_rule_restart io r p)) = pn_db p"
    by (simp add: dispatch_rule_restart_def split: prod.split sum.split)
qed

definition panel_ok :: "panel \<Rightarrow> bool" where
  "panel_ok p = rules_inv (pn_db p)"

lemma rules_inv_audit [keeps_inv, simp]:
  "rules_inv (pn_db (record_with_ip io a b c d e f g h p)) = rules_inv (pn_db p)"
  by (simp add: rules_inv_def rules_wf_def bindings_ok_def)

lemma keeps_write:
  assumes "\<And>db x db'. rules_inv db \<Longrightarrow> f db = (Inr x, db') \<Longrightarrow> rules_inv db'"
  shows "keepsA panel_ok (write_db io q c f)"
  using assms by (auto simp: keepsA_def panel_ok_def write_db_def split: prod.splits sum.splits)

lemma keeps_update: "(\<And>db. rules_inv db \<Longrightarrow> rules_inv (f db)) \<Longrightarrow> keepsA panel_ok (update_db io q f)"
  unfolding update_db_def by (rule keeps_write) auto

lemma keeps_ask_bind:
  assumes "\<And>p x. P p \<Longrightarrow> g (pn_db p) = Inr x \<Longrightarrow> P (snd (f x p))"
  shows "keepsA P (bindA (ask g) f)"
  using assms by (auto simp: keepsA_def bindA_def split: sum.split)

lemma keeps_at:
  assumes "P (snd (m p))" "\<And>x. keepsA P (f x)"
  shows "P (snd (bindA m f p))"
  using assms by (auto simp: bindA_def keepsA_def split: prod.splits sum.splits)

lemma keeps_audit: "keepsA panel_ok (doA (record_with_ip io a b c d e f g h))"
  by (rule keepsA_do) (simp add: panel_ok_def)

lemma keeps_dispatch: "keepsA panel_ok (doA (dispatch_rule_apply_locked pe io r))"
  by (rule keepsA_do) (simp add: panel_ok_def)

lemmas keeps_rules = keepsA_bind keepsA_ask keeps_audit keeps_dispatch keeps_update keepsA_if

lemma keeps_prod: "(\<And>a b. x = (a, b) \<Longrightarrow> keepsA P (f a b)) \<Longrightarrow> keepsA P (case x of (a, b) \<Rightarrow> f a b)"
  by (cases x) simp

lemma keeps_option:
  "keepsA P a \<Longrightarrow> (\<And>v. keepsA P (f v)) \<Longrightarrow> keepsA P (case x of None \<Rightarrow> a | Some v \<Rightarrow> f v)"
  by (cases x) simp_all

lemma create_insert_inv:
  assumes "create_checks re io auth req db = Inr (owner, targets, port)" "rules_inv db"
    "create_insert req owner port db = (Inr i, db')"
  shows "rules_inv db'"
proof (rule rules_inv_insert [OF assms(2) assms(3) [unfolded create_insert_def]])
  show "ensure_no_protocol_conflict io db (cq_node_id req) (cq_listen_ip req) port (cq_protocol req) None = Inr ()"
    using assms(1) by (auto simp: create_checks_def bindR_eq_Inr)
qed

lemma create_keeps: "keepsA panel_ok (create_rule re io auth ip req)"
  unfolding create_rule_def
proof (rule keeps_ask_bind, goal_cases)
  case (1 p x)
  obtain owner ej ls port where x: "x = (owner, (ej, ls), port)" by (cases x) auto
  have w: "panel_ok (snd (write_db io ''insert_rule'' map_sqlx_to_api (create_insert req owner port) p))"
    using create_insert_inv [of re io auth req "pn_db p" owner "(ej, ls)" port] 1
    by (auto simp: panel_ok_def write_db_def x split: prod.split sum.split)
  show ?case
    unfolding x prod.case
    by (rule keeps_at [where P = panel_ok and m = "write_db io ''insert_rule'' map_sqlx_to_api (create_insert req owner port)" and p = p, OF w])
      (intro keeps_rules keeps_inv)
qed

lemma update_row_inv:
  assumes "update_checks re io auth i req db = Inr t" "rules_inv db" "update_row i req db = (Inr n, db')"
  shows "rules_inv db'"
proof -
  let ?f = "patched (map_option trim (uq_name req)) (uq_listen_ip req) (map_option uint (uq_listen_port req))
       (map_option trim (uq_target_host req)) (map_option uint (uq_target_port req)) (uq_profile_id req)
       (uq_max_connections req)"
  have db': "db' = change_rules (live_id i) ?f db"
    and ok: "\<And>r. r \<in> set (db_rules db) \<Longrightarrow> live_id i r \<Longrightarrow> rule_constraints db (?f r) = None"
    using assms(3)
    by (auto simp: update_row_def update_fields_def Let_def map_filter_def filter_empty_conv split: list.splits)
  obtain s where s: "find_rule db i = Some s" and port: "update_port re io s req db = Inr ()"
    using assms(1) by (auto simp: update_checks_def fetch_rule_def bindR_eq_Inr)
  show ?thesis
    unfolding db'
  proof (rule rules_inv_replace [where io = io, OF assms(2)], goal_cases)
    case (3 r)
    then have "find_rule db i = Some (select_rule db r)"
      using assms(2) by (auto simp: rules_inv_def live_id_def find_rule_Some_iff)
    with s have s': "s = select_rule db r" by simp
    have "ensure_no_protocol_conflict io db (dr_node_id (?f r)) (dr_listen_ip (?f r)) (dr_listen_port (?f r)) (dr_protocol (?f r)) (Some i) = Inr ()"
      using port 3 by (auto simp: update_port_def Let_def bindR_eq_Inr s' live_id_def coalesce_def unwrap_or_def split: option.splits)
    with ok [OF 3] show ?case by blast
  qed simp_all
qed

lemma update_keeps: "keepsA panel_ok (update_rule re io auth ip i req)"
  unfolding update_rule_def update_stored_def
proof (rule keepsA_bind, rule keeps_ask_bind, goal_cases)
  case (1 p x)
  have w: "panel_ok (snd (write_db io ''update_rule'' map_sqlx_to_api (update_row i req) p))"
    using update_row_inv [of re io auth i req "pn_db p"] 1
    by (auto simp: panel_ok_def write_db_def split: prod.split sum.split)
  show ?case
    by (rule keeps_at [where P = panel_ok and m = "write_db io ''update_rule'' map_sqlx_to_api (update_row i req)" and p = p, OF w])
      (intro keeps_rules keeps_inv keeps_option keeps_prod; assumption)
next
  case (2 x)
  show ?case by (intro keeps_rules)
qed

lemma keeps_send: "(\<And>p. pn_db (snd (m p)) = pn_db p) \<Longrightarrow> keepsA panel_ok (\<lambda>p. case m p of (x, p1) \<Rightarrow> (f x, p1))"
  by (simp add: keepsA_def panel_ok_def case_prod_beta)

lemma keeps_statement:
  "(\<And>db. rules_inv db \<Longrightarrow> rules_inv (snd (f db))) \<Longrightarrow>
   keepsA panel_ok (write_db io q c (\<lambda>db. case f db of (n, db') \<Rightarrow> (Inr n, db')))"
  by (rule keeps_write) (auto simp: case_prod_beta)

lemma delete_keeps: "keepsA panel_ok (delete_rule io auth ip i)"
  unfolding delete_rule_def
  by (intro keeps_rules keeps_option keeps_statement keeps_send keeps_inv send_frame)

lemma set_enabled_keeps: "keepsA panel_ok (set_enabled_handler re io auth ip i on act)"
  unfolding set_enabled_handler_def
  by (intro keeps_rules keeps_option keeps_statement keeps_inv)

lemma read_keeps:
  "keepsA panel_ok (get_rule re io auth i)" "keepsA panel_ok (rule_stats io auth i)"
  "keepsA panel_ok (rule_logs io auth i)" "keepsA panel_ok (list_rules re io auth q)"
  unfolding get_rule_def rule_stats_def rule_logs_def list_rules_def Let_def by (intro keeps_rules)+

lemma restart_keeps: "keepsA panel_ok (restart_rule_handler io auth ip i)"
  unfolding restart_rule_handler_def
proof (intro keeps_rules)
  fix r
  have "(\<lambda>p. case dispatch_rule_restart io r p of (Inl e, p1) \<Rightarrow> (Inl (Database e), p1) | (Inr ok, p1) \<Rightarrow> (Inr ok, p1))
      = (\<lambda>p. case dispatch_rule_restart io r p of (x, p1) \<Rightarrow> (map_sum Database id x, p1))"
    by (rule ext) (auto split: prod.split sum.split)
  then show "keepsA panel_ok (\<lambda>p. case dispatch_rule_restart io r p of (Inl e, p1) \<Rightarrow> (Inl (Database e), p1)
      | (Inr ok, p1) \<Rightarrow> (Inr ok, p1))"
    using keeps_send [of "dispatch_rule_restart io r"] send_frame(5) by simp
qed

section \<open>Runs of calls\<close>

text \<open>A call of a user to one of the handlers; \<open>io\<close> says which of its statements the database refuses.\<close>

datatype rules_call =
    Create create_request
  | Update int update_request
  | Delete int
  | Enable int
  | Disable int
  | Restart int
  | Get int
  | Get_Stats int
  | Get_Logs int
  | Get_List list_query

record api_call =
  ac_user :: claims
  ac_ip :: string
  ac_faults :: query_faults
  ac_call :: rules_call

fun call_rules :: "route_env \<Rightarrow> claims \<Rightarrow> string \<Rightarrow> query_faults \<Rightarrow> rules_call \<Rightarrow> panel \<Rightarrow> panel" where
  "call_rules re u ip io (Create req) p = snd (create_rule re io u ip req p)"
| "call_rules re u ip io (Update i req) p = snd (update_rule re io u ip i req p)"
| "call_rules re u ip io (Delete i) p = snd (delete_rule io u ip i p)"
| "call_rules re u ip io (Enable i) p = snd (enable_rule re io u ip i p)"
| "call_rules re u ip io (Disable i) p = snd (disable_rule re io u ip i p)"
| "call_rules re u ip io (Restart i) p = snd (restart_rule_handler io u ip i p)"
| "call_rules re u ip io (Get i) p = snd (get_rule re io u i p)"
| "call_rules re u ip io (Get_Stats i) p = snd (rule_stats io u i p)"
| "call_rules re u ip io (Get_Logs i) p = snd (rule_logs io u i p)"
| "call_rules re u ip io (Get_List q) p = snd (list_rules re io u q p)"

definition api_step :: "route_env \<Rightarrow> panel \<Rightarrow> api_call \<Rightarrow> panel" where
  "api_step re p c = call_rules re (ac_user c) (ac_ip c) (ac_faults c) (ac_call c) p"

lemma api_step_inv:
  assumes "panel_ok p"
  shows "panel_ok (api_step re p c)"
proof (cases "ac_call c")
  case (Create x1)
  with assms create_keeps show ?thesis by (simp add: api_step_def keepsA_def)
next
  case (Update x21 x22)
  with assms update_keeps show ?thesis by (simp add: api_step_def keepsA_def)
next
  case (Delete x3)
  with assms delete_keeps show ?thesis by (simp add: api_step_def keepsA_def)
next
  case (Enable x4)
  with assms set_enabled_keeps show ?thesis by (simp add: api_step_def keepsA_def enable_rule_def)
next
  case (Disable x5)
  with assms set_enabled_keeps show ?thesis by (simp add: api_step_def keepsA_def disable_rule_def)
next
  case (Restart x6)
  with assms restart_keeps show ?thesis by (simp add: api_step_def keepsA_def)
qed (use assms read_keeps in \<open>simp_all add: api_step_def keepsA_def\<close>)

interpretation rules_machine: invariant_machine "api_step re" panel_ok for re
  by unfold_locales (rule api_step_inv)

section \<open>Properties\<close>

text \<open>C5. The table of rules stays sound over every run of calls, whatever the users ask for and
  whichever statements the database refuses: ids are unique and below the next one, every row
  satisfies the checks of the schema, and no two live rules listen on the same address and port
  of a node with a common protocol, where \<^verbatim>\<open>tcp_udp\<close> counts as both.\<close>

theorem api_runs_keep_bindings:
  assumes "rules_inv (pn_db p)" "q = foldl (api_step re) p calls"
    "a \<in> set (db_rules (pn_db q))" "b \<in> set (db_rules (pn_db q))" "\<not> dr_deleted a" "\<not> dr_deleted b"
    "dr_node_id a = dr_node_id b" "dr_listen_ip a = dr_listen_ip b" "dr_listen_port a = dr_listen_port b"
    "protocols_overlap (dr_protocol a) (dr_protocol b)"
  shows "a = b \<and> rule_checks a \<and> dr_id a < db_next_rule (pn_db q)"
proof -
  have inv: "rules_inv (pn_db q)"
    using rules_machine.run_inv [of p re calls] assms(1,2) by (simp add: panel_ok_def)
  then have "dr_id a = dr_id b"
    using assms(3-) by (auto simp: rules_inv_def bindings_ok_def same_listener_def)
  with inv assms(3,4) show ?thesis
    by (auto simp: rules_inv_def rules_wf_def distinct_map inj_on_def)
qed

end
