(* ===== verification/Rules_Props.thy ===== *)
theory Rules_Props
  imports Rules_Inv
begin

text \<open>
  Properties of the single handlers of Rules_Api: who is refused, what a new rule must satisfy,
  what a change may touch, which port is picked, what deleting and listing do.
\<close>

section \<open>Refusals\<close>

text \<open>C33. A rule of somebody else looks like a rule that does not exist: for a user who is not an
  administrator, reading, changing, deleting, enabling, disabling, restarting it, and reading its
  statistics or its log all answer \<^verbatim>\<open>NotFound\<close>, exactly as for an id without a rule, and change
  nothing: no row, no log entry, no command.\<close>

theorem strangers_see_nothing:
  assumes "\<not> is_admin u" "\<forall>r \<in> set (db_rules (pn_db p)). dr_id r = i \<longrightarrow> dr_user_id r \<noteq> cl_sub u"
    "\<not> io ''find_rule''" "\<not> io ''log_owner''"
  shows "get_rule re io u i p = (Inl Not_Found, p) \<and> update_rule re io u ip i req p = (Inl Not_Found, p)
    \<and> delete_rule io u ip i p = (Inl Not_Found, p)
    \<and> enable_rule re io u ip i p = (Inl Not_Found, p) \<and> disable_rule re io u ip i p = (Inl Not_Found, p)
    \<and> restart_rule_handler io u ip i p = (Inl Not_Found, p)
    \<and> rule_stats io u i p = (Inl Not_Found, p) \<and> rule_logs io u i p = (Inl Not_Found, p)"
proof -
  have "\<not> (is_admin u \<or> dr_user_id r = cl_sub u)" if "find_rule (pn_db p) i = Some r" for r
    using that assms(1,2) by (auto simp: find_rule_def dest: find_SomeD)
  then have own: "own_rule io u i (pn_db p) = Inl Not_Found"
    and upd: "update_checks re io u i req (pn_db p) = Inl Not_Found"
    using assms(3)
    by (cases "find_rule (pn_db p) i"; auto simp: own_rule_def update_checks_def fetch_rule_def read_db_def
        ensure_can_touch_def reject_if_def)+
  have log: "rule_logs io u i p = (Inl Not_Found, p)"
    using assms
    by (cases "find (\<lambda>r. dr_id r = i) (db_rules (pn_db p))")
      (auto simp: rule_logs_def bindA_def read_db_def reject_if_def dest: find_SomeD)
  from own upd log show ?thesis
    by (simp add: get_rule_def update_rule_def update_stored_def delete_rule_def enable_rule_def disable_rule_def
        set_enabled_handler_def restart_rule_handler_def rule_stats_def bindA_def)
qed

definition sample_panel :: panel where
  "sample_panel = \<lparr>pn_db = sample_db, pn_dispatcher = dispatcher_new\<rparr>"

definition sample_user :: "int \<Rightarrow> string \<Rightarrow> claims" where
  "sample_user i role = \<lparr>cl_sub = i, cl_username = ''u'', cl_role = role, cl_exp = 0, cl_mcp = False, cl_scope = []\<rparr>"

definition sample_routes :: route_env where
  "sample_routes = \<lparr>re_panel = sample_env, re_encode = (\<lambda>_. ''j''), re_decode = (\<lambda>_. None), re_ports = (\<lambda>_. None),
     re_order = (\<lambda>_ _ rs. rs)\<rparr>"

lemma strangers_see_nothing_witness:
  "delete_rule (\<lambda>_. False) (sample_user 2 ''user'') [] 7 sample_panel = (Inl Not_Found, sample_panel)
   \<and> find_rule (pn_db sample_panel) 7 \<noteq> None"
proof -
  have n: "\<not> is_admin (sample_user 2 ''user'')"
    by (simp add: is_admin_def sample_user_def)
  have f: "find_rule (pn_db sample_panel) 7 \<noteq> None"
    by (simp add: find_rule_def sample_panel_def sample_db_def sample_rule_def)
  have o: "\<forall>r \<in> set (db_rules (pn_db sample_panel)). dr_id r = 7 \<longrightarrow> dr_user_id r \<noteq> cl_sub (sample_user 2 ''user'')"
    by (simp add: sample_panel_def sample_db_def sample_rule_def sample_user_def)
  from strangers_see_nothing [OF n o, of "\<lambda>_. False" sample_routes "[]"] f show ?thesis by simp
qed

section \<open>Ports\<close>

lemma find_sorted_least:
  fixes xs :: "'a::linorder list"
  assumes "sorted xs"
  shows "find P xs = Some x \<longleftrightarrow> x \<in> set xs \<and> P x \<and> (\<forall>y \<in> set xs. P y \<longrightarrow> x \<le> y)"
  using assms
proof (induction xs)
  case Nil
  then show ?case by simp
next
  case (Cons a xs)
  then have a: "\<forall>y \<in> set xs. a \<le> y" and IH: "find P xs = Some x \<longleftrightarrow> x \<in> set xs \<and> P x \<and> (\<forall>y \<in> set xs. P y \<longrightarrow> x \<le> y)"
    by auto
  show ?case
  proof (cases "P a")
    case True
    with a show ?thesis by (auto intro: antisym)
  next
    case False
    with IH show ?thesis by auto
  qed
qed

lemma port_conflicts_iff:
  assumes "proto \<in> {''tcp'', ''udp'', ''tcp_udp''}" "q \<in> {''tcp'', ''udp'', ''tcp_udp''}"
  shows "port_conflicts proto q \<longleftrightarrow> protocols_overlap q proto"
  using assms by (auto simp: port_conflicts_def protocols_overlap_def)

text \<open>A rule without a port gets the smallest port of its node's pool that is neither reserved nor
  taken there by a rule on the same address with a common protocol or by a tunnel; it is refused
  exactly when no such port is left.\<close>

theorem allocate_port_least:
  assumes "\<not> io ''taken_ports''" "\<not> io ''tunnel_ports''" "proto \<in> {''tcp'', ''udp'', ''tcp_udp''}"
    "\<forall>r \<in> set (db_rules db). rule_checks r"
    "\<And>q. free q \<longleftrightarrow> nd_pool_min node \<le> q \<and> q \<le> nd_pool_max node \<and> q \<notin> set reserved \<and> q \<notin> set (tunnel_ports db (nd_id node))
       \<and> (\<forall>r \<in> set (db_rules db). \<not> dr_deleted r \<longrightarrow> dr_node_id r = nd_id node \<longrightarrow> dr_listen_ip r = ip
            \<longrightarrow> dr_listen_port r = q \<longrightarrow> \<not> protocols_overlap (dr_protocol r) proto)"
  shows "(allocate_port io db node ip proto reserved = Inr q \<longleftrightarrow> free q \<and> (\<forall>y. free y \<longrightarrow> q \<le> y))
    \<and> (allocate_port io db node ip proto reserved = Inl (Bad_Request ''no port left'') \<longleftrightarrow> (\<forall>y. \<not> free y))"
proof -
  let ?ports = "[nd_pool_min node..nd_pool_max node]"
  let ?ok = "\<lambda>port. \<not> List.member reserved port \<and> \<not> List.member (blocked_ports db node ip proto) port"
  have "port_conflicts proto (dr_protocol r) \<longleftrightarrow> protocols_overlap (dr_protocol r) proto" if "r \<in> set (db_rules db)" for r
    using port_conflicts_iff [OF assms(3)] that assms(4) by (auto simp: rule_checks_def)
  then have ok: "y \<in> set ?ports \<and> ?ok y \<longleftrightarrow> free y" for y
    unfolding assms(5) by (auto simp: blocked_ports_def)
  have eq: "allocate_port io db node ip proto reserved = ok_or (Bad_Request ''no port left'') (find ?ok ?ports)"
    using assms(1,2) by (simp add: allocate_port_def read_db_def)
  have 1: "find ?ok ?ports = Some q \<longleftrightarrow> free q \<and> (\<forall>y. free y \<longrightarrow> q \<le> y)"
    unfolding find_sorted_least [OF sorted_upto] using ok by blast
  have 2: "find ?ok ?ports = None \<longleftrightarrow> (\<forall>y. \<not> free y)"
    unfolding find_None_iff using ok by blast
  show ?thesis
    using 1 2 by (cases "find ?ok ?ports") (simp_all add: eq)
qed

lemma allocate_port_least_witness:
  "allocate_port (\<lambda>_. False) sample_db (sample_node 2 ''2.2.2.2'') ''0.0.0.0'' ''tcp'' [10000] = Inr 10001"
proof -
  let ?free = "\<lambda>q. (10000::int) \<le> q \<and> q \<le> 20000 \<and> q \<notin> {10000, 20000}"
  have wf: "\<forall>r \<in> set (db_rules sample_db). rule_checks r"
    by (rule sample_db_wf)
  have free: "?free q \<longleftrightarrow> nd_pool_min (sample_node 2 ''2.2.2.2'') \<le> q \<and> q \<le> nd_pool_max (sample_node 2 ''2.2.2.2'')
     \<and> q \<notin> set [10000] \<and> q \<notin> set (tunnel_ports sample_db (nd_id (sample_node 2 ''2.2.2.2'')))
       \<and> (\<forall>r \<in> set (db_rules sample_db). \<not> dr_deleted r \<longrightarrow> dr_node_id r = nd_id (sample_node 2 ''2.2.2.2'') \<longrightarrow> dr_listen_ip r = ''0.0.0.0''
            \<longrightarrow> dr_listen_port r = q \<longrightarrow> \<not> protocols_overlap (dr_protocol r) ''tcp'')" for q
    by (auto simp: sample_node_def sample_db_def sample_rule_def sample_tunnel_def tunnel_ports_def map_filter_def)
  have "?free 10001 \<and> (\<forall>y. ?free y \<longrightarrow> 10001 \<le> y)"
    by auto
  then show ?thesis
    using allocate_port_least [of "\<lambda>_. False" "''tcp''" sample_db ?free "sample_node 2 ''2.2.2.2''" "[10000]" "''0.0.0.0''" 10001,
      OF _ _ _ wf free] by simp
qed

section \<open>Creating\<close>

text \<open>The row that a successful creation leaves.\<close>

definition created_row ::
    "create_request \<Rightarrow> int \<Rightarrow> int \<Rightarrow> int \<Rightarrow> string option \<Rightarrow> string \<Rightarrow> db_rule" where
  "created_row req i owner port extra strat =
     \<lparr>dr_id = i, dr_user_id = owner, dr_node_id = cq_node_id req, dr_name = trim (cq_name req),
      dr_protocol = cq_protocol req, dr_listen_ip = cq_listen_ip req, dr_listen_port = port,
      dr_target_host = trim (cq_target_host req), dr_target_port = uint (cq_target_port req), dr_enabled = 1,
      dr_rx = 0, dr_tx = 0, dr_conn = 0, dr_profile_id = cq_profile_id req, dr_bandwidth_mbps = None,
      dr_tunnel_id = cq_tunnel_id req,
      dr_max_connections = (case cq_max_connections req of Some n \<Rightarrow> if 0 < n then Some n else None | None \<Rightarrow> None),
      dr_extra_targets = extra, dr_lb_strategy = strat,
      dr_send_proxy = (if cq_send_proxy req = Some True then 1 else 0),
      dr_remote_af = unwrap_or ''auto'' (cq_remote_af req), dr_deleted = False\<rparr>"

lemma change_last:
  assumes "\<forall>x \<in> set xs. dr_id x \<noteq> i" "db_rules db = xs @ [r]" "live_id i r"
  shows "db_rules (change_rules (live_id i) f db) = xs @ [f r]"
  using assms by (auto simp: change_rules_def live_id_def intro: map_idI)

lemma write_ok:
  assumes "write_db io q c f p = (Inr x, p1)"
  shows "f (pn_db p) = (Inr x, pn_db p1)" "pn_dispatcher p1 = pn_dispatcher p"
  using assms by (auto simp: write_db_def split: if_splits prod.splits sum.splits)

lemma update_ok:
  assumes "update_db io q f p = (Inr x, p1)"
  shows "pn_db p1 = f (pn_db p)"
  using write_ok(1) [OF assms [unfolded update_db_def]] by simp

lemma optional_update_ok:
  assumes "(if b then update_db io q f else returnA ()) p = (Inr x, p1)"
  shows "pn_db p1 = (if b then f (pn_db p) else pn_db p)"
  using assms update_ok by (auto split: if_splits)

lemma create_insert_ok:
  assumes "create_insert req owner port db = (Inr i, db')"
  shows "i = db_next_rule db"
    "db_rules db' = db_rules db @ [(created_row req (db_next_rule db) owner port None ''fifo'')\<lparr>dr_send_proxy := 0\<rparr>]"
  using assms
  by (cases "cq_max_connections req"; auto simp: create_insert_def insert_rule_def created_row_def Let_def
      split: option.splits if_splits)+

lemma bindA_eq: "bindA m f p = (Inr y, p') \<longleftrightarrow> (\<exists>x p1. m p = (Inr x, p1) \<and> f x p1 = (Inr y, p'))"
  by (auto simp: bindA_def split: prod.splits sum.splits)

lemma bindA_err:
  "bindA m f p = (Inl e, p') \<longleftrightarrow> m p = (Inl e, p') \<or> (\<exists>x p1. m p = (Inr x, p1) \<and> f x p1 = (Inl e, p'))"
  by (auto simp: bindA_def split: prod.splits sum.splits)

lemma create_ok:
  assumes "create_rule re io auth ip req p = (Inr v, p')" "rules_wf (pn_db p)"
  obtains owner extra strat port where
    "create_checks re io auth req (pn_db p) = Inr (owner, (extra, strat), port)"
    "db_rules (pn_db p') = db_rules (pn_db p) @ [created_row req (db_next_rule (pn_db p)) owner port extra strat]"
    "rv_id v = db_next_rule (pn_db p)"
proof -
  from assms(1) obtain owner extra strat port new p1 p2 p3 r name where
    chk: "create_checks re io auth req (pn_db p) = Inr (owner, (extra, strat), port)"
    and w: "write_db io ''insert_rule'' map_sqlx_to_api (create_insert req owner port) p = (Inr new, p1)"
    and t: "(if extra \<noteq> None \<or> strat \<noteq> ''fifo''
            then update_db io ''set_targets'' (set_targets new extra strat) else returnA ()) p1 = (Inr (), p2)"
    and s: "(if cq_send_proxy req = Some True
            then update_db io ''set_send_proxy'' (set_send_proxy_protocol new True) else returnA ()) p2 = (Inr (), p3)"
    and f: "fetch_rule io ''reread_rule'' (pn_db p3) new = Inr r"
    and p': "p' = dispatch_rule_apply_locked (re_panel re) io r (record_with_ip io (Some (cl_sub auth)) (as_option ip)
        ''rule.create'' (Some ''rule'') (Some new) (Some (trim (cq_name req) @ '',owner='' @ show_int owner)) True None p3)"
    and v: "v = (rule_view_of re r)\<lparr>rv_user_name := name\<rparr>"
    unfolding create_rule_def by (auto simp: bindA_eq split: prod.splits)
  let ?i = "db_next_rule (pn_db p)"
  let ?r = "created_row req ?i owner port None ''fifo''"
  have new: "new = ?i" and d1: "db_rules (pn_db p1) = db_rules (pn_db p) @ [?r\<lparr>dr_send_proxy := 0\<rparr>]"
    using create_insert_ok [OF write_ok(1) [OF w]] by (simp_all add: created_row_def)
  have old: "\<forall>x \<in> set (db_rules (pn_db p)). dr_id x \<noteq> ?i"
    using assms(2) by (auto simp: rules_wf_def)
  have d2: "db_rules (pn_db p2) = db_rules (pn_db p) @ [(created_row req ?i owner port extra strat)\<lparr>dr_send_proxy := 0\<rparr>]"
    unfolding optional_update_ok [OF t] using d1 old
    by (auto simp: new set_targets_def created_row_def live_id_def change_last)
  have d3: "db_rules (pn_db p3) = db_rules (pn_db p) @ [created_row req ?i owner port extra strat]"
    unfolding optional_update_ok [OF s] using d2 old
    by (auto simp: new set_send_proxy_protocol_def created_row_def live_id_def change_last)
  have "dr_id r = new"
    using f by (auto simp: fetch_rule_def bindR_eq_Inr find_rule_def dest: find_SomeD)
  then have "rv_id v = ?i"
    by (simp add: v rule_view_of_def new)
  with chk d3 that show thesis
    by (simp add: p')
qed

text \<open>What the groups of checks give.\<close>

lemma create_owner_ok:
  "create_owner io auth req db = Inr owner \<Longrightarrow>
   owner = unwrap_or (cl_sub auth) (cq_user_id req) \<and> (\<not> is_admin auth \<longrightarrow> owner = cl_sub auth)"
  by (auto simp: create_owner_def bindR_eq_Inr split: option.splits if_splits)

lemma create_fields_ok:
  "create_fields auth req = Inr () \<Longrightarrow> \<not> is_admin auth \<Longrightarrow>
   cq_profile_id req = None \<and> cq_max_connections req = None \<and> cq_send_proxy req = None
   \<and> \<not> is_internal_target_ip (trim (cq_target_host req))"
  by (auto simp: create_fields_def bindR_eq_Inr)

lemma validate_targets_ok:
  "validate_targets re extra strategy admin = Inr t \<Longrightarrow>
   (\<not> admin \<longrightarrow> (\<forall>(h, q) \<in> set extra. \<not> is_internal_target_ip (trim h))) \<and> snd t = unwrap_or ''fifo'' strategy
   \<and> fst t = (if extra = [] then None else Some (re_encode re (map (\<lambda>(h, q). (trim h, q)) extra)))"
  by (auto simp: validate_targets_def Let_def bindR_eq_Inr)

lemma create_granted_ok:
  "create_granted io auth owner req db = Inr () \<Longrightarrow>
   (\<not> is_admin auth \<longrightarrow> (case cq_tunnel_id req of None \<Rightarrow> node_granted db owner (cq_node_id req) | Some t \<Rightarrow> tunnel_granted db owner t))
   \<and> (\<forall>t. cq_tunnel_id req = Some t \<longrightarrow> (\<exists>h \<in> set (list_for_tunnel db t). hp_ordinal h = 0 \<and> hp_node_id h = cq_node_id req))"
  by (auto simp: create_granted_def bindR_eq_Inr dest!: find_SomeD split: option.splits if_splits)

lemma create_quota_ok:
  "create_quota io owner req db = Inr () \<Longrightarrow>
   \<exists>u. find_user db owner = Some u \<and> (\<forall>l. us_rules_quota u = Some l \<longrightarrow> int (rules_of_user db owner) < l)
     \<and> (\<forall>t l. cq_tunnel_id req = Some t \<longrightarrow> tunnel_grant_num db owner t = Some l \<longrightarrow> int (rules_in_tunnel db owner t) < l)"
  by (auto simp: create_quota_def bindR_eq_Inr split: option.splits)

lemma allocate_port_in_pool:
  assumes "allocate_port io db node a proto res = Inr q"
  shows "nd_pool_min node \<le> q \<and> q \<le> nd_pool_max node \<and> q \<notin> set res"
proof -
  have "find (\<lambda>port. \<not> List.member res port \<and> \<not> List.member (blocked_ports db node a proto) port)
      [nd_pool_min node..nd_pool_max node] = Some q"
    using assms by (auto simp: allocate_port_def bindR_eq_Inr)
  then show ?thesis by (auto dest!: find_SomeD)
qed

lemma create_port_ok:
  "create_port re io auth node req db = Inr q \<Longrightarrow>
   q \<notin> set (reserved_now re io db) \<and> (\<forall>w. cq_listen_port req = Some w \<longrightarrow> q = uint w)
   \<and> (nd_pool_min node \<le> q \<and> q \<le> nd_pool_max node \<or> is_admin auth \<and> cq_tunnel_id req \<noteq> None \<and> cq_listen_port req \<noteq> None)"
  by (auto simp: create_port_def Let_def bindR_eq_Inr dest: allocate_port_in_pool split: option.splits if_splits)

lemma count_rules_append: "db_rules db' = db_rules db @ [r] \<Longrightarrow> count_rules P db' = count_rules P db + (if P r then 1 else 0)"
  by (simp add: count_rules_def)

text \<open>C13. A rule is only created within the rights of its creator: a successful creation appends one
  row, made of the request, under a fresh id; its port is not reserved and lies in the pool of the
  node, except that an administrator may place the entry of a tunnel elsewhere; the node is the
  entry of the tunnel, if there is one; the quotas of the owner still hold with the new rule; and
  a user who is not an administrator owns the rule, has been granted the node or the tunnel, and
  sets no limit, no profile, no PROXY protocol and no target with an internal address.\<close>

theorem create_authorised:
  assumes "create_rule re io auth ip req p = (Inr v, p')" "rules_wf (pn_db p)"
    "owner = unwrap_or (cl_sub auth) (cq_user_id req)"
  shows "\<exists>port extra node u.
    db_rules (pn_db p') = db_rules (pn_db p)
      @ [created_row req (rv_id v) owner port extra (unwrap_or ''fifo'' (cq_lb_strategy req))]
    \<and> (\<forall>r \<in> set (db_rules (pn_db p)). dr_id r < rv_id v)
    \<and> find_node (pn_db p) (cq_node_id req) = Some node \<and> find_user (pn_db p) owner = Some u
    \<and> port \<notin> set (reserved_now re io (pn_db p)) \<and> (\<forall>w. cq_listen_port req = Some w \<longrightarrow> port = uint w)
    \<and> (nd_pool_min node \<le> port \<and> port \<le> nd_pool_max node \<or> is_admin auth \<and> cq_tunnel_id req \<noteq> None \<and> cq_listen_port req \<noteq> None)
    \<and> (\<forall>t. cq_tunnel_id req = Some t \<longrightarrow>
         (\<exists>h \<in> set (list_for_tunnel (pn_db p) t). hp_ordinal h = 0 \<and> hp_node_id h = cq_node_id req)
         \<and> (\<forall>l. tunnel_grant_num (pn_db p) owner t = Some l \<longrightarrow> int (rules_in_tunnel (pn_db p') owner t) \<le> l))
    \<and> (\<forall>l. us_rules_quota u = Some l \<longrightarrow> int (rules_of_user (pn_db p') owner) \<le> l)
    \<and> (\<not> is_admin auth \<longrightarrow> owner = cl_sub auth
         \<and> (case cq_tunnel_id req of None \<Rightarrow> node_granted (pn_db p) owner (cq_node_id req)
            | Some t \<Rightarrow> tunnel_granted (pn_db p) owner t)
         \<and> cq_profile_id req = None \<and> cq_max_connections req = None \<and> cq_send_proxy req = None
         \<and> (\<forall>h \<in> set (cq_target_host req # map fst (unwrap_or [] (cq_extra_targets req))). \<not> is_internal_target_ip (trim h)))"
proof -
  obtain own extra strat port where
    chk: "create_checks re io auth req (pn_db p) = Inr (own, (extra, strat), port)"
    and rows: "db_rules (pn_db p') = db_rules (pn_db p) @ [created_row req (db_next_rule (pn_db p)) own port extra strat]"
    and v: "rv_id v = db_next_rule (pn_db p)"
    using create_ok [OF assms(1,2)] .
  then obtain node where own: "create_owner io auth req (pn_db p) = Inr own" and fields: "create_fields auth req = Inr ()"
    and tg: "validate_targets re (unwrap_or [] (cq_extra_targets req)) (cq_lb_strategy req) (is_admin auth) = Inr (extra, strat)"
    and node: "find_node (pn_db p) (cq_node_id req) = Some node"
    and gr: "create_granted io auth own req (pn_db p) = Inr ()" and qu: "create_quota io own req (pn_db p) = Inr ()"
    and po: "create_port re io auth node req (pn_db p) = Inr port"
    by (auto simp: create_checks_def bindR_eq_Inr)
  note own = create_owner_ok [OF own] and gr = create_granted_ok [OF gr] and po = create_port_ok [OF po]
    and tg = validate_targets_ok [OF tg] and fields = create_fields_ok [OF fields]
  have o: "own = owner" using own assms(3) by simp
  obtain u where u: "find_user (pn_db p) owner = Some u"
    "\<forall>l. us_rules_quota u = Some l \<longrightarrow> int (rules_of_user (pn_db p) owner) < l"
    "\<forall>t l. cq_tunnel_id req = Some t \<longrightarrow> tunnel_grant_num (pn_db p) owner t = Some l \<longrightarrow> int (rules_in_tunnel (pn_db p) owner t) < l"
    using create_quota_ok [OF qu] o by blast
  have c1: "rules_of_user (pn_db p') owner = rules_of_user (pn_db p) owner + 1"
    and c2: "cq_tunnel_id req = Some t \<Longrightarrow> rules_in_tunnel (pn_db p') owner t = rules_in_tunnel (pn_db p) owner t + 1" for t
    by (simp_all add: rules_of_user_def rules_in_tunnel_def count_rules_append [OF rows] created_row_def o)
  have fresh: "\<forall>r \<in> set (db_rules (pn_db p)). dr_id r < rv_id v"
    using assms(2) by (simp add: v rules_wf_def)
  have quota: "\<forall>l. us_rules_quota u = Some l \<longrightarrow> int (rules_of_user (pn_db p') owner) \<le> l"
      "\<forall>t l. cq_tunnel_id req = Some t \<longrightarrow> tunnel_grant_num (pn_db p) owner t = Some l \<longrightarrow> int (rules_in_tunnel (pn_db p') owner t) \<le> l"
    using u(2,3) c1 c2 by fastforce+
  have ext: "\<not> is_admin auth \<longrightarrow>
      (\<forall>h \<in> set (cq_target_host req # map fst (unwrap_or [] (cq_extra_targets req))). \<not> is_internal_target_ip (trim h))"
    using tg fields by fastforce
  show ?thesis
    by (intro exI [of _ port] exI [of _ extra] exI [of _ node] exI [of _ u])
      (use rows v fresh node u(1) po gr quota own o tg fields ext in auto)
qed

definition sample_create :: create_request where
  "sample_create = \<lparr>cq_node_id = 1, cq_name = ''n'', cq_protocol = ''tcp'', cq_listen_ip = ''1.1.1.1'', cq_listen_port = Some 15000,
     cq_target_host = ''b.c'', cq_target_port = 90, cq_profile_id = None, cq_tunnel_id = None, cq_user_id = None,
     cq_max_connections = None, cq_extra_targets = None, cq_lb_strategy = Some ''round'', cq_send_proxy = None,
     cq_remote_af = None\<rparr>"

definition created :: "(api_error + rule_view) \<times> panel" where
  "created = create_rule sample_routes (\<lambda>_. False) (sample_user 1 ''user'') [] sample_create sample_panel"

lemma created_ok: "case fst created of Inl _ \<Rightarrow> False | Inr v \<Rightarrow> rv_listen_port v = 15000 \<and> rv_lb_strategy v = ''round''"
  by code_simp

lemma create_authorised_witness:
  "\<exists>v p' r. created = (Inr v, p') \<and> db_rules (pn_db p') = db_rules (pn_db sample_panel) @ [r] \<and> dr_lb_strategy r = ''round''"
proof -
  obtain v where "fst created = Inr v"
    using created_ok by (auto split: sum.splits)
  then obtain p' where c: "created = (Inr v, p')"
    by (metis prod.collapse)
  have wf: "rules_wf (pn_db sample_panel)"
    by (simp add: sample_panel_def sample_db_wf)
  obtain owner port extra r where r: "db_rules (pn_db p') = db_rules (pn_db sample_panel) @ [r]"
      "r = created_row sample_create (rv_id v) owner port extra (unwrap_or ''fifo'' (cq_lb_strategy sample_create))"
    using create_authorised [OF c [unfolded created_def] wf refl] by blast
  have "dr_lb_strategy r = ''round''"
    by (simp add: r(2) sample_create_def created_row_def)
  with c r(1) show ?thesis by blast
qed

text \<open>
  A step that never answers \<^verbatim>\<open>BadRequest\<close>, and one that has changed nothing when it does: checks may
  come first, then a statement, then steps that do not refuse.
\<close>

definition never_bad :: "'a api \<Rightarrow> bool" where
  "never_bad m = (\<forall>p e p'. m p \<noteq> (Inl (Bad_Request e), p'))"

definition clean :: "'a api \<Rightarrow> bool" where
  "clean m = (\<forall>p e p'. m p = (Inl (Bad_Request e), p') \<longrightarrow> p' = p)"

lemma never_bad_bind: "never_bad m \<Longrightarrow> (\<And>x. never_bad (f x)) \<Longrightarrow> never_bad (bindA m f)"
  by (auto simp: never_bad_def bindA_err)

lemma never_bad_basic:
  "never_bad (returnA x)" "never_bad (doA g)" "never_bad (update_db io q h)"
  "never_bad (ask (\<lambda>_. reject_if b Not_Found))"
  "never_bad (ask (\<lambda>db. fetch_rule io q db i))" "never_bad (ask (\<lambda>db. lookup_username io db u))"
  by (auto simp: never_bad_def update_db_def write_db_def fetch_rule_def lookup_username_def read_db_def bindR_def
      ok_or_def split: if_splits option.splits)

lemma never_bad_if: "never_bad a \<Longrightarrow> never_bad b \<Longrightarrow> never_bad (if c then a else b)"
  by simp

lemma never_bad_option: "never_bad a \<Longrightarrow> (\<And>v. never_bad (f v)) \<Longrightarrow> never_bad (case x of None \<Rightarrow> a | Some v \<Rightarrow> f v)"
  by (cases x) simp_all

lemma never_bad_pair: "(\<And>a b. never_bad (f a b)) \<Longrightarrow> never_bad (case x of (a, b) \<Rightarrow> f a b)"
  by (cases x) simp

lemma clean_ask: "(\<And>x. clean (f x)) \<Longrightarrow> clean (bindA (ask g) f)"
  by (auto simp: clean_def bindA_err)

lemma clean_write: "(\<And>x. never_bad (f x)) \<Longrightarrow> clean (bindA (write_db io q c h) f)"
  by (auto simp: clean_def never_bad_def bindA_err write_db_def split: prod.splits sum.splits if_splits)

lemma clean_bind: "clean m \<Longrightarrow> (\<And>x. never_bad (f x)) \<Longrightarrow> clean (bindA m f)"
  by (auto simp: clean_def never_bad_def bindA_err)

lemma clean_pair: "(\<And>a b. clean (f a b)) \<Longrightarrow> clean (case x of (a, b) \<Rightarrow> f a b)"
  by (cases x) simp

lemma clean_pair_app: "(\<And>a b. clean (f a b y)) \<Longrightarrow> clean ((case x of (a, b) \<Rightarrow> f a b) y)"
  by (cases x) simp

lemmas clean_rules = clean_pair clean_pair_app clean_ask clean_write clean_bind never_bad_bind never_bad_basic never_bad_if
  never_bad_option never_bad_pair

text \<open>C35. A refusal changes nothing: when creating or changing a rule answers \<^verbatim>\<open>BadRequest\<close>, whatever the
  reason (a check, a conflict with another rule, a constraint of the schema), the panel is as
  before, the log included, and no command was sent.\<close>

theorem bad_request_changes_nothing:
  "(\<forall>m p'. create_rule re io auth ip req p = (Inl (Bad_Request m), p') \<longrightarrow> p' = p)
   \<and> (\<forall>m p'. update_rule re io auth ip i ureq p = (Inl (Bad_Request m), p') \<longrightarrow> p' = p)"
proof -
  have "clean (create_rule re io auth ip req)"
    unfolding create_rule_def by (intro clean_rules)
  moreover have "clean (update_rule re io auth ip i ureq)"
    unfolding update_rule_def update_stored_def by (intro clean_rules)
  ultimately show ?thesis
    by (simp add: clean_def)
qed

lemma bad_request_changes_nothing_witness:
  "\<exists>m. create_rule sample_routes (\<lambda>_. False) (sample_user 1 ''user'') [] (sample_create\<lparr>cq_listen_port := Some 80\<rparr>) sample_panel
      = (Inl (Bad_Request m), sample_panel)"
proof -
  let ?r = "create_rule sample_routes (\<lambda>_. False) (sample_user 1 ''user'') [] (sample_create\<lparr>cq_listen_port := Some 80\<rparr>) sample_panel"
  have "fst ?r = Inl (Bad_Request ''port pool'')"
    by code_simp
  then obtain p' where p': "?r = (Inl (Bad_Request ''port pool''), p')"
    by (metis prod.collapse)
  with bad_request_changes_nothing [of sample_routes "\<lambda>_. False" "sample_user 1 ''user''" "[]"
    "sample_create\<lparr>cq_listen_port := Some 80\<rparr>" sample_panel]
  show ?thesis by auto
qed

section \<open>Changing\<close>

text \<open>The row after a successful change: a field that is absent keeps its column.\<close>

definition updated_targets :: "route_env \<Rightarrow> update_request \<Rightarrow> db_rule \<Rightarrow> db_rule" where
  "updated_targets re req r =
     (if uq_extra_targets req = None \<and> uq_lb_strategy req = None then r
      else r\<lparr>dr_extra_targets := (case unwrap_or [] (uq_extra_targets req) of
               [] \<Rightarrow> None | ts \<Rightarrow> Some (re_encode re (map (\<lambda>(h, q). (trim h, q)) ts))),
             dr_lb_strategy := unwrap_or (dr_lb_strategy r) (uq_lb_strategy req)\<rparr>)"

definition updated_row :: "route_env \<Rightarrow> update_request \<Rightarrow> db_rule \<Rightarrow> db_rule" where
  "updated_row re req r =
     (let r1 = patched (map_option trim (uq_name req)) (uq_listen_ip req) (map_option uint (uq_listen_port req))
                 (map_option trim (uq_target_host req)) (map_option uint (uq_target_port req)) (uq_profile_id req)
                 (uq_max_connections req) r;
          r2 = updated_targets re req r1
      in r2\<lparr>dr_send_proxy := (case uq_send_proxy req of None \<Rightarrow> dr_send_proxy r2 | Some v \<Rightarrow> if v then 1 else 0),
            dr_remote_af := unwrap_or (dr_remote_af r2) (uq_remote_af req)\<rparr>)"

text \<open>A statement changes the one live row with an id.\<close>

definition on_live :: "int \<Rightarrow> (db_rule \<Rightarrow> db_rule) \<Rightarrow> db_rule \<Rightarrow> db_rule" where
  "on_live i f r = (if live_id i r then f r else r)"

lemma on_live_simps [simp]: "live_id i r \<Longrightarrow> on_live i f r = f r" "\<not> live_id i r \<Longrightarrow> on_live i f r = r"
  by (simp_all add: on_live_def)

lemma change_rules_on_live: "db_rules (change_rules (live_id i) f db) = map (on_live i f) (db_rules db)"
  by (simp add: change_rules_def on_live_def)

lemma optional_change_ok:
  assumes "(case x of Some v \<Rightarrow> update_db io q (change_rules (live_id i) (f v)) | None \<Rightarrow> returnA ()) p = (Inr u, p1)"
  shows "db_rules (pn_db p1) = map (on_live i (case x of None \<Rightarrow> id | Some v \<Rightarrow> f v)) (db_rules (pn_db p))"
proof (cases x)
  case None
  have "on_live i id r = r" for r by (simp add: on_live_def)
  with assms None show ?thesis by (simp add: map_idI)
next
  case (Some v)
  then have "pn_db p1 = change_rules (live_id i) (f v) (pn_db p)"
    using update_ok [of io q "change_rules (live_id i) (f v)" p u p1] assms by simp
  with Some show ?thesis by (simp add: change_rules_on_live)
qed

lemma update_targets_ok:
  assumes "update_targets re auth r req = Inr t" "dr_lb_strategy r = dr_lb_strategy x"
  shows "(case t of None \<Rightarrow> x | Some (e, s) \<Rightarrow> x\<lparr>dr_extra_targets := e, dr_lb_strategy := s\<rparr>) = updated_targets re req x"
proof (cases "uq_extra_targets req = None \<and> uq_lb_strategy req = None")
  case True
  with assms(1) show ?thesis
    by (auto simp: update_targets_def updated_targets_def)
next
  case False
  let ?extra = "unwrap_or [] (uq_extra_targets req)" and ?s = "unwrap_or (dr_lb_strategy x) (uq_lb_strategy req)"
  obtain y where v: "validate_targets re ?extra (Some ?s) (is_admin auth) = Inr y" and t: "t = Some y"
    using assms(1) False unfolding update_targets_def Let_def assms(2) by (auto simp: bindR_eq_Inr)
  have "y = (if ?extra = [] then None else Some (re_encode re (map (\<lambda>(h, q). (trim h, q)) ?extra)), ?s)"
    using validate_targets_ok [OF v] by (intro prod_eqI) simp_all
  moreover have "updated_targets re req x = x\<lparr>dr_extra_targets := (case ?extra of
               [] \<Rightarrow> None | ts \<Rightarrow> Some (re_encode re (map (\<lambda>(h, q). (trim h, q)) ts))), dr_lb_strategy := ?s\<rparr>"
    using False unfolding updated_targets_def by (simp only: if_False)
  ultimately show ?thesis
    by (cases ?extra) (simp_all add: t)
qed

lemma set_targets_ok:
  assumes "(case t of Some (e, s) \<Rightarrow> update_db io q (set_targets i e s) | None \<Rightarrow> returnA ()) p = (Inr u, p1)"
  shows "db_rules (pn_db p1) = map (on_live i (\<lambda>r. case t of None \<Rightarrow> r
      | Some (e, s) \<Rightarrow> r\<lparr>dr_extra_targets := e, dr_lb_strategy := s\<rparr>)) (db_rules (pn_db p))"
proof -
  let ?f = "\<lambda>x r. case x of (e, s) \<Rightarrow> r\<lparr>dr_extra_targets := e, dr_lb_strategy := s\<rparr>"
  have e1: "(\<lambda>r. case t of None \<Rightarrow> r | Some (e, s) \<Rightarrow> r\<lparr>dr_extra_targets := e, dr_lb_strategy := s\<rparr>)
      = (case t of None \<Rightarrow> id | Some x \<Rightarrow> ?f x)"
    by (cases t) auto
  have e2: "(case t of Some (e, s) \<Rightarrow> update_db io q (set_targets i e s) | None \<Rightarrow> returnA ())
      = (case t of Some x \<Rightarrow> update_db io q (change_rules (live_id i) (?f x)) | None \<Rightarrow> returnA ())"
    by (cases t) (auto simp: set_targets_def)
  show ?thesis
    unfolding e1 by (rule optional_change_ok [OF assms [unfolded e2]])
qed

lemma update_row_ok:
  assumes "update_row i req db = (Inr n, db')"
  shows "db_rules db' = map (on_live i (patched (map_option trim (uq_name req)) (uq_listen_ip req)
      (map_option uint (uq_listen_port req)) (map_option trim (uq_target_host req)) (map_option uint (uq_target_port req))
      (uq_profile_id req) (uq_max_connections req))) (db_rules db)"
  using assms by (auto simp: update_row_def update_fields_def Let_def change_rules_on_live split: list.splits)

lemma update_rule_ok:
  assumes "update_rule re io auth ip i req p = (Inr v, p')" "rules_wf (pn_db p)"
  obtains x where "find_rule (pn_db p) i = Some x" "is_admin auth \<or> dr_user_id x = cl_sub auth"
    "db_rules (pn_db p') = map (on_live i (updated_row re req)) (db_rules (pn_db p))"
    "update_granted io auth x req (pn_db p) = Inr ()" "update_columns auth x req = Inr ()"
    "update_profile io auth req (pn_db p) = Inr ()"
proof -
  from assms(1) obtain t n p1 p2 p3 p4 r where
    chk: "update_checks re io auth i req (pn_db p) = Inr t"
    and w: "write_db io ''update_rule'' map_sqlx_to_api (update_row i req) p = (Inr n, p1)"
    and tg: "(case t of Some (e, s) \<Rightarrow> update_db io ''set_targets'' (set_targets i e s) | None \<Rightarrow> returnA ()) p1 = (Inr (), p2)"
    and sp: "(case uq_send_proxy req of
        Some v \<Rightarrow> update_db io ''set_send_proxy'' (set_send_proxy_protocol i v) | None \<Rightarrow> returnA ()) p2 = (Inr (), p3)"
    and af: "(case uq_remote_af req of
        Some af \<Rightarrow> update_db io ''set_remote_af'' (set_remote_af i af) | None \<Rightarrow> returnA ()) p3 = (Inr (), p4)"
    and p': "p' = dispatch_rule_apply_locked (re_panel re) io r (record_with_ip io (Some (cl_sub auth)) (as_option ip)
        ''rule.update'' (Some ''rule'') (Some i) None True None p4)"
    unfolding update_rule_def update_stored_def by (auto simp: bindA_eq)
  from chk obtain x where x: "find_rule (pn_db p) i = Some x" "is_admin auth \<or> dr_user_id x = cl_sub auth"
    "update_granted io auth x req (pn_db p) = Inr ()" "update_columns auth x req = Inr ()"
    "update_profile io auth req (pn_db p) = Inr ()" and ut: "update_targets re auth x req = Inr t"
    by (auto simp: update_checks_def fetch_rule_def ensure_can_touch_def bindR_eq_Inr)
  have same: "dr_lb_strategy x = dr_lb_strategy r" if "r \<in> set (db_rules (pn_db p))" "live_id i r" for r
  proof -
    have "find_rule (pn_db p) i = Some (select_rule (pn_db p) r)"
      using that assms(2) by (auto simp: live_id_def find_rule_Some_iff)
    with x(1) have "x = select_rule (pn_db p) r" by simp
    then show ?thesis by simp
  qed
  note steps = update_row_ok [OF write_ok(1) [OF w]] set_targets_ok [OF tg]
    optional_change_ok [OF sp [unfolded set_send_proxy_protocol_def]] optional_change_ok [OF af [unfolded set_remote_af_def]]
  have "db_rules (pn_db p') = map (on_live i (updated_row re req)) (db_rules (pn_db p))"
    unfolding p' send_frame record_frame steps map_map
  proof (rule map_cong [OF refl], goal_cases)
    case (1 r)
    show ?case
    proof (cases "live_id i r")
      case True
      define r1 where "r1 = patched (map_option trim (uq_name req)) (uq_listen_ip req) (map_option uint (uq_listen_port req))
            (map_option trim (uq_target_host req)) (map_option uint (uq_target_port req)) (uq_profile_id req)
            (uq_max_connections req) r"
      have r1: "dr_lb_strategy x = dr_lb_strategy r1" "live_id i r1"
        using same [OF 1 True] True by (simp_all add: r1_def live_id_def patched_def)
      have r2: "live_id i (updated_targets re req r1)"
        using r1(2) by (simp add: updated_targets_def live_id_def)
      let ?r3 = "case uq_send_proxy req of None \<Rightarrow> updated_targets re req r1
          | Some v \<Rightarrow> updated_targets re req r1\<lparr>dr_send_proxy := (if v then 1 else 0)\<rparr>"
      have r3: "live_id i ?r3"
        using r2 by (simp add: live_id_def split: option.split)
      have 4: "updated_row re req r = (case uq_remote_af req of None \<Rightarrow> id | Some v \<Rightarrow> \<lambda>r. r\<lparr>dr_remote_af := v\<rparr>) ?r3"
        by (cases "uq_send_proxy req"; cases "uq_remote_af req") (simp_all add: updated_row_def Let_def r1_def)
      have 3: "(case uq_send_proxy req of None \<Rightarrow> id | Some v \<Rightarrow> \<lambda>r. r\<lparr>dr_send_proxy := (if v then 1 else 0)\<rparr>)
          (updated_targets re req r1) = ?r3"
        by (cases "uq_send_proxy req") simp_all
      have 2: "(case t of None \<Rightarrow> r1 | Some (e, s) \<Rightarrow> r1\<lparr>dr_extra_targets := e, dr_lb_strategy := s\<rparr>) = updated_targets re req r1"
        by (rule update_targets_ok [OF ut r1(1)])
      show ?thesis
        unfolding comp_def on_live_simps(1) [OF True] r1_def [symmetric] on_live_simps(1) [OF r1(2)] 2
          on_live_simps(1) [OF r2] 3 on_live_simps(1) [OF r3] 4 ..
    next
      case False
      then show ?thesis by simp
    qed
  qed
  from that [OF x(1,2) this x(3-5)] show thesis .
qed

text \<open>A change is a patch of one row: when it succeeds, the rule was the caller's own or the caller
  is an administrator, every row but the live one with the id is as before, and that one keeps its
  owner, node, protocol, tunnel and counters and every column whose field is absent, takes the
  given values, and stays enabled or disabled as it was; a user who is not an administrator changed
  no limit, no profile and no PROXY protocol and, when the request touches the listener or the
  targets, still holds the grant for the node or the tunnel.\<close>

theorem update_patches_one_row:
  assumes "update_rule re io auth ip i req p = (Inr v, p')" "rules_wf (pn_db p)"
  shows "\<exists>x. find_rule (pn_db p) i = Some x \<and> (is_admin auth \<or> dr_user_id x = cl_sub auth)
    \<and> (\<not> is_admin auth \<longrightarrow> uq_max_connections req = None \<and> uq_send_proxy req = None \<and> uq_profile_id req = None
         \<and> (redirecting req \<longrightarrow> (case dr_tunnel_id x of Some t \<Rightarrow> tunnel_granted (pn_db p) (dr_user_id x) t
              | None \<Rightarrow> node_granted (pn_db p) (dr_user_id x) (dr_node_id x))))
    \<and> db_rules (pn_db p') = map (\<lambda>r. if live_id i r then updated_row re req r else r) (db_rules (pn_db p))
    \<and> (\<forall>r. dr_user_id (updated_row re req r) = dr_user_id r \<and> dr_node_id (updated_row re req r) = dr_node_id r
         \<and> dr_protocol (updated_row re req r) = dr_protocol r \<and> dr_tunnel_id (updated_row re req r) = dr_tunnel_id r
         \<and> dr_enabled (updated_row re req r) = dr_enabled r \<and> dr_rx (updated_row re req r) = dr_rx r
         \<and> dr_listen_port (updated_row re req r) = unwrap_or (dr_listen_port r) (map_option uint (uq_listen_port req))
         \<and> dr_target_host (updated_row re req r) = unwrap_or (dr_target_host r) (map_option trim (uq_target_host req)))"
proof -
  obtain x where x: "find_rule (pn_db p) i = Some x" "is_admin auth \<or> dr_user_id x = cl_sub auth"
    and rows: "db_rules (pn_db p') = map (on_live i (updated_row re req)) (db_rules (pn_db p))"
    and chk: "update_granted io auth x req (pn_db p) = Inr ()" "update_columns auth x req = Inr ()"
      "update_profile io auth req (pn_db p) = Inr ()"
    by (rule update_rule_ok [OF assms])
  have admin: "\<not> is_admin auth \<longrightarrow> uq_max_connections req = None \<and> uq_send_proxy req = None \<and> uq_profile_id req = None"
    using chk(2,3) by (auto simp: update_columns_def update_profile_def bindR_eq_Inr)
  have granted: "\<not> is_admin auth \<longrightarrow> redirecting req \<longrightarrow> (case dr_tunnel_id x of Some t \<Rightarrow> tunnel_granted (pn_db p) (dr_user_id x) t
              | None \<Rightarrow> node_granted (pn_db p) (dr_user_id x) (dr_node_id x))"
    using chk(1) by (auto simp: update_granted_def bindR_eq_Inr split: option.splits)
  have cols: "dr_user_id (updated_row re req r) = dr_user_id r \<and> dr_node_id (updated_row re req r) = dr_node_id r
         \<and> dr_protocol (updated_row re req r) = dr_protocol r \<and> dr_tunnel_id (updated_row re req r) = dr_tunnel_id r
         \<and> dr_enabled (updated_row re req r) = dr_enabled r \<and> dr_rx (updated_row re req r) = dr_rx r
         \<and> dr_listen_port (updated_row re req r) = unwrap_or (dr_listen_port r) (map_option uint (uq_listen_port req))
         \<and> dr_target_host (updated_row re req r) = unwrap_or (dr_target_host r) (map_option trim (uq_target_host req))" for r
    by (simp add: updated_row_def updated_targets_def Let_def patched_def coalesce_def unwrap_or_def)
  have "on_live i (updated_row re req) = (\<lambda>r. if live_id i r then updated_row re req r else r)"
    by (rule ext) (simp add: on_live_def)
  with x rows admin granted cols show ?thesis by simp
qed

text \<open>A change of the strategy alone throws the extra targets away: a request that gives a strategy
  and no list of targets, for which the code documents that an absent list leaves the targets as
  they are, leaves the rule with its main target only. Such a request also passes for a user whose
  grant has been withdrawn.\<close>

theorem strategy_change_drops_targets:
  assumes "update_rule re io auth ip i req p = (Inr v, p')" "rules_wf (pn_db p)"
    "uq_extra_targets req = None" "uq_lb_strategy req = Some s"
  shows "\<forall>r \<in> set (db_rules (pn_db p')). live_id i r \<longrightarrow> dr_extra_targets r = None \<and> dr_lb_strategy r = s"
proof -
  obtain x where rows: "db_rules (pn_db p') = map (on_live i (updated_row re req)) (db_rules (pn_db p))"
    by (rule update_rule_ok [OF assms(1,2)])
  have "dr_extra_targets (updated_row re req r) = None \<and> dr_lb_strategy (updated_row re req r) = s" for r
    using assms(3,4) by (simp add: updated_row_def updated_targets_def Let_def)
  then show ?thesis
    by (auto simp: rows on_live_def)
qed

definition sample_update :: update_request where
  "sample_update = \<lparr>uq_name = None, uq_listen_ip = None, uq_listen_port = Some 15000, uq_target_host = None, uq_target_port = None,
     uq_profile_id = None, uq_max_connections = None, uq_extra_targets = None, uq_lb_strategy = Some ''round'',
     uq_send_proxy = None, uq_remote_af = None\<rparr>"

definition updated :: "(api_error + rule_view) \<times> panel" where
  "updated = update_rule sample_routes (\<lambda>_. False) (sample_user 1 ''user'') [] 7 sample_update
     (sample_panel\<lparr>pn_db := set_targets 7 (Some ''t'') ''rand'' sample_db\<rparr>)"

lemma updated_ok: "case fst updated of Inl _ \<Rightarrow> False | Inr v \<Rightarrow> rv_listen_port v = 15000"
  by code_simp

lemma updated_pair: "\<exists>v. updated = (Inr v, snd updated)"
proof -
  obtain v where "fst updated = Inr v"
    using updated_ok by (auto split: sum.splits)
  then show ?thesis by (metis prod.collapse)
qed

lemma updated_wf: "rules_wf (pn_db (sample_panel\<lparr>pn_db := set_targets 7 (Some ''t'') ''rand'' sample_db\<rparr>))"
  using sample_db_wf(1) by (simp add: set_targets_def rules_wf_change)

lemma update_patches_one_row_witness:
  "\<exists>x. find_rule (set_targets 7 (Some ''t'') ''rand'' sample_db) 7 = Some x \<and> dr_user_id x = 1"
proof -
  obtain v where "updated = (Inr v, snd updated)"
    using updated_pair by blast
  from update_patches_one_row [OF this [unfolded updated_def] updated_wf] show ?thesis
    by (auto simp: sample_user_def is_admin_def)
qed

lemma updated_live: "list_ex (live_id 7) (db_rules (pn_db (snd updated)))"
  by code_simp

lemma strategy_change_drops_targets_witness:
  "\<exists>r \<in> set (db_rules (pn_db (snd updated))). live_id 7 r \<and> dr_extra_targets r = None \<and> dr_lb_strategy r = ''round''"
proof -
  obtain v where "updated = (Inr v, snd updated)"
    using updated_pair by blast
  from strategy_change_drops_targets [OF this [unfolded updated_def] updated_wf, of "''round''"] updated_live show ?thesis
    by (auto simp: sample_update_def updated_def list_ex_iff)
qed

section \<open>A run of calls\<close>

definition sample_api_call :: api_call where
  "sample_api_call = \<lparr>ac_user = sample_user 1 ''user'', ac_ip = [], ac_faults = (\<lambda>_. False), ac_call = Create sample_create\<rparr>"

lemma created_row_stored: "list_ex (\<lambda>r. dr_lb_strategy r = ''round'' \<and> \<not> dr_deleted r \<and> dr_protocol r = ''tcp'') (db_rules (pn_db (snd created)))"
  by code_simp

lemma sample_rules_inv: "rules_inv sample_db"
  using sample_db_wf by (simp add: rules_inv_def bindings_ok_def same_listener_def sample_db_def sample_rule_def)

lemma api_runs_keep_bindings_witness:
  "\<exists>r \<in> set (db_rules (pn_db (foldl (api_step sample_routes) sample_panel [sample_api_call]))). dr_lb_strategy r = ''round'' \<and> rule_checks r
     \<and> dr_id r < db_next_rule (pn_db (foldl (api_step sample_routes) sample_panel [sample_api_call]))"
proof -
  have inv: "rules_inv (pn_db sample_panel)"
    by (simp add: sample_panel_def sample_rules_inv)
  have q: "foldl (api_step sample_routes) sample_panel [sample_api_call] = snd created"
    by (simp add: api_step_def sample_api_call_def created_def)
  obtain r where r: "r \<in> set (db_rules (pn_db (snd created)))" "dr_lb_strategy r = ''round''" "\<not> dr_deleted r" "dr_protocol r = ''tcp''"
    using created_row_stored by (auto simp: list_ex_iff)
  have "protocols_overlap (dr_protocol r) (dr_protocol r)"
    by (simp add: protocols_overlap_def r(4))
  then have "r = r \<and> rule_checks r \<and> dr_id r < db_next_rule (pn_db (snd created))"
    using api_runs_keep_bindings [OF inv q [symmetric] r(1) r(1) r(3) r(3)] by blast
  with r q show ?thesis by auto
qed
end
