(* ===== verification/Rules_Commands.thy ===== *)
theory Rules_Commands
  imports Rules_Props
begin

text \<open>
  What the handlers for rules send to the nodes: deleting, the agreement of the single commands
  with the replay, a command that is sent too late, and the list of rules.
\<close>

section \<open>Commands of the handlers\<close>

lemma dispatch_channels: "dp_channels (snd (dispatch n c d)) = dp_channels d"
  by (simp add: dispatch_def try_send_cell_def split: option.split)

lemma dispatch_cells: "length (dp_cells (snd (dispatch n c d))) = length (dp_cells d)"
  by (simp add: dispatch_def try_send_cell_def split: option.split)

lemma dispatch_sent_grows:
  "x \<in> set (ch_sent (dp_cells d ! g)) \<Longrightarrow> x \<in> set (ch_sent (dp_cells (snd (dispatch n c d)) ! g))"
  by (cases "g < length (dp_cells d)")
    (auto simp: dispatch_def try_send_cell_def nth_list_update split: option.split)

lemma dispatch_each_frame:
  "dispatch_each ncs d = (oks, d') \<Longrightarrow> dp_channels d' = dp_channels d
     \<and> (\<forall>g x. x \<in> set (ch_sent (dp_cells d ! g)) \<longrightarrow> x \<in> set (ch_sent (dp_cells d' ! g)))"
proof (induction ncs arbitrary: d oks d')
  case Nil
  then show ?case by simp
next
  case (Cons nc ncs)
  obtain n c where nc: "nc = (n, c)" by (cases nc)
  obtain ok d1 where d1: "dispatch n c d = (ok, d1)" by fastforce
  obtain oks1 where r: "dispatch_each ncs d1 = (oks1, d')" "oks = ok # oks1"
    using Cons.prems nc d1 by (auto split: prod.splits)
  show ?case
    using Cons.IH [OF r(1)] dispatch_channels [of n c d] dispatch_sent_grows [of _ d _ n c] d1 by simp
qed

lemma dispatch_each_sent:
  assumes "dispatch_each ncs d = (oks, d')" "list_all id oks" "(n, c) \<in> set ncs"
  shows "\<exists>g. hm_get (dp_channels d) n = Some g \<and> c \<in> set (ch_sent (dp_cells d' ! g))"
  using assms
proof (induction ncs arbitrary: d oks d')
  case Nil
  then show ?case by simp
next
  case (Cons nc ncs)
  obtain m b where nc: "nc = (m, b)" by (cases nc)
  obtain ok d1 where d1: "dispatch m b d = (ok, d1)" by fastforce
  obtain oks1 where r: "dispatch_each ncs d1 = (oks1, d')" "oks = ok # oks1"
    using Cons.prems nc d1 by (auto split: prod.splits)
  have ch: "dp_channels d1 = dp_channels d"
    using dispatch_channels [of m b d] d1 by simp
  show ?case
  proof (cases "(n, c) = (m, b)")
    case False
    with Cons.prems(3) nc have "(n, c) \<in> set ncs" by auto
    moreover have "list_all id oks1" using Cons.prems(2) r(2) by (auto simp: list_all_iff)
    ultimately have "(n, c) \<in> set ncs" "list_all id oks1" by blast+
    from Cons.IH [OF r(1) this(2,1)] show ?thesis by (simp only: ch)
  next
    case True
    have "ok" using Cons.prems(2) r(2) by simp
    then obtain g where g: "hm_get (dp_channels d) n = Some g" "c \<in> set (ch_sent (dp_cells d1 ! g))"
      using d1 True by (auto simp: dispatch_def try_send_cell_def split: option.splits if_splits)
    with dispatch_each_frame [OF r(1)] show ?thesis by blast
  qed
qed

lemma parts_node:
  assumes "map_of (tunnel_parts db r tid) n = Some q"
  shows "n \<in> hp_node_id ` set (list_for_tunnel db tid)"
proof -
  obtain t where "find_tunnel db tid = Some t"
    using assms by (cases "find_tunnel db tid") (simp_all add: tunnel_parts_def)
  then have "map fst (tunnel_parts db r tid) = map hp_node_id (list_for_tunnel db tid)"
    by (simp add: tunnel_parts_def split_nodes hop_input_of_def)
  moreover have "n \<in> set (map fst (tunnel_parts db r tid))"
    using map_of_SomeD [OF assms] by force
  ultimately show ?thesis by simp
qed

lemma wanted_targets:
  assumes "wanted pe db n i = Some q" "find_rule db i = Some r" "rule_target_nodes io db r = Inr ns"
  shows "n \<in> set ns"
  using assms parts_node
  by (fastforce simp: wanted_def rule_target_nodes_def tunnel_node_ids_def split: option.splits if_splits)

lemma find_deleted:
  "find (\<lambda>r. dr_id r = j \<and> \<not> dr_deleted r) (map (on_live i (\<lambda>r. r\<lparr>dr_deleted := True\<rparr>)) rs)
     = (if j = i then None else find (\<lambda>r. dr_id r = j \<and> \<not> dr_deleted r) rs)"
  by (induction rs) (auto simp: on_live_def live_id_def)

lemma find_rule_deleted:
  "find_rule (snd (soft_delete_rule i db)) j = (if j = i then None else find_rule db j)"
proof -
  have "select_rule (change_rules P f db) = select_rule db" for P f
    by (simp add: select_rule_def mbps_of_def fun_eq_iff split: option.split)
  then show ?thesis
    by (simp add: soft_delete_rule_def find_rule_def change_rules_on_live find_deleted)
qed

lemma find_rule_audit [simp]: "find_rule (pn_db (record_with_ip io a b c d e f g h p)) = find_rule (pn_db p)"
proof -
  have "select_rule (pn_db (record_with_ip io a b c d e f g h p)) = select_rule (pn_db p)"
    by (rule ext) (simp add: select_rule_def mbps_of_def split: option.split)
  then show ?thesis by (intro ext) (simp add: find_rule_def)
qed

text \<open>The state after a successful deletion.\<close>

lemma delete_ok:
  assumes "delete_rule io auth ip i p = (Inr d, p')"
  obtains r where "find_rule (pn_db p) i = Some r" "is_admin auth \<or> dr_user_id r = cl_sub auth"
    "find_rule (pn_db p') = find_rule (snd (soft_delete_rule i (pn_db p)))"
    "case rule_target_nodes io (pn_db p) r of
       Inl _ \<Rightarrow> \<not> d \<and> pn_dispatcher p' = pn_dispatcher p
     | Inr ns \<Rightarrow> (\<exists>oks. dispatch_each (map (\<lambda>n. (n, remove_command i)) ns) (pn_dispatcher p) = (oks, pn_dispatcher p')
                   \<and> d = list_all id oks)"
proof -
  from assms obtain r rows p1 where r: "own_rule io auth i (pn_db p) = Inr r"
    and w: "write_db io ''soft_delete'' Database (\<lambda>db. case soft_delete_rule i db of (n, db') \<Rightarrow> (Inr n, db')) p = (Inr rows, p1)"
    and s: "(case (case rule_target_nodes io (pn_db p) r of Inl _ \<Rightarrow> None | Inr ns \<Rightarrow> Some ns) of
         Some ns \<Rightarrow> (\<lambda>p. case dispatch_rule_remove_to (dr_id r) ns p of (ok, p1) \<Rightarrow> (Inr ok, p1))
       | None \<Rightarrow> returnA False) (record_with_ip io (Some (cl_sub auth)) (as_option ip) ''rule.delete'' (Some ''rule'') (Some i)
              None True None p1) = (Inr d, p')"
    unfolding delete_rule_def by (auto simp: bindA_eq)
  have r': "find_rule (pn_db p) i = Some r" "is_admin auth \<or> dr_user_id r = cl_sub auth"
    using r by (auto simp: own_rule_def fetch_rule_def bindR_eq_Inr ensure_can_touch_def)
  then have i: "dr_id r = i"
    by (auto simp: find_rule_def dest: find_SomeD)
  have p1: "pn_db p1 = snd (soft_delete_rule i (pn_db p))" "pn_dispatcher p1 = pn_dispatcher p"
    using write_ok [OF w] by (auto split: prod.splits)
  have "find_rule (pn_db p') = find_rule (snd (soft_delete_rule i (pn_db p)))
    \<and> (case rule_target_nodes io (pn_db p) r of
       Inl _ \<Rightarrow> \<not> d \<and> pn_dispatcher p' = pn_dispatcher p
     | Inr ns \<Rightarrow> (\<exists>oks. dispatch_each (map (\<lambda>n. (n, remove_command i)) ns) (pn_dispatcher p) = (oks, pn_dispatcher p')
                   \<and> d = list_all id oks))"
    using s p1
    by (cases "rule_target_nodes io (pn_db p) r") (auto simp: i dispatch_rule_remove_to_def split: prod.splits)
  with r' that show thesis by blast
qed

text \<open>C34. A deleted rule is gone: when deleting succeeds, no query finds the rule, every other one is as
  before, no node should run it any more, and the answer \<^verbatim>\<open>dispatched\<close> is only given when every node
  that should have run it has the command to remove it in its channel.\<close>

theorem delete_removes:
  assumes "delete_rule io auth ip i p = (Inr d, p')"
  shows "find_rule (pn_db p') i = None \<and> (\<forall>j. j \<noteq> i \<longrightarrow> find_rule (pn_db p') j = find_rule (pn_db p) j)
    \<and> wanted pe (pn_db p') n i = None
    \<and> (d \<longrightarrow> wanted pe (pn_db p) n i \<noteq> None \<longrightarrow>
         (\<exists>g. hm_get (dp_channels (pn_dispatcher p)) n = Some g
            \<and> remove_command i \<in> set (ch_sent (dp_cells (pn_dispatcher p') ! g))))"
proof -
  obtain r where r: "find_rule (pn_db p) i = Some r" and "is_admin auth \<or> dr_user_id r = cl_sub auth"
    and fr: "find_rule (pn_db p') = find_rule (snd (soft_delete_rule i (pn_db p)))"
    and s: "case rule_target_nodes io (pn_db p) r of
       Inl _ \<Rightarrow> \<not> d \<and> pn_dispatcher p' = pn_dispatcher p
     | Inr ns \<Rightarrow> (\<exists>oks. dispatch_each (map (\<lambda>n. (n, remove_command i)) ns) (pn_dispatcher p) = (oks, pn_dispatcher p')
                   \<and> d = list_all id oks)"
    by (rule delete_ok [OF assms])
  have sent: "\<exists>g. hm_get (dp_channels (pn_dispatcher p)) n = Some g
            \<and> remove_command i \<in> set (ch_sent (dp_cells (pn_dispatcher p') ! g))"
    if "d" and w: "wanted pe (pn_db p) n i \<noteq> None"
  proof -
    obtain ns where ns: "rule_target_nodes io (pn_db p) r = Inr ns"
      using s \<open>d\<close> by (auto split: sum.splits)
    then obtain oks where "dispatch_each (map (\<lambda>n. (n, remove_command i)) ns) (pn_dispatcher p) = (oks, pn_dispatcher p')"
        "list_all id oks"
      using s \<open>d\<close> by auto
    moreover have "n \<in> set ns"
      using w wanted_targets [OF _ r ns] by blast
    ultimately show ?thesis
      by (intro dispatch_each_sent) auto
  qed
  have "wanted pe (pn_db p') n i = None"
    by (simp add: wanted_def fr find_rule_deleted)
  with sent show ?thesis
    by (simp add: fr find_rule_deleted)
qed

lemma delete_removes_witness:
  "\<exists>d p'. delete_rule (\<lambda>_. False) (sample_user 1 ''user'') [] 8 sample_panel = (Inr d, p')
     \<and> wanted sample_env (pn_db sample_panel) 2 8 \<noteq> None \<and> wanted sample_env (pn_db p') 2 8 = None"
proof -
  have "case fst (delete_rule (\<lambda>_. False) (sample_user 1 ''user'') [] 8 sample_panel) of Inl _ \<Rightarrow> False | Inr _ \<Rightarrow> True"
    by code_simp
  then obtain d where "fst (delete_rule (\<lambda>_. False) (sample_user 1 ''user'') [] 8 sample_panel) = Inr d"
    by (auto split: sum.splits)
  then obtain p' where d: "delete_rule (\<lambda>_. False) (sample_user 1 ''user'') [] 8 sample_panel = (Inr d, p')"
    by (metis prod.collapse)
  have "case wanted sample_env (pn_db sample_panel) 2 8 of None \<Rightarrow> False | Some _ \<Rightarrow> True"
    by code_simp
  then have "wanted sample_env (pn_db sample_panel) 2 8 \<noteq> None"
    by (auto split: option.splits)
  with d delete_removes [OF d, of sample_env 2] show ?thesis by blast
qed

text \<open>C14. The single commands agree with the replay: when no query fails, sending a stored rule sends each
  node exactly the message that the replay would give it, to every node that should run the rule
  and to no other, once.\<close>

theorem apply_agrees_with_replay:
  assumes "find_rule (pn_db p) (dr_id r) = Some r" "tunnels_wf (pn_db p)" "\<forall>s. \<not> io s"
  shows "\<exists>ncs. dispatch_rule_apply_locked pe io r p = send_each ncs p \<and> distinct (map fst ncs)
    \<and> (\<forall>n c. (n, c) \<in> set ncs \<longleftrightarrow> (\<exists>q. wanted pe (pn_db p) n (dr_id r) = Some q \<and> c = apply_command q))"
proof (cases "dr_tunnel_id r")
  case None
  have "dispatch_rule_apply_locked pe io r p
      = send_each [(dr_node_id r, apply_command (rule_to_proto (pe_decode pe) r (node_mask (pn_db p) (dr_node_id r))))] p"
    using None assms(3)
    by (simp add: dispatch_rule_apply_locked_def rule_target_nodes_def dispatch_rule_apply_def node_block_protocols_def
        query_def node_mask_def)
  with None assms(1) show ?thesis
    by (intro exI [of _ "[(dr_node_id r, apply_command (rule_to_proto (pe_decode pe) r (node_mask (pn_db p) (dr_node_id r))))]"])
      (auto simp: wanted_def)
next
  case (Some tid)
  let ?parts = "tunnel_parts (pn_db p) r tid"
  let ?ncs = "map (\<lambda>(n, q). (n, apply_command q)) ?parts"
  obtain x where x: "split_for io (pn_db p) r tid = Inr x"
    using assms(3)
    by (cases "split_for io (pn_db p) r tid") (auto simp: split_for_def query_def split: option.splits if_splits)
  have d: "distinct (map fst ?parts)"
    by (rule parts_nodes [OF assms(2)])
  have "send_each [] p = p"
    by (simp add: send_each_def)
  then have "dispatch_rule_apply_locked pe io r p = send_each ?ncs p"
    using Some assms(3) x split_for_parts [OF x]
    by (auto simp: dispatch_rule_apply_locked_def rule_target_nodes_def tunnel_node_ids_def query_def dispatch_rule_apply_def
        split: option.splits)
  moreover have "map fst ?ncs = map fst ?parts"
    by (simp add: comp_def case_prod_beta)
  moreover have "(n, c) \<in> set ?ncs \<longleftrightarrow> (\<exists>q. wanted pe (pn_db p) n (dr_id r) = Some q \<and> c = apply_command q)" for n c
    using Some assms(1) d by (auto simp: wanted_def)
  ultimately show ?thesis
    using d by (intro exI [of _ ?ncs] conjI) (simp_all only:, blast)
qed

lemma apply_agrees_with_replay_witness:
  "\<exists>r ncs. find_rule sample_db 8 = Some r \<and> dispatch_rule_apply_locked sample_env (\<lambda>_. False) r sample_panel = send_each ncs sample_panel"
proof -
  obtain r where r: "find_rule sample_db 8 = Some r" "dr_id r = 8"
    by (simp add: find_rule_def sample_db_def sample_rule_def)
  with apply_agrees_with_replay [of sample_panel r "\<lambda>_. False" sample_env] sample_db_wf show ?thesis
    by (auto simp: sample_panel_def)
qed

section \<open>A late command\<close>

lemma update_stored_ok:
  assumes "update_stored re io auth ip i req p = (Inr r, p1)"
  shows "find_rule (pn_db p1) i = Some r" "dr_id r = i" "pn_dispatcher p1 = pn_dispatcher p"
proof -
  have upd: "pn_dispatcher q1 = pn_dispatcher q" if "update_db io s f q = (x, q1)" for s f q q1 and x :: "api_error + unit"
    using that by (auto simp: update_db_def write_db_def split: if_splits)
  from assms obtain t n p0 p2 p3 p4 where
    w: "write_db io ''update_rule'' map_sqlx_to_api (update_row i req) p = (Inr n, p0)"
    and tg: "(case t of Some (e, s) \<Rightarrow> update_db io ''set_targets'' (set_targets i e s) | None \<Rightarrow> returnA ()) p0 = (Inr (), p2)"
    and sp: "(case uq_send_proxy req of
        Some v \<Rightarrow> update_db io ''set_send_proxy'' (set_send_proxy_protocol i v) | None \<Rightarrow> returnA ()) p2 = (Inr (), p3)"
    and af: "(case uq_remote_af req of
        Some af \<Rightarrow> update_db io ''set_remote_af'' (set_remote_af i af) | None \<Rightarrow> returnA ()) p3 = (Inr (), p4)"
    and f: "fetch_rule io ''reread_rule'' (pn_db p4) i = Inr r"
    and p1: "p1 = record_with_ip io (Some (cl_sub auth)) (as_option ip) ''rule.update'' (Some ''rule'') (Some i) None True None p4"
    unfolding update_stored_def by (auto simp: bindA_eq)
  have d: "pn_dispatcher p2 = pn_dispatcher p0" "pn_dispatcher p3 = pn_dispatcher p2" "pn_dispatcher p4 = pn_dispatcher p3"
    using tg sp af upd by (auto split: option.splits prod.splits)
  show "pn_dispatcher p1 = pn_dispatcher p"
    using d write_ok(2) [OF w] by (simp add: p1)
  show r: "find_rule (pn_db p1) i = Some r"
    using f by (auto simp: p1 fetch_rule_def bindR_eq_Inr)
  then show "dr_id r = i"
    by (auto simp: find_rule_def dest: find_SomeD)
qed

lemma dispatch_open:
  assumes "hm_get (dp_channels d) n = Some g" "g < length (dp_cells d)" "ch_open (dp_cells d ! g)"
    "length (ch_queue (dp_cells d ! g)) < CHANNEL_CAPACITY"
  shows "fst (dispatch n c d)" "hm_get (dp_channels (snd (dispatch n c d))) n = Some g"
    "dp_cells (snd (dispatch n c d)) ! g = (dp_cells d ! g)\<lparr>ch_queue := ch_queue (dp_cells d ! g) @ [c], ch_sent := ch_sent (dp_cells d ! g) @ [c]\<rparr>"
    "length (dp_cells (snd (dispatch n c d))) = length (dp_cells d)"
  using assms by (simp_all add: dispatch_def try_send_cell_def)

text \<open>
  A change and a deletion of the same rule, where the deletion runs after the change has read its
  row again and before it has the locks of the node: the command to apply the row is sent last.
\<close>

lemma late_apply:
  assumes "update_stored re io u ip i req p = (Inr r, p1)" "delete_rule io' u' ip' i p1 = (Inr d, p2)"
    "dr_tunnel_id r = None" "\<not> io ''block_protocols''"
    "hm_get (dp_channels (pn_dispatcher p)) (dr_node_id r) = Some g" "g < length (dp_cells (pn_dispatcher p))"
    "ch_open (dp_cells (pn_dispatcher p) ! g)" "length (ch_queue (dp_cells (pn_dispatcher p) ! g)) + 1 < CHANNEL_CAPACITY"
    "q = rule_to_proto (pe_decode pe) r (node_mask (pn_db p2) (dr_node_id r))"
    "p3 = dispatch_rule_apply_locked pe io r p2"
  shows "find_rule (pn_db p3) i = None"
    "ch_sent (dp_cells (pn_dispatcher p3) ! g) = ch_sent (dp_cells (pn_dispatcher p) ! g) @ [remove_command i, apply_command q]"
    "r_id q = i" "r_enabled q \<longleftrightarrow> dr_enabled r \<noteq> 0" "d"
proof -
  note st = update_stored_ok [OF assms(1)]
  let ?n = "dr_node_id r" and ?d = "pn_dispatcher p"
  obtain r' where r': "find_rule (pn_db p1) i = Some r'" and "is_admin u' \<or> dr_user_id r' = cl_sub u'"
    and fr: "find_rule (pn_db p2) = find_rule (snd (soft_delete_rule i (pn_db p1)))"
    and s: "case rule_target_nodes io' (pn_db p1) r' of
       Inl _ \<Rightarrow> \<not> d \<and> pn_dispatcher p2 = pn_dispatcher p1
     | Inr ns \<Rightarrow> (\<exists>oks. dispatch_each (map (\<lambda>n. (n, remove_command i)) ns) (pn_dispatcher p1) = (oks, pn_dispatcher p2)
                   \<and> d = list_all id oks)"
    by (rule delete_ok [OF assms(2)])
  have "r' = r" using r' st(1) by simp
  with s assms(3) have d2: "pn_dispatcher p2 = snd (dispatch ?n (remove_command i) ?d)" "d = fst (dispatch ?n (remove_command i) ?d)"
    by (auto simp: rule_target_nodes_def st(3) split: prod.splits)
  have q: "p3 = send_each [(?n, apply_command q)] p2"
    using assms(3,4,9,10)
    by (simp add: dispatch_rule_apply_locked_def rule_target_nodes_def dispatch_rule_apply_def node_block_protocols_def
        query_def node_mask_def)
  note o1 = dispatch_open [OF assms(5,6,7), of "remove_command i"]
  have cap: "length (ch_queue (dp_cells ?d ! g)) < CHANNEL_CAPACITY"
    using assms(8) by simp
  note o2 = dispatch_open [of "pn_dispatcher p2" ?n g "apply_command q"]
  show "find_rule (pn_db p3) i = None"
    by (simp add: q fr find_rule_deleted)
  show "d" using d2 o1 cap by simp
  show "ch_sent (dp_cells (pn_dispatcher p3) ! g) = ch_sent (dp_cells (pn_dispatcher p) ! g) @ [remove_command i, apply_command q]"
    using o2 o1 cap assms(6-8) by (simp add: q send_each_def case_prod_beta d2)
  show "r_id q = i" "r_enabled q \<longleftrightarrow> dr_enabled r \<noteq> 0"
    using st(2) by (simp_all add: assms(9) rule_to_proto_def)
qed

section \<open>Listing\<close>

text \<open>A list shows a user only his own rules: it changes nothing, has at most as many rules as a page,
  itself at most 100, tells the number of all rules that match, and every rule in it is live,
  passes the filters, is the caller's own unless he is an administrator, and, when a text was
  searched for, contains it in its name or host, letters in either case, or listens on the port of
  that number: no character of the text is a wildcard.\<close>

theorem list_shows_own_rules:
  assumes "list_rules re io auth q p = (Inr (vs, n, page, psize), p')" "\<And>f d rs. set (re_order re f d rs) \<subseteq> set rs"
  shows "p' = p \<and> 1 \<le> page \<and> 1 \<le> psize \<and> psize \<le> 100 \<and> int (length vs) \<le> psize
    \<and> (\<forall>v \<in> set vs. \<exists>r \<in> set (db_rules (pn_db p)). rv_id v = dr_id r \<and> rv_user_id v = dr_user_id r \<and> \<not> dr_deleted r
         \<and> (\<not> is_admin auth \<longrightarrow> dr_user_id r = cl_sub auth)
         \<and> (\<forall>u. lq_user_id q = Some u \<longrightarrow> dr_user_id r = u) \<and> (\<forall>m. lq_node_id q = Some m \<longrightarrow> dr_node_id r = m)
         \<and> (\<forall>s. lq_search q = Some s \<longrightarrow> show_int (dr_listen_port r) = s
              \<or> (\<exists>t \<in> {dr_name r, dr_target_host r}. \<exists>a m b. t = a @ m @ b \<and> map lower m = map lower s)))"
proof -
  let ?page = "max 1 (unwrap_or 1 (lq_page q))" and ?size = "clamp 1 100 (unwrap_or 20 (lq_page_size q))"
  let ?f = "rule_filter (lq_node_id q) (lq_protocol q) (lq_search q) (if is_admin auth then None else Some (cl_sub auth))
      (lq_user_id q) (lq_enabled q)"
  let ?items = "list_paged re (unwrap_or ''id'' (lq_sort q)) (unwrap_or ''desc'' (lq_order q) = ''desc'') (nat ?size)
      (nat (list_offset ?page ?size)) ?f (pn_db p)"
  obtain names where pp: "p' = p" "page = ?page" "psize = ?size"
    and vs: "vs = map (\<lambda>(r, name). (rule_view_of re r)\<lparr>rv_user_name := name\<rparr>) (zip ?items names)"
    using assms(1) unfolding list_rules_def Let_def by (auto simp: bindA_eq)
  have b: "1 \<le> ?size \<and> ?size \<le> 100"
    by (rule clamp_bounds) simp
  have len: "int (length vs) \<le> ?size"
  proof -
    have "length vs \<le> length ?items"
      unfolding vs length_map length_zip by (rule min.cobounded1)
    also have "\<dots> \<le> nat ?size"
      unfolding list_paged_def length_take by (rule min.cobounded2)
    finally show ?thesis using b by linarith
  qed
  have items: "r \<in> set ?items \<Longrightarrow> \<exists>x \<in> set (db_rules (pn_db p)). r = select_rule (pn_db p) x \<and> ?f x" for r
    using assms(2) by (fastforce simp: list_paged_def dest!: in_set_takeD in_set_dropD)
  have "\<exists>r \<in> set (db_rules (pn_db p)). rv_id v = dr_id r \<and> rv_user_id v = dr_user_id r \<and> ?f r" if v: "v \<in> set vs" for v
  proof -
    obtain r name where z: "(r, name) \<in> set (zip ?items names)" and "v = (rule_view_of re r)\<lparr>rv_user_name := name\<rparr>"
      using v unfolding vs by auto
    with items [OF set_zip_leftD [OF z]] show ?thesis by (auto simp: rule_view_of_def)
  qed
  with pp b len show ?thesis
    by (fastforce simp: rule_filter_def like_pattern_def like_match_contains split: if_splits)
qed

definition sample_query :: list_query where
  "sample_query = \<lparr>lq_page = None, lq_page_size = None, lq_sort = None, lq_order = None, lq_node_id = None,
     lq_protocol = None, lq_search = Some ''90'', lq_user_id = None, lq_enabled = None\<rparr>"

lemma list_shows_own_rules_witness:
  "\<exists>vs n page psize. list_rules sample_routes (\<lambda>_. False) (sample_user 1 ''user'') sample_query sample_panel
     = (Inr (vs, n, page, psize), sample_panel) \<and> map rv_id vs = [8]"
proof -
  let ?l = "list_rules sample_routes (\<lambda>_. False) (sample_user 1 ''user'') sample_query sample_panel"
  have "case fst ?l of Inl _ \<Rightarrow> False | Inr (vs, _) \<Rightarrow> map rv_id vs = [8]"
    by code_simp
  then obtain vs n page psize where "fst ?l = Inr (vs, n, page, psize)" "map rv_id vs = [8]"
    by (auto split: sum.splits)
  moreover from this(1) have l: "?l = (Inr (vs, n, page, psize), snd ?l)"
    by (metis prod.collapse)
  have "set (re_order sample_routes f d rs) \<subseteq> set rs" for f d rs
    by (simp add: sample_routes_def)
  from list_shows_own_rules [OF l this] have "snd ?l = sample_panel" by blast
  ultimately show ?thesis by (metis prod.collapse)
qed

section \<open>The messages are well-typed\<close>

lemma stored_port:
  assumes "1 \<le> i" "i \<le> 65535"
  shows "\<exists>p. u16_try_from (as_u32 i) = Some p \<and> uint p = i \<and> p \<noteq> 0"
proof -
  have u: "uint (as_u32 i) = i"
    using assms by (simp add: as_u32_def uint_word_of_int take_bit_int_eq_self)
  have le: "as_u32 i \<le> 65535"
    using assms u by (simp add: word_le_def)
  have up: "uint (ucast (as_u32 i) :: u16) = i"
    using assms u by (simp add: unsigned_ucast_eq take_bit_int_eq_self)
  moreover have "(ucast (as_u32 i) :: u16) \<noteq> 0"
    using up assms(1) by auto
  ultimately show ?thesis
    using le by (simp add: u16_try_from_def)
qed

lemma wanted_fields:
  assumes "rules_wf db" "r \<in> set (db_rules db)" "\<not> dr_deleted r" "wanted pe db n (dr_id r) = Some m"
  shows "r_id m = dr_id r \<and> r_protocol m = dr_protocol r \<and> r_listen_port m = as_u32 (dr_listen_port r)
    \<and> r_target_port m = as_u32 (dr_target_port r)"
proof -
  have f: "find_rule db (dr_id r) = Some (select_rule db r)"
    using assms(1-3) by (auto simp: find_rule_Some_iff)
  have part: "r_id q = dr_id r \<and> r_protocol q = dr_protocol r \<and> r_listen_port q = as_u32 (dr_listen_port r)
    \<and> r_target_port q = as_u32 (dr_target_port r)" if "(k, q) \<in> set (tunnel_parts db (select_rule db r) tid)" for k q tid
    using that by (auto simp: tunnel_parts_def split_tunnel_rule_def split_part_def split_input_of_def split: option.splits)
  show ?thesis
  proof (cases "dr_tunnel_id r")
    case None
    with assms(4) f show ?thesis
      by (auto simp: wanted_def rule_to_proto_def split: if_splits)
  next
    case (Some tid)
    with assms(4) f have "map_of (tunnel_parts db (select_rule db r) tid) n = Some m"
      by (simp add: wanted_def)
    then show ?thesis
      using part map_of_SomeD by fast
  qed
qed

text \<open>C36. The messages for the agents are well-typed: over every run of calls of the interface, a message the panel makes for a
  stored rule names that rule and one of the three protocols, and its ports, which the protocol
  buffers carry in 32 bits, convert to the 16 bits of the agent without an error, to exactly the
  ports of the row and never to 0.\<close>

theorem messages_well_typed:
  assumes "rules_inv (pn_db p)" "q = foldl (api_step re) p calls"
    "r \<in> set (db_rules (pn_db q))" "\<not> dr_deleted r" "wanted pe (pn_db q) n (dr_id r) = Some m"
  shows "r_id m = dr_id r \<and> r_protocol m \<in> set [''tcp'', ''udp'', ''tcp_udp'']
    \<and> (\<exists>lp. u16_try_from (r_listen_port m) = Some lp \<and> uint lp = dr_listen_port r \<and> lp \<noteq> 0)
    \<and> (\<exists>tp. u16_try_from (r_target_port m) = Some tp \<and> uint tp = dr_target_port r \<and> tp \<noteq> 0)"
proof -
  have inv: "rules_inv (pn_db q)"
    using rules_machine.run_inv [of p re calls] assms(1,2) by (simp add: panel_ok_def)
  then have "rules_wf (pn_db q)" and c: "rule_checks r"
    using assms(3) by (auto simp: rules_inv_def)
  from wanted_fields [OF this(1) assms(3-5)] c stored_port show ?thesis
    by (simp add: rule_checks_def)
qed

lemma messages_well_typed_witness:
  "\<exists>m lp. wanted sample_env (pn_db (foldl (api_step sample_routes) sample_panel [])) 2 8 = Some m
     \<and> u16_try_from (r_listen_port m) = Some lp \<and> uint lp = 90"
proof -
  let ?r = "sample_rule 8 90 (Some 4)"
  have inv: "rules_inv (pn_db sample_panel)"
    by (simp add: sample_panel_def sample_rules_inv)
  have r: "?r \<in> set (db_rules (pn_db sample_panel))" "\<not> dr_deleted ?r" "dr_id ?r = 8" "dr_listen_port ?r = 90"
    by (simp_all add: sample_panel_def sample_db_def sample_rule_def)
  have "wanted sample_env (pn_db sample_panel) 2 8 \<noteq> None"
    by code_simp
  then obtain m where "wanted sample_env (pn_db sample_panel) 2 (dr_id ?r) = Some m"
    using r by auto
  from messages_well_typed [OF inv _ r(1,2) this, of sample_routes "[]"] this r(3,4) show ?thesis
    by auto
qed
end
