(* ===== verification/Control_Service.thy ===== *)
theory Control_Service
  imports Api Probe
begin

text \<open>
  The gRPC side of the panel: the sessions (grpc/session.rs), the revocation list (tls/crl.rs),
  the calls of the agents (grpc/service.rs), the waiting diagnoses (state.rs) and the two handlers
  of routes/nodes.rs that end sessions. Hashing a token, a fresh token, the writing of the
  revocation list and the times that can be formatted are arguments. The counters are 64-bit columns:
  \<open>sql_add\<close> is the addition of SQLite, which goes on in floating point where the sum does not fit.
\<close>

section \<open>Sessions and revoked certificates\<close>

record session_info =
  se_node_id :: int
  se_expires_at :: int
  se_issuing_fp :: "string option"

type_synonym sessions = "(string \<times> session_info) list"

definition session_insert :: "string \<Rightarrow> session_info \<Rightarrow> sessions \<Rightarrow> sessions" where
  "session_insert token info m = hm_insert token info m"

definition session_verify :: "string \<Rightarrow> int \<Rightarrow> sessions \<Rightarrow> session_info option" where
  "session_verify token now m = (case hm_get m token of
     None \<Rightarrow> None
   | Some s \<Rightarrow> if now < se_expires_at s then Some s else None)"

definition revoke_node :: "int \<Rightarrow> sessions \<Rightarrow> sessions" where
  "revoke_node n m = hm_retain (\<lambda>_ s. se_node_id s \<noteq> n) m"

text \<open>
  The revocation list. Loading: a missing file is an empty list, and so is one that cannot be read
  (with an error in the log). Revoking marks the certificate in memory before it writes the file.
\<close>

datatype crl_file = Crl_Missing | Crl_Unreadable | Crl_Text string

definition crl_load :: "(string \<Rightarrow> string list option) \<Rightarrow> crl_file \<Rightarrow> string list" where
  "crl_load decode f = (case f of
     Crl_Text s \<Rightarrow> (case decode s of Some v \<Rightarrow> remdups v | None \<Rightarrow> [])
   | _ \<Rightarrow> [])"

definition crl_is_revoked :: "string \<Rightarrow> string list \<Rightarrow> bool" where
  "crl_is_revoked fp m = List.member m fp"

definition crl_revoke :: "bool \<Rightarrow> string \<Rightarrow> string list \<Rightarrow> bool \<times> string list" where
  "crl_revoke write_ok fp m = (write_ok, List.insert fp m)"

section \<open>The state of the server\<close>

text \<open>The events for the webhook.\<close>

datatype notification =
    Node_Online int
  | Node_Offline int string
  | User_Expired int nat
  | User_Quota_Exceeded int nat

record server =
  sv_panel :: panel
  sv_sessions :: sessions
  sv_crl :: "string list"
  sv_events :: "int list"
  sv_notified :: "notification list"
  sv_agent_sessions :: "(int \<times> string) list"
  sv_probe_seq :: nat
  sv_waiters :: "(string \<times> nat) list"
  sv_results :: "probe_result option list"

record service_env =
  se_hash :: "string \<Rightarrow> string"
  se_time_ok :: "int \<Rightarrow> bool"

text \<open>A call: the token in its metadata and the fingerprint of the certificate of the peer.\<close>

record call =
  ca_token :: "string option"
  ca_peer_fp :: "string option"

datatype status = Unauthenticated | Permission_Denied string | Internal_Status

definition sv_db :: "server \<Rightarrow> panel_db" where
  "sv_db s = pn_db (sv_panel s)"

definition with_db :: "(panel_db \<Rightarrow> panel_db) \<Rightarrow> server \<Rightarrow> server" where
  "with_db f s = s\<lparr>sv_panel := (sv_panel s)\<lparr>pn_db := f (sv_db s)\<rparr>\<rparr>"

definition audit_server :: "query_faults \<Rightarrow> int \<Rightarrow> string \<Rightarrow> string option \<Rightarrow> server \<Rightarrow> server" where
  "audit_server io n version err s = s\<lparr>sv_panel := record_plain io None ''agent.register'' (Some ''node'') (Some n)
     (Some (''version='' @ version)) (err = None) err (sv_panel s)\<rparr>"

definition publish_node_event :: "int \<Rightarrow> server \<Rightarrow> server" where
  "publish_node_event n s = s\<lparr>sv_events := sv_events s @ [n]\<rparr>"

text \<open>\<^verbatim>\<open>spawn_send("node.online", ...)\<close>\<close>

definition notify_online :: "int \<Rightarrow> server \<Rightarrow> server" where
  "notify_online n s = s\<lparr>sv_notified := sv_notified s @ [Node_Online n]\<rparr>"

definition prev_status :: "query_faults \<Rightarrow> int \<Rightarrow> server \<Rightarrow> string option" where
  "prev_status io n s = (if io ''prev_status'' then None else map_option nd_status (find_node (sv_db s) n))"

text \<open>Every \<^verbatim>\<open>UPDATE nodes\<close> of the source also sets \<^verbatim>\<open>updated_at\<close> to the time of the database.\<close>

definition change_nodes :: "(node_row \<Rightarrow> bool) \<Rightarrow> (node_row \<Rightarrow> node_row) \<Rightarrow> panel_db \<Rightarrow> panel_db" where
  "change_nodes p f db =
     db\<lparr>db_nodes := map (\<lambda>n. if p n then (f n)\<lparr>nd_updated_at := db_now db\<rparr> else n) (db_nodes db)\<rparr>"

definition live_node :: "int \<Rightarrow> node_row \<Rightarrow> bool" where
  "live_node i n = (nd_id n = i \<and> \<not> nd_deleted n)"

definition verify_session_with_cert :: "int \<Rightarrow> call \<Rightarrow> server \<Rightarrow> status + int" where
  "verify_session_with_cert now c s =
     bindR (ok_or Unauthenticated (ca_token c)) (\<lambda>raw.
     bindR (ok_or Unauthenticated (session_verify raw now (sv_sessions s))) (\<lambda>info.
       case se_issuing_fp info of
         None \<Rightarrow> Inr (se_node_id info)
       | Some expected \<Rightarrow>
           if ca_peer_fp c \<noteq> Some expected then Inl (Permission_Denied ''session cert mismatch'')
           else if crl_is_revoked expected (sv_crl s) then Inl (Permission_Denied ''revoked'')
           else Inr (se_node_id info)))"

section \<open>Registering\<close>

definition SESSION_TTL_HOURS :: int where "SESSION_TTL_HOURS = 24"

record register_request =
  rr_node_id :: int
  rr_agent_token :: string
  rr_version :: string

definition denied :: "query_faults \<Rightarrow> register_request \<Rightarrow> string \<Rightarrow> server \<Rightarrow> (status + 'a) \<times> server" where
  "denied io req err s =
     (Inl (Permission_Denied ''permission denied''), audit_server io (rr_node_id req) (rr_version req) (Some err) s)"

definition accept_node ::
    "service_env \<Rightarrow> query_faults \<Rightarrow> int \<Rightarrow> string \<Rightarrow> string option \<Rightarrow> register_request \<Rightarrow> server \<Rightarrow> (string \<times> int) \<times> server"
  where
  "accept_node ev io now token peer_fp req s =
     (let n = rr_node_id req;
          expires = now + SESSION_TTL_HOURS * 3600;
          s1 = (if io ''insert_session'' then s
                else s\<lparr>sv_agent_sessions := sv_agent_sessions s @ [(n, se_hash ev token)]\<rparr>);
          s2 = s1\<lparr>sv_sessions := session_insert token
                    \<lparr>se_node_id = n, se_expires_at = expires, se_issuing_fp = peer_fp\<rparr> (sv_sessions s1)\<rparr>;
          prev = prev_status io n s2;
          s3 = (if io ''node_online'' then s2
                else with_db (change_nodes (\<lambda>r. nd_id r = n)
                  (\<lambda>r. r\<lparr>nd_status := ''online'', nd_last_seen := Some (db_now (sv_db s2)), nd_agent_version := rr_version req\<rparr>)) s2);
          s4 = (if prev = Some ''offline'' then notify_online n s3 else s3)
      in ((token, expires), audit_server io n (rr_version req) None (publish_node_event n s4)))"

definition register ::
    "service_env \<Rightarrow> query_faults \<Rightarrow> int \<Rightarrow> string \<Rightarrow> string option \<Rightarrow> register_request \<Rightarrow> server
     \<Rightarrow> (status + (string \<times> int)) \<times> server" where
  "register ev io now token peer_fp req s =
     (if io ''token_hash'' then (Inl Internal_Status, s)
      else case find_node (sv_db s) (rr_node_id req) of
        None \<Rightarrow> denied io req ''unknown_node'' s
      | Some row \<Rightarrow>
          if se_hash ev (rr_agent_token req) \<noteq> nd_token_hash row then denied io req ''bad_token'' s
          else (case peer_fp of
                  None \<Rightarrow> map_prod Inr id (accept_node ev io now token peer_fp req s)
                | Some fp \<Rightarrow>
                    if crl_is_revoked fp (sv_crl s) then denied io req ''revoked_cert'' s
                    else if io ''cert_fingerprint'' then (Inl Internal_Status, s)
                    else if nd_cert_fingerprint row \<noteq> None \<and> nd_cert_fingerprint row \<noteq> Some fp
                    then denied io req ''cert_node_mismatch'' s
                    else map_prod Inr id (accept_node ev io now token peer_fp req s)))"

section \<open>Heartbeat and subscription\<close>

record heartbeat_request =
  hr_node_id :: int
  hr_cpu :: rat
  hr_memory :: rat
  hr_load :: rat
  hr_ipv4 :: int
  hr_ipv6 :: int

definition capability :: "int \<Rightarrow> int option \<Rightarrow> int option" where
  "capability c old = (if c = 0 then old else if c = 1 then Some 1 else Some 0)"

definition heartbeat ::
    "query_faults \<Rightarrow> int \<Rightarrow> call \<Rightarrow> heartbeat_request \<Rightarrow> server \<Rightarrow> (status + int) \<times> server" where
  "heartbeat io now c req s = (case verify_session_with_cert now c s of
     Inl e \<Rightarrow> (Inl e, s)
   | Inr n \<Rightarrow>
       if hr_node_id req \<noteq> n then (Inl (Permission_Denied ''session/node mismatch''), s)
       else if io ''heartbeat'' then (Inl Internal_Status, s)
       else (let prev = prev_status io n s;
                 s1 = with_db (change_nodes (live_node n)
                   (\<lambda>r. r\<lparr>nd_cpu_usage := hr_cpu req, nd_memory_usage := hr_memory req, nd_load_average := hr_load req,
                          nd_has_ipv4 := capability (hr_ipv4 req) (nd_has_ipv4 r),
                          nd_has_ipv6 := capability (hr_ipv6 req) (nd_has_ipv6 r),
                          nd_status := ''online'', nd_last_seen := Some (db_now (sv_db s))\<rparr>)) s;
                 s2 = (if prev = Some ''offline'' then notify_online n s1 else s1)
             in (Inr now, publish_node_event n s2)))"

text \<open>The stream of a node: its generation. The replay of the stream is \<open>replay_batch\<close>.\<close>

definition subscribe_commands :: "int \<Rightarrow> call \<Rightarrow> int \<Rightarrow> server \<Rightarrow> (status + nat) \<times> server" where
  "subscribe_commands now c node s = (case verify_session_with_cert now c s of
     Inl e \<Rightarrow> (Inl e, s)
   | Inr n \<Rightarrow>
       if node \<noteq> n then (Inl (Permission_Denied ''session/node mismatch''), s)
       else (case subscribe node (pn_dispatcher (sv_panel s)) of (g, d) \<Rightarrow>
               (Inr g, s\<lparr>sv_panel := (sv_panel s)\<lparr>pn_dispatcher := d\<rparr>\<rparr>)))"

section \<open>Statistics\<close>

record node_bucket =
  nb_at :: int
  nb_cpu :: rat
  nb_memory :: rat
  nb_load :: rat
  nb_rx :: int
  nb_tx :: int

record rule_bucket =
  rb_rule_id :: int
  rb_at :: int
  rb_rx :: int
  rb_tx :: int
  rb_conn :: int
  rb_err :: int

text \<open>
  \<^verbatim>\<open>+\<close> of SQLite on a counter and a number that is not negative: exact when the sum fits 64 bits, else a
  double. A double that such a sum gives is a whole number, from \<open>2 ^ 63\<close> on it stays one in the column
  (\<^verbatim>\<open>INTEGER\<close> affinity converts it only when it fits), so a cell is an integer here in both cases.
\<close>

definition in_i64 :: "int \<Rightarrow> bool" where
  "in_i64 v = (- (2 ^ 63) \<le> v \<and> v < 2 ^ 63)"

function double_unit :: "nat \<Rightarrow> nat" where
  "double_unit m = (if m < 2 ^ 53 then 1 else 2 * double_unit (m div 2))"
  by pat_completeness auto

termination double_unit
  by (relation "measure id") auto

declare double_unit.simps [simp del]

text \<open>The nearest double, the even one of two: 53 bits.\<close>

definition as_double :: "int \<Rightarrow> int" where
  "as_double v =
     (let u = int (double_unit (nat \<bar>v\<bar>)); q = v div u; r = v mod u in
      (if u < 2 * r \<or> (2 * r = u \<and> odd q) then q + 1 else q) * u)"

definition sql_add :: "int \<Rightarrow> int \<Rightarrow> int" where
  "sql_add a b = (if in_i64 (a + b) then a + b else as_double (as_double a + as_double b))"

text \<open>\<^verbatim>\<open>ON CONFLICT ... DO UPDATE\<close>: the row with the key changes, or a new one is added.\<close>

definition upsert :: "('a \<Rightarrow> bool) \<Rightarrow> ('a \<Rightarrow> 'a) \<Rightarrow> 'a \<Rightarrow> 'a list \<Rightarrow> 'a list" where
  "upsert key f new rows = (if list_ex key rows then map (\<lambda>r. if key r then f r else r) rows else rows @ [new])"

text \<open>
  One bucket of a node, in a transaction: any failure leaves the tables as they were. Whether a
  bucket was counted is the first result.
\<close>

definition put_node_bucket :: "service_env \<Rightarrow> query_faults \<Rightarrow> int \<Rightarrow> node_bucket \<Rightarrow> panel_db \<Rightarrow> bool \<times> panel_db" where
  "put_node_bucket ev io n b db =
     (if nb_at b \<le> 0 \<or> nb_rx b < 0 \<or> nb_tx b < 0 \<or> \<not> se_time_ok ev (nb_at b) then (False, db)
      else if io ''begin'' \<or> io ''node_stats'' \<or> io ''node_totals'' \<or> io ''commit'' then (False, db)
      else (True, change_nodes (live_node n)
              (\<lambda>r. r\<lparr>nd_cpu_usage := nb_cpu b, nd_memory_usage := nb_memory b, nd_load_average := nb_load b,
                     nd_rx_total := sql_add (nd_rx_total r) (nb_rx b), nd_tx_total := sql_add (nd_tx_total r) (nb_tx b),
                     nd_status := ''online'', nd_last_seen := Some (db_now db)\<rparr>)
              (db\<lparr>db_node_stats := upsert (\<lambda>x. ns_node_id x = n \<and> ns_bucket_at x = nb_at b)
                    (\<lambda>x. x\<lparr>ns_cpu_usage := nb_cpu b, ns_memory_usage := nb_memory b, ns_load_average := nb_load b,
                           ns_rx := sql_add (ns_rx x) (nb_rx b), ns_tx := sql_add (ns_tx x) (nb_tx b)\<rparr>)
                    \<lparr>ns_node_id = n, ns_bucket_at = nb_at b, ns_cpu_usage = nb_cpu b, ns_memory_usage = nb_memory b,
                     ns_load_average = nb_load b, ns_rx = nb_rx b, ns_tx = nb_tx b\<rparr> (db_node_stats db)\<rparr>)))"

text \<open>
  One bucket of a rule: the counters of the rule grow when it is a live rule of the node of the
  session, and only then the series gets the bucket.
\<close>

definition put_rule_bucket :: "service_env \<Rightarrow> query_faults \<Rightarrow> int \<Rightarrow> rule_bucket \<Rightarrow> panel_db \<Rightarrow> bool \<times> panel_db" where
  "put_rule_bucket ev io n b db =
     (let owned = (\<lambda>r. live_id (rb_rule_id b) r \<and> dr_node_id r = n) in
      if rb_at b \<le> 0 \<or> rb_rx b < 0 \<or> rb_tx b < 0 \<or> rb_conn b < 0 \<or> rb_err b < 0 \<or> \<not> se_time_ok ev (rb_at b)
      then (False, db)
      else if io ''begin'' \<or> io ''accumulate'' \<or> count_rules owned db = 0 \<or> io ''rule_stats'' \<or> io ''commit'' then (False, db)
      else (True,
        (change_rules owned (\<lambda>r. r\<lparr>dr_rx := sql_add (dr_rx r) (rb_rx b), dr_tx := sql_add (dr_tx r) (rb_tx b),
             dr_conn := sql_add (dr_conn r) (rb_conn b)\<rparr>) db)
        \<lparr>db_rule_stats := upsert (\<lambda>x. rs_rule_id x = rb_rule_id b \<and> rs_bucket_at x = rb_at b)
           (\<lambda>x. x\<lparr>rs_rx := sql_add (rs_rx x) (rb_rx b), rs_tx := sql_add (rs_tx x) (rb_tx b),
                  rs_conn := sql_add (rs_conn x) (rb_conn b), rs_err := sql_add (rs_err x) (rb_err b)\<rparr>)
           \<lparr>rs_rule_id = rb_rule_id b, rs_bucket_at = rb_at b, rs_rx = rb_rx b, rs_tx = rb_tx b, rs_conn = rb_conn b,
            rs_err = rb_err b\<rparr> (db_rule_stats db)\<rparr>))"

fun put_buckets :: "('b \<Rightarrow> panel_db \<Rightarrow> bool \<times> panel_db) \<Rightarrow> 'b list \<Rightarrow> nat \<times> panel_db \<Rightarrow> nat \<times> panel_db" where
  "put_buckets f [] (k, db) = (k, db)"
| "put_buckets f (b # rest) (k, db) = (case f b db of (ok, db1) \<Rightarrow> put_buckets f rest ((if ok then k + 1 else k), db1))"

text \<open>
  The loop over the batches of a stream: a batch of another node ends the call, and so does an
  error of the stream (\<open>None\<close>).
\<close>

fun put_batches ::
    "(int \<Rightarrow> 'b \<Rightarrow> panel_db \<Rightarrow> bool \<times> panel_db) \<Rightarrow> int \<Rightarrow> (int \<times> 'b list) option list \<Rightarrow> nat \<times> panel_db
     \<Rightarrow> status option \<times> nat \<times> panel_db" where
  "put_batches f n [] acc = (None, acc)"
| "put_batches f n (None # rest) acc = (Some Internal_Status, acc)"
| "put_batches f n (Some (m, buckets) # rest) acc =
     (if m \<noteq> n then (Some (Permission_Denied ''session/node mismatch''), acc)
      else put_batches f n rest (put_buckets (f n) buckets acc))"

definition report_node_stats ::
    "service_env \<Rightarrow> query_faults \<Rightarrow> int \<Rightarrow> call \<Rightarrow> (int \<times> node_bucket list) option list \<Rightarrow> server \<Rightarrow> (status + unit) \<times> server" where
  "report_node_stats ev io now c batches s = (case verify_session_with_cert now c s of
     Inl e \<Rightarrow> (Inl e, s)
   | Inr n \<Rightarrow>
       (let prev = prev_status io n s in
        case put_batches (put_node_bucket ev io) n batches (0, sv_db s) of
          (Some e, _, db) \<Rightarrow> (Inl e, with_db (\<lambda>_. db) s)
        | (None, k, db) \<Rightarrow>
            (let s1 = with_db (\<lambda>_. db) s;
                 s2 = (if 0 < k \<and> prev = Some ''offline'' then notify_online n s1 else s1)
             in (Inr (), publish_node_event n s2))))"

definition report_rule_stats ::
    "service_env \<Rightarrow> query_faults \<Rightarrow> int \<Rightarrow> call \<Rightarrow> (int \<times> rule_bucket list) option list \<Rightarrow> server \<Rightarrow> (status + unit) \<times> server" where
  "report_rule_stats ev io now c batches s = (case verify_session_with_cert now c s of
     Inl e \<Rightarrow> (Inl e, s)
   | Inr n \<Rightarrow>
       (case put_batches (put_rule_bucket ev io) n batches (0, sv_db s) of
          (Some e, _, db) \<Rightarrow> (Inl e, with_db (\<lambda>_. db) s)
        | (None, _, db) \<Rightarrow> (Inr (), with_db (\<lambda>_. db) s)))"

section \<open>Waiting diagnoses\<close>

definition MAX_PROBE_WAITERS :: nat where "MAX_PROBE_WAITERS = 64"

text \<open>A waiter is the place of its result; it takes at most one.\<close>

definition register_probe :: "server \<Rightarrow> (api_error + (string \<times> nat)) \<times> server" where
  "register_probe s =
     (let i = CHR ''p'' # dec (sv_probe_seq s); s1 = s\<lparr>sv_probe_seq := sv_probe_seq s + 1\<rparr>; k = length (sv_results s) in
      if MAX_PROBE_WAITERS \<le> length (sv_waiters s) then (Inl (Too_Many_Requests ''diagnosis busy''), s1)
      else (Inr (i, k), s1\<lparr>sv_waiters := hm_insert i k (sv_waiters s), sv_results := sv_results s @ [None]\<rparr>))"

definition resolve_probe :: "probe_result \<Rightarrow> server \<Rightarrow> server" where
  "resolve_probe r s = (case hm_get (sv_waiters s) (pr_probe_id r) of
     None \<Rightarrow> s
   | Some k \<Rightarrow> s\<lparr>sv_waiters := hm_remove (pr_probe_id r) (sv_waiters s), sv_results := (sv_results s)[k := Some r]\<rparr>)"

definition cancel_probe :: "string \<Rightarrow> server \<Rightarrow> server" where
  "cancel_probe i s = s\<lparr>sv_waiters := hm_remove i (sv_waiters s)\<rparr>"

definition report_probe_result :: "int \<Rightarrow> call \<Rightarrow> probe_result \<Rightarrow> server \<Rightarrow> (status + unit) \<times> server" where
  "report_probe_result now c r s = (case verify_session_with_cert now c s of
     Inl e \<Rightarrow> (Inl e, s)
   | Inr _ \<Rightarrow> (Inr (), resolve_probe r s))"

section \<open>Ending sessions\<close>

definition soft_delete_node :: "int \<Rightarrow> panel_db \<Rightarrow> nat \<times> panel_db" where
  "soft_delete_node i db =
     (length (filter (live_node i) (db_nodes db)),
      change_nodes (live_node i) (\<lambda>r. r\<lparr>nd_deleted := True\<rparr>) db)"

definition node_in_active_tunnel :: "panel_db \<Rightarrow> int \<Rightarrow> bool" where
  "node_in_active_tunnel db n = list_ex (\<lambda>h. hp_node_id h = n
     \<and> list_ex (\<lambda>t. tu_id t = hp_tunnel_id h \<and> \<not> tu_deleted t) (db_tunnels db)) (db_hops db)"

definition set_cert_meta :: "int \<Rightarrow> string \<Rightarrow> string \<Rightarrow> panel_db \<Rightarrow> panel_db" where
  "set_cert_meta i serial fp =
     change_nodes (live_node i) (\<lambda>r. r\<lparr>nd_cert_serial := Some serial, nd_cert_fingerprint := Some fp\<rparr>)"

definition audit_node :: "query_faults \<Rightarrow> claims \<Rightarrow> string \<Rightarrow> string \<Rightarrow> int \<Rightarrow> server \<Rightarrow> server" where
  "audit_node io auth ip action i s = s\<lparr>sv_panel := record_with_ip io (Some (cl_sub auth)) (as_option ip) action
     (Some ''node'') (Some i) None True None (sv_panel s)\<rparr>"

definition delete_node :: "query_faults \<Rightarrow> claims \<Rightarrow> string \<Rightarrow> int \<Rightarrow> server \<Rightarrow> (api_error + unit) \<times> server" where
  "delete_node io auth ip i s = (case
       bindR (require_admin auth) (\<lambda>_.
       bindR (read_db io ''node_rules'' (filter (\<lambda>r. dr_node_id r = i \<and> \<not> dr_deleted r) (db_rules (sv_db s)))) (\<lambda>rules.
       bindR (reject_if (rules \<noteq> []) (Bad_Request ''node has rules'')) (\<lambda>_.
       bindR (read_db io ''node_tunnels'' (node_in_active_tunnel (sv_db s) i)) (\<lambda>used.
       bindR (reject_if used (Bad_Request ''node in tunnel'')) (\<lambda>_.
         read_db io ''delete_node'' (soft_delete_node i (sv_db s)))))))
     of Inl e \<Rightarrow> (Inl e, s)
      | Inr (rows, db) \<Rightarrow>
          if rows = 0 then (Inl Not_Found, s)
          else (Inr (), audit_node io auth ip ''node.delete'' i
                  ((with_db (\<lambda>_. db) s)\<lparr>sv_sessions := revoke_node i (sv_sessions s)\<rparr>)))"

text \<open>
  The new certificate is \<open>issued\<close>, its serial number and fingerprint, \<open>None\<close> when issuing fails. The old one is marked first; the
  sessions end last.
\<close>

definition revoke_credentials ::
    "query_faults \<Rightarrow> bool \<Rightarrow> (string \<times> string) option \<Rightarrow> claims \<Rightarrow> string \<Rightarrow> int \<Rightarrow> server \<Rightarrow> (api_error + unit) \<times> server" where
  "revoke_credentials io write_ok issued auth ip i s = (case
       bindR (require_admin auth) (\<lambda>_.
       bindR (read_db io ''find_node'' (find_node (sv_db s) i)) (\<lambda>row.
       bindR (ok_or Not_Found row) (\<lambda>node.
         read_db io ''cert_fingerprint'' (nd_cert_fingerprint node))))
     of Inl e \<Rightarrow> (Inl e, s)
      | Inr old \<Rightarrow>
          (case (case old of None \<Rightarrow> (True, sv_crl s) | Some fp \<Rightarrow> crl_revoke write_ok fp (sv_crl s)) of (ok, m) \<Rightarrow>
            (let s1 = s\<lparr>sv_crl := m\<rparr> in
             if \<not> ok then (Inl Internal, s1)
             else (case issued of
                     None \<Rightarrow> (Inl Internal, s1)
                   | Some (serial, fp) \<Rightarrow>
                       if io ''set_cert_meta'' then (Inl (Database Sql_Failed), s1)
                       else (Inr (), audit_node io auth ip ''node.credentials_revoked'' i
                               ((with_db (set_cert_meta i serial fp) s1)\<lparr>sv_sessions := revoke_node i (sv_sessions s1)\<rparr>))))))"

end
