(* ===== verification/Control_Props.thy ===== *)
theory Control_Props
  imports Control_Service Rules_Inv
begin

text \<open>
  What the calls of the agents promise: who gets a session and what a session proves, over every
  run of calls, that the statistics of rules balance and touch no other node's rules, and the
  bound on waiting diagnoses.
\<close>

section \<open>Runs\<close>

text \<open>A call of an agent or of an administrator, with the time and the refused statements.\<close>

datatype server_event =
    Register query_faults int string "string option" register_request
  | Heartbeat query_faults int call heartbeat_request
  | Subscribe_Commands int call int
  | Report_Node_Stats query_faults int call "(int \<times> node_bucket list) option list"
  | Report_Rule_Stats query_faults int call "(int \<times> rule_bucket list) option list"
  | Report_Probe int call probe_result
  | Register_Probe
  | Cancel_Probe string
  | Delete_Node query_faults claims string int
  | Revoke_Credentials query_faults bool "(string \<times> string) option" claims string int

fun server_step :: "service_env \<Rightarrow> server \<Rightarrow> server_event \<Rightarrow> server" where
  "server_step ev s (Register io now token fp req) = snd (register ev io now token fp req s)"
| "server_step ev s (Heartbeat io now c req) = snd (heartbeat io now c req s)"
| "server_step ev s (Subscribe_Commands now c n) = snd (subscribe_commands now c n s)"
| "server_step ev s (Report_Node_Stats io now c batches) = snd (report_node_stats ev io now c batches s)"
| "server_step ev s (Report_Rule_Stats io now c batches) = snd (report_rule_stats ev io now c batches s)"
| "server_step ev s (Report_Probe now c r) = snd (report_probe_result now c r s)"
| "server_step ev s Register_Probe = snd (register_probe s)"
| "server_step ev s (Cancel_Probe i) = cancel_probe i s"
| "server_step ev s (Delete_Node io auth ip i) = snd (delete_node io auth ip i s)"
| "server_step ev s (Revoke_Credentials io ok fp auth ip i) = snd (revoke_credentials io ok fp auth ip i s)"

lemma server_frame [frame_simps, simp]:
  "sv_sessions (with_db f s) = sv_sessions s" "sv_sessions (audit_server io n v e s) = sv_sessions s"
  "sv_sessions (publish_node_event n s) = sv_sessions s" "sv_sessions (notify_online n s) = sv_sessions s"
  "sv_sessions (audit_node io auth ip a i s) = sv_sessions s"
  "sv_crl (with_db f s) = sv_crl s" "sv_crl (audit_server io n v e s) = sv_crl s"
  "sv_crl (publish_node_event n s) = sv_crl s" "sv_crl (notify_online n s) = sv_crl s"
  "sv_crl (audit_node io auth ip a i s) = sv_crl s"
  "sv_db (with_db f s) = f (sv_db s)"
  "sv_db (publish_node_event n s) = sv_db s" "sv_db (notify_online n s) = sv_db s"
  "db_nodes (sv_db (audit_server io n v e s)) = db_nodes (sv_db s)"
  "db_nodes (sv_db (audit_node io auth ip a i s)) = db_nodes (sv_db s)"
  "sv_waiters (with_db f s) = sv_waiters s" "sv_waiters (audit_server io n v e s) = sv_waiters s"
  "sv_waiters (publish_node_event n s) = sv_waiters s" "sv_waiters (notify_online n s) = sv_waiters s"
  "sv_waiters (audit_node io auth ip a i s) = sv_waiters s"
  by (simp_all add: with_db_def audit_server_def publish_node_event_def notify_online_def audit_node_def sv_db_def
      record_plain_def)

section \<open>Sessions\<close>

text \<open>Where the sessions change: a successful registration adds one, two handlers drop a node's.\<close>

lemma accept_node_sessions:
  "accept_node ev io now token fp req s = (r, s') \<Longrightarrow>
   r = (token, now + SESSION_TTL_HOURS * 3600)
   \<and> sv_sessions s' = session_insert token
        \<lparr>se_node_id = rr_node_id req, se_expires_at = now + SESSION_TTL_HOURS * 3600, se_issuing_fp = fp\<rparr> (sv_sessions s)
   \<and> sv_crl s' = sv_crl s"
  by (auto simp: accept_node_def Let_def split: if_splits)

lemma register_cases:
  assumes "register ev io now token fp req s = (res, s')"
  obtains (refused) e where "res = Inl e" "sv_sessions s' = sv_sessions s" "sv_crl s' = sv_crl s"
      "e = Internal_Status \<or> e = Permission_Denied ''permission denied''"
  | (accepted) row where "res = Inr (token, now + SESSION_TTL_HOURS * 3600)" "find_node (sv_db s) (rr_node_id req) = Some row"
      "se_hash ev (rr_agent_token req) = nd_token_hash row"
      "\<forall>f. fp = Some f \<longrightarrow> f \<notin> set (sv_crl s) \<and> nd_cert_fingerprint row \<in> {None, Some f}"
      "sv_sessions s' = session_insert token
        \<lparr>se_node_id = rr_node_id req, se_expires_at = now + SESSION_TTL_HOURS * 3600, se_issuing_fp = fp\<rparr> (sv_sessions s)"
proof -
  have "(\<exists>e. res = Inl e \<and> sv_sessions s' = sv_sessions s \<and> sv_crl s' = sv_crl s
        \<and> (e = Internal_Status \<or> e = Permission_Denied ''permission denied''))
    \<or> (\<exists>row. find_node (sv_db s) (rr_node_id req) = Some row \<and> se_hash ev (rr_agent_token req) = nd_token_hash row
        \<and> (\<forall>f. fp = Some f \<longrightarrow> f \<notin> set (sv_crl s) \<and> nd_cert_fingerprint row \<in> {None, Some f})
        \<and> map_prod Inr id (accept_node ev io now token fp req s) = (res, s'))"
    using assms
    by (auto simp: register_def denied_def crl_is_revoked_def split: if_splits option.splits)
  then show thesis
  proof
    assume "\<exists>e. res = Inl e \<and> sv_sessions s' = sv_sessions s \<and> sv_crl s' = sv_crl s
        \<and> (e = Internal_Status \<or> e = Permission_Denied ''permission denied'')"
    then show thesis using refused by blast
  next
    assume "\<exists>row. find_node (sv_db s) (rr_node_id req) = Some row \<and> se_hash ev (rr_agent_token req) = nd_token_hash row
        \<and> (\<forall>f. fp = Some f \<longrightarrow> f \<notin> set (sv_crl s) \<and> nd_cert_fingerprint row \<in> {None, Some f})
        \<and> map_prod Inr id (accept_node ev io now token fp req s) = (res, s')"
    then obtain row where row: "find_node (sv_db s) (rr_node_id req) = Some row"
      "se_hash ev (rr_agent_token req) = nd_token_hash row"
      "\<forall>f. fp = Some f \<longrightarrow> f \<notin> set (sv_crl s) \<and> nd_cert_fingerprint row \<in> {None, Some f}"
      "map_prod Inr id (accept_node ev io now token fp req s) = (res, s')"
      by blast
    obtain r s1 where a: "accept_node ev io now token fp req s = (r, s1)" by fastforce
    with row(4) have "res = Inr r" "s' = s1" by simp_all
    with accept_node_sessions [OF a] row(1-3) show thesis
      by (intro accepted) auto
  qed
qed

lemma sessions_kept:
  "sv_sessions (snd (heartbeat io now c req s)) = sv_sessions s"
  "sv_sessions (snd (subscribe_commands now c n s)) = sv_sessions s"
  "sv_sessions (snd (report_node_stats ev io now c nbs s)) = sv_sessions s"
  "sv_sessions (snd (report_rule_stats ev io now c rbs s)) = sv_sessions s"
  "sv_sessions (snd (report_probe_result now c r s)) = sv_sessions s"
  "sv_sessions (snd (register_probe s)) = sv_sessions s"
  "sv_sessions (cancel_probe i s) = sv_sessions s"
  by (simp_all add: heartbeat_def subscribe_commands_def report_node_stats_def report_rule_stats_def
      report_probe_result_def resolve_probe_def register_probe_def cancel_probe_def Let_def
      split: sum.split option.split prod.split)

lemma hm_get_session_insert [simp]:
  "hm_get (session_insert token i m) t = (if t = token then Some i else hm_get m t)"
  by (simp add: session_insert_def)

text \<open>A handler that ends sessions only takes entries away.\<close>

lemma revoke_node_entries:
  "hm_wf m \<Longrightarrow> hm_get (revoke_node n m) t = Some i \<longleftrightarrow> hm_get m t = Some i \<and> se_node_id i \<noteq> n"
  by (auto simp: revoke_node_def hm_get_retain simp del: map_of_eq_Some_iff split: option.splits if_splits)

lemma ending_sessions:
  "sv_sessions (snd (delete_node io auth ip i s)) \<in> {sv_sessions s, revoke_node i (sv_sessions s)}"
  "sv_sessions (snd (revoke_credentials io ok fp auth ip i s)) \<in> {sv_sessions s, revoke_node i (sv_sessions s)}"
  by (auto simp: delete_node_def revoke_credentials_def Let_def split: sum.splits prod.splits option.splits if_splits)

text \<open>A call that ends the sessions of a node.\<close>

fun ends :: "server_event \<Rightarrow> server \<Rightarrow> int \<Rightarrow> bool" where
  "ends (Delete_Node io auth ip i) s n = (i = n \<and> fst (delete_node io auth ip i s) = Inr ())"
| "ends (Revoke_Credentials io ok fp auth ip i) s n = (i = n \<and> fst (revoke_credentials io ok fp auth ip i s) = Inr ())"
| "ends _ s n = False"

lemma ended:
  "fst (delete_node io auth ip i s) = Inr () \<Longrightarrow> sv_sessions (snd (delete_node io auth ip i s)) = revoke_node i (sv_sessions s)"
  "fst (revoke_credentials io ok fp auth ip i s) = Inr () \<Longrightarrow>
   sv_sessions (snd (revoke_credentials io ok fp auth ip i s)) = revoke_node i (sv_sessions s)"
  by (auto simp: delete_node_def revoke_credentials_def Let_def split: sum.splits prod.splits option.splits if_splits)

definition opened :: "service_env \<Rightarrow> server_event \<Rightarrow> server \<Rightarrow> string \<Rightarrow> session_info \<Rightarrow> bool" where
  "opened ev e s token info = (\<exists>io t fp req. e = Register io t token fp req
     \<and> fst (register ev io t token fp req s) = Inr (token, t + SESSION_TTL_HOURS * 3600)
     \<and> info = \<lparr>se_node_id = rr_node_id req, se_expires_at = t + SESSION_TTL_HOURS * 3600, se_issuing_fp = fp\<rparr>)"

lemma hm_wf_revoke: "hm_wf m \<Longrightarrow> hm_wf (revoke_node n m)"
  by (simp add: revoke_node_def)

lemma step_entry:
  assumes "hm_wf (sv_sessions s)"
  shows "hm_wf (sv_sessions (server_step ev s e))"
    "hm_get (sv_sessions (server_step ev s e)) token = Some info \<Longrightarrow>
     opened ev e s token info \<or> hm_get (sv_sessions s) token = Some info \<and> \<not> ends e s (se_node_id info)"
proof -
  have "hm_wf (sv_sessions (server_step ev s e)) \<and>
    (hm_get (sv_sessions (server_step ev s e)) token = Some info \<longrightarrow>
     opened ev e s token info \<or> hm_get (sv_sessions s) token = Some info \<and> \<not> ends e s (se_node_id info))"
  proof (cases e)
    case (Register io now tok fp req)
    obtain res s' where r: "register ev io now tok fp req s = (res, s')" by fastforce
    from r show ?thesis
    proof (cases rule: register_cases)
      case refused
      with r Register assms show ?thesis by simp
    next
      case (accepted row)
      with r Register assms show ?thesis
        by (auto simp: opened_def session_insert_def simp del: map_of_eq_Some_iff split: if_splits)
    qed
  next
    case (Delete_Node io auth ip i)
    with assms ending_sessions(1) [of io auth ip i s] ended(1) [of io auth ip i s]
      revoke_node_entries [OF assms, of i token info] show ?thesis
      by (auto simp: hm_wf_revoke simp del: map_of_eq_Some_iff)
  next
    case (Revoke_Credentials io ok fp auth ip i)
    with assms ending_sessions(2) [of io ok fp auth ip i s] ended(2) [of io ok fp auth ip i s]
      revoke_node_entries [OF assms, of i token info] show ?thesis
      by (auto simp: hm_wf_revoke simp del: map_of_eq_Some_iff)
  qed (use assms sessions_kept in simp_all)
  then show "hm_wf (sv_sessions (server_step ev s e))"
    "hm_get (sv_sessions (server_step ev s e)) token = Some info \<Longrightarrow>
     opened ev e s token info \<or> hm_get (sv_sessions s) token = Some info \<and> \<not> ends e s (se_node_id info)"
    by blast+
qed

text \<open>Where a session of a run comes from.\<close>

lemma session_origin:
  assumes "sv_sessions s0 = []"
  shows "hm_wf (sv_sessions (foldl (server_step ev) s0 es))"
    "hm_get (sv_sessions (foldl (server_step ev) s0 es)) token = Some info \<Longrightarrow>
     \<exists>k < length es. opened ev (es ! k) (foldl (server_step ev) s0 (take k es)) token info
       \<and> (\<forall>j. k < j \<longrightarrow> j < length es \<longrightarrow> \<not> ends (es ! j) (foldl (server_step ev) s0 (take j es)) (se_node_id info))"
proof (induction es rule: rev_induct)
  case Nil
  show "hm_wf (sv_sessions (foldl (server_step ev) s0 []))"
    using assms by simp
  show "hm_get (sv_sessions (foldl (server_step ev) s0 [])) token = Some info \<Longrightarrow>
     \<exists>k < length []. opened ev ([] ! k) (foldl (server_step ev) s0 (take k [])) token info
       \<and> (\<forall>j. k < j \<longrightarrow> j < length [] \<longrightarrow> \<not> ends ([] ! j) (foldl (server_step ev) s0 (take j [])) (se_node_id info))"
    using assms by simp
next
  case (snoc e es)
  let ?s = "foldl (server_step ev) s0 es"
  note step = step_entry [OF snoc.IH(1), of ev e]
  show "hm_wf (sv_sessions (foldl (server_step ev) s0 (es @ [e])))"
    using step(1) by simp
  assume "hm_get (sv_sessions (foldl (server_step ev) s0 (es @ [e]))) token = Some info"
  then consider (new) "opened ev e ?s token info"
    | (old) "hm_get (sv_sessions ?s) token = Some info" "\<not> ends e ?s (se_node_id info)"
    using step(2) [of token info] by auto
  then show "\<exists>k < length (es @ [e]). opened ev ((es @ [e]) ! k) (foldl (server_step ev) s0 (take k (es @ [e]))) token info
       \<and> (\<forall>j. k < j \<longrightarrow> j < length (es @ [e]) \<longrightarrow>
            \<not> ends ((es @ [e]) ! j) (foldl (server_step ev) s0 (take j (es @ [e]))) (se_node_id info))"
  proof cases
    case new
    then show ?thesis by (intro exI [of _ "length es"]) simp
  next
    case old
    from snoc.IH(2) [OF old(1)] obtain k where k: "k < length es"
      "opened ev (es ! k) (foldl (server_step ev) s0 (take k es)) token info"
      "\<forall>j. k < j \<longrightarrow> j < length es \<longrightarrow> \<not> ends (es ! j) (foldl (server_step ev) s0 (take j es)) (se_node_id info)"
      by blast
    have "\<not> ends ((es @ [e]) ! j) (foldl (server_step ev) s0 (take j (es @ [e]))) (se_node_id info)"
      if "k < j" "j < length (es @ [e])" for j
      using that k(3) old(2) by (cases "j < length es") (auto simp: nth_append less_Suc_eq)
    with k(1,2) show ?thesis
      by (intro exI [of _ k]) (auto simp: nth_append)
  qed
qed

section \<open>Properties of sessions\<close>

text \<open>C11. A session proves who the caller is: in every run that starts without sessions, an accepted call
  carries a token that some registration of the run gave out, less than 24 hours ago, for that
  very node; the node existed then and the agent token hashed to the stored one; no later call of
  the run deleted the node or revoked its credentials; and when the registration came with a
  certificate, which was then neither revoked nor bound to another node, the call comes with the
  same one and it is still not revoked.\<close>

theorem session_proves_identity:
  assumes "sv_sessions s0 = []" "s = foldl (server_step ev) s0 es" "verify_session_with_cert now c s = Inr n"
  shows "\<exists>k io t token fp req row. k < length es \<and> es ! k = Register io t token fp req \<and> ca_token c = Some token
    \<and> rr_node_id req = n \<and> now < t + 24 * 3600
    \<and> find_node (sv_db (foldl (server_step ev) s0 (take k es))) n = Some row
    \<and> se_hash ev (rr_agent_token req) = nd_token_hash row
    \<and> (\<forall>j. k < j \<longrightarrow> j < length es \<longrightarrow> \<not> ends (es ! j) (foldl (server_step ev) s0 (take j es)) n)
    \<and> (\<forall>f. fp = Some f \<longrightarrow> ca_peer_fp c = Some f \<and> f \<notin> set (sv_crl s) \<and> nd_cert_fingerprint row \<in> {None, Some f})"
proof -
  obtain token info where tok: "ca_token c = Some token" "hm_get (sv_sessions s) token = Some info" "now < se_expires_at info"
    and n: "se_node_id info = n"
    and cert: "\<forall>f. se_issuing_fp info = Some f \<longrightarrow> ca_peer_fp c = Some f \<and> f \<notin> set (sv_crl s)"
    using assms(3)
    by (auto simp: verify_session_with_cert_def session_verify_def bindR_eq_Inr crl_is_revoked_def
        simp del: map_of_eq_Some_iff split: option.splits if_splits)
  obtain k where k: "k < length es" "opened ev (es ! k) (foldl (server_step ev) s0 (take k es)) token info"
    and since: "\<forall>j. k < j \<longrightarrow> j < length es \<longrightarrow> \<not> ends (es ! j) (foldl (server_step ev) s0 (take j es)) n"
    using session_origin(2) [OF assms(1), of ev es token info] tok(2) n unfolding assms(2) by blast
  then obtain io t fp req where reg: "es ! k = Register io t token fp req"
      "fst (register ev io t token fp req (foldl (server_step ev) s0 (take k es))) = Inr (token, t + SESSION_TTL_HOURS * 3600)"
    and info: "info = \<lparr>se_node_id = rr_node_id req, se_expires_at = t + SESSION_TTL_HOURS * 3600, se_issuing_fp = fp\<rparr>"
    by (auto simp: opened_def)
  obtain s1 where "register ev io t token fp req (foldl (server_step ev) s0 (take k es)) = (Inr (token, t + SESSION_TTL_HOURS * 3600), s1)"
    using reg(2) by (metis prod.collapse)
  then show ?thesis
  proof (cases rule: register_cases)
    case (accepted row)
    with k(1) reg(1) tok n cert since info show ?thesis
      by (intro exI [of _ k] exI [of _ io] exI [of _ t] exI [of _ token] exI [of _ fp] exI [of _ req] exI [of _ row])
        (auto simp: SESSION_TTL_HOURS_def)
  qed auto
qed

lemma put_rule_bucket_frame: "db_nodes (snd (put_rule_bucket ev io n b db)) = db_nodes db"
  by (simp add: put_rule_bucket_def Let_def)

section \<open>Statistics\<close>

text \<open>The primary key of the series, and the balance: a counter of a rule is the sum of its series, none of which is negative.\<close>

definition series_key :: "rule_stat_row \<Rightarrow> int \<times> int" where
  "series_key x = (rs_rule_id x, rs_bucket_at x)"

definition series_total :: "(rule_stat_row \<Rightarrow> int) \<Rightarrow> panel_db \<Rightarrow> int \<Rightarrow> int" where
  "series_total f db i = sum_list (map f (filter (\<lambda>x. rs_rule_id x = i) (db_rule_stats db)))"

definition stats_balanced :: "panel_db \<Rightarrow> bool" where
  "stats_balanced db = (distinct (map series_key (db_rule_stats db))
     \<and> (\<forall>x \<in> set (db_rule_stats db). 0 \<le> rs_rx x \<and> 0 \<le> rs_tx x \<and> 0 \<le> rs_conn x)
     \<and> (\<forall>r \<in> set (db_rules db). dr_rx r = series_total rs_rx db (dr_id r) \<and> dr_tx r = series_total rs_tx db (dr_id r)
          \<and> dr_conn r = series_total rs_conn db (dr_id r)))"

text \<open>What the buckets of a list report for a rule; a negative number is refused and counts as none.\<close>

definition reported :: "(rule_bucket \<Rightarrow> int) \<Rightarrow> int \<Rightarrow> rule_bucket list \<Rightarrow> int" where
  "reported f i reps = sum_list (map (\<lambda>b. if rb_rule_id b = i then max 0 (f b) else 0) reps)"

definition buckets_of :: "(int \<times> 'b list) option list \<Rightarrow> 'b list" where
  "buckets_of batches = concat (map (\<lambda>x. case x of None \<Rightarrow> [] | Some mb \<Rightarrow> snd mb) batches)"

text \<open>The counters have room for all that is reported: with it they stay below \<open>2 ^ 63\<close>.\<close>

definition counters_fit :: "rule_bucket list \<Rightarrow> panel_db \<Rightarrow> bool" where
  "counters_fit reps db = (\<forall>r \<in> set (db_rules db). dr_rx r + reported rb_rx (dr_id r) reps < 2 ^ 63
     \<and> dr_tx r + reported rb_tx (dr_id r) reps < 2 ^ 63 \<and> dr_conn r + reported rb_conn (dr_id r) reps < 2 ^ 63)"

lemma reported_simps [simp]:
  "reported f i [] = 0"
  "reported f i (b # reps) = (if rb_rule_id b = i then max 0 (f b) else 0) + reported f i reps"
  "reported f i (reps @ cs) = reported f i reps + reported f i cs"
  by (simp_all add: reported_def)

lemma reported_nonneg: "0 \<le> reported f i reps"
  by (induction reps) auto

lemma buckets_of_simps [simp]:
  "buckets_of [] = []" "buckets_of (None # xs) = buckets_of xs" "buckets_of (Some (m, reps) # xs) = reps @ buckets_of xs"
  by (simp_all add: buckets_of_def)

lemma sql_add_exact: "0 \<le> a \<Longrightarrow> 0 \<le> b \<Longrightarrow> a + b < 2 ^ 63 \<Longrightarrow> sql_add a b = a + b"
  by (simp add: sql_add_def in_i64_def)

lemma sum_replace:
  fixes g :: "'a \<Rightarrow> int"
  assumes "distinct (map kf rows)" "\<And>x. x \<in> set rows \<Longrightarrow> kf x = K \<Longrightarrow> g (f x) = g x + d" "\<And>x. P (f x) = P x"
    "\<And>x. kf x = K \<Longrightarrow> P x = b"
  shows "sum_list (map g (filter P (map (\<lambda>x. if kf x = K then f x else x) rows)))
    = sum_list (map g (filter P rows)) + (if b \<and> K \<in> kf ` set rows then d else 0)"
  using assms(1,2)
proof (induction rows)
  case Nil
  then show ?case by simp
next
  case (Cons x rows)
  show ?case
  proof (cases "kf x = K")
    case True
    then have "map (\<lambda>x. if kf x = K then f x else x) rows = rows"
      using Cons.prems by (intro map_idI) (auto simp: image_iff)
    moreover have "K \<notin> kf ` set rows"
      using True Cons.prems by auto
    ultimately show ?thesis
      using True Cons.prems(2) [of x] assms(3,4) [of x] by simp
  next
    case False
    with Cons show ?thesis by auto
  qed
qed

lemma upsert_keys:
  assumes "distinct (map kf rows)" "\<And>x. kf (f x) = kf x" "kf new = K"
  shows "distinct (map kf (upsert (\<lambda>x. kf x = K) f new rows))"
proof -
  have "map kf (map (\<lambda>x. if kf x = K then f x else x) rows) = map kf rows"
    using assms(2) by simp
  with assms show ?thesis
    by (auto simp: upsert_def list_ex_iff simp del: map_map)
qed

lemma upsert_total:
  fixes g :: "'a \<Rightarrow> int"
  assumes "distinct (map kf rows)" "\<And>x. x \<in> set rows \<Longrightarrow> kf x = K \<Longrightarrow> g (f x) = g x + g new" "\<And>x. P (f x) = P x"
    "\<And>x. kf x = K \<Longrightarrow> P x = P new"
  shows "sum_list (map g (filter P (upsert (\<lambda>x. kf x = K) f new rows))) = sum_list (map g (filter P rows)) + (if P new then g new else 0)"
proof (cases "list_ex (\<lambda>x. kf x = K) rows")
  case True
  then have k: "K \<in> kf ` set rows"
    by (auto simp: list_ex_iff)
  have "upsert (\<lambda>x. kf x = K) f new rows = map (\<lambda>x. if kf x = K then f x else x) rows"
    using True by (simp only: upsert_def if_True)
  then have "sum_list (map g (filter P (upsert (\<lambda>x. kf x = K) f new rows)))
      = sum_list (map g (filter P rows)) + (if P new \<and> K \<in> kf ` set rows then g new else 0)"
    using sum_replace [of kf rows K g f "g new" P "P new", OF assms] by (rule ssubst)
  with k show ?thesis by (simp only: simp_thms)
next
  case False
  then show ?thesis by (simp add: upsert_def)
qed

lemma member_below_sum:
  fixes g :: "'a \<Rightarrow> int"
  assumes "x \<in> set xs" "P x" "\<And>y. y \<in> set xs \<Longrightarrow> 0 \<le> g y"
  shows "g x \<le> sum_list (map g (filter P xs))"
proof -
  have pos: "0 \<le> sum_list (map g (filter P ys))" if "set ys \<subseteq> set xs" for ys
    using that assms(3) by (intro sum_list_nonneg) auto
  obtain ys zs where xs: "xs = ys @ x # zs"
    using assms(1) by (auto simp: in_set_conv_decomp)
  have "0 \<le> sum_list (map g (filter P ys))" "0 \<le> sum_list (map g (filter P zs))"
    using xs by (auto intro!: pos)
  with assms(2) xs show ?thesis by simp
qed

text \<open>A cell of the series is at most the counter of its rule.\<close>

lemma series_below:
  assumes "stats_balanced db" "x \<in> set (db_rule_stats db)" "r \<in> set (db_rules db)" "dr_id r = rs_rule_id x"
  shows "rs_rx x \<le> dr_rx r" "rs_tx x \<le> dr_tx r" "rs_conn x \<le> dr_conn r"
  using assms member_below_sum [of x "db_rule_stats db" "\<lambda>y. rs_rule_id y = rs_rule_id x"]
  by (auto simp: stats_balanced_def series_total_def)

lemma counters_nonneg:
  assumes "stats_balanced db" "r \<in> set (db_rules db)"
  shows "0 \<le> dr_rx r" "0 \<le> dr_tx r" "0 \<le> dr_conn r"
  using assms by (auto simp: stats_balanced_def series_total_def intro!: sum_list_nonneg)

text \<open>What a bucket, and so a stream of them, does to a row: another row than one of the node stays, of such a one only the counters change.\<close>

definition recounted :: "int \<Rightarrow> db_rule \<Rightarrow> db_rule \<Rightarrow> bool" where
  "recounted n r r' = ((dr_node_id r \<noteq> n \<or> dr_deleted r \<longrightarrow> r' = r)
     \<and> r' = r\<lparr>dr_rx := dr_rx r', dr_tx := dr_tx r', dr_conn := dr_conn r'\<rparr>)"

definition counted_for :: "int \<Rightarrow> panel_db \<Rightarrow> panel_db \<Rightarrow> bool" where
  "counted_for n db db' = (list_all2 (recounted n) (db_rules db) (db_rules db') \<and> db_next_rule db' = db_next_rule db)"

lemma recountedI: "dr_node_id r = n \<Longrightarrow> \<not> dr_deleted r \<Longrightarrow> recounted n r (r\<lparr>dr_rx := a, dr_tx := b, dr_conn := c\<rparr>)"
  by (simp add: recounted_def)

lemma recounted_refl: "recounted n r r"
  by (simp add: recounted_def)

lemma recounted_same: "recounted n x y \<Longrightarrow> dr_id y = dr_id x \<and> dr_node_id y = dr_node_id x \<and> dr_deleted y = dr_deleted x"
  unfolding recounted_def by (elim conjE) (erule ssubst, simp)

lemma recounted_trans:
  assumes "recounted n x y" "recounted n y z"
  shows "recounted n x z"
proof -
  have y: "y = x\<lparr>dr_rx := dr_rx y, dr_tx := dr_tx y, dr_conn := dr_conn y\<rparr>" and z: "z = y\<lparr>dr_rx := dr_rx z, dr_tx := dr_tx z, dr_conn := dr_conn z\<rparr>"
    using assms by (simp_all add: recounted_def)
  have "z = x\<lparr>dr_rx := dr_rx z, dr_tx := dr_tx z, dr_conn := dr_conn z\<rparr>"
    by (subst z, subst y) simp
  with assms recounted_same [OF assms(1)] show ?thesis
    by (auto simp: recounted_def)
qed

lemma counted_refl: "counted_for n db db"
  by (simp add: counted_for_def list_all2_refl recounted_refl)

lemma counted_trans: "counted_for n a b \<Longrightarrow> counted_for n b c \<Longrightarrow> counted_for n a c"
  unfolding counted_for_def by (auto elim: list_all2_trans [of "recounted n" "recounted n" "recounted n", rotated] recounted_trans)

lemma put_rule_bucket_counted:
  assumes "put_rule_bucket ev io n b db = (ok, db')"
  shows "counted_for n db db'"
proof (cases ok)
  case False
  with assms have "db' = db"
    by (auto simp: put_rule_bucket_def Let_def split: if_splits)
  then show ?thesis by (simp add: counted_refl)
next
  case True
  then have rows: "db_rules db' = map (\<lambda>r. if live_id (rb_rule_id b) r \<and> dr_node_id r = n
       then r\<lparr>dr_rx := sql_add (dr_rx r) (rb_rx b), dr_tx := sql_add (dr_tx r) (rb_tx b), dr_conn := sql_add (dr_conn r) (rb_conn b)\<rparr>
       else r) (db_rules db)"
    and nxt: "db_next_rule db' = db_next_rule db"
    using assms by (auto simp: put_rule_bucket_def Let_def change_rules_def split: if_splits)
  have "list_all2 (recounted n) (db_rules db) (db_rules db')"
    unfolding rows list_all2_map2 by (intro list_all2_refl) (auto intro: recountedI simp: recounted_refl live_id_def)
  with nxt show ?thesis
    by (simp add: counted_for_def)
qed

lemma counted_ids: "counted_for n db db' \<Longrightarrow> map dr_id (db_rules db') = map dr_id (db_rules db)"
  unfolding counted_for_def by (elim conjE) (induction rule: list_all2_induct, auto dest: recounted_same)

lemma counted_wf:
  assumes "counted_for n db db'" "rules_wf db"
  shows "rules_wf db'"
proof -
  have "dr_id r < db_next_rule db" if "r \<in> set (db_rules db')" for r
  proof -
    have "dr_id r \<in> set (map dr_id (db_rules db))"
      using that by (simp flip: counted_ids [OF assms(1)])
    with assms(2) show ?thesis
      by (auto simp: rules_wf_def)
  qed
  with assms counted_ids [OF assms(1)] show ?thesis
    by (simp add: rules_wf_def counted_for_def)
qed

text \<open>With room for them, the buckets are added exactly: the balance stays and no counter goes down.\<close>

definition not_lower :: "db_rule \<Rightarrow> db_rule \<Rightarrow> bool" where
  "not_lower r r' = (dr_rx r \<le> dr_rx r' \<and> dr_tx r \<le> dr_tx r' \<and> dr_conn r \<le> dr_conn r')"

definition risen :: "panel_db \<Rightarrow> panel_db \<Rightarrow> bool" where
  "risen db db' = list_all2 not_lower (db_rules db) (db_rules db')"

definition booked :: "rule_bucket list \<Rightarrow> panel_db \<Rightarrow> panel_db \<Rightarrow> bool" where
  "booked reps db db' = (stats_balanced db' \<and> counters_fit reps db' \<and> risen db db')"

lemma risen_refl: "risen db db"
  by (simp add: risen_def not_lower_def list_all2_refl)

lemma risen_trans: "risen a b \<Longrightarrow> risen b c \<Longrightarrow> risen a c"
  unfolding risen_def by (rule list_all2_trans [of not_lower not_lower not_lower]) (auto simp: not_lower_def)

lemma booked_trans: "risen a b \<Longrightarrow> booked reps b c \<Longrightarrow> booked reps a c"
  using risen_trans by (auto simp: booked_def)

lemma counters_fit_drop: "counters_fit (reps @ cs) db \<Longrightarrow> counters_fit cs db"
  using reported_nonneg [of _ _ reps] unfolding counters_fit_def reported_simps by (smt (verit))

lemma put_rule_bucket_booked:
  assumes "stats_balanced db" "put_rule_bucket ev io n b db = (ok, db')" "rules_wf db" "counters_fit (b # reps) db"
  shows "booked reps db db'"
proof (cases ok)
  case False
  with assms(2) have "db' = db"
    by (auto simp: put_rule_bucket_def Let_def split: if_splits)
  with assms(1) counters_fit_drop [of "[b]" reps db] assms(4) show ?thesis
    by (simp add: booked_def risen_refl)
next
  case True
  let ?owned = "\<lambda>r. live_id (rb_rule_id b) r \<and> dr_node_id r = n"
  let ?acc = "\<lambda>r. r\<lparr>dr_rx := sql_add (dr_rx r) (rb_rx b), dr_tx := sql_add (dr_tx r) (rb_tx b), dr_conn := sql_add (dr_conn r) (rb_conn b)\<rparr>"
  let ?f = "\<lambda>x. x\<lparr>rs_rx := sql_add (rs_rx x) (rb_rx b), rs_tx := sql_add (rs_tx x) (rb_tx b), rs_conn := sql_add (rs_conn x) (rb_conn b),
    rs_err := sql_add (rs_err x) (rb_err b)\<rparr>"
  let ?new = "\<lparr>rs_rule_id = rb_rule_id b, rs_bucket_at = rb_at b, rs_rx = rb_rx b, rs_tx = rb_tx b, rs_conn = rb_conn b, rs_err = rb_err b\<rparr>"
  let ?stats = "upsert (\<lambda>x. series_key x = (rb_rule_id b, rb_at b)) ?f ?new (db_rule_stats db)"
  have db': "db_rules db' = map (\<lambda>r. if ?owned r then ?acc r else r) (db_rules db)" "db_rule_stats db' = ?stats"
    and some: "count_rules ?owned db \<noteq> 0" and pos: "0 \<le> rb_rx b" "0 \<le> rb_tx b" "0 \<le> rb_conn b"
    using assms(2) True by (auto simp: put_rule_bucket_def Let_def change_rules_def series_key_def split: if_splits)
  have keys: "distinct (map series_key (db_rule_stats db))"
    and signs: "\<And>x. x \<in> set (db_rule_stats db) \<Longrightarrow> 0 \<le> rs_rx x \<and> 0 \<le> rs_tx x \<and> 0 \<le> rs_conn x"
    using assms(1) by (simp_all add: stats_balanced_def)
  obtain r0 where r0: "r0 \<in> set (db_rules db)" "?owned r0"
    using some by (auto simp: count_rules_def filter_empty_conv)
  have owned: "?owned r \<longleftrightarrow> dr_id r = rb_rule_id b" if "r \<in> set (db_rules db)" for r
    using that assms(3) r0 by (auto simp: rules_wf_def live_id_def distinct_map inj_on_def)
  have room: "dr_rx r + rb_rx b + reported rb_rx (dr_id r) reps < 2 ^ 63" "dr_tx r + rb_tx b + reported rb_tx (dr_id r) reps < 2 ^ 63"
      "dr_conn r + rb_conn b + reported rb_conn (dr_id r) reps < 2 ^ 63" if "r \<in> set (db_rules db)" "dr_id r = rb_rule_id b" for r
    using assms(4) that pos unfolding counters_fit_def by auto
  note low = reported_nonneg [of rb_rx _ reps] reported_nonneg [of rb_tx _ reps] reported_nonneg [of rb_conn _ reps]
  have acc: "?acc r = r\<lparr>dr_rx := dr_rx r + rb_rx b, dr_tx := dr_tx r + rb_tx b, dr_conn := dr_conn r + rb_conn b\<rparr>"
    if "r \<in> set (db_rules db)" "dr_id r = rb_rule_id b" for r
    using room [OF that] low [of "dr_id r"] pos counters_nonneg [OF assms(1) that(1)] by (simp add: sql_add_exact)
  have cell: "sql_add (rs_rx x) (rb_rx b) = rs_rx x + rb_rx b" "sql_add (rs_tx x) (rb_tx b) = rs_tx x + rb_tx b"
      "sql_add (rs_conn x) (rb_conn b) = rs_conn x + rb_conn b"
    if "x \<in> set (db_rule_stats db)" "series_key x = (rb_rule_id b, rb_at b)" for x
  proof -
    have x: "dr_id r0 = rs_rule_id x" "dr_id r0 = rb_rule_id b"
      using that(2) r0 by (simp_all add: series_key_def live_id_def)
    show "sql_add (rs_rx x) (rb_rx b) = rs_rx x + rb_rx b" "sql_add (rs_tx x) (rb_tx b) = rs_tx x + rb_tx b"
      "sql_add (rs_conn x) (rb_conn b) = rs_conn x + rb_conn b"
      using series_below [OF assms(1) that(1) r0(1) x(1)] room [OF r0(1) x(2)] low [of "dr_id r0"] pos signs [OF that(1)]
      by (simp_all add: sql_add_exact)
  qed
  have total: "series_total rs_rx db' i = series_total rs_rx db i + (if i = rb_rule_id b then rb_rx b else 0)"
      "series_total rs_tx db' i = series_total rs_tx db i + (if i = rb_rule_id b then rb_tx b else 0)"
      "series_total rs_conn db' i = series_total rs_conn db i + (if i = rb_rule_id b then rb_conn b else 0)" for i
    unfolding series_total_def db'(2)
    by (subst upsert_total [OF keys]; auto simp: series_key_def cell)+
  have rows: "r' = (if dr_id r = rb_rule_id b
      then r\<lparr>dr_rx := dr_rx r + rb_rx b, dr_tx := dr_tx r + rb_tx b, dr_conn := dr_conn r + rb_conn b\<rparr> else r)"
    if "r \<in> set (db_rules db)" "r' = (if ?owned r then ?acc r else r)" for r r'
    using that owned [OF that(1)] acc [OF that(1)] by auto
  have "dr_rx r = series_total rs_rx db' (dr_id r) \<and> dr_tx r = series_total rs_tx db' (dr_id r)
      \<and> dr_conn r = series_total rs_conn db' (dr_id r)" if r: "r \<in> set (db_rules db')" for r
  proof -
    obtain r1 where r1: "r1 \<in> set (db_rules db)" "r = (if ?owned r1 then ?acc r1 else r1)"
      using r unfolding db'(1) set_map by blast
    with rows [OF r1] assms(1) total show ?thesis
      by (auto simp: stats_balanced_def)
  qed
  moreover have "distinct (map series_key (db_rule_stats db'))"
    unfolding db'(2) by (rule upsert_keys [OF keys]) (simp_all add: series_key_def)
  moreover have "\<forall>x \<in> set (db_rule_stats db'). 0 \<le> rs_rx x \<and> 0 \<le> rs_tx x \<and> 0 \<le> rs_conn x"
    unfolding db'(2) upsert_def using signs cell pos by (auto split: if_splits)
  moreover have "counters_fit reps db'"
  proof (unfold counters_fit_def, intro ballI)
    fix r
    assume "r \<in> set (db_rules db')"
    then obtain r1 where r1: "r1 \<in> set (db_rules db)" "r = (if ?owned r1 then ?acc r1 else r1)"
      unfolding db'(1) set_map by blast
    show "dr_rx r + reported rb_rx (dr_id r) reps < 2 ^ 63
      \<and> dr_tx r + reported rb_tx (dr_id r) reps < 2 ^ 63 \<and> dr_conn r + reported rb_conn (dr_id r) reps < 2 ^ 63"
    proof (cases "dr_id r1 = rb_rule_id b")
      case True
      with rows [OF r1] room [OF r1(1) True] show ?thesis by simp
    next
      case False
      with rows [OF r1] assms(4) r1(1) show ?thesis by (auto simp: counters_fit_def)
    qed
  qed
  moreover have "risen db db'"
    unfolding risen_def db'(1) list_all2_map2 list_all2_same not_lower_def using acc owned pos by auto
  ultimately show ?thesis
    by (simp add: booked_def stats_balanced_def)
qed

lemma put_buckets_rules:
  assumes "put_buckets (put_rule_bucket ev io n) buckets (k, db) = (k', db')" "rules_wf db"
  shows "counted_for n db db' \<and> (stats_balanced db \<longrightarrow> counters_fit (buckets @ rest) db \<longrightarrow> booked rest db db')"
  using assms
proof (induction buckets arbitrary: k db)
  case Nil
  then show ?case by (simp add: counted_refl booked_def risen_refl)
next
  case (Cons b buckets)
  obtain ok db1 where b: "put_rule_bucket ev io n b db = (ok, db1)" by fastforce
  note c = put_rule_bucket_counted [OF b]
  have step: "counted_for n db1 db' \<and> (stats_balanced db1 \<longrightarrow> counters_fit (buckets @ rest) db1 \<longrightarrow> booked rest db1 db')"
    using Cons.IH [of "if ok then k + 1 else k" db1] Cons.prems b counted_wf [OF c] by simp
  have "booked rest db db'" if "stats_balanced db" "counters_fit ((b # buckets) @ rest) db"
  proof -
    have "booked (buckets @ rest) db db1"
      by (rule put_rule_bucket_booked [OF that(1) b Cons.prems(2)]) (use that(2) in simp)
    with step booked_trans [of db db1 rest db'] show ?thesis
      by (simp add: booked_def)
  qed
  with step c counted_trans show ?case by blast
qed

lemma put_batches_rules:
  assumes "put_batches (put_rule_bucket ev io) n batches (k, db) = (e, k', db')" "rules_wf db"
  shows "counted_for n db db' \<and> (stats_balanced db \<longrightarrow> counters_fit (buckets_of batches) db \<longrightarrow> stats_balanced db' \<and> risen db db')"
  using assms
proof (induction batches arbitrary: k db)
  case Nil
  then show ?case by (simp add: counted_refl risen_refl)
next
  case (Cons x batches)
  show ?case
  proof (cases x)
    case None
    with Cons.prems show ?thesis by (simp add: counted_refl risen_refl)
  next
    case (Some mb)
    obtain m buckets where mb: "mb = (m, buckets)" by (cases mb)
    show ?thesis
    proof (cases "m = n")
      case False
      with Cons.prems Some mb show ?thesis by (simp add: counted_refl risen_refl)
    next
      case True
      obtain k1 db1 where b: "put_buckets (put_rule_bucket ev io n) buckets (k, db) = (k1, db1)" by fastforce
      note c = put_buckets_rules [OF b Cons.prems(2), where rest = "buckets_of batches"]
      have step: "counted_for n db1 db'
          \<and> (stats_balanced db1 \<longrightarrow> counters_fit (buckets_of batches) db1 \<longrightarrow> stats_balanced db' \<and> risen db1 db')"
        using Cons.IH [of k1 db1] Cons.prems Some mb True b counted_wf [OF conjunct1 [OF c] Cons.prems(2)] by simp
      have "stats_balanced db' \<and> risen db db'" if "stats_balanced db" "counters_fit (buckets @ buckets_of batches) db"
      proof -
        have "booked (buckets_of batches) db db1"
          using c that by blast
        then show ?thesis
          using step risen_trans [of db db1 db'] by (simp add: booked_def)
      qed
      with step c counted_trans Some mb show ?thesis by auto
    qed
  qed
qed

text \<open>C12. The accounting of traffic stays within a node and balances. Whatever an agent reports, only live rules of the node
  of its session change, and of them only the counters; a caller without a valid session changes nothing. When the counters,
  which are 64-bit columns, have room for what is reported (each one and the reports for its rule stay together below 2^63), none
  goes down and the counters of every rule remain the sums of its series, provided they were before.\<close>

theorem rule_stats_balance:
  assumes "report_rule_stats ev io now c batches s = (res, s')" "rules_wf (sv_db s)"
  shows "(case verify_session_with_cert now c s of
         Inl e \<Rightarrow> res = Inl e \<and> s' = s
       | Inr n \<Rightarrow> list_all2 (\<lambda>r r'. (dr_node_id r \<noteq> n \<or> dr_deleted r \<longrightarrow> r' = r)
             \<and> r' = r\<lparr>dr_rx := dr_rx r', dr_tx := dr_tx r', dr_conn := dr_conn r'\<rparr>)
           (db_rules (sv_db s)) (db_rules (sv_db s')))
    \<and> (stats_balanced (sv_db s) \<longrightarrow> counters_fit (buckets_of batches) (sv_db s) \<longrightarrow> stats_balanced (sv_db s')
        \<and> list_all2 (\<lambda>r r'. dr_rx r \<le> dr_rx r' \<and> dr_tx r \<le> dr_tx r' \<and> dr_conn r \<le> dr_conn r')
            (db_rules (sv_db s)) (db_rules (sv_db s')))"
proof (cases "verify_session_with_cert now c s")
  case (Inl e)
  with assms show ?thesis by (simp add: report_rule_stats_def list_all2_same)
next
  case (Inr n)
  obtain e k db where b: "put_batches (put_rule_bucket ev io) n batches (0, sv_db s) = (e, k, db)"
    by (metis prod_cases3)
  with assms(1) Inr have db: "sv_db s' = db"
    by (auto simp: report_rule_stats_def split: option.splits)
  from put_batches_rules [OF b assms(2)] Inr show ?thesis
    unfolding db by (simp add: counted_for_def recounted_def [abs_def] risen_def not_lower_def [abs_def])
qed

section \<open>Witnesses\<close>

definition sample_server :: server where
  "sample_server = \<lparr>sv_panel = \<lparr>pn_db = sample_db, pn_dispatcher = dispatcher_new\<rparr>, sv_sessions = [], sv_crl = [], sv_events = [], sv_notified = [],
     sv_agent_sessions = [], sv_probe_seq = 0, sv_waiters = [], sv_results = []\<rparr>"

definition sample_service :: service_env where
  "sample_service = \<lparr>se_hash = id, se_time_ok = (\<lambda>_. True)\<rparr>"

definition sample_register :: register_request where
  "sample_register = \<lparr>rr_node_id = 1, rr_agent_token = ''h'', rr_version = ''v''\<rparr>"

definition registered :: server where
  "registered = snd (register sample_service (\<lambda>_. False) 1000 ''t'' (Some ''f'') sample_register sample_server)"

definition sample_call :: call where
  "sample_call = \<lparr>ca_token = Some ''t'', ca_peer_fp = Some ''f''\<rparr>"

lemma registered_session: "verify_session_with_cert 2000 sample_call registered = Inr 1"
proof -
  have f: "find_node (sv_db sample_server) 1 = Some (sample_node 1 ''1.1.1.1'')"
    by (simp add: find_node_def sv_db_def sample_server_def sample_db_def sample_node_def)
  obtain r s1 where a: "accept_node sample_service (\<lambda>_. False) 1000 ''t'' (Some ''f'') sample_register sample_server = (r, s1)"
    by fastforce
  have "registered = s1"
    using a f by (simp add: registered_def register_def sample_register_def sample_service_def sample_node_def
        crl_is_revoked_def sample_server_def)
  then show ?thesis
    using accept_node_sessions [OF a]
    by (simp add: verify_session_with_cert_def session_verify_def sample_call_def sample_register_def
        SESSION_TTL_HOURS_def crl_is_revoked_def sample_server_def del: map_of_eq_Some_iff)
qed

lemma session_proves_identity_witness:
  "\<exists>k io t token fp req row. k < length [Register (\<lambda>_. False) 1000 ''t'' (Some ''f'') sample_register]
    \<and> [Register (\<lambda>_. False) 1000 ''t'' (Some ''f'') sample_register] ! k = Register io t token fp req
    \<and> rr_node_id req = 1 \<and> 2000 < t + 24 * 3600"
proof -
  have "sv_sessions sample_server = []"
    by (simp add: sample_server_def)
  moreover have "registered = foldl (server_step sample_service) sample_server [Register (\<lambda>_. False) 1000 ''t'' (Some ''f'') sample_register]"
    by (simp add: registered_def)
  ultimately show ?thesis
    by (rule session_proves_identity [OF _ _ registered_session, elim_format]) (elim exE conjE, intro exI conjI; assumption)
qed

definition sample_bucket :: rule_bucket where
  "sample_bucket = \<lparr>rb_rule_id = 7, rb_at = 60, rb_rx = 5, rb_tx = 6, rb_conn = 1, rb_err = 0\<rparr>"

lemma rule_stats_balance_witness:
  "stats_balanced (sv_db (snd (report_rule_stats sample_service (\<lambda>_. False) 2000 sample_call [Some (1, [sample_bucket])] registered)))
   \<and> fst (report_rule_stats sample_service (\<lambda>_. False) 2000 sample_call [Some (1, [sample_bucket])] registered) = Inr ()"
proof -
  have r: "db_rules (sv_db registered) = db_rules sample_db" "db_rule_stats (sv_db registered) = []"
    "db_next_rule (sv_db registered) = 9"
    by (simp_all add: registered_def register_def accept_node_def sample_register_def sample_service_def sample_node_def
        crl_is_revoked_def sample_server_def find_node_def sv_db_def sample_db_def Let_def with_db_def audit_server_def
        publish_node_event_def record_plain_def record_with_ip_def db_audit_def change_nodes_def prev_status_def)
  have w: "rules_wf (sv_db registered)"
    using sample_db_wf(1) by (simp add: rules_wf_def r sample_db_def)
  have b: "stats_balanced (sv_db registered)" "counters_fit (buckets_of [Some (1, [sample_bucket])]) (sv_db registered)"
    by (simp_all add: stats_balanced_def counters_fit_def r series_total_def sample_db_def sample_rule_def sample_bucket_def)
  have "fst (report_rule_stats sample_service (\<lambda>_. False) 2000 sample_call [Some (1, [sample_bucket])] registered) = Inr ()"
    by (simp add: report_rule_stats_def registered_session split: prod.split)
  then show ?thesis
    using rule_stats_balance [of sample_service "\<lambda>_. False" 2000 sample_call "[Some (1, [sample_bucket])]" registered, OF prod.collapse [symmetric] w] b
    by blast
qed

text \<open>Without that room a counter leaves the 64 bits, and the balance is lost: two reports of an agent for one rule.\<close>

definition huge_buckets :: "rule_bucket list" where
  "huge_buckets = [sample_bucket\<lparr>rb_rx := 2 ^ 63 - 1\<rparr>, sample_bucket\<lparr>rb_at := 70\<rparr>]"

lemma counter_overflows:
  "(let db = snd (snd (put_batches (put_rule_bucket sample_service (\<lambda>_. False)) 1 [Some (1, huge_buckets)] (0, sample_db))) in
     map (\<lambda>r. (dr_id r, in_i64 (dr_rx r))) (db_rules db) = [(7, False), (8, True)]
     \<and> series_total rs_rx db 7 = 2 ^ 63 + 4 \<and> map dr_rx (db_rules db) = [2 ^ 63, 0])"
  by code_simp

section \<open>Waiting diagnoses\<close>

definition probes_of :: "server \<Rightarrow> (string \<times> nat) list \<times> probe_result option list \<times> nat" where
  "probes_of s = (sv_waiters s, sv_results s, sv_probe_seq s)"

lemma probes_frame [simp]:
  "probes_of (with_db f s) = probes_of s" "probes_of (audit_server io n v e s) = probes_of s"
  "probes_of (publish_node_event n s) = probes_of s" "probes_of (notify_online n s) = probes_of s"
  "probes_of (audit_node io auth ip a i s) = probes_of s" "probes_of (s\<lparr>sv_sessions := x\<rparr>) = probes_of s"
  "probes_of (s\<lparr>sv_crl := y\<rparr>) = probes_of s" "probes_of (s\<lparr>sv_agent_sessions := z\<rparr>) = probes_of s"
  "probes_of (s\<lparr>sv_panel := w\<rparr>) = probes_of s"
  by (simp_all add: probes_of_def with_db_def audit_server_def publish_node_event_def notify_online_def audit_node_def)

fun diagnosis :: "server_event \<Rightarrow> bool" where
  "diagnosis (Report_Probe now c r) = True"
| "diagnosis Register_Probe = True"
| "diagnosis (Cancel_Probe i) = True"
| "diagnosis _ = False"

lemma probes_kept: "\<not> diagnosis e \<Longrightarrow> probes_of (server_step ev s e) = probes_of s"
proof (cases e)
  case (Register io t token fp req)
  then show ?thesis
    by (simp add: register_def denied_def accept_node_def Let_def split: option.split)
next
  case (Revoke_Credentials io ok fp auth ip i)
  then show ?thesis
    by (simp add: revoke_credentials_def Let_def split: sum.split option.split prod.split)
qed (simp_all add: heartbeat_def subscribe_commands_def report_node_stats_def report_rule_stats_def delete_node_def Let_def
    split: sum.split option.split prod.split)

text \<open>Waiters are few, have names of their own and places of their own, still empty.\<close>

definition probes_ok :: "(string \<times> nat) list \<times> probe_result option list \<times> nat \<Rightarrow> bool" where
  "probes_ok x = (case x of (ws, rs, q) \<Rightarrow> hm_wf ws \<and> length ws \<le> MAX_PROBE_WAITERS \<and> distinct (map snd ws)
     \<and> (\<forall>(i, k) \<in> set ws. k < length rs \<and> rs ! k = None \<and> (\<exists>n < q. i = CHR ''p'' # dec n)))"

lemma waiters_removed:
  "set (hm_remove i ws) \<subseteq> set ws" "distinct (map snd ws) \<Longrightarrow> distinct (map snd (hm_remove i ws))"
  by (auto simp: AList.delete_eq distinct_map_filter)

text \<open>What each of the three operations does to the waiters, and to a result that is already there.\<close>

lemma register_probe_ok:
  assumes "probes_ok (probes_of s)"
  shows "probes_ok (probes_of (snd (register_probe s)))"
proof (cases "MAX_PROBE_WAITERS \<le> length (sv_waiters s)")
  case True
  with assms show ?thesis
    by (fastforce simp: probes_ok_def probes_of_def register_probe_def Let_def intro: less_SucI)
next
  case False
  let ?i = "CHR ''p'' # dec (sv_probe_seq s)"
  have ok: "hm_wf (sv_waiters s)" "distinct (map snd (sv_waiters s))"
    "\<And>i k. (i, k) \<in> set (sv_waiters s) \<Longrightarrow> k < length (sv_results s) \<and> sv_results s ! k = None \<and> (\<exists>n < sv_probe_seq s. i = CHR ''p'' # dec n)"
    using assms by (auto simp: probes_ok_def probes_of_def)
  then have new: "hm_get (sv_waiters s) ?i = None"
    by (fastforce simp: map_of_eq_None_iff)
  have ws: "hm_insert ?i (length (sv_results s)) (sv_waiters s) = sv_waiters s @ [(?i, length (sv_results s))]"
    by (rule hm_insert_new [OF new])
  have "length (sv_results s) \<notin> snd ` set (sv_waiters s)"
    using ok(3) by fastforce
  moreover have "?i \<notin> fst ` set (sv_waiters s)"
    using new by (simp add: map_of_eq_None_iff)
  ultimately show ?thesis
    using False ok
    by (fastforce simp: probes_ok_def probes_of_def register_probe_def Let_def ws nth_append intro: less_SucI)
qed

lemma places_differ: "distinct (map snd ws) \<Longrightarrow> (i, k) \<in> set ws \<Longrightarrow> (j, k) \<in> set ws \<Longrightarrow> i = j"
  by (metis distinct_map inj_onD prod.inject snd_conv)

lemma probes_okI:
  assumes "hm_wf ws" "length ws \<le> MAX_PROBE_WAITERS" "distinct (map snd ws)"
    "\<And>i k. (i, k) \<in> set ws \<Longrightarrow> k < length rs \<and> rs ! k = None \<and> (\<exists>n < q. i = CHR ''p'' # dec n)"
  shows "probes_ok (ws, rs, q)"
  using assms by (auto simp: probes_ok_def)

lemma probes_okD:
  assumes "probes_ok (ws, rs, q)"
  shows "hm_wf ws" "length ws \<le> MAX_PROBE_WAITERS" "distinct (map snd ws)"
    "\<And>i k. (i, k) \<in> set ws \<Longrightarrow> k < length rs \<and> rs ! k = None \<and> (\<exists>n < q. i = CHR ''p'' # dec n)"
  using assms by (auto simp: probes_ok_def)

lemma probes_ok_remove:
  assumes "probes_ok (ws, rs, q)"
  shows "probes_ok (hm_remove i ws, rs, q)"
  using probes_okD [OF assms] waiters_removed(1) [of i ws] waiters_removed(2) [of ws i] length_hm_remove_le [of i ws]
  by (intro probes_okI) (auto intro: order_trans)

lemma probes_ok_answer:
  assumes "probes_ok (ws, rs, q)" "(i, k) \<in> set ws"
  shows "probes_ok (hm_remove i ws, rs[k := Some r], q)"
proof -
  note rest = probes_okD [OF probes_ok_remove [OF assms(1), of i]]
  have "k \<noteq> l" if "(j, l) \<in> set (hm_remove i ws)" for j l
    using that places_differ [OF probes_okD(3) [OF assms(1)] assms(2)] by (auto simp: AList.delete_eq)
  then show ?thesis
    using rest by (intro probes_okI) auto
qed

lemma resolve_probe_ok:
  assumes "probes_ok (probes_of s)"
  shows "probes_ok (probes_of (resolve_probe r s))"
  using assms probes_ok_answer [OF _ map_of_SomeD]
  by (auto simp: probes_of_def resolve_probe_def simp del: map_of_eq_Some_iff split: option.split)

lemma cancel_probe_ok:
  assumes "probes_ok (probes_of s)"
  shows "probes_ok (probes_of (cancel_probe i s))"
  using assms probes_ok_remove by (simp add: probes_of_def cancel_probe_def)

lemma probes_step:
  assumes "probes_ok (probes_of s)"
  shows "probes_ok (probes_of (server_step ev s e))"
proof (cases "diagnosis e")
  case True
  with assms show ?thesis
    by (cases e) (auto simp: register_probe_ok cancel_probe_ok report_probe_result_def resolve_probe_ok split: sum.split)
qed (simp add: assms probes_kept)

lemma result_step:
  assumes "probes_ok (probes_of s)" "k < length (sv_results s)" "sv_results s ! k = Some r"
  shows "k < length (sv_results (server_step ev s e)) \<and> sv_results (server_step ev s e) ! k = Some r"
proof (cases "diagnosis e")
  case False
  then show ?thesis
    using assms probes_kept [of e ev s] by (simp add: probes_of_def)
next
  case True
  have "j \<noteq> k" if "hm_get (sv_waiters s) i = Some j" for i j
    using map_of_SomeD [OF that] assms by (auto simp: probes_ok_def probes_of_def)
  then have "sv_results (resolve_probe x s) ! k = Some r \<and> k < length (sv_results (resolve_probe x s))" for x
    using assms(2,3) by (auto simp: resolve_probe_def nth_list_update simp del: map_of_eq_Some_iff split: option.split)
  with True assms show ?thesis
    by (cases e) (auto simp: register_probe_def cancel_probe_def report_probe_result_def Let_def nth_append split: sum.split)
qed

interpretation server_machine: invariant_machine "server_step ev" "\<lambda>s. probes_ok (probes_of s)" for ev
  by unfold_locales (rule probes_step)

lemma result_run:
  assumes "probes_ok (probes_of s)" "k < length (sv_results s)" "sv_results s ! k = Some r"
  shows "sv_results (foldl (server_step ev) s es) ! k = Some r"
  using assms
proof (induction es arbitrary: s)
  case (Cons e es)
  from Cons.IH [OF probes_step [OF Cons.prems(1)]] result_step [OF Cons.prems] show ?case by simp
qed simp

section \<open>Properties of diagnoses and of ended sessions\<close>

text \<open>A diagnosis is answered once: over every run of calls that starts with no diagnosis waiting, at most 64 wait at
  any time, under ids that are all different and each with a place of its own for the answer; and
  an answer that has been delivered is never overwritten, whatever the agents report later.\<close>

theorem diagnosis_answered_once:
  assumes "sv_waiters s0 = []" "s1 = foldl (server_step ev) s0 es" "s2 = foldl (server_step ev) s1 fs"
  shows "length (sv_waiters s2) \<le> 64 \<and> distinct (map fst (sv_waiters s2)) \<and> distinct (map snd (sv_waiters s2))
    \<and> list_all (\<lambda>(_, k). k < length (sv_results s2) \<and> sv_results s2 ! k = None) (sv_waiters s2)
    \<and> (\<forall>k r. k < length (sv_results s1) \<longrightarrow> sv_results s1 ! k = Some r \<longrightarrow> sv_results s2 ! k = Some r)"
proof -
  have "probes_ok (probes_of s0)"
    using assms(1) by (simp add: probes_ok_def probes_of_def)
  then have "probes_ok (probes_of s1)" "probes_ok (probes_of s2)"
    using server_machine.run_inv assms(2,3) by blast+
  then show ?thesis
    using result_run [of s1 _ _ ev fs] assms(3) by (auto simp: probes_ok_def probes_of_def MAX_PROBE_WAITERS_def list_all_iff)
qed

lemma diagnosis_answered_once_witness:
  "length (sv_waiters (foldl (server_step sample_service) registered [Register_Probe])) = 1
   \<and> distinct (map snd (sv_waiters (foldl (server_step sample_service) registered [Register_Probe])))"
proof -
  have w: "sv_waiters sample_server = []"
    by (simp add: sample_server_def)
  have "registered = foldl (server_step sample_service) sample_server [Register (\<lambda>_. False) 1000 ''t'' (Some ''f'') sample_register]"
    by (simp add: registered_def)
  from diagnosis_answered_once [OF w this refl, of "[Register_Probe]"]
  have d: "distinct (map snd (sv_waiters (foldl (server_step sample_service) registered [Register_Probe])))"
    by blast
  have "probes_of registered = probes_of sample_server"
    using probes_kept [of "Register (\<lambda>_. False) 1000 ''t'' (Some ''f'') sample_register" sample_service sample_server]
    by (simp add: registered_def)
  then have "sv_waiters registered = []"
    by (simp add: probes_of_def w)
  then have "length (sv_waiters (foldl (server_step sample_service) registered [Register_Probe])) = 1"
    by (simp add: register_probe_def Let_def MAX_PROBE_WAITERS_def)
  with d show ?thesis by blast
qed

text \<open>C37. Ending the sessions of a node does not end its stream of commands: after a deletion or a revocation that succeeds, no call
  with any token or certificate is accepted as that node, but the dispatcher is as it was, so the
  agent still receives every command that is sent to the node, the keys of tunnels included.\<close>

theorem revoked_node_still_listens:
  assumes "hm_wf (sv_sessions s)"
    "s' = snd (delete_node io auth ip i s) \<and> fst (delete_node io auth ip i s) = Inr ()
     \<or> s' = snd (revoke_credentials io ok fp auth ip i s) \<and> fst (revoke_credentials io ok fp auth ip i s) = Inr ()"
  shows "verify_session_with_cert now c s' \<noteq> Inr i
    \<and> dispatch i cmd (pn_dispatcher (sv_panel s')) = dispatch i cmd (pn_dispatcher (sv_panel s))"
proof -
  have sess: "sv_sessions s' = revoke_node i (sv_sessions s)"
    using assms(2) ended by blast
  have "pn_dispatcher (sv_panel s') = pn_dispatcher (sv_panel s)"
    using assms(2)
    by (auto simp: delete_node_def revoke_credentials_def Let_def audit_node_def with_db_def
        split: sum.splits prod.splits option.splits if_splits)
  moreover have "verify_session_with_cert now c s' \<noteq> Inr i"
    using revoke_node_entries [OF assms(1)]
    by (auto simp: verify_session_with_cert_def session_verify_def bindR_eq_Inr sess
        simp del: map_of_eq_Some_iff split: option.splits if_splits)
  ultimately show ?thesis by simp
qed

section \<open>A revocation\<close>

definition sample_admin :: claims where
  "sample_admin = \<lparr>cl_sub = 9, cl_username = ''a'', cl_role = ''admin'', cl_exp = 0, cl_mcp = False, cl_scope = []\<rparr>"

definition revoked :: "(api_error + unit) \<times> server" where
  "revoked = revoke_credentials (\<lambda>_. False) True (Some (''2'', ''g'')) sample_admin [] 1 registered"

lemma registered_node:
  "map_option nd_cert_fingerprint (find_node (sv_db registered) 1) = Some (Some ''f'')"
  by (simp add: registered_def register_def accept_node_def sample_register_def sample_service_def sample_node_def
      crl_is_revoked_def sample_server_def find_node_def sv_db_def sample_db_def Let_def with_db_def audit_server_def
      publish_node_event_def record_plain_def record_with_ip_def db_audit_def change_nodes_def prev_status_def)

lemma revoked_node_still_listens_witness:
  "verify_session_with_cert 2000 sample_call registered = Inr 1 \<and> fst revoked = Inr ()
   \<and> verify_session_with_cert 2000 sample_call (snd revoked) \<noteq> Inr 1
   \<and> dispatch 1 (restart_command 7) (pn_dispatcher (sv_panel (snd revoked)))
     = dispatch 1 (restart_command 7) (pn_dispatcher (sv_panel registered))"
proof -
  obtain node where "find_node (sv_db registered) 1 = Some node" "nd_cert_fingerprint node = Some ''f''"
    using registered_node by auto
  then have ok: "fst revoked = Inr ()"
    by (simp add: revoked_def revoke_credentials_def require_admin_def is_admin_def sample_admin_def reject_if_def
        read_db_def bindR_def ok_or_def crl_revoke_def Let_def)
  have wf: "hm_wf (sv_sessions registered)"
    using session_origin(1) [of sample_server sample_service "[Register (\<lambda>_. False) 1000 ''t'' (Some ''f'') sample_register]"]
    by (simp add: registered_def sample_server_def)
  show ?thesis
    using revoked_node_still_listens [OF wf, of "snd revoked" "\<lambda>_. False" sample_admin "[]" 1 True "Some (''2'', ''g'')"]
      ok registered_session by (simp add: revoked_def)
qed
end
