(* ===== verification/Sweepers.thy ===== *)
theory Sweepers
  imports Control_Service Rules_Inv
begin

text \<open>
  The background tasks of the panel: the interval they take from the environment (sweeper/mod.rs),
  the detection of nodes that went away (sweeper/node_offline.rs), the clean-up of old statistics
  (sweeper/stats_retention.rs), the rotation of tunnel credentials (sweeper/tunnel_creds.rs) and the
  webhook (notify/mod.rs). A task is modelled by one tick; the timer that repeats it is not. A
  statement of a loop that the database refuses is a name that ends with the id of its row.
\<close>

section \<open>Intervals\<close>

text \<open>The value of a variable of the environment, \<open>None\<close> when it is not set.\<close>

definition env_secs :: "string option \<Rightarrow> int \<Rightarrow> int \<Rightarrow> int" where
  "env_secs var dflt lowest = max (unwrap_or dflt (Option.bind var parse_u64)) lowest"

section \<open>Nodes that went away\<close>

text \<open>\<^verbatim>\<open>last_seen_at IS NULL OR last_seen_at < datetime('now', '-n seconds')\<close>\<close>

definition stale :: "panel_db \<Rightarrow> int \<Rightarrow> node_row \<Rightarrow> bool" where
  "stale db after n = (nd_status n = ''online''
     \<and> (case nd_last_seen n of None \<Rightarrow> True | Some t \<Rightarrow> t < db_now db - after))"

definition stale_nodes :: "panel_db \<Rightarrow> int \<Rightarrow> (int \<times> string) list" where
  "stale_nodes db after =
     map (\<lambda>n. (nd_id n, nd_name n)) (filter (\<lambda>n. stale db after n \<and> \<not> nd_deleted n) (db_nodes db))"

definition notify_offline :: "int \<Rightarrow> string \<Rightarrow> server \<Rightarrow> server" where
  "notify_offline n name s = s\<lparr>sv_notified := sv_notified s @ [Node_Offline n name]\<rparr>"

text \<open>
  The loop over the nodes that were found: each row is checked again by its statement. The result
  holds the rows that changed, or the error that ended the loop.
\<close>

fun mark_offline ::
    "query_faults \<Rightarrow> int \<Rightarrow> (int \<times> string) list \<Rightarrow> (int \<times> string) list \<Rightarrow> server
     \<Rightarrow> (sql_error + (int \<times> string) list) \<times> server" where
  "mark_offline io after [] flipped s = (Inr flipped, s)"
| "mark_offline io after ((i, name) # rest) flipped s =
     (if io (''mark_offline '' @ show_int i) then (Inl Sql_Failed, s)
      else (let hit = (\<lambda>n. nd_id n = i \<and> stale (sv_db s) after n) in
            if list_ex hit (db_nodes (sv_db s)) then
              mark_offline io after rest (flipped @ [(i, name)])
                (publish_node_event i (notify_offline i name
                  (with_db (change_nodes hit (\<lambda>n. n\<lparr>nd_status := ''offline''\<rparr>)) s)))
            else mark_offline io after rest flipped s))"

definition join_commas :: "string list \<Rightarrow> string" where
  "join_commas xs = join_with CHR '','' xs"

definition offline_payload :: "(int \<times> string) list \<Rightarrow> string" where
  "offline_payload flipped = ''count='' @ show_int (int (length flipped)) @ '',nodes=''
     @ join_commas (map (\<lambda>(i, name). CHR ''#'' # show_int i @ ''('' @ name @ '')'') flipped)"

text \<open>An entry of the log made by the panel itself: \<^verbatim>\<open>audit::record\<close> without an actor.\<close>

definition audit_system ::
    "query_faults \<Rightarrow> string \<Rightarrow> string \<Rightarrow> int option \<Rightarrow> string \<Rightarrow> server \<Rightarrow> server" where
  "audit_system io action ttype tid payload s =
     s\<lparr>sv_panel := record_plain io None action (Some ttype) tid (Some payload) True None (sv_panel s)\<rparr>"

definition offline_tick_once :: "query_faults \<Rightarrow> string option \<Rightarrow> server \<Rightarrow> (sql_error + nat) \<times> server" where
  "offline_tick_once io var s =
     (let after = env_secs var 120 10 in
      if io ''stale_nodes'' then (Inl Sql_Failed, s)
      else (case stale_nodes (sv_db s) after of
              [] \<Rightarrow> (Inr 0, s)
            | found \<Rightarrow>
                (case mark_offline io after found [] s of
                   (Inl e, s1) \<Rightarrow> (Inl e, s1)
                 | (Inr flipped, s1) \<Rightarrow>
                     (Inr (length flipped),
                      if flipped = [] then s1
                      else audit_system io ''node.offline_detected'' ''node'' None (offline_payload flipped) s1))))"

section \<open>Old statistics\<close>

definition BATCH :: nat where "BATCH = 5000"

text \<open>
  \<^verbatim>\<open>DELETE ... WHERE id IN (SELECT id ... WHERE bucket_at < ? LIMIT 5000)\<close>: the number of rows it
  removes and what is left. Without an order any 5000 old rows may go; here it is the first ones.
\<close>

fun delete_batch :: "nat \<Rightarrow> ('a \<Rightarrow> bool) \<Rightarrow> 'a list \<Rightarrow> nat \<times> 'a list" where
  "delete_batch 0 old rows = (0, rows)"
| "delete_batch (Suc k) old [] = (0, [])"
| "delete_batch (Suc k) old (r # rows) =
     (if old r then (case delete_batch k old rows of (n, rest) \<Rightarrow> (Suc n, rest))
      else (case delete_batch (Suc k) old rows of (n, rest) \<Rightarrow> (n, r # rest)))"

lemma delete_batch_length: "delete_batch k old rows = (n, rest) \<Longrightarrow> length rows = n + length rest"
  by (induction k old rows arbitrary: n rest rule: delete_batch.induct) (auto split: if_splits prod.splits)

text \<open>
  The loop over the batches of one table; \<open>fault\<close> says which of its statements the database
  refuses. The third result counts the statements.
\<close>

function delete_old :: "(nat \<Rightarrow> bool) \<Rightarrow> ('a \<Rightarrow> bool) \<Rightarrow> nat \<Rightarrow> nat \<Rightarrow> 'a list \<Rightarrow> (sql_error + nat) \<times> 'a list \<times> nat" where
  "delete_old fault old k removed rows =
     (if fault k then (Inl Sql_Failed, rows, k + 1)
      else (case delete_batch BATCH old rows of (n, rest) \<Rightarrow>
              if n < BATCH then (Inr (removed + n), rest, k + 1)
              else delete_old fault old (k + 1) (removed + n) rest))"
  by pat_completeness auto
termination
  by (relation "measure (\<lambda>(fault, old, k, removed, rows). length rows)")
    (auto simp: BATCH_def dest: delete_batch_length [OF sym])

declare delete_old.simps [simp del]

definition retention_days :: "panel_db \<Rightarrow> int" where
  "retention_days db = (case Option.bind (map_of (db_settings db) ''stats_retention_days'') parse_i64 of
     Some n \<Rightarrow> if 1 \<le> n then n else 30
   | None \<Rightarrow> 30)"

definition retention_cutoff :: "panel_db \<Rightarrow> int" where
  "retention_cutoff db = db_now db - retention_days db * 86400"

definition retention_tick_once ::
    "query_faults \<Rightarrow> (nat \<Rightarrow> bool) \<Rightarrow> (nat \<Rightarrow> bool) \<Rightarrow> panel_db \<Rightarrow> (sql_error + nat) \<times> panel_db" where
  "retention_tick_once io fault_rules fault_nodes db =
     (if io ''settings'' then (Inl Sql_Failed, db)
      else (let cutoff = retention_cutoff db in
        case delete_old fault_rules (\<lambda>x. rs_bucket_at x < cutoff) 0 0 (db_rule_stats db) of
          (Inl e, rows, _) \<Rightarrow> (Inl e, db\<lparr>db_rule_stats := rows\<rparr>)
        | (Inr a, rows, _) \<Rightarrow>
            (case delete_old fault_nodes (\<lambda>x. ns_bucket_at x < cutoff) 0 0 (db_node_stats db) of
               (Inl e, rows2, _) \<Rightarrow> (Inl e, db\<lparr>db_rule_stats := rows, db_node_stats := rows2\<rparr>)
             | (Inr b, rows2, _) \<Rightarrow> (Inr (a + b), db\<lparr>db_rule_stats := rows, db_node_stats := rows2\<rparr>))))"

section \<open>Tunnel credentials\<close>

definition rotation_due :: "panel_db \<Rightarrow> int \<Rightarrow> tunnel_row \<Rightarrow> bool" where
  "rotation_due db after t = (\<not> tu_deleted t \<and> tu_transport t \<in> set [''tls'', ''wss'']
     \<and> unwrap_or (tu_created_at t) (tu_rotated_at t) < db_now db - after)"

definition due_tunnels :: "panel_db \<Rightarrow> int \<Rightarrow> int list" where
  "due_tunnels db after = sort (map tu_id (filter (rotation_due db after) (db_tunnels db)))"

definition show_bool :: "bool \<Rightarrow> string" where
  "show_bool b = (if b then ''true'' else ''false'')"

fun rotate_each ::
    "panel_env \<Rightarrow> query_faults \<Rightarrow> int \<Rightarrow> int list \<Rightarrow> nat \<Rightarrow> panel \<Rightarrow> (sql_error + nat) \<times> panel" where
  "rotate_each pe io after [] rotated p = (Inr rotated, p)"
| "rotate_each pe io after (tid # rest) rotated p =
     (if io (''find_tunnel '' @ show_int tid) then (Inl Sql_Failed, p)
      else (case find_tunnel (pn_db p) tid of
              None \<Rightarrow> rotate_each pe io after rest rotated p
            | Some t \<Rightarrow>
                (case rotate_credentials_and_restart pe io t p of
                   (Inr sent, p1) \<Rightarrow>
                     rotate_each pe io after rest (rotated + 1)
                       (record_plain io None ''tunnel.creds_rotated'' (Some ''tunnel'') (Some tid)
                          (Some (''auto rotation after '' @ show_int after @ ''s; dispatched='' @ show_bool sent))
                          True None p1)
                 | (Inl _, p1) \<Rightarrow> rotate_each pe io after rest rotated p1)))"

definition rotate_tick_once ::
    "panel_env \<Rightarrow> query_faults \<Rightarrow> string option \<Rightarrow> panel \<Rightarrow> (sql_error + nat) \<times> panel" where
  "rotate_tick_once pe io var p =
     (let after = env_secs var (20 * 86400) 60 in
      if io ''due_tunnels'' then (Inl Sql_Failed, p)
      else rotate_each pe io after (due_tunnels (pn_db p) after) 0 p)"

section \<open>The webhook\<close>

datatype post_outcome = Post_Success | Post_Status | Post_Failed

text \<open>The attempts from number \<open>k\<close> on, \<open>n\<close> of them: how many requests are made, and whether one succeeds.\<close>

fun post_attempts :: "(nat \<Rightarrow> post_outcome) \<Rightarrow> nat \<Rightarrow> nat \<Rightarrow> nat \<times> bool" where
  "post_attempts answer k 0 = (0, False)"
| "post_attempts answer k (Suc n) = (case answer k of
     Post_Success \<Rightarrow> (1, True)
   | _ \<Rightarrow> (case post_attempts answer (k + 1) n of (m, ok) \<Rightarrow> (m + 1, ok)))"

definition webhook_url :: "query_faults \<Rightarrow> panel_db \<Rightarrow> string option" where
  "webhook_url io db = (if io ''settings'' then None
     else case map_of (db_settings db) ''notify_webhook_url'' of
            Some v \<Rightarrow> if v = [] then None else Some v
          | None \<Rightarrow> None)"

text \<open>Sending one event: the address it goes to with the requests made, and whether it arrived.\<close>

definition spawn_send ::
    "query_faults \<Rightarrow> bool \<Rightarrow> (nat \<Rightarrow> post_outcome) \<Rightarrow> panel_db \<Rightarrow> (string \<times> nat) option \<times> bool" where
  "spawn_send io client_ok answer db = (case webhook_url io db of
     None \<Rightarrow> (None, False)
   | Some url \<Rightarrow>
       if \<not> client_ok then (None, False)
       else (case post_attempts answer 0 2 of (n, ok) \<Rightarrow> (Some (url, n), ok)))"

text \<open>A database that refuses nothing.\<close>

abbreviation no_faults :: query_faults where
  "no_faults \<equiv> \<lambda>_. False"

section \<open>Facts about the tasks\<close>

lemma env_secs_lowest: "lowest \<le> env_secs var dflt lowest"
  by (simp add: env_secs_def)

lemma change_nodes_frame [row_simps, simp]:
  "db_nodes (change_nodes p f db) = map (\<lambda>n. if p n then (f n)\<lparr>nd_updated_at := db_now db\<rparr> else n) (db_nodes db)"
  "db_now (change_nodes p f db) = db_now db" "db_rules (change_nodes p f db) = db_rules db"
  "db_users (change_nodes p f db) = db_users db" "db_settings (change_nodes p f db) = db_settings db"
  by (simp_all add: change_nodes_def)

lemma watch_frame [frame_simps, simp]:
  "sv_db (with_db f s) = f (sv_db s)" "sv_db (notify_offline i nm s) = sv_db s" "sv_db (publish_node_event i s) = sv_db s"
  "sv_notified (with_db f s) = sv_notified s" "sv_notified (publish_node_event i s) = sv_notified s"
  "sv_notified (notify_offline i nm s) = sv_notified s @ [Node_Offline i nm]"
  "sv_notified (audit_system io a b c d s) = sv_notified s"
  by (simp_all add: with_db_def sv_db_def notify_offline_def publish_node_event_def audit_system_def)

lemma stale_now: "db_now db = db_now db' \<Longrightarrow> stale db after = stale db' after"
  by (auto simp: stale_def fun_eq_iff split: option.split)

text \<open>
  Whatever was found, and whatever happened since: a row changes only when it is still stale. A
  heartbeat that arrives after the search keeps its node online.
\<close>

lemma mark_offline_rows:
  "mark_offline io after found flipped s = (r, s') \<Longrightarrow>
   db_now (sv_db s') = db_now (sv_db s)
   \<and> list_all2 (\<lambda>n n'. n' = n \<or> stale (sv_db s) after n \<and> n' = n\<lparr>nd_status := ''offline'', nd_updated_at := db_now (sv_db s)\<rparr>)
       (db_nodes (sv_db s)) (db_nodes (sv_db s'))"
proof (induction io after found flipped s arbitrary: r s' rule: mark_offline.induct)
  case (1 io after flipped s)
  then show ?case by (auto intro: list.rel_refl)
next
  case (2 io after i name rest flipped s)
  let ?hit = "\<lambda>n. nd_id n = i \<and> stale (sv_db s) after n"
  let ?off = "\<lambda>n. n\<lparr>nd_status := ''offline''\<rparr>" and ?gone = "\<lambda>n. n\<lparr>nd_status := ''offline'', nd_updated_at := db_now (sv_db s)\<rparr>"
  let ?s1 = "publish_node_event i (notify_offline i name (with_db (change_nodes ?hit ?off) s))"
  consider (fault) "io (''mark_offline '' @ show_int i)"
    | (hit) "\<not> io (''mark_offline '' @ show_int i)" "list_ex ?hit (db_nodes (sv_db s))"
    | (miss) "\<not> io (''mark_offline '' @ show_int i)" "\<not> list_ex ?hit (db_nodes (sv_db s))"
    by blast
  then show ?case
  proof cases
    case fault
    with 2 show ?thesis by (auto intro: list.rel_refl)
  next
    case hit
    with "2.prems" have "mark_offline io after rest (flipped @ [(i, name)]) ?s1 = (r, s')" by simp
    from "2.IH"(1) [OF hit(1) refl hit(2) this]
    have n: "db_now (sv_db s') = db_now (sv_db s)"
      and l: "list_all2 (\<lambda>n n'. n' = n \<or> stale (sv_db ?s1) after n \<and> n' = ?gone n) (db_nodes (sv_db ?s1)) (db_nodes (sv_db s'))"
      by simp_all
    have "stale (sv_db ?s1) after = stale (sv_db s) after"
      by (rule stale_now) simp
    with l have "list_all2 (\<lambda>n n'. n' = n \<or> stale (sv_db s) after n \<and> n' = ?gone n)
        (map (\<lambda>n. if ?hit n then ?gone n else n) (db_nodes (sv_db s))) (db_nodes (sv_db s'))"
      by simp
    then have "list_all2 (\<lambda>n n'. n' = n \<or> stale (sv_db s) after n \<and> n' = ?gone n) (db_nodes (sv_db s)) (db_nodes (sv_db s'))"
      unfolding list_all2_map1
      by (rule list.rel_mono_strong) (auto simp: stale_def split: if_splits)
    with n show ?thesis by blast
  next
    case miss
    with "2.prems" have "mark_offline io after rest flipped s = (r, s')" by simp
    from "2.IH"(2) [OF miss(1) refl miss(2) this] show ?thesis .
  qed
qed

lemma mark_offline_all:
  assumes "distinct (map nd_id (db_nodes (sv_db s)))" "distinct (map fst found)"
    "\<forall>(i, name) \<in> set found. \<exists>n \<in> set (db_nodes (sv_db s)). nd_id n = i \<and> stale (sv_db s) after n"
  shows "fst (mark_offline no_faults after found flipped s) = Inr (flipped @ found)
    \<and> sv_notified (snd (mark_offline no_faults after found flipped s)) = sv_notified s @ map (\<lambda>(i, name). Node_Offline i name) found
    \<and> sv_db (snd (mark_offline no_faults after found flipped s)) =
        change_nodes (\<lambda>n. nd_id n \<in> fst ` set found \<and> stale (sv_db s) after n) (\<lambda>n. n\<lparr>nd_status := ''offline''\<rparr>) (sv_db s)"
  using assms
proof (induction found arbitrary: flipped s)
  case Nil
  then show ?case by (simp add: change_nodes_def)
next
  case (Cons x rest)
  obtain i name where x: "x = (i, name)" by (cases x)
  let ?hit = "\<lambda>n. nd_id n = i \<and> stale (sv_db s) after n"
  let ?off = "\<lambda>n. n\<lparr>nd_status := ''offline''\<rparr>"
  let ?s1 = "publish_node_event i (notify_offline i name (with_db (change_nodes ?hit ?off) s))"
  have st: "stale (sv_db ?s1) after = stale (sv_db s) after"
    by (rule stale_now) simp
  have id: "map nd_id (db_nodes (sv_db ?s1)) = map nd_id (db_nodes (sv_db s))"
    by (simp add: comp_def)
  have ex: "\<forall>(j, name) \<in> set rest. \<exists>n \<in> set (db_nodes (sv_db ?s1)). nd_id n = j \<and> stale (sv_db ?s1) after n"
  proof (intro ballI, clarify)
    fix j m
    assume j: "(j, m) \<in> set rest"
    with Cons.prems(3) obtain n where n: "n \<in> set (db_nodes (sv_db s))" "nd_id n = j" "stale (sv_db s) after n"
      unfolding st by fastforce
    from j Cons.prems(2) have "j \<noteq> i" by (auto simp: x image_iff)
    with n have "n \<in> set (db_nodes (sv_db ?s1))" by (auto simp: image_iff)
    with n show "\<exists>n \<in> set (db_nodes (sv_db ?s1)). nd_id n = j \<and> stale (sv_db ?s1) after n"
      unfolding st by blast
  qed
  have h: "list_ex ?hit (db_nodes (sv_db s))"
    using Cons.prems(3) by (auto simp: x list_ex_iff)
  have step: "mark_offline no_faults after (x # rest) flipped s = mark_offline no_faults after rest (flipped @ [(i, name)]) ?s1"
    using h by (simp add: x)
  have d: "distinct (map nd_id (db_nodes (sv_db ?s1)))" "distinct (map fst rest)"
    using Cons.prems(1) [folded id] Cons.prems(2) by simp_all
  have off: "\<not> stale (sv_db s) after (n\<lparr>nd_status := ''offline'', nd_updated_at := t\<rparr>)" for n t
    by (simp add: stale_def)
  have eq: "change_nodes (\<lambda>n. nd_id n \<in> fst ` set rest \<and> stale (sv_db s) after n) ?off (change_nodes ?hit ?off (sv_db s))
      = change_nodes (\<lambda>n. nd_id n \<in> fst ` set (x # rest) \<and> stale (sv_db s) after n) ?off (sv_db s)"
  proof -
    have "map (\<lambda>n. if nd_id n \<in> fst ` set rest \<and> stale (sv_db s) after n then n\<lparr>nd_status := ''offline'', nd_updated_at := t\<rparr> else n)
          (map (\<lambda>n. if ?hit n then n\<lparr>nd_status := ''offline'', nd_updated_at := t\<rparr> else n) ns)
        = map (\<lambda>n. if nd_id n \<in> fst ` set (x # rest) \<and> stale (sv_db s) after n
            then n\<lparr>nd_status := ''offline'', nd_updated_at := t\<rparr> else n) ns" for ns t
      by (induction ns) (auto simp: x off)
    then show ?thesis
      by (simp add: change_nodes_def del: map_map cong: if_cong)
  qed
  show ?case
    unfolding step using Cons.IH [of ?s1 "flipped @ [(i, name)]", OF d ex]
    unfolding st using eq by (simp add: x)
qed

subsection \<open>Old statistics\<close>

lemma delete_batch_facts:
  "delete_batch k old rows = (n, rest) \<Longrightarrow>
   n = min k (length (filter old rows)) \<and> filter (\<lambda>r. \<not> old r) rest = filter (\<lambda>r. \<not> old r) rows
   \<and> length (filter old rest) = length (filter old rows) - n \<and> set rest \<subseteq> set rows"
  by (induction k old rows arbitrary: n rest rule: delete_batch.induct) (auto split: if_splits prod.splits)

lemma delete_old_step:
  "delete_batch BATCH old rows = (n, left) \<Longrightarrow> \<not> fault k \<Longrightarrow>
   delete_old fault old k removed rows =
     (if n < BATCH then (Inr (removed + n), left, k + 1) else delete_old fault old (k + 1) (removed + n) left)"
  by (subst delete_old.simps) simp

lemma delete_old_keeps_new:
  "delete_old fault old k removed rows = (r, rest, m) \<Longrightarrow>
   filter (\<lambda>r. \<not> old r) rest = filter (\<lambda>r. \<not> old r) rows \<and> set rest \<subseteq> set rows"
proof (induction fault old k removed rows arbitrary: r rest m rule: delete_old.induct)
  case (1 fault old k removed rows)
  obtain n left where b: "delete_batch BATCH old rows = (n, left)" by fastforce
  show ?case
  proof (cases "fault k \<or> n < BATCH")
    case True
    with 1(2) delete_batch_facts [OF b] show ?thesis
      by (auto simp: delete_old.simps [of fault] b split: if_splits)
  next
    case False
    with 1(2) have "delete_old fault old (k + 1) (removed + n) left = (r, rest, m)"
      by (simp add: delete_old.simps [of fault old k] b)
    from 1(1) [OF _ b [symmetric] _ this] False delete_batch_facts [OF b] show ?thesis by auto
  qed
qed

lemma filter_none: "length (filter old xs) = 0 \<Longrightarrow> filter (\<lambda>r. \<not> old r) xs = xs"
  by (auto simp: filter_empty_conv filter_id_conv)

lemma delete_old_total:
  "(\<And>j. \<not> fault j) \<Longrightarrow>
   delete_old fault old k removed rows =
     (Inr (removed + length (filter old rows)), filter (\<lambda>r. \<not> old r) rows, k + 1 + length (filter old rows) div BATCH)"
proof (induction fault old k removed rows rule: delete_old.induct)
  case (1 fault old k removed rows)
  obtain n left where b: "delete_batch BATCH old rows = (n, left)" by fastforce
  note f = delete_batch_facts [OF b]
  show ?case
  proof (cases "n < BATCH")
    case True
    with f have "n = length (filter old rows)" "length (filter old rows) < BATCH" "length (filter old left) = 0" by auto
    with True f filter_none [of old left] 1(2) show ?thesis
      by (simp add: delete_old_step [OF b])
  next
    case False
    with f have n: "n = BATCH" "length (filter old rows) = BATCH + length (filter old left)"
      "filter (\<lambda>r. \<not> old r) left = filter (\<lambda>r. \<not> old r) rows" by auto
    have "delete_old fault old (k + 1) (removed + n) left =
        (Inr (removed + n + length (filter old left)), filter (\<lambda>r. \<not> old r) left, k + 1 + 1 + length (filter old left) div BATCH)"
      by (rule 1(1) [OF _ b [symmetric]]) (use False 1(2) in simp_all)
    moreover have "(BATCH + length (filter old left)) div BATCH = 1 + length (filter old left) div BATCH"
      by (simp add: BATCH_def)
    ultimately show ?thesis
      using False n 1(2) [of k] by (simp add: delete_old_step [OF b])
  qed
qed

subsection \<open>Credentials\<close>

definition can_issue :: "panel_env \<Rightarrow> panel_db \<Rightarrow> int \<Rightarrow> bool" where
  "can_issue pe db tid = list_all (\<lambda>h. pe_issue pe tid (hp_ordinal h) \<noteq> None) (list_for_tunnel db tid)"

lemma send_credentials_outcome:
  "fst (send_credentials pe tid hs p) = list_all (\<lambda>h. pe_issue pe tid (hp_ordinal h) \<noteq> None) hs
   \<and> pn_db (snd (send_credentials pe tid hs p)) = pn_db p"
  by (induction hs arbitrary: p) (auto simp: credentials_command_def split: option.split)

lemma restart_each_outcome:
  "(\<exists>b. fst (restart_each no_faults rs any p) = Inr b) \<and> pn_db (snd (restart_each no_faults rs any p)) = pn_db p"
proof (induction rs arbitrary: any p)
  case Nil
  then show ?case by simp
next
  case (Cons r rs)
  have "\<exists>b. fst (dispatch_rule_restart no_faults r p) = Inr b"
    by (auto simp: dispatch_rule_restart_def rule_target_nodes_def tunnel_node_ids_def split: option.split prod.split)
  then obtain b where b: "fst (dispatch_rule_restart no_faults r p) = Inr b" by blast
  obtain p1 where d: "dispatch_rule_restart no_faults r p = (Inr b, p1)"
    using b by (cases "dispatch_rule_restart no_faults r p") auto
  with send_frame(5) [of no_faults r p] have "pn_db p1 = pn_db p" by simp
  with Cons d show ?case by simp
qed

text \<open>Sending in sequence, and what a channel then holds: what was queued and the commands for its node that fit.\<close>

lemma dispatch_each_Cons: "snd (dispatch_each ((n, c) # xs) d) = snd (dispatch_each xs (snd (dispatch n c d)))"
  by (simp split: prod.split)

lemma dispatch_each_append:
  "snd (dispatch_each (xs @ ys) d) = snd (dispatch_each ys (snd (dispatch_each xs d)))"
  by (induction xs arbitrary: d) (auto simp: dispatch_each_Cons simp del: dispatch_each.simps(2))

lemma dispatch_cell:
  assumes "dispatcher_inv d" "hm_get (dp_channels d) n = Some g"
  shows "hm_get (dp_channels (snd (dispatch m c d))) n = Some g"
    "ch_queue (dp_cells (snd (dispatch m c d)) ! g) = ch_queue (dp_cells d ! g)
      @ (if m = n \<and> length (ch_queue (dp_cells d ! g)) < CHANNEL_CAPACITY then [c] else [])"
proof -
  have g: "g < length (dp_cells d)" "ch_open (dp_cells d ! g)" "ch_node (dp_cells d ! g) = n"
    using assms by (simp_all add: dispatcher_inv_def)
  have other: "g' \<noteq> g" if "hm_get (dp_channels d) m = Some g'" "m \<noteq> n" for g'
    using that assms(1) g(3) by (auto simp: dispatcher_inv_def)
  show "hm_get (dp_channels (snd (dispatch m c d))) n = Some g"
    using assms(2) by (simp add: dispatch_def try_send_cell_def split: option.split)
  show "ch_queue (dp_cells (snd (dispatch m c d)) ! g) = ch_queue (dp_cells d ! g)
      @ (if m = n \<and> length (ch_queue (dp_cells d ! g)) < CHANNEL_CAPACITY then [c] else [])"
  proof (cases "m = n")
    case True
    with assms(2) g show ?thesis by (simp add: dispatch_def try_send_cell_def)
  next
    case False
    with other show ?thesis by (auto simp: dispatch_def try_send_cell_def split: option.split)
  qed
qed

lemma dispatch_each_queue:
  assumes "dispatcher_inv d" "hm_get (dp_channels d) n = Some g"
  shows "ch_queue (dp_cells (snd (dispatch_each ncs d)) ! g) = ch_queue (dp_cells d ! g)
    @ take (CHANNEL_CAPACITY - length (ch_queue (dp_cells d ! g))) (map snd (filter (\<lambda>x. fst x = n) ncs))"
  using assms
proof (induction ncs arbitrary: d)
  case (Cons x ncs)
  obtain m c where x: "x = (m, c)" by (cases x)
  let ?d = "snd (dispatch m c d)" and ?q = "ch_queue (dp_cells d ! g)"
  note step = dispatch_cell [OF Cons.prems, of m c]
  from Cons.IH [OF dispatch_inv [OF Cons.prems(1)] step(1)]
  have IH: "ch_queue (dp_cells (snd (dispatch_each (x # ncs) d)) ! g) = ch_queue (dp_cells ?d ! g)
      @ take (CHANNEL_CAPACITY - length (ch_queue (dp_cells ?d ! g))) (map snd (filter (\<lambda>x. fst x = n) ncs))"
    by (simp add: x dispatch_each_Cons del: dispatch_each.simps)
  show ?case
  proof (cases "m = n \<and> length ?q < CHANNEL_CAPACITY")
    case True
    then have "CHANNEL_CAPACITY - length ?q = Suc (CHANNEL_CAPACITY - Suc (length ?q))"
      using Suc_diff_Suc [of "length ?q" CHANNEL_CAPACITY] by simp
    with True IH step(2) show ?thesis by (simp add: x del: dispatch_each.simps)
  next
    case False
    with IH step(2) show ?thesis by (auto simp: x simp del: dispatch_each.simps)
  qed
qed simp

text \<open>
  What a rotation sends for a tunnel: its credentials to every hop, in the order of the hops, then a restart of
  every live rule of the tunnel to every hop; when a certificate cannot be issued, the credentials of the hops before only.
\<close>

definition hop_credentials :: "panel_env \<Rightarrow> int \<Rightarrow> hop_row \<Rightarrow> int \<times> command" where
  "hop_credentials pe tid h = (hp_node_id h, the (credentials_command pe tid (hp_ordinal h)))"

definition restarts :: "panel_db \<Rightarrow> int \<Rightarrow> (int \<times> command) list" where
  "restarts db tid = concat (map (\<lambda>i. map (\<lambda>h. (hp_node_id h, restart_command i)) (list_for_tunnel db tid))
     (map dr_id (list_active_for_tunnel db tid)))"

definition rotation_sends :: "panel_env \<Rightarrow> panel_db \<Rightarrow> int \<Rightarrow> (int \<times> command) list" where
  "rotation_sends pe db tid =
     (if can_issue pe db tid
      then map (hop_credentials pe tid) (list_for_tunnel db tid) @ restarts db tid
      else map (hop_credentials pe tid) (takeWhile (\<lambda>h. pe_issue pe tid (hp_ordinal h) \<noteq> None) (list_for_tunnel db tid)))"

lemma rotation_sends_cong:
  assumes "db_hops d = db_hops e" "db_rules d = db_rules e"
  shows "rotation_sends pe d = rotation_sends pe e"
proof -
  have h: "list_for_tunnel d = list_for_tunnel e"
    by (simp add: list_for_tunnel_def fun_eq_iff assms)
  have "map dr_id (list_active_for_tunnel d t) = map dr_id (list_active_for_tunnel e t)" for t
    by (simp add: list_active_for_tunnel_def select_rule_def assms comp_def)
  then have "restarts d = restarts e"
    unfolding restarts_def h by simp
  with h show ?thesis
    by (simp add: rotation_sends_def can_issue_def fun_eq_iff)
qed

lemma send_credentials_sends:
  "pn_dispatcher (snd (send_credentials pe tid hs p)) = snd (dispatch_each
     (map (hop_credentials pe tid) (takeWhile (\<lambda>h. pe_issue pe tid (hp_ordinal h) \<noteq> None) hs)) (pn_dispatcher p))"
proof (induction hs arbitrary: p)
  case (Cons h hs)
  show ?case
  proof (cases "pe_issue pe tid (hp_ordinal h)")
    case None
    then show ?thesis by (simp add: credentials_command_def)
  next
    case (Some c)
    with Cons.IH show ?thesis
      by (simp add: credentials_command_def hop_credentials_def send_each_def dispatch_each_Cons split: prod.split)
  qed
qed simp

lemma restart_each_sends:
  assumes "\<forall>r \<in> set rs. dr_tunnel_id r = Some tid"
  shows "pn_dispatcher (snd (restart_each no_faults rs any p)) = snd (dispatch_each
     (concat (map (\<lambda>i. map (\<lambda>h. (hp_node_id h, restart_command i)) (list_for_tunnel (pn_db p) tid)) (map dr_id rs))) (pn_dispatcher p))"
  using assms
proof (induction rs arbitrary: any p)
  case (Cons r rs)
  let ?ncs = "map (\<lambda>h. (hp_node_id h, restart_command (dr_id r))) (list_for_tunnel (pn_db p) tid)"
  obtain oks d where o: "dispatch_each ?ncs (pn_dispatcher p) = (oks, d)" by fastforce
  then have "dispatch_rule_restart no_faults r p = (Inr (list_ex id oks), p\<lparr>pn_dispatcher := d\<rparr>)"
    using Cons.prems by (simp add: dispatch_rule_restart_def rule_target_nodes_def tunnel_node_ids_def comp_def)
  with Cons.IH [of "any \<or> list_ex id oks" "p\<lparr>pn_dispatcher := d\<rparr>"] Cons.prems show ?case
    by (simp add: dispatch_each_append o)
qed simp

lemma rotate_one:
  assumes "tu_transport t \<noteq> ''tcp''"
  shows "if can_issue pe (pn_db p) (tu_id t)
    then (\<exists>b p1. rotate_credentials_and_restart pe no_faults t p = (Inr b, p1) \<and> pn_db p1 = pn_db (mark_rotated (tu_id t) p)
      \<and> pn_dispatcher p1 = snd (dispatch_each (rotation_sends pe (pn_db p) (tu_id t)) (pn_dispatcher p)))
    else (\<exists>e p1. rotate_credentials_and_restart pe no_faults t p = (Inl e, p1) \<and> pn_db p1 = pn_db p
      \<and> pn_dispatcher p1 = snd (dispatch_each (rotation_sends pe (pn_db p) (tu_id t)) (pn_dispatcher p)))"
proof -
  let ?hs = "list_for_tunnel (pn_db p) (tu_id t)"
  obtain sent p1 where s: "send_credentials pe (tu_id t) ?hs p = (sent, p1)" by fastforce
  with send_credentials_outcome [of pe "tu_id t" ?hs p]
  have c: "sent = can_issue pe (pn_db p) (tu_id t)" and d: "pn_db p1 = pn_db p"
    by (simp_all add: can_issue_def)
  have n: "pn_dispatcher p1 = snd (dispatch_each (map (hop_credentials pe (tu_id t))
      (takeWhile (\<lambda>h. pe_issue pe (tu_id t) (hp_ordinal h) \<noteq> None) ?hs)) (pn_dispatcher p))"
    using send_credentials_sends [of pe "tu_id t" ?hs p] s by simp
  show ?thesis
  proof (cases sent)
    case True
    let ?p2 = "mark_rotated (tu_id t) p1"
    let ?rs = "list_active_for_tunnel (pn_db ?p2) (tu_id t)"
    let ?r = "restart_each no_faults ?rs False ?p2"
    have "rotate_credentials_and_restart pe no_faults t p = ?r"
      using assms s True by (simp add: rotate_credentials_and_restart_def dispatch_tunnel_credentials_def)
    moreover have m: "pn_db ?p2 = pn_db (mark_rotated (tu_id t) p)" "pn_dispatcher ?p2 = pn_dispatcher p1"
      by (simp_all add: mark_rotated_def d)
    moreover have "pn_dispatcher (snd ?r) = snd (dispatch_each (rotation_sends pe (pn_db p) (tu_id t)) (pn_dispatcher p))"
    proof -
      have "takeWhile (\<lambda>h. pe_issue pe (tu_id t) (hp_ordinal h) \<noteq> None) ?hs = ?hs"
        using c True by (simp add: can_issue_def list_all_iff takeWhile_eq_all_conv)
      note creds = n [unfolded this]
      have "\<forall>r \<in> set ?rs. dr_tunnel_id r = Some (tu_id t)"
        by (auto simp: set_list_active_for_tunnel)
      note sends = restart_each_sends [OF this, of False ?p2]
      have same: "list_for_tunnel (pn_db ?p2) = list_for_tunnel (pn_db p)"
        "list_active_for_tunnel (pn_db ?p2) = list_active_for_tunnel (pn_db p)"
        by (intro ext, simp add: mark_rotated_def d list_for_tunnel_def list_active_for_tunnel_def select_rule_def mbps_of_def
            cong: option.case_cong)+
      show ?thesis
        using c True sends [unfolded same m(2) creds]
        by (simp add: same rotation_sends_def restarts_def dispatch_each_append)
    qed
    ultimately show ?thesis
      using restart_each_outcome [of ?rs False ?p2] c True
      by (cases ?r) auto
  next
    case False
    with assms s c d n show ?thesis
      by (simp add: rotate_credentials_and_restart_def dispatch_tunnel_credentials_def rotation_sends_def)
  qed
qed

definition rotated :: "panel_env \<Rightarrow> panel_db \<Rightarrow> int list \<Rightarrow> tunnel_row \<Rightarrow> tunnel_row" where
  "rotated pe db ids t = (if tu_id t \<in> set ids \<and> can_issue pe db (tu_id t)
     then t\<lparr>tu_rotated_at := Some (db_now db)\<rparr> else t)"

lemma rotate_each_ok:
  assumes "distinct ids" "distinct (map tu_id (db_tunnels (pn_db p)))"
    "\<forall>i \<in> set ids. \<exists>t \<in> set (db_tunnels (pn_db p)). tu_id t = i \<and> \<not> tu_deleted t \<and> tu_transport t \<noteq> ''tcp''"
  shows "\<exists>p'. rotate_each pe no_faults after ids k p = (Inr (k + length (filter (can_issue pe (pn_db p)) ids)), p')
    \<and> db_tunnels (pn_db p') = map (rotated pe (pn_db p) ids) (db_tunnels (pn_db p))
    \<and> db_hops (pn_db p') = db_hops (pn_db p) \<and> db_now (pn_db p') = db_now (pn_db p)
    \<and> pn_dispatcher p' = snd (dispatch_each (concat (map (rotation_sends pe (pn_db p)) ids)) (pn_dispatcher p))"
  using assms
proof (induction ids arbitrary: k p)
  case Nil
  then show ?case by (simp add: rotated_def)
next
  case (Cons i ids)
  from Cons.prems(3) obtain t where t: "t \<in> set (db_tunnels (pn_db p))" "tu_id t = i" "\<not> tu_deleted t" "tu_transport t \<noteq> ''tcp''"
    by auto
  have f: "find_tunnel (pn_db p) i = Some t"
    using find_ids [OF Cons.prems(2) t(1), of "\<lambda>t. \<not> tu_deleted t"] t by (simp add: find_tunnel_def)
  show ?case
  proof (cases "can_issue pe (pn_db p) i")
    case True
    with rotate_one [OF t(4), of pe p] t(2)
    obtain b p1 where p1: "rotate_credentials_and_restart pe no_faults t p = (Inr b, p1)" "pn_db p1 = pn_db (mark_rotated i p)"
        "pn_dispatcher p1 = snd (dispatch_each (rotation_sends pe (pn_db p) i) (pn_dispatcher p))"
      by auto
    define p2 where "p2 = record_plain no_faults None ''tunnel.creds_rotated'' (Some ''tunnel'') (Some i)
      (Some (''auto rotation after '' @ show_int after @ ''s; dispatched='' @ show_bool b)) True None p1"
    have d: "db_tunnels (pn_db p2) = map (\<lambda>t. if tu_id t = i then t\<lparr>tu_rotated_at := Some (db_now (pn_db p))\<rparr> else t) (db_tunnels (pn_db p))"
        "db_hops (pn_db p2) = db_hops (pn_db p)" "db_now (pn_db p2) = db_now (pn_db p)" "db_rules (pn_db p2) = db_rules (pn_db p)"
        "pn_dispatcher p2 = pn_dispatcher p1"
      by (simp_all add: p2_def record_plain_def p1(2) mark_rotated_def)
        (simp add: record_with_ip_def p1(2) mark_rotated_def)
    then have c: "can_issue pe (pn_db p2) = can_issue pe (pn_db p)"
      by (simp add: can_issue_def list_for_tunnel_def fun_eq_iff)
    have dd: "map tu_id (db_tunnels (pn_db p2)) = map tu_id (db_tunnels (pn_db p))"
      by (simp add: d)
    have e: "\<forall>j \<in> set ids. \<exists>t \<in> set (db_tunnels (pn_db p2)). tu_id t = j \<and> \<not> tu_deleted t \<and> tu_transport t \<noteq> ''tcp''"
    proof
      fix j
      assume j: "j \<in> set ids"
      with Cons.prems(3) obtain u where u: "u \<in> set (db_tunnels (pn_db p))" "tu_id u = j" "\<not> tu_deleted u" "tu_transport u \<noteq> ''tcp''"
        by auto
      from j Cons.prems(1) have "j \<noteq> i" by auto
      with u have "u \<in> set (db_tunnels (pn_db p2))" by (force simp: d)
      with u show "\<exists>t \<in> set (db_tunnels (pn_db p2)). tu_id t = j \<and> \<not> tu_deleted t \<and> tu_transport t \<noteq> ''tcp''" by blast
    qed
    have step: "rotate_each pe no_faults after (i # ids) k p = rotate_each pe no_faults after ids (k + 1) p2"
      using f p1(1) by (simp add: p2_def)
    have sends: "rotation_sends pe (pn_db p2) = rotation_sends pe (pn_db p)"
      by (rule rotation_sends_cong) (simp_all add: d)
    have m: "map (rotated pe (pn_db p2) ids) (db_tunnels (pn_db p2)) = map (rotated pe (pn_db p) (i # ids)) (db_tunnels (pn_db p))"
      using True by (auto simp: rotated_def c d)
    have di: "distinct ids" using Cons.prems(1) by simp
    show ?thesis
      unfolding step using Cons.IH [OF di Cons.prems(2) [folded dd] e, of "k + 1"] True
      unfolding m c d(2,3,5) sends p1(3) by (simp add: dispatch_each_append)
  next
    case False
    with rotate_one [OF t(4), of pe p] t(2)
    obtain e p1 where p1: "rotate_credentials_and_restart pe no_faults t p = (Inl e, p1)" "pn_db p1 = pn_db p"
        "pn_dispatcher p1 = snd (dispatch_each (rotation_sends pe (pn_db p) i) (pn_dispatcher p))"
      by auto
    have step: "rotate_each pe no_faults after (i # ids) k p = rotate_each pe no_faults after ids k p1"
      using f p1(1) by simp
    have m: "rotated pe (pn_db p) (i # ids) = rotated pe (pn_db p) ids"
      using False by (auto simp: rotated_def fun_eq_iff)
    show ?thesis
      unfolding step using Cons.IH [of p1 k] Cons.prems False
      unfolding m p1(2,3) by (simp add: dispatch_each_append)
  qed
qed

section \<open>Properties\<close>

text \<open>A server that has not heard of node 1 and has just heard of node 2.\<close>

definition sample_watch :: server where
  "sample_watch = \<lparr>sv_panel = \<lparr>pn_db = sample_db\<lparr>db_now := 1000, db_nodes := [sample_node 1 ''1.1.1.1'',
       (sample_node 2 ''2.2.2.2'')\<lparr>nd_last_seen := Some 990\<rparr>]\<rparr>, pn_dispatcher = dispatcher_new\<rparr>,
     sv_sessions = [], sv_crl = [], sv_events = [], sv_notified = [], sv_agent_sessions = [], sv_probe_seq = 0,
     sv_waiters = [], sv_results = []\<rparr>"

lemma mark_found:
  assumes "distinct (map nd_id (db_nodes (sv_db s)))"
  obtains s1 where "mark_offline no_faults after (stale_nodes (sv_db s) after) [] s = (Inr (stale_nodes (sv_db s) after), s1)"
    "sv_notified s1 = sv_notified s @ map (\<lambda>(i, name). Node_Offline i name) (stale_nodes (sv_db s) after)"
    "db_nodes (sv_db s1) = map (\<lambda>n. if stale (sv_db s) after n \<and> \<not> nd_deleted n
       then n\<lparr>nd_status := ''offline'', nd_updated_at := db_now (sv_db s)\<rparr> else n) (db_nodes (sv_db s))"
    "db_now (sv_db s1) = db_now (sv_db s)"
proof -
  let ?off = "\<lambda>n. n\<lparr>nd_status := ''offline''\<rparr>" and ?found = "stale_nodes (sv_db s) after"
  let ?hit = "\<lambda>n. stale (sv_db s) after n \<and> \<not> nd_deleted n"
  obtain r s1 where r: "mark_offline no_faults after ?found [] s = (r, s1)" by fastforce
  have d: "distinct (map fst ?found)"
    using distinct_map_filter [OF assms] by (simp add: stale_nodes_def comp_def)
  have e: "\<forall>(i, name) \<in> set ?found. \<exists>n \<in> set (db_nodes (sv_db s)). nd_id n = i \<and> stale (sv_db s) after n"
    by (auto simp: stale_nodes_def)
  from mark_offline_all [OF assms d e, of "[]"] r
  have f: "r = Inr ?found" "sv_notified s1 = sv_notified s @ map (\<lambda>(i, name). Node_Offline i name) ?found"
    and db: "sv_db s1 = change_nodes (\<lambda>n. nd_id n \<in> fst ` set ?found \<and> stale (sv_db s) after n) ?off (sv_db s)"
    by simp_all
  have "nd_id n \<in> fst ` set ?found \<and> stale (sv_db s) after n \<longleftrightarrow> ?hit n" if "n \<in> set (db_nodes (sv_db s))" for n
  proof -
    have "\<not> nd_deleted n" if "m \<in> set (db_nodes (sv_db s))" "nd_id m = nd_id n" "\<not> nd_deleted m" for m
      using that \<open>n \<in> _\<close> assms by (metis distinct_map inj_onD)
    with that show ?thesis
      by (force simp: stale_nodes_def image_iff)
  qed
  then have "db_nodes (sv_db s1) = map (\<lambda>n. if ?hit n then n\<lparr>nd_status := ''offline'', nd_updated_at := db_now (sv_db s)\<rparr> else n) (db_nodes (sv_db s))"
    unfolding db by (simp cong: map_cong)
  from that [OF _ f(2) this] r f(1) db show thesis by simp
qed

lemma offline_tick_found:
  assumes "mark_offline no_faults (env_secs var 120 10) (stale_nodes (sv_db s) (env_secs var 120 10)) [] s
    = (Inr (stale_nodes (sv_db s) (env_secs var 120 10)), s1)"
  obtains s2 where "offline_tick_once no_faults var s = (Inr (length (stale_nodes (sv_db s) (env_secs var 120 10))), s2)"
    "db_nodes (sv_db s2) = db_nodes (sv_db s1)" "db_now (sv_db s2) = db_now (sv_db s1)" "sv_notified s2 = sv_notified s1"
proof (cases "stale_nodes (sv_db s) (env_secs var 120 10)")
  case Nil
  with assms that [of s] show thesis by (simp add: offline_tick_once_def)
next
  case (Cons x xs)
  let ?s2 = "audit_system no_faults ''node.offline_detected'' ''node'' None (offline_payload (x # xs)) s1"
  have "offline_tick_once no_faults var s = (Inr (length (x # xs)), ?s2)"
    using assms Cons by (simp add: offline_tick_once_def del: mark_offline.simps)
  with Cons that [of ?s2] show thesis
    by (simp add: audit_system_def sv_db_def record_plain_def record_with_ip_def)
qed

text \<open>The search for nodes that went away turns exactly the stale live nodes offline, tells the webhook about
  each of them once, in the order of the table, counts them, and leaves no live node stale; every other node keeps
  its row. (A row that was seen after the search keeps its status as well: \<open>mark_offline_rows\<close>.)\<close>

theorem offline_tick_exact:
  assumes "distinct (map nd_id (db_nodes (sv_db s)))"
  shows "\<exists>s'. offline_tick_once no_faults var s = (Inr (length (stale_nodes (sv_db s) (env_secs var 120 10))), s')
    \<and> db_nodes (sv_db s') = map (\<lambda>n. if stale (sv_db s) (env_secs var 120 10) n \<and> \<not> nd_deleted n
        then n\<lparr>nd_status := ''offline'', nd_updated_at := db_now (sv_db s)\<rparr> else n) (db_nodes (sv_db s))
    \<and> sv_notified s' = sv_notified s @ map (\<lambda>(i, name). Node_Offline i name) (stale_nodes (sv_db s) (env_secs var 120 10))
    \<and> stale_nodes (sv_db s') (env_secs var 120 10) = []"
proof -
  let ?a = "env_secs var 120 10"
  obtain s1 where s1: "mark_offline no_faults ?a (stale_nodes (sv_db s) ?a) [] s = (Inr (stale_nodes (sv_db s) ?a), s1)"
    "sv_notified s1 = sv_notified s @ map (\<lambda>(i, name). Node_Offline i name) (stale_nodes (sv_db s) ?a)"
    "db_nodes (sv_db s1) = map (\<lambda>n. if stale (sv_db s) ?a n \<and> \<not> nd_deleted n
       then n\<lparr>nd_status := ''offline'', nd_updated_at := db_now (sv_db s)\<rparr> else n) (db_nodes (sv_db s))" "db_now (sv_db s1) = db_now (sv_db s)"
    by (rule mark_found [OF assms, of ?a])
  from offline_tick_found [OF s1(1)] obtain s2
    where s2: "offline_tick_once no_faults var s = (Inr (length (stale_nodes (sv_db s) ?a)), s2)"
      "db_nodes (sv_db s2) = db_nodes (sv_db s1)" "db_now (sv_db s2) = db_now (sv_db s1)" "sv_notified s2 = sv_notified s1" .
  have "stale (sv_db s2) ?a = stale (sv_db s) ?a"
    by (rule stale_now) (simp add: s1 s2)
  then have "stale_nodes (sv_db s2) ?a = []"
    by (auto simp: stale_nodes_def filter_empty_conv stale_def s2 s1)
  with s1 s2 show ?thesis by auto
qed

lemma offline_tick_exact_witness:
  "\<exists>s'. offline_tick_once no_faults None sample_watch = (Inr 1, s')
     \<and> map nd_status (db_nodes (sv_db s')) = [''offline'', ''online''] \<and> sv_notified s' = [Node_Offline 1 ''n'']"
proof -
  have d: "distinct (map nd_id (db_nodes (sv_db sample_watch)))"
    by (simp add: sample_watch_def sv_db_def sample_node_def)
  have a: "env_secs None 120 10 = 120"
    by (simp add: env_secs_def)
  have f: "stale_nodes (sv_db sample_watch) 120 = [(1, ''n'')]"
    by (simp add: sample_watch_def sv_db_def sample_node_def stale_nodes_def stale_def)
  from offline_tick_exact [OF d, of None, unfolded a f]
  obtain s' where s': "offline_tick_once no_faults None sample_watch = (Inr (length [(1 :: int, ''n'')]), s')"
    "db_nodes (sv_db s') = map (\<lambda>n. if stale (sv_db sample_watch) 120 n \<and> \<not> nd_deleted n
        then n\<lparr>nd_status := ''offline'', nd_updated_at := db_now (sv_db sample_watch)\<rparr> else n) (db_nodes (sv_db sample_watch))"
    "sv_notified s' = sv_notified sample_watch @ map (\<lambda>(i, name). Node_Offline i name) [(1, ''n'')]"
    by (elim exE conjE) (rule that)
  have "map nd_status (db_nodes (sv_db s')) = [''offline'', ''online'']"
    unfolding s'(2) by (simp add: sample_watch_def sv_db_def sample_node_def stale_def)
  moreover have "sv_notified s' = [Node_Offline 1 ''n'']"
    using s'(3) by (simp add: sample_watch_def)
  ultimately show ?thesis
    using s'(1) by auto
qed

text \<open>C31. The clean-up removes exactly the buckets older than the configured number of days (30 when the setting is
  missing or not a positive number) and reports how many; it ends after one statement per 5000 old rows and one more
  for each of the two tables. When a statement fails on the way, or the setting cannot be read, no younger row is
  lost either.\<close>

theorem retention_exact:
  "(\<exists>db'. retention_tick_once no_faults (\<lambda>_. False) (\<lambda>_. False) db
      = (Inr (length (filter (\<lambda>x. rs_bucket_at x < retention_cutoff db) (db_rule_stats db))
              + length (filter (\<lambda>x. ns_bucket_at x < retention_cutoff db) (db_node_stats db))), db')
      \<and> db_rule_stats db' = filter (\<lambda>x. retention_cutoff db \<le> rs_bucket_at x) (db_rule_stats db)
      \<and> db_node_stats db' = filter (\<lambda>x. retention_cutoff db \<le> ns_bucket_at x) (db_node_stats db))
   \<and> snd (snd (delete_old (\<lambda>_. False) old 0 0 rows)) = length (filter old rows) div 5000 + 1
   \<and> filter (\<lambda>x. retention_cutoff db \<le> rs_bucket_at x) (db_rule_stats (snd (retention_tick_once io fr fn db)))
       = filter (\<lambda>x. retention_cutoff db \<le> rs_bucket_at x) (db_rule_stats db)
   \<and> filter (\<lambda>x. retention_cutoff db \<le> ns_bucket_at x) (db_node_stats (snd (retention_tick_once io fr fn db)))
       = filter (\<lambda>x. retention_cutoff db \<le> ns_bucket_at x) (db_node_stats db)
   \<and> 86400 \<le> db_now db - retention_cutoff db"
proof -
  obtain r rows1 m r2 rows2 m2
    where d: "delete_old fr (\<lambda>x. rs_bucket_at x < retention_cutoff db) 0 0 (db_rule_stats db) = (r, rows1, m)"
      "delete_old fn (\<lambda>x. ns_bucket_at x < retention_cutoff db) 0 0 (db_node_stats db) = (r2, rows2, m2)"
    by (meson prod_cases3)
  have "1 \<le> retention_days db"
    by (simp add: retention_days_def split: option.split)
  then have c: "86400 \<le> db_now db - retention_cutoff db"
    by (simp add: retention_cutoff_def)
  show ?thesis
    using delete_old_keeps_new [OF d(1)] delete_old_keeps_new [OF d(2)] c
    by (auto simp: retention_tick_once_def Let_def delete_old_total BATCH_def d not_less split: sum.split)
qed

lemma due_after:
  "0 < a \<Longrightarrow> db_now db' = db_now db \<Longrightarrow>
   filter (rotation_due db' a) (map (\<lambda>t. if rotation_due db a t \<and> c (tu_id t)
       then t\<lparr>tu_rotated_at := Some (db_now db)\<rparr> else t) ts)
   = filter (\<lambda>t. \<not> c (tu_id t)) (filter (rotation_due db a) ts)"
  by (induction ts) (auto simp: rotation_due_def)

text \<open>C30. A rotation tick sends, for every live encrypted tunnel that is due and in the order of their ids, the
  credentials of each hop to the hop's node, in the order of the hops, then a restart of each of the
  tunnel's live rules to every hop, and marks the tunnel, provided the certificates of all its hops can be issued. A tunnel for which
  one cannot be issued keeps its row, is found again by the next tick and does not keep the others from being rotated; its
  hops before that one are sent their credentials. Every other tunnel keeps its row, and nothing else is sent: what
  is queued for a connected node afterwards is what was queued before and, as far as the channel of 1024 places has
  room, the commands for it in this order. (No statement fails, the ids of tunnels are distinct and the dispatcher satisfies its invariant.)\<close>

theorem rotation_reaches_due:
  assumes "distinct (map tu_id (db_tunnels (pn_db p)))" "dispatcher_inv (pn_dispatcher p)"
  shows "\<exists>p'. rotate_tick_once pe no_faults var p
      = (Inr (length (filter (can_issue pe (pn_db p)) (due_tunnels (pn_db p) (env_secs var 1728000 60)))), p')
    \<and> db_tunnels (pn_db p') = map (\<lambda>t. if rotation_due (pn_db p) (env_secs var 1728000 60) t \<and> can_issue pe (pn_db p) (tu_id t)
        then t\<lparr>tu_rotated_at := Some (db_now (pn_db p))\<rparr> else t) (db_tunnels (pn_db p))
    \<and> due_tunnels (pn_db p') (env_secs var 1728000 60)
        = filter (\<lambda>i. \<not> can_issue pe (pn_db p) i) (due_tunnels (pn_db p) (env_secs var 1728000 60))
    \<and> (\<forall>n g. hm_get (dp_channels (pn_dispatcher p)) n = Some g \<longrightarrow>
        ch_queue (dp_cells (pn_dispatcher p') ! g) = ch_queue (dp_cells (pn_dispatcher p) ! g)
          @ take (1024 - length (ch_queue (dp_cells (pn_dispatcher p) ! g)))
              (map snd (filter (\<lambda>x. fst x = n) (concat (map (\<lambda>tid.
                 if can_issue pe (pn_db p) tid
                 then map (\<lambda>h. (hp_node_id h, the (credentials_command pe tid (hp_ordinal h)))) (list_for_tunnel (pn_db p) tid)
                   @ restarts (pn_db p) tid
                 else map (\<lambda>h. (hp_node_id h, the (credentials_command pe tid (hp_ordinal h))))
                   (takeWhile (\<lambda>h. credentials_command pe tid (hp_ordinal h) \<noteq> None) (list_for_tunnel (pn_db p) tid)))
               (due_tunnels (pn_db p) (env_secs var 1728000 60)))))))"
proof -
  let ?a = "env_secs var 1728000 60"
  let ?due = "due_tunnels (pn_db p) ?a"
  have i: "set ?due = {tu_id t |t. t \<in> set (db_tunnels (pn_db p)) \<and> rotation_due (pn_db p) ?a t}"
    by (auto simp: due_tunnels_def)
  have d: "distinct ?due"
    using distinct_map_filter [OF assms(1)] by (simp add: due_tunnels_def)
  have e: "\<forall>i \<in> set ?due. \<exists>t \<in> set (db_tunnels (pn_db p)). tu_id t = i \<and> \<not> tu_deleted t \<and> tu_transport t \<noteq> ''tcp''"
    unfolding i by (auto simp: rotation_due_def)
  from rotate_each_ok [OF d assms(1) e, of pe ?a 0] obtain p'
    where p': "rotate_each pe no_faults ?a ?due 0 p = (Inr (length (filter (can_issue pe (pn_db p)) ?due)), p')"
      "db_tunnels (pn_db p') = map (rotated pe (pn_db p) ?due) (db_tunnels (pn_db p))" "db_now (pn_db p') = db_now (pn_db p)"
      "pn_dispatcher p' = snd (dispatch_each (concat (map (rotation_sends pe (pn_db p)) ?due)) (pn_dispatcher p))"
    by auto
  have m: "tu_id t \<in> set ?due \<longleftrightarrow> rotation_due (pn_db p) ?a t" if "t \<in> set (db_tunnels (pn_db p))" for t
    unfolding i using that assms(1) by (auto simp: distinct_map inj_on_def)
  have rows: "db_tunnels (pn_db p') = map (\<lambda>t. if rotation_due (pn_db p) ?a t \<and> can_issue pe (pn_db p) (tu_id t)
        then t\<lparr>tu_rotated_at := Some (db_now (pn_db p))\<rparr> else t) (db_tunnels (pn_db p))"
    unfolding p'(2) by (rule map_cong) (auto simp: rotated_def m)
  have "0 < ?a"
    using env_secs_lowest [of 60 var 1728000] by simp
  then have "filter (rotation_due (pn_db p') ?a) (db_tunnels (pn_db p'))
      = filter (\<lambda>t. \<not> can_issue pe (pn_db p) (tu_id t)) (filter (rotation_due (pn_db p) ?a) (db_tunnels (pn_db p)))"
    unfolding rows using p'(3) by (rule due_after)
  then have left: "due_tunnels (pn_db p') ?a = filter (\<lambda>i. \<not> can_issue pe (pn_db p) i) ?due"
    by (simp add: due_tunnels_def filter_sort filter_map comp_def conj_commute)
  have sends: "rotation_sends pe (pn_db p) = (\<lambda>tid. if can_issue pe (pn_db p) tid
      then map (\<lambda>h. (hp_node_id h, the (credentials_command pe tid (hp_ordinal h)))) (list_for_tunnel (pn_db p) tid)
        @ restarts (pn_db p) tid
      else map (\<lambda>h. (hp_node_id h, the (credentials_command pe tid (hp_ordinal h))))
        (takeWhile (\<lambda>h. credentials_command pe tid (hp_ordinal h) \<noteq> None) (list_for_tunnel (pn_db p) tid)))"
    by (simp add: fun_eq_iff rotation_sends_def hop_credentials_def credentials_command_def)
  note queue = dispatch_each_queue [OF assms(2), of _ _ "concat (map (rotation_sends pe (pn_db p)) ?due)",
      folded p'(4), unfolded sends CHANNEL_CAPACITY_def]
  have "rotate_tick_once pe no_faults var p = rotate_each pe no_faults ?a ?due 0 p"
    by (simp add: rotate_tick_once_def Let_def)
  with p'(1) rows left queue show ?thesis
    by (intro exI [of _ p'] conjI allI impI) simp_all
qed

lemma rotation_reaches_due_witness:
  "\<exists>p'. rotate_tick_once sample_env no_faults None \<lparr>pn_db = sample_db\<lparr>db_now := 1728001\<rparr>, pn_dispatcher = snd (subscribe 1 dispatcher_new)\<rparr>
      = (Inr 1, p')
     \<and> map tu_rotated_at (db_tunnels (pn_db p')) = [Some 1728001]
     \<and> hd (ch_queue (dp_cells (pn_dispatcher p') ! 0)) = the (credentials_command sample_env 4 0)"
proof -
  let ?p = "\<lparr>pn_db = sample_db\<lparr>db_now := 1728001\<rparr>, pn_dispatcher = snd (subscribe 1 dispatcher_new)\<rparr>"
  have d: "distinct (map tu_id (db_tunnels (pn_db ?p)))"
    by (simp add: sample_db_def)
  have v: "dispatcher_inv (pn_dispatcher ?p)"
    using subscribe_inv [OF dispatcher_new_inv] by simp
  have a: "env_secs None 1728000 60 = 1728000"
    by (simp add: env_secs_def)
  have f: "due_tunnels (pn_db ?p) 1728000 = [4]" "can_issue sample_env (pn_db ?p) 4"
    by (simp_all add: due_tunnels_def rotation_due_def sample_db_def sample_tunnel_def can_issue_def sample_env_def list_all_iff)
  have g: "hm_get (dp_channels (pn_dispatcher ?p)) 1 = Some 0" "ch_queue (dp_cells (pn_dispatcher ?p) ! 0) = []"
    by (simp_all add: subscribe_def dispatcher_new_def)
  let ?sent = "map (\<lambda>h. (hp_node_id h, the (credentials_command sample_env 4 (hp_ordinal h)))) (list_for_tunnel (pn_db ?p) 4)
      @ restarts (pn_db ?p) 4"
  have "map hp_node_id (take 1 (list_for_tunnel (pn_db ?p) 4)) = [1]" "map hp_ordinal (take 1 (list_for_tunnel (pn_db ?p) 4)) = [0]"
    by code_simp+
  then obtain x rest where x: "list_for_tunnel (pn_db ?p) 4 = x # rest" "hp_node_id x = 1" "hp_ordinal x = 0"
    by (cases "list_for_tunnel (pn_db ?p) 4") simp_all
  from rotation_reaches_due [OF d v, of sample_env None, unfolded a f(1)]
  obtain p' where p': "rotate_tick_once sample_env no_faults None ?p = (Inr (length (filter (can_issue sample_env (pn_db ?p)) [4])), p')"
    "db_tunnels (pn_db p') = map (\<lambda>t. if rotation_due (pn_db ?p) 1728000 t \<and> can_issue sample_env (pn_db ?p) (tu_id t)
        then t\<lparr>tu_rotated_at := Some (db_now (pn_db ?p))\<rparr> else t) (db_tunnels (pn_db ?p))"
    "ch_queue (dp_cells (pn_dispatcher p') ! 0) = take 1024 (map snd (filter (\<lambda>x. fst x = 1) ?sent))"
    using f(2) g by fastforce
  have "map tu_rotated_at (db_tunnels (pn_db p')) = [Some 1728001]"
    unfolding p'(2) using f(2) by (simp add: sample_db_def sample_tunnel_def rotation_due_def can_issue_def)
  moreover have "hd (ch_queue (dp_cells (pn_dispatcher p') ! 0)) = the (credentials_command sample_env 4 0)"
    unfolding p'(3) x(1) by (simp add: x(2,3))
  ultimately show ?thesis
    using p'(1) f(2) by simp
qed

text \<open>An event goes to the configured address, if there is one, in at most two requests; the second one is made
  exactly when the first did not succeed, and the event arrives exactly when one of them does.\<close>

theorem webhook_attempts:
  "(case spawn_send io client_ok answer db of
      (None, ok) \<Rightarrow> \<not> ok \<and> (webhook_url io db = None \<or> \<not> client_ok)
    | (Some (url, n), ok) \<Rightarrow> webhook_url io db = Some url \<and> url \<noteq> [] \<and> 1 \<le> n \<and> n \<le> 2
        \<and> (n = 2 \<longleftrightarrow> answer 0 \<noteq> Post_Success) \<and> (ok \<longleftrightarrow> answer 0 = Post_Success \<or> answer 1 = Post_Success))"
proof -
  have u: "url \<noteq> []" if "webhook_url io db = Some url" for url
    using that by (auto simp: webhook_url_def split: if_splits option.splits)
  have p: "post_attempts answer 0 2 =
      (if answer 0 = Post_Success then (1, True) else (2, answer 1 = Post_Success))"
    by (simp add: eval_nat_numeral split: post_outcome.split)
  show ?thesis
    using u by (auto simp: spawn_send_def p split: option.split)
qed

end
