(* ===== verification/Calendar.thy ===== *)
theory Calendar
  imports Panel_Db
begin

text \<open>
  The monthly window of a traffic quota (sweeper/user_quota.rs: \<^verbatim>\<open>monthly_period_start\<close>,
  \<^verbatim>\<open>clamp_day_start\<close>, \<^verbatim>\<open>days_in_month\<close>). The dates are those of the crate \<^verbatim>\<open>chrono\<close>: the
  record \<open>calendar\<close> holds the functions the code calls, and the locale \<open>calendar_laws\<close> what its
  documentation promises of them. The proleptic Gregorian calendar is defined here too and meets the
  laws. Times are seconds since 1970.
\<close>

section \<open>The functions of the code\<close>

text \<open>\<^verbatim>\<open>with_ymd_and_hms(y, m, d, 0, 0, 0)\<close>, and the fields of a time.\<close>

record calendar =
  ca_midnight :: "int \<Rightarrow> int \<Rightarrow> int \<Rightarrow> int option"
  ca_year :: "int \<Rightarrow> int"
  ca_month :: "int \<Rightarrow> int"
  ca_day :: "int \<Rightarrow> int"

text \<open>The result is \<open>None\<close> where the code panics: a date that does not exist.\<close>

definition days_in_month :: "calendar \<Rightarrow> int \<Rightarrow> int \<Rightarrow> int option" where
  "days_in_month ca year month =
     (let (ny, nm) = (if month = 12 then (year + 1, 1) else (year, month + 1)) in
      map_option (\<lambda>first_next. ca_day ca (first_next - 86400)) (ca_midnight ca ny nm 1))"

definition clamp_day_start :: "calendar \<Rightarrow> int \<Rightarrow> int \<Rightarrow> int \<Rightarrow> int option" where
  "clamp_day_start ca year month day =
     Option.bind (days_in_month ca year month) (\<lambda>dim. ca_midnight ca year month (min day dim))"

definition monthly_period_start :: "calendar \<Rightarrow> int \<Rightarrow> int \<Rightarrow> int option" where
  "monthly_period_start ca now day =
     (let d = clamp 1 31 day; y = ca_year ca now; m = ca_month ca now in
      Option.bind (clamp_day_start ca y m d) (\<lambda>candidate.
        if candidate \<le> now then Some candidate
        else (let (py, pm) = (if m = 1 then (y - 1, 12) else (y, m - 1)) in clamp_day_start ca py pm d)))"

section \<open>What the calendar promises\<close>

text \<open>
  Months are counted through: month \<open>m\<close> of year \<open>y\<close> has the number \<open>12 y + m - 1\<close>.
\<close>

definition month_no :: "int \<Rightarrow> int \<Rightarrow> int" where
  "month_no y m = 12 * y + m - 1"

text \<open>
  Months follow each other without gap and have between 28 and 31 days; the midnights of a month
  are a day apart; a time lies in its month; and the day before the first of the next month is
  the last one of the month.
\<close>

locale calendar_laws =
  fixes ca :: calendar and first :: "int \<Rightarrow> int" and days :: "int \<Rightarrow> int"
  assumes next_month: "first (k + 1) = first k + 86400 * days k"
    and days_range: "28 \<le> days k \<and> days k \<le> 31"
    and midnight: "1 \<le> m \<Longrightarrow> m \<le> 12 \<Longrightarrow> 1 \<le> d \<Longrightarrow> d \<le> days (month_no y m) \<Longrightarrow>
      ca_midnight ca y m d = Some (first (month_no y m) + 86400 * (d - 1))"
    and month_range: "1 \<le> ca_month ca t \<and> ca_month ca t \<le> 12"
    and in_month: "first (month_no (ca_year ca t) (ca_month ca t)) \<le> t \<and> t < first (month_no (ca_year ca t) (ca_month ca t) + 1)"
    and day_of: "ca_day ca t = (t - first (month_no (ca_year ca t) (ca_month ca t))) div 86400 + 1"
begin

lemma first_less: "first k < first (k + 1)"
  using days_range [of k] by (simp add: next_month)

lemma first_add: "first k \<le> first (k + int n)"
proof (induction n)
  case (Suc n)
  have "first (k + int n) < first (k + int (Suc n))"
    using first_less [of "k + int n"] by (simp add: add_ac)
  with Suc show ?case by simp
qed simp

lemma first_mono: "j \<le> k \<Longrightarrow> first j \<le> first k"
  using first_add [of j "nat (k - j)"] by simp

lemma month_unique: "first k \<le> t \<Longrightarrow> t < first (k + 1) \<Longrightarrow> month_no (ca_year ca t) (ca_month ca t) = k"
  using in_month [of t] first_mono [of "k + 1" "month_no (ca_year ca t) (ca_month ca t)"]
    first_mono [of "month_no (ca_year ca t) (ca_month ca t) + 1" k] by linarith

lemma days_in_month:
  assumes "1 \<le> m" "m \<le> 12"
  shows "days_in_month ca y m = Some (days (month_no y m))"
proof -
  let ?k = "month_no y m" and ?t = "first (month_no y m + 1) - 86400"
  obtain ny nm where n: "(if m = 12 then (y + 1, 1) else (y, m + 1)) = (ny, nm)" by fastforce
  then have nk: "month_no ny nm = ?k + 1" and nm: "1 \<le> nm" "nm \<le> 12"
    using assms by (auto simp: month_no_def split: if_splits)
  have "ca_midnight ca ny nm 1 = Some (first (?k + 1))"
    using midnight [OF nm, of 1 ny] days_range [of "month_no ny nm"] by (simp add: nk)
  moreover have "month_no (ca_year ca ?t) (ca_month ca ?t) = ?k"
    by (rule month_unique) (use days_range [of ?k] in \<open>simp_all add: next_month\<close>)
  then have "ca_day ca ?t = days ?k"
    by (simp add: day_of next_month)
  ultimately show ?thesis
    by (simp add: days_in_month_def n)
qed

text \<open>The reset date of month number \<open>k\<close>.\<close>

definition reset_of :: "int \<Rightarrow> int \<Rightarrow> int" where
  "reset_of d k = first k + 86400 * (min d (days k) - 1)"

lemma clamp_day_start:
  assumes "1 \<le> m" "m \<le> 12" "1 \<le> d"
  shows "clamp_day_start ca y m d = Some (reset_of d (month_no y m))"
  using midnight [OF assms(1,2), of "min d (days (month_no y m))" y] days_range [of "month_no y m"] assms
  by (simp add: clamp_day_start_def days_in_month reset_of_def)

lemma reset_in_month: "1 \<le> d \<Longrightarrow> first k \<le> reset_of d k \<and> reset_of d k < first (k + 1)"
  using days_range [of k] by (auto simp: reset_of_def next_month min_def)

lemma reset_mono: "1 \<le> d \<Longrightarrow> j \<le> k \<Longrightarrow> reset_of d j \<le> reset_of d k"
  using reset_in_month [of d j] reset_in_month [of d k] first_mono [of "j + 1" k]
  by (cases "j = k") auto

lemma start_latest:
  "\<exists>start k. monthly_period_start ca now day = Some start \<and> start = reset_of (clamp 1 31 day) k
     \<and> start \<le> now \<and> (\<forall>j. reset_of (clamp 1 31 day) j \<le> now \<longrightarrow> reset_of (clamp 1 31 day) j \<le> start)"
proof -
  let ?d = "clamp 1 31 day" and ?y = "ca_year ca now" and ?m = "ca_month ca now"
  let ?k = "month_no ?y ?m"
  have d: "1 \<le> ?d" using clamp_bounds [of 1 31 day] by simp
  have c: "clamp_day_start ca ?y ?m ?d = Some (reset_of ?d ?k)"
    using clamp_day_start [OF _ _ d] month_range [of now] by simp
  have later: "now < reset_of ?d j" if "?k < j" for j
    using first_mono [of "?k + 1" j] reset_in_month [OF d, of j] in_month [of now] that by linarith
  show ?thesis
  proof (cases "reset_of ?d ?k \<le> now")
    case True
    have "reset_of ?d j \<le> reset_of ?d ?k" if "reset_of ?d j \<le> now" for j
      using later [of j] that reset_mono [OF d, of j ?k] by linarith
    with True c show ?thesis
      by (auto simp: monthly_period_start_def Let_def)
  next
    case False
    obtain py pm where p: "(if ?m = 1 then (?y - 1, 12) else (?y, ?m - 1)) = (py, pm)" by fastforce
    then have pk: "month_no py pm = ?k - 1" and pm: "1 \<le> pm" "pm \<le> 12"
      using month_range [of now] by (auto simp: month_no_def split: if_splits)
    have "monthly_period_start ca now day = Some (reset_of ?d (?k - 1))"
      using False c clamp_day_start [OF pm d, of py] by (simp add: monthly_period_start_def Let_def p pk)
    moreover have "reset_of ?d (?k - 1) \<le> now"
      using reset_in_month [OF d, of "?k - 1"] in_month [of now] by simp
    moreover have "reset_of ?d j \<le> reset_of ?d (?k - 1)" if "reset_of ?d j \<le> now" for j
    proof -
      have "j \<noteq> ?k" "\<not> ?k < j"
        using later [of j] False that by auto
      then have "j \<le> ?k - 1" by linarith
      then show ?thesis by (rule reset_mono [OF d])
    qed
    ultimately show ?thesis by blast
  qed
qed

lemma window:
  "\<exists>start y m. monthly_period_start ca now day = Some start \<and> 1 \<le> m \<and> m \<le> 12
      \<and> clamp_day_start ca y m (clamp 1 31 day) = Some start \<and> start \<le> now
      \<and> (\<forall>y' m' r. 1 \<le> m' \<longrightarrow> m' \<le> 12 \<longrightarrow> clamp_day_start ca y' m' (clamp 1 31 day) = Some r \<longrightarrow> r \<le> now \<longrightarrow> r \<le> start)"
proof -
  have d: "1 \<le> clamp 1 31 day" using clamp_bounds [of 1 31 day] by simp
  obtain start k where s: "monthly_period_start ca now day = Some start" "start = reset_of (clamp 1 31 day) k" "start \<le> now"
    and l: "\<And>j. reset_of (clamp 1 31 day) j \<le> now \<Longrightarrow> reset_of (clamp 1 31 day) j \<le> start"
    using start_latest [of now day] by auto
  have k: "month_no (k div 12) (k mod 12 + 1) = k" "1 \<le> k mod 12 + 1" "k mod 12 + 1 \<le> 12"
    by (auto simp: month_no_def)
  show ?thesis
  proof (rule exI [of _ start], rule exI [of _ "k div 12"], rule exI [of _ "k mod 12 + 1"], intro conjI allI impI)
    show "clamp_day_start ca (k div 12) (k mod 12 + 1) (clamp 1 31 day) = Some start"
      using clamp_day_start [OF k(2,3) d, of "k div 12"] s(2) k(1) by simp
    fix y' m' r
    assume "1 \<le> m'" "m' \<le> 12" "clamp_day_start ca y' m' (clamp 1 31 day) = Some r" "r \<le> now"
    then show "r \<le> start"
      using clamp_day_start [of m' "clamp 1 31 day" y'] d l [of "month_no y' m'"] by simp
  qed (use s k in simp_all)
qed

end

section \<open>The Gregorian calendar\<close>

definition leap :: "int \<Rightarrow> bool" where
  "leap y = (y mod 4 = 0 \<and> (y mod 100 \<noteq> 0 \<or> y mod 400 = 0))"

definition month_length :: "int \<Rightarrow> int \<Rightarrow> int" where
  "month_length y m = (if m = 2 then if leap y then 29 else 28 else if m \<in> set [4, 6, 9, 11] then 30 else 31)"

text \<open>Days before a year, from the beginning of year 1, and before a month within its year.\<close>

definition days_before_year :: "int \<Rightarrow> int" where
  "days_before_year y = 365 * (y - 1) + (y - 1) div 4 - (y - 1) div 100 + (y - 1) div 400"

definition days_before_month :: "int \<Rightarrow> int \<Rightarrow> int" where
  "days_before_month y m = sum_list (map (month_length y) [1..m - 1])"

text \<open>1970 begins 719162 days after year 1 did.\<close>

definition month_start :: "int \<Rightarrow> int \<Rightarrow> int" where
  "month_start y m = 86400 * (days_before_year y + days_before_month y m - 719162)"

definition year_of :: "int \<Rightarrow> int" where
  "year_of t = (let d = t div 86400 + 719162; y = 400 * d div 146097 + 1 in
     if d < days_before_year y then y - 1 else if days_before_year (y + 1) \<le> d then y + 1 else y)"

definition month_of :: "int \<Rightarrow> int" where
  "month_of t = (let y = year_of t in
     case find (\<lambda>m. t < month_start y m) [2..12] of None \<Rightarrow> 12 | Some m \<Rightarrow> m - 1)"

definition gregorian :: calendar where
  "gregorian = \<lparr>ca_midnight = (\<lambda>y m d. if 1 \<le> m \<and> m \<le> 12 \<and> 1 \<le> d \<and> d \<le> month_length y m
       then Some (month_start y m + 86400 * (d - 1)) else None),
     ca_year = year_of, ca_month = month_of,
     ca_day = (\<lambda>t. (t - month_start (year_of t) (month_of t)) div 86400 + 1)\<rparr>"

lemma div_bounds: "0 < n \<Longrightarrow> n * (x div n) \<le> x \<and> x < n * (x div n) + (n :: int)"
  using mult_div_mod_eq [of n x] pos_mod_sign [of n x] pos_mod_bound [of n x] by linarith

lemma div_pred:
  assumes "0 < n"
  shows "(y :: int) div n = (y - 1) div n + (if n dvd y then 1 else 0)"
proof (cases "n dvd y")
  case True
  then obtain q where "y = n * q" ..
  moreover have "(n * q - 1) div n = q - 1"
    by (rule int_div_pos_eq [of _ _ _ "n - 1"]) (use assms in \<open>simp_all add: algebra_simps\<close>)
  ultimately show ?thesis using assms by simp
next
  case False
  then have "1 \<le> y mod n" "y mod n < n"
    using pos_mod_sign [OF assms, of y] pos_mod_bound [OF assms, of y] by (auto simp: dvd_eq_mod_eq_0)
  then have "(y - 1) div n = y div n"
    by (intro int_div_pos_eq [of _ _ _ "y mod n - 1"]) simp_all
  with False show ?thesis by simp
qed

lemma leap_dvd: "leap y \<longleftrightarrow> 4 dvd y \<and> (\<not> 100 dvd y \<or> 400 dvd y)"
  by (simp add: leap_def dvd_eq_mod_eq_0)

lemma days_before_next_year: "days_before_year (y + 1) = days_before_year y + (if leap y then 366 else 365)"
proof -
  have n: "days_before_year (y + 1) = 365 * y + y div 4 - y div 100 + y div 400"
    by (simp add: days_before_year_def)
  have "400 dvd y \<Longrightarrow> 100 dvd y" "100 dvd y \<Longrightarrow> 4 dvd y"
    by (auto elim: dvd_trans [rotated])
  then consider "400 dvd y" "100 dvd y" "4 dvd y" | "\<not> 400 dvd y" "100 dvd y" "4 dvd y"
    | "\<not> 400 dvd y" "\<not> 100 dvd y" "4 dvd y" | "\<not> 400 dvd y" "\<not> 100 dvd y" "\<not> 4 dvd y" by blast
  then show ?thesis
  proof cases
  qed (use div_pred [of 4 y] div_pred [of 100 y] div_pred [of 400 y]
      in \<open>simp_all add: n leap_dvd days_before_year_def\<close>)
qed

lemma days_before_next_month: "1 \<le> m \<Longrightarrow> days_before_month y (m + 1) = days_before_month y m + month_length y m"
  using upto_rec2 [of 1 m] by (simp add: days_before_month_def)

lemma days_before_13: "days_before_month y 13 = (if leap y then 366 else 365)"
  by (simp add: days_before_month_def month_length_def upto.simps)

lemma days_before_1 [simp]: "days_before_month y 1 = 0"
  by (simp add: days_before_month_def)

lemma month_start_next: "1 \<le> m \<Longrightarrow> month_start y (m + 1) = month_start y m + 86400 * month_length y m"
  by (simp add: month_start_def days_before_next_month)

lemma month_start_13: "month_start y 13 = month_start (y + 1) 1"
  by (simp add: month_start_def days_before_13 days_before_next_year)

text \<open>400 years have 146097 days; a year begins within two days of its share.\<close>

lemma leap_average:
  fixes x a b c :: int
  assumes "4 * a \<le> x \<and> x < 4 * a + 4" "100 * b \<le> x \<and> x < 100 * b + 100" "400 * c \<le> x \<and> x < 400 * c + 400"
  shows "400 * (365 * x + a - b + c) \<le> 146097 * x + 396 \<and> 146097 * x - 799 \<le> 400 * (365 * x + a - b + c)"
  using assms by auto

lemma year_bracket: "month_start (year_of t) 1 \<le> t \<and> t < month_start (year_of t + 1) 1"
proof -
  define d where "d = t div 86400 + 719162"
  define y where "y = 400 * d div 146097 + 1"
  have e: "146097 * (y - 1) \<le> 400 * d \<and> 400 * d < 146097 * (y - 1) + 146097"
    using div_bounds [of 146097 "400 * d"] by (simp add: y_def)
  have n: "days_before_year (y - 1) = 365 * (y - 2) + (y - 2) div 4 - (y - 2) div 100 + (y - 2) div 400"
    "days_before_year (y + 2) = 365 * (y + 1) + (y + 1) div 4 - (y + 1) div 100 + (y + 1) div 400"
    by (simp_all add: days_before_year_def add_ac)
  have w: "days_before_year (y - 1) \<le> d" "d < days_before_year (y + 2)"
    unfolding n using e leap_average [OF div_bounds div_bounds div_bounds, of "y - 2"]
      leap_average [OF div_bounds div_bounds div_bounds, of "y + 1"] by simp_all
  have e2: "year_of t = (if d < days_before_year y then y - 1 else if days_before_year (y + 1) \<le> d then y + 1 else y)"
    unfolding year_of_def Let_def d_def y_def ..
  have s: "days_before_year (year_of t) \<le> d \<and> d < days_before_year (year_of t + 1)"
    using w unfolding e2 by (auto simp: add_ac)
  have "86400 * (d - 719162) \<le> t \<and> t < 86400 * (d - 719162) + 86400"
    using div_bounds [of 86400 t] by (simp add: d_def)
  with s show ?thesis
    by (simp add: month_start_def)
qed

lemma month_bracket:
  "1 \<le> month_of t \<and> month_of t \<le> 12
   \<and> month_start (year_of t) (month_of t) \<le> t \<and> t < month_start (year_of t) (month_of t + 1)"
proof -
  have "[2..12 :: int] = [2, 3, 4, 5, 6, 7, 8, 9, 10, 11, 12]"
    by (simp add: upto.simps)
  then show ?thesis
    using year_bracket [of t] month_start_13 [of "year_of t"]
    by (simp add: month_of_def Let_def)
qed

definition month_from :: "int \<Rightarrow> int" where
  "month_from k = month_start (k div 12) (k mod 12 + 1)"

lemma month_no_div: "1 \<le> m \<Longrightarrow> m \<le> 12 \<Longrightarrow> month_no y m div 12 = y \<and> month_no y m mod 12 = m - 1"
  using int_div_pos_eq [of "month_no y m" 12 y "m - 1"] int_mod_pos_eq [of "month_no y m" 12 y "m - 1"]
  by (simp add: month_no_def)

lemma month_from_no: "1 \<le> m \<Longrightarrow> m \<le> 12 \<Longrightarrow> month_from (month_no y m) = month_start y m"
  by (simp add: month_from_def month_no_div)

lemma succ_div:
  fixes k :: int
  shows "if k mod 12 = 11 then (k + 1) div 12 = k div 12 + 1 \<and> (k + 1) mod 12 = 0
    else (k + 1) div 12 = k div 12 \<and> (k + 1) mod 12 = k mod 12 + 1"
proof -
  have k: "k = 12 * (k div 12) + k mod 12" by simp
  show ?thesis
  proof (cases "k mod 12 = 11")
    case True
    with k have "k + 1 = 12 * (k div 12 + 1) + 0" by simp
    from int_div_pos_eq [OF this] int_mod_pos_eq [OF this] True show ?thesis by simp
  next
    case False
    from k have e: "k + 1 = 12 * (k div 12) + (k mod 12 + 1)" by simp
    have "k mod 12 + 1 < 12" "0 \<le> k mod 12 + 1"
      using False pos_mod_bound [of 12 k] pos_mod_sign [of 12 k] by linarith+
    with int_div_pos_eq [OF e] int_mod_pos_eq [OF e] False show ?thesis by simp
  qed
qed

interpretation gregorian: calendar_laws gregorian month_from "\<lambda>k. month_length (k div 12) (k mod 12 + 1)"
proof (unfold_locales, goal_cases)
  case (1 k)
  have "month_from (k + 1) = month_start (k div 12) (k mod 12 + 1 + 1)"
  proof (cases "k mod 12 = 11")
    case True
    with succ_div [of k] have "(k + 1) div 12 = k div 12 + 1" "(k + 1) mod 12 = 0" by simp_all
    with True month_start_13 [of "k div 12"] show ?thesis by (simp add: month_from_def)
  next
    case False
    with succ_div [of k] have "(k + 1) div 12 = k div 12" "(k + 1) mod 12 = k mod 12 + 1" by simp_all
    then show ?thesis by (simp add: month_from_def)
  qed
  then show ?case
    using month_start_next [of "k mod 12 + 1" "k div 12"] by (simp add: month_from_def)
next
  case (2 k)
  show ?case by (simp add: month_length_def)
next
  case (3 m d y)
  moreover have "month_no y m div 12 = y" "month_no y m mod 12 + 1 = m"
    using 3 by (simp_all add: month_no_div)
  ultimately show ?case
    by (simp add: gregorian_def month_from_no)
next
  case (4 t)
  show ?case using month_bracket [of t] by (simp add: gregorian_def)
next
  case (5 t)
  have "month_from (month_no (year_of t) (month_of t) + 1) = month_start (year_of t) (month_of t + 1)"
  proof (cases "month_of t = 12")
    case True
    then have "month_no (year_of t) (month_of t) + 1 = month_no (year_of t + 1) 1"
      by (simp add: month_no_def)
    with True show ?thesis by (simp add: month_from_no month_start_13)
  next
    case False
    have "month_no (year_of t) (month_of t) + 1 = month_no (year_of t) (month_of t + 1)"
      by (simp add: month_no_def)
    with False month_bracket [of t] show ?thesis by (simp add: month_from_no)
  qed
  with month_bracket [of t] show ?case by (simp add: gregorian_def month_from_no)
next
  case (6 t)
  show ?case using month_bracket [of t] by (simp add: gregorian_def month_from_no)
qed

section \<open>Properties\<close>

text \<open>For every calendar with the documented behaviour, every time and every day number, the start of the monthly
  window is found (no panic) and is the latest of the reset dates that are not in the future, where the reset date of
  a month is its day with that number or its last day when it is shorter.\<close>

theorem window_starts_latest:
  assumes "calendar_laws ca first days"
  shows "\<exists>start y m. monthly_period_start ca now day = Some start \<and> 1 \<le> m \<and> m \<le> 12
      \<and> clamp_day_start ca y m (clamp 1 31 day) = Some start \<and> start \<le> now
      \<and> (\<forall>y' m' r. 1 \<le> m' \<longrightarrow> m' \<le> 12 \<longrightarrow> clamp_day_start ca y' m' (clamp 1 31 day) = Some r \<longrightarrow> r \<le> now \<longrightarrow> r \<le> start)"
  by (rule calendar_laws.window [OF assms])

text \<open>On 29 April 2026 at noon, with reset day 31, the window began on 31 March.\<close>

lemma window_starts_latest_witness:
  "\<exists>start. monthly_period_start gregorian 1777464000 31 = Some start \<and> start = 1774915200 \<and> start \<le> 1777464000"
proof -
  have "monthly_period_start gregorian 1777464000 31 = Some 1774915200"
    by code_simp
  with window_starts_latest [OF gregorian.calendar_laws_axioms, of 1777464000 31] show ?thesis by auto
qed

end
