(* ===== verification/User_Quota.thy ===== *)
theory User_Quota
  imports Sweepers Calendar
begin

text \<open>
  sweeper/user_quota.rs: disabling the rules of users whose account has expired or whose traffic
  exceeds their limit. The traffic of a rule counts for its owner also after the rule was deleted;
  a rule of a live tunnel is counted with the mode and the ratio of the tunnel. The ratio is a
  rational here, so that the sum has no rounding before the final truncation.
\<close>

section \<open>The traffic of a user\<close>

definition truncated :: "rat \<Rightarrow> int" where
  "truncated x = (if x < 0 then - \<lfloor>- x\<rfloor> else \<lfloor>x\<rfloor>)"

text \<open>\<^verbatim>\<open>LEFT JOIN tunnels t ON fr.tunnel_id = t.id AND t.deleted_at IS NULL\<close>\<close>

definition tunnel_of_rule :: "panel_db \<Rightarrow> db_rule \<Rightarrow> tunnel_row option" where
  "tunnel_of_rule db r = Option.bind (dr_tunnel_id r) (find_tunnel db)"

definition billed_bucket :: "tunnel_row option \<Rightarrow> rule_stat_row \<Rightarrow> rat" where
  "billed_bucket t x =
     of_int (if map_option tu_billing_mode t = Some 1 then (if rs_tx x < rs_rx x then rs_rx x else rs_tx x)
             else rs_rx x + rs_tx x)
     * unwrap_or 1 (map_option tu_ratio t)"

text \<open>\<open>BILLED_BYTES_SUM\<close> over the buckets of the rules of a user from a time on.\<close>

definition billed_bytes :: "panel_db \<Rightarrow> int \<Rightarrow> int \<Rightarrow> int" where
  "billed_bytes db user cutoff =
     truncated (sum_list (map (\<lambda>x. case find (\<lambda>r. dr_id r = rs_rule_id x) (db_rules db) of
         None \<Rightarrow> 0
       | Some r \<Rightarrow> if dr_user_id r = user \<and> cutoff \<le> rs_bucket_at x then billed_bucket (tunnel_of_rule db r) x else 0)
       (db_rule_stats db)))"

section \<open>Disabling the rules of a user\<close>

definition change_users :: "(user_row \<Rightarrow> bool) \<Rightarrow> (user_row \<Rightarrow> user_row) \<Rightarrow> panel_db \<Rightarrow> panel_db" where
  "change_users p f db = db\<lparr>db_users := map (\<lambda>u. if p u then f u else u) (db_users db)\<rparr>"

definition rule_on :: "int \<Rightarrow> db_rule \<Rightarrow> bool" where
  "rule_on user r = (dr_user_id r = user \<and> dr_enabled r = 1 \<and> \<not> dr_deleted r)"

fun dispatch_disabled :: "panel_env \<Rightarrow> query_faults \<Rightarrow> int list \<Rightarrow> panel \<Rightarrow> panel" where
  "dispatch_disabled pe io [] p = p"
| "dispatch_disabled pe io (i # is) p =
     (if io (''find_rule '' @ show_int i) then dispatch_disabled pe io is p
      else (case find_rule (pn_db p) i of
              Some r \<Rightarrow> dispatch_disabled pe io is (snd (dispatch_rule_apply pe io r p))
            | None \<Rightarrow> dispatch_disabled pe io is p))"

text \<open>
  Only the rules that were found are changed: \<open>ids\<close> is the result of the first query, the statement
  checks each of them again.
\<close>

definition disable_found :: "panel_env \<Rightarrow> query_faults \<Rightarrow> int \<Rightarrow> int list \<Rightarrow> panel \<Rightarrow> (sql_error + nat) \<times> panel" where
  "disable_found pe io user ids p =
     (let hit = (\<lambda>r. dr_id r \<in> set ids \<and> dr_enabled r = 1 \<and> \<not> dr_deleted r) in
      if ids = [] then (Inr 0, p)
      else if io (''disable_rules '' @ show_int user) then (Inl Sql_Failed, p)
      else (Inr (count_rules hit (pn_db p)),
            dispatch_disabled pe io ids
              (p\<lparr>pn_db := change_rules hit (\<lambda>r. r\<lparr>dr_enabled := 0\<rparr>) (pn_db p)\<rparr>)))"

definition disable_rules_for_user :: "panel_env \<Rightarrow> query_faults \<Rightarrow> int \<Rightarrow> panel \<Rightarrow> (sql_error + nat) \<times> panel" where
  "disable_rules_for_user pe io user p =
     (if io (''user_rules '' @ show_int user) then (Inl Sql_Failed, p)
      else disable_found pe io user (map dr_id (filter (rule_on user) (db_rules (pn_db p)))) p)"

text \<open>
  The loop both sweeps end with: every user found loses his rules, with an entry in the log and an
  event when there was one to disable. The two sweeps differ in the texts and in the event.
\<close>

definition disable_payload :: "int \<Rightarrow> nat \<Rightarrow> string \<Rightarrow> string" where
  "disable_payload user n reason =
     ''user_id='' @ show_int user @ '',disabled_rule_count='' @ show_int (int n) @ '',reason='' @ reason"

fun disable_each ::
    "panel_env \<Rightarrow> query_faults \<Rightarrow> string \<Rightarrow> string \<Rightarrow> (int \<Rightarrow> nat \<Rightarrow> notification) \<Rightarrow> int list \<Rightarrow> nat \<Rightarrow> server
     \<Rightarrow> (sql_error + nat) \<times> server" where
  "disable_each pe io action reason event [] hit s = (Inr hit, s)"
| "disable_each pe io action reason event (u # us) hit s =
     (case disable_rules_for_user pe io u (sv_panel s) of
        (Inl e, p) \<Rightarrow> (Inl e, s\<lparr>sv_panel := p\<rparr>)
      | (Inr n, p) \<Rightarrow>
          (let s1 = s\<lparr>sv_panel := p\<rparr> in
           if 0 < n then
             disable_each pe io action reason event us (hit + 1)
               ((audit_system io action ''user'' (Some u) (disable_payload u n reason) s1)
                \<lparr>sv_notified := sv_notified s1 @ [event u n]\<rparr>)
           else disable_each pe io action reason event us hit s1))"

definition has_running_rule :: "panel_db \<Rightarrow> int \<Rightarrow> bool" where
  "has_running_rule db user = list_ex (rule_on user) (db_rules db)"

section \<open>The sweeps\<close>

definition expired :: "panel_db \<Rightarrow> user_row \<Rightarrow> bool" where
  "expired db u = (\<not> us_deleted u \<and> (case us_expires_at u of None \<Rightarrow> False | Some t \<Rightarrow> t \<le> db_now db))"

definition expired_users :: "panel_db \<Rightarrow> int list" where
  "expired_users db = map us_id (filter (\<lambda>u. expired db u \<and> has_running_rule db (us_id u)) (db_users db))"

definition expiry_tick_once :: "panel_env \<Rightarrow> query_faults \<Rightarrow> server \<Rightarrow> (sql_error + nat) \<times> server" where
  "expiry_tick_once pe io s =
     (if io ''expired_users'' then (Inl Sql_Failed, s)
      else disable_each pe io ''user.expired_auto_disable_rules'' ''expired'' User_Expired (expired_users (sv_db s)) 0 s)"

text \<open>The two refreshes of the cached traffic; a date that does not exist ends the task (\<open>None\<close>).\<close>

definition refresh_rolling :: "panel_db \<Rightarrow> panel_db" where
  "refresh_rolling db = change_users (\<lambda>u. \<not> us_deleted u \<and> us_reset_day u = None)
     (\<lambda>u. u\<lparr>us_used_cached := billed_bytes db (us_id u) (db_now db - 30 * 86400), us_calculated_at := Some (db_now db)\<rparr>) db"

definition refresh_user :: "int \<Rightarrow> int \<Rightarrow> panel_db \<Rightarrow> panel_db" where
  "refresh_user i cutoff db = change_users (\<lambda>u. us_id u = i \<and> \<not> us_deleted u)
     (\<lambda>u. u\<lparr>us_used_cached := billed_bytes db i cutoff, us_calculated_at := Some (db_now db)\<rparr>) db"

definition monthly_users :: "panel_db \<Rightarrow> (int \<times> int) list" where
  "monthly_users db = List.map_filter (\<lambda>u. if us_deleted u then None else map_option (Pair (us_id u)) (us_reset_day u)) (db_users db)"

datatype tick_error = Tick_Sql sql_error | Tick_Panic

fun refresh_monthly ::
    "calendar \<Rightarrow> query_faults \<Rightarrow> int \<Rightarrow> (int \<times> int) list \<Rightarrow> panel_db \<Rightarrow> (tick_error + unit) \<times> panel_db" where
  "refresh_monthly ca io now [] db = (Inr (), db)"
| "refresh_monthly ca io now ((i, day) # rest) db = (case monthly_period_start ca now day of
     None \<Rightarrow> (Inl Tick_Panic, db)
   | Some cutoff \<Rightarrow>
       if io (''refresh_user '' @ show_int i) then (Inl (Tick_Sql Sql_Failed), db)
       else refresh_monthly ca io now rest (refresh_user i cutoff db))"

definition over_limit :: "user_row \<Rightarrow> bool" where
  "over_limit u = (\<not> us_deleted u \<and> (case us_limit_30d u of None \<Rightarrow> False | Some l \<Rightarrow> l < us_used_cached u))"

definition users_over_limit :: "panel_db \<Rightarrow> int list" where
  "users_over_limit db = map us_id (filter (\<lambda>u. over_limit u \<and> has_running_rule db (us_id u)) (db_users db))"

definition quota_tick_once ::
    "calendar \<Rightarrow> panel_env \<Rightarrow> query_faults \<Rightarrow> int \<Rightarrow> server \<Rightarrow> (tick_error + nat) \<times> server" where
  "quota_tick_once ca pe io now s =
     (if io ''refresh_rolling'' then (Inl (Tick_Sql Sql_Failed), s)
      else (let s1 = with_db refresh_rolling s in
        if io ''monthly_users'' then (Inl (Tick_Sql Sql_Failed), s1)
        else (case refresh_monthly ca io now (monthly_users (sv_db s1)) (sv_db s1) of
          (Inl e, db) \<Rightarrow> (Inl e, with_db (\<lambda>_. db) s1)
        | (Inr _, db) \<Rightarrow>
            (let s2 = with_db (\<lambda>_. db) s1 in
             if io ''users_over_limit'' then (Inl (Tick_Sql Sql_Failed), s2)
             else (case disable_each pe io ''user.quota_exceeded_auto_disable_rules'' ''quota_exceeded''
                      User_Quota_Exceeded (users_over_limit (sv_db s2)) 0 s2 of
                     (Inl e, s3) \<Rightarrow> (Inl (Tick_Sql e), s3)
                   | (Inr n, s3) \<Rightarrow> (Inr n, s3))))))"

section \<open>Disabling rules\<close>

text \<open>What is left of a table of rules when the running rules of some users are disabled.\<close>

definition disable_for :: "(int \<Rightarrow> bool) \<Rightarrow> db_rule \<Rightarrow> db_rule" where
  "disable_for bad r = (if bad (dr_user_id r) \<and> dr_enabled r = 1 \<and> \<not> dr_deleted r then r\<lparr>dr_enabled := 0\<rparr> else r)"

lemma disable_for_simps [row_simps, simp]:
  "dr_id (disable_for bad r) = dr_id r" "dr_user_id (disable_for bad r) = dr_user_id r"
  "dr_deleted (disable_for bad r) = dr_deleted r"
  by (simp_all add: disable_for_def)

lemma running_disable_for: "rule_on u (disable_for bad r) \<longleftrightarrow> rule_on u r \<and> \<not> bad u"
  by (auto simp: rule_on_def disable_for_def)

lemma dispatch_disabled_db [frame_simps, simp]: "pn_db (dispatch_disabled pe io ids p) = pn_db p"
  by (induction pe io ids p rule: dispatch_disabled.induct) (simp_all split: option.split)

lemma disable_rules_ok:
  assumes "rules_wf (pn_db p)"
  shows "\<exists>p'. disable_rules_for_user pe no_faults u p = (Inr (count_rules (rule_on u) (pn_db p)), p')
    \<and> pn_db p' = (pn_db p)\<lparr>db_rules := map (disable_for (\<lambda>x. x = u)) (db_rules (pn_db p))\<rparr>"
proof -
  let ?ids = "map dr_id (filter (rule_on u) (db_rules (pn_db p)))"
  let ?hit = "\<lambda>r. dr_id r \<in> set ?ids \<and> dr_enabled r = 1 \<and> \<not> dr_deleted r"
  have hit: "?hit r \<longleftrightarrow> rule_on u r" if "r \<in> set (db_rules (pn_db p))" for r
  proof -
    have same: "r' = r" if "r' \<in> set (db_rules (pn_db p))" "dr_id r' = dr_id r" for r'
      using assms that \<open>r \<in> _\<close> by (auto simp: rules_wf_def distinct_map inj_on_def)
    have "dr_id r \<in> set ?ids \<longleftrightarrow> rule_on u r"
    proof
      assume "dr_id r \<in> set ?ids"
      then obtain r' where "r' \<in> set (db_rules (pn_db p))" "rule_on u r'" "dr_id r' = dr_id r" by auto
      with same show "rule_on u r" by blast
    next
      assume "rule_on u r"
      with \<open>r \<in> _\<close> show "dr_id r \<in> set ?ids" by auto
    qed
    then show ?thesis by (auto simp: rule_on_def)
  qed
  have rows: "change_rules ?hit (\<lambda>r. r\<lparr>dr_enabled := 0\<rparr>) (pn_db p) = (pn_db p)\<lparr>db_rules := map (disable_for (\<lambda>x. x = u)) (db_rules (pn_db p))\<rparr>"
  proof -
    have "(if ?hit r then r\<lparr>dr_enabled := 0\<rparr> else r) = disable_for (\<lambda>x. x = u) r" if "r \<in> set (db_rules (pn_db p))" for r
      unfolding hit [OF that] by (simp add: disable_for_def rule_on_def)
    then have "map (\<lambda>r. if ?hit r then r\<lparr>dr_enabled := 0\<rparr> else r) (db_rules (pn_db p)) = map (disable_for (\<lambda>x. x = u)) (db_rules (pn_db p))"
      by (rule map_cong [OF refl])
    then show ?thesis by (simp only: change_rules_def)
  qed
  have n: "count_rules ?hit (pn_db p) = count_rules (rule_on u) (pn_db p)"
    unfolding count_rules_def by (rule arg_cong [where f = length], rule filter_cong [OF refl], rule hit)
  show ?thesis
  proof (cases "?ids = []")
    case True
    then have "filter (rule_on u) (db_rules (pn_db p)) = []" by simp
    then have "map (disable_for (\<lambda>x. x = u)) (db_rules (pn_db p)) = db_rules (pn_db p)"
      by (intro map_idI) (auto simp: filter_empty_conv rule_on_def disable_for_def)
    with True show ?thesis
      by (simp add: disable_rules_for_user_def disable_found_def count_rules_def)
  next
    case False
    then show ?thesis
      unfolding disable_rules_for_user_def disable_found_def Let_def n rows by simp
  qed
qed

text \<open>The whole loop, for distinct users that have a running rule each.\<close>

lemma disable_each_ok:
  assumes "rules_wf (sv_db s)" "distinct us" "\<forall>u \<in> set us. has_running_rule (sv_db s) u"
  shows "\<exists>s'. disable_each pe no_faults action reason event us hit s = (Inr (hit + length us), s')
    \<and> db_rules (sv_db s') = map (disable_for (\<lambda>u. u \<in> set us)) (db_rules (sv_db s))
    \<and> db_users (sv_db s') = db_users (sv_db s) \<and> db_now (sv_db s') = db_now (sv_db s)
    \<and> sv_notified s' = sv_notified s @ map (\<lambda>u. event u (count_rules (rule_on u) (sv_db s))) us"
  using assms
proof (induction us arbitrary: hit s)
  case Nil
  have "map (disable_for (\<lambda>u. False)) (db_rules (sv_db s)) = db_rules (sv_db s)"
    by (intro map_idI) (simp add: disable_for_def)
  then show ?case by simp
next
  case (Cons u us)
  obtain p where p: "disable_rules_for_user pe no_faults u (sv_panel s) = (Inr (count_rules (rule_on u) (sv_db s)), p)"
    "pn_db p = (sv_db s)\<lparr>db_rules := map (disable_for (\<lambda>x. x = u)) (db_rules (sv_db s))\<rparr>"
    using disable_rules_ok [of "sv_panel s" pe u] Cons.prems(1) by (auto simp: sv_db_def)
  have pos: "0 < count_rules (rule_on u) (sv_db s)"
    using Cons.prems(3) by (auto simp: has_running_rule_def list_ex_iff count_rules_def filter_empty_conv)
  define s2 where "s2 = (audit_system no_faults action ''user'' (Some u)
      (disable_payload u (count_rules (rule_on u) (sv_db s)) reason) (s\<lparr>sv_panel := p\<rparr>))
    \<lparr>sv_notified := sv_notified s @ [event u (count_rules (rule_on u) (sv_db s))]\<rparr>"
  have step: "disable_each pe no_faults action reason event (u # us) hit s
      = disable_each pe no_faults action reason event us (hit + 1) s2"
    using p(1) pos by (simp add: s2_def Let_def)
  have d: "db_rules (sv_db s2) = map (disable_for (\<lambda>x. x = u)) (db_rules (sv_db s))"
    "db_users (sv_db s2) = db_users (sv_db s)" "db_now (sv_db s2) = db_now (sv_db s)"
    "db_next_rule (sv_db s2) = db_next_rule (sv_db s)"
    by (simp_all add: s2_def audit_system_def sv_db_def record_plain_def record_with_ip_def p(2))
  have n: "sv_notified s2 = sv_notified s @ [event u (count_rules (rule_on u) (sv_db s))]"
    by (simp add: s2_def)
  have wf: "rules_wf (sv_db s2)"
    using Cons.prems(1) by (simp add: rules_wf_def d comp_def)
  have run: "rule_on x (disable_for (\<lambda>y. y = u) r) = rule_on x r" if "x \<noteq> u" for x r
    using that by (simp add: running_disable_for)
  have "x \<noteq> u" if "x \<in> set us" for x
    using that Cons.prems(2) by auto
  then have has: "\<forall>x \<in> set us. has_running_rule (sv_db s2) x"
    and cnt: "map (\<lambda>x. event x (count_rules (rule_on x) (sv_db s2))) us = map (\<lambda>x. event x (count_rules (rule_on x) (sv_db s))) us"
    using Cons.prems(3) run
    by (auto simp: has_running_rule_def list_ex_iff d count_rules_def filter_map comp_def)
  have comp: "map (disable_for (\<lambda>x. x \<in> set us)) (map (disable_for (\<lambda>x. x = u)) rs) = map (disable_for (\<lambda>x. x \<in> set (u # us))) rs" for rs
    by (simp add: disable_for_def)
  have dist: "distinct us" using Cons.prems(2) by simp
  show ?case
    unfolding step using Cons.IH [OF wf dist has, of "hit + 1"]
    unfolding d n cnt comp by simp
qed

section \<open>Refreshing the traffic\<close>

lemma billed_cong:
  "db_rules db = db_rules db' \<Longrightarrow> db_tunnels db = db_tunnels db' \<Longrightarrow> db_rule_stats db = db_rule_stats db' \<Longrightarrow>
   billed_bytes db = billed_bytes db'"
proof -
  assume e: "db_rules db = db_rules db'" "db_tunnels db = db_tunnels db'" "db_rule_stats db = db_rule_stats db'"
  have "find_tunnel db = find_tunnel db'"
    by (simp add: find_tunnel_def fun_eq_iff e)
  then have t: "tunnel_of_rule db = tunnel_of_rule db'"
    unfolding tunnel_of_rule_def by simp
  show ?thesis
    unfolding billed_bytes_def e t ..
qed

lemma change_users_frame [row_simps, simp]:
  "db_users (change_users p f db) = map (\<lambda>u. if p u then f u else u) (db_users db)"
  "db_rules (change_users p f db) = db_rules db" "db_tunnels (change_users p f db) = db_tunnels db"
  "db_rule_stats (change_users p f db) = db_rule_stats db" "db_now (change_users p f db) = db_now db"
  "db_next_rule (change_users p f db) = db_next_rule db"
  by (simp_all add: change_users_def)

text \<open>The window of a user: 30 days, or from the last reset date.\<close>

definition window_start :: "calendar \<Rightarrow> int \<Rightarrow> panel_db \<Rightarrow> user_row \<Rightarrow> int" where
  "window_start ca now db u = (case us_reset_day u of
     None \<Rightarrow> db_now db - 30 * 86400
   | Some d \<Rightarrow> unwrap_or 0 (monthly_period_start ca now d))"

definition refreshed :: "calendar \<Rightarrow> int \<Rightarrow> panel_db \<Rightarrow> user_row \<Rightarrow> user_row" where
  "refreshed ca now db u = (if us_deleted u then u
     else u\<lparr>us_used_cached := billed_bytes db (us_id u) (window_start ca now db u), us_calculated_at := Some (db_now db)\<rparr>)"

lemma refresh_monthly_ok:
  assumes "\<And>d. monthly_period_start ca now d \<noteq> None" "distinct (map fst xs)"
  shows "\<exists>db'. refresh_monthly ca no_faults now xs db = (Inr (), db')
    \<and> db_users db' = map (\<lambda>u. case map_of xs (us_id u) of
          Some d \<Rightarrow> if us_deleted u then u
             else u\<lparr>us_used_cached := billed_bytes db (us_id u) (unwrap_or 0 (monthly_period_start ca now d)), us_calculated_at := Some (db_now db)\<rparr>
        | None \<Rightarrow> u) (db_users db)
    \<and> db_rules db' = db_rules db \<and> db_tunnels db' = db_tunnels db \<and> db_rule_stats db' = db_rule_stats db
    \<and> db_now db' = db_now db \<and> db_next_rule db' = db_next_rule db"
  using assms(2)
proof (induction xs arbitrary: db)
  case Nil
  then show ?case by simp
next
  case (Cons x xs)
  obtain i d where x: "x = (i, d)" by (cases x)
  obtain c where c: "monthly_period_start ca now d = Some c"
    using assms(1) [of d] by auto
  let ?db1 = "refresh_user i c db"
  have b: "billed_bytes ?db1 = billed_bytes db"
    by (rule billed_cong) (simp_all add: refresh_user_def)
  have f: "db_users ?db1 = map (\<lambda>u. if us_id u = i \<and> \<not> us_deleted u
        then u\<lparr>us_used_cached := billed_bytes db i c, us_calculated_at := Some (db_now db)\<rparr> else u) (db_users db)"
      "db_rules ?db1 = db_rules db" "db_tunnels ?db1 = db_tunnels db" "db_rule_stats ?db1 = db_rule_stats db"
      "db_now ?db1 = db_now db" "db_next_rule ?db1 = db_next_rule db"
    by (simp_all add: refresh_user_def)
  have i: "map_of xs i = None"
    using Cons.prems by (simp add: x map_of_eq_None_iff)
  have dist: "distinct (map fst xs)" using Cons.prems by simp
  have step: "refresh_monthly ca no_faults now (x # xs) db = refresh_monthly ca no_faults now xs ?db1"
    by (simp add: x c)
  have users: "(case map_of xs (us_id v) of
          Some d \<Rightarrow> if us_deleted v then v
             else v\<lparr>us_used_cached := billed_bytes db (us_id v) (unwrap_or 0 (monthly_period_start ca now d)), us_calculated_at := Some (db_now db)\<rparr>
        | None \<Rightarrow> v)
      = (case map_of (x # xs) (us_id u) of
          Some d \<Rightarrow> if us_deleted u then u
             else u\<lparr>us_used_cached := billed_bytes db (us_id u) (unwrap_or 0 (monthly_period_start ca now d)), us_calculated_at := Some (db_now db)\<rparr>
        | None \<Rightarrow> u)"
    if "v = (if us_id u = i \<and> \<not> us_deleted u
        then u\<lparr>us_used_cached := billed_bytes db i c, us_calculated_at := Some (db_now db)\<rparr> else u)" for u v
    using that i by (simp add: x c split: option.split)
  show ?case
    unfolding step using Cons.IH [OF dist, of ?db1]
    unfolding b f(2-) f(1) map_map comp_def users [OF refl] .
qed

lemma map_of_monthly:
  assumes "distinct (map us_id us)" "u \<in> set us" "\<not> us_deleted u"
  shows "map_of (List.map_filter (\<lambda>u. if us_deleted u then None else map_option (Pair (us_id u)) (us_reset_day u)) us) (us_id u) = us_reset_day u"
  using assms
proof (induction us)
  case Nil
  then show ?case by simp
next
  case (Cons v us)
  have none: "map_of (List.map_filter (\<lambda>u. if us_deleted u then None else map_option (Pair (us_id u)) (us_reset_day u)) us) (us_id v) = None"
    using Cons.prems(1) by (auto simp: map_of_eq_None_iff map_filter_def split: if_splits)
  show ?case
  proof (cases "u = v")
    case True
    with none Cons.prems(3) show ?thesis by (cases "us_reset_day v") (simp_all add: map_filter_simps)
  next
    case False
    with Cons.prems have "u \<in> set us" by simp
    moreover from this Cons.prems(1) have "us_id u \<noteq> us_id v" by (auto simp: image_iff)
    ultimately have "us_id u \<noteq> us_id v" "u \<in> set us" by simp_all
    with Cons show ?thesis by (simp add: map_filter_simps split: option.split)
  qed
qed

lemma distinct_monthly:
  "distinct (map us_id us) \<Longrightarrow>
   distinct (map fst (List.map_filter (\<lambda>u. if us_deleted u then None else map_option (Pair (us_id u)) (us_reset_day u)) us))"
  by (induction us) (auto simp: map_filter_simps map_filter_def split: option.split)

lemma refresh_all:
  assumes "\<And>d. monthly_period_start ca now d \<noteq> None" "distinct (map us_id (db_users db))"
  shows "\<exists>db'. refresh_monthly ca no_faults now (monthly_users (refresh_rolling db)) (refresh_rolling db) = (Inr (), db')
    \<and> db_users db' = map (refreshed ca now db) (db_users db) \<and> db_rules db' = db_rules db
    \<and> db_now db' = db_now db \<and> db_next_rule db' = db_next_rule db"
proof -
  let ?db1 = "refresh_rolling db"
  let ?roll = "\<lambda>u. if \<not> us_deleted u \<and> us_reset_day u = None
      then u\<lparr>us_used_cached := billed_bytes db (us_id u) (db_now db - 30 * 86400), us_calculated_at := Some (db_now db)\<rparr> else u"
  have f: "db_users ?db1 = map ?roll (db_users db)" "db_rules ?db1 = db_rules db" "db_tunnels ?db1 = db_tunnels db"
      "db_rule_stats ?db1 = db_rule_stats db" "db_now ?db1 = db_now db" "db_next_rule ?db1 = db_next_rule db"
    by (simp_all add: refresh_rolling_def)
  have b: "billed_bytes ?db1 = billed_bytes db"
    by (rule billed_cong) (simp_all add: f)
  have ids: "distinct (map us_id (db_users ?db1))"
    using assms(2) unfolding f(1) map_map by (simp add: comp_def if_distrib [of us_id] cong: if_cong)
  let ?xs = "monthly_users ?db1"
  have dist: "distinct (map fst ?xs)"
    unfolding monthly_users_def by (rule distinct_monthly [OF ids])
  obtain db' where db': "refresh_monthly ca no_faults now ?xs ?db1 = (Inr (), db')"
    "db_users db' = map (\<lambda>u. case map_of ?xs (us_id u) of
          Some d \<Rightarrow> if us_deleted u then u
             else u\<lparr>us_used_cached := billed_bytes ?db1 (us_id u) (unwrap_or 0 (monthly_period_start ca now d)), us_calculated_at := Some (db_now ?db1)\<rparr>
        | None \<Rightarrow> u) (db_users ?db1)"
    "db_rules db' = db_rules db" "db_now db' = db_now db" "db_next_rule db' = db_next_rule db"
    using refresh_monthly_ok [OF assms(1) dist, of ?db1] f by auto
  have m: "map_of ?xs (us_id u) = us_reset_day u" if "u \<in> set (db_users db)" "\<not> us_deleted u" for u
  proof -
    have "?roll u \<in> set (db_users ?db1)" "\<not> us_deleted (?roll u)"
      using that by (simp_all add: f(1))
    from map_of_monthly [OF ids this] that show ?thesis
      by (cases "us_reset_day u") (simp_all add: monthly_users_def)
  qed
  have "db_users db' = map (refreshed ca now db) (db_users db)"
    unfolding db'(2) f(1) map_map b f(5)
  proof (rule map_cong [OF refl], goal_cases)
    case (1 u)
    then show ?case
    proof (cases "us_deleted u")
      case True
      then show ?thesis by (simp add: refreshed_def split: option.split)
    next
      case False
      with m [OF 1 False] show ?thesis
        by (simp add: refreshed_def window_start_def split: option.split)
    qed
  qed
  with db' show ?thesis by blast
qed

section \<open>Properties\<close>

lemma has_running_cong: "db_rules db = db_rules db' \<Longrightarrow> has_running_rule db = has_running_rule db'"
  by (simp add: has_running_rule_def fun_eq_iff)

lemma disable_for_cong:
  "(\<And>r. r \<in> set rs \<Longrightarrow> dr_enabled r = 1 \<Longrightarrow> \<not> dr_deleted r \<Longrightarrow> bad (dr_user_id r) = bad' (dr_user_id r)) \<Longrightarrow>
   map (disable_for bad) rs = map (disable_for bad') rs"
  by (intro map_cong [OF refl]) (auto simp: disable_for_def)

lemma no_running_left:
  "db_rules db' = map (disable_for bad) (db_rules db) \<Longrightarrow> bad u \<Longrightarrow> \<not> has_running_rule db' u"
  by (auto simp: has_running_rule_def list_ex_iff running_disable_for)

lemma disable_users:
  assumes "rules_wf (sv_db s)" "distinct (map us_id (db_users (sv_db s)))"
    "us = map us_id (filter (\<lambda>u. P u \<and> has_running_rule (sv_db s) (us_id u)) (db_users (sv_db s)))"
  shows "\<exists>s'. disable_each pe no_faults action reason event us 0 s = (Inr (length us), s')
    \<and> db_rules (sv_db s') = map (disable_for (\<lambda>i. \<exists>u \<in> set (db_users (sv_db s)). us_id u = i \<and> P u)) (db_rules (sv_db s))
    \<and> db_users (sv_db s') = db_users (sv_db s) \<and> db_now (sv_db s') = db_now (sv_db s)
    \<and> sv_notified s' = sv_notified s @ map (\<lambda>u. event u (count_rules (rule_on u) (sv_db s))) us"
proof -
  have d: "distinct us"
    using distinct_map_filter [OF assms(2)] by (simp add: assms(3))
  have h: "\<forall>u \<in> set us. has_running_rule (sv_db s) u"
    by (simp add: assms(3))
  have e: "map (disable_for (\<lambda>i. i \<in> set us)) (db_rules (sv_db s))
      = map (disable_for (\<lambda>i. \<exists>u \<in> set (db_users (sv_db s)). us_id u = i \<and> P u)) (db_rules (sv_db s))"
  proof (rule disable_for_cong)
    fix r
    assume "r \<in> set (db_rules (sv_db s))" "dr_enabled r = 1" "\<not> dr_deleted r"
    then have "has_running_rule (sv_db s) (dr_user_id r)"
      by (auto simp: has_running_rule_def list_ex_iff rule_on_def)
    then show "dr_user_id r \<in> set us \<longleftrightarrow> (\<exists>u \<in> set (db_users (sv_db s)). us_id u = dr_user_id r \<and> P u)"
      by (auto simp: assms(3) image_iff)
  qed
  show ?thesis
    using disable_each_ok [OF assms(1) d h, of pe action reason event 0] unfolding e by simp
qed

text \<open>A sweep for expired accounts disables every running rule of every live user whose time is over, and no other
  rule; each of these users is reported once, with the number of rules, and after the sweep none is left with a running
  rule.\<close>

theorem expiry_tick_enforces:
  assumes "rules_wf (sv_db s)" "distinct (map us_id (db_users (sv_db s)))"
  shows "\<exists>s'. expiry_tick_once pe no_faults s = (Inr (length (expired_users (sv_db s))), s')
    \<and> db_rules (sv_db s') = map (disable_for (\<lambda>i. \<exists>u \<in> set (db_users (sv_db s)). us_id u = i \<and> expired (sv_db s) u)) (db_rules (sv_db s))
    \<and> sv_notified s' = sv_notified s @ map (\<lambda>u. User_Expired u (count_rules (rule_on u) (sv_db s))) (expired_users (sv_db s))
    \<and> expired_users (sv_db s') = []"
proof -
  obtain s' where s': "expiry_tick_once pe no_faults s = (Inr (length (expired_users (sv_db s))), s')"
    "db_rules (sv_db s') = map (disable_for (\<lambda>i. \<exists>u \<in> set (db_users (sv_db s)). us_id u = i \<and> expired (sv_db s) u)) (db_rules (sv_db s))"
    "db_users (sv_db s') = db_users (sv_db s)" "db_now (sv_db s') = db_now (sv_db s)"
    "sv_notified s' = sv_notified s @ map (\<lambda>u. User_Expired u (count_rules (rule_on u) (sv_db s))) (expired_users (sv_db s))"
    using disable_users [OF assms, of "expired_users (sv_db s)" "expired (sv_db s)" pe "''user.expired_auto_disable_rules''" "''expired''" User_Expired]
    by (auto simp: expired_users_def expiry_tick_once_def)
  have "expired (sv_db s') = expired (sv_db s)"
    unfolding expired_def s'(4) ..
  then have "expired_users (sv_db s') = []"
    using no_running_left [OF s'(2)] by (auto simp: expired_users_def s'(3) filter_empty_conv)
  with s' show ?thesis by blast
qed

text \<open>C25. A sweep for quotas first brings the cached traffic of every live user up to date: the bytes of all the buckets
  of his rules (deleted rules too) since the start of his window, 30 days ago or his last monthly reset date, in the
  mode and with the ratio of the tunnel. Then it disables every running rule of exactly those live users whose traffic
  exceeds their limit; it reports exactly those of them that had a running rule, each once with the number of his running
  rules, in the order of the table, and leaves none of them with a running rule. (No statement fails.)\<close>

theorem quota_tick_enforces:
  assumes "calendar_laws ca first days" "rules_wf (sv_db s)" "distinct (map us_id (db_users (sv_db s)))"
  shows "\<exists>s'. quota_tick_once ca pe no_faults now s = (Inr (length (filter
          (\<lambda>u. over_limit (refreshed ca now (sv_db s) u) \<and> has_running_rule (sv_db s) (us_id u)) (db_users (sv_db s)))), s')
    \<and> db_users (sv_db s') = map (refreshed ca now (sv_db s)) (db_users (sv_db s))
    \<and> db_rules (sv_db s') = map (disable_for (\<lambda>i. \<exists>u \<in> set (db_users (sv_db s)). us_id u = i
          \<and> over_limit (refreshed ca now (sv_db s) u))) (db_rules (sv_db s))
    \<and> sv_notified s' = sv_notified s @ map (\<lambda>u. User_Quota_Exceeded (us_id u) (count_rules (rule_on (us_id u)) (sv_db s))) (filter
          (\<lambda>u. over_limit (refreshed ca now (sv_db s) u) \<and> has_running_rule (sv_db s) (us_id u)) (db_users (sv_db s)))
    \<and> users_over_limit (sv_db s') = []"
proof -
  let ?db = "sv_db s" and ?ref = "refreshed ca now (sv_db s)"
  have m: "monthly_period_start ca now d \<noteq> None" for d
    using calendar_laws.window [OF assms(1), of now d] by auto
  obtain db' where db': "refresh_monthly ca no_faults now (monthly_users (refresh_rolling ?db)) (refresh_rolling ?db) = (Inr (), db')"
    "db_users db' = map ?ref (db_users ?db)" "db_rules db' = db_rules ?db" "db_next_rule db' = db_next_rule ?db"
    using refresh_all [OF m assms(3)] by auto
  define s2 where "s2 = with_db (\<lambda>_. db') (with_db refresh_rolling s)"
  have sv: "sv_db s2 = db'" "sv_notified s2 = sv_notified s"
    by (simp_all add: s2_def)
  have id: "us_id (?ref u) = us_id u" for u
    by (simp add: refreshed_def)
  have wf: "rules_wf (sv_db s2)" "distinct (map us_id (db_users (sv_db s2)))"
    using assms(2,3) by (simp_all add: sv db' rules_wf_def comp_def id)
  let ?us = "users_over_limit (sv_db s2)"
  have has: "has_running_rule (sv_db s2) = has_running_rule ?db"
    by (rule has_running_cong) (simp add: sv db')
  let ?hit = "filter (\<lambda>u. over_limit (?ref u) \<and> has_running_rule ?db (us_id u)) (db_users ?db)"
  have us: "?us = map us_id ?hit"
    by (simp add: users_over_limit_def has) (simp add: sv db' filter_map comp_def id)
  have count: "count_rules p (sv_db s2) = count_rules p ?db" for p
    by (simp add: count_rules_def sv db')
  obtain s' where s': "disable_each pe no_faults ''user.quota_exceeded_auto_disable_rules'' ''quota_exceeded''
        User_Quota_Exceeded ?us 0 s2 = (Inr (length ?us), s')"
    "db_rules (sv_db s') = map (disable_for (\<lambda>i. \<exists>u \<in> set (db_users (sv_db s2)). us_id u = i \<and> over_limit u)) (db_rules (sv_db s2))"
    "db_users (sv_db s') = db_users (sv_db s2)"
    "sv_notified s' = sv_notified s2 @ map (\<lambda>u. User_Quota_Exceeded u (count_rules (rule_on u) (sv_db s2))) ?us"
    using disable_users [OF wf users_over_limit_def, of pe "''user.quota_exceeded_auto_disable_rules''" "''quota_exceeded''" User_Quota_Exceeded]
    by blast
  have t: "quota_tick_once ca pe no_faults now s = (Inr (length ?us), s')"
    using s'(1) by (simp add: quota_tick_once_def Let_def db'(1) s2_def)
  have rows: "db_rules (sv_db s') = map (disable_for (\<lambda>i. \<exists>u \<in> set (db_users ?db). us_id u = i \<and> over_limit (?ref u))) (db_rules ?db)"
    using s'(2) by (simp add: sv db' id)
  have "users_over_limit (sv_db s') = []"
    using no_running_left [OF s'(2)] by (auto simp: users_over_limit_def s'(3) filter_empty_conv)
  moreover have "sv_notified s' = sv_notified s @ map (\<lambda>u. User_Quota_Exceeded (us_id u) (count_rules (rule_on (us_id u)) ?db)) ?hit"
    unfolding s'(4) sv(2) by (simp only: us count map_map comp_def)
  moreover have "length ?us = length ?hit"
    unfolding us by simp
  moreover have "db_users (sv_db s') = map ?ref (db_users ?db)"
    by (simp add: s'(3) sv db')
  ultimately show ?thesis using t rows by auto
qed

text \<open>C32. The clean-up of statistics decides how far back a quota can look: after it, the traffic of a user is what it
  was from the start of the window or from the cut-off of the clean-up on, whichever is later. With a retention of
  less than the 30 days of the window, traffic within the window is forgotten.\<close>

theorem retention_limits_quota:
  "billed_bytes (snd (retention_tick_once no_faults (\<lambda>_. False) (\<lambda>_. False) db)) user cutoff
    = billed_bytes db user (max cutoff (retention_cutoff db))"
proof -
  let ?db' = "snd (retention_tick_once no_faults (\<lambda>_. False) (\<lambda>_. False) db)"
  have f: "db_rules ?db' = db_rules db" "db_tunnels ?db' = db_tunnels db"
      "db_rule_stats ?db' = filter (\<lambda>x. \<not> rs_bucket_at x < retention_cutoff db) (db_rule_stats db)"
    by (simp_all add: retention_tick_once_def Let_def delete_old_total)
  have t: "tunnel_of_rule ?db' = tunnel_of_rule db"
  proof -
    have "find_tunnel ?db' = find_tunnel db"
      by (simp add: find_tunnel_def fun_eq_iff f)
    then show ?thesis unfolding tunnel_of_rule_def by simp
  qed
  have s: "sum_list (map g (filter (\<lambda>x. \<not> old x) xs)) = sum_list (map (\<lambda>x. if old x then 0 else g x) xs)"
    for g :: "rule_stat_row \<Rightarrow> rat" and old xs
    by (induction xs) simp_all
  show ?thesis
    unfolding billed_bytes_def f t s
    by (rule arg_cong [where f = truncated], rule arg_cong [where f = sum_list], rule map_cong [OF refl])
      (auto split: option.split)
qed

text \<open>User 1 has an account until time 1777463000 and a limit of 100 bytes a month from day 31; his rule 7 has
  moved 200 bytes.\<close>

definition metered_user :: user_row where
  "metered_user = \<lparr>us_id = 1, us_username = ''u'', us_password_hash = ''w'', us_role = ''user'', us_expires_at = Some 1777463000,
     us_limit_30d = Some 100, us_used_cached = 0, us_calculated_at = None, us_must_change = 0, us_reset_day = Some 31,
     us_rules_quota = None, us_deleted = False\<rparr>"

definition metered_bucket :: rule_stat_row where
  "metered_bucket = \<lparr>rs_rule_id = 7, rs_bucket_at = 1777460000, rs_rx = 150, rs_tx = 50, rs_conn = 1, rs_err = 0\<rparr>"

definition metered_db :: panel_db where
  "metered_db = sample_db\<lparr>db_now := 1777464000, db_users := [metered_user], db_rule_stats := [metered_bucket]\<rparr>"

definition metered :: server where
  "metered = sample_watch\<lparr>sv_panel := \<lparr>pn_db = metered_db, pn_dispatcher = dispatcher_new\<rparr>\<rparr>"

lemma metered_wf: "rules_wf (sv_db metered)" "distinct (map us_id (db_users (sv_db metered)))"
  and metered_rules: "db_rules (sv_db metered) = [sample_rule 7 80 None, sample_rule 8 90 (Some 4)]"
  and metered_users: "db_users (sv_db metered) = [metered_user]"
  by (simp_all add: metered_def sv_db_def metered_db_def rules_wf_def sample_db_def sample_rule_def)

lemma metered_has_running: "has_running_rule (sv_db metered) 1"
  by (simp add: has_running_rule_def metered_rules rule_on_def sample_rule_def)

lemma metered_disabled:
  "bad 1 \<Longrightarrow> map dr_enabled (map (disable_for bad) (db_rules (sv_db metered))) = [0, 0]"
  by (simp add: metered_rules disable_for_def sample_rule_def)

lemma expiry_tick_enforces_witness:
  "\<exists>s'. expiry_tick_once sample_env no_faults metered = (Inr 1, s') \<and> map dr_enabled (db_rules (sv_db s')) = [0, 0]"
proof -
  have e: "expired (sv_db metered) metered_user"
    by (simp add: expired_def metered_def sv_db_def metered_db_def metered_user_def)
  then have u: "expired_users (sv_db metered) = [1]"
    using metered_has_running by (simp add: expired_users_def metered_users) (simp add: metered_user_def)
  from expiry_tick_enforces [OF metered_wf, of sample_env] obtain s'
    where s': "expiry_tick_once sample_env no_faults metered = (Inr (length (expired_users (sv_db metered))), s')"
    "db_rules (sv_db s') = map (disable_for (\<lambda>i. \<exists>u \<in> set (db_users (sv_db metered)). us_id u = i \<and> expired (sv_db metered) u)) (db_rules (sv_db metered))"
    by (elim exE conjE) (rule that)
  have "\<exists>u \<in> set (db_users (sv_db metered)). us_id u = 1 \<and> expired (sv_db metered) u"
    using e by (simp add: metered_users) (simp add: metered_user_def)
  then have "map dr_enabled (db_rules (sv_db s')) = [0, 0]"
    unfolding s'(2) by (rule metered_disabled)
  with s'(1) u show ?thesis by simp
qed

lemma quota_tick_enforces_witness:
  "\<exists>s'. quota_tick_once gregorian sample_env no_faults 1777464000 metered = (Inr 1, s')
     \<and> map us_used_cached (db_users (sv_db s')) = [200] \<and> map dr_enabled (db_rules (sv_db s')) = [0, 0]"
proof -
  have w: "window_start gregorian 1777464000 (sv_db metered) metered_user = 1774915200"
  proof -
    have "monthly_period_start gregorian 1777464000 31 = Some 1774915200" by code_simp
    then show ?thesis by (simp add: window_start_def metered_user_def)
  qed
  have b: "billed_bytes (sv_db metered) 1 1774915200 = 200"
    by (simp add: billed_bytes_def metered_rules)
      (simp add: metered_def sv_db_def metered_db_def metered_bucket_def sample_rule_def tunnel_of_rule_def billed_bucket_def truncated_def)
  have used: "us_used_cached (refreshed gregorian 1777464000 (sv_db metered) metered_user) = 200"
    unfolding refreshed_def w using b by (simp add: metered_user_def)
  have keep: "us_id (refreshed gregorian 1777464000 (sv_db metered) metered_user) = 1"
    "us_limit_30d (refreshed gregorian 1777464000 (sv_db metered) metered_user) = Some 100"
    "\<not> us_deleted (refreshed gregorian 1777464000 (sv_db metered) metered_user)"
    by (simp_all add: refreshed_def metered_user_def)
  then have over: "over_limit (refreshed gregorian 1777464000 (sv_db metered) metered_user)"
    using used by (simp add: over_limit_def)
  have i: "us_id metered_user = 1" by (simp add: metered_user_def)
  from quota_tick_enforces [OF gregorian.calendar_laws_axioms metered_wf, of sample_env 1777464000] obtain s'
    where s': "quota_tick_once gregorian sample_env no_faults 1777464000 metered = (Inr (length (filter
          (\<lambda>u. over_limit (refreshed gregorian 1777464000 (sv_db metered) u) \<and> has_running_rule (sv_db metered) (us_id u))
          (db_users (sv_db metered)))), s')"
    "db_users (sv_db s') = map (refreshed gregorian 1777464000 (sv_db metered)) (db_users (sv_db metered))"
    "db_rules (sv_db s') = map (disable_for (\<lambda>i. \<exists>u \<in> set (db_users (sv_db metered)). us_id u = i
        \<and> over_limit (refreshed gregorian 1777464000 (sv_db metered) u))) (db_rules (sv_db metered))"
    by (elim exE conjE) (rule that)
  have "map dr_enabled (db_rules (sv_db s')) = [0, 0]"
    unfolding s'(3) by (rule metered_disabled) (simp add: metered_users i over)
  with s'(1,2) show ?thesis
    by (simp add: metered_users i over metered_has_running used)
qed

end
