(* ===== verification/Users_Api.thy ===== *)
theory Users_Api
  imports User_Quota Rules_Props "HOL-Library.List_Lexorder" "HOL-Library.Char_ord"
begin

text \<open>
  routes/users.rs with the statements of models/user.rs and models/grant.rs: the accounts and what
  they may use. Strings are lists of ASCII characters, so that bytes and characters count the same.
  Reading a date (\<^verbatim>\<open>util::normalize_datetime\<close>) and hashing a password are arguments.
\<close>

section \<open>Data\<close>

record user_env =
  ue_datetime :: "string \<Rightarrow> int option"
  ue_hash :: "string \<Rightarrow> string option"

record user_view =
  uv_id :: int
  uv_username :: string
  uv_role :: string
  uv_rule_count :: int
  uv_total_traffic :: int
  uv_expires_at :: "int option"
  uv_limit_30d :: "int option"
  uv_used_cached :: int
  uv_calculated_at :: "int option"
  uv_remaining :: "int option"
  uv_reset_day :: "int option"
  uv_rules_quota :: "int option"

definition remaining :: "int option \<Rightarrow> int \<Rightarrow> int option" where
  "remaining limit used = map_option (\<lambda>l. max (l - used) 0) limit"

definition user_view_of :: "int \<Rightarrow> int \<Rightarrow> user_row \<Rightarrow> user_view" where
  "user_view_of rules traffic u =
     \<lparr>uv_id = us_id u, uv_username = us_username u, uv_role = us_role u, uv_rule_count = rules,
      uv_total_traffic = traffic, uv_expires_at = us_expires_at u, uv_limit_30d = us_limit_30d u,
      uv_used_cached = us_used_cached u, uv_calculated_at = us_calculated_at u,
      uv_remaining = remaining (us_limit_30d u) (us_used_cached u), uv_reset_day = us_reset_day u,
      uv_rules_quota = us_rules_quota u\<rparr>"

record create_user_request =
  cu_username :: string
  cu_password :: string
  cu_role :: string
  cu_expires_at :: "string option"
  cu_limit_30d :: "int option"
  cu_reset_day :: "int option"
  cu_rules_quota :: "int option"
  cu_nodes :: "int list option"
  cu_tunnels :: "int list option"
  cu_tunnel_limits :: "(int \<times> int option) list option"

record update_user_request =
  uu_password :: "string option"
  uu_role :: "string option"
  uu_expires_at :: "string option"
  uu_limit_30d :: "int option"
  uu_reset_day :: "int option"
  uu_rules_quota :: "int option"
  uu_nodes :: "int list option"
  uu_tunnels :: "int list option"
  uu_tunnel_limits :: "(int \<times> int option) list option"

section \<open>Grants\<close>

text \<open>The limits as a hash map: of two entries for a tunnel the last one counts.\<close>

definition build_tunnel_grants :: "int list \<Rightarrow> (int \<times> int option) list option \<Rightarrow> (int \<times> int option) list" where
  "build_tunnel_grants ids limits =
     (let m = map (\<lambda>(t, l). (t, case l of Some n \<Rightarrow> if 0 < n then Some n else None | None \<Rightarrow> None)) (unwrap_or [] limits) in
      map (\<lambda>i. (i, Option.bind (map_of (rev m) i) (\<lambda>l. l))) ids)"

text \<open>\<^verbatim>\<open>dedup_grants\<close>: the first entry for a tunnel counts.\<close>

fun dedup_grants :: "int list \<Rightarrow> (int \<times> int option) list \<Rightarrow> (int \<times> int option) list" where
  "dedup_grants seen [] = []"
| "dedup_grants seen ((t, n) # rest) =
     (if List.member seen t then dedup_grants seen rest else (t, n) # dedup_grants (t # seen) rest)"

definition set_node_grants :: "int \<Rightarrow> int list \<Rightarrow> panel_db \<Rightarrow> panel_db" where
  "set_node_grants u ids db = db\<lparr>db_node_grants := filter (\<lambda>g. fst g \<noteq> u) (db_node_grants db)
     @ map (Pair u) (filter (\<lambda>n. list_ex (live_node n) (db_nodes db)) (sort_dedup ids))\<rparr>"

definition live_tunnel :: "int \<Rightarrow> tunnel_row \<Rightarrow> bool" where
  "live_tunnel i t = (tu_id t = i \<and> \<not> tu_deleted t)"

definition set_tunnel_grants :: "int \<Rightarrow> (int \<times> int option) list \<Rightarrow> panel_db \<Rightarrow> panel_db" where
  "set_tunnel_grants u grants db = db\<lparr>db_tunnel_grants := filter (\<lambda>g. fst g \<noteq> u) (db_tunnel_grants db)
     @ map (Pair u) (filter (\<lambda>g. list_ex (live_tunnel (fst g)) (db_tunnels db)) (dedup_grants [] grants))\<rparr>"

definition granted_node_ids :: "panel_db \<Rightarrow> int \<Rightarrow> int list" where
  "granted_node_ids db u = map snd (filter (\<lambda>g. fst g = u) (db_node_grants db))"

definition granted_tunnel_grants :: "panel_db \<Rightarrow> int \<Rightarrow> (int \<times> int option) list" where
  "granted_tunnel_grants db u = map snd (filter (\<lambda>g. fst g = u) (db_tunnel_grants db))"

text \<open>The other direction, ordered by name: who may use a node or a tunnel.\<close>

definition users_for_node :: "panel_db \<Rightarrow> int \<Rightarrow> (int \<times> string \<times> int option) list" where
  "users_for_node db n = map (\<lambda>u. (us_id u, us_username u, None))
     (sort_key us_username (List.map_filter (\<lambda>(u, m). if m = n then find_user db u else None) (db_node_grants db)))"

definition users_for_tunnel :: "panel_db \<Rightarrow> int \<Rightarrow> (int \<times> string \<times> int option) list" where
  "users_for_tunnel db t = sort_key (\<lambda>(_, name, _). name)
     (List.map_filter (\<lambda>(u, t', l). if t' = t then map_option (\<lambda>r. (us_id r, us_username r, l)) (find_user db u) else None)
        (db_tunnel_grants db))"

section \<open>Statements\<close>

definition live_user :: "int \<Rightarrow> user_row \<Rightarrow> bool" where
  "live_user i u = (us_id u = i \<and> \<not> us_deleted u)"

definition insert_user ::
    "string \<Rightarrow> string \<Rightarrow> string \<Rightarrow> int option \<Rightarrow> int option \<Rightarrow> bool \<Rightarrow> panel_db \<Rightarrow> (sql_error + int) \<times> panel_db" where
  "insert_user name hash role expires limit must_change db =
     (let u = \<lparr>us_id = db_next_user db, us_username = name, us_password_hash = hash, us_role = role,
               us_expires_at = expires, us_limit_30d = limit, us_used_cached = 0, us_calculated_at = None,
               us_must_change = (if must_change then 1 else 0), us_reset_day = None, us_rules_quota = None,
               us_deleted = False\<rparr>
      in if role \<notin> set [''admin'', ''user''] then (Inl Check_Violation, db)
         else if list_ex (\<lambda>x. us_username x = name \<and> \<not> us_deleted x) (db_users db) then (Inl Unique_Violation, db)
         else (Inr (us_id u), db\<lparr>db_users := db_users db @ [u], db_next_user := us_id u + 1\<rparr>))"

text \<open>An \<^verbatim>\<open>UPDATE\<close> of the live row with an id: how many rows it changed.\<close>

definition update_user_row :: "int \<Rightarrow> (user_row \<Rightarrow> user_row) \<Rightarrow> panel_db \<Rightarrow> (sql_error + nat) \<times> panel_db" where
  "update_user_row i f db = (Inr (length (filter (live_user i) (db_users db))), change_users (live_user i) f db)"

text \<open>
  \<^verbatim>\<open>User::update\<close>. A date is \<open>None\<close> (keep), \<open>Some None\<close> (the empty string: clear) or a time; the limit
  0 clears.
\<close>

definition user_patch ::
    "string option \<Rightarrow> string option \<Rightarrow> int option option \<Rightarrow> int option \<Rightarrow> user_row \<Rightarrow> user_row" where
  "user_patch hash role expires limit u =
     u\<lparr>us_password_hash := coalesce hash (us_password_hash u),
       us_must_change := (if hash = None then us_must_change u else 1),
       us_role := coalesce role (us_role u),
       us_expires_at := coalesce expires (us_expires_at u),
       us_limit_30d := clearable limit (us_limit_30d u)\<rparr>"

definition set_quota_reset_day :: "int \<Rightarrow> int option \<Rightarrow> panel_db \<Rightarrow> panel_db" where
  "set_quota_reset_day i day = change_users (live_user i) (\<lambda>u. u\<lparr>us_reset_day := day\<rparr>)"

definition set_forward_rules_quota :: "int \<Rightarrow> int option \<Rightarrow> panel_db \<Rightarrow> panel_db" where
  "set_forward_rules_quota i quota = change_users (live_user i) (\<lambda>u. u\<lparr>us_rules_quota := quota\<rparr>)"

definition live_admin :: "user_row \<Rightarrow> bool" where
  "live_admin u = (us_role u = ''admin'' \<and> \<not> us_deleted u)"

definition count_admins_excluding :: "int \<Rightarrow> panel_db \<Rightarrow> nat" where
  "count_admins_excluding i db = length (filter (\<lambda>u. live_admin u \<and> us_id u \<noteq> i) (db_users db))"

section \<open>Checks\<close>

definition validate_username :: "string \<Rightarrow> api_error + unit" where
  "validate_username u =
     bindR (reject_if (length u < 3 \<or> 32 < length u) (Bad_Request ''username length'')) (\<lambda>_.
       reject_if (list_ex is_whitespace u) (Bad_Request ''username whitespace''))"

definition validate_password :: "string \<Rightarrow> api_error + unit" where
  "validate_password p = reject_if (length p < 8) (Bad_Request ''password length'')"

definition validate_role :: "string \<Rightarrow> api_error + unit" where
  "validate_role r = reject_if (r \<notin> set [''admin'', ''user'']) (Bad_Request ''role'')"

definition validate_quota_reset_day :: "int option \<Rightarrow> api_error + unit" where
  "validate_quota_reset_day day = option_check day (\<lambda>d. reject_if (d \<noteq> 0 \<and> \<not> (1 \<le> d \<and> d \<le> 31)) (Bad_Request ''reset day''))"

definition negative :: "int option \<Rightarrow> bool" where
  "negative x = (case x of Some n \<Rightarrow> n < 0 | None \<Rightarrow> False)"

fun map_sqlx_user :: "sql_error \<Rightarrow> api_error" where
  "map_sqlx_user Unique_Violation = Bad_Request ''username taken''"
| "map_sqlx_user Unique_Port_Violation = Bad_Request ''username taken''"
| "map_sqlx_user Check_Violation = Bad_Request ''constraint''"
| "map_sqlx_user e = Database e"

text \<open>\<^verbatim>\<open>{ids:?}\<close> and the text of the log.\<close>

fun join_ids :: "int list \<Rightarrow> string" where
  "join_ids [] = []"
| "join_ids [i] = show_int i"
| "join_ids (i # is) = show_int i @ '', '' @ join_ids is"

definition grants_payload :: "string \<Rightarrow> int list option \<Rightarrow> int list option \<Rightarrow> string" where
  "grants_payload name nodes tunnels = name
     @ (case nodes of None \<Rightarrow> [] | Some ids \<Rightarrow> '' granted_nodes=['' @ join_ids ids @ '']'')
     @ (case tunnels of None \<Rightarrow> [] | Some ids \<Rightarrow> '' granted_tunnels=['' @ join_ids ids @ '']'')"

definition fetch_user :: "query_faults \<Rightarrow> string \<Rightarrow> panel_db \<Rightarrow> int \<Rightarrow> api_error + user_row" where
  "fetch_user io q db i = bindR (read_db io q (find_user db i)) (ok_or Not_Found)"

section \<open>Creating a user\<close>

definition create_user_checks ::
    "user_env \<Rightarrow> claims \<Rightarrow> create_user_request \<Rightarrow> api_error + (string \<times> int option \<times> int option \<times> string)" where
  "create_user_checks ue auth req =
     bindR (require_admin auth) (\<lambda>_.
     bindR (validate_username (trim (cu_username req))) (\<lambda>_.
     bindR (validate_password (cu_password req)) (\<lambda>_.
     bindR (validate_role (cu_role req)) (\<lambda>_.
     bindR (validate_quota_reset_day (cu_reset_day req)) (\<lambda>_.
     bindR (reject_if (negative (cu_rules_quota req)) (Bad_Request ''rules quota'')) (\<lambda>_.
     bindR (case cu_expires_at req of
              None \<Rightarrow> Inr None
            | Some s \<Rightarrow> if s = [] then Inr None else map_sum id Some (ok_or (Bad_Request ''expires_at'') (ue_datetime ue s))) (\<lambda>expires.
     bindR (reject_if (negative (cu_limit_30d req)) (Bad_Request ''traffic limit'')) (\<lambda>_.
     bindR (ok_or Internal (ue_hash ue (cu_password req))) (\<lambda>hash.
       Inr (trim (cu_username req), expires, clearable (cu_limit_30d req) None, hash))))))))))"

text \<open>The grants that a request names replace the ones there are.\<close>

definition sync_grants ::
    "query_faults \<Rightarrow> int \<Rightarrow> int list option \<Rightarrow> int list option \<Rightarrow> (int \<times> int option) list option \<Rightarrow> unit api" where
  "sync_grants io i nodes tunnels limits =
     bindA (case nodes of Some ids \<Rightarrow> update_db io ''node_grants'' (set_node_grants i ids) | None \<Rightarrow> returnA ()) (\<lambda>_.
       case tunnels of
         Some ids \<Rightarrow> update_db io ''tunnel_grants'' (set_tunnel_grants i (build_tunnel_grants ids limits))
       | None \<Rightarrow> returnA ())"

definition create_user ::
    "user_env \<Rightarrow> query_faults \<Rightarrow> claims \<Rightarrow> string \<Rightarrow> create_user_request \<Rightarrow> user_view api" where
  "create_user ue io auth ip req =
     bindA (ask (\<lambda>_. create_user_checks ue auth req)) (\<lambda>(name, expires, limit, hash).
     bindA (write_db io ''insert_user'' map_sqlx_user (insert_user name hash (cu_role req) expires limit True)) (\<lambda>new_id.
     bindA (case cu_reset_day req of
              Some d \<Rightarrow> if 1 \<le> d \<and> d \<le> 31 then update_db io ''reset_day'' (set_quota_reset_day new_id (Some d)) else returnA ()
            | None \<Rightarrow> returnA ()) (\<lambda>_.
     bindA (case cu_rules_quota req of
              Some q \<Rightarrow> if 0 < q then update_db io ''rules_quota'' (set_forward_rules_quota new_id (Some q)) else returnA ()
            | None \<Rightarrow> returnA ()) (\<lambda>_.
     bindA (ask (\<lambda>db. fetch_user io ''reread_user'' db new_id)) (\<lambda>u.
     bindA (sync_grants io new_id (cu_nodes req) (cu_tunnels req) (cu_tunnel_limits req)) (\<lambda>_.
     bindA (doA (record_with_ip io (Some (cl_sub auth)) (as_option ip) ''user.create'' (Some ''user'') (Some new_id)
              (Some (grants_payload name (cu_nodes req) (cu_tunnels req))) True None)) (\<lambda>_.
       returnA (user_view_of 0 0 u))))))))"

section \<open>Changing a user\<close>

definition role_change_allowed ::
    "query_faults \<Rightarrow> claims \<Rightarrow> int \<Rightarrow> user_row \<Rightarrow> string \<Rightarrow> panel_db \<Rightarrow> api_error + unit" where
  "role_change_allowed io auth i existing r db =
     bindR (validate_role r) (\<lambda>_.
     bindR (reject_if (i = cl_sub auth \<and> r \<noteq> ''admin'' \<and> us_role existing = ''admin'') (Bad_Request ''own role'')) (\<lambda>_.
       if us_role existing = ''admin'' \<and> r \<noteq> ''admin'' then
         bindR (read_db io ''count_admins'' (count_admins_excluding i db)) (\<lambda>others.
           reject_if (others = 0) (Bad_Request ''last admin''))
       else Inr ()))"

definition update_user_checks ::
    "user_env \<Rightarrow> query_faults \<Rightarrow> claims \<Rightarrow> int \<Rightarrow> update_user_request \<Rightarrow> panel_db
     \<Rightarrow> api_error + (user_row \<times> int option option \<times> string option)" where
  "update_user_checks ue io auth i req db =
     bindR (require_admin auth) (\<lambda>_.
     bindR (fetch_user io ''find_user'' db i) (\<lambda>existing.
     bindR (option_check (uu_password req) validate_password) (\<lambda>_.
     bindR (option_check (uu_role req) (\<lambda>r. role_change_allowed io auth i existing r db)) (\<lambda>_.
     bindR (case uu_expires_at req of
              None \<Rightarrow> Inr None
            | Some s \<Rightarrow> if s = [] then Inr (Some None)
                else map_sum id (\<lambda>t. Some (Some t)) (ok_or (Bad_Request ''expires_at'') (ue_datetime ue s))) (\<lambda>expires.
     bindR (reject_if (negative (uu_limit_30d req)) (Bad_Request ''traffic limit'')) (\<lambda>_.
     bindR (validate_quota_reset_day (uu_reset_day req)) (\<lambda>_.
     bindR (reject_if (negative (uu_rules_quota req)) (Bad_Request ''rules quota'')) (\<lambda>_.
     bindR (case uu_password req of
              None \<Rightarrow> Inr None
            | Some p \<Rightarrow> map_sum id Some (ok_or Internal (ue_hash ue p))) (\<lambda>hash.
       Inr (existing, expires, hash))))))))))"

definition update_user ::
    "user_env \<Rightarrow> query_faults \<Rightarrow> claims \<Rightarrow> string \<Rightarrow> int \<Rightarrow> update_user_request \<Rightarrow> user_view api" where
  "update_user ue io auth ip i req =
     bindA (ask (update_user_checks ue io auth i req)) (\<lambda>(existing, expires, hash).
     bindA (write_db io ''update_user'' Database (update_user_row i (user_patch hash (uu_role req) expires (uu_limit_30d req)))) (\<lambda>rows.
     bindA (ask (\<lambda>_. reject_if (rows = 0) Not_Found)) (\<lambda>_.
     bindA (case uu_reset_day req of
              Some d \<Rightarrow> update_db io ''reset_day'' (set_quota_reset_day i (if d = 0 then None else Some d))
            | None \<Rightarrow> returnA ()) (\<lambda>_.
     bindA (case uu_rules_quota req of
              Some q \<Rightarrow> update_db io ''rules_quota'' (set_forward_rules_quota i (if q \<le> 0 then None else Some q))
            | None \<Rightarrow> returnA ()) (\<lambda>_.
     bindA (ask (\<lambda>db. fetch_user io ''reread_user'' db i)) (\<lambda>u.
     bindA (sync_grants io i (uu_nodes req) (uu_tunnels req) (uu_tunnel_limits req)) (\<lambda>_.
     bindA (doA (record_with_ip io (Some (cl_sub auth)) (as_option ip) ''user.update'' (Some ''user'') (Some i)
              (Some (grants_payload (us_username existing) (uu_nodes req) (uu_tunnels req))) True None)) (\<lambda>_.
       returnA (user_view_of 0 0 u)))))))))"

section \<open>Deleting a user\<close>

definition delete_user_checks :: "query_faults \<Rightarrow> claims \<Rightarrow> int \<Rightarrow> panel_db \<Rightarrow> api_error + user_row" where
  "delete_user_checks io auth i db =
     bindR (require_admin auth) (\<lambda>_.
     bindR (reject_if (i = cl_sub auth) (Bad_Request ''own account'')) (\<lambda>_.
     bindR (fetch_user io ''find_user'' db i) (\<lambda>target.
     bindR (if us_role target = ''admin'' then
              bindR (read_db io ''count_admins'' (count_admins_excluding i db)) (\<lambda>others.
                reject_if (others = 0) (Bad_Request ''last admin''))
            else Inr ()) (\<lambda>_.
       Inr target))))"

definition delete_user_stored :: "query_faults \<Rightarrow> claims \<Rightarrow> string \<Rightarrow> int \<Rightarrow> user_row \<Rightarrow> unit api" where
  "delete_user_stored io auth ip i target =
     bindA (write_db io ''delete_user'' Database (update_user_row i (\<lambda>u. u\<lparr>us_deleted := True\<rparr>))) (\<lambda>rows.
     bindA (ask (\<lambda>_. reject_if (rows = 0) Not_Found)) (\<lambda>_.
       doA (record_with_ip io (Some (cl_sub auth)) (as_option ip) ''user.delete'' (Some ''user'') (Some i)
              (Some (us_username target)) True None)))"

definition delete_user :: "query_faults \<Rightarrow> claims \<Rightarrow> string \<Rightarrow> int \<Rightarrow> unit api" where
  "delete_user io auth ip i =
     bindA (ask (delete_user_checks io auth i)) (delete_user_stored io auth ip i)"

section \<open>Reading\<close>

definition get_user :: "query_faults \<Rightarrow> claims \<Rightarrow> int \<Rightarrow> user_view api" where
  "get_user io auth i =
     bindA (ask (\<lambda>_. require_admin auth)) (\<lambda>_.
     bindA (ask (\<lambda>db. fetch_user io ''find_user'' db i)) (\<lambda>u. returnA (user_view_of 0 0 u)))"

definition user_grants ::
    "query_faults \<Rightarrow> claims \<Rightarrow> int \<Rightarrow> (int list \<times> int list \<times> (int \<times> int option) list) api" where
  "user_grants io auth i =
     bindA (ask (\<lambda>_. require_admin auth)) (\<lambda>_.
     bindA (ask (\<lambda>db. read_db io ''tunnel_grants'' (granted_tunnel_grants db i))) (\<lambda>ts.
     bindA (ask (\<lambda>db. read_db io ''node_grants'' (granted_node_ids db i))) (\<lambda>ns.
       returnA (ns, map fst ts, filter (\<lambda>t. snd t \<noteq> None) ts))))"

definition live_rules_of :: "panel_db \<Rightarrow> int \<Rightarrow> db_rule list" where
  "live_rules_of db u = filter (\<lambda>r. dr_user_id r = u \<and> \<not> dr_deleted r) (db_rules db)"

definition user_filter :: "string option \<Rightarrow> user_row \<Rightarrow> bool" where
  "user_filter search u = (\<not> us_deleted u
     \<and> (case search of None \<Rightarrow> True | Some s \<Rightarrow> like_match (like_pattern s) (us_username u)))"

definition list_users ::
    "query_faults \<Rightarrow> claims \<Rightarrow> int option \<Rightarrow> int option \<Rightarrow> string option \<Rightarrow> (user_view list \<times> nat \<times> int \<times> int) api" where
  "list_users io auth page page_size search =
     (let page = max 1 (unwrap_or 1 page); psize = clamp 1 100 (unwrap_or 20 page_size);
          search = (case map_option trim search of Some s \<Rightarrow> if s = [] then None else Some s | None \<Rightarrow> None) in
      bindA (ask (\<lambda>_. require_admin auth)) (\<lambda>_.
      bindA (ask (\<lambda>db. read_db io ''list_users''
        (map (\<lambda>u. let rs = live_rules_of db (us_id u) in
               user_view_of (int (length rs)) (sum_list (map (\<lambda>r. dr_rx r + dr_tx r) rs)) u)
          (take (nat psize) (drop (nat (list_offset page psize))
            (rev (sort_key us_id (filter (user_filter search) (db_users db))))))))) (\<lambda>items.
      bindA (ask (\<lambda>db. read_db io ''count_users'' (length (filter (user_filter search) (db_users db))))) (\<lambda>n.
        returnA (items, n, page, psize)))))"

section \<open>The invariant of the accounts\<close>

text \<open>
  Ids are unique and below the next one, no two live accounts have the same name, every role is one
  of the two, and some live account is an administrator.
\<close>

definition users_inv :: "panel_db \<Rightarrow> bool" where
  "users_inv db =
     (distinct (map us_id (db_users db)) \<and> (\<forall>u \<in> set (db_users db). us_id u < db_next_user db)
      \<and> distinct (map us_username (filter (\<lambda>u. \<not> us_deleted u) (db_users db)))
      \<and> (\<forall>u \<in> set (db_users db). us_role u \<in> {''admin'', ''user''})
      \<and> list_ex live_admin (db_users db))"

definition accounts_ok :: "panel \<Rightarrow> bool" where
  "accounts_ok p = users_inv (pn_db p)"

lemma users_inv_cong: "db_users db = db_users db' \<Longrightarrow> db_next_user db = db_next_user db' \<Longrightarrow> users_inv db = users_inv db'"
  by (simp add: users_inv_def)

text \<open>A change of live rows that keeps id, name and role, or a change that leaves some administrator.\<close>

lemma users_inv_change:
  assumes "users_inv db" "\<And>u. us_id (f u) = us_id u" "\<And>u. us_username (f u) = us_username u"
    "\<And>u. \<not> us_deleted (f u) \<Longrightarrow> \<not> us_deleted u"
    "\<And>u. u \<in> set (db_users db) \<Longrightarrow> p u \<Longrightarrow> us_role (f u) \<in> {''admin'', ''user''}"
    "\<exists>u \<in> set (db_users db). if p u then live_admin (f u) else live_admin u"
  shows "users_inv (change_users p f db)"
proof -
  let ?g = "\<lambda>u. if p u then f u else u"
  have g: "us_id (?g u) = us_id u" "us_username (?g u) = us_username u" "\<not> us_deleted (?g u) \<Longrightarrow> \<not> us_deleted u" for u
    using assms(2-4) by (simp_all split: if_splits)
  have e: "filter (\<lambda>u. \<not> us_deleted (?g u)) us = filter (\<lambda>u. \<not> us_deleted (?g u)) (filter (\<lambda>u. \<not> us_deleted u) us)" for us
    unfolding filter_filter by (rule filter_cong [OF refl]) (use g(3) in blast)
  have names: "map us_username (filter (\<lambda>u. \<not> us_deleted u) (map ?g us))
      = map us_username (filter (\<lambda>u. \<not> us_deleted (?g u)) (filter (\<lambda>u. \<not> us_deleted u) us))" for us
    unfolding filter_map comp_def map_map g(2) by (subst e) (rule refl)
  have rows: "db_users (change_users p f db) = map ?g (db_users db)" "db_next_user (change_users p f db) = db_next_user db"
    by (simp_all add: change_users_def)
  show ?thesis
    unfolding users_inv_def rows
  proof (intro conjI)
    show "distinct (map us_id (map ?g (db_users db)))"
      using assms(1) unfolding map_map comp_def g(1) by (simp add: users_inv_def)
    show "\<forall>u \<in> set (map ?g (db_users db)). us_id u < db_next_user db"
      using assms(1,2) by (auto simp: users_inv_def)
    show "distinct (map us_username (filter (\<lambda>u. \<not> us_deleted u) (map ?g (db_users db))))"
      unfolding names by (rule distinct_map_filter) (use assms(1) in \<open>simp add: users_inv_def\<close>)
    show "\<forall>u \<in> set (map ?g (db_users db)). us_role u \<in> {''admin'', ''user''}"
    proof
      fix v
      assume "v \<in> set (map ?g (db_users db))"
      then obtain u where "u \<in> set (db_users db)" "v = ?g u" by auto
      with assms(1,5) show "us_role v \<in> {''admin'', ''user''}"
        by (cases "p u") (simp_all add: users_inv_def)
    qed
    obtain u where "u \<in> set (db_users db)" "live_admin (?g u)"
      using assms(6) by (auto split: if_splits)
    then have "\<exists>v \<in> set (map ?g (db_users db)). live_admin v"
      unfolding set_map by (intro bexI [of _ "?g u"] imageI)
    then show "list_ex live_admin (map ?g (db_users db))"
      by (simp only: list_ex_iff)
  qed
qed

lemma users_inv_tame:
  assumes "users_inv db" "\<And>u. us_id (f u) = us_id u" "\<And>u. us_username (f u) = us_username u"
    "\<And>u. us_deleted (f u) = us_deleted u" "\<And>u. us_role (f u) = us_role u"
  shows "users_inv (change_users p f db)"
proof (rule users_inv_change [OF assms(1-3)])
  show "\<exists>u \<in> set (db_users db). if p u then live_admin (f u) else live_admin u"
    using assms by (auto simp: users_inv_def list_ex_iff live_admin_def)
qed (use assms in \<open>auto simp: users_inv_def\<close>)

lemma users_inv_settings [keeps_inv]:
  assumes "users_inv db"
  shows "users_inv (set_quota_reset_day i d db)" "users_inv (set_forward_rules_quota i q db)"
    "users_inv (set_node_grants i ns db)" "users_inv (set_tunnel_grants i ts db)"
  using assms by (auto simp: set_quota_reset_day_def set_forward_rules_quota_def intro!: users_inv_tame)
    (simp_all add: users_inv_def set_node_grants_def set_tunnel_grants_def)

lemma users_inv_insert:
  assumes "users_inv db" "insert_user name hash role expires limit must db = (Inr i, db')"
  shows "users_inv db'"
proof -
  define u where "u = \<lparr>us_id = db_next_user db, us_username = name, us_password_hash = hash, us_role = role,
      us_expires_at = expires, us_limit_30d = limit, us_used_cached = 0, us_calculated_at = None,
      us_must_change = (if must then 1 else 0), us_reset_day = None, us_rules_quota = None, us_deleted = False\<rparr>"
  have r: "role \<in> {''admin'', ''user''}" and n: "\<not> list_ex (\<lambda>x. us_username x = name \<and> \<not> us_deleted x) (db_users db)"
    and db': "db' = db\<lparr>db_users := db_users db @ [u], db_next_user := us_id u + 1\<rparr>"
    using assms(2) unfolding insert_user_def u_def [symmetric] Let_def by (auto split: if_splits)
  from r have u: "us_id u = db_next_user db" "us_username u = name" "us_role u \<in> {''admin'', ''user''}" "\<not> us_deleted u"
    by (simp_all add: u_def)
  have "\<forall>x \<in> set (db_users db). us_id x < us_id u"
    using assms(1) u(1) by (simp add: users_inv_def)
  then have "us_id u \<notin> us_id ` set (db_users db)" "\<forall>x \<in> set (db_users db). us_id x < us_id u + 1"
    by force+
  moreover have "name \<notin> us_username ` set (filter (\<lambda>x. \<not> us_deleted x) (db_users db))"
    using n by (auto simp: list_ex_iff)
  ultimately show ?thesis
    using assms(1) u by (simp add: users_inv_def db')
qed

lemma users_inv_audit [simp]: "users_inv (pn_db (record_with_ip io a b c d e f g h p)) = users_inv (pn_db p)"
  by (rule users_inv_cong) (simp_all add: record_with_ip_def)

text \<open>The last administrator.\<close>

lemma other_admin:
  assumes "count_admins_excluding i db \<noteq> 0"
  shows "\<exists>u \<in> set (db_users db). live_admin u \<and> us_id u \<noteq> i"
  using assms by (auto simp: count_admins_excluding_def filter_empty_conv)

lemma find_user_unique:
  assumes "users_inv db" "find_user db i = Some x" "u \<in> set (db_users db)" "live_user i u"
  shows "u = x"
  using assms by (auto simp: find_user_def users_inv_def live_user_def distinct_map inj_on_def dest!: find_SomeD)

lemma role_change_keeps_admin:
  assumes "users_inv db" "fetch_user io q db i = Inr x" "option_check role (\<lambda>r. role_change_allowed io auth i x r db) = Inr ()"
  shows "users_inv (change_users (live_user i) (user_patch hash role expires limit) db)"
proof (rule users_inv_change [OF assms(1)])
  have x: "find_user db i = Some x"
    using assms(2) by (auto simp: fetch_user_def bindR_eq_Inr)
  obtain a where a: "a \<in> set (db_users db)" "live_admin a"
    using assms(1) by (auto simp: users_inv_def list_ex_iff)
  show "\<exists>u \<in> set (db_users db). if live_user i u then live_admin (user_patch hash role expires limit u) else live_admin u"
  proof (cases "live_user i a \<and> role \<noteq> None \<and> role \<noteq> Some ''admin''")
    case True
    with find_user_unique [OF assms(1) x a(1)] a(2) have "us_role x = ''admin''"
      by (simp add: live_admin_def)
    with True assms(3) have "count_admins_excluding i db \<noteq> 0"
      by (auto simp: role_change_allowed_def bindR_eq_Inr split: if_splits)
    with other_admin [of i db] obtain b where "b \<in> set (db_users db)" "live_admin b" "us_id b \<noteq> i" by auto
    then show ?thesis by (auto simp: live_user_def)
  next
    case False
    with a show ?thesis by (auto simp: live_admin_def user_patch_def coalesce_def intro!: bexI [of _ a])
  qed
  show "us_role (user_patch hash role expires limit u) \<in> {''admin'', ''user''}" if "u \<in> set (db_users db)" for u
    using assms(1,3) that
    by (auto simp: user_patch_def coalesce_def users_inv_def role_change_allowed_def validate_role_def bindR_eq_Inr split: option.split)
qed (simp_all add: user_patch_def)

lemma delete_keeps_admin:
  assumes "users_inv db" "delete_user_checks io auth i db = Inr x"
  shows "users_inv (change_users (live_user i) (\<lambda>u. u\<lparr>us_deleted := True\<rparr>) db)"
proof (rule users_inv_change [OF assms(1)])
  have x: "find_user db i = Some x" and c: "us_role x = ''admin'' \<Longrightarrow> count_admins_excluding i db \<noteq> 0"
    using assms(2) by (auto simp: delete_user_checks_def fetch_user_def bindR_eq_Inr)
  obtain a where a: "a \<in> set (db_users db)" "live_admin a"
    using assms(1) by (auto simp: users_inv_def list_ex_iff)
  have "\<exists>b \<in> set (db_users db). live_admin b \<and> \<not> live_user i b"
  proof (cases "live_user i a")
    case True
    with find_user_unique [OF assms(1) x a(1)] a(2) c other_admin [of i db] show ?thesis
      by (auto simp: live_admin_def live_user_def)
  qed (use a in blast)
  then show "\<exists>u \<in> set (db_users db). if live_user i u then live_admin (u\<lparr>us_deleted := True\<rparr>) else live_admin u"
    by auto
qed (use assms(1) in \<open>auto simp: users_inv_def\<close>)

section \<open>The handlers keep the invariant\<close>

lemma accounts_audit: "keepsA (\<lambda>p. users_inv (pn_db p)) (doA (record_with_ip io a b c d e f g h))"
  by (rule keepsA_do) simp

lemmas accounts_rules = keepsA_bind keepsA_ask accounts_audit keepsA_update keepsA_if keeps_option

lemma sync_grants_keeps: "keepsA (\<lambda>p. users_inv (pn_db p)) (sync_grants io i ns ts ls)"
  unfolding sync_grants_def by (intro accounts_rules keeps_inv)

lemma create_user_keeps: "keepsA (\<lambda>p. users_inv (pn_db p)) (create_user ue io auth ip req)"
  unfolding create_user_def
proof (intro keepsA_bind keepsA_ask keeps_prod)
  fix name expires limit hash
  show "keepsA (\<lambda>p. users_inv (pn_db p)) (write_db io ''insert_user'' map_sqlx_user (insert_user name hash (cu_role req) expires limit True))"
    by (rule keepsA_write) (rule users_inv_insert)
qed (intro accounts_rules sync_grants_keeps keeps_inv; assumption)+

lemma update_user_keeps: "keepsA (\<lambda>p. users_inv (pn_db p)) (update_user ue io auth ip i req)"
  unfolding update_user_def
proof (rule keeps_ask_bind, goal_cases)
  case (1 p x)
  obtain existing expires hash where x: "x = (existing, expires, hash)" by (cases x) auto
  let ?w = "write_db io ''update_user'' Database (update_user_row i (user_patch hash (uu_role req) expires (uu_limit_30d req)))"
  have f: "fetch_user io ''find_user'' (pn_db p) i = Inr existing"
    and r: "option_check (uu_role req) (\<lambda>r. role_change_allowed io auth i existing r (pn_db p)) = Inr ()"
    using 1(2) unfolding x update_user_checks_def by (auto simp: bindR_eq_Inr)
  have w: "users_inv (pn_db (snd (?w p)))"
    using role_change_keeps_admin [OF 1(1) f r] 1(1) by (simp add: write_db_def update_user_row_def)
  show ?case
    unfolding x prod.case
    by (rule keeps_at [where P = "\<lambda>p. users_inv (pn_db p)" and m = ?w and p = p, OF w])
      (intro accounts_rules sync_grants_keeps keeps_inv)
qed

lemma delete_user_keeps: "keepsA (\<lambda>p. users_inv (pn_db p)) (delete_user io auth ip i)"
  unfolding delete_user_def
proof (rule keeps_ask_bind, goal_cases)
  case (1 p x)
  let ?w = "write_db io ''delete_user'' Database (update_user_row i (\<lambda>u. u\<lparr>us_deleted := True\<rparr>))"
  have w: "users_inv (pn_db (snd (?w p)))"
    using delete_keeps_admin [OF 1(1,2)] 1(1) by (simp add: write_db_def update_user_row_def)
  show ?case
    unfolding delete_user_stored_def
    by (rule keeps_at [where P = "\<lambda>p. users_inv (pn_db p)" and m = ?w and p = p, OF w])
      (intro accounts_rules)
qed

text \<open>A call of an administrator (or of anybody else) on the accounts.\<close>

datatype user_call =
    Create_User query_faults claims string create_user_request
  | Update_User query_faults claims string int update_user_request
  | Delete_User query_faults claims string int

fun user_step :: "user_env \<Rightarrow> panel \<Rightarrow> user_call \<Rightarrow> panel" where
  "user_step ue p (Create_User io auth ip req) = snd (create_user ue io auth ip req p)"
| "user_step ue p (Update_User io auth ip i req) = snd (update_user ue io auth ip i req p)"
| "user_step ue p (Delete_User io auth ip i) = snd (delete_user io auth ip i p)"

interpretation accounts: invariant_machine "user_step ue" accounts_ok
proof unfold_locales
  fix p c
  assume "accounts_ok p"
  then show "accounts_ok (user_step ue p c)"
    using create_user_keeps update_user_keeps delete_user_keeps by (cases c) (auto simp: keepsA_def accounts_ok_def)
qed

section \<open>Properties\<close>

text \<open>C26. Whatever calls are made on the accounts, one after the other, by whoever, with whatever failures of the
  database on the way: some live account stays an administrator, ids and the names of live accounts stay unique, and
  every role is one of the two.\<close>

theorem accounts_keep_admin:
  assumes "users_inv (pn_db p)" "q = foldl (user_step ue) p calls"
  shows "(\<exists>u \<in> set (db_users (pn_db q)). us_role u = ''admin'' \<and> \<not> us_deleted u)
    \<and> distinct (map us_id (db_users (pn_db q)))
    \<and> distinct (map us_username (filter (\<lambda>u. \<not> us_deleted u) (db_users (pn_db q))))
    \<and> set (map us_role (db_users (pn_db q))) \<subseteq> {''admin'', ''user''}"
proof -
  have "users_inv (pn_db q)"
    using accounts.run_inv [of p ue calls] assms by (simp add: accounts_ok_def)
  then show ?thesis
    by (auto simp: users_inv_def list_ex_iff live_admin_def)
qed

definition sample_accounts :: panel where
  "sample_accounts = \<lparr>pn_db = sample_db\<lparr>db_users := [metered_user\<lparr>us_role := ''admin''\<rparr>,
      metered_user\<lparr>us_id := 2, us_username := ''bob''\<rparr>], db_next_user := 3\<rparr>, pn_dispatcher = dispatcher_new\<rparr>"

definition sample_user_env :: user_env where
  "sample_user_env = \<lparr>ue_datetime = (\<lambda>_. None), ue_hash = (\<lambda>p. Some (rev p))\<rparr>"

definition sample_change :: update_user_request where
  "sample_change = \<lparr>uu_password = None, uu_role = Some ''admin'', uu_expires_at = None, uu_limit_30d = None,
     uu_reset_day = None, uu_rules_quota = None, uu_nodes = Some [2, 9, 2], uu_tunnels = Some [4],
     uu_tunnel_limits = Some [(4, Some 0), (4, Some 7)]\<rparr>"

lemma sample_accounts_inv: "users_inv (pn_db sample_accounts)"
  by (simp add: users_inv_def sample_accounts_def metered_user_def live_admin_def)

text \<open>Bob becomes an administrator, and then cannot delete himself but the other one.\<close>

lemma accounts_keep_admin_witness:
  "\<exists>q. q = foldl (user_step sample_user_env) sample_accounts
       [Update_User no_faults (sample_user 1 ''admin'') [] 2 sample_change,
        Delete_User no_faults (sample_user 2 ''admin'') [] 2, Delete_User no_faults (sample_user 2 ''admin'') [] 1]
     \<and> (\<exists>u \<in> set (db_users (pn_db q)). us_role u = ''admin'' \<and> \<not> us_deleted u)"
  using accounts_keep_admin [OF sample_accounts_inv refl, of sample_user_env
      "[Update_User no_faults (sample_user 1 ''admin'') [] 2 sample_change,
        Delete_User no_faults (sample_user 2 ''admin'') [] 2, Delete_User no_faults (sample_user 2 ''admin'') [] 1]"]
  by blast

subsection \<open>Grants\<close>

lemma node_granted_alt: "node_granted db u n \<longleftrightarrow> n \<in> set (granted_node_ids db u)"
  by (auto simp: node_granted_def granted_node_ids_def list_ex_iff image_iff)

lemma tunnel_granted_alt: "tunnel_granted db u t \<longleftrightarrow> t \<in> fst ` set (granted_tunnel_grants db u)"
  by (force simp: tunnel_granted_def granted_tunnel_grants_def list_ex_iff image_iff)

lemma tunnel_grant_num_alt: "tunnel_grant_num db u t = Option.bind (map_of (granted_tunnel_grants db u) t) (\<lambda>l. l)"
proof -
  have "(case find (\<lambda>(u', t', _). u' = u \<and> t' = t) gs of None \<Rightarrow> None | Some (_, _, n) \<Rightarrow> n)
      = Option.bind (map_of (map snd (filter (\<lambda>g. fst g = u) gs)) t) (\<lambda>l. l)" for gs :: "(int \<times> int \<times> int option) list"
    by (induction gs) auto
  then show ?thesis
    by (simp add: tunnel_grant_num_def granted_tunnel_grants_def)
qed

lemma granted_after_set:
  "granted_node_ids (set_node_grants u ids db) v =
     (if v = u then filter (\<lambda>n. list_ex (live_node n) (db_nodes db)) (sort_dedup ids) else granted_node_ids db v)"
  "granted_tunnel_grants (set_tunnel_grants u gs db) v =
     (if v = u then filter (\<lambda>g. list_ex (live_tunnel (fst g)) (db_tunnels db)) (dedup_grants [] gs) else granted_tunnel_grants db v)"
  by (auto simp: granted_node_ids_def set_node_grants_def granted_tunnel_grants_def set_tunnel_grants_def filter_map comp_def
      filter_empty_conv intro!: arg_cong [where f = "map snd"] filter_cong)

lemma dedup_grants_map_of: "map_of (dedup_grants seen gs) t = (if t \<in> set seen then None else map_of gs t)"
  by (induction seen gs rule: dedup_grants.induct) auto

lemma map_of_filter_key: "map_of (filter (\<lambda>g. P (fst g)) gs) t = (if P t then map_of gs t else None)"
  by (induction gs) auto

lemma map_of_build:
  "map_of (build_tunnel_grants ids limits) t = (if t \<in> set ids
     then Some (Option.bind (map_of (rev (unwrap_or [] limits)) t) (\<lambda>l. case l of Some n \<Rightarrow> if 0 < n then Some n else None | None \<Rightarrow> None))
     else None)"
proof -
  let ?pos = "\<lambda>l :: int option. case l of Some n \<Rightarrow> if 0 < n then Some n else None | None \<Rightarrow> None"
  have "map_of (map (\<lambda>i. (i, f i)) ids) t = (if t \<in> set ids then Some (f t) else None)" for f :: "int \<Rightarrow> int option"
    by (induction ids) auto
  moreover have "map_of (map (\<lambda>(t, l). (t, ?pos l)) xs) t = map_option ?pos (map_of xs t)" for xs :: "(int \<times> int option) list"
    by (induction xs) auto
  ultimately show ?thesis
    by (cases "map_of (rev (unwrap_or [] limits)) t") (simp_all add: build_tunnel_grants_def rev_map)
qed

text \<open>The steps before the grants leave the nodes, the tunnels and the grants alone.\<close>

definition same_grants :: "panel_db \<Rightarrow> panel_db \<Rightarrow> bool" where
  "same_grants d e = (db_nodes e = db_nodes d \<and> db_tunnels e = db_tunnels d
     \<and> db_node_grants e = db_node_grants d \<and> db_tunnel_grants e = db_tunnel_grants d)"

lemma same_grants_change: "same_grants d e \<Longrightarrow> same_grants d (change_users f g e)"
  by (simp add: same_grants_def change_users_def)

lemma same_grants_settings [keeps_inv]:
  "same_grants d e \<Longrightarrow> same_grants d (set_quota_reset_day i x e)"
  "same_grants d e \<Longrightarrow> same_grants d (set_forward_rules_quota i y e)"
  by (simp_all add: set_quota_reset_day_def set_forward_rules_quota_def same_grants_change)

lemma same_grants_audit: "keepsA (\<lambda>p. same_grants d (pn_db p)) (doA (record_with_ip io a b c x e f g h))"
  by (rule keepsA_do) (simp add: same_grants_def record_with_ip_def)

lemma same_grants_update_user: "keepsA (\<lambda>p. same_grants d (pn_db p)) (write_db io q c (update_user_row i f))"
  by (rule keepsA_write) (auto simp: update_user_row_def intro: same_grants_change)

definition granted :: "int \<Rightarrow> int list option \<Rightarrow> int list option \<Rightarrow> (int \<times> int option) list option \<Rightarrow> panel_db \<Rightarrow> panel_db" where
  "granted i ns ts ls db =
     (let d = (case ns of Some n \<Rightarrow> set_node_grants i n db | None \<Rightarrow> db) in
      case ts of Some t \<Rightarrow> set_tunnel_grants i (build_tunnel_grants t ls) d | None \<Rightarrow> d)"

lemma sync_grants_ok: "okA (\<lambda>p. same_grants d (pn_db p)) (sync_grants io i ns ts ls) (\<lambda>_ q. same_grants (granted i ns ts ls d) (pn_db q))"
proof -
  have n: "okA (\<lambda>p. same_grants d (pn_db p))
      (case ns of Some ids \<Rightarrow> update_db io ''node_grants'' (set_node_grants i ids) | None \<Rightarrow> returnA ())
      (\<lambda>_ q. same_grants (granted i ns None ls d) (pn_db q))"
    by (auto simp: okA_def update_db_def write_db_def granted_def same_grants_def set_node_grants_def split: option.splits if_splits)
  have t: "okA (\<lambda>p. same_grants (granted i ns None ls d) (pn_db p))
      (case ts of Some ids \<Rightarrow> update_db io ''tunnel_grants'' (set_tunnel_grants i (build_tunnel_grants ids ls)) | None \<Rightarrow> returnA ())
      (\<lambda>_ q. same_grants (granted i ns ts ls d) (pn_db q))"
    by (auto simp: okA_def update_db_def write_db_def granted_def same_grants_def set_tunnel_grants_def Let_def split: option.splits if_splits)
  show ?thesis
    unfolding sync_grants_def by (rule okA_bind [OF n t])
qed

lemmas same_grants_rules = keepsA_ask keepsA_if keeps_option keepsA_update same_grants_audit same_grants_update_user

lemma okA_skip: "keepsA P m \<Longrightarrow> (\<And>x. okA P (f x) Q) \<Longrightarrow> okA P (bindA m f) Q"
  by (rule okA_bind [OF okA_keep])

lemma okA_prod: "(\<And>a b. x = (a, b) \<Longrightarrow> okA P (f a b) Q) \<Longrightarrow> okA P (case x of (a, b) \<Rightarrow> f a b) Q"
  by (cases x) simp

lemma update_user_grants:
  "okA (\<lambda>p. same_grants d (pn_db p)) (update_user ue io auth ip i req)
     (\<lambda>_ q. same_grants (granted i (uu_nodes req) (uu_tunnels req) (uu_tunnel_limits req) d) (pn_db q))"
  unfolding update_user_def
proof (rule okA_skip [OF keepsA_ask(1)], rule okA_prod, rule okA_prod, goal_cases)
  case (1 x existing y expires hash)
  have tail: "okA (\<lambda>p. same_grants e (pn_db p)) (bindA (doA (record_with_ip io a b c x z f g h)) (\<lambda>_. returnA v))
      (\<lambda>_ q. same_grants e (pn_db q))" for e a b c x z f g h and v :: user_view
    by (intro okA_keep keepsA_bind same_grants_rules)
  show ?case
    apply (rule okA_skip, (intro same_grants_rules keeps_inv; assumption))+
    apply (rule okA_bind [OF sync_grants_ok tail])
    done
qed

text \<open>Changing a user with a list of nodes and a list of tunnels replaces what he may use: exactly the listed nodes and
  tunnels that exist (repetitions and unknown ids are ignored), a tunnel with the last limit given for it when that is
  positive. What every other user may use stays the same.\<close>

theorem update_replaces_grants:
  assumes "update_user ue io auth ip i req p = (Inr v, p')" "uu_nodes req = Some ns" "uu_tunnels req = Some ts"
  shows "node_granted (pn_db p') i n = (n \<in> set ns \<and> list_ex (live_node n) (db_nodes (pn_db p)))
    \<and> tunnel_granted (pn_db p') i t = (t \<in> set ts \<and> list_ex (live_tunnel t) (db_tunnels (pn_db p)))
    \<and> tunnel_grant_num (pn_db p') i t = (if t \<in> set ts \<and> list_ex (live_tunnel t) (db_tunnels (pn_db p))
         then Option.bind (map_of (rev (unwrap_or [] (uu_tunnel_limits req))) t)
                (\<lambda>l. case l of Some k \<Rightarrow> if 0 < k then Some k else None | None \<Rightarrow> None)
         else None)
    \<and> (u \<noteq> i \<longrightarrow> node_granted (pn_db p') u n = node_granted (pn_db p) u n
         \<and> tunnel_granted (pn_db p') u t = tunnel_granted (pn_db p) u t
         \<and> tunnel_grant_num (pn_db p') u t = tunnel_grant_num (pn_db p) u t)"
proof -
  let ?d = "granted i (Some ns) (Some ts) (uu_tunnel_limits req) (pn_db p)"
  let ?gs = "build_tunnel_grants ts (uu_tunnel_limits req)"
  have "same_grants ?d (pn_db p')"
    using okA_D [OF update_user_grants [of "pn_db p"] _ assms(1)] assms(2,3) by (simp add: same_grants_def)
  then have same: "granted_node_ids (pn_db p') = granted_node_ids ?d" "granted_tunnel_grants (pn_db p') = granted_tunnel_grants ?d"
    by (simp_all add: fun_eq_iff granted_node_ids_def granted_tunnel_grants_def same_grants_def)
  have d: "?d = set_tunnel_grants i ?gs (set_node_grants i ns (pn_db p))"
    by (simp add: granted_def)
  have f: "granted_node_ids (set_tunnel_grants i ?gs e) w = granted_node_ids e w"
    "granted_tunnel_grants (set_node_grants i ns e) w = granted_tunnel_grants e w"
    "db_tunnels (set_node_grants i ns e) = db_tunnels e" for e w
    by (simp_all add: granted_node_ids_def granted_tunnel_grants_def set_tunnel_grants_def set_node_grants_def)
  let ?ok = "list_ex (live_tunnel t) (db_tunnels (pn_db p))"
  let ?mine = "filter (\<lambda>g. list_ex (live_tunnel (fst g)) (db_tunnels (pn_db p))) (dedup_grants [] ?gs)"
  have m: "map_of ?mine t = (if ?ok then map_of ?gs t else None)"
    using map_of_filter_key [of "\<lambda>t. list_ex (live_tunnel t) (db_tunnels (pn_db p))" "dedup_grants [] ?gs" t]
      dedup_grants_map_of [of "[]" ?gs t] by (simp only: list.set empty_iff if_False)
  have k: "t \<in> fst ` set ?mine \<longleftrightarrow> t \<in> set ts \<and> ?ok"
    using m map_of_build [of ts "uu_tunnel_limits req" t] by (metis map_of_eq_None_iff option.discI)
  show ?thesis
    unfolding node_granted_alt tunnel_granted_alt tunnel_grant_num_alt same d f granted_after_set
    using k by (simp add: m map_of_build del: map_of_eq_Some_iff)
qed

lemma update_replaces_grants_witness:
  "\<exists>v p'. update_user sample_user_env no_faults (sample_user 1 ''admin'') [] 2 sample_change sample_accounts = (Inr v, p')
     \<and> node_granted (pn_db p') 2 2 \<and> \<not> node_granted (pn_db p') 2 9 \<and> tunnel_grant_num (pn_db p') 2 4 = Some 7"
proof -
  have "\<exists>v p'. update_user sample_user_env no_faults (sample_user 1 ''admin'') [] 2 sample_change sample_accounts = (Inr v, p')"
  proof -
    have "\<not> isl (fst (update_user sample_user_env no_faults (sample_user 1 ''admin'') [] 2 sample_change sample_accounts))"
      by code_simp
    then show ?thesis by (metis isl_def sum.exhaust prod.exhaust fst_conv)
  qed
  then obtain v p' where u: "update_user sample_user_env no_faults (sample_user 1 ''admin'') [] 2 sample_change sample_accounts = (Inr v, p')"
    by blast
  have r: "uu_nodes sample_change = Some [2, 9, 2]" "uu_tunnels sample_change = Some [4]"
    "uu_tunnel_limits sample_change = Some [(4, Some 0), (4, Some 7)]"
    by (simp_all add: sample_change_def)
  have n: "list_ex (live_node 2) (db_nodes (pn_db sample_accounts))" "\<not> list_ex (live_node 9) (db_nodes (pn_db sample_accounts))"
    "list_ex (live_tunnel 4) (db_tunnels (pn_db sample_accounts))"
    by (simp_all add: sample_accounts_def sample_db_def sample_node_def live_node_def live_tunnel_def sample_tunnel_def)
  from update_replaces_grants [OF u r(1,2), of 2 4] update_replaces_grants [OF u r(1,2), of 9 4] u n r(3) show ?thesis
    by auto
qed

subsection \<open>What deleting leaves behind\<close>

lemma wanted_cong:
  assumes "db_rules d = db_rules e" "db_nodes d = db_nodes e" "db_tunnels d = db_tunnels e" "db_hops d = db_hops e"
    "db_profiles d = db_profiles e"
  shows "wanted pe d = wanted pe e"
proof -
  have n: "find_node d = find_node e" and t: "find_tunnel d = find_tunnel e" and b: "select_rule d = select_rule e"
    unfolding fun_eq_iff find_node_def find_tunnel_def select_rule_def mbps_of_def assms by simp_all
  have r: "find_rule d = find_rule e" and h: "list_for_tunnel d = list_for_tunnel e" and i: "hop_input_of d = hop_input_of e"
    unfolding fun_eq_iff find_rule_def b list_for_tunnel_def hop_input_of_def n assms by simp_all
  have m: "node_mask d = node_mask e" and p: "tunnel_parts d = tunnel_parts e"
    unfolding fun_eq_iff node_mask_def tunnel_parts_def n t h i split_input_of_def by simp_all
  show ?thesis
    unfolding fun_eq_iff wanted_def r m p by simp
qed

lemma delete_user_ok:
  assumes "delete_user io auth ip i p = (Inr (), p')"
  obtains name where "p' = record_with_ip io (Some (cl_sub auth)) (as_option ip) ''user.delete'' (Some ''user'') (Some i)
    (Some name) True None (p\<lparr>pn_db := change_users (live_user i) (\<lambda>u. u\<lparr>us_deleted := True\<rparr>) (pn_db p)\<rparr>)"
proof -
  obtain x where "delete_user_stored io auth ip i x p = (Inr (), p')"
    using assms unfolding delete_user_def by (rule bindA_ask_ok)
  with that [of "us_username x"] show thesis
    by (cases "io ''delete_user''"; cases "filter (live_user i) (db_users (pn_db p)) = []")
      (simp_all add: delete_user_stored_def bindA_def write_db_def update_user_row_def reject_if_def)
qed

text \<open>Deleting an account does not stop its rules: no row of a rule changes and no command is sent, what a node is to
  run when it connects stays the same, and from then on neither of the sweeps finds the account, so that its rules go on
  without an expiry date and without a limit.\<close>

theorem deleted_user_runs_on:
  assumes "delete_user io auth ip i p = (Inr (), p')"
  shows "db_rules (pn_db p') = db_rules (pn_db p) \<and> pn_dispatcher p' = pn_dispatcher p
    \<and> wanted pe (pn_db p') = wanted pe (pn_db p)
    \<and> i \<notin> set (expired_users (pn_db p')) \<and> i \<notin> set (users_over_limit (pn_db p'))
    \<and> i \<notin> set (users_over_limit (refresh_rolling (pn_db p')))"
proof -
  obtain name where p': "p' = record_with_ip io (Some (cl_sub auth)) (as_option ip) ''user.delete'' (Some ''user'') (Some i)
      (Some name) True None (p\<lparr>pn_db := change_users (live_user i) (\<lambda>u. u\<lparr>us_deleted := True\<rparr>) (pn_db p)\<rparr>)"
    by (rule delete_user_ok [OF assms])
  have f: "db_rules (pn_db p') = db_rules (pn_db p)" "pn_dispatcher p' = pn_dispatcher p"
    "db_users (pn_db p') = map (\<lambda>u. if live_user i u then u\<lparr>us_deleted := True\<rparr> else u) (db_users (pn_db p))"
    "db_nodes (pn_db p') = db_nodes (pn_db p)" "db_tunnels (pn_db p') = db_tunnels (pn_db p)"
    "db_hops (pn_db p') = db_hops (pn_db p)" "db_profiles (pn_db p') = db_profiles (pn_db p)"
    unfolding p' by (simp_all add: change_users_def)
  have "wanted pe (pn_db p') = wanted pe (pn_db p)"
    by (rule wanted_cong) (simp_all add: f)
  moreover have "us_deleted u" if "u \<in> set (db_users (pn_db p'))" "us_id u = i" for u
  proof -
    from that(1) obtain v where v: "u = (if live_user i v then v\<lparr>us_deleted := True\<rparr> else v)"
      unfolding f(3) set_map by blast
    show ?thesis
    proof (cases "live_user i v")
      case False
      with v have "u = v" by (simp only: if_False)
      with False that(2) show ?thesis by (simp add: live_user_def)
    qed (simp add: v)
  qed
  then have "i \<notin> set (expired_users (pn_db p'))" "i \<notin> set (users_over_limit (pn_db p'))"
    "i \<notin> set (users_over_limit (refresh_rolling (pn_db p')))"
    by (auto simp: expired_users_def expired_def users_over_limit_def over_limit_def refresh_rolling_def split: if_splits)
  ultimately show ?thesis using f by blast
qed

lemma deleted_user_runs_on_witness:
  "\<exists>p'. delete_user no_faults (sample_user 1 ''admin'') [] 2 sample_accounts = (Inr (), p')
     \<and> db_rules (pn_db p') = db_rules (pn_db sample_accounts)"
proof -
  have "\<not> isl (fst (delete_user no_faults (sample_user 1 ''admin'') [] 2 sample_accounts))"
    by code_simp
  moreover obtain r p' where d: "delete_user no_faults (sample_user 1 ''admin'') [] 2 sample_accounts = (r, p')"
    by fastforce
  ultimately have "r = Inr ()"
    by (cases r) simp_all
  note d = d [unfolded this]
  from deleted_user_runs_on [OF d] d show ?thesis by blast
qed

text \<open>The checks and the statement of a deletion are not one transaction. Of two administrators who delete each other
  at the same time both pass the check, and none is left.\<close>

definition two_admins :: panel where
  "two_admins = \<lparr>pn_db = sample_db\<lparr>db_users := [metered_user\<lparr>us_role := ''admin''\<rparr>,
      metered_user\<lparr>us_id := 2, us_username := ''bob'', us_role := ''admin''\<rparr>], db_next_user := 3\<rparr>,
     pn_dispatcher = dispatcher_new\<rparr>"

definition both_deleted :: panel where
  "both_deleted =
     snd (delete_user_stored no_faults (sample_user 2 ''admin'') [] 1 metered_user
       (snd (delete_user_stored no_faults (sample_user 1 ''admin'') [] 2 metered_user two_admins)))"

theorem concurrent_deletes_lose_admin:
  "users_inv (pn_db two_admins)
   \<and> \<not> isl (delete_user_checks no_faults (sample_user 1 ''admin'') 2 (pn_db two_admins))
   \<and> \<not> isl (delete_user_checks no_faults (sample_user 2 ''admin'') 1 (pn_db two_admins))
   \<and> \<not> list_ex live_admin (db_users (pn_db both_deleted))"
proof (intro conjI)
  show "users_inv (pn_db two_admins)"
    by (simp add: users_inv_def two_admins_def metered_user_def live_admin_def)
  show "\<not> isl (delete_user_checks no_faults (sample_user 1 ''admin'') 2 (pn_db two_admins))"
    "\<not> isl (delete_user_checks no_faults (sample_user 2 ''admin'') 1 (pn_db two_admins))"
    "\<not> list_ex live_admin (db_users (pn_db both_deleted))"
    by code_simp+
qed

end
