(* ===== verification/Tunnels_Api.thy ===== *)
theory Tunnels_Api
  imports Users_Api
begin

text \<open>
  routes/tunnels.rs with the statements of models/tunnel.rs: creating a tunnel over a chain of nodes
  with a port for every hop after the first, changing, deleting and restarting it, its status and
  the lists. The traffic ratio is a rational; JSON has no numbers that are not finite.
\<close>

section \<open>Data\<close>

record create_tunnel_request =
  ct_name :: string
  ct_transport :: string
  ct_node_ids :: "int list"
  ct_ratio :: "rat option"
  ct_billing_mode :: "int option"

record update_tunnel_request =
  ut_name :: "string option"
  ut_ratio :: "rat option"
  ut_billing_mode :: "int option"

record tunnel_view =
  tv_id :: int
  tv_name :: string
  tv_transport :: string
  tv_status :: string
  tv_ratio :: rat
  tv_billing_mode :: int
  tv_hops_count :: int
  tv_rules_count :: int

text \<open>A hop as the insertion takes it: its place, its node and its port.\<close>

type_synonym new_hop = "int \<times> int \<times> int option"

section \<open>Statements\<close>

fun insert_hops :: "int \<Rightarrow> new_hop list \<Rightarrow> panel_db \<Rightarrow> sql_error + panel_db" where
  "insert_hops tid [] db = Inr db"
| "insert_hops tid ((ord, node, port) # rest) db =
     (if ord < 0 \<or> (case port of None \<Rightarrow> False | Some q \<Rightarrow> q < 1 \<or> 65535 < q) then Inl Check_Violation
      else if port \<noteq> None \<and> list_ex (\<lambda>h. hp_node_id h = node \<and> hp_inter_port h = port) (db_hops db) then Inl Unique_Port_Violation
      else if list_ex (\<lambda>h. hp_tunnel_id h = tid \<and> hp_ordinal h = ord) (db_hops db) then Inl Unique_Violation
      else if \<not> list_ex (\<lambda>n. nd_id n = node) (db_nodes db) then Inl Foreign_Key_Violation
      else insert_hops tid rest
        (db\<lparr>db_hops := db_hops db @ [\<lparr>hp_tunnel_id = tid, hp_ordinal = ord, hp_node_id = node, hp_inter_port = port\<rparr>]\<rparr>))"

text \<open>\<^verbatim>\<open>create_with_hops\<close>: one transaction; ratio and mode are the defaults of the schema.\<close>

definition create_with_hops :: "string \<Rightarrow> string \<Rightarrow> new_hop list \<Rightarrow> panel_db \<Rightarrow> (sql_error + int) \<times> panel_db" where
  "create_with_hops name transport hops db =
     (let tid = db_next_tunnel db;
          t = \<lparr>tu_id = tid, tu_name = name, tu_transport = transport, tu_status = ''unknown'', tu_ratio = 1,
               tu_billing_mode = 2, tu_created_at = db_now db, tu_rotated_at = None, tu_deleted = False\<rparr>
      in if transport \<notin> set [''tcp'', ''tls'', ''wss''] then (Inl Check_Violation, db)
         else if list_ex (\<lambda>x. tu_name x = name \<and> \<not> tu_deleted x) (db_tunnels db) then (Inl Unique_Violation, db)
         else (case insert_hops tid hops (db\<lparr>db_tunnels := db_tunnels db @ [t], db_next_tunnel := tid + 1\<rparr>) of
                 Inl e \<Rightarrow> (Inl e, db)
               | Inr db1 \<Rightarrow> (Inr tid, db1)))"

definition change_tunnels :: "(tunnel_row \<Rightarrow> bool) \<Rightarrow> (tunnel_row \<Rightarrow> tunnel_row) \<Rightarrow> panel_db \<Rightarrow> panel_db" where
  "change_tunnels p f db = db\<lparr>db_tunnels := map (\<lambda>t. if p t then f t else t) (db_tunnels db)\<rparr>"

definition count_tunnels :: "(tunnel_row \<Rightarrow> bool) \<Rightarrow> panel_db \<Rightarrow> nat" where
  "count_tunnels p db = length (filter p (db_tunnels db))"

definition update_tunnel_fields ::
    "int \<Rightarrow> string option \<Rightarrow> rat option \<Rightarrow> int option \<Rightarrow> panel_db \<Rightarrow> (sql_error + nat) \<times> panel_db" where
  "update_tunnel_fields i name ratio mode db =
     (if list_ex (live_tunnel i) (db_tunnels db)
         \<and> (case name of None \<Rightarrow> False
            | Some n \<Rightarrow> list_ex (\<lambda>x. tu_id x \<noteq> i \<and> tu_name x = n \<and> \<not> tu_deleted x) (db_tunnels db))
      then (Inl Unique_Violation, db)
      else (Inr (count_tunnels (live_tunnel i) db),
            change_tunnels (live_tunnel i) (\<lambda>t. t\<lparr>tu_name := coalesce name (tu_name t), tu_ratio := coalesce ratio (tu_ratio t),
              tu_billing_mode := coalesce mode (tu_billing_mode t)\<rparr>) db))"

text \<open>The hops go with the tunnel, so that their ports can be used again.\<close>

definition soft_delete_tunnel :: "int \<Rightarrow> panel_db \<Rightarrow> (sql_error + nat) \<times> panel_db" where
  "soft_delete_tunnel i db =
     (let n = count_tunnels (live_tunnel i) db;
          db1 = change_tunnels (live_tunnel i) (\<lambda>t. t\<lparr>tu_deleted := True\<rparr>) db in
      (Inr n, if 0 < n then db1\<lparr>db_hops := filter (\<lambda>h. hp_tunnel_id h \<noteq> i) (db_hops db1)\<rparr> else db1))"

definition set_tunnel_status :: "int \<Rightarrow> string \<Rightarrow> panel_db \<Rightarrow> panel_db" where
  "set_tunnel_status i status = change_tunnels (live_tunnel i) (\<lambda>t. t\<lparr>tu_status := status\<rparr>)"

definition active_rule_refs :: "panel_db \<Rightarrow> int \<Rightarrow> nat" where
  "active_rule_refs db t = count_rules (\<lambda>r. dr_tunnel_id r = Some t \<and> \<not> dr_deleted r) db"

text \<open>The join with the nodes, deleted ones included; alive is seen within 30 seconds.\<close>

definition hop_alive :: "panel_db \<Rightarrow> node_row \<Rightarrow> bool" where
  "hop_alive db n = (case nd_last_seen n of None \<Rightarrow> False | Some t \<Rightarrow> db_now db - 30 \<le> t)"

definition compute_status :: "panel_db \<Rightarrow> int \<Rightarrow> string" where
  "compute_status db i =
     (let ns = List.map_filter (\<lambda>h. find (\<lambda>n. nd_id n = hp_node_id h) (db_nodes db))
                 (filter (\<lambda>h. hp_tunnel_id h = i) (db_hops db));
          total_hops = length ns; alive = length (filter (hop_alive db) ns) in
      if total_hops = 0 then ''unknown'' else if alive = total_hops then ''up''
      else if alive = 0 then ''down'' else ''degraded'')"

section \<open>Checks\<close>

definition validate_billing :: "rat option \<Rightarrow> int option \<Rightarrow> api_error + unit" where
  "validate_billing ratio mode =
     bindR (option_check ratio (\<lambda>r. reject_if (\<not> (0 \<le> r \<and> r \<le> 100)) (Bad_Request ''ratio''))) (\<lambda>_.
       option_check mode (\<lambda>m. reject_if (m \<noteq> 1 \<and> m \<noteq> 2) (Bad_Request ''billing mode'')))"

fun map_sqlx_tunnel :: "sql_error \<Rightarrow> api_error" where
  "map_sqlx_tunnel Unique_Port_Violation = Bad_Request ''inter port conflict''"
| "map_sqlx_tunnel Unique_Violation = Bad_Request ''name taken''"
| "map_sqlx_tunnel Check_Violation = Bad_Request ''constraint''"
| "map_sqlx_tunnel e = Database e"

definition fetch_tunnel :: "query_faults \<Rightarrow> string \<Rightarrow> panel_db \<Rightarrow> int \<Rightarrow> api_error + tunnel_row" where
  "fetch_tunnel io q db i = bindR (read_db io q (find_tunnel db i)) (ok_or Not_Found)"

section \<open>Creating a tunnel\<close>

text \<open>The nodes of the chain, one query each: they exist and are online, and those that are dialled have an address.\<close>

fun chain_pools :: "query_faults \<Rightarrow> panel_db \<Rightarrow> nat \<Rightarrow> int list \<Rightarrow> api_error + (int \<times> int \<times> int) list" where
  "chain_pools io db ord [] = Inr []"
| "chain_pools io db ord (n # ns) =
     bindR (read_db io (''chain_node '' @ show_int n) (find_node db n)) (\<lambda>row.
     bindR (ok_or (Bad_Request ''no such node'') row) (\<lambda>row.
     bindR (reject_if (nd_status row \<noteq> ''online'') (Bad_Request ''node not online'')) (\<lambda>_.
     bindR (reject_if (1 \<le> ord \<and> trim (nd_public_ip row) = []) (Bad_Request ''no public ip'')) (\<lambda>_.
     bindR (chain_pools io db (ord + 1) ns) (\<lambda>pools.
       Inr ((n, nd_pool_min row, nd_pool_max row) # pools))))))"

definition hop_taken :: "panel_db \<Rightarrow> int \<Rightarrow> int list" where
  "hop_taken db n = map dr_listen_port (filter (\<lambda>r. dr_node_id r = n \<and> \<not> dr_deleted r) (db_rules db)) @ tunnel_ports db n"

text \<open>A port for every hop after the first: the first free one of the pool of its node.\<close>

fun hop_ports ::
    "query_faults \<Rightarrow> panel_db \<Rightarrow> int list \<Rightarrow> nat \<Rightarrow> (int \<times> int \<times> int) list \<Rightarrow> new_hop list \<Rightarrow> api_error + new_hop list" where
  "hop_ports io db reserved ord [] hops = Inr hops"
| "hop_ports io db reserved ord ((n, lo, hi) # rest) hops =
     (if ord = 0 then hop_ports io db reserved (ord + 1) rest (hops @ [(0, n, None)])
      else
        bindR (read_db io (''hop_taken '' @ show_int n) (hop_taken db n)) (\<lambda>used.
        bindR (ok_or (Bad_Request ''no port left'')
          (find (\<lambda>p. \<not> List.member reserved p \<and> \<not> List.member used p
                   \<and> \<not> List.member (List.map_filter (\<lambda>(_, m, q). if m = n then q else None) hops) p) [lo..hi])) (\<lambda>port.
          hop_ports io db reserved (ord + 1) rest (hops @ [(int ord, n, Some port)]))))"

definition create_tunnel_checks ::
    "route_env \<Rightarrow> query_faults \<Rightarrow> claims \<Rightarrow> create_tunnel_request \<Rightarrow> panel_db \<Rightarrow> api_error + new_hop list" where
  "create_tunnel_checks re io auth req db =
     bindR (require_admin auth) (\<lambda>_.
     bindR (reject_if (trim (ct_name req) = []) (Bad_Request ''name'')) (\<lambda>_.
     bindR (reject_if (ct_transport req \<notin> set [''tcp'', ''tls'', ''wss'']) (Bad_Request ''transport'')) (\<lambda>_.
     bindR (validate_billing (ct_ratio req) (ct_billing_mode req)) (\<lambda>_.
     bindR (reject_if (length (ct_node_ids req) < 2) (Bad_Request ''too few nodes'')) (\<lambda>_.
     bindR (reject_if (\<not> distinct (ct_node_ids req)) (Bad_Request ''repeated node'')) (\<lambda>_.
     bindR (chain_pools io db 0 (ct_node_ids req)) (\<lambda>pools.
       hop_ports io db (reserved_now re io db) 0 pools [])))))))"

definition create_tunnel :: "route_env \<Rightarrow> query_faults \<Rightarrow> claims \<Rightarrow> string \<Rightarrow> create_tunnel_request \<Rightarrow> int api" where
  "create_tunnel re io auth ip req =
     bindA (ask (create_tunnel_checks re io auth req)) (\<lambda>hops.
     bindA (write_db io ''create_with_hops'' map_sqlx_tunnel (create_with_hops (trim (ct_name req)) (ct_transport req) hops)) (\<lambda>tid.
     bindA (if ct_ratio req \<noteq> None \<or> ct_billing_mode req \<noteq> None
            then write_db io ''update_tunnel'' map_sqlx_tunnel (update_tunnel_fields tid None (ct_ratio req) (ct_billing_mode req))
            else returnA 0) (\<lambda>_.
     bindA (doA (record_with_ip io (Some (cl_sub auth)) (as_option ip) ''tunnel.create'' (Some ''tunnel'') (Some tid)
              (Some (trim (ct_name req))) True None)) (\<lambda>_.
     bindA (ask (\<lambda>db. read_db io ''reread_tunnel'' (find_tunnel db tid))) (\<lambda>t.
     bindA (case t of
              Some t \<Rightarrow> doA (\<lambda>p. snd (dispatch_tunnel_credentials (re_panel re) io t p)) | None \<Rightarrow> returnA ()) (\<lambda>_.
       returnA tid))))))"

section \<open>The other handlers\<close>

definition update_tunnel ::
    "query_faults \<Rightarrow> claims \<Rightarrow> string \<Rightarrow> int \<Rightarrow> update_tunnel_request \<Rightarrow> tunnel_view api" where
  "update_tunnel io auth ip i req =
     bindA (ask (\<lambda>_. require_admin auth)) (\<lambda>_.
     bindA (ask (\<lambda>_. option_check (ut_name req) (\<lambda>n. reject_if (trim n = []) (Bad_Request ''name'')))) (\<lambda>_.
     bindA (ask (\<lambda>_. validate_billing (ut_ratio req) (ut_billing_mode req))) (\<lambda>_.
     bindA (if ut_name req \<noteq> None \<or> ut_ratio req \<noteq> None \<or> ut_billing_mode req \<noteq> None
            then bindA (write_db io ''update_tunnel'' map_sqlx_tunnel
                     (update_tunnel_fields i (map_option trim (ut_name req)) (ut_ratio req) (ut_billing_mode req)))
                   (\<lambda>rows. ask (\<lambda>_. reject_if (rows = 0) Not_Found))
            else returnA ()) (\<lambda>_.
     bindA (ask (\<lambda>db. fetch_tunnel io ''find_tunnel'' db i)) (\<lambda>t.
     bindA (ask (\<lambda>db. read_db io ''list_hops'' (list_for_tunnel db i))) (\<lambda>hops.
     bindA (ask (\<lambda>db. read_db io ''rule_refs'' (active_rule_refs db i))) (\<lambda>refs.
     bindA (doA (record_with_ip io (Some (cl_sub auth)) (as_option ip) ''tunnel.update'' (Some ''tunnel'') (Some i)
              None True None)) (\<lambda>_.
       returnA \<lparr>tv_id = tu_id t, tv_name = tu_name t, tv_transport = tu_transport t, tv_status = tu_status t,
                tv_ratio = tu_ratio t, tv_billing_mode = tu_billing_mode t, tv_hops_count = int (length hops),
                tv_rules_count = int refs\<rparr>))))))))"

definition delete_tunnel :: "query_faults \<Rightarrow> claims \<Rightarrow> string \<Rightarrow> int \<Rightarrow> unit api" where
  "delete_tunnel io auth ip i =
     bindA (ask (\<lambda>_. require_admin auth)) (\<lambda>_.
     bindA (ask (\<lambda>db. fetch_tunnel io ''find_tunnel'' db i)) (\<lambda>_.
     bindA (ask (\<lambda>db. bindR (read_db io ''rule_refs'' (active_rule_refs db i)) (\<lambda>refs.
              reject_if (0 < refs) (Bad_Request ''tunnel has rules'')))) (\<lambda>_.
     bindA (ask (\<lambda>db. read_db io ''list_hops'' (map hp_node_id (list_for_tunnel db i)))) (\<lambda>nodes.
     bindA (write_db io ''delete_tunnel'' Database (soft_delete_tunnel i)) (\<lambda>rows.
     bindA (ask (\<lambda>_. reject_if (rows = 0) Not_Found)) (\<lambda>_.
     bindA (doA (dispatch_revoke_tunnel_credentials i nodes)) (\<lambda>_.
       doA (record_with_ip io (Some (cl_sub auth)) (as_option ip) ''tunnel.delete'' (Some ''tunnel'') (Some i)
              None True None))))))))"

definition restart_tunnel :: "route_env \<Rightarrow> query_faults \<Rightarrow> claims \<Rightarrow> string \<Rightarrow> int \<Rightarrow> bool api" where
  "restart_tunnel re io auth ip i =
     bindA (ask (\<lambda>_. require_admin auth)) (\<lambda>_.
     bindA (ask (\<lambda>db. fetch_tunnel io ''find_tunnel'' db i)) (\<lambda>t.
     bindA (\<lambda>p. case rotate_credentials_and_restart (re_panel re) io t p of
              (Inl _, p1) \<Rightarrow> (Inl Internal, p1) | (Inr sent, p1) \<Rightarrow> (Inr sent, p1)) (\<lambda>sent.
     bindA (doA (record_with_ip io (Some (cl_sub auth)) (as_option ip) ''tunnel.restart'' (Some ''tunnel'') (Some i)
              None True None)) (\<lambda>_.
       returnA sent))))"

text \<open>Storing the status may fail without the reader noticing.\<close>

definition refresh_status :: "query_faults \<Rightarrow> int \<Rightarrow> string api" where
  "refresh_status io i =
     bindA (ask (\<lambda>db. read_db io ''tunnel_status'' (compute_status db i))) (\<lambda>status.
     bindA (doA (\<lambda>p. if io ''set_status'' then p else p\<lparr>pn_db := set_tunnel_status i status (pn_db p)\<rparr>)) (\<lambda>_.
       returnA status))"

definition tunnel_status :: "query_faults \<Rightarrow> claims \<Rightarrow> int \<Rightarrow> string api" where
  "tunnel_status io auth i =
     bindA (ask (\<lambda>_. require_admin auth)) (\<lambda>_.
     bindA (ask (\<lambda>db. fetch_tunnel io ''find_tunnel'' db i)) (\<lambda>_. refresh_status io i))"

text \<open>The detail of a tunnel: its row, its status, its hops and the rules that use it, whoever owns them.\<close>

definition get_tunnel ::
    "query_faults \<Rightarrow> claims \<Rightarrow> int
     \<Rightarrow> (tunnel_row \<times> string \<times> (int \<times> int \<times> int option) list \<times> (int \<times> string \<times> string \<times> int \<times> bool) list) api" where
  "get_tunnel io auth i =
     bindA (ask (\<lambda>db. fetch_tunnel io ''find_tunnel'' db i)) (\<lambda>t.
     bindA (ask (\<lambda>db. if is_admin auth then Inr ()
              else bindR (read_db io ''tunnel_granted'' (tunnel_granted db (cl_sub auth) i))
                     (\<lambda>ok. reject_if (\<not> ok) Not_Found))) (\<lambda>_.
     bindA (refresh_status io i) (\<lambda>status.
     bindA (ask (\<lambda>db. read_db io ''list_hops'' (list_for_tunnel db i))) (\<lambda>hops.
     bindA (ask (\<lambda>db. read_db io ''list_rules'' (list_active_for_tunnel db i))) (\<lambda>rules.
       returnA (t, status, map (\<lambda>h. (hp_ordinal h, hp_node_id h, hp_inter_port h)) hops,
         map (\<lambda>r. (dr_id r, dr_name r, dr_protocol r, dr_listen_port r, dr_enabled r \<noteq> 0)) rules))))))"

definition tunnel_grants_handler :: "query_faults \<Rightarrow> claims \<Rightarrow> int \<Rightarrow> (int \<times> string \<times> int option) list api" where
  "tunnel_grants_handler io auth i =
     bindA (ask (\<lambda>_. require_admin auth)) (\<lambda>_. ask (\<lambda>db. read_db io ''users_for_tunnel'' (users_for_tunnel db i)))"

definition tunnels_newest_first :: "panel_db \<Rightarrow> tunnel_row list" where
  "tunnels_newest_first db = rev (sort_key tu_id (filter (\<lambda>t. \<not> tu_deleted t) (db_tunnels db)))"

definition list_tunnels ::
    "query_faults \<Rightarrow> claims \<Rightarrow> int option \<Rightarrow> int option \<Rightarrow> (tunnel_view list \<times> nat \<times> int \<times> int) api" where
  "list_tunnels io auth page page_size =
     (let page = max 1 (unwrap_or 1 page); psize = clamp 1 100 (unwrap_or 20 page_size) in
      bindA (ask (\<lambda>db.
        if is_admin auth then
          bindR (read_db io ''list_tunnels'' (take (nat psize) (drop (nat (list_offset page psize)) (tunnels_newest_first db)))) (\<lambda>ts.
          bindR (read_db io ''count_tunnels'' (length (tunnels_newest_first db))) (\<lambda>n. Inr (ts, n)))
        else
          bindR (read_db io ''granted_tunnels'' (map fst (granted_tunnel_grants db (cl_sub auth)))) (\<lambda>ids.
          bindR (if ids = [] then Inr [] else read_db io ''list_tunnels'' (filter (\<lambda>t. List.member ids (tu_id t)) (tunnels_newest_first db)))
            (\<lambda>ts. Inr (ts, length ts))))) (\<lambda>(ts, n).
      bindA (ask (\<lambda>db. if ts = [] then Inr (\<lambda>_. 0) else read_db io ''count_hops'' (\<lambda>i. length (list_for_tunnel db i)))) (\<lambda>hops.
      bindA (ask (\<lambda>db. if ts = [] then Inr (\<lambda>_. 0) else read_db io ''count_rules'' (active_rule_refs db))) (\<lambda>rules.
        returnA (map (\<lambda>t. \<lparr>tv_id = tu_id t, tv_name = tu_name t, tv_transport = tu_transport t, tv_status = tu_status t,
                tv_ratio = tu_ratio t, tv_billing_mode = tu_billing_mode t, tv_hops_count = int (hops (tu_id t)),
                tv_rules_count = int (rules (tu_id t))\<rparr>) ts, n, page, psize)))))"

end
