(* ===== verification/Tunnels_Props.thy ===== *)
theory Tunnels_Props
  imports Tunnels_Api
begin

text \<open>
  What the handlers of tunnels promise: the invariant of the tables of tunnels and hops over every
  run of calls, and what a new tunnel is given, a place and a port on every node of its chain.
\<close>

section \<open>The invariant of the tunnels\<close>

text \<open>
  Ids and the names of live tunnels are unique; every hop belongs to a live tunnel; in a tunnel no
  place and no node occurs twice; on a node no port of a hop occurs twice; the first hop and only it
  has no port.
\<close>

definition places_ok :: "hop_row list \<Rightarrow> bool" where
  "places_ok hs = distinct (map (\<lambda>h. (hp_tunnel_id h, hp_ordinal h)) hs)"

definition ports_ok :: "hop_row list \<Rightarrow> bool" where
  "ports_ok hs = distinct (map (\<lambda>h. (hp_node_id h, hp_inter_port h)) (filter (\<lambda>h. hp_inter_port h \<noteq> None) hs))"

definition hops_ok :: "hop_row list \<Rightarrow> bool" where
  "hops_ok hs =
     (places_ok hs \<and> ports_ok hs \<and> distinct (map (\<lambda>h. (hp_tunnel_id h, hp_node_id h)) hs)
      \<and> (\<forall>h \<in> set hs. hp_ordinal h = 0 \<longleftrightarrow> hp_inter_port h = None))"

definition tunnels_inv :: "panel_db \<Rightarrow> bool" where
  "tunnels_inv db =
     (distinct (map tu_id (db_tunnels db)) \<and> (\<forall>t \<in> set (db_tunnels db). tu_id t < db_next_tunnel db)
      \<and> distinct (map tu_name (filter (\<lambda>t. \<not> tu_deleted t) (db_tunnels db)))
      \<and> (\<forall>h \<in> set (db_hops db). list_ex (live_tunnel (hp_tunnel_id h)) (db_tunnels db))
      \<and> hops_ok (db_hops db))"

lemma tunnels_inv_cong:
  "db_tunnels d = db_tunnels e \<Longrightarrow> db_hops d = db_hops e \<Longrightarrow> db_next_tunnel d = db_next_tunnel e \<Longrightarrow> tunnels_inv d = tunnels_inv e"
  by (simp add: tunnels_inv_def)

lemma tunnels_inv_wf: "tunnels_inv db \<Longrightarrow> tunnels_wf db"
proof -
  assume i: "tunnels_inv db"
  have "distinct (map hp_node_id (filter (\<lambda>h. hp_tunnel_id h = t) (db_hops db)))" for t
  proof -
    have "distinct (map (\<lambda>h. (hp_tunnel_id h, hp_node_id h)) (filter (\<lambda>h. hp_tunnel_id h = t) (db_hops db)))"
      by (rule distinct_map_filter) (use i in \<open>simp add: tunnels_inv_def hops_ok_def\<close>)
    then show ?thesis
      by (auto simp: distinct_map inj_on_def)
  qed
  then show ?thesis
    by (simp add: tunnels_wf_def list_for_tunnel_def distinct_map inj_on_def)
qed

section \<open>Inserting the hops\<close>

definition hop_of :: "int \<Rightarrow> new_hop \<Rightarrow> hop_row" where
  "hop_of tid h = (case h of (ord, node, port) \<Rightarrow> \<lparr>hp_tunnel_id = tid, hp_ordinal = ord, hp_node_id = node, hp_inter_port = port\<rparr>)"

lemma hop_of_simps [simp]:
  "hp_tunnel_id (hop_of tid h) = tid" "hp_ordinal (hop_of tid h) = fst h" "hp_node_id (hop_of tid h) = fst (snd h)"
  "hp_inter_port (hop_of tid h) = snd (snd h)"
  by (simp_all add: hop_of_def split: prod.split)

lemma insert_hops_ok:
  "insert_hops tid hops db = Inr db' \<Longrightarrow>
   db' = db\<lparr>db_hops := db_hops db @ map (hop_of tid) hops\<rparr>
   \<and> (\<forall>h \<in> set hops. list_ex (\<lambda>n. nd_id n = fst (snd h)) (db_nodes db))
   \<and> (places_ok (db_hops db) \<longrightarrow> places_ok (db_hops db')) \<and> (ports_ok (db_hops db) \<longrightarrow> ports_ok (db_hops db'))"
proof (induction tid hops db arbitrary: db' rule: insert_hops.induct)
  case (1 tid db)
  then show ?case by simp
next
  case (2 tid ord node port rest db)
  let ?h = "\<lparr>hp_tunnel_id = tid, hp_ordinal = ord, hp_node_id = node, hp_inter_port = port\<rparr>"
  let ?db1 = "db\<lparr>db_hops := db_hops db @ [?h]\<rparr>"
  have c: "\<not> (ord < 0 \<or> (case port of None \<Rightarrow> False | Some q \<Rightarrow> q < 1 \<or> 65535 < q))"
    "\<not> (port \<noteq> None \<and> list_ex (\<lambda>h. hp_node_id h = node \<and> hp_inter_port h = port) (db_hops db))"
    "\<not> list_ex (\<lambda>h. hp_tunnel_id h = tid \<and> hp_ordinal h = ord) (db_hops db)"
    "\<not> \<not> list_ex (\<lambda>n. nd_id n = node) (db_nodes db)" and r: "insert_hops tid rest ?db1 = Inr db'"
    using "2.prems" by (auto split: if_splits)
  have o: "places_ok (db_hops ?db1)" if "places_ok (db_hops db)"
    using that c(3) by (auto simp: places_ok_def list_ex_iff)
  have p: "ports_ok (db_hops ?db1)" if "ports_ok (db_hops db)"
    using that c(2) by (cases "port = None") (auto simp: ports_ok_def list_ex_iff)
  note ih = "2.IH" [OF c r]
  have "db' = db\<lparr>db_hops := db_hops db @ map (hop_of tid) ((ord, node, port) # rest)\<rparr>"
    using ih by (simp add: hop_of_def)
  moreover have "\<forall>h \<in> set ((ord, node, port) # rest). list_ex (\<lambda>n. nd_id n = fst (snd h)) (db_nodes db)"
    using ih c(4) by simp
  ultimately show ?case
    using ih o p by blast
qed

section \<open>The ports of the hops\<close>

text \<open>What a hop of a new tunnel satisfies, for the pool of its node.\<close>

definition hop_fits :: "panel_db \<Rightarrow> int list \<Rightarrow> int \<times> int \<times> int \<Rightarrow> new_hop \<Rightarrow> bool" where
  "hop_fits db reserved pool h = (case pool of (n, lo, hi) \<Rightarrow> case h of (ord, m, port) \<Rightarrow>
     m = n \<and> (case port of
       None \<Rightarrow> ord = 0
     | Some q \<Rightarrow> ord \<noteq> 0 \<and> lo \<le> q \<and> q \<le> hi \<and> q \<notin> set reserved \<and> q \<notin> set (hop_taken db n)
         \<and> (\<forall>q'. lo \<le> q' \<longrightarrow> q' < q \<longrightarrow> q' \<in> set reserved \<or> q' \<in> set (hop_taken db n))))"

lemma find_upto:
  assumes "find P [a..b :: int] = Some q"
  shows "a \<le> q \<and> q \<le> b \<and> P q \<and> (\<forall>q'. a \<le> q' \<longrightarrow> q' < q \<longrightarrow> \<not> P q')"
  using find_sorted_least [of "[a..b]" P q] assms by (auto simp: not_less [symmetric])

lemma hop_ports_ok:
  assumes "hop_ports io db reserved ord pools hops = Inr out" "distinct (map fst pools)"
    "\<forall>h \<in> set hops. fst (snd h) \<notin> fst ` set pools"
  shows "\<exists>new. out = hops @ new \<and> list_all2 (hop_fits db reserved) pools new
    \<and> map fst new = map int [ord..<ord + length pools]"
  using assms
proof (induction io db reserved ord pools hops arbitrary: out rule: hop_ports.induct)
  case (1 io db reserved ord hops)
  then show ?case by simp
next
  case (2 io db reserved ord n lo hi rest hops)
  have upt: "map int [ord..<ord + length ((n, lo, hi) # rest)] = int ord # map int [ord + 1..<ord + 1 + length rest]"
    by (simp add: upt_rec)
  have rest: "distinct (map fst rest)" "n \<notin> fst ` set rest" "\<forall>h \<in> set hops. fst (snd h) \<notin> fst ` set rest"
    using "2.prems"(2,3) by auto
  show ?case
  proof (cases "ord = 0")
    case True
    with "2.prems"(1) have r: "hop_ports io db reserved (ord + 1) rest (hops @ [(0, n, None)]) = Inr out" by simp
    from "2.IH"(1) [OF True r rest(1)] rest obtain new
      where "out = (hops @ [(0, n, None)]) @ new" "list_all2 (hop_fits db reserved) rest new"
        "map fst new = map int [ord + 1..<ord + 1 + length rest]" by auto
    moreover have "hop_fits db reserved (n, lo, hi) (0, n, None)"
      by (simp add: hop_fits_def)
    ultimately show ?thesis
      unfolding upt using True by (intro exI [of _ "(0, n, None) # new"]) simp
  next
    case False
    let ?P = "\<lambda>p. \<not> List.member reserved p \<and> \<not> List.member (hop_taken db n) p
      \<and> \<not> List.member (List.map_filter (\<lambda>(_, m, q). if m = n then q else None) hops) p"
    obtain q where q: "find ?P [lo..hi] = Some q"
      and r: "hop_ports io db reserved (ord + 1) rest (hops @ [(int ord, n, Some q)]) = Inr out"
      and io: "\<not> io (''hop_taken '' @ show_int n)"
      using "2.prems"(1) False by (auto simp: bindR_eq_Inr)
    have none: "List.map_filter (\<lambda>(_, m, q). if m = n then q else None) hops = []"
      using "2.prems"(3) by (auto simp: map_filter_def filter_empty_conv split: if_splits)
    have f: "hop_fits db reserved (n, lo, hi) (int ord, n, Some q)"
      using find_upto [OF q] False unfolding none by (auto simp: hop_fits_def)
    from "2.IH"(2) [OF False r rest(1)] rest q io obtain new
      where "out = (hops @ [(int ord, n, Some q)]) @ new" "list_all2 (hop_fits db reserved) rest new"
        "map fst new = map int [ord + 1..<ord + 1 + length rest]" by auto
    with f show ?thesis
      unfolding upt by (intro exI [of _ "(int ord, n, Some q) # new"]) simp
  qed
qed

lemma chain_pools_ok:
  "chain_pools io db ord ns = Inr pools \<Longrightarrow> map fst pools = ns
   \<and> (\<forall>(n, lo, hi) \<in> set pools. \<exists>row. find_node db n = Some row \<and> nd_status row = ''online''
        \<and> lo = nd_pool_min row \<and> hi = nd_pool_max row)"
  by (induction io db ord ns arbitrary: pools rule: chain_pools.induct) (auto simp: bindR_eq_Inr)

section \<open>The statements keep the invariant\<close>

lemma live_tunnel_map:
  assumes "\<And>t. tu_id (f t) = tu_id t" "\<And>t. tu_deleted (f t) = tu_deleted t"
  shows "list_ex (live_tunnel i) (map f ts) = list_ex (live_tunnel i) ts"
  using assms by (induction ts) (simp_all add: live_tunnel_def)

lemma live_names_map:
  assumes "\<And>t. tu_deleted (f t) = tu_deleted t" "\<And>t. tu_name (f t) = tu_name t"
  shows "map tu_name (filter (\<lambda>t. \<not> tu_deleted t) (map f ts)) = map tu_name (filter (\<lambda>t. \<not> tu_deleted t) ts)"
  using assms by (induction ts) simp_all

lemma tunnels_inv_tame:
  assumes "tunnels_inv db" "\<And>t. tu_id (f t) = tu_id t" "\<And>t. tu_name (f t) = tu_name t" "\<And>t. tu_deleted (f t) = tu_deleted t"
    "db_tunnels db' = map f (db_tunnels db)" "db_hops db' = db_hops db" "db_next_tunnel db' = db_next_tunnel db"
  shows "tunnels_inv db'"
proof -
  have ids: "map tu_id (map f ts) = map tu_id ts" for ts
    by (simp add: assms(2))
  have "\<forall>t \<in> set (map f (db_tunnels db)). tu_id t < db_next_tunnel db"
    using assms(1,2) by (auto simp: tunnels_inv_def)
  then show ?thesis
    using assms(1) unfolding tunnels_inv_def assms(5-7) ids live_tunnel_map [OF assms(2,4)] live_names_map [OF assms(4,3)] by blast
qed

lemma tunnels_inv_change:
  assumes "tunnels_inv db" "\<And>t. tu_id (f t) = tu_id t" "\<And>t. tu_name (f t) = tu_name t" "\<And>t. tu_deleted (f t) = tu_deleted t"
  shows "tunnels_inv (change_tunnels p f db)"
  by (rule tunnels_inv_tame [where f = "\<lambda>t. if p t then f t else t"]) (use assms in \<open>simp_all add: change_tunnels_def\<close>)

lemma tunnels_inv_status [keeps_inv]: "tunnels_inv db \<Longrightarrow> tunnels_inv (set_tunnel_status i s db)"
  unfolding set_tunnel_status_def by (rule tunnels_inv_change) simp_all

lemma mark_rotated_inv: "tunnels_inv (pn_db p) \<Longrightarrow> tunnels_inv (pn_db (mark_rotated i p))"
  by (rule tunnels_inv_tame [where f = "\<lambda>t. if tu_id t = i then t\<lparr>tu_rotated_at := Some (db_now (pn_db p))\<rparr> else t" and db = "pn_db p"])
    (simp_all add: mark_rotated_def)

lemma tunnels_inv_audit [simp]: "tunnels_inv (pn_db (record_with_ip io a b c d e f g h p)) = tunnels_inv (pn_db p)"
  by (rule tunnels_inv_cong) (simp_all add: record_with_ip_def)

lemma credentials_inv:
  assumes "tunnels_inv (pn_db p)"
  shows "tunnels_inv (pn_db (snd (dispatch_tunnel_credentials pe io t p)))"
proof -
  obtain ok p1 where s: "send_credentials pe (tu_id t) (list_for_tunnel (pn_db p) (tu_id t)) p = (ok, p1)" by fastforce
  then have "pn_db p1 = pn_db p"
    using send_credentials_outcome [of pe "tu_id t" "list_for_tunnel (pn_db p) (tu_id t)" p] by simp
  with assms s mark_rotated_inv [of p1 "tu_id t"] show ?thesis
    by (cases ok) (simp_all add: dispatch_tunnel_credentials_def)
qed

lemma restart_each_db: "pn_db (snd (restart_each io rs any p)) = pn_db p"
proof (induction rs arbitrary: any p)
  case (Cons r rs)
  obtain x p1 where d: "dispatch_rule_restart io r p = (x, p1)" by fastforce
  with send_frame(5) [of io r p] have "pn_db p1 = pn_db p" by simp
  with Cons d show ?case by (cases x) simp_all
qed simp

lemma rotate_inv:
  assumes "tunnels_inv (pn_db p)"
  shows "tunnels_inv (pn_db (snd (rotate_credentials_and_restart pe io t p)))"
proof -
  obtain x p1 where d: "dispatch_tunnel_credentials pe io t p = (x, p1)" by fastforce
  with credentials_inv [OF assms, of pe io t] have "tunnels_inv (pn_db p1)" by simp
  with d show ?thesis
    by (cases x) (simp_all add: rotate_credentials_and_restart_def restart_each_db)
qed

text \<open>A new tunnel over distinct nodes.\<close>

lemma create_with_hops_inv:
  assumes "tunnels_inv db" "create_with_hops name transport hops db = (Inr tid, db')"
    "distinct (map (\<lambda>h. fst (snd h)) hops)" "\<forall>h \<in> set hops. fst h = 0 \<longleftrightarrow> snd (snd h) = None"
  shows "tunnels_inv db'"
proof -
  let ?t = "\<lparr>tu_id = db_next_tunnel db, tu_name = name, tu_transport = transport, tu_status = ''unknown'', tu_ratio = 1,
      tu_billing_mode = 2, tu_created_at = db_now db, tu_rotated_at = None, tu_deleted = False\<rparr>"
  let ?db1 = "db\<lparr>db_tunnels := db_tunnels db @ [?t], db_next_tunnel := db_next_tunnel db + 1\<rparr>"
  have n: "\<not> list_ex (\<lambda>x. tu_name x = name \<and> \<not> tu_deleted x) (db_tunnels db)"
    and i: "insert_hops (db_next_tunnel db) hops ?db1 = Inr db'" and tid: "tid = db_next_tunnel db"
    using assms(2) by (auto simp: create_with_hops_def Let_def split: if_splits sum.splits)
  note ok = insert_hops_ok [OF i]
  have db': "db_tunnels db' = db_tunnels db @ [?t]" "db_next_tunnel db' = db_next_tunnel db + 1"
    "db_hops db' = db_hops db @ map (hop_of tid) hops"
    using ok by (simp_all add: tid)
  have "db_hops ?db1 = db_hops db" by simp
  then have pp: "places_ok (db_hops db')" "ports_ok (db_hops db')"
    using ok assms(1) unfolding tunnels_inv_def hops_ok_def by metis+
  have new: "\<forall>t \<in> set (db_tunnels db). tu_id t < tid"
    using assms(1) by (simp add: tunnels_inv_def tid)
  have old: "\<forall>h \<in> set (db_hops db). hp_tunnel_id h < tid"
  proof
    fix h
    assume "h \<in> set (db_hops db)"
    then obtain t where "t \<in> set (db_tunnels db)" "tu_id t = hp_tunnel_id h"
      using assms(1) by (auto simp: tunnels_inv_def list_ex_iff live_tunnel_def)
    with new show "hp_tunnel_id h < tid" by auto
  qed
  have "tid \<notin> tu_id ` set (db_tunnels db)"
    using new by auto
  then have ids: "distinct (map tu_id (db_tunnels db'))"
    using assms(1) by (simp add: db'(1) tunnels_inv_def tid)
  have "name \<notin> tu_name ` set (filter (\<lambda>t. \<not> tu_deleted t) (db_tunnels db))"
    using n by (auto simp: list_ex_iff)
  then have names: "distinct (map tu_name (filter (\<lambda>t. \<not> tu_deleted t) (db_tunnels db')))"
    using assms(1) by (simp add: db'(1) tunnels_inv_def)
  have nodes: "distinct (map (\<lambda>h. (hp_tunnel_id h, hp_node_id h)) (db_hops db'))"
    using assms(1,3) old by (auto simp: db'(3) tunnels_inv_def hops_ok_def comp_def distinct_map inj_on_def)
  have first: "\<forall>h \<in> set (db_hops db'). hp_ordinal h = 0 \<longleftrightarrow> hp_inter_port h = None"
    using assms(1,4) by (auto simp: db'(3) tunnels_inv_def hops_ok_def)
  have hops: "hops_ok (db_hops db')"
    using pp nodes first unfolding hops_ok_def by blast
  have live: "\<forall>h \<in> set (db_hops db'). list_ex (live_tunnel (hp_tunnel_id h)) (db_tunnels db')"
    using assms(1) by (auto simp: db' tunnels_inv_def live_tunnel_def tid)
  have "\<forall>t \<in> set (db_tunnels db'). tu_id t < db_next_tunnel db'"
    using new by (auto simp: db' tid)
  then show ?thesis
    using ids names live hops unfolding tunnels_inv_def by blast
qed

lemma update_fields_inv:
  assumes "tunnels_inv db" "update_tunnel_fields i name ratio mode db = (Inr n, db')"
  shows "tunnels_inv db'"
proof -
  let ?f = "\<lambda>t. t\<lparr>tu_name := coalesce name (tu_name t), tu_ratio := coalesce ratio (tu_ratio t),
      tu_billing_mode := coalesce mode (tu_billing_mode t)\<rparr>"
  have db': "db' = change_tunnels (live_tunnel i) ?f db"
    and free: "list_ex (live_tunnel i) (db_tunnels db) \<Longrightarrow> name = Some m \<Longrightarrow>
      \<not> list_ex (\<lambda>x. tu_id x \<noteq> i \<and> tu_name x = m \<and> \<not> tu_deleted x) (db_tunnels db)" for m
    using assms(2) by (auto simp: update_tunnel_fields_def split: if_splits)
  let ?g = "\<lambda>t. if live_tunnel i t then ?f t else t"
  have g: "tu_id (?g t) = tu_id t" "tu_deleted (?g t) = tu_deleted t" for t by simp_all
  have rows: "db_tunnels db' = map ?g (db_tunnels db)" "db_hops db' = db_hops db" "db_next_tunnel db' = db_next_tunnel db"
    by (simp_all add: db' change_tunnels_def)
  have inj: "inj_on tu_name {t \<in> set (db_tunnels db). \<not> tu_deleted t}" and dist: "distinct (map tu_id (db_tunnels db))"
    using assms(1) by (auto simp: tunnels_inv_def distinct_map)
  have "inj_on (\<lambda>t. tu_name (?g t)) {t \<in> set (db_tunnels db). \<not> tu_deleted t}"
  proof (rule inj_onI)
    fix a b
    assume a: "a \<in> {t \<in> set (db_tunnels db). \<not> tu_deleted t}" and b: "b \<in> {t \<in> set (db_tunnels db). \<not> tu_deleted t}"
      and e: "tu_name (?g a) = tu_name (?g b)"
    have other: "tu_name y \<noteq> m" if "name = Some m" "live_tunnel i x" "x \<in> set (db_tunnels db)"
        "y \<in> set (db_tunnels db)" "\<not> tu_deleted y" "tu_id y \<noteq> i" for x y m
      using free [of m] that by (auto simp: list_ex_iff)
    consider (both) "tu_id a = i" "tu_id b = i" | (one) "tu_id a = i" "tu_id b \<noteq> i" | (two) "tu_id a \<noteq> i" "tu_id b = i"
      | (none) "tu_id a \<noteq> i" "tu_id b \<noteq> i" by blast
    then show "a = b"
    proof cases
      case both
      with a b dist show ?thesis by (auto simp: distinct_map inj_on_def)
    next
      case one
      with a b e other [of _ a b] inj show ?thesis
        by (cases name) (auto simp: live_tunnel_def coalesce_def inj_on_def)
    next
      case two
      with a b e other [of _ b a] inj show ?thesis
        by (cases name) (auto simp: live_tunnel_def coalesce_def inj_on_def)
    next
      case none
      with a b e inj show ?thesis by (auto simp: live_tunnel_def inj_on_def)
    qed
  qed
  moreover have "distinct (filter (\<lambda>t. \<not> tu_deleted t) (db_tunnels db))"
    using dist by (simp add: distinct_map)
  moreover have "map tu_name (filter (\<lambda>t. \<not> tu_deleted t) (map ?g ts)) = map (\<lambda>t. tu_name (?g t)) (filter (\<lambda>t. \<not> tu_deleted t) ts)" for ts
    unfolding filter_map comp_def g(2) map_map ..
  ultimately have names: "distinct (map tu_name (filter (\<lambda>t. \<not> tu_deleted t) (map ?g (db_tunnels db))))"
    by (simp only: distinct_map set_filter)
  have ids: "map tu_id (map ?g ts) = map tu_id ts" for ts
    unfolding map_map comp_def g(1) ..
  have "\<forall>t \<in> set (map ?g (db_tunnels db)). tu_id t < db_next_tunnel db"
    using assms(1) g(1) by (auto simp: tunnels_inv_def)
  then show ?thesis
    using assms(1) names live_tunnel_map [of ?g, OF g] unfolding tunnels_inv_def rows ids by blast
qed

lemma delete_tunnel_inv:
  assumes "tunnels_inv db"
  shows "tunnels_inv (snd (soft_delete_tunnel i db))"
proof (cases "0 < count_tunnels (live_tunnel i) db")
  case True
  let ?g = "\<lambda>t. if live_tunnel i t then t\<lparr>tu_deleted := True\<rparr> else t"
  let ?hs = "filter (\<lambda>h. hp_tunnel_id h \<noteq> i) (db_hops db)"
  have db': "snd (soft_delete_tunnel i db) = db\<lparr>db_tunnels := map ?g (db_tunnels db), db_hops := ?hs\<rparr>"
    using True by (simp add: soft_delete_tunnel_def change_tunnels_def Let_def)
  have ids: "map tu_id (map ?g ts) = map tu_id ts" for ts by simp
  have "filter (\<lambda>t. \<not> tu_deleted t) (map ?g ts) = filter (\<lambda>t. tu_id t \<noteq> i) (filter (\<lambda>t. \<not> tu_deleted t) ts)" for ts
    by (induction ts) (auto simp: live_tunnel_def)
  then have names: "distinct (map tu_name (filter (\<lambda>t. \<not> tu_deleted t) (map ?g (db_tunnels db))))"
    using distinct_map_filter [of tu_name "filter (\<lambda>t. \<not> tu_deleted t) (db_tunnels db)"] assms
    by (simp only: tunnels_inv_def)
  have live: "list_ex (live_tunnel j) (map ?g (db_tunnels db))" if "j \<noteq> i" "list_ex (live_tunnel j) (db_tunnels db)" for j
    using that by (auto simp: list_ex_iff live_tunnel_def intro!: bexI)
  have ports: "ports_ok ?hs"
    using distinct_map_filter [of "\<lambda>h. (hp_node_id h, hp_inter_port h)" "filter (\<lambda>h. hp_inter_port h \<noteq> None) (db_hops db)" "\<lambda>h. hp_tunnel_id h \<noteq> i"] assms
    by (simp add: tunnels_inv_def hops_ok_def ports_ok_def conj_commute)
  have hops: "hops_ok ?hs"
    using assms ports distinct_map_filter unfolding tunnels_inv_def hops_ok_def places_ok_def by auto
  have "\<forall>t \<in> set (map ?g (db_tunnels db)). tu_id t < db_next_tunnel db"
    using assms by (auto simp: tunnels_inv_def)
  then show ?thesis
    using assms names live hops unfolding tunnels_inv_def db' by (simp add: ids del: map_map)
next
  case False
  then have "snd (soft_delete_tunnel i db) = change_tunnels (live_tunnel i) (\<lambda>t. t\<lparr>tu_deleted := True\<rparr>) db"
    by (simp add: soft_delete_tunnel_def Let_def)
  moreover have "db_tunnels (change_tunnels (live_tunnel i) (\<lambda>t. t\<lparr>tu_deleted := True\<rparr>) db) = db_tunnels db"
    using False by (auto simp: change_tunnels_def count_tunnels_def filter_empty_conv intro: map_idI)
  ultimately show ?thesis
    using assms by (simp add: tunnels_inv_def change_tunnels_def)
qed

section \<open>The handlers keep the invariant\<close>

lemma tunnels_audit: "keepsA (\<lambda>p. tunnels_inv (pn_db p)) (doA (record_with_ip io a b c d e f g h))"
  by (rule keepsA_do) simp

lemma tunnels_write: "keepsA (\<lambda>p. tunnels_inv (pn_db p)) (write_db io q c (update_tunnel_fields i n r m))"
  by (rule keepsA_write) (rule update_fields_inv)

lemma tunnels_send: "keepsA (\<lambda>p. tunnels_inv (pn_db p)) (doA (\<lambda>p. snd (dispatch_tunnel_credentials pe io t p)))"
  by (rule keepsA_do) (rule credentials_inv)

lemmas tunnels_rules = keepsA_bind keepsA_ask tunnels_audit tunnels_write tunnels_send keepsA_if keeps_option

lemma create_checks_hops:
  assumes "create_tunnel_checks re io auth req db = Inr hops"
  obtains pools where "chain_pools io db 0 (ct_node_ids req) = Inr pools" "list_all2 (hop_fits db (reserved_now re io db)) pools hops"
    "map fst hops = map int [0..<length hops]" "map (\<lambda>h. fst (snd h)) hops = ct_node_ids req" "distinct (ct_node_ids req)"
    "2 \<le> length hops" "is_admin auth"
proof -
  obtain pools where p: "chain_pools io db 0 (ct_node_ids req) = Inr pools"
    and h: "hop_ports io db (reserved_now re io db) 0 pools [] = Inr hops"
    and d: "distinct (ct_node_ids req)" "\<not> length (ct_node_ids req) < 2" "is_admin auth"
    using assms by (auto simp: create_tunnel_checks_def bindR_eq_Inr require_admin_def split: if_splits)
  have ids: "map fst pools = ct_node_ids req"
    using chain_pools_ok [OF p] by blast
  with d(1) hop_ports_ok [OF h] have l: "list_all2 (hop_fits db (reserved_now re io db)) pools hops"
    "map fst hops = map int [0..<length pools]" by auto
  have "map (\<lambda>h. fst (snd h)) hops = map fst pools"
    using l(1) by (induction rule: list_all2_induct) (auto simp: hop_fits_def split: prod.splits)
  moreover have "length hops = length pools" "length pools = length (ct_node_ids req)"
    using list_all2_lengthD [OF l(1)] arg_cong [OF ids, of length] by simp_all
  ultimately show thesis
    using that [OF p l(1)] l(2) ids d by simp
qed

lemma fits_first:
  assumes "list_all2 (hop_fits db reserved) pools hops"
  shows "\<forall>h \<in> set hops. fst h = 0 \<longleftrightarrow> snd (snd h) = None"
  using assms by (induction rule: list_all2_induct) (auto simp: hop_fits_def split: prod.splits option.splits)

lemma create_tunnel_keeps: "keepsA (\<lambda>p. tunnels_inv (pn_db p)) (create_tunnel re io auth ip req)"
  unfolding create_tunnel_def
proof (rule keeps_ask_bind, goal_cases)
  case (1 p hops)
  from 1(2) obtain pools where h: "list_all2 (hop_fits (pn_db p) (reserved_now re io (pn_db p))) pools hops"
    "map (\<lambda>h. fst (snd h)) hops = ct_node_ids req" "distinct (ct_node_ids req)"
    by (rule create_checks_hops)
  let ?w = "write_db io ''create_with_hops'' map_sqlx_tunnel (create_with_hops (trim (ct_name req)) (ct_transport req) hops)"
  have w: "tunnels_inv (pn_db (snd (?w p)))"
    using create_with_hops_inv [OF 1(1) _ _ fits_first [OF h(1)]] h(2,3) 1(1)
    by (auto simp: write_db_def split: prod.split sum.split)
  show ?case
    by (rule keeps_at [where P = "\<lambda>p. tunnels_inv (pn_db p)" and m = ?w and p = p, OF w]) (intro tunnels_rules)
qed

lemma keeps_result: "keepsA P m \<Longrightarrow> keepsA P (\<lambda>p. case m p of (x, p1) \<Rightarrow> (f x, p1))"
  by (simp add: keepsA_def split: prod.split) (metis snd_conv)

lemma tunnel_handlers_keep:
  "keepsA (\<lambda>p. tunnels_inv (pn_db p)) (update_tunnel io auth ip i req)"
  "keepsA (\<lambda>p. tunnels_inv (pn_db p)) (delete_tunnel io auth ip i)"
  "keepsA (\<lambda>p. tunnels_inv (pn_db p)) (restart_tunnel re io auth ip i)"
  "keepsA (\<lambda>p. tunnels_inv (pn_db p)) (refresh_status io i)"
proof -
  show "keepsA (\<lambda>p. tunnels_inv (pn_db p)) (update_tunnel io auth ip i req)"
    unfolding update_tunnel_def by (intro tunnels_rules)
  have d: "keepsA (\<lambda>p. tunnels_inv (pn_db p)) (doA (dispatch_revoke_tunnel_credentials i ns))" for ns
    by (rule keepsA_do) (simp add: dispatch_revoke_tunnel_credentials_def)
  show "keepsA (\<lambda>p. tunnels_inv (pn_db p)) (delete_tunnel io auth ip i)"
    unfolding delete_tunnel_def
    by (intro tunnels_rules keepsA_write d) (metis delete_tunnel_inv snd_conv)
  have r: "keepsA (\<lambda>p. tunnels_inv (pn_db p)) (\<lambda>p. case rotate_credentials_and_restart pe io t p of
      (Inl _, p1) \<Rightarrow> (Inl Internal, p1) | (Inr sent, p1) \<Rightarrow> (Inr sent, p1))" for pe t
    using rotate_inv [of _ pe io t] by (auto simp: keepsA_def split: prod.split sum.split) (metis snd_conv)+
  show "keepsA (\<lambda>p. tunnels_inv (pn_db p)) (restart_tunnel re io auth ip i)"
    unfolding restart_tunnel_def by (intro tunnels_rules r)
  show "keepsA (\<lambda>p. tunnels_inv (pn_db p)) (refresh_status io i)"
    unfolding refresh_status_def by (intro tunnels_rules keepsA_do) (simp add: tunnels_inv_status)
qed

lemma tunnel_readers_keep:
  "keepsA (\<lambda>p. tunnels_inv (pn_db p)) (tunnel_status io auth i)" "keepsA (\<lambda>p. tunnels_inv (pn_db p)) (get_tunnel io auth i)"
  unfolding tunnel_status_def get_tunnel_def by (intro tunnels_rules tunnel_handlers_keep)+

datatype tunnel_call =
    Create_Tunnel query_faults claims string create_tunnel_request
  | Update_Tunnel query_faults claims string int update_tunnel_request
  | Delete_Tunnel query_faults claims string int
  | Restart_Tunnel query_faults claims string int
  | Tunnel_Status query_faults claims int
  | Get_Tunnel query_faults claims int

fun tunnel_step :: "route_env \<Rightarrow> panel \<Rightarrow> tunnel_call \<Rightarrow> panel" where
  "tunnel_step re p (Create_Tunnel io auth ip req) = snd (create_tunnel re io auth ip req p)"
| "tunnel_step re p (Update_Tunnel io auth ip i req) = snd (update_tunnel io auth ip i req p)"
| "tunnel_step re p (Delete_Tunnel io auth ip i) = snd (delete_tunnel io auth ip i p)"
| "tunnel_step re p (Restart_Tunnel io auth ip i) = snd (restart_tunnel re io auth ip i p)"
| "tunnel_step re p (Tunnel_Status io auth i) = snd (tunnel_status io auth i p)"
| "tunnel_step re p (Get_Tunnel io auth i) = snd (get_tunnel io auth i p)"

lemma tunnel_step_inv: "tunnels_inv (pn_db p) \<Longrightarrow> tunnels_inv (pn_db (tunnel_step re p c))"
  using create_tunnel_keeps tunnel_handlers_keep tunnel_readers_keep by (cases c) (auto simp: keepsA_def)

interpretation tunnel_machine: invariant_machine "tunnel_step re" "\<lambda>p. tunnels_inv (pn_db p)" for re
  by unfold_locales (rule tunnel_step_inv)

section \<open>Properties\<close>

text \<open>What the rest of the creation leaves of the hops and the nodes.\<close>

lemma create_with_hops_rows:
  assumes "create_with_hops name transport hops db = (Inr tid, db')"
  shows "db_hops db' = db_hops db @ map (hop_of tid) hops"
proof -
  obtain x where "insert_hops tid hops (db\<lparr>db_tunnels := db_tunnels db @ [x], db_next_tunnel := tid + 1\<rparr>) = Inr db'"
    using assms by (auto simp: create_with_hops_def Let_def split: if_splits sum.splits)
  from insert_hops_ok [OF this] show ?thesis by simp
qed

lemma create_rest_keeps:
  "okA (\<lambda>p. db_hops (pn_db p) = H)
     (bindA (if x then write_db io q c (update_tunnel_fields tid None r m) else returnA 0) (\<lambda>_.
      bindA (doA (record_with_ip io a1 a2 a3 a4 a5 a6 a7 a8)) (\<lambda>_.
      bindA (ask g) (\<lambda>t.
      bindA (case t of Some t \<Rightarrow> doA (\<lambda>p. snd (dispatch_tunnel_credentials pe io t p)) | None \<Rightarrow> returnA ()) (\<lambda>_.
        returnA tid)))))
     (\<lambda>i p. i = tid \<and> db_hops (pn_db p) = H)"
proof -
  let ?P = "\<lambda>p. db_hops (pn_db p) = H"
  have w: "keepsA ?P (write_db io q c (update_tunnel_fields tid None r m))"
    by (rule keepsA_write) (auto simp: update_tunnel_fields_def change_tunnels_def split: if_splits)
  have d: "db_hops (pn_db (snd (dispatch_tunnel_credentials pe io t p))) = db_hops (pn_db p)" for t p
  proof -
    obtain ok p1 where s: "send_credentials pe (tu_id t) (list_for_tunnel (pn_db p) (tu_id t)) p = (ok, p1)" by fastforce
    then have "pn_db p1 = pn_db p"
      using send_credentials_outcome [of pe "tu_id t" "list_for_tunnel (pn_db p) (tu_id t)" p] by simp
    with s show ?thesis
      by (cases ok) (simp_all add: dispatch_tunnel_credentials_def mark_rotated_def)
  qed
  have a: "keepsA ?P (doA (record_with_ip io a1 a2 a3 a4 a5 a6 a7 a8))"
    by (rule keepsA_do) simp
  have s: "keepsA ?P (doA (\<lambda>p. snd (dispatch_tunnel_credentials pe io t p)))" for t
    by (rule keepsA_do) (simp add: d)
  have "okA ?P (returnA tid) (\<lambda>i p. i = tid \<and> ?P p)"
    by (simp add: okA_def)
  then show ?thesis
    by (intro okA_bind [OF okA_keep] keepsA_if w keepsA_ask a keeps_option s)
qed

text \<open>C29. A tunnel that is created gets its hops in the order of the request, on distinct nodes that exist and are
  online. The first hop needs no port; every other one has the least port of the pool of its node that is neither
  reserved nor taken on that node by a rule or by another tunnel.\<close>

theorem create_tunnel_allocates:
  assumes "create_tunnel re io auth ip req p = (Inr tid, p')"
  shows "\<exists>new. db_hops (pn_db p') = db_hops (pn_db p) @ new \<and> map hp_node_id new = ct_node_ids req
    \<and> map hp_ordinal new = map int [0..<length new] \<and> 2 \<le> length new \<and> distinct (map hp_node_id new)
    \<and> (\<forall>h \<in> set new. hp_tunnel_id h = tid
        \<and> (\<exists>row. find_node (pn_db p) (hp_node_id h) = Some row \<and> nd_status row = ''online''
            \<and> (case hp_inter_port h of
                 None \<Rightarrow> hp_ordinal h = 0
               | Some q \<Rightarrow> hp_ordinal h \<noteq> 0 \<and> nd_pool_min row \<le> q \<and> q \<le> nd_pool_max row
                   \<and> q \<notin> set (reserved_now re io (pn_db p)) \<and> q \<notin> set (hop_taken (pn_db p) (hp_node_id h))
                   \<and> (\<forall>q'. nd_pool_min row \<le> q' \<and> q' < q \<longrightarrow>
                        q' \<in> set (reserved_now re io (pn_db p)) \<or> q' \<in> set (hop_taken (pn_db p) (hp_node_id h))))))"
proof -
  let ?db = "pn_db p" and ?res = "reserved_now re io (pn_db p)"
  obtain hops where c: "create_tunnel_checks re io auth req ?db = Inr hops"
    and r: "bindA (write_db io ''create_with_hops'' map_sqlx_tunnel
        (create_with_hops (trim (ct_name req)) (ct_transport req) hops)) (\<lambda>tid.
      bindA (if ct_ratio req \<noteq> None \<or> ct_billing_mode req \<noteq> None
             then write_db io ''update_tunnel'' map_sqlx_tunnel (update_tunnel_fields tid None (ct_ratio req) (ct_billing_mode req))
             else returnA 0) (\<lambda>_.
      bindA (doA (record_with_ip io (Some (cl_sub auth)) (as_option ip) ''tunnel.create'' (Some ''tunnel'') (Some tid)
              (Some (trim (ct_name req))) True None)) (\<lambda>_.
      bindA (ask (\<lambda>db. read_db io ''reread_tunnel'' (find_tunnel db tid))) (\<lambda>t.
      bindA (case t of
              Some t \<Rightarrow> doA (\<lambda>p. snd (dispatch_tunnel_credentials (re_panel re) io t p)) | None \<Rightarrow> returnA ()) (\<lambda>_.
        returnA tid))))) p = (Inr tid, p')"
    using assms unfolding create_tunnel_def by (rule bindA_ask_ok)
  obtain pools where ps: "chain_pools io ?db 0 (ct_node_ids req) = Inr pools" and f: "list_all2 (hop_fits ?db ?res) pools hops"
    and o: "map fst hops = map int [0..<length hops]" and n: "map (\<lambda>h. fst (snd h)) hops = ct_node_ids req"
    and d: "distinct (ct_node_ids req)" "2 \<le> length hops"
    by (rule create_checks_hops [OF c])
  from r obtain t' p1 where w: "write_db io ''create_with_hops'' map_sqlx_tunnel
      (create_with_hops (trim (ct_name req)) (ct_transport req) hops) p = (Inr t', p1)"
    and "bindA (if ct_ratio req \<noteq> None \<or> ct_billing_mode req \<noteq> None
             then write_db io ''update_tunnel'' map_sqlx_tunnel (update_tunnel_fields t' None (ct_ratio req) (ct_billing_mode req))
             else returnA 0) (\<lambda>_.
      bindA (doA (record_with_ip io (Some (cl_sub auth)) (as_option ip) ''tunnel.create'' (Some ''tunnel'') (Some t')
              (Some (trim (ct_name req))) True None)) (\<lambda>_.
      bindA (ask (\<lambda>db. read_db io ''reread_tunnel'' (find_tunnel db t'))) (\<lambda>t.
      bindA (case t of
              Some t \<Rightarrow> doA (\<lambda>p. snd (dispatch_tunnel_credentials (re_panel re) io t p)) | None \<Rightarrow> returnA ()) (\<lambda>_.
        returnA t')))) p1 = (Inr tid, p')"
    by (rule bindA_ok)
  with okA_D [OF create_rest_keeps [of "db_hops (pn_db p1)"]] have same: "tid = t'" "db_hops (pn_db p') = db_hops (pn_db p1)"
    by blast+
  from w have "create_with_hops (trim (ct_name req)) (ct_transport req) hops ?db = (Inr t', pn_db p1)"
    by (auto simp: write_db_def split: if_splits prod.splits sum.splits)
  with same have rows: "db_hops (pn_db p') = db_hops ?db @ map (hop_of tid) hops"
    by (simp add: create_with_hops_rows)
  have ok: "\<exists>row. find_node ?db (fst (snd h)) = Some row \<and> nd_status row = ''online''
      \<and> (case snd (snd h) of None \<Rightarrow> fst h = 0
         | Some q \<Rightarrow> fst h \<noteq> 0 \<and> nd_pool_min row \<le> q \<and> q \<le> nd_pool_max row \<and> q \<notin> set ?res \<and> q \<notin> set (hop_taken ?db (fst (snd h)))
             \<and> (\<forall>q'. nd_pool_min row \<le> q' \<and> q' < q \<longrightarrow> q' \<in> set ?res \<or> q' \<in> set (hop_taken ?db (fst (snd h)))))"
    if "h \<in> set hops" for h
  proof -
    from f that obtain pool where fit: "pool \<in> set pools" "hop_fits ?db ?res pool h"
      by (metis list_all2_conv_all_nth in_set_conv_nth)
    obtain n lo hi where "pool = (n, lo, hi)"
      by (rule prod_cases3)
    with fit have pool: "(n, lo, hi) \<in> set pools" "hop_fits ?db ?res (n, lo, hi) h" by simp_all
    with chain_pools_ok [OF ps] obtain row where "find_node ?db n = Some row" "nd_status row = ''online''"
      "lo = nd_pool_min row" "hi = nd_pool_max row" by blast
    with pool(2) show ?thesis
      by (cases h; cases "snd (snd h)") (auto simp: hop_fits_def)
  qed
  have "map hp_node_id (map (hop_of tid) hops) = ct_node_ids req" "map hp_ordinal (map (hop_of tid) hops) = map int [0..<length hops]"
    using n o by (simp_all add: comp_def)
  moreover have "\<forall>h \<in> set (map (hop_of tid) hops). hp_tunnel_id h = tid
      \<and> (\<exists>row. find_node ?db (hp_node_id h) = Some row \<and> nd_status row = ''online''
          \<and> (case hp_inter_port h of None \<Rightarrow> hp_ordinal h = 0
             | Some q \<Rightarrow> hp_ordinal h \<noteq> 0 \<and> nd_pool_min row \<le> q \<and> q \<le> nd_pool_max row \<and> q \<notin> set ?res
                 \<and> q \<notin> set (hop_taken ?db (hp_node_id h))
                 \<and> (\<forall>q'. nd_pool_min row \<le> q' \<and> q' < q \<longrightarrow> q' \<in> set ?res \<or> q' \<in> set (hop_taken ?db (hp_node_id h)))))"
    unfolding set_map ball_simps(9) hop_of_simps using ok by blast
  ultimately show ?thesis
    using rows d by (intro exI [of _ "map (hop_of tid) hops"]) (simp only: length_map simp_thms)
qed

definition chain_request :: create_tunnel_request where
  "chain_request = \<lparr>ct_name = ''chain'', ct_transport = ''tls'', ct_node_ids = [1, 2], ct_ratio = None, ct_billing_mode = Some 1\<rparr>"

definition chain_panel :: panel where
  "chain_panel = \<lparr>pn_db = sample_db\<lparr>db_nodes := map (\<lambda>n. n\<lparr>nd_pool_min := 20, nd_pool_max := 24\<rparr>) (db_nodes sample_db)\<rparr>,
     pn_dispatcher = dispatcher_new\<rparr>"

lemma create_tunnel_allocates_witness:
  "\<exists>tid p'. create_tunnel sample_routes no_faults (sample_user 1 ''admin'') [] chain_request chain_panel = (Inr tid, p')
     \<and> (\<exists>h \<in> set (db_hops (pn_db p')). hp_tunnel_id h = tid \<and> hp_node_id h = 2)"
proof -
  have "\<not> isl (fst (create_tunnel sample_routes no_faults (sample_user 1 ''admin'') [] chain_request chain_panel))"
    by code_simp
  moreover obtain r p' where c: "create_tunnel sample_routes no_faults (sample_user 1 ''admin'') [] chain_request chain_panel = (r, p')"
    by fastforce
  ultimately obtain tid where r: "r = Inr tid"
    by (cases r) simp_all
  from create_tunnel_allocates [OF c [unfolded r]] obtain new where n: "db_hops (pn_db p') = db_hops (pn_db chain_panel) @ new"
    "map hp_node_id new = [1, 2]" "\<forall>h \<in> set new. hp_tunnel_id h = tid"
    by (auto simp: chain_request_def)
  then have "2 \<in> set (map hp_node_id new)" by simp
  with n c r show ?thesis by fastforce
qed

end
