(* ===== verification/Nodes_Api.thy ===== *)
theory Nodes_Api
  imports Users_Api Control_Props Rules_Commands
begin

text \<open>
  routes/nodes.rs with the statements of models/node.rs: what an administrator does with the nodes
  and what a user sees of them. Deleting a node and revoking its certificate are in
  \<^theory_text>\<open>Control_Service\<close>, since they end sessions. The token of a new node, hashing it, issuing its
  certificate, the files of \<^verbatim>\<open>agent-dist\<close> and the order of a sorted list are arguments.
\<close>

section \<open>Data\<close>

record issued_cert =
  ic_cert_pem :: string
  ic_key_pem :: string
  ic_serial :: string
  ic_fingerprint :: string

record node_env =
  ne_order :: "string \<Rightarrow> bool \<Rightarrow> node_row list \<Rightarrow> node_row list"
  ne_token :: string
  ne_hash :: "string \<Rightarrow> string"
  ne_issue :: "int \<Rightarrow> issued_cert option"
  ne_ca_pem :: string
  ne_base_url :: "string option"
  ne_dist_sha :: "string \<Rightarrow> string option"
  ne_version :: string

record node_view =
  nv_id :: int
  nv_name :: string
  nv_region :: string
  nv_public_ip :: string
  nv_display_address :: string
  nv_grpc_endpoint :: string
  nv_status :: string
  nv_last_seen :: "int option"
  nv_cpu_usage :: rat
  nv_memory_usage :: rat
  nv_load_average :: rat
  nv_rx_total :: int
  nv_tx_total :: int
  nv_pool_min :: int
  nv_pool_max :: int
  nv_agent_version :: string
  nv_block_protocols :: int
  nv_has_ipv4 :: "int option"
  nv_has_ipv6 :: "int option"
  nv_created_at :: int
  nv_updated_at :: int

definition node_view_of :: "node_row \<Rightarrow> node_view" where
  "node_view_of n =
     \<lparr>nv_id = nd_id n, nv_name = nd_name n, nv_region = nd_region n, nv_public_ip = nd_public_ip n,
      nv_display_address = nd_display_address n, nv_grpc_endpoint = nd_grpc_endpoint n, nv_status = nd_status n,
      nv_last_seen = nd_last_seen n, nv_cpu_usage = nd_cpu_usage n, nv_memory_usage = nd_memory_usage n,
      nv_load_average = nd_load_average n, nv_rx_total = nd_rx_total n, nv_tx_total = nd_tx_total n,
      nv_pool_min = nd_pool_min n, nv_pool_max = nd_pool_max n, nv_agent_version = nd_agent_version n,
      nv_block_protocols = nd_block_protocols n, nv_has_ipv4 = nd_has_ipv4 n, nv_has_ipv6 = nd_has_ipv6 n,
      nv_created_at = nd_created_at n, nv_updated_at = nd_updated_at n\<rparr>"

definition sanitize_for_user :: "node_view \<Rightarrow> node_view" where
  "sanitize_for_user v =
     (let v1 = (if trim (nv_display_address v) \<noteq> [] then v\<lparr>nv_public_ip := trim (nv_display_address v)\<rparr> else v) in
      v1\<lparr>nv_display_address := [], nv_grpc_endpoint := [], nv_agent_version := [], nv_block_protocols := 0,
         nv_cpu_usage := 0, nv_memory_usage := 0, nv_load_average := 0, nv_rx_total := 0, nv_tx_total := 0\<rparr>)"

record create_node_request =
  cn_name :: string
  cn_region :: string
  cn_public_ip :: string
  cn_display_address :: string
  cn_grpc_endpoint :: string
  cn_pool_min :: "u16 option"
  cn_pool_max :: "u16 option"

record create_node_response =
  cx_node :: node_view
  cx_agent_token :: string
  cx_ca_pem :: string
  cx_cert_pem :: string
  cx_key_pem :: string

record update_node_request =
  un_name :: "string option"
  un_region :: "string option"
  un_public_ip :: "string option"
  un_display_address :: "string option"
  un_grpc_endpoint :: "string option"
  un_pool_min :: "u16 option"
  un_pool_max :: "u16 option"
  un_block_protocols :: "int option"

section \<open>Statements\<close>

definition NODE_SORT_FIELDS :: "string list" where
  "NODE_SORT_FIELDS = [''id'', ''name'', ''status'', ''region'', ''created_at'', ''updated_at'']"

definition node_filter :: "string option \<Rightarrow> node_row \<Rightarrow> bool" where
  "node_filter search n = (\<not> nd_deleted n
     \<and> (case search of None \<Rightarrow> True
        | Some s \<Rightarrow> like_match (like_pattern s) (nd_name n) \<or> like_match (like_pattern s) (nd_region n)
            \<or> like_match (like_pattern s) (nd_public_ip n)))"

definition list_nodes_paged ::
    "node_env \<Rightarrow> string \<Rightarrow> bool \<Rightarrow> nat \<Rightarrow> nat \<Rightarrow> string option \<Rightarrow> panel_db \<Rightarrow> node_row list" where
  "list_nodes_paged ne field desc limit offset search db =
     take limit (drop offset (ne_order ne field desc (filter (node_filter search) (db_nodes db))))"

definition count_nodes :: "string option \<Rightarrow> panel_db \<Rightarrow> nat" where
  "count_nodes search db = length (filter (node_filter search) (db_nodes db))"

definition list_by_ids :: "panel_db \<Rightarrow> int list \<Rightarrow> node_row list" where
  "list_by_ids db ids = rev (sort_key nd_id (filter (\<lambda>n. List.member ids (nd_id n) \<and> \<not> nd_deleted n) (db_nodes db)))"

definition find_node_by_name :: "panel_db \<Rightarrow> string \<Rightarrow> node_row option" where
  "find_node_by_name db name = find (\<lambda>n. nd_name n = name \<and> \<not> nd_deleted n) (db_nodes db)"

text \<open>The \<^verbatim>\<open>CHECK\<close> constraints of the table and the unique index on the names of the live nodes.\<close>

definition node_checks :: "node_row \<Rightarrow> bool" where
  "node_checks n =
     (nd_status n \<in> set [''online'', ''offline'', ''unknown''] \<and> 1 \<le> nd_pool_min n \<and> nd_pool_min n \<le> 65535
      \<and> 1 \<le> nd_pool_max n \<and> nd_pool_max n \<le> 65535 \<and> nd_pool_min n \<le> nd_pool_max n)"

definition node_constraints :: "panel_db \<Rightarrow> node_row \<Rightarrow> sql_error option" where
  "node_constraints db n =
     (if \<not> node_checks n then Some Check_Violation
      else if list_ex (\<lambda>x. nd_id x \<noteq> nd_id n \<and> \<not> nd_deleted x \<and> nd_name x = nd_name n) (db_nodes db)
        then Some Unique_Violation
      else None)"

definition insert_node ::
    "string \<Rightarrow> string \<Rightarrow> string \<Rightarrow> string \<Rightarrow> string \<Rightarrow> string \<Rightarrow> int \<Rightarrow> int \<Rightarrow> panel_db \<Rightarrow> (sql_error + int) \<times> panel_db" where
  "insert_node name region public_ip display endpoint token_hash lo hi db =
     (let n = \<lparr>nd_id = db_next_node db, nd_name = name, nd_region = region, nd_public_ip = public_ip,
               nd_display_address = display, nd_grpc_endpoint = endpoint, nd_token_hash = token_hash,
               nd_cert_serial = None, nd_cert_fingerprint = None, nd_status = ''unknown'', nd_last_seen = None,
               nd_cpu_usage = 0, nd_memory_usage = 0, nd_load_average = 0, nd_rx_total = 0, nd_tx_total = 0,
               nd_pool_min = lo, nd_pool_max = hi, nd_agent_version = [], nd_block_protocols = 0,
               nd_has_ipv4 = None, nd_has_ipv6 = None, nd_created_at = db_now db, nd_updated_at = db_now db, nd_deleted = False\<rparr>
      in case node_constraints db n of
           Some e \<Rightarrow> (Inl e, db)
         | None \<Rightarrow> (Inr (nd_id n), db\<lparr>db_nodes := db_nodes db @ [n], db_next_node := nd_id n + 1\<rparr>))"

definition node_patch :: "update_node_request \<Rightarrow> node_row \<Rightarrow> node_row" where
  "node_patch req n =
     n\<lparr>nd_name := coalesce (map_option trim (un_name req)) (nd_name n),
       nd_region := coalesce (un_region req) (nd_region n),
       nd_public_ip := coalesce (un_public_ip req) (nd_public_ip n),
       nd_display_address := coalesce (map_option trim (un_display_address req)) (nd_display_address n),
       nd_grpc_endpoint := coalesce (un_grpc_endpoint req) (nd_grpc_endpoint n),
       nd_pool_min := coalesce (map_option uint (un_pool_min req)) (nd_pool_min n),
       nd_pool_max := coalesce (map_option uint (un_pool_max req)) (nd_pool_max n)\<rparr>"

definition update_node_row :: "int \<Rightarrow> update_node_request \<Rightarrow> panel_db \<Rightarrow> (sql_error + nat) \<times> panel_db" where
  "update_node_row i req db = (case find_node db i of
     None \<Rightarrow> (Inr 0, db)
   | Some n \<Rightarrow>
       (case node_constraints db (node_patch req n) of
          Some e \<Rightarrow> (Inl e, db)
        | None \<Rightarrow> (Inr (length (filter (live_node i) (db_nodes db))), change_nodes (live_node i) (node_patch req) db)))"

definition set_block_protocols :: "int \<Rightarrow> int \<Rightarrow> panel_db \<Rightarrow> panel_db" where
  "set_block_protocols i m = change_nodes (live_node i) (\<lambda>n. n\<lparr>nd_block_protocols := m\<rparr>)"

definition find_active_without_cert :: "panel_db \<Rightarrow> int list" where
  "find_active_without_cert db = sort (map nd_id (filter (\<lambda>n. \<not> nd_deleted n \<and> nd_cert_serial n = None) (db_nodes db)))"

section \<open>Checks\<close>

definition normalize_port_pool :: "u16 option \<Rightarrow> u16 option \<Rightarrow> u16 \<Rightarrow> u16 \<Rightarrow> api_error + (int \<times> int)" where
  "normalize_port_pool lo hi default_lo default_hi =
     (let l = unwrap_or default_lo lo; h = unwrap_or default_hi hi in
      bindR (reject_if (l = 0 \<or> h = 0) (Bad_Request ''port pool range'')) (\<lambda>_.
      bindR (reject_if (h < l) (Bad_Request ''port pool order'')) (\<lambda>_. Inr (uint l, uint h))))"

fun map_sqlx_node :: "sql_error \<Rightarrow> api_error" where
  "map_sqlx_node Unique_Violation = Bad_Request ''node name taken''"
| "map_sqlx_node Unique_Port_Violation = Bad_Request ''node name taken''"
| "map_sqlx_node Check_Violation = Bad_Request ''constraint''"
| "map_sqlx_node e = Database e"

definition update_node_checks :: "claims \<Rightarrow> update_node_request \<Rightarrow> api_error + unit" where
  "update_node_checks auth req =
     bindR (require_admin auth) (\<lambda>_.
     bindR (reject_if (map_option trim (un_name req) = Some []) (Bad_Request ''name'')) (\<lambda>_.
     bindR (case (un_pool_min req, un_pool_max req) of
              (Some lo, Some hi) \<Rightarrow> reject_if (lo < 1 \<or> hi < 1 \<or> hi < lo) (Bad_Request ''port pool'')
            | (lo, hi) \<Rightarrow> reject_if (lo = Some 0 \<or> hi = Some 0) (Bad_Request ''port pool'')) (\<lambda>_.
       option_check (un_block_protocols req) (\<lambda>m. reject_if (\<not> (0 \<le> m \<and> m \<le> 7)) (Bad_Request ''protocol mask'')))))"

definition fetch_node :: "query_faults \<Rightarrow> string \<Rightarrow> panel_db \<Rightarrow> int \<Rightarrow> api_error + node_row" where
  "fetch_node io q db i = bindR (read_db io q (find_node db i)) (ok_or Not_Found)"

section \<open>Reading\<close>

definition list_nodes ::
    "node_env \<Rightarrow> query_faults \<Rightarrow> claims \<Rightarrow> int option \<Rightarrow> int option \<Rightarrow> string option \<Rightarrow> string option \<Rightarrow> string option
     \<Rightarrow> (node_view list \<times> nat \<times> int \<times> int) api" where
  "list_nodes ne io auth page page_size sort_by order search =
     (let page = max 1 (unwrap_or 1 page); psize = clamp 1 100 (unwrap_or 20 page_size) in
      if \<not> is_admin auth then
        bindA (ask (\<lambda>db. read_db io ''granted_nodes'' (granted_node_ids db (cl_sub auth)))) (\<lambda>ids.
        bindA (ask (\<lambda>db. if ids = [] then Inr [] else read_db io ''nodes_by_ids'' (list_by_ids db ids))) (\<lambda>rows.
        (let items = map (\<lambda>n. sanitize_for_user (node_view_of n)) rows in
         returnA (items, length items, page, psize))))
      else
        (let field = unwrap_or ''id'' sort_by; dir = unwrap_or ''desc'' order;
             search = (case map_option trim search of Some s \<Rightarrow> if s = [] then None else Some s | None \<Rightarrow> None) in
         bindA (ask (\<lambda>_. reject_if (field \<notin> set NODE_SORT_FIELDS) (Bad_Request ''sort''))) (\<lambda>_.
         bindA (ask (\<lambda>_. reject_if (dir \<notin> set [''asc'', ''desc'']) (Bad_Request ''order''))) (\<lambda>_.
         bindA (ask (\<lambda>db. read_db io ''list_nodes''
           (list_nodes_paged ne field (dir = ''desc'') (nat psize) (nat (list_offset page psize)) search db))) (\<lambda>rows.
         bindA (ask (\<lambda>db. read_db io ''count_nodes'' (count_nodes search db))) (\<lambda>n.
           returnA (map node_view_of rows, n, page, psize)))))))"

definition get_node :: "query_faults \<Rightarrow> claims \<Rightarrow> int \<Rightarrow> node_view api" where
  "get_node io auth i =
     bindA (ask (\<lambda>db. fetch_node io ''find_node'' db i)) (\<lambda>n.
     bindA (ask (\<lambda>db. if is_admin auth then Inr () else
       bindR (read_db io ''node_granted'' (node_granted db (cl_sub auth) i)) (\<lambda>granted. reject_if (\<not> granted) Not_Found))) (\<lambda>_.
       returnA (if is_admin auth then node_view_of n else sanitize_for_user (node_view_of n))))"

definition node_grants :: "query_faults \<Rightarrow> claims \<Rightarrow> int \<Rightarrow> (int \<times> string \<times> int option) list api" where
  "node_grants io auth i =
     bindA (ask (\<lambda>_. require_admin auth)) (\<lambda>_. ask (\<lambda>db. read_db io ''node_users'' (users_for_node db i)))"

text \<open>The last 144 buckets of a node, the newest first; a bucket occurs once per node.\<close>

definition node_series :: "panel_db \<Rightarrow> int \<Rightarrow> node_stat_row list" where
  "node_series db i = take 144 (rev (sort_key ns_bucket_at (filter (\<lambda>s. ns_node_id s = i) (db_node_stats db))))"

definition node_stats ::
    "query_faults \<Rightarrow> claims \<Rightarrow> int \<Rightarrow> (string \<times> int option \<times> rat \<times> rat \<times> rat \<times> int \<times> int \<times> node_stat_row list) api" where
  "node_stats io auth i =
     bindA (ask (\<lambda>_. require_admin auth)) (\<lambda>_.
     bindA (ask (\<lambda>db. fetch_node io ''find_node'' db i)) (\<lambda>n.
     bindA (ask (\<lambda>db. read_db io ''node_series'' (node_series db i))) (\<lambda>series.
       returnA (nd_status n, nd_last_seen n, nd_cpu_usage n, nd_memory_usage n, nd_load_average n, nd_rx_total n,
                nd_tx_total n, series))))"

text \<open>The stream of node events: who may open it, and what one event becomes.\<close>

definition stream_claims :: "(string \<Rightarrow> claims option) \<Rightarrow> request \<Rightarrow> string option \<Rightarrow> api_error + claims" where
  "stream_claims decode rq query_token =
     bindR (ok_or Unauthorized (case Option.bind (header rq ''authorization'') (strip_prefix ''Bearer '') of
              Some t \<Rightarrow> Some t | None \<Rightarrow> query_token)) (\<lambda>token.
     bindR (ok_or Unauthorized (decode token)) (\<lambda>c.
     bindR (reject_if (cl_mcp c) Forbidden) (\<lambda>_.
     bindR (reject_if (cl_scope c = ''sub'') Forbidden) (\<lambda>_.
     bindR (reject_if (cl_role c \<noteq> ''admin'') Forbidden) (\<lambda>_. Inr c)))))"

definition stream_event :: "query_faults \<Rightarrow> panel_db \<Rightarrow> int \<Rightarrow> node_view option" where
  "stream_event io db i = (if io ''stream_node'' then None else map_option node_view_of (find_node db i))"

section \<open>Upgrading the agent of a node\<close>

definition upgrade_payload :: "node_env \<Rightarrow> api_error + upgrade_agent" where
  "upgrade_payload ne =
     bindR (ok_or (Bad_Request ''public base url'')
       (case ne_base_url ne of Some u \<Rightarrow> if trim u = [] then None else Some u | None \<Rightarrow> None)) (\<lambda>url.
     (let amd = unwrap_or [] (ne_dist_sha ne ''node-agent-linux-amd64'');
          arm = unwrap_or [] (ne_dist_sha ne ''node-agent-linux-arm64'') in
      bindR (reject_if (amd = [] \<and> arm = []) (Bad_Request ''no agent binary'')) (\<lambda>_.
        Inr \<lparr>ua_version = ne_version ne, ua_base_url = url, ua_sha256_amd64 = amd, ua_sha256_arm64 = arm\<rparr>)))"

definition dispatchA :: "int \<Rightarrow> command \<Rightarrow> bool api" where
  "dispatchA n c p = (case dispatch n c (pn_dispatcher p) of (ok, d) \<Rightarrow> (Inr ok, p\<lparr>pn_dispatcher := d\<rparr>))"

definition upgrade_agent_handler :: "node_env \<Rightarrow> query_faults \<Rightarrow> claims \<Rightarrow> string \<Rightarrow> int \<Rightarrow> string api" where
  "upgrade_agent_handler ne io auth ip i =
     bindA (ask (\<lambda>_. require_admin auth)) (\<lambda>_.
     bindA (ask (\<lambda>db. fetch_node io ''find_node'' db i)) (\<lambda>n.
     bindA (ask (\<lambda>_. upgrade_payload ne)) (\<lambda>u.
     bindA (dispatchA i (\<lparr>c_body = Some (Upgrade_Agent u)\<rparr>)) (\<lambda>sent.
       if \<not> sent then
         bindA (doA (record_with_ip io (Some (cl_sub auth)) (as_option ip) ''node.upgrade_agent'' (Some ''node'') (Some i)
                  (Some ''dispatch failed: offline'') False (Some ''offline''))) (\<lambda>_.
           ask (\<lambda>_. Inl (Bad_Request ''offline'')))
       else
         bindA (doA (record_with_ip io (Some (cl_sub auth)) (as_option ip) ''node.upgrade_agent'' (Some ''node'') (Some i)
                  (Some (nd_agent_version n @ '' -> '' @ ne_version ne)) True None)) (\<lambda>_.
           returnA (ne_version ne))))))"

section \<open>Creating a node\<close>

definition create_node ::
    "node_env \<Rightarrow> query_faults \<Rightarrow> claims \<Rightarrow> string \<Rightarrow> create_node_request \<Rightarrow> create_node_response api" where
  "create_node ne io auth ip req =
     bindA (ask (\<lambda>_. require_admin auth)) (\<lambda>_.
     bindA (ask (\<lambda>_. reject_if (trim (cn_name req) = []) (Bad_Request ''name''))) (\<lambda>_.
     bindA (ask (\<lambda>_. normalize_port_pool (cn_pool_min req) (cn_pool_max req) 10000 65535)) (\<lambda>(lo, hi).
     bindA (write_db io ''insert_node'' map_sqlx_node
       (insert_node (trim (cn_name req)) (cn_region req) (cn_public_ip req) (trim (cn_display_address req))
          (cn_grpc_endpoint req) (ne_hash ne (ne_token ne)) lo hi)) (\<lambda>i.
     bindA (ask (\<lambda>db. fetch_node io ''reread_node'' db i)) (\<lambda>n.
     bindA (doA (record_with_ip io (Some (cl_sub auth)) (as_option ip) ''node.create'' (Some ''node'') (Some i)
              (Some (trim (cn_name req))) True None)) (\<lambda>_.
     bindA (ask (\<lambda>_. ok_or Internal (ne_issue ne i))) (\<lambda>cert.
     bindA (update_db io ''set_cert_meta'' (set_cert_meta i (ic_serial cert) (ic_fingerprint cert))) (\<lambda>_.
       returnA \<lparr>cx_node = node_view_of n, cx_agent_token = ne_token ne, cx_ca_pem = ne_ca_pem ne,
                cx_cert_pem = ic_cert_pem cert, cx_key_pem = ic_key_pem cert\<rparr>))))))))"

section \<open>Changing a node\<close>

fun apply_each :: "panel_env \<Rightarrow> query_faults \<Rightarrow> db_rule list \<Rightarrow> panel \<Rightarrow> panel" where
  "apply_each pe io [] p = p"
| "apply_each pe io (r # rs) p =
     apply_each pe io rs (if dr_tunnel_id r = None then snd (dispatch_rule_apply pe io r p) else p)"

definition change_mask :: "panel_env \<Rightarrow> query_faults \<Rightarrow> int \<Rightarrow> int \<Rightarrow> unit api" where
  "change_mask pe io i m =
     bindA (update_db io ''set_block_protocols'' (set_block_protocols i m)) (\<lambda>_.
     bindA (ask (\<lambda>db. read_db io ''node_rules'' (list_active_for_node db i))) (\<lambda>rs.
       doA (apply_each pe io rs)))"

definition update_node ::
    "panel_env \<Rightarrow> query_faults \<Rightarrow> claims \<Rightarrow> string \<Rightarrow> int \<Rightarrow> update_node_request \<Rightarrow> node_view api" where
  "update_node pe io auth ip i req =
     bindA (ask (\<lambda>_. update_node_checks auth req)) (\<lambda>_.
     bindA (write_db io ''update_node'' map_sqlx_node (update_node_row i req)) (\<lambda>rows.
     bindA (ask (\<lambda>_. reject_if (rows = 0) Not_Found)) (\<lambda>_.
     bindA (case un_block_protocols req of Some m \<Rightarrow> change_mask pe io i m | None \<Rightarrow> returnA ()) (\<lambda>_.
     bindA (ask (\<lambda>db. fetch_node io ''reread_node'' db i)) (\<lambda>n.
     bindA (doA (record_with_ip io (Some (cl_sub auth)) (as_option ip) ''node.update'' (Some ''node'') (Some i)
              None True None)) (\<lambda>_.
       returnA (node_view_of n)))))))"

section \<open>What a user sees of the nodes\<close>

text \<open>The part of a node that a user may see: two rows with the same one look alike to him.\<close>

definition effective_address :: "node_row \<Rightarrow> string" where
  "effective_address n = (if trim (nd_display_address n) = [] then nd_public_ip n else trim (nd_display_address n))"

definition same_outside :: "node_row \<Rightarrow> node_row \<Rightarrow> bool" where
  "same_outside n m = (nd_id n = nd_id m \<and> nd_deleted n = nd_deleted m \<and> nd_name n = nd_name m
     \<and> nd_region n = nd_region m \<and> effective_address n = effective_address m \<and> nd_status n = nd_status m
     \<and> nd_last_seen n = nd_last_seen m \<and> nd_pool_min n = nd_pool_min m \<and> nd_pool_max n = nd_pool_max m
     \<and> nd_has_ipv4 n = nd_has_ipv4 m \<and> nd_has_ipv6 n = nd_has_ipv6 m
     \<and> nd_created_at n = nd_created_at m \<and> nd_updated_at n = nd_updated_at m)"

lemma same_outside_view:
  "same_outside n m \<Longrightarrow> sanitize_for_user (node_view_of n) = sanitize_for_user (node_view_of m)"
  by (auto simp: same_outside_def sanitize_for_user_def node_view_of_def effective_address_def Let_def split: if_splits)

lemma same_outside_id: "same_outside n m \<Longrightarrow> nd_id n = nd_id m"
  by (simp add: same_outside_def)

lemma same_outside_filter:
  "list_all2 same_outside ns ms \<Longrightarrow> (\<And>n m. same_outside n m \<Longrightarrow> P n = P m) \<Longrightarrow> list_all2 same_outside (filter P ns) (filter P ms)"
  by (induction rule: list_all2_induct) auto

lemma same_outside_insort:
  "list_all2 same_outside ns ms \<Longrightarrow> same_outside n m \<Longrightarrow> list_all2 same_outside (insort_key nd_id n ns) (insort_key nd_id m ms)"
proof (induction rule: list_all2_induct)
  case (Cons x xs y ys)
  then have "nd_id n \<le> nd_id x \<longleftrightarrow> nd_id m \<le> nd_id y"
    using same_outside_id by metis
  with Cons show ?case by simp
qed simp

lemma same_outside_sort:
  "list_all2 same_outside ns ms \<Longrightarrow> list_all2 same_outside (sort_key nd_id ns) (sort_key nd_id ms)"
  by (induction rule: list_all2_induct) (simp_all add: same_outside_insort)

lemma same_outside_find:
  assumes "list_all2 same_outside ns ms" "\<And>n m. same_outside n m \<Longrightarrow> P n = P m"
  shows "rel_option same_outside (find P ns) (find P ms)"
  using assms by (induction rule: list_all2_induct) auto

lemma same_outside_views:
  "list_all2 same_outside ns ms \<Longrightarrow> map (\<lambda>n. sanitize_for_user (node_view_of n)) ns = map (\<lambda>n. sanitize_for_user (node_view_of n)) ms"
  by (induction rule: list_all2_induct) (auto dest: same_outside_view)

text \<open>C10. For a user who is not an administrator, the list of nodes and the view of one node depend only on the grants and on
  what a user may see: id, name, region, status, time of the last sign of life, port pool, address families, the address
  to show, and the times when the row was made and last changed. Two databases that agree in these and differ in the load of a
  node, its counters, its control endpoint, its agent's version, its protocol mask, its token or certificate, or in the
  access address behind a display address give the same answers. (The time of the last change moves with the hidden columns too.)\<close>

theorem users_see_public_part:
  assumes "\<not> is_admin auth" "list_all2 same_outside (db_nodes (pn_db p)) (db_nodes (pn_db q))"
    "db_node_grants (pn_db p) = db_node_grants (pn_db q)"
  shows "fst (list_nodes ne io auth page psize sort_by order search p) = fst (list_nodes ne io auth page psize sort_by order search q)
    \<and> fst (get_node io auth i p) = fst (get_node io auth i q)"
proof -
  have ids: "granted_node_ids (pn_db p) = granted_node_ids (pn_db q)" "node_granted (pn_db p) = node_granted (pn_db q)"
    using assms(3) by (simp_all add: fun_eq_iff granted_node_ids_def node_granted_def)
  have more: "list_all2 same_outside (list_by_ids (pn_db p) ns) (list_by_ids (pn_db q) ns)" for ns
    unfolding list_by_ids_def list_all2_rev
    by (intro same_outside_sort same_outside_filter assms(2)) (simp add: same_outside_def)
  note len = list_all2_lengthD [OF more]
  have rows: "map (\<lambda>n. sanitize_for_user (node_view_of n)) (list_by_ids (pn_db p) ns)
      = map (\<lambda>n. sanitize_for_user (node_view_of n)) (list_by_ids (pn_db q) ns)" for ns
    by (rule same_outside_views) (fact more)
  have one: "rel_option same_outside (find_node (pn_db p) i) (find_node (pn_db q) i)"
    unfolding find_node_def by (rule same_outside_find [OF assms(2)]) (simp add: same_outside_def)
  have "fst (list_nodes ne io auth page psize sort_by order search p) = fst (list_nodes ne io auth page psize sort_by order search q)"
    using assms(1)
    by (simp add: rows len list_nodes_def bindA_def read_db_def ids Let_def split: sum.split)
  moreover have "fst (get_node io auth i p) = fst (get_node io auth i q)"
    using assms(1) one
    by (cases "find_node (pn_db p) i"; cases "find_node (pn_db q) i")
      (auto simp: get_node_def bindA_def fetch_node_def read_db_def bindR_def ok_or_def reject_if_def ids dest: same_outside_view)
  ultimately show ?thesis by blast
qed

text \<open>Two nodes that differ in everything that is hidden.\<close>

definition busy_node :: node_row where
  "busy_node = (sample_node 2 [])\<lparr>nd_display_address := '' shown'', nd_public_ip := ''10.0.0.1'', nd_cpu_usage := 1, nd_rx_total := 9,
     nd_token_hash := ''t'', nd_block_protocols := 7\<rparr>"

definition idle_node :: node_row where
  "idle_node = (sample_node 2 [])\<lparr>nd_display_address := ''shown'', nd_public_ip := ''10.0.0.2''\<rparr>"

definition nodes_panel :: "node_row list \<Rightarrow> panel" where
  "nodes_panel ns = \<lparr>pn_db = sample_db\<lparr>db_nodes := ns, db_node_grants := [(5, 2)]\<rparr>, pn_dispatcher = dispatcher_new\<rparr>"

lemma users_see_public_part_witness:
  "get_node no_faults (sample_user 1 ''admin'') 2 (nodes_panel [busy_node]) \<noteq> get_node no_faults (sample_user 1 ''admin'') 2 (nodes_panel [idle_node])
   \<and> fst (get_node no_faults (sample_user 5 ''user'') 2 (nodes_panel [busy_node]))
      = fst (get_node no_faults (sample_user 5 ''user'') 2 (nodes_panel [idle_node]))"
proof -
  have t: "trim '' shown'' = ''shown''" "trim ''shown'' = ''shown''"
    by code_simp+
  have "same_outside busy_node idle_node"
    by (simp add: same_outside_def busy_node_def idle_node_def effective_address_def t)
  then have "list_all2 same_outside (db_nodes (pn_db (nodes_panel [busy_node]))) (db_nodes (pn_db (nodes_panel [idle_node])))"
    "db_node_grants (pn_db (nodes_panel [busy_node])) = db_node_grants (pn_db (nodes_panel [idle_node]))"
    "\<not> is_admin (sample_user 5 ''user'')"
    by (simp_all add: nodes_panel_def is_admin_def sample_user_def)
  moreover have "get_node no_faults (sample_user 1 ''admin'') 2 (nodes_panel [busy_node]) \<noteq> get_node no_faults (sample_user 1 ''admin'') 2 (nodes_panel [idle_node])"
    by (simp add: get_node_def bindA_def fetch_node_def find_node_def nodes_panel_def busy_node_def idle_node_def sample_node_def
        is_admin_def sample_user_def read_db_def bindR_def ok_or_def node_view_of_def)
  ultimately show ?thesis
    using users_see_public_part [of "sample_user 5 ''user''" "nodes_panel [busy_node]" "nodes_panel [idle_node]"] by blast
qed

end
