(* ===== verification/Nodes_Props.thy ===== *)
theory Nodes_Props
  imports Nodes_Api
begin

text \<open>
  The life of a node: what creating one makes possible, what a change of its protocol mask sends,
  the invariant of the table of nodes, and the contract \<open>agent_calls\<close>: what a predicate of the
  database must stand so that no call of an agent breaks it.
\<close>

section \<open>The life of a node\<close>

lemma map_find: "(\<And>x. P (f x) = P x) \<Longrightarrow> find P (map f xs) = map_option f (find P xs)"
  by (induction xs) auto

lemma find_extend: "find P (xs @ [x]) = (case find P xs of None \<Rightarrow> if P x then Some x else None | Some y \<Rightarrow> Some y)"
  by (induction xs) auto

lemma find_node_change:
  assumes "\<And>n. nd_id (f n) = nd_id n" "\<And>n. nd_deleted (f n) = nd_deleted n"
  shows "find_node (change_nodes (live_node i) f db) j
    = map_option (\<lambda>n. if j = i then (f n)\<lparr>nd_updated_at := db_now db\<rparr> else n) (find_node db j)"
proof -
  have "find_node (change_nodes (live_node i) f db) j
      = map_option (\<lambda>n. if live_node i n then (f n)\<lparr>nd_updated_at := db_now db\<rparr> else n) (find_node db j)"
    unfolding find_node_def change_nodes_def by (simp add: map_find assms)
  then show ?thesis
    by (cases "find_node db j") (auto simp: find_node_def live_node_def dest: find_SomeD)
qed

lemma find_node_audit [simp]: "find_node (pn_db (record_with_ip io a b c d e f g h p)) = find_node (pn_db p)"
  by (simp add: find_node_def fun_eq_iff)

lemma db_now_audit [simp]: "db_now (pn_db (record_with_ip io a b c d e f g h p)) = db_now (pn_db p)"
  by (simp add: record_with_ip_def)

lemma created_node_row:
  assumes "create_node ne no_faults auth ip req p = (Inr x, q)" "\<forall>n \<in> set (db_nodes (pn_db p)). nd_id n < db_next_node (pn_db p)"
  obtains c n where "ne_issue ne (nv_id (cx_node x)) = Some c" "nv_id (cx_node x) = db_next_node (pn_db p)" "cx_agent_token x = ne_token ne"
    "find_node (pn_db q) (nv_id (cx_node x)) = Some n" "nd_token_hash n = ne_hash ne (ne_token ne)"
    "nd_cert_fingerprint n = Some (ic_fingerprint c)" "nd_cert_serial n = Some (ic_serial c)"
proof -
  let ?i = "db_next_node (pn_db p)"
  obtain lo hi p1 i m c where r: "normalize_port_pool (cn_pool_min req) (cn_pool_max req) 10000 65535 = Inr (lo, hi)"
    "insert_node (trim (cn_name req)) (cn_region req) (cn_public_ip req) (trim (cn_display_address req)) (cn_grpc_endpoint req)
       (ne_hash ne (ne_token ne)) lo hi (pn_db p) = (Inr i, p1)"
    "find_node p1 i = Some m" "ne_issue ne i = Some c" "pn_db q = set_cert_meta i (ic_serial c) (ic_fingerprint c)
       (pn_db (record_with_ip no_faults (Some (cl_sub auth)) (as_option ip) ''node.create'' (Some ''node'') (Some i)
              (Some (trim (cn_name req))) True None (p\<lparr>pn_db := p1\<rparr>)))"
    "x = \<lparr>cx_node = node_view_of m, cx_agent_token = ne_token ne, cx_ca_pem = ne_ca_pem ne,
          cx_cert_pem = ic_cert_pem c, cx_key_pem = ic_key_pem c\<rparr>"
    using assms(1) unfolding create_node_def
    by (elim bindA_ok bindA_ask_ok) (auto simp: write_db_def update_db_def fetch_node_def bindR_eq_Inr ok_or_def
        split: prod.splits sum.splits option.splits if_splits elim!: bindA_ok)
  then have i: "i = ?i" and p1: "\<exists>n. p1 = (pn_db p)\<lparr>db_nodes := db_nodes (pn_db p) @ [n], db_next_node := ?i + 1\<rparr>
      \<and> nd_id n = ?i \<and> \<not> nd_deleted n \<and> nd_token_hash n = ne_hash ne (ne_token ne)"
    by (auto simp: insert_node_def Let_def split: option.splits)
  then obtain n where n: "p1 = (pn_db p)\<lparr>db_nodes := db_nodes (pn_db p) @ [n], db_next_node := ?i + 1\<rparr>"
    "nd_id n = ?i" "\<not> nd_deleted n" "nd_token_hash n = ne_hash ne (ne_token ne)"
    by blast
  have "find (\<lambda>n. nd_id n = ?i \<and> \<not> nd_deleted n) (db_nodes (pn_db p)) = None"
    using assms(2) by (auto simp: find_None_iff)
  then have m: "m = n"
    using r(3) n i by (simp add: find_node_def find_extend)
  show thesis
    by (rule that [of c "n\<lparr>nd_cert_serial := Some (ic_serial c), nd_cert_fingerprint := Some (ic_fingerprint c),
        nd_updated_at := db_now (pn_db p)\<rparr>"])
      (use r i n m in \<open>simp_all add: node_view_of_def set_cert_meta_def find_node_change\<close>)
qed

text \<open>C27. The answer to creating a node is enough for its agent, and only that: with the token and the certificate of the answer
  registering succeeds at any time, and until the session expires the calls with this certificate count as this node's;
  a token with another hash is refused, and so is any other certificate.\<close>

theorem created_node_registers:
  assumes "create_node ne no_faults auth ip req (sv_panel s) = (Inr x, q)"
    "\<forall>n \<in> set (db_nodes (sv_db s)). nd_id n < db_next_node (sv_db s)" "se_hash ev = ne_hash ne"
    "\<And>c. ne_issue ne (nv_id (cx_node x)) = Some c \<Longrightarrow> \<not> crl_is_revoked (ic_fingerprint c) (sv_crl s)" "now < now' + 86400"
  shows "\<exists>c t. ne_issue ne (nv_id (cx_node x)) = Some c
    \<and> register ev no_faults now' token (Some (ic_fingerprint c))
        \<lparr>rr_node_id = nv_id (cx_node x), rr_agent_token = cx_agent_token x, rr_version = version\<rparr> (s\<lparr>sv_panel := q\<rparr>)
      = (Inr (token, now' + 86400), t)
    \<and> verify_session_with_cert now \<lparr>ca_token = Some token, ca_peer_fp = Some (ic_fingerprint c)\<rparr> t = Inr (nv_id (cx_node x))
    \<and> (se_hash ev other \<noteq> se_hash ev (cx_agent_token x) \<longrightarrow>
        isl (fst (register ev no_faults now' token fp
          \<lparr>rr_node_id = nv_id (cx_node x), rr_agent_token = other, rr_version = version\<rparr> (s\<lparr>sv_panel := q\<rparr>))))
    \<and> (fp \<noteq> None \<longrightarrow> fp \<noteq> Some (ic_fingerprint c) \<longrightarrow>
        isl (fst (register ev no_faults now' token fp
          \<lparr>rr_node_id = nv_id (cx_node x), rr_agent_token = cx_agent_token x, rr_version = version\<rparr> (s\<lparr>sv_panel := q\<rparr>))))"
proof -
  obtain c n where r: "ne_issue ne (nv_id (cx_node x)) = Some c" "cx_agent_token x = ne_token ne"
    "find_node (pn_db q) (nv_id (cx_node x)) = Some n" "nd_token_hash n = ne_hash ne (ne_token ne)"
    "nd_cert_fingerprint n = Some (ic_fingerprint c)"
    using created_node_row [OF assms(1)] assms(2) by (metis sv_db_def)
  have db: "sv_db (s\<lparr>sv_panel := q\<rparr>) = pn_db q" "sv_crl (s\<lparr>sv_panel := q\<rparr>) = sv_crl s"
    by (simp_all add: sv_db_def)
  let ?q = "\<lparr>rr_node_id = nv_id (cx_node x), rr_agent_token = cx_agent_token x, rr_version = version\<rparr>"
  let ?t = "snd (accept_node ev no_faults now' token (Some (ic_fingerprint c)) ?q (s\<lparr>sv_panel := q\<rparr>))"
  have ok: "register ev no_faults now' token (Some (ic_fingerprint c)) ?q (s\<lparr>sv_panel := q\<rparr>) = (Inr (token, now' + 86400), ?t)"
    using r assms(3) assms(4) [OF r(1)] db by (simp add: register_def accept_node_def Let_def SESSION_TTL_HOURS_def)
  have "sv_crl ?t = sv_crl s" "hm_get (sv_sessions ?t) token =
      Some \<lparr>se_node_id = nv_id (cx_node x), se_expires_at = now' + 86400, se_issuing_fp = Some (ic_fingerprint c)\<rparr>"
    by (simp_all add: accept_node_def Let_def session_insert_def hm_get_insert audit_server_def publish_node_event_def notify_online_def
        with_db_def SESSION_TTL_HOURS_def)
  then have session: "verify_session_with_cert now \<lparr>ca_token = Some token, ca_peer_fp = Some (ic_fingerprint c)\<rparr> ?t = Inr (nv_id (cx_node x))"
    using assms(4) [OF r(1)] assms(5) by (simp add: verify_session_with_cert_def session_verify_def ok_or_def bindR_def)
  have wrong: "isl (fst (register ev no_faults now' token fp \<lparr>rr_node_id = nv_id (cx_node x), rr_agent_token = other, rr_version = version\<rparr>
      (s\<lparr>sv_panel := q\<rparr>)))" if "se_hash ev other \<noteq> se_hash ev (cx_agent_token x)" for other
    using that r assms(3) db by (simp add: register_def denied_def)
  have cert: "isl (fst (register ev no_faults now' token fp ?q (s\<lparr>sv_panel := q\<rparr>)))"
    if "fp \<noteq> None" "fp \<noteq> Some (ic_fingerprint c)" for fp
    using that r assms(3) db by (auto simp: register_def denied_def split: if_splits)
  show ?thesis
    by (intro exI [of _ c] exI [of _ ?t] conjI impI r(1) ok session wrong cert)
qed

definition sample_nodes_env :: node_env where
  "sample_nodes_env = \<lparr>ne_order = (\<lambda>_ _ ns. ns), ne_token = ''t'', ne_hash = id,
     ne_issue = (\<lambda>i. Some \<lparr>ic_cert_pem = ''c'', ic_key_pem = ''k'', ic_serial = dec (nat i), ic_fingerprint = ''fp'' @ dec (nat i)\<rparr>),
     ne_ca_pem = ''ca'', ne_base_url = Some ''u'', ne_dist_sha = (\<lambda>_. Some ''s''), ne_version = ''v''\<rparr>"

definition new_node :: create_node_request where
  "new_node = \<lparr>cn_name = '' new '', cn_region = [], cn_public_ip = [], cn_display_address = [], cn_grpc_endpoint = [],
     cn_pool_min = Some 20000, cn_pool_max = None\<rparr>"

definition empty_server :: server where
  "empty_server = sample_server\<lparr>sv_panel := \<lparr>pn_db = sample_db\<lparr>db_nodes := [sample_node 1 []], db_next_node := 2\<rparr>, pn_dispatcher = dispatcher_new\<rparr>\<rparr>"

lemma created_node_registers_witness:
  "\<exists>x q t. create_node sample_nodes_env no_faults sample_admin [] new_node (sv_panel empty_server) = (Inr x, q)
    \<and> nv_id (cx_node x) = 2 \<and> fst (register sample_service no_faults 1000 ''session'' (Some ''fp2'')
        \<lparr>rr_node_id = 2, rr_agent_token = ''t'', rr_version = ''v''\<rparr> (empty_server\<lparr>sv_panel := q\<rparr>)) = Inr (''session'', 87400)"
proof -
  let ?c = "create_node sample_nodes_env no_faults sample_admin [] new_node (sv_panel empty_server)"
  have "\<not> isl (fst ?c)"
    by code_simp
  then obtain x q where c: "?c = (Inr x, q)"
    by (metis isl_def sum.exhaust prod.exhaust fst_conv)
  have ids: "\<forall>n \<in> set (db_nodes (sv_db empty_server)). nd_id n < db_next_node (sv_db empty_server)"
    by (simp add: empty_server_def sv_db_def sample_node_def)
  have env: "se_hash sample_service = ne_hash sample_nodes_env" "sv_crl empty_server = []"
    by (simp_all add: sample_service_def sample_nodes_env_def empty_server_def sample_server_def)
  have x: "nv_id (cx_node x) = 2" "cx_agent_token x = ''t''"
    using created_node_row [OF c] ids by (auto simp: sv_db_def empty_server_def sample_nodes_env_def)
  have "ne_issue sample_nodes_env 2 = Some \<lparr>ic_cert_pem = ''c'', ic_key_pem = ''k'', ic_serial = ''2'', ic_fingerprint = ''fp2''\<rparr>"
    by (simp add: sample_nodes_env_def) code_simp
  with created_node_registers [OF c ids env(1), where now = 0 and now' = 1000 and token = "''session''" and version = "''v''" and other = "''o''" and fp = None] c x env(2) show ?thesis
    by (auto simp: crl_is_revoked_def)
qed

section \<open>A change of the protocol mask\<close>

text \<open>What fits is appended in order, the rest is dropped.\<close>

lemma apply_each_open:
  assumes "\<And>r. r \<in> set rs \<Longrightarrow> dr_node_id r = i" "hm_get (dp_channels (pn_dispatcher p)) i = Some g"
    "g < length (dp_cells (pn_dispatcher p))" "ch_open (dp_cells (pn_dispatcher p) ! g)"
  shows "pn_db (apply_each pe no_faults rs p) = pn_db p
    \<and> ch_queue (dp_cells (pn_dispatcher (apply_each pe no_faults rs p)) ! g) = ch_queue (dp_cells (pn_dispatcher p) ! g)
       @ take (CHANNEL_CAPACITY - length (ch_queue (dp_cells (pn_dispatcher p) ! g)))
           (map (\<lambda>r. apply_command (rule_to_proto (pe_decode pe) r (node_mask (pn_db p) i))) (filter (\<lambda>r. dr_tunnel_id r = None) rs))"
  using assms
proof (induction rs arbitrary: p)
  case (Cons r rs)
  let ?c = "apply_command (rule_to_proto (pe_decode pe) r (node_mask (pn_db p) i))"
  let ?q = "p\<lparr>pn_dispatcher := snd (dispatch i ?c (pn_dispatcher p))\<rparr>"
  have here: "r' \<in> set rs \<Longrightarrow> dr_node_id r' = i" for r'
    using Cons.prems(1) by simp
  consider (tunnel) t where "dr_tunnel_id r = Some t"
    | (room) "dr_tunnel_id r = None" "length (ch_queue (dp_cells (pn_dispatcher p) ! g)) < CHANNEL_CAPACITY"
    | (full) "dr_tunnel_id r = None" "CHANNEL_CAPACITY \<le> length (ch_queue (dp_cells (pn_dispatcher p) ! g))"
    by (metis leI not_Some_eq)
  then show ?case
  proof cases
    case tunnel
    then show ?thesis
      using Cons.IH [of p, OF here Cons.prems(2-4)] by simp
  next
    case room
    then have s: "snd (dispatch_rule_apply pe no_faults r p) = ?q"
      using Cons.prems(1) by (simp add: dispatch_rule_apply_def node_block_protocols_def node_mask_def send_each_def split: prod.split)
    note d = dispatch_open [OF Cons.prems(2-4) room(2), of ?c]
    have free: "CHANNEL_CAPACITY - length (ch_queue (dp_cells (pn_dispatcher p) ! g))
        = Suc (CHANNEL_CAPACITY - Suc (length (ch_queue (dp_cells (pn_dispatcher p) ! g))))"
      using room(2) by simp
    have "pn_db (apply_each pe no_faults rs ?q) = pn_db p
      \<and> ch_queue (dp_cells (pn_dispatcher (apply_each pe no_faults rs ?q)) ! g) = ch_queue (dp_cells (pn_dispatcher ?q) ! g)
          @ take (CHANNEL_CAPACITY - length (ch_queue (dp_cells (pn_dispatcher ?q) ! g)))
            (map (\<lambda>r. apply_command (rule_to_proto (pe_decode pe) r (node_mask (pn_db p) i))) (filter (\<lambda>r. dr_tunnel_id r = None) rs))"
      using Cons.IH [of ?q, OF here] Cons.prems(2-4) d by simp
    with room d show ?thesis by (simp add: s free)
  next
    case full
    then have "snd (dispatch_rule_apply pe no_faults r p) = p"
      using Cons.prems by (simp add: dispatch_rule_apply_def node_block_protocols_def node_mask_def send_each_def dispatch_def
          try_send_cell_def)
    then show ?thesis
      using Cons.IH [of p, OF here Cons.prems(2-4)] full by simp
  qed
qed simp

text \<open>What a change of a node that succeeds leaves, with the rows of the rules before and after.\<close>

lemma update_node_ok:
  assumes "update_node pe no_faults auth ip i req p = (Inr v, q)" "un_block_protocols req = Some m"
  obtains n d where "find_node (pn_db p) i = Some n" "0 \<le> m" "m \<le> 7"
    "d = set_block_protocols i m (change_nodes (live_node i) (node_patch req) (pn_db p))"
    "q = record_with_ip no_faults (Some (cl_sub auth)) (as_option ip) ''node.update'' (Some ''node'') (Some i) None True None
      (apply_each pe no_faults (list_active_for_node d i) (p\<lparr>pn_db := d\<rparr>))"
proof -
  have c: "update_node_checks auth req = Inr ()" and w: "\<exists>n. find_node (pn_db p) i = Some n"
    using assms(1) unfolding update_node_def
    by (auto simp: bindA_def write_db_def update_node_row_def reject_if_def split: sum.splits prod.splits option.splits if_splits)
  then obtain n where n: "find_node (pn_db p) i = Some n" by blast
  have m: "0 \<le> m" "m \<le> 7"
    using c assms(2) by (auto simp: update_node_checks_def bindR_eq_Inr option_check_def)
  let ?d = "set_block_protocols i m (change_nodes (live_node i) (node_patch req) (pn_db p))"
  show thesis
    by (rule that [OF n m refl])
      (use assms n in \<open>auto simp: update_node_def bindA_def write_db_def update_db_def update_node_row_def change_mask_def
         split: sum.splits prod.splits option.splits if_splits\<close>)
qed

lemma rules_of_change [simp]:
  "db_rules (change_nodes P f db) = db_rules db" "db_profiles (change_nodes P f db) = db_profiles db"
  "db_rules (set_block_protocols i m db) = db_rules db" "db_profiles (set_block_protocols i m db) = db_profiles db"
  by (simp_all add: set_block_protocols_def change_nodes_def)

lemma list_active_cong:
  assumes "db_rules d = db_rules e" "db_profiles d = db_profiles e"
  shows "list_active_for_node d = list_active_for_node e" "find_rule d = find_rule e"
proof -
  have "select_rule d = select_rule e"
    by (simp add: fun_eq_iff select_rule_def mbps_of_def assms(2) split: option.split)
  then show "list_active_for_node d = list_active_for_node e" "find_rule d = find_rule e"
    by (intro ext, simp add: list_active_for_node_def find_rule_def assms(1))+
qed

text \<open>C28. Changing the mask of blocked protocols of a connected node sends it, after what was queued, one message for each of
  its live rules outside tunnels, in the order of their ids: exactly the message that a replay would now give it, with
  the new mask. When the channel of 1024 places has no room for all of them, the first ones that fit are sent and the others
  are dropped, although the answer is a success. The mask that was asked for is a number from 0 to 7. (No statement fails.)\<close>

theorem mask_change_reaches_node:
  assumes "update_node pe no_faults auth ip i req p = (Inr v, q)" "un_block_protocols req = Some m"
    "distinct (map dr_id (db_rules (pn_db p)))"
    "hm_get (dp_channels (pn_dispatcher p)) i = Some g" "g < length (dp_cells (pn_dispatcher p))"
    "ch_open (dp_cells (pn_dispatcher p) ! g)"
  shows "\<exists>rs ms. rs = filter (\<lambda>r. dr_tunnel_id r = None) (list_active_for_node (pn_db q) i)
    \<and> map Some ms = map (\<lambda>r. wanted pe (pn_db q) i (dr_id r)) rs
    \<and> ch_queue (dp_cells (pn_dispatcher q) ! g) = ch_queue (dp_cells (pn_dispatcher p) ! g)
        @ take (1024 - length (ch_queue (dp_cells (pn_dispatcher p) ! g))) (map apply_command ms)
    \<and> (\<forall>x. x \<in> set ms \<longrightarrow> uint (r_blocked_protocols x) = m) \<and> m \<in> {0..7}"
proof -
  obtain n d where u: "find_node (pn_db p) i = Some n" "0 \<le> m" "m \<le> 7"
    and d: "d = set_block_protocols i m (change_nodes (live_node i) (node_patch req) (pn_db p))"
    and q: "q = record_with_ip no_faults (Some (cl_sub auth)) (as_option ip) ''node.update'' (Some ''node'') (Some i) None True None
      (apply_each pe no_faults (list_active_for_node d i) (p\<lparr>pn_db := d\<rparr>))"
    by (rule update_node_ok [OF assms(1,2)])
  let ?a = "apply_each pe no_faults (list_active_for_node d i) (p\<lparr>pn_db := d\<rparr>)"
  have same: "list_active_for_node d = list_active_for_node (pn_db p)"
    by (rule list_active_cong) (simp_all add: d)
  have here: "r \<in> set (list_active_for_node d i) \<Longrightarrow> dr_node_id r = i" for r
    by (auto simp: set_list_active_for_node)
  have a: "pn_db ?a = d"
    "ch_queue (dp_cells (pn_dispatcher ?a) ! g) = ch_queue (dp_cells (pn_dispatcher p) ! g)
      @ take (1024 - length (ch_queue (dp_cells (pn_dispatcher p) ! g)))
          (map (\<lambda>r. apply_command (rule_to_proto (pe_decode pe) r (node_mask d i))) (filter (\<lambda>r. dr_tunnel_id r = None) (list_active_for_node d i)))"
    using apply_each_open [of "list_active_for_node d i" i "p\<lparr>pn_db := d\<rparr>" g pe, OF here] assms(4-6)
    by (simp_all add: same CHANNEL_CAPACITY_def)
  have db: "list_active_for_node (pn_db q) = list_active_for_node d" "find_rule (pn_db q) = find_rule d" "node_mask (pn_db q) = node_mask d"
    using list_active_cong [of "pn_db q" d] by (simp_all add: q a(1) fun_eq_iff node_mask_def)
  have mask: "node_mask d i = word_of_int m"
    using u by (simp add: d node_mask_def set_block_protocols_def find_node_change node_patch_def as_u32_def)
  let ?rs = "filter (\<lambda>r. dr_tunnel_id r = None) (list_active_for_node (pn_db q) i)"
  let ?ms = "map (\<lambda>r. rule_to_proto (pe_decode pe) r (node_mask d i)) ?rs"
  have w: "wanted pe (pn_db q) i (dr_id r) = Some (rule_to_proto (pe_decode pe) r (node_mask d i))" if r: "r \<in> set ?rs" for r
  proof -
    obtain x where x: "x \<in> set (db_rules (pn_db p))" "r = select_rule d x" "dr_node_id x = i" "\<not> dr_deleted x" "dr_tunnel_id x = None"
      using r by (auto simp: db set_list_active_for_node d)
    then have "find_rule d (dr_id r) = Some r"
      using find_ids [OF assms(3) x(1), of "\<lambda>r. \<not> dr_deleted r"] by (simp add: find_rule_def d)
    then show ?thesis
      using x by (simp add: wanted_def db)
  qed
  have uint_m: "uint (word_of_int m :: u32) = m"
    using u by (simp add: uint_word_of_int)
  have "map Some ?ms = map (\<lambda>r. wanted pe (pn_db q) i (dr_id r)) ?rs"
    using w by (simp add: comp_def)
  moreover have "ch_queue (dp_cells (pn_dispatcher q) ! g) = ch_queue (dp_cells (pn_dispatcher p) ! g)
      @ take (1024 - length (ch_queue (dp_cells (pn_dispatcher p) ! g))) (map apply_command ?ms)"
    using a(2) by (simp add: q db(1) [unfolded q] comp_def)
  moreover have "uint (r_blocked_protocols x) = m" if "x \<in> set ?ms" for x
    using that mask uint_m by (auto simp: rule_to_proto_def)
  ultimately show ?thesis
    using u by (intro exI [of _ ?rs] exI [of _ ?ms]) simp
qed

definition mask_change :: update_node_request where
  "mask_change = \<lparr>un_name = None, un_region = None, un_public_ip = None, un_display_address = None, un_grpc_endpoint = None,
     un_pool_min = None, un_pool_max = None, un_block_protocols = Some 5\<rparr>"

definition connected_panel :: panel where
  "connected_panel = \<lparr>pn_db = sample_db\<lparr>db_nodes := [sample_node 1 ''1.1.1.1'']\<rparr>, pn_dispatcher = snd (subscribe 1 dispatcher_new)\<rparr>"

lemma mask_change_reaches_node_witness:
  "\<exists>v q m. update_node sample_env no_faults sample_admin [] 1 mask_change connected_panel = (Inr v, q)
    \<and> wanted sample_env (pn_db q) 1 7 = Some m \<and> uint (r_blocked_protocols m) = 5
    \<and> ch_queue (dp_cells (pn_dispatcher q) ! 0) = [apply_command m]"
proof -
  let ?u = "update_node sample_env no_faults sample_admin [] 1 mask_change connected_panel"
  have "\<not> isl (fst ?u)"
    by code_simp
  then obtain v q where u: "?u = (Inr v, q)"
    by (metis isl_def sum.exhaust prod.exhaust fst_conv)
  have m: "un_block_protocols mask_change = Some 5"
    by (simp add: mask_change_def)
  have c: "distinct (map dr_id (db_rules (pn_db connected_panel)))"
    "hm_get (dp_channels (pn_dispatcher connected_panel)) 1 = Some 0" "0 < length (dp_cells (pn_dispatcher connected_panel))"
    "ch_open (dp_cells (pn_dispatcher connected_panel) ! 0)" "ch_queue (dp_cells (pn_dispatcher connected_panel) ! 0) = []"
    by (simp_all add: connected_panel_def sample_db_def sample_rule_def subscribe_def dispatcher_new_def)
  have "map dr_id (filter (\<lambda>r. dr_tunnel_id r = None) (list_active_for_node (pn_db (snd ?u)) 1)) = [7]"
    by code_simp
  then have ids: "map dr_id (filter (\<lambda>r. dr_tunnel_id r = None) (list_active_for_node (pn_db q) 1)) = [7]"
    by (simp only: u snd_conv)
  obtain rs ms where "rs = filter (\<lambda>r. dr_tunnel_id r = None) (list_active_for_node (pn_db q) 1)"
    "map Some ms = map (\<lambda>r. wanted sample_env (pn_db q) 1 (dr_id r)) rs"
    "ch_queue (dp_cells (pn_dispatcher q) ! 0) = ch_queue (dp_cells (pn_dispatcher connected_panel) ! 0)
        @ take (1024 - length (ch_queue (dp_cells (pn_dispatcher connected_panel) ! 0))) (map apply_command ms)"
    "\<forall>x. x \<in> set ms \<longrightarrow> uint (r_blocked_protocols x) = 5"
    using mask_change_reaches_node [OF u m c(1-4)] by blast
  with ids c(5) have r: "map dr_id rs = [7]" "map Some ms = map (\<lambda>r. wanted sample_env (pn_db q) 1 (dr_id r)) rs"
    "ch_queue (dp_cells (pn_dispatcher q) ! 0) = take 1024 (map apply_command ms)" "\<forall>x. x \<in> set ms \<longrightarrow> uint (r_blocked_protocols x) = 5"
    by simp_all
  then obtain x y where "rs = [x]" "dr_id x = 7" "ms = [y]"
    by (auto simp: map_eq_Cons_conv Cons_eq_map_conv)
  with r u show ?thesis
    by (intro exI [of _ v] exI [of _ q] exI [of _ y]) simp
qed

section \<open>The invariant of the nodes\<close>

text \<open>
  Ids are unique and below the next one, no two live nodes have the same name, every row satisfies
  the checks of the table and has a mask from 0 to 7.
\<close>

definition node_ok :: "node_row \<Rightarrow> bool" where
  "node_ok n = (node_checks n \<and> 0 \<le> nd_block_protocols n \<and> nd_block_protocols n \<le> 7)"

definition nodes_inv :: "panel_db \<Rightarrow> bool" where
  "nodes_inv db =
     (distinct (map nd_id (db_nodes db)) \<and> (\<forall>n \<in> set (db_nodes db). nd_id n < db_next_node db \<and> node_ok n)
      \<and> distinct (map nd_name (filter (\<lambda>n. \<not> nd_deleted n) (db_nodes db))))"

definition node_table_ok :: "server \<Rightarrow> bool" where
  "node_table_ok s = nodes_inv (sv_db s)"

lemma nodes_inv_cong: "db_nodes d = db_nodes e \<Longrightarrow> db_next_node d = db_next_node e \<Longrightarrow> nodes_inv d = nodes_inv e"
  by (simp add: nodes_inv_def)

lemma nodes_inv_change:
  assumes "nodes_inv db" "\<And>n. nd_id (f n) = nd_id n" "\<And>n. nd_name (f n) = nd_name n"
    "\<And>n. \<not> nd_deleted (f n) \<Longrightarrow> \<not> nd_deleted n" "\<And>n. node_ok n \<Longrightarrow> node_ok (f n)"
  shows "nodes_inv (change_nodes p f db)"
proof -
  let ?g = "\<lambda>n. if p n then (f n)\<lparr>nd_updated_at := db_now db\<rparr> else n"
  have stamp: "node_ok (n\<lparr>nd_updated_at := t\<rparr>) = node_ok n" for n t
    by (simp add: node_ok_def node_checks_def)
  have g: "nd_id (?g n) = nd_id n" "nd_name (?g n) = nd_name n" "\<not> nd_deleted (?g n) \<Longrightarrow> \<not> nd_deleted n" for n
    using assms(2-4) by (simp_all split: if_splits)
  have e: "filter (\<lambda>n. \<not> nd_deleted (?g n)) ns = filter (\<lambda>n. \<not> nd_deleted (?g n)) (filter (\<lambda>n. \<not> nd_deleted n) ns)" for ns
    unfolding filter_filter by (rule filter_cong [OF refl]) (use g(3) in blast)
  have names: "map nd_name (filter (\<lambda>n. \<not> nd_deleted n) (map ?g ns))
      = map nd_name (filter (\<lambda>n. \<not> nd_deleted (?g n)) (filter (\<lambda>n. \<not> nd_deleted n) ns))" for ns
    unfolding filter_map comp_def map_map g(2) by (subst e) (rule refl)
  have rows: "db_nodes (change_nodes p f db) = map ?g (db_nodes db)" "db_next_node (change_nodes p f db) = db_next_node db"
    by (simp_all add: change_nodes_def)
  show ?thesis
    unfolding nodes_inv_def rows names
  proof (intro conjI)
    show "distinct (map nd_id (map ?g (db_nodes db)))"
      using assms(1) unfolding map_map comp_def g(1) by (simp add: nodes_inv_def)
    show "\<forall>n \<in> set (map ?g (db_nodes db)). nd_id n < db_next_node db \<and> node_ok n"
      using assms(1,2,5) by (auto simp: nodes_inv_def stamp)
    show "distinct (map nd_name (filter (\<lambda>n. \<not> nd_deleted (?g n)) (filter (\<lambda>n. \<not> nd_deleted n) (db_nodes db))))"
      by (rule distinct_map_filter) (use assms(1) in \<open>simp add: nodes_inv_def\<close>)
  qed
qed

lemma nodes_inv_insert:
  assumes "nodes_inv db" "insert_node name region ip display endpoint h lo hi db = (Inr i, db')"
  shows "nodes_inv db'"
proof -
  obtain n where n: "db' = db\<lparr>db_nodes := db_nodes db @ [n], db_next_node := db_next_node db + 1\<rparr>" "nd_id n = db_next_node db"
    "nd_block_protocols n = 0" "node_constraints db n = None" "\<not> nd_deleted n"
    using assms(2) by (auto simp: insert_node_def Let_def split: option.splits)
  have old: "nd_id m < db_next_node db" "nd_id m < db_next_node db + 1" "node_ok m" if "m \<in> set (db_nodes db)" for m
    using assms(1) that by (auto simp: nodes_inv_def)
  have "node_ok n" "nd_deleted m \<or> nd_name m \<noteq> nd_name n" if "m \<in> set (db_nodes db)" for m
    using n old [OF that] that by (auto simp: node_constraints_def node_ok_def list_ex_iff split: if_splits)
  moreover have "node_ok n"
    using n by (auto simp: node_constraints_def node_ok_def split: if_splits)
  ultimately show ?thesis
    using assms(1) old n(2,5) unfolding n(1) by (fastforce simp: nodes_inv_def)
qed

text \<open>The statements that the handlers and the calls of the agents make on the table.\<close>

lemma nodes_inv_statements [keeps_inv]:
  assumes "nodes_inv db"
  shows "nodes_inv (set_cert_meta i serial fp db)"
    "nodes_inv (change_nodes p (\<lambda>r. r\<lparr>nd_status := ''online'', nd_last_seen := l, nd_agent_version := v\<rparr>) db)"
    "nodes_inv (change_nodes p (\<lambda>r. r\<lparr>nd_cpu_usage := c, nd_memory_usage := m, nd_load_average := a,
       nd_has_ipv4 := capability x (nd_has_ipv4 r), nd_has_ipv6 := capability y (nd_has_ipv6 r),
       nd_status := ''online'', nd_last_seen := l\<rparr>) db)"
    "nodes_inv (change_nodes p (\<lambda>r. r\<lparr>nd_cpu_usage := c, nd_memory_usage := m, nd_load_average := a,
       nd_rx_total := rx r, nd_tx_total := tx r, nd_status := ''online'', nd_last_seen := l\<rparr>) db)"
    "nodes_inv (change_nodes p (\<lambda>r. r\<lparr>nd_deleted := True\<rparr>) db)"
  unfolding set_cert_meta_def
  by (rule nodes_inv_change [OF assms]; simp add: node_ok_def node_checks_def)+

lemma nodes_inv_mask: "nodes_inv db \<Longrightarrow> 0 \<le> m \<Longrightarrow> m \<le> 7 \<Longrightarrow> nodes_inv (set_block_protocols i m db)"
  unfolding set_block_protocols_def by (rule nodes_inv_change; simp add: node_ok_def node_checks_def)

lemma find_node_unique:
  assumes "nodes_inv db" "find_node db i = Some n" "m \<in> set (db_nodes db)" "live_node i m"
  shows "m = n"
  using assms find_SomeD [of "\<lambda>n. nd_id n = i \<and> \<not> nd_deleted n" "db_nodes db" n]
  by (auto simp: nodes_inv_def find_node_def live_node_def distinct_map inj_on_def)

lemma distinct_replace:
  "distinct (map f xs) \<Longrightarrow> \<forall>z \<in> set xs. z \<noteq> x \<longrightarrow> f z \<noteq> f y \<Longrightarrow> distinct (map (\<lambda>z. f (if z = x then y else z)) xs)"
  by (simp add: distinct_map inj_on_def) metis

lemma nodes_inv_update:
  assumes "nodes_inv db" "update_node_row i req db = (Inr k, db')"
  shows "nodes_inv db'"
proof (cases "find_node db i")
  case None
  with assms show ?thesis by (simp add: update_node_row_def)
next
  case (Some n)
  then have c: "node_constraints db (node_patch req n) = None" and db': "db' = change_nodes (live_node i) (node_patch req) db"
    using assms(2) by (auto simp: update_node_row_def split: option.splits)
  have n: "n \<in> set (db_nodes db)" "nd_id n = i" "\<not> nd_deleted n"
    using find_SomeD [OF Some [unfolded find_node_def]] by simp_all
  have only: "live_node i m \<longleftrightarrow> m = n" if "m \<in> set (db_nodes db)" for m
    using find_node_unique [OF assms(1) Some that] n by (auto simp: live_node_def)
  define n' where "n' = (node_patch req n)\<lparr>nd_updated_at := db_now db\<rparr>"
  have n': "nd_id n' = nd_id (node_patch req n)" "nd_name n' = nd_name (node_patch req n)" "nd_deleted n' = nd_deleted (node_patch req n)"
    "node_ok n' = node_ok (node_patch req n)"
    by (simp_all add: n'_def node_ok_def node_checks_def)
  have rows: "db_nodes db' = map (\<lambda>m. if m = n then n' else m) (db_nodes db)"
    unfolding db' change_nodes_def n'_def by (simp add: only cong: map_cong)
  have g: "nd_id (if m = n then n' else m) = nd_id m" "nd_deleted (if m = n then n' else m) = nd_deleted m" for m
    using n by (simp_all add: n' node_patch_def)
  have ids: "distinct (map nd_id (db_nodes db'))"
    using assms(1) unfolding rows map_map comp_def g by (simp add: nodes_inv_def)
  have other: "nd_name m \<noteq> nd_name n'" if "m \<in> set (db_nodes db)" "m \<noteq> n" "\<not> nd_deleted m" for m
    using c that only [OF that(1)] n by (auto simp: n' node_constraints_def list_ex_iff live_node_def node_patch_def split: if_splits)
  have names: "distinct (map nd_name (filter (\<lambda>m. \<not> nd_deleted m) (db_nodes db')))"
    unfolding rows filter_map comp_def g map_map
    by (rule distinct_replace) (use assms(1) other in \<open>auto simp: nodes_inv_def\<close>)
  have "node_ok n" "db_next_node db' = db_next_node db"
    using assms(1) n by (simp_all add: nodes_inv_def db' change_nodes_def)
  moreover from this have "node_ok (node_patch req n)"
    using c by (auto simp: node_ok_def node_constraints_def node_patch_def split: if_splits)
  then have "node_ok n'" "nd_id n' = nd_id n"
    by (simp_all add: n') (simp add: node_patch_def)
  ultimately have rest: "\<forall>m \<in> set (db_nodes db'). nd_id m < db_next_node db' \<and> node_ok m"
    using assms(1) n unfolding rows by (auto simp: nodes_inv_def)
  show ?thesis
    unfolding nodes_inv_def using ids names rest by blast
qed

section \<open>Every call keeps it\<close>

lemma nodes_audit: "keepsA (\<lambda>p. nodes_inv (pn_db p)) (doA (record_with_ip io a b c d e f g h))"
  by (rule keepsA_do) (simp add: nodes_inv_def record_with_ip_def)

lemma nodes_dispatch: "keepsA (\<lambda>p. nodes_inv (pn_db p)) (dispatchA n c)"
  by (simp add: keepsA_def dispatchA_def split: prod.split)

lemma apply_each_db [simp]: "pn_db (apply_each pe io rs p) = pn_db p"
  by (induction rs arbitrary: p) simp_all

lemma nodes_insert: "keepsA (\<lambda>p. nodes_inv (pn_db p)) (write_db io q c (insert_node name region ip display endpoint h lo hi))"
  by (rule keepsA_write) (rule nodes_inv_insert)

lemma nodes_write: "keepsA (\<lambda>p. nodes_inv (pn_db p)) (write_db io q c (update_node_row i req))"
  by (rule keepsA_write) (rule nodes_inv_update)

lemma create_node_keeps: "keepsA (\<lambda>p. nodes_inv (pn_db p)) (create_node ne io auth ip req)"
  unfolding create_node_def
  by (intro keepsA_bind keepsA_ask keeps_prod nodes_audit nodes_insert keepsA_update keeps_inv)

lemma upgrade_agent_keeps: "keepsA (\<lambda>p. nodes_inv (pn_db p)) (upgrade_agent_handler ne io auth ip i)"
  unfolding upgrade_agent_handler_def
  by (intro keepsA_bind keepsA_ask keepsA_if nodes_audit nodes_dispatch)

lemma change_mask_keeps:
  assumes "0 \<le> m" "m \<le> 7"
  shows "keepsA (\<lambda>p. nodes_inv (pn_db p)) (change_mask pe io i m)"
  unfolding change_mask_def
  by (intro keepsA_bind keepsA_ask keepsA_update keepsA_do) (use assms in \<open>simp_all add: nodes_inv_mask\<close>)

lemma update_node_keeps: "keepsA (\<lambda>p. nodes_inv (pn_db p)) (update_node pe io auth ip i req)"
  unfolding update_node_def
proof (rule keeps_ask_bind, goal_cases)
  case (1 p x)
  have m: "0 \<le> m \<and> m \<le> 7" if "un_block_protocols req = Some m" for m
    using 1(2) that by (auto simp: update_node_checks_def bindR_eq_Inr option_check_def)
  have "keepsA (\<lambda>p. nodes_inv (pn_db p)) (case un_block_protocols req of Some m \<Rightarrow> change_mask pe io i m | None \<Rightarrow> returnA ())"
    using m change_mask_keeps by (auto simp: keepsA_ask split: option.split)
  then have "keepsA (\<lambda>p. nodes_inv (pn_db p)) (bindA (write_db io ''update_node'' map_sqlx_node (update_node_row i req)) (\<lambda>rows.
     bindA (ask (\<lambda>_. reject_if (rows = 0) Not_Found)) (\<lambda>_.
     bindA (case un_block_protocols req of Some m \<Rightarrow> change_mask pe io i m | None \<Rightarrow> returnA ()) (\<lambda>_.
     bindA (ask (\<lambda>db. fetch_node io ''reread_node'' db i)) (\<lambda>n.
     bindA (doA (record_with_ip io (Some (cl_sub auth)) (as_option ip) ''node.update'' (Some ''node'') (Some i)
              None True None)) (\<lambda>_.
       returnA (node_view_of n)))))))"
    by (intro keepsA_bind keepsA_ask nodes_audit nodes_write)
  with 1(1) show ?case by (simp add: keepsA_def)
qed

section \<open>The calls of the agents\<close>

text \<open>
  What a predicate of the database must stand so that no call of an agent and no end of a session
  breaks it: each statement that these calls make on the tables.
\<close>

definition node_unused :: "panel_db \<Rightarrow> int \<Rightarrow> bool" where
  "node_unused db i = ((\<forall>r \<in> set (db_rules db). dr_node_id r = i \<longrightarrow> dr_deleted r) \<and> \<not> node_in_active_tunnel db i)"

lemma sv_db_fields [simp]:
  "sv_db (s\<lparr>sv_sessions := a\<rparr>) = sv_db s" "sv_db (s\<lparr>sv_crl := b\<rparr>) = sv_db s" "sv_db (s\<lparr>sv_agent_sessions := c\<rparr>) = sv_db s"
  "sv_db (s\<lparr>sv_probe_seq := d\<rparr>) = sv_db s" "sv_db (s\<lparr>sv_waiters := e\<rparr>) = sv_db s" "sv_db (s\<lparr>sv_results := f\<rparr>) = sv_db s"
  by (simp_all add: sv_db_def)

locale agent_calls =
  fixes ev :: service_env and Q :: "panel_db \<Rightarrow> bool"
  assumes audit: "Q db \<Longrightarrow> Q (db\<lparr>db_audit := a\<rparr>)"
    and online: "Q db \<Longrightarrow> Q (change_nodes p (\<lambda>r. r\<lparr>nd_status := ''online'', nd_last_seen := l, nd_agent_version := v\<rparr>) db)"
    and beat: "Q db \<Longrightarrow> Q (change_nodes p (\<lambda>r. r\<lparr>nd_cpu_usage := c, nd_memory_usage := m, nd_load_average := w,
       nd_has_ipv4 := capability x (nd_has_ipv4 r), nd_has_ipv6 := capability y (nd_has_ipv6 r),
       nd_status := ''online'', nd_last_seen := l\<rparr>) db)"
    and node_bucket: "Q db \<Longrightarrow> Q (snd (put_node_bucket ev io n nb db))"
    and rule_bucket: "Q db \<Longrightarrow> Q (snd (put_rule_bucket ev io n rb db))"
    and cert: "Q db \<Longrightarrow> Q (set_cert_meta i serial fp db)"
    and node_deleted: "Q db \<Longrightarrow> node_unused db i \<Longrightarrow> Q (change_nodes (live_node i) (\<lambda>r. r\<lparr>nd_deleted := True\<rparr>) db)"
begin

lemma audited [simp]:
  "Q (sv_db s) \<Longrightarrow> Q (sv_db (audit_server io n v e s))" "Q (sv_db s) \<Longrightarrow> Q (sv_db (audit_node io0 auth ip act i s))"
  by (simp_all add: audit_server_def audit_node_def sv_db_def record_plain_def record_with_ip_def audit)

lemma register_keeps: "Q (sv_db s) \<Longrightarrow> Q (sv_db (snd (register ev io now token fp req s)))"
proof -
  assume q: "Q (sv_db s)"
  have a: "Q (sv_db (snd (accept_node ev io now token fp req s)))" for fp
    using q by (simp add: accept_node_def Let_def online)
  show ?thesis
    using q a by (simp add: register_def denied_def split: option.split)
qed

lemma batches_keep:
  assumes "\<And>m b d. Q d \<Longrightarrow> Q (snd (put m b d))"
  shows "Q (snd acc) \<Longrightarrow> Q (snd (snd (put_batches put n batches acc)))"
proof -
  have one: "Q (snd acc) \<Longrightarrow> Q (snd (put_buckets (put m) buckets acc))" for m buckets acc
  proof (induction buckets arbitrary: acc)
    case (Cons b rest)
    then show ?case
      using assms [of "snd acc" m b] by (cases acc; cases "put m b (snd acc)") auto
  next
    case Nil
    then show ?case by (cases acc) simp
  qed
  show "Q (snd acc) \<Longrightarrow> Q (snd (snd (put_batches put n batches acc)))"
  proof (induction batches arbitrary: acc)
    case (Cons x rest)
    then have "Q (snd (snd (put_batches put n rest (put_buckets (put n) buckets acc))))" for buckets
      by (intro Cons.IH one)
    then show ?case
      using Cons.prems by (cases x) auto
  qed simp
qed

lemma reports_keep:
  assumes "Q (sv_db s)"
  shows "Q (sv_db (snd (report_node_stats ev io now c nbs s)))" "Q (sv_db (snd (report_rule_stats ev io now c cs s)))"
proof -
  have n: "Q (snd (snd (put_batches (put_node_bucket ev io) n nbs (0, sv_db s))))" for n
    by (rule batches_keep) (simp_all add: node_bucket assms)
  show "Q (sv_db (snd (report_node_stats ev io now c nbs s)))"
    using assms n by (auto simp: report_node_stats_def Let_def split: sum.split prod.split option.split) (metis snd_conv)+
  have r: "Q (snd (snd (put_batches (put_rule_bucket ev io) n cs (0, sv_db s))))" for n
    by (rule batches_keep) (simp_all add: rule_bucket assms)
  show "Q (sv_db (snd (report_rule_stats ev io now c cs s)))"
    using assms r by (auto simp: report_rule_stats_def split: sum.split prod.split option.split) (metis snd_conv)+
qed

lemma delete_node_keeps: "Q (sv_db s) \<Longrightarrow> Q (sv_db (snd (delete_node io auth ip i s)))"
proof -
  assume q: "Q (sv_db s)"
  have free: "node_unused (sv_db s) i" if "filter (\<lambda>r. dr_node_id r = i \<and> \<not> dr_deleted r) (db_rules (sv_db s)) = []"
      "\<not> node_in_active_tunnel (sv_db s) i"
    using that by (auto simp: node_unused_def filter_empty_conv)
  have "Q (snd (soft_delete_node i (sv_db s)))" if "node_unused (sv_db s) i"
    using node_deleted [OF q that] by (simp add: soft_delete_node_def)
  with q free show ?thesis
    by (auto simp: delete_node_def bindR_eq_Inr split: sum.split prod.split)
qed

lemma revoke_keeps: "Q (sv_db s) \<Longrightarrow> Q (sv_db (snd (revoke_credentials io ok issued auth ip i s)))"
proof -
  assume q: "Q (sv_db s)"
  show ?thesis
    using q by (simp add: revoke_credentials_def Let_def cert split: sum.split prod.split option.split)
qed

lemma server_step_keeps: "Q (sv_db s) \<Longrightarrow> Q (sv_db (server_step ev s e))"
proof (cases e)
  case (Heartbeat io now c req)
  then show "Q (sv_db s) \<Longrightarrow> Q (sv_db (server_step ev s e))"
    by (simp add: heartbeat_def Let_def beat split: sum.split)
next
  case (Subscribe_Commands now c n)
  then show "Q (sv_db s) \<Longrightarrow> Q (sv_db (server_step ev s e))"
    by (simp add: subscribe_commands_def sv_db_def split: sum.split prod.split)
next
  case (Report_Probe now c r)
  then show "Q (sv_db s) \<Longrightarrow> Q (sv_db (server_step ev s e))"
    by (simp add: report_probe_result_def resolve_probe_def sv_db_def split: sum.split option.split)
qed (simp_all add: register_keeps reports_keep delete_node_keeps revoke_keeps register_probe_def cancel_probe_def Let_def)

end

lemma put_node_bucket_nodes: "nodes_inv db \<Longrightarrow> nodes_inv (snd (put_node_bucket ev io n b db))"
proof -
  assume "nodes_inv db"
  then have "nodes_inv (db\<lparr>db_node_stats := x\<rparr>)" for x
    by (simp add: nodes_inv_def)
  then show ?thesis
    using \<open>nodes_inv db\<close>
    by (simp add: put_node_bucket_def
        nodes_inv_statements(4) [where rx = "\<lambda>r. sql_add (nd_rx_total r) a" and tx = "\<lambda>r. sql_add (nd_tx_total r) c" for a c])
qed

interpretation nodes_table: agent_calls ev nodes_inv
proof unfold_locales
  fix db io n rb
  assume "nodes_inv db"
  then show "nodes_inv (snd (put_rule_bucket ev io n rb db))"
    by (simp add: nodes_inv_def put_rule_bucket_def Let_def change_rules_def)
qed (simp_all add: nodes_inv_statements put_node_bucket_nodes, simp add: nodes_inv_def)

end
