(* ===== verification/Auth_Api.thy ===== *)
theory Auth_Api
  imports Users_Api
begin

text \<open>
  Logging in, changing one's password, the own account and the subscription: routes/auth.rs and
  routes/subscription.rs with auth/jwt.rs. Hashing and checking a password, signing claims and
  verifying a token are arguments. A handler for logging in also works on the table of the failed
  logins (\<^verbatim>\<open>login_audit_throttle\<close>), so its state is a pair. The run of \<^verbatim>\<open>verify\<close> on a dummy
  hash, which only takes time, is left out. The strings of a stored date are numbers here: what
  cannot be read as a date is 0.
\<close>

section \<open>Data\<close>

record auth_env =
  ae_verify :: "string \<Rightarrow> string \<Rightarrow> bool option"
  ae_hash :: "string \<Rightarrow> string option"
  ae_encode :: "claims \<Rightarrow> string option"
  ae_decode :: "int \<Rightarrow> string \<Rightarrow> claims option"
  ae_expiry_hours :: int

type_synonym throttle = "(string \<times> login_window) list"
type_synonym login_state = "throttle \<times> panel"

record login_request =
  lg_username :: string
  lg_password :: string

record login_response =
  lr_token :: string
  lr_id :: int
  lr_username :: string
  lr_role :: string
  lr_must_change :: bool

record me_view =
  me_id :: int
  me_username :: string
  me_role :: string
  me_expires_at :: "int option"
  me_limit_30d :: "int option"
  me_used_cached :: int
  me_calculated_at :: "int option"
  me_rule_count :: int
  me_rules_quota :: "int option"
  me_total_traffic :: int
  me_must_change :: bool

section \<open>Tokens\<close>

text \<open>The claims that \<^verbatim>\<open>encode_jwt\<close> and \<^verbatim>\<open>encode_sub_token\<close> sign.\<close>

definition session_claims :: "auth_env \<Rightarrow> int \<Rightarrow> int \<Rightarrow> string \<Rightarrow> string \<Rightarrow> bool \<Rightarrow> claims" where
  "session_claims ae now i name role mcp =
     \<lparr>cl_sub = i, cl_username = name, cl_role = role, cl_exp = now + ae_expiry_hours ae * 3600, cl_mcp = mcp, cl_scope = []\<rparr>"

definition encode_jwt :: "auth_env \<Rightarrow> int \<Rightarrow> int \<Rightarrow> string \<Rightarrow> string \<Rightarrow> bool \<Rightarrow> string option" where
  "encode_jwt ae now i name role mcp = ae_encode ae (session_claims ae now i name role mcp)"

definition encode_sub_token :: "auth_env \<Rightarrow> int \<Rightarrow> string \<Rightarrow> int \<Rightarrow> string option" where
  "encode_sub_token ae i name expiry = ae_encode ae
     \<lparr>cl_sub = i, cl_username = name, cl_role = ''user'', cl_exp = expiry, cl_mcp = False, cl_scope = ''sub''\<rparr>"

text \<open>Reading a token at a time: the library checks the signature and the time of expiry.\<close>

definition decode_jwt :: "auth_env \<Rightarrow> int \<Rightarrow> string \<Rightarrow> claims option" where
  "decode_jwt ae now token = ae_decode ae now token"

section \<open>Statements\<close>

definition find_by_username :: "panel_db \<Rightarrow> string \<Rightarrow> user_row option" where
  "find_by_username db name = find (\<lambda>u. us_username u = name \<and> \<not> us_deleted u) (db_users db)"

definition change_password_self :: "int \<Rightarrow> string \<Rightarrow> panel_db \<Rightarrow> (sql_error + nat) \<times> panel_db" where
  "change_password_self i hash = update_user_row i (\<lambda>u. u\<lparr>us_password_hash := hash, us_must_change := 0\<rparr>)"

section \<open>Logging in\<close>

definition record_login_failure ::
    "query_faults \<Rightarrow> string \<Rightarrow> nat \<Rightarrow> int option \<Rightarrow> string option \<Rightarrow> string \<Rightarrow> login_state \<Rightarrow> login_state" where
  "record_login_failure io ip now_ms user name reason s =
     (case s of (m, p) \<Rightarrow>
       (case decide (unwrap_or ''<no-ip>'' (as_option ip)) now_ms m of
          (Suppress, m1) \<Rightarrow> (m1, p)
        | (Record prev, m1) \<Rightarrow>
            (m1, record_with_ip io user (as_option ip) ''auth.login'' (Some ''user'') user name False
               (Some (if 0 < prev then reason @ '' (another '' @ dec (unat prev) @ '' failures in 60s)'' else reason)) p)))"

definition login ::
    "auth_env \<Rightarrow> query_faults \<Rightarrow> string \<Rightarrow> nat \<Rightarrow> int \<Rightarrow> login_request \<Rightarrow> login_state
     \<Rightarrow> (api_error + login_response) \<times> login_state" where
  "login ae io ip now_ms now req s =
     (case s of (m, p) \<Rightarrow>
      if io ''find_by_username'' then (Inl (Database Sql_Failed), s)
      else case find_by_username (pn_db p) (lg_username req) of
        None \<Rightarrow> (Inl Unauthorized, record_login_failure io ip now_ms None (Some (lg_username req)) ''unknown_user'' s)
      | Some u \<Rightarrow>
          (case ae_verify ae (lg_password req) (us_password_hash u) of
             None \<Rightarrow> (Inl Internal, s)
           | Some False \<Rightarrow> (Inl Unauthorized, record_login_failure io ip now_ms (Some (us_id u)) None ''bad_password'' s)
           | Some True \<Rightarrow>
               if (case us_expires_at u of None \<Rightarrow> False | Some t \<Rightarrow> 0 < t \<and> t \<le> now)
               then (Inl (Unauthorized_Msg ''account_expired''),
                     record_login_failure io ip now_ms (Some (us_id u)) None ''account_expired'' s)
               else (case encode_jwt ae now (us_id u) (us_username u) (us_role u) (us_must_change u \<noteq> 0) of
                       None \<Rightarrow> (Inl Internal, s)
                     | Some token \<Rightarrow>
                         (Inr \<lparr>lr_token = token, lr_id = us_id u, lr_username = us_username u, lr_role = us_role u,
                               lr_must_change = (us_must_change u \<noteq> 0)\<rparr>,
                          (m, record_with_ip io (Some (us_id u)) (as_option ip) ''auth.login'' (Some ''user'') (Some (us_id u))
                                None True None p)))))"

section \<open>The own account\<close>

definition me :: "query_faults \<Rightarrow> claims \<Rightarrow> me_view api" where
  "me io auth =
     bindA (ask (\<lambda>db. read_db io ''me'' (find_user db (cl_sub auth)))) (\<lambda>row.
     bindA (ask (\<lambda>_. ok_or Unauthorized row)) (\<lambda>u.
     bindA (ask (\<lambda>db. Inr (live_rules_of db (us_id u)))) (\<lambda>rs.
       returnA \<lparr>me_id = us_id u, me_username = us_username u, me_role = us_role u, me_expires_at = us_expires_at u,
                me_limit_30d = us_limit_30d u, me_used_cached = us_used_cached u, me_calculated_at = us_calculated_at u,
                me_rule_count = int (length rs), me_rules_quota = us_rules_quota u,
                me_total_traffic = sum_list (map (\<lambda>r. dr_rx r + dr_tx r) rs), me_must_change = (us_must_change u \<noteq> 0)\<rparr>)))"

definition change_password_stored ::
    "query_faults \<Rightarrow> string \<Rightarrow> int \<Rightarrow> string \<Rightarrow> unit api" where
  "change_password_stored io ip i hash =
     bindA (write_db io ''change_password'' Database (change_password_self i hash)) (\<lambda>rows.
     bindA (ask (\<lambda>_. reject_if (rows = 0) Not_Found)) (\<lambda>_.
       doA (record_with_ip io (Some i) (as_option ip) ''auth.change_password'' (Some ''user'') (Some i) None True None)))"

definition change_password ::
    "auth_env \<Rightarrow> query_faults \<Rightarrow> claims \<Rightarrow> string \<Rightarrow> string \<Rightarrow> string \<Rightarrow> unit api" where
  "change_password ae io auth ip old new =
     bindA (ask (\<lambda>_. reject_if (length new < 8) (Bad_Request ''password length''))) (\<lambda>_.
     bindA (ask (\<lambda>db. bindR (read_db io ''find_user'' (find_user db (cl_sub auth))) (ok_or Unauthorized))) (\<lambda>u.
     bindA (ask (\<lambda>_. ok_or Internal (ae_verify ae old (us_password_hash u)))) (\<lambda>ok.
       if \<not> ok then
         bindA (doA (record_with_ip io (Some (us_id u)) (as_option ip) ''auth.change_password'' (Some ''user'')
                  (Some (us_id u)) None False (Some ''bad_old_password''))) (\<lambda>_.
           ask (\<lambda>_. Inl (Bad_Request ''current password'')))
       else
         bindA (ask (\<lambda>_. reject_if (new = old) (Bad_Request ''same password''))) (\<lambda>_.
         bindA (ask (\<lambda>_. ok_or Internal (ae_hash ae new))) (\<lambda>hash.
           change_password_stored io ip (us_id u) hash)))))"

section \<open>The subscription\<close>

definition resolve_user_id :: "(string \<Rightarrow> claims option) \<Rightarrow> request \<Rightarrow> string option \<Rightarrow> api_error + int" where
  "resolve_user_id decode rq query_token =
     bindR (ok_or Unauthorized (case Option.bind (header rq ''authorization'') (strip_prefix ''Bearer '') of
              Some t \<Rightarrow> Some t | None \<Rightarrow> query_token)) (\<lambda>token.
     bindR (ok_or Unauthorized (decode token)) (\<lambda>c.
     bindR (reject_if (cl_scope c \<noteq> ''sub'') Forbidden) (\<lambda>_. Inr (cl_sub c))))"

definition issue_token :: "auth_env \<Rightarrow> query_faults \<Rightarrow> int \<Rightarrow> claims \<Rightarrow> (string \<times> int) api" where
  "issue_token ae io now auth =
     bindA (ask (\<lambda>db. read_db io ''expires_at'' (Option.bind (find_user db (cl_sub auth)) us_expires_at))) (\<lambda>expires.
     (let expiry = (case expires of Some t \<Rightarrow> if 0 < t then t else now + 315360000 | None \<Rightarrow> now + 315360000) in
      bindA (ask (\<lambda>_. ok_or Internal (encode_sub_token ae (cl_sub auth) (cl_username auth) expiry))) (\<lambda>token.
        returnA (token, expiry))))"

definition usage ::
    "auth_env \<Rightarrow> query_faults \<Rightarrow> int \<Rightarrow> request \<Rightarrow> string option \<Rightarrow> (string \<times> string \<times> int \<times> int \<times> int) api" where
  "usage ae io now rq query_token =
     bindA (ask (\<lambda>_. resolve_user_id (decode_jwt ae now) rq query_token)) (\<lambda>i.
     bindA (ask (\<lambda>db. read_db io ''usage'' (find_user db i))) (\<lambda>row.
     bindA (ask (\<lambda>_. ok_or Unauthorized row)) (\<lambda>u.
     (let total = max 0 (unwrap_or 0 (us_limit_30d u)); used = max 0 (us_used_cached u);
          expire = (case us_expires_at u of Some t \<Rightarrow> if 0 < t then t else 0 | None \<Rightarrow> 0) in
      returnA (''upload=0; download='' @ show_int used @ ''; total='' @ show_int total @ ''; expire='' @ show_int expire,
               us_username u, used, total, expire)))))"

section \<open>The account behind a name\<close>

definition account :: "int \<Rightarrow> string \<Rightarrow> string \<Rightarrow> bool \<Rightarrow> panel_db \<Rightarrow> bool" where
  "account i name h must db = (\<exists>u \<in> set (db_users db). live_user i u \<and> us_username u = name
     \<and> us_password_hash u = h \<and> (us_must_change u \<noteq> 0) = must)"

lemma account_cong: "db_users d = db_users e \<Longrightarrow> account i name h must d = account i name h must e"
  by (simp add: account_def)

lemma account_audit: "keepsA (\<lambda>p. account i name h must (pn_db p)) (doA (record_with_ip io a b c d e f g k))"
  by (rule keepsA_do) (simp add: account_def)

lemma account_change:
  assumes "account i name h must db" "\<And>u. us_id (f u) = us_id u" "\<And>u. us_username (f u) = us_username u"
    "\<And>u. us_deleted (f u) = us_deleted u"
    "\<And>u. us_password_hash (f u) = us_password_hash u" "\<And>u. us_must_change (f u) = us_must_change u"
  shows "account i name h must (change_users p f db)"
proof -
  obtain u where "u \<in> set (db_users db)" "live_user i u" "us_username u = name" "us_password_hash u = h"
    "(us_must_change u \<noteq> 0) = must"
    using assms(1) by (auto simp: account_def)
  with assms(2-6) show ?thesis
    unfolding account_def
    by (intro bexI [of _ "if p u then f u else u"]) (simp_all add: live_user_def change_users_def)
qed

lemma account_settings [keeps_inv]:
  assumes "account i name h must db"
  shows "account i name h must (set_quota_reset_day j d db)" "account i name h must (set_forward_rules_quota j q db)"
    "account i name h must (set_node_grants j ns db)" "account i name h must (set_tunnel_grants j ts db)"
  using assms account_cong [of "set_node_grants j ns db" db] account_cong [of "set_tunnel_grants j ts db" db]
  by (auto simp: set_quota_reset_day_def set_forward_rules_quota_def set_node_grants_def set_tunnel_grants_def
      intro!: account_change)

lemma account_found:
  assumes "users_inv db" "account i name h must db"
  obtains u where "find_by_username db name = Some u" "find_user db i = Some u" "us_id u = i" "us_username u = name"
    "us_password_hash u = h" "(us_must_change u \<noteq> 0) = must"
proof -
  obtain u where u: "u \<in> set (db_users db)" "live_user i u" "us_username u = name" "us_password_hash u = h"
    "(us_must_change u \<noteq> 0) = must"
    using assms(2) by (auto simp: account_def)
  have same: "v = u" if "v \<in> set (db_users db)" "us_username v = name" "\<not> us_deleted v" for v
    using assms(1) u that by (auto simp: users_inv_def distinct_map inj_on_def live_user_def)
  obtain v where v: "find_by_username db name = Some v"
    using u by (cases "find_by_username db name") (auto simp: find_by_username_def find_None_iff live_user_def)
  then have "v = u"
    using same [of v] by (auto simp: find_by_username_def dest!: find_SomeD)
  obtain w where w: "find_user db i = Some w"
    using u by (cases "find_user db i") (auto simp: find_user_def find_None_iff live_user_def)
  with find_user_unique [OF assms(1) w u(1,2)] have "w = u" by simp
  with that [of u] v w \<open>v = u\<close> u show thesis by (simp add: live_user_def)
qed

text \<open>A password that an administrator sets must be changed.\<close>

lemma sync_grants_account: "keepsA (\<lambda>p. account i name h must (pn_db p)) (sync_grants io j ns ts ls)"
  unfolding sync_grants_def by (intro keepsA_bind keepsA_ask keepsA_update keeps_option keeps_inv)

lemma reset_account:
  assumes "find_user (pn_db p) i = Some u" "uu_password req = Some pw" "ue_hash ue pw = Some h"
  shows "okA (\<lambda>q. q = p) (update_user ue io auth ip i req) (\<lambda>_ q. account i (us_username u) h True (pn_db q))"
  unfolding update_user_def
proof (rule okA_bind [OF okA_ask], goal_cases)
  case (1 x)
  obtain existing expires hash where x: "x = (existing, expires, hash)" by (cases x) auto
  let ?w = "write_db io ''update_user'' Database (update_user_row i (user_patch hash (uu_role req) expires (uu_limit_30d req)))"
  have w: "okA (\<lambda>q. q = p \<and> update_user_checks ue io auth i req (pn_db q) = Inr x) ?w (\<lambda>_ q. account i (us_username u) h True (pn_db q))"
  proof (unfold okA_def, intro allI impI, elim conjE)
    fix q r q'
    assume q: "q = p" "update_user_checks ue io auth i req (pn_db q) = Inr x" "?w q = (Inr r, q')"
    have "hash = Some h"
      using q(2) assms(2,3) by (auto simp: x update_user_checks_def bindR_eq_Inr ok_or_def)
    with q(1,3) have db: "pn_db q' = change_users (live_user i) (user_patch (Some h) (uu_role req) expires (uu_limit_30d req)) (pn_db p)"
      by (auto simp: write_db_def update_user_row_def split: if_splits)
    have u: "u \<in> set (db_users (pn_db p))" "live_user i u"
      using find_SomeD [OF assms(1) [unfolded find_user_def]] by (simp_all add: live_user_def)
    show "account i (us_username u) h True (pn_db q')"
      unfolding db account_def
      by (rule bexI [of _ "user_patch (Some h) (uu_role req) expires (uu_limit_30d req) u"])
        (use u in \<open>simp_all add: user_patch_def live_user_def change_users_def coalesce_def\<close>)
  qed
  show ?case
    unfolding x prod.case
    by (rule okA_bind [OF w [unfolded x] okA_keep])
      (intro keepsA_bind keepsA_ask keeps_option keepsA_update keeps_inv account_audit sync_grants_account)
qed

text \<open>After the owner has changed it, he need not change it again.\<close>

lemma change_password_ok:
  assumes "users_inv (pn_db p)" "account i name h must (pn_db p)" "cl_sub auth = i" "8 \<le> length new" "new \<noteq> old"
    "ae_verify ae old h = Some True" "ae_hash ae new = Some h'"
  obtains p' where "change_password ae no_faults auth ip old new p = (Inr (), p')" "users_inv (pn_db p')"
    "account i name h' False (pn_db p')"
proof -
  obtain u where u: "find_user (pn_db p) i = Some u" "us_id u = i" "us_username u = name" "us_password_hash u = h"
    using account_found [OF assms(1,2)] by metis
  let ?f = "\<lambda>u. u\<lparr>us_password_hash := h', us_must_change := 0\<rparr>"
  let ?p = "record_with_ip no_faults (Some i) (as_option ip) ''auth.change_password'' (Some ''user'') (Some i) None True None
    (p\<lparr>pn_db := change_users (live_user i) ?f (pn_db p)\<rparr>)"
  have m: "u \<in> set (db_users (pn_db p))" "live_user i u"
    using find_SomeD [OF u(1) [unfolded find_user_def]] by (simp_all add: live_user_def)
  then have "filter (live_user i) (db_users (pn_db p)) \<noteq> []"
    by (auto simp: filter_empty_conv)
  then have "change_password ae no_faults auth ip old new p = (Inr (), ?p)"
    using assms(3-7) u
    by (simp add: change_password_def change_password_stored_def bindA_def bindR_def reject_if_def read_db_def ok_or_def
        write_db_def change_password_self_def update_user_row_def)
  moreover have "users_inv (pn_db ?p)"
    using users_inv_tame [OF assms(1), of ?f "live_user i"] by simp
  moreover have "account i name h' False (change_users (live_user i) ?f (pn_db p))"
    unfolding account_def
    by (rule bexI [of _ "?f u"]) (use m u in \<open>simp_all add: live_user_def change_users_def\<close>)
  then have "account i name h' False (pn_db ?p)"
    by (simp add: account_cong [of "pn_db ?p" "change_users (live_user i) ?f (pn_db p)"])
  ultimately show thesis
    by (rule that)
qed

section \<open>Logging in\<close>

text \<open>What a failed login leaves alone.\<close>

lemma failure_frame [simp]:
  "db_users (pn_db (snd (record_login_failure io ip ms u n r s))) = db_users (pn_db (snd s))"
  "db_next_user (pn_db (snd (record_login_failure io ip ms u n r s))) = db_next_user (pn_db (snd s))"
  by (simp_all add: record_login_failure_def record_with_ip_def split: prod.split audit_decision.split)

lemma login_accepts:
  assumes "users_inv (pn_db p)" "account i name h must (pn_db p)" "ae_verify ae pw h = Some True"
    "\<And>c. 0 \<le> cl_exp c \<Longrightarrow> \<exists>t. ae_encode ae c = Some t
       \<and> (\<forall>clock. ae_decode ae clock t = (if clock \<le> cl_exp c + 60 then Some c else None))"
    "0 \<le> ae_expiry_hours ae" "0 \<le> now"
    "login ae no_faults ip ms now \<lparr>lg_username = name, lg_password = pw\<rparr> (m, p) = (res, m', p')"
    "res \<noteq> Inl (Unauthorized_Msg ''account_expired'')"
  obtains r role where "res = Inr r" "lr_must_change r = must" "lr_id r = i" "users_inv (pn_db p')" "account i name h must (pn_db p')"
    "\<forall>clock. decode_jwt ae clock (lr_token r)
       = (if clock \<le> now + ae_expiry_hours ae * 3600 + 60 then Some (session_claims ae now i name role must) else None)"
proof -
  obtain u where u: "find_by_username (pn_db p) name = Some u" "us_id u = i" "us_username u = name" "us_password_hash u = h"
    "(us_must_change u \<noteq> 0) = must"
    by (rule account_found [OF assms(1,2)])
  have "0 \<le> cl_exp (session_claims ae now i name (us_role u) must)"
    using assms(5,6) by (simp add: session_claims_def)
  then obtain t where t: "ae_encode ae (session_claims ae now i name (us_role u) must) = Some t"
    "\<And>clock. ae_decode ae clock t = (if clock \<le> now + ae_expiry_hours ae * 3600 + 60
       then Some (session_claims ae now i name (us_role u) must) else None)"
    using assms(4) [of "session_claims ae now i name (us_role u) must"] by (auto simp: session_claims_def)
  have "\<not> (case us_expires_at u of None \<Rightarrow> False | Some e \<Rightarrow> 0 < e \<and> e \<le> now)"
    using assms(3,7,8) u by (auto simp: login_def split: if_splits)
  then have l: "login ae no_faults ip ms now \<lparr>lg_username = name, lg_password = pw\<rparr> (m, p)
      = (Inr \<lparr>lr_token = t, lr_id = i, lr_username = name, lr_role = us_role u, lr_must_change = must\<rparr>, m,
         record_with_ip no_faults (Some i) (as_option ip) ''auth.login'' (Some ''user'') (Some i) None True None p)"
    using assms(3) u t(1) by (simp add: login_def encode_jwt_def)
  show thesis
    by (rule that [of "\<lparr>lr_token = t, lr_id = i, lr_username = name, lr_role = us_role u, lr_must_change = must\<rparr>" "us_role u"])
      (use l assms(1,2,7) t(2) in \<open>auto simp: account_cong [OF record_frame(4)] decode_jwt_def\<close>)
qed

lemma login_refuses:
  assumes "users_inv (pn_db p)" "account i name h must (pn_db p)" "ae_verify ae pw h = Some False"
  shows "fst (login ae no_faults ip ms now \<lparr>lg_username = name, lg_password = pw\<rparr> (m, p)) = Inl Unauthorized"
proof -
  obtain u where "find_by_username (pn_db p) name = Some u" "us_password_hash u = h"
    by (rule account_found [OF assms(1,2)])
  with assms(3) show ?thesis by (simp add: login_def)
qed

lemma login_in_time:
  assumes "map_option us_expires_at (find_by_username (pn_db p) name) = Some None"
  shows "fst (login ae io ip ms now \<lparr>lg_username = name, lg_password = pw\<rparr> (m, p)) \<noteq> Inl (Unauthorized_Msg ''account_expired'')"
  using assms by (auto simp: login_def split: option.split bool.split)

lemma auth_by_lease:
  assumes "header rq ''authorization'' = Some (''Bearer '' @ t)" "decode t = (if valid then Some c else None)" "cl_scope c = []"
  shows "auth_user_allow_mcp decode rq = (if valid then Inr c else Inl Unauthorized)"
    "auth_user decode rq = (if \<not> valid then Inl Unauthorized else if cl_mcp c then Inl Forbidden else Inr c)"
proof -
  have "strip_prefix ''Bearer '' (''Bearer '' @ t) = Some t"
    by (simp add: strip_prefix_def starts_with_def)
  then show "auth_user_allow_mcp decode rq = (if valid then Inr c else Inl Unauthorized)"
    "auth_user decode rq = (if \<not> valid then Inl Unauthorized else if cl_mcp c then Inl Forbidden else Inr c)"
    using assms by (simp_all add: auth_user_allow_mcp_def auth_user_def bearer_claims_def)
qed

text \<open>C9. After an administrator has set a user's password, logging in with it (unless the account has expired) gives a token
  that every ordinary route refuses at all times. The route for changing one's password accepts it as this user's until the token
  expires, the configured number of hours and the minute of grace of the token library after the login. Changing the password there
  to another one of at least 8 bytes succeeds. From then on the password that the administrator knows is refused, and logging in
  with the new one gives a token that the ordinary routes accept as this user's until it expires, and refuse then. This is so when
  no statement of these calls fails, a hash is accepted for exactly its own password, and the library signs claims
  and gives them back for the signed text until they have expired.\<close>

theorem reset_forces_change:
  assumes inv: "users_inv (pn_db p)" and user: "find_user (pn_db p) i = Some u"
    and reset: "update_user ue io admin ip i req p = (Inr v, p1)" "uu_password req = Some pw"
    and hashing: "ue_hash ue = ae_hash ae" "\<And>x. ae_hash ae x \<noteq> None"
      "\<And>x y h. ae_hash ae x = Some h \<Longrightarrow> ae_verify ae y h = Some (y = x)"
    and tokens: "\<And>c. 0 \<le> cl_exp c \<Longrightarrow> \<exists>t. ae_encode ae c = Some t
      \<and> (\<forall>clock. ae_decode ae clock t = (if clock \<le> cl_exp c + 60 then Some c else None))"
    and times: "0 \<le> ae_expiry_hours ae" "0 \<le> now" "0 \<le> now3"
    and first: "login ae no_faults ip1 ms now \<lparr>lg_username = us_username u, lg_password = pw\<rparr> (m, p1) = (res, m2, p2)"
      "res \<noteq> Inl (Unauthorized_Msg ''account_expired'')"
    and new: "8 \<le> length new" "new \<noteq> pw"
  shows "\<exists>r c p3. res = Inr r \<and> lr_must_change r \<and> cl_sub c = i
    \<and> (\<forall>rq clock. header rq ''authorization'' = Some (''Bearer '' @ lr_token r) \<longrightarrow>
        auth_user (decode_jwt ae clock) rq = Inl (if clock \<le> now + ae_expiry_hours ae * 3600 + 60 then Forbidden else Unauthorized)
        \<and> auth_user_allow_mcp (decode_jwt ae clock) rq = (if clock \<le> now + ae_expiry_hours ae * 3600 + 60 then Inr c else Inl Unauthorized))
    \<and> change_password ae no_faults c ip2 pw new p2 = (Inr (), p3)
    \<and> fst (login ae no_faults ip3 ms3 now3 \<lparr>lg_username = us_username u, lg_password = pw\<rparr> (m3, p3)) = Inl Unauthorized
    \<and> (fst (login ae no_faults ip3 ms3 now3 \<lparr>lg_username = us_username u, lg_password = new\<rparr> (m3, p3))
          = Inl (Unauthorized_Msg ''account_expired'')
       \<or> (\<exists>r' c'. fst (login ae no_faults ip3 ms3 now3 \<lparr>lg_username = us_username u, lg_password = new\<rparr> (m3, p3)) = Inr r'
           \<and> \<not> lr_must_change r' \<and> cl_sub c' = i
           \<and> (\<forall>rq clock. header rq ''authorization'' = Some (''Bearer '' @ lr_token r') \<longrightarrow>
               auth_user (decode_jwt ae clock) rq = (if clock \<le> now3 + ae_expiry_hours ae * 3600 + 60 then Inr c' else Inl Unauthorized))))"
proof -
  obtain h h' where h: "ae_hash ae pw = Some h" "ae_hash ae new = Some h'"
    using hashing(2) [of pw] hashing(2) [of new] by blast
  have p1: "users_inv (pn_db p1)" "account i (us_username u) h True (pn_db p1)"
    using update_user_keeps [of ue io admin ip i req] inv reset(1)
      okA_D [OF reset_account [OF user reset(2)] refl reset(1)] h(1) hashing(1)
    by (auto simp: keepsA_def dest!: spec [of _ p])
  have v: "ae_verify ae pw h = Some True" "ae_verify ae new h' = Some True"
    using hashing(3) h by simp_all
  obtain r role where r: "res = Inr r" "lr_must_change r = True" "lr_id r = i" "users_inv (pn_db p2)" "account i (us_username u) h True (pn_db p2)"
    "\<forall>clock. decode_jwt ae clock (lr_token r)
       = (if clock \<le> now + ae_expiry_hours ae * 3600 + 60 then Some (session_claims ae now i (us_username u) role True) else None)"
    by (rule login_accepts [OF p1 v(1) tokens times(1,2) first])
  let ?c = "session_claims ae now i (us_username u) role True"
  obtain p3 where c: "change_password ae no_faults ?c ip2 pw new p2 = (Inr (), p3)" "users_inv (pn_db p3)"
    "account i (us_username u) h' False (pn_db p3)"
    using change_password_ok [OF r(4,5) _ new, of ?c ae h'] hashing(3) [OF h(1)] h(2) by (auto simp: session_claims_def)
  let ?l = "login ae no_faults ip3 ms3 now3 \<lparr>lg_username = us_username u, lg_password = new\<rparr> (m3, p3)"
  obtain res3 m4 p4 where l: "?l = (res3, m4, p4)" by (cases ?l) auto
  have again: "\<exists>r' c'. res3 = Inr r' \<and> \<not> lr_must_change r' \<and> cl_sub c' = i
      \<and> (\<forall>rq clock. header rq ''authorization'' = Some (''Bearer '' @ lr_token r') \<longrightarrow>
          auth_user (decode_jwt ae clock) rq = (if clock \<le> now3 + ae_expiry_hours ae * 3600 + 60 then Inr c' else Inl Unauthorized))"
    if fresh: "res3 \<noteq> Inl (Unauthorized_Msg ''account_expired'')"
  proof -
    obtain r' role' where r': "res3 = Inr r'" "lr_must_change r' = False" "lr_id r' = i" "users_inv (pn_db p4)" "account i (us_username u) h' False (pn_db p4)"
      "\<forall>clock. decode_jwt ae clock (lr_token r')
         = (if clock \<le> now3 + ae_expiry_hours ae * 3600 + 60 then Some (session_claims ae now3 i (us_username u) role' False) else None)"
      by (rule login_accepts [OF c(2,3) v(2) tokens times(1,3) l fresh])
    then show ?thesis
      using auth_by_lease(2) [where decode = "decode_jwt ae clock" and t = "lr_token r'" for clock, OF _ r'(6) [rule_format]]
      by (intro exI [of _ r'] exI [of _ "session_claims ae now3 i (us_username u) role' False"])
        (auto simp: session_claims_def)
  qed
  have tok: "auth_user (decode_jwt ae clock) rq = Inl (if clock \<le> now + ae_expiry_hours ae * 3600 + 60 then Forbidden else Unauthorized)
      \<and> auth_user_allow_mcp (decode_jwt ae clock) rq = (if clock \<le> now + ae_expiry_hours ae * 3600 + 60 then Inr ?c else Inl Unauthorized)"
    if sent: "header rq ''authorization'' = Some (''Bearer '' @ lr_token r)" for rq clock
    using auth_by_lease [where decode = "decode_jwt ae clock" and t = "lr_token r", OF sent r(6) [rule_format]] by (simp add: session_claims_def)
  have old: "fst (login ae no_faults ip3 ms3 now3 \<lparr>lg_username = us_username u, lg_password = pw\<rparr> (m3, p3)) = Inl Unauthorized"
    by (rule login_refuses [OF c(2,3)]) (use hashing(3) [OF h(2)] new(2) in auto)
  have res3: "fst ?l = res3" and sub: "cl_sub ?c = i" "lr_must_change r"
    using l r(2) by (simp_all add: session_claims_def)
  show ?thesis
  proof (intro exI conjI)
    show "fst ?l = Inl (Unauthorized_Msg ''account_expired'') \<or> (\<exists>r' c'. fst ?l = Inr r' \<and> \<not> lr_must_change r' \<and> cl_sub c' = i
      \<and> (\<forall>rq clock. header rq ''authorization'' = Some (''Bearer '' @ lr_token r') \<longrightarrow>
          auth_user (decode_jwt ae clock) rq = (if clock \<le> now3 + ae_expiry_hours ae * 3600 + 60 then Inr c' else Inl Unauthorized)))"
      unfolding res3 using again by blast
  qed (use r(1) sub tok c(1) old in blast)+
qed

text \<open>For the example: a token that is its claims written one after the other, and a hash that is the password reversed.\<close>

definition enc_nat :: "nat \<Rightarrow> string" where
  "enc_nat n = replicate n (CHR ''1'') @ ''0''"

definition enc_string :: "string \<Rightarrow> string" where
  "enc_string s = enc_nat (length s) @ s"

definition enc_int :: "int \<Rightarrow> string" where
  "enc_int i = enc_nat (if i < 0 then 1 else 0) @ enc_nat (nat \<bar>i\<bar>)"

definition dec_nat :: "string \<Rightarrow> nat \<times> string" where
  "dec_nat s = (length (takeWhile (\<lambda>c. c = CHR ''1'') s), drop (length (takeWhile (\<lambda>c. c = CHR ''1'') s) + 1) s)"

definition dec_string :: "string \<Rightarrow> string \<times> string" where
  "dec_string s = (let (n, r) = dec_nat s in (take n r, drop n r))"

definition dec_int :: "string \<Rightarrow> int \<times> string" where
  "dec_int s = (let (b, r) = dec_nat s; (n, r1) = dec_nat r in (if b = 1 then - int n else int n, r1))"

lemma dec_enc [simp]:
  "dec_nat (enc_nat n @ r) = (n, r)" "dec_int (enc_int i @ r) = (i, r)" "dec_string (enc_string s @ r) = (s, r)"
proof -
  have "takeWhile (\<lambda>c. c = CHR ''1'') (replicate n (CHR ''1'') @ CHR ''0'' # r) = replicate n (CHR ''1'')" for n r
    by (simp add: takeWhile_append)
  then show nat: "dec_nat (enc_nat n @ r) = (n, r)" for n r
    by (simp add: dec_nat_def enc_nat_def)
  show "dec_int (enc_int i @ r) = (i, r)"
    by (simp add: dec_int_def enc_int_def nat)
  show "dec_string (enc_string s @ r) = (s, r)"
    by (simp add: dec_string_def enc_string_def nat)
qed

definition plain_token :: "claims \<Rightarrow> string" where
  "plain_token c = enc_int (cl_sub c) @ enc_string (cl_username c) @ enc_string (cl_role c)
     @ enc_int (cl_exp c) @ enc_nat (if cl_mcp c then 1 else 0) @ enc_string (cl_scope c) @ []"

definition plain_claims :: "string \<Rightarrow> claims" where
  "plain_claims s = (let (sub, s1) = dec_int s; (name, s2) = dec_string s1; (role, s3) = dec_string s2; (expiry, s4) = dec_int s3;
       (mcp, s5) = dec_nat s4; (scope, s6) = dec_string s5
     in \<lparr>cl_sub = sub, cl_username = name, cl_role = role, cl_exp = expiry, cl_mcp = (mcp = 1),
         cl_scope = scope\<rparr>)"

definition sample_auth :: auth_env where
  "sample_auth = \<lparr>ae_verify = (\<lambda>p h. Some (rev p = h)), ae_hash = (\<lambda>p. Some (rev p)),
     ae_encode = (\<lambda>c. Some (plain_token c)), ae_decode = (\<lambda>clock t. if clock \<le> cl_exp (plain_claims t) + 60 then Some (plain_claims t) else None), ae_expiry_hours = 12\<rparr>"

lemma sample_tokens: "\<exists>t. ae_encode sample_auth c = Some t
  \<and> (\<forall>clock. ae_decode sample_auth clock t = (if clock \<le> cl_exp c + 60 then Some c else None))"
  using dec_enc(3) [of _ "[]"] by (simp add: sample_auth_def plain_token_def plain_claims_def)

definition sample_reset :: update_user_request where
  "sample_reset = \<lparr>uu_password = Some ''changeme1'', uu_role = None, uu_expires_at = None, uu_limit_30d = None,
     uu_reset_day = None, uu_rules_quota = None, uu_nodes = None, uu_tunnels = None, uu_tunnel_limits = None\<rparr>"

text \<open>The account behind the example, without a date of expiry.\<close>

definition sample_logins :: panel where
  "sample_logins = sample_accounts\<lparr>pn_db := (pn_db sample_accounts)\<lparr>db_users :=
     map (\<lambda>u. u\<lparr>us_expires_at := None\<rparr>) (db_users (pn_db sample_accounts))\<rparr>\<rparr>"

lemma reset_forces_change_witness:
  "\<exists>v p1 r m2 p2 c p3. update_user sample_user_env no_faults (sample_user 1 ''admin'') [] 2 sample_reset sample_logins = (Inr v, p1)
    \<and> login sample_auth no_faults [] 0 5 \<lparr>lg_username = ''bob'', lg_password = ''changeme1''\<rparr> ([], p1) = (Inr r, m2, p2)
    \<and> change_password sample_auth no_faults c [] ''changeme1'' ''my own one'' p2 = (Inr (), p3)
    \<and> fst (login sample_auth no_faults [] 0 5 \<lparr>lg_username = ''bob'', lg_password = ''changeme1''\<rparr> ([], p3)) = Inl Unauthorized"
proof -
  let ?u = "update_user sample_user_env no_faults (sample_user 1 ''admin'') [] 2 sample_reset sample_logins"
  have inv: "users_inv (pn_db sample_logins)"
    by (simp add: users_inv_def sample_logins_def sample_accounts_def metered_user_def live_admin_def)
  have ok: "\<not> isl (fst ?u)"
    by code_simp
  then obtain v p1 where u: "?u = (Inr v, p1)"
    by (metis isl_def sum.exhaust prod.exhaust fst_conv)
  obtain u where f: "find_user (pn_db sample_logins) 2 = Some u" "us_username u = ''bob''"
    by (simp add: sample_logins_def sample_accounts_def find_user_def metered_user_def)
  let ?l = "login sample_auth no_faults [] 0 5 \<lparr>lg_username = ''bob'', lg_password = ''changeme1''\<rparr> ([], p1)"
  obtain res m2 p2 where l: "?l = (res, m2, p2)" by (cases ?l) auto
  have "map_option us_expires_at (find_by_username (pn_db (snd ?u)) ''bob'') = Some None"
    by code_simp
  then have fresh: "res \<noteq> Inl (Unauthorized_Msg ''account_expired'')"
    using l u login_in_time [of p1 "''bob''"] by (auto dest!: arg_cong [of _ _ fst])
  have h: "ue_hash sample_user_env = ae_hash sample_auth" "\<And>x. ae_hash sample_auth x \<noteq> None"
    "\<And>x y h. ae_hash sample_auth x = Some h \<Longrightarrow> ae_verify sample_auth y h = Some (y = x)" "8 \<le> length ''my own one''"
    "''my own one'' \<noteq> ''changeme1''" "uu_password sample_reset = Some ''changeme1''"
    "0 \<le> ae_expiry_hours sample_auth"
    by (auto simp: sample_user_env_def sample_auth_def sample_reset_def)
  obtain r c p3 where "res = Inr r" "change_password sample_auth no_faults c [] ''changeme1'' ''my own one'' p2 = (Inr (), p3)"
    "fst (login sample_auth no_faults [] 0 5 \<lparr>lg_username = us_username u, lg_password = ''changeme1''\<rparr> ([], p3)) = Inl Unauthorized"
    using reset_forces_change [where ?ms3.0 = 0 and ?now3.0 = 5 and ?m3.0 = "[]" and ?ip2.0 = "[]" and ?ip3.0 = "[]",
        OF inv f(1) u h(6) h(1-3) sample_tokens h(7) _ _ l [folded f(2)] fresh h(4,5)] by auto
  with u l f(2) show ?thesis by auto
qed

end
