(* ===== verification/Rules_Io.thy ===== *)
theory Rules_Io
  imports Auth_Api Nodes_Api Rules_Props
begin

text \<open>
  routes/rules_io.rs: exporting rules by the names of what they refer to, and importing such a list. An
  import plans every item against the tables as they are then, and carries the plan out unless it is a dry run.
  The JSON text of an export is written by an argument.
\<close>

section \<open>Data\<close>

record rule_export_item =
  ei_name :: string
  ei_protocol :: string
  ei_listen_ip :: string
  ei_listen_port :: u16
  ei_target_host :: string
  ei_target_port :: u16
  ei_enabled :: bool
  ei_node_name :: string
  ei_tunnel_name :: "string option"
  ei_profile_name :: "string option"
  ei_owner_username :: "string option"
  ei_extra_targets :: "target_dto list"
  ei_lb_strategy :: string
  ei_remote_af :: string

record export_query =
  eq_node_id :: "int option"
  eq_user_id :: "int option"
  eq_tunnel_id :: "int option"

record import_query =
  iq_strategy :: "string option"
  iq_dry_run :: "8 word option"
  iq_target_node_id :: "int option"

record import_item_report =
  ir_index :: nat
  ir_action :: string
  ir_reason :: string

record import_report =
  ip_dry_run :: bool
  ip_strategy :: string
  ip_items :: "import_item_report list"

datatype planned_action =
    Plan_Create int "int option" "int option" "string option" string
  | Plan_Overwrite int int "int option" "string option" string
  | Plan_Skip
  | Plan_Error string

section \<open>Exporting\<close>

text \<open>One row of the query: the node is joined whether it is deleted or not, the others only when they are live.\<close>

definition export_item :: "route_env \<Rightarrow> panel_db \<Rightarrow> db_rule \<Rightarrow> rule_export_item option" where
  "export_item re db r = (case find (\<lambda>n. nd_id n = dr_node_id r) (db_nodes db) of
     None \<Rightarrow> None
   | Some n \<Rightarrow> Some
      \<lparr>ei_name = dr_name r, ei_protocol = dr_protocol r, ei_listen_ip = dr_listen_ip r,
       ei_listen_port = word_of_int (dr_listen_port r), ei_target_host = dr_target_host r,
       ei_target_port = word_of_int (dr_target_port r), ei_enabled = (dr_enabled r \<noteq> 0), ei_node_name = nd_name n,
       ei_tunnel_name = Option.bind (dr_tunnel_id r) (\<lambda>t. map_option tu_name (find_tunnel db t)),
       ei_profile_name = Option.bind (dr_profile_id r) (\<lambda>b. map_option bp_name (find_profile db b)),
       ei_owner_username = map_option us_username (find_user db (dr_user_id r)),
       ei_extra_targets = parse_targets re (dr_extra_targets r), ei_lb_strategy = dr_lb_strategy r,
       ei_remote_af = dr_remote_af r\<rparr>)"

definition export_filter :: "export_query \<Rightarrow> db_rule \<Rightarrow> bool" where
  "export_filter q r = (\<not> dr_deleted r
     \<and> (case eq_node_id q of None \<Rightarrow> True | Some n \<Rightarrow> dr_node_id r = n)
     \<and> (case eq_user_id q of None \<Rightarrow> True | Some u \<Rightarrow> dr_user_id r = u)
     \<and> (case eq_tunnel_id q of None \<Rightarrow> True | Some t \<Rightarrow> dr_tunnel_id r = Some t))"

definition export_rows :: "export_query \<Rightarrow> panel_db \<Rightarrow> db_rule list" where
  "export_rows q db = sort_key dr_id (filter (export_filter q) (db_rules db))"

definition export_items :: "route_env \<Rightarrow> export_query \<Rightarrow> panel_db \<Rightarrow> rule_export_item list" where
  "export_items re q db = List.map_filter (export_item re db) (export_rows q db)"

definition export_rules ::
    "route_env \<Rightarrow> (rule_export_item list \<Rightarrow> string option) \<Rightarrow> query_faults \<Rightarrow> claims \<Rightarrow> export_query \<Rightarrow> string api" where
  "export_rules re to_json io auth q =
     bindA (ask (\<lambda>_. require_admin auth)) (\<lambda>_.
     bindA (ask (\<lambda>db. read_db io ''export_rules'' (export_items re q db))) (\<lambda>items.
     bindA (ask (\<lambda>_. ok_or Internal (to_json items))) (\<lambda>body.
       returnA body)))"

section \<open>Planning an item\<close>

text \<open>What an item asks for by itself: the text of the refusal, if any.\<close>

definition item_refusal :: "rule_export_item \<Rightarrow> string option" where
  "item_refusal item =
     (if ei_tunnel_name item \<noteq> None \<and> ei_tunnel_name item \<noteq> Some [] then Some ''tunnel rules are not imported''
      else if trim (ei_name item) = [] then Some ''name''
      else if ei_protocol item \<notin> set [''tcp'', ''udp'', ''tcp_udp''] then Some ''protocol''
      else if ei_listen_port item = 0 \<or> ei_target_port item = 0 then Some ''port''
      else if \<not> is_valid_ip (ei_listen_ip item) then Some ''listen_ip''
      else if \<not> is_valid_target_host (trim (ei_target_host item)) then Some ''target_host''
      else if ei_remote_af item \<notin> set [''auto'', ''v4'', ''v6''] then Some ''remote_af''
      else None)"

definition named :: "string option \<Rightarrow> bool" where
  "named x = (x \<noteq> None \<and> x \<noteq> Some [])"

definition plan_profile :: "query_faults \<Rightarrow> panel_db \<Rightarrow> rule_export_item \<Rightarrow> api_error + int option" where
  "plan_profile io db item =
     (if named (ei_profile_name item)
      then read_db io ''profile_by_name''
        (map_option bp_id (find (\<lambda>b. bp_name b = the (ei_profile_name item) \<and> \<not> bp_deleted b) (db_profiles db)))
      else Inr None)"

definition plan_owner :: "query_faults \<Rightarrow> panel_db \<Rightarrow> rule_export_item \<Rightarrow> api_error + int option" where
  "plan_owner io db item =
     (if named (ei_owner_username item)
      then read_db io ''user_by_name'' (map_option us_id (find_by_username db (the (ei_owner_username item))))
      else Inr None)"

definition bound_rules :: "panel_db \<Rightarrow> int \<Rightarrow> rule_export_item \<Rightarrow> string list \<Rightarrow> db_rule list" where
  "bound_rules db node item protos =
     filter (\<lambda>r. dr_node_id r = node \<and> dr_listen_ip r = ei_listen_ip item \<and> dr_listen_port r = uint (ei_listen_port item)
       \<and> dr_protocol r \<in> set protos \<and> \<not> dr_deleted r) (db_rules db)"

definition mutex_conflicts :: "string \<Rightarrow> string list" where
  "mutex_conflicts proto =
     (if proto = ''tcp'' then [''tcp_udp''] else if proto = ''udp'' then [''tcp_udp''] else [''tcp'', ''udp''])"

text \<open>The targets: a refusal by the check is an error of the item, any other error ends the import.\<close>

definition plan_targets :: "route_env \<Rightarrow> rule_export_item \<Rightarrow> api_error + (string + (string option \<times> string))" where
  "plan_targets re item = (case validate_targets re (ei_extra_targets item) (Some (ei_lb_strategy item)) True of
     Inr t \<Rightarrow> Inr (Inr t)
   | Inl (Bad_Request msg) \<Rightarrow> Inr (Inl msg)
   | Inl e \<Rightarrow> Inl e)"

text \<open>A rule with the very binding is overwritten or kept; one with another protocol on the port is a conflict.\<close>

definition plan_binding ::
    "query_faults \<Rightarrow> string \<Rightarrow> panel_db \<Rightarrow> rule_export_item \<Rightarrow> int \<Rightarrow> int option \<Rightarrow> int option \<Rightarrow> string option \<times> string
     \<Rightarrow> api_error + planned_action" where
  "plan_binding io strategy db item node profile owner targets =
     bindR (read_db io ''exact_binding'' (bound_rules db node item [ei_protocol item])) (\<lambda>exact.
       case exact of
         r # _ \<Rightarrow> Inr (if strategy = ''overwrite'' then Plan_Overwrite (dr_id r) node profile (fst targets) (snd targets)
                        else Plan_Skip)
       | [] \<Rightarrow>
           bindR (read_db io ''protocol_conflict'' (bound_rules db node item (mutex_conflicts (ei_protocol item)))) (\<lambda>rows.
             Inr (if rows \<noteq> [] then Plan_Error ''protocol conflict''
                  else Plan_Create node profile owner (fst targets) (snd targets))))"

text \<open>The part of \<^verbatim>\<open>plan_item\<close> after the node is known.\<close>

definition plan_at_node ::
    "route_env \<Rightarrow> query_faults \<Rightarrow> string \<Rightarrow> int list \<Rightarrow> panel_db \<Rightarrow> rule_export_item \<Rightarrow> node_row \<Rightarrow> api_error + planned_action" where
  "plan_at_node re io strategy reserved db item node =
     (let port = uint (ei_listen_port item) in
      if port < nd_pool_min node \<or> nd_pool_max node < port then Inr (Plan_Error ''port pool'')
      else if List.member reserved port then Inr (Plan_Error ''reserved port'')
      else
        bindR (plan_profile io db item) (\<lambda>profile.
        bindR (plan_owner io db item) (\<lambda>owner.
        bindR (plan_targets re item) (\<lambda>targets.
          case targets of
            Inl msg \<Rightarrow> Inr (Plan_Error msg)
          | Inr t \<Rightarrow> plan_binding io strategy db item (nd_id node) profile owner t))))"

definition plan_item ::
    "route_env \<Rightarrow> query_faults \<Rightarrow> string \<Rightarrow> int list \<Rightarrow> node_row option \<Rightarrow> rule_export_item \<Rightarrow> panel_db
     \<Rightarrow> api_error + planned_action" where
  "plan_item re io strategy reserved target item db =
     (case item_refusal item of
        Some msg \<Rightarrow> Inr (Plan_Error msg)
      | None \<Rightarrow>
          (case target of
             Some n \<Rightarrow> plan_at_node re io strategy reserved db item n
           | None \<Rightarrow>
               bindR (read_db io ''node_by_name'' (find_node_by_name db (ei_node_name item))) (\<lambda>found.
                 case found of
                   None \<Rightarrow> Inr (Plan_Error ''no such node'')
                 | Some n \<Rightarrow> plan_at_node re io strategy reserved db item n)))"

section \<open>Carrying out a plan\<close>

definition execute_create ::
    "route_env \<Rightarrow> query_faults \<Rightarrow> int \<Rightarrow> rule_export_item \<Rightarrow> int \<Rightarrow> int option \<Rightarrow> string option \<Rightarrow> string \<Rightarrow> unit api" where
  "execute_create re io owner item node profile extra strat =
     bindA (write_db io ''insert_rule'' Database
       (insert_rule owner node (trim (ei_name item)) (ei_protocol item) (ei_listen_ip item) (uint (ei_listen_port item))
          (trim (ei_target_host item)) (uint (ei_target_port item)) profile None None (ei_remote_af item))) (\<lambda>new_id.
     bindA (if extra \<noteq> None \<or> strat \<noteq> ''fifo''
            then update_db io ''set_targets'' (set_targets new_id extra strat) else returnA ()) (\<lambda>_.
     bindA (if \<not> ei_enabled item
            then update_db io ''set_enabled'' (\<lambda>db. snd (set_enabled new_id False db)) else returnA ()) (\<lambda>_.
     bindA (ask (\<lambda>db. read_db io ''reread_rule'' (find_rule db new_id))) (\<lambda>row.
       case row of
         Some r \<Rightarrow> doA (dispatch_rule_apply_locked (re_panel re) io r)
       | None \<Rightarrow> returnA ()))))"

definition execute_overwrite ::
    "route_env \<Rightarrow> query_faults \<Rightarrow> rule_export_item \<Rightarrow> int \<Rightarrow> int option \<Rightarrow> string option \<Rightarrow> string \<Rightarrow> unit api" where
  "execute_overwrite re io item i profile extra strat =
     bindA (write_db io ''update_rule'' Database
       (update_fields i (Some (trim (ei_name item))) None None (Some (trim (ei_target_host item)))
          (Some (uint (ei_target_port item))) (Some (unwrap_or 0 profile)) None)) (\<lambda>_.
     bindA (update_db io ''set_enabled'' (\<lambda>db. snd (set_enabled i (ei_enabled item) db))) (\<lambda>_.
     bindA (update_db io ''set_targets'' (set_targets i extra strat)) (\<lambda>_.
     bindA (update_db io ''set_remote_af'' (set_remote_af i (ei_remote_af item))) (\<lambda>_.
     bindA (ask (\<lambda>db. read_db io ''reread_rule'' (find_rule db i))) (\<lambda>row.
       case row of
         Some r \<Rightarrow> doA (dispatch_rule_apply_locked (re_panel re) io r)
       | None \<Rightarrow> returnA ())))))"

text \<open>The result of a step as a value: its error does not end the import.\<close>

definition attempt :: "unit api \<Rightarrow> bool api" where
  "attempt m p = (case m p of (Inl _, q) \<Rightarrow> (Inr False, q) | (Inr _, q) \<Rightarrow> (Inr True, q))"

definition owner_note :: "int option \<Rightarrow> string option \<Rightarrow> string" where
  "owner_note owner name = (case name of
     None \<Rightarrow> []
   | Some n \<Rightarrow> if owner \<noteq> None then ''owner: '' @ n
               else if n \<noteq> [] then ''no user '' @ n @ '', owned by the importer'' else [])"

definition run_item ::
    "route_env \<Rightarrow> query_faults \<Rightarrow> claims \<Rightarrow> bool \<Rightarrow> rule_export_item \<Rightarrow> planned_action \<Rightarrow> (string \<times> string) api" where
  "run_item re io auth dry item plan = (case plan of
     Plan_Error reason \<Rightarrow> returnA (''error'', reason)
   | Plan_Skip \<Rightarrow> returnA (''skip'', ''same binding'')
   | Plan_Create node profile owner extra strat \<Rightarrow>
       if dry then returnA (''create'', owner_note owner (ei_owner_username item))
       else bindA (attempt (execute_create re io (unwrap_or (cl_sub auth) owner) item node profile extra strat)) (\<lambda>ok.
              returnA (if ok then (''create'', owner_note owner (ei_owner_username item)) else (''error'', ''create failed'')))
   | Plan_Overwrite i node profile extra strat \<Rightarrow>
       if dry then returnA (''overwrite'', ''would overwrite rule '' @ show_int i)
       else bindA (attempt (execute_overwrite re io item i profile extra strat)) (\<lambda>ok.
              returnA (if ok then (''overwrite'', ''overwrote rule '' @ show_int i) else (''error'', ''overwrite failed''))))"

section \<open>Importing\<close>

type_synonym binding_key = "int \<times> string \<times> u16 \<times> string"

fun landing_node :: "planned_action \<Rightarrow> int option" where
  "landing_node (Plan_Create node _ _ _ _) = Some node"
| "landing_node (Plan_Overwrite _ node _ _ _) = Some node"
| "landing_node _ = None"

text \<open>The second item of the list with the same binding is refused.\<close>

definition check_seen ::
    "rule_export_item \<Rightarrow> planned_action \<Rightarrow> binding_key list \<Rightarrow> planned_action \<times> binding_key list" where
  "check_seen item plan seen = (case landing_node plan of
     None \<Rightarrow> (plan, seen)
   | Some n \<Rightarrow>
       (let key = (n, ei_listen_ip item, ei_listen_port item, ei_protocol item) in
        if List.member seen key then (Plan_Error ''repeated binding'', seen) else (plan, key # seen)))"

text \<open>The statements of the item with number \<open>k\<close>.\<close>

definition item_io :: "query_faults \<Rightarrow> nat \<Rightarrow> query_faults" where
  "item_io io k q = io (q @ '' '' @ dec k)"

fun import_each ::
    "route_env \<Rightarrow> query_faults \<Rightarrow> claims \<Rightarrow> string \<Rightarrow> bool \<Rightarrow> int list \<Rightarrow> node_row option \<Rightarrow> nat \<Rightarrow> binding_key list
     \<Rightarrow> rule_export_item list \<Rightarrow> import_item_report list api" where
  "import_each re io auth strategy dry reserved target k seen [] = returnA []"
| "import_each re io auth strategy dry reserved target k seen (item # rest) =
     bindA (ask (plan_item re (item_io io k) strategy reserved target item)) (\<lambda>plan.
     (case check_seen item plan seen of (plan', seen') \<Rightarrow>
        bindA (run_item re (item_io io k) auth dry item plan') (\<lambda>(action, reason).
        bindA (import_each re io auth strategy dry reserved target (Suc k) seen' rest) (\<lambda>reports.
          returnA (\<lparr>ir_index = k, ir_action = action, ir_reason = reason\<rparr> # reports)))))"

definition MAX_IMPORT_ITEMS :: nat where
  "MAX_IMPORT_ITEMS = 1000"

definition import_summary :: "string \<Rightarrow> import_item_report list \<Rightarrow> string" where
  "import_summary strategy reports =
     (let n = (\<lambda>a. dec (length (filter (\<lambda>r. ir_action r = a) reports))) in
      ''strategy='' @ strategy @ '',created='' @ n ''create'' @ '',overwritten='' @ n ''overwrite''
        @ '',skipped='' @ n ''skip'' @ '',errors='' @ n ''error'')"

definition import_target :: "query_faults \<Rightarrow> int option \<Rightarrow> panel_db \<Rightarrow> api_error + node_row option" where
  "import_target io target db = (case target of
     None \<Rightarrow> Inr None
   | Some n \<Rightarrow>
       bindR (read_db io ''target_node'' (find_node db n)) (\<lambda>row.
       bindR (ok_or (Bad_Request ''no such target node'') row) (\<lambda>node. Inr (Some node))))"

definition import_rules ::
    "route_env \<Rightarrow> query_faults \<Rightarrow> claims \<Rightarrow> string \<Rightarrow> import_query \<Rightarrow> rule_export_item list \<Rightarrow> import_report api" where
  "import_rules re io auth ip q items =
     bindA (ask (\<lambda>_. require_admin auth)) (\<lambda>_.
     bindA (ask (\<lambda>_. reject_if (MAX_IMPORT_ITEMS < length items) (Bad_Request ''too many items''))) (\<lambda>_.
     (let strategy = unwrap_or ''skip'' (iq_strategy q); dry = (unwrap_or 1 (iq_dry_run q) \<noteq> 0) in
      bindA (ask (\<lambda>_. reject_if (strategy \<notin> set [''skip'', ''overwrite'']) (Bad_Request ''strategy''))) (\<lambda>_.
      bindA (ask (\<lambda>db. Inr (reserved_now re io db))) (\<lambda>reserved.
      bindA (ask (import_target io (iq_target_node_id q))) (\<lambda>target.
      bindA (import_each re io auth strategy dry reserved target 0 [] items) (\<lambda>reports.
      bindA (if dry then returnA ()
             else doA (record_with_ip io (Some (cl_sub auth)) (as_option ip) ''rule.import'' (Some ''rule'') None
                    (Some (import_summary strategy reports))
                    (list_all (\<lambda>r. ir_action r \<in> set [''create'', ''overwrite'', ''skip'']) reports) None)) (\<lambda>_.
        returnA \<lparr>ip_dry_run = dry, ip_strategy = strategy, ip_items = reports\<rparr>))))))))"

section \<open>What a plan says\<close>

lemma plan_targets_ok: "plan_targets re item = Inr (Inr t) \<longleftrightarrow> validate_targets re (ei_extra_targets item) (Some (ei_lb_strategy item)) True = Inr t"
  by (auto simp: plan_targets_def split: sum.split api_error.split)

lemma plan_binding_create:
  "plan_binding io strategy db item n profile owner t = Inr (Plan_Create node profile' owner' extra strat) \<longleftrightarrow>
     \<not> io ''exact_binding'' \<and> \<not> io ''protocol_conflict'' \<and> n = node \<and> profile' = profile \<and> owner' = owner \<and> (extra, strat) = t
     \<and> bound_rules db node item [ei_protocol item] = [] \<and> bound_rules db node item (mutex_conflicts (ei_protocol item)) = []"
  by (auto simp: plan_binding_def bindR_eq_Inr split: list.splits if_splits)

lemma plan_binding_overwrite:
  "plan_binding io strategy db item n profile owner t = Inr (Plan_Overwrite i node profile' extra strat) \<longleftrightarrow>
     \<not> io ''exact_binding'' \<and> strategy = ''overwrite'' \<and> n = node \<and> profile' = profile \<and> (extra, strat) = t
     \<and> (\<exists>r rs. bound_rules db node item [ei_protocol item] = r # rs \<and> dr_id r = i)"
  by (auto simp: plan_binding_def bindR_eq_Inr split: list.splits if_splits)

text \<open>The node an item goes to.\<close>

definition lands :: "node_row option \<Rightarrow> rule_export_item \<Rightarrow> panel_db \<Rightarrow> node_row option" where
  "lands target item db = (case target of Some n \<Rightarrow> Some n | None \<Rightarrow> find_node_by_name db (ei_node_name item))"

lemma plan_item_lands:
  assumes "plan_item re io strategy reserved target item db = Inr plan" "landing_node plan \<noteq> None"
  obtains n where "item_refusal item = None" "lands target item db = Some n"
    "plan_at_node re io strategy reserved db item n = Inr plan"
  using assms by (auto simp: plan_item_def lands_def bindR_eq_Inr split: option.splits)

lemma plan_at_node_targets:
  assumes "plan_at_node re io strategy reserved db item n = Inr plan" "landing_node plan \<noteq> None"
  obtains profile owner t where "plan_profile io db item = Inr profile" "plan_owner io db item = Inr owner"
    "validate_targets re (ei_extra_targets item) (Some (ei_lb_strategy item)) True = Inr t"
    "plan_binding io strategy db item (nd_id n) profile owner t = Inr plan"
proof -
  obtain profile owner x where x: "plan_profile io db item = Inr profile" "plan_owner io db item = Inr owner"
    "plan_targets re item = Inr x"
    "(case x of Inl msg \<Rightarrow> Inr (Plan_Error msg) | Inr t \<Rightarrow> plan_binding io strategy db item (nd_id n) profile owner t) = Inr plan"
    using assms by (auto simp: plan_at_node_def Let_def bindR_eq_Inr split: if_splits)
  show thesis
  proof (cases x)
    case (Inl msg)
    with x(4) assms(2) show thesis by auto
  next
    case (Inr t)
    with x that plan_targets_ok show thesis by simp
  qed
qed

text \<open>What a plan says of the tables.\<close>

lemma plan_create_facts:
  assumes "plan_item re io strategy reserved target item db = Inr (Plan_Create node profile owner extra strat)"
  obtains n where "item_refusal item = None" "lands target item db = Some n" "nd_id n = node"
    "bound_rules db node item [ei_protocol item] = []" "bound_rules db node item (mutex_conflicts (ei_protocol item)) = []"
    "plan_owner io db item = Inr owner" "plan_profile io db item = Inr profile"
    "validate_targets re (ei_extra_targets item) (Some (ei_lb_strategy item)) True = Inr (extra, strat)"
proof -
  obtain n where n: "item_refusal item = None" "lands target item db = Some n"
    "plan_at_node re io strategy reserved db item n = Inr (Plan_Create node profile owner extra strat)"
    by (rule plan_item_lands [OF assms]) simp
  obtain pr ow t where t: "plan_profile io db item = Inr pr" "plan_owner io db item = Inr ow"
    "validate_targets re (ei_extra_targets item) (Some (ei_lb_strategy item)) True = Inr t"
    "plan_binding io strategy db item (nd_id n) pr ow t = Inr (Plan_Create node profile owner extra strat)"
    by (rule plan_at_node_targets [OF n(3)]) simp
  show thesis
    by (rule that [OF n(1,2)]) (use t in \<open>simp_all add: plan_binding_create\<close>)
qed

lemma plan_overwrite_facts:
  assumes "plan_item re io strategy reserved target item db = Inr (Plan_Overwrite i node profile extra strat)"
  obtains n r rs where "item_refusal item = None" "lands target item db = Some n" "nd_id n = node"
    "bound_rules db node item [ei_protocol item] = r # rs" "dr_id r = i" "plan_profile io db item = Inr profile"
    "validate_targets re (ei_extra_targets item) (Some (ei_lb_strategy item)) True = Inr (extra, strat)"
proof -
  obtain n where n: "item_refusal item = None" "lands target item db = Some n"
    "plan_at_node re io strategy reserved db item n = Inr (Plan_Overwrite i node profile extra strat)"
    by (rule plan_item_lands [OF assms]) simp
  obtain pr ow t where t: "plan_profile io db item = Inr pr" "plan_owner io db item = Inr ow"
    "validate_targets re (ei_extra_targets item) (Some (ei_lb_strategy item)) True = Inr t"
    "plan_binding io strategy db item (nd_id n) pr ow t = Inr (Plan_Overwrite i node profile extra strat)"
    by (rule plan_at_node_targets [OF n(3)]) simp
  then obtain r rs where r: "bound_rules db node item [ei_protocol item] = r # rs" "dr_id r = i"
    by (auto simp: plan_binding_overwrite)
  show thesis
    by (rule that [OF n(1,2) _ r]) (use t in \<open>simp_all add: plan_binding_overwrite\<close>)
qed

end
