(* ===== verification/Panel_Refs.thy ===== *)
theory Panel_Refs
  imports Nodes_Props Auth_Api Tunnels_Props Rules_Io
begin

text \<open>
  The tables of the panel together: which tables the handlers of rules, of accounts, of tunnels and of
  nodes leave alone (\<open>framed\<close>), what one table says of another (\<open>refs_ok\<close>: a live rule sits on a live node
  and at the entry of its tunnel, a hop on a live node), and that every handler keeps it.
\<close>

section \<open>What a family of handlers leaves alone\<close>

text \<open>The tables that the handlers of rules, of accounts, of tunnels and of nodes do not change.\<close>

definition beside_rules :: "panel_db \<Rightarrow> node_row list \<times> int \<times> user_row list \<times> int \<times> tunnel_row list \<times> int \<times> hop_row list" where
  "beside_rules db = (db_nodes db, db_next_node db, db_users db, db_next_user db, db_tunnels db, db_next_tunnel db, db_hops db)"

definition beside_users :: "panel_db \<Rightarrow> db_rule list \<times> int \<times> node_row list \<times> int \<times> tunnel_row list \<times> int \<times> hop_row list" where
  "beside_users db = (db_rules db, db_next_rule db, db_nodes db, db_next_node db, db_tunnels db, db_next_tunnel db, db_hops db)"

definition beside_tunnels :: "panel_db \<Rightarrow> db_rule list \<times> int \<times> node_row list \<times> int \<times> user_row list \<times> int" where
  "beside_tunnels db = (db_rules db, db_next_rule db, db_nodes db, db_next_node db, db_users db, db_next_user db)"

definition beside_nodes :: "panel_db \<Rightarrow> db_rule list \<times> int \<times> user_row list \<times> int \<times> tunnel_row list \<times> int \<times> hop_row list" where
  "beside_nodes db = (db_rules db, db_next_rule db, db_users db, db_next_user db, db_tunnels db, db_next_tunnel db, db_hops db)"

lemmas beside_defs = beside_rules_def beside_users_def beside_tunnels_def beside_nodes_def

lemma beside_audit [simp]:
  "beside_rules (pn_db (record_with_ip io a b c d e f g h p)) = beside_rules (pn_db p)"
  "beside_users (pn_db (record_with_ip io a b c d e f g h p)) = beside_users (pn_db p)"
  "beside_tunnels (pn_db (record_with_ip io a b c d e f g h p)) = beside_tunnels (pn_db p)"
  "beside_nodes (pn_db (record_with_ip io a b c d e f g h p)) = beside_nodes (pn_db p)"
  by (simp_all add: beside_defs record_with_ip_def)

text \<open>A handler keeps a view of the database when each of its statements does.\<close>

definition framed :: "(panel_db \<Rightarrow> 'v) \<Rightarrow> 'a api \<Rightarrow> bool" where
  "framed v m = (\<forall>p. v (pn_db (snd (m p))) = v (pn_db p))"

lemma framed_keeps: "framed v m \<longleftrightarrow> (\<forall>x. keepsA (\<lambda>p. v (pn_db p) = x) m)"
  by (auto simp: framed_def keepsA_def)

lemma framed_bind: "framed v m \<Longrightarrow> (\<And>x. framed v (f x)) \<Longrightarrow> framed v (bindA m f)"
  unfolding framed_keeps by (blast intro: keepsA_bind)

lemma framed_ask: "framed v (ask g)" "framed v (returnA x)"
  by (simp_all add: framed_def)

lemma framed_do: "(\<And>p. v (pn_db (g p)) = v (pn_db p)) \<Longrightarrow> framed v (doA g)"
  by (simp add: framed_def)

lemma framed_if: "framed v a \<Longrightarrow> framed v b \<Longrightarrow> framed v (if c then a else b)"
  by simp

lemma framed_option: "framed v a \<Longrightarrow> (\<And>x. framed v (f x)) \<Longrightarrow> framed v (case y of None \<Rightarrow> a | Some x \<Rightarrow> f x)"
  by (cases y) simp_all

lemma framed_prod:
  "(\<And>a b. framed v (f a b)) \<Longrightarrow> framed v (case x of (a, b) \<Rightarrow> f a b)"
  "(\<And>a b. framed v (g a b y)) \<Longrightarrow> framed v ((case x of (a, b) \<Rightarrow> g a b) y)"
  by (cases x; simp)+

lemma framed_write: "(\<And>db x db'. f db = (Inr x, db') \<Longrightarrow> v db' = v db) \<Longrightarrow> framed v (write_db io q c f)"
  by (auto simp: framed_def write_db_def split: prod.splits sum.splits)

lemma framed_update: "(\<And>db. v (f db) = v db) \<Longrightarrow> framed v (update_db io q f)"
  unfolding update_db_def by (rule framed_write) auto

lemma framed_send: "(\<And>p. pn_db (snd (m p)) = pn_db p) \<Longrightarrow> framed v m"
  by (simp add: framed_def)

lemma framed_statement:
  "(\<And>db. v (snd (f db)) = v db) \<Longrightarrow> framed v (write_db io q c (\<lambda>db. case f db of (n, db') \<Rightarrow> (Inr n, db')))"
  by (rule framed_write) (auto simp: case_prod_beta)

lemmas framed_rules = framed_bind framed_ask framed_if framed_option framed_prod

section \<open>Frames of the handlers\<close>

lemma rules_statements [simp]:
  "beside_rules (change_rules P f db) = beside_rules db" "beside_rules (set_targets i x y db) = beside_rules db"
  "beside_rules (set_send_proxy_protocol i b db) = beside_rules db" "beside_rules (set_remote_af i z db) = beside_rules db"
  "beside_rules (snd (set_enabled i b db)) = beside_rules db" "beside_rules (snd (soft_delete_rule i db)) = beside_rules db"
  by (simp_all add: beside_defs change_rules_def set_targets_def set_send_proxy_protocol_def set_remote_af_def set_enabled_def soft_delete_rule_def)

lemma rules_writes:
  "framed beside_rules (write_db io q c (create_insert req owner port))" "framed beside_rules (write_db io q c (update_row i ureq))"
  by (rule framed_write; auto simp: create_insert_def insert_rule_def update_row_def update_fields_def Let_def beside_defs change_rules_def
      split: option.splits if_splits list.splits)+

lemma rules_dispatch: "framed beside_rules (doA (dispatch_rule_apply_locked pe io r))"
  by (rule framed_do) simp

lemma rules_audit: "framed beside_rules (doA (record_with_ip io a b c d e f g h))"
  by (rule framed_do) simp

lemma rules_frame:
  "framed beside_rules (create_rule re io auth ip req)" "framed beside_rules (update_rule re io auth ip i ureq)"
  "framed beside_rules (delete_rule io auth ip i)" "framed beside_rules (set_enabled_handler re io auth ip i on act)"
  "framed beside_rules (restart_rule_handler io auth ip i)" "framed beside_rules (get_rule re io auth i)"
  "framed beside_rules (rule_stats io auth i)" "framed beside_rules (rule_logs io auth i)" "framed beside_rules (list_rules re io auth q)"
proof -
  show "framed beside_rules (create_rule re io auth ip req)"
    unfolding create_rule_def
    by (intro framed_rules rules_writes rules_audit rules_dispatch framed_update) simp_all
  show "framed beside_rules (update_rule re io auth ip i ureq)"
    unfolding update_rule_def update_stored_def
    by (intro framed_rules rules_writes rules_audit rules_dispatch framed_update) simp_all
  show "framed beside_rules (delete_rule io auth ip i)"
    unfolding delete_rule_def
    by (intro framed_rules framed_statement rules_audit framed_send) (simp_all add: case_prod_beta)
  show "framed beside_rules (set_enabled_handler re io auth ip i on act)"
    unfolding set_enabled_handler_def
    by (intro framed_rules framed_statement rules_audit rules_dispatch) simp_all
  show "framed beside_rules (restart_rule_handler io auth ip i)"
    unfolding restart_rule_handler_def
    by (intro framed_rules rules_audit framed_send) (use send_frame(5) in \<open>auto split: prod.split sum.split dest: arg_cong [of _ _ snd]\<close>)
  show "framed beside_rules (get_rule re io auth i)" "framed beside_rules (rule_stats io auth i)"
    "framed beside_rules (rule_logs io auth i)" "framed beside_rules (list_rules re io auth q)"
    unfolding get_rule_def rule_stats_def rule_logs_def list_rules_def Let_def by (intro framed_rules)+
qed

lemma users_statements [simp]:
  "beside_users (change_users P f db) = beside_users db" "beside_users (set_quota_reset_day i d db) = beside_users db"
  "beside_users (set_forward_rules_quota i q db) = beside_users db" "beside_users (set_node_grants i ns db) = beside_users db"
  "beside_users (set_tunnel_grants i ts db) = beside_users db"
  by (simp_all add: beside_defs change_users_def set_quota_reset_day_def set_forward_rules_quota_def set_node_grants_def set_tunnel_grants_def)

lemma users_writes:
  "framed beside_users (write_db io q c (insert_user n h r e l m))" "framed beside_users (write_db io q c (update_user_row i f))"
  by (rule framed_write; auto simp: insert_user_def update_user_row_def Let_def beside_defs change_users_def split: if_splits)+

lemma users_audit: "framed beside_users (doA (record_with_ip io a b c d e f g h))"
  by (rule framed_do) simp

lemma users_frame:
  "framed beside_users (create_user ue io auth ip creq)" "framed beside_users (update_user ue io auth ip i req)"
  "framed beside_users (delete_user io auth ip i)"
  unfolding create_user_def update_user_def delete_user_def delete_user_stored_def sync_grants_def
  by (intro framed_rules users_writes users_audit framed_update; simp)+

lemma tunnels_statements [simp]:
  "beside_tunnels (change_tunnels P f db) = beside_tunnels db" "beside_tunnels (set_tunnel_status i x db) = beside_tunnels db"
  "beside_tunnels (snd (soft_delete_tunnel i db)) = beside_tunnels db"
  "beside_tunnels (pn_db (mark_rotated i p)) = beside_tunnels (pn_db p)"
  by (simp_all add: beside_defs change_tunnels_def set_tunnel_status_def soft_delete_tunnel_def mark_rotated_def Let_def)

lemma tunnels_beside:
  "create_with_hops name transport hops db = (x, db') \<Longrightarrow> beside_tunnels db' = beside_tunnels db"
  "update_tunnel_fields i n r m db = (y, db') \<Longrightarrow> beside_tunnels db' = beside_tunnels db"
proof -
  assume "create_with_hops name transport hops db = (x, db')"
  then show "beside_tunnels db' = beside_tunnels db"
    by (auto simp: create_with_hops_def Let_def beside_defs dest!: insert_hops_ok split: if_splits sum.splits)
next
  assume "update_tunnel_fields i n r m db = (y, db')"
  then show "beside_tunnels db' = beside_tunnels db"
    by (auto simp: update_tunnel_fields_def split: if_splits)
qed

lemma credentials_beside: "beside_tunnels (pn_db (snd (dispatch_tunnel_credentials pe io t p))) = beside_tunnels (pn_db p)"
proof -
  obtain ok p1 where s: "send_credentials pe (tu_id t) (list_for_tunnel (pn_db p) (tu_id t)) p = (ok, p1)" by fastforce
  then have "pn_db p1 = pn_db p"
    using send_credentials_outcome [of pe "tu_id t" "list_for_tunnel (pn_db p) (tu_id t)" p] by simp
  with s show ?thesis
    by (cases ok) (simp_all add: dispatch_tunnel_credentials_def)
qed

lemma rotate_beside: "beside_tunnels (pn_db (snd (rotate_credentials_and_restart pe io t p))) = beside_tunnels (pn_db p)"
proof -
  obtain x p1 where d: "dispatch_tunnel_credentials pe io t p = (x, p1)" by fastforce
  with credentials_beside [of pe io t p] have "beside_tunnels (pn_db p1) = beside_tunnels (pn_db p)" by simp
  with d show ?thesis
    by (cases x) (simp_all add: rotate_credentials_and_restart_def restart_each_db)
qed

lemma tunnels_steps:
  "framed beside_tunnels (write_db io q c (create_with_hops name transport hops))"
  "framed beside_tunnels (write_db io q c (update_tunnel_fields i n r m))"
  "framed beside_tunnels (write_db io q c (soft_delete_tunnel i))"
  "framed beside_tunnels (doA (record_with_ip io a b c' d e f g h))"
  "framed beside_tunnels (doA (\<lambda>p. snd (dispatch_tunnel_credentials pe io t p)))"
  "framed beside_tunnels (doA (dispatch_revoke_tunnel_credentials i ns))"
  "framed beside_tunnels (doA (\<lambda>p. if b' then p else p\<lparr>pn_db := set_tunnel_status i st (pn_db p)\<rparr>))"
proof -
  show "framed beside_tunnels (write_db io q c (create_with_hops name transport hops))"
    "framed beside_tunnels (write_db io q c (update_tunnel_fields i n r m))"
    by (rule framed_write, erule tunnels_beside)+
  show "framed beside_tunnels (write_db io q c (soft_delete_tunnel i))"
    by (rule framed_write) (metis tunnels_statements(3) snd_conv)
  show "framed beside_tunnels (doA (record_with_ip io a b c' d e f g h))"
    "framed beside_tunnels (doA (\<lambda>p. snd (dispatch_tunnel_credentials pe io t p)))"
    "framed beside_tunnels (doA (dispatch_revoke_tunnel_credentials i ns))"
    "framed beside_tunnels (doA (\<lambda>p. if b' then p else p\<lparr>pn_db := set_tunnel_status i st (pn_db p)\<rparr>))"
    by (rule framed_do, simp add: credentials_beside dispatch_revoke_tunnel_credentials_def)+
qed

lemma tunnels_frame:
  "framed beside_tunnels (create_tunnel re io auth ip creq)" "framed beside_tunnels (update_tunnel io auth ip i req)"
  "framed beside_tunnels (delete_tunnel io auth ip i)" "framed beside_tunnels (restart_tunnel re io auth ip i)"
  "framed beside_tunnels (tunnel_status io auth i)" "framed beside_tunnels (get_tunnel io auth i)"
proof -
  have r: "framed beside_tunnels (\<lambda>p. case rotate_credentials_and_restart pe io t p of
      (Inl _, p1) \<Rightarrow> (Inl Internal, p1) | (Inr sent, p1) \<Rightarrow> (Inr sent, p1))" for pe t
    using rotate_beside [of pe io t] by (auto simp: framed_def split: prod.split sum.split) (metis snd_conv)+
  show "framed beside_tunnels (create_tunnel re io auth ip creq)" "framed beside_tunnels (update_tunnel io auth ip i req)"
    "framed beside_tunnels (delete_tunnel io auth ip i)" "framed beside_tunnels (restart_tunnel re io auth ip i)"
    "framed beside_tunnels (tunnel_status io auth i)" "framed beside_tunnels (get_tunnel io auth i)"
    unfolding create_tunnel_def update_tunnel_def delete_tunnel_def restart_tunnel_def tunnel_status_def get_tunnel_def refresh_status_def
    by (intro framed_rules tunnels_steps r)+
qed

lemma nodes_statements [simp]:
  "beside_nodes (change_nodes P f db) = beside_nodes db" "beside_nodes (set_block_protocols i m db) = beside_nodes db"
  "beside_nodes (set_cert_meta i x y db) = beside_nodes db"
  by (simp_all add: beside_defs change_nodes_def set_block_protocols_def set_cert_meta_def)

lemma nodes_steps:
  "framed beside_nodes (write_db io q c (insert_node name region ip display endpoint h lo hi))"
  "framed beside_nodes (write_db io q c (update_node_row i req))"
  "framed beside_nodes (doA (record_with_ip io a b c' d e f g h'))" "framed beside_nodes (doA (apply_each pe io rs))"
  "framed beside_nodes (dispatchA n cmd)"
proof -
  show "framed beside_nodes (write_db io q c (insert_node name region ip display endpoint h lo hi))"
    "framed beside_nodes (write_db io q c (update_node_row i req))"
    by (rule framed_write; auto simp: insert_node_def update_node_row_def Let_def beside_defs change_nodes_def split: option.splits)+
  show "framed beside_nodes (doA (record_with_ip io a b c' d e f g h'))" "framed beside_nodes (doA (apply_each pe io rs))"
    by (rule framed_do, simp)+
  show "framed beside_nodes (dispatchA n cmd)"
    by (rule framed_send) (simp add: dispatchA_def split: prod.split)
qed

lemma nodes_frame:
  "framed beside_nodes (create_node ne io auth ip creq)" "framed beside_nodes (update_node pe io auth ip i req)"
  "framed beside_nodes (upgrade_agent_handler ne io auth ip i)"
  unfolding create_node_def update_node_def upgrade_agent_handler_def change_mask_def
  by (intro framed_rules nodes_steps framed_update; simp)+

section \<open>References between the tables\<close>

text \<open>
  A live rule sits on a live node; when it belongs to a tunnel, that node is the entry of the
  tunnel. Every hop sits on a live node.
\<close>

definition node_alive :: "panel_db \<Rightarrow> int \<Rightarrow> bool" where
  "node_alive db n = list_ex (live_node n) (db_nodes db)"

definition rule_placed :: "panel_db \<Rightarrow> db_rule \<Rightarrow> bool" where
  "rule_placed db r = (node_alive db (dr_node_id r)
     \<and> (case dr_tunnel_id r of None \<Rightarrow> True
        | Some t \<Rightarrow> list_ex (\<lambda>h. hp_tunnel_id h = t \<and> hp_ordinal h = 0 \<and> hp_node_id h = dr_node_id r) (db_hops db)))"

definition refs_ok :: "panel_db \<Rightarrow> bool" where
  "refs_ok db = ((\<forall>r \<in> set (db_rules db). \<not> dr_deleted r \<longrightarrow> rule_placed db r)
     \<and> (\<forall>h \<in> set (db_hops db). node_alive db (hp_node_id h)))"

definition panel_inv :: "panel_db \<Rightarrow> bool" where
  "panel_inv db = (rules_inv db \<and> users_inv db \<and> tunnels_inv db \<and> nodes_inv db \<and> refs_ok db)"

lemma node_alive_find: "find_node db n \<noteq> None \<longleftrightarrow> node_alive db n"
  by (auto simp: find_node_def node_alive_def list_ex_iff live_node_def find_None_iff)

lemma rule_placed_mono:
  assumes "rule_placed db r" "\<And>n. node_alive db n \<Longrightarrow> node_alive db' n" "set (db_hops db) \<subseteq> set (db_hops db')"
    "dr_node_id r' = dr_node_id r" "dr_tunnel_id r' = dr_tunnel_id r"
  shows "rule_placed db' r'"
  using assms by (fastforce simp: rule_placed_def list_ex_iff split: option.splits)

text \<open>More nodes and more hops, on live nodes, and rules that come from the old ones.\<close>

lemma refs_ok_mono:
  assumes "refs_ok db" "\<And>n. node_alive db n \<Longrightarrow> node_alive db' n" "set (db_hops db) \<subseteq> set (db_hops db')"
    "\<And>r'. r' \<in> set (db_rules db') \<Longrightarrow> \<not> dr_deleted r' \<Longrightarrow>
       \<exists>r \<in> set (db_rules db). \<not> dr_deleted r \<and> dr_node_id r' = dr_node_id r \<and> dr_tunnel_id r' = dr_tunnel_id r"
    "\<And>h. h \<in> set (db_hops db') \<Longrightarrow> h \<notin> set (db_hops db) \<Longrightarrow> node_alive db' (hp_node_id h)"
  shows "refs_ok db'"
  unfolding refs_ok_def
proof (intro conjI ballI impI)
  fix r'
  assume "r' \<in> set (db_rules db')" "\<not> dr_deleted r'"
  with assms(4) obtain r where "r \<in> set (db_rules db)" "\<not> dr_deleted r" "dr_node_id r' = dr_node_id r" "dr_tunnel_id r' = dr_tunnel_id r"
    by blast
  with assms(1) show "rule_placed db' r'"
    by (intro rule_placed_mono [OF _ assms(2,3)]) (simp_all add: refs_ok_def)
next
  fix h
  assume "h \<in> set (db_hops db')"
  with assms(1,2,5) show "node_alive db' (hp_node_id h)"
    by (cases "h \<in> set (db_hops db)") (auto simp: refs_ok_def)
qed

lemma refs_ok_cong:
  "db_rules d = db_rules e \<Longrightarrow> db_nodes d = db_nodes e \<Longrightarrow> db_hops d = db_hops e \<Longrightarrow> refs_ok d = refs_ok e"
  by (simp add: refs_ok_def rule_placed_def node_alive_def split: option.split)

text \<open>A change of rows of rules that moves no rule and revives none, and a change of nodes that ends none.\<close>

definition stays :: "(db_rule \<Rightarrow> db_rule) \<Rightarrow> bool" where
  "stays f = (\<forall>r. \<not> dr_deleted (f r) \<longrightarrow> \<not> dr_deleted r \<and> dr_node_id (f r) = dr_node_id r \<and> dr_tunnel_id (f r) = dr_tunnel_id r)"

lemma refs_ok_rules:
  assumes "refs_ok db" "stays f"
  shows "refs_ok (change_rules P f db)"
proof (rule refs_ok_mono [OF assms(1)])
  fix r'
  assume "r' \<in> set (db_rules (change_rules P f db))" "\<not> dr_deleted r'"
  then obtain r where "r \<in> set (db_rules db)" "r' = (if P r then f r else r)" "\<not> dr_deleted r'"
    by (auto simp: change_rules_def)
  with assms(2) show "\<exists>r \<in> set (db_rules db). \<not> dr_deleted r \<and> dr_node_id r' = dr_node_id r \<and> dr_tunnel_id r' = dr_tunnel_id r"
    by (auto simp: stays_def split: if_splits)
qed (auto simp: change_rules_def node_alive_def)

lemma node_alive_change:
  assumes "\<And>n. nd_id (f n) = nd_id n" "\<And>n. nd_deleted (f n) = nd_deleted n"
  shows "node_alive (change_nodes P f db) = node_alive db"
proof
  fix n
  have "list_ex (live_node n) (map (\<lambda>m. if P m then (f m)\<lparr>nd_updated_at := db_now db\<rparr> else m) ns) = list_ex (live_node n) ns" for ns
    using assms by (induction ns) (auto simp: live_node_def)
  then show "node_alive (change_nodes P f db) n = node_alive db n"
    by (simp add: node_alive_def change_nodes_def)
qed

lemma refs_ok_nodes:
  assumes "refs_ok db" "\<And>n. nd_id (f n) = nd_id n" "\<And>n. nd_deleted (f n) = nd_deleted n"
  shows "refs_ok (change_nodes P f db)"
  by (rule refs_ok_mono [OF assms(1)]) (auto simp: node_alive_change assms(2,3), auto simp: change_nodes_def)

section \<open>The handlers keep the references\<close>

lemma refs_audit: "keepsA (\<lambda>p. refs_ok (pn_db p)) (doA (record_with_ip io a b c d e f g h))"
  by (rule keepsA_do) (simp add: refs_ok_cong [OF record_frame(1) record_frame(3) record_frame(7)])

lemma refs_framed:
  assumes "framed v m" "\<And>d e. v d = v e \<Longrightarrow> refs_ok d = refs_ok e"
  shows "keepsA (\<lambda>p. refs_ok (pn_db p)) m"
proof (unfold keepsA_def, intro allI impI)
  fix p :: panel
  assume "refs_ok (pn_db p)"
  with assms(2) [of "pn_db (snd (m p))" "pn_db p"] assms(1) show "refs_ok (pn_db (snd (m p)))"
    by (simp add: framed_def)
qed

lemma refs_rule_statements [keeps_inv]:
  assumes "refs_ok db"
  shows "refs_ok (set_targets i x y db)" "refs_ok (set_send_proxy_protocol i b db)" "refs_ok (set_remote_af i z db)"
    "refs_ok (snd (set_enabled i b db))" "refs_ok (snd (soft_delete_rule i db))"
  unfolding set_targets_def set_send_proxy_protocol_def set_remote_af_def set_enabled_def soft_delete_rule_def snd_conv
  by (rule refs_ok_rules [OF assms]; simp add: stays_def)+

lemma refs_writes:
  "keepsA (\<lambda>p. refs_ok (pn_db p)) (write_db io q c (update_row i ureq))"
  "keepsA (\<lambda>p. refs_ok (pn_db p)) (write_db io q c (\<lambda>db. case set_enabled i b db of (n, db') \<Rightarrow> (Inr n, db')))"
  "keepsA (\<lambda>p. refs_ok (pn_db p)) (write_db io q c (\<lambda>db. case soft_delete_rule i db of (n, db') \<Rightarrow> (Inr n, db')))"
proof -
  show "keepsA (\<lambda>p. refs_ok (pn_db p)) (write_db io q c (update_row i ureq))"
    by (rule keepsA_write) (auto simp: update_row_def update_fields_def Let_def stays_def patched_def intro!: refs_ok_rules split: list.splits if_splits option.splits)
  show "keepsA (\<lambda>p. refs_ok (pn_db p)) (write_db io q c (\<lambda>db. case set_enabled i b db of (n, db') \<Rightarrow> (Inr n, db')))"
    "keepsA (\<lambda>p. refs_ok (pn_db p)) (write_db io q c (\<lambda>db. case soft_delete_rule i db of (n, db') \<Rightarrow> (Inr n, db')))"
    by (rule keepsA_write; use refs_rule_statements(4,5) in \<open>auto split: prod.splits\<close>; metis snd_conv)+
qed

lemma refs_send: "(\<And>p. pn_db (snd (m p)) = pn_db p) \<Longrightarrow> keepsA (\<lambda>p. refs_ok (pn_db p)) m"
  by (simp add: keepsA_def)

lemmas refs_rules = keepsA_bind keepsA_ask keepsA_if keeps_option keeps_prod refs_audit refs_writes keepsA_update

lemma created_rule_placed:
  assumes "create_checks re io auth req db = Inr (owner, targets, port)" "refs_ok db" "create_insert req owner port db = (Inr i, db')"
  shows "refs_ok db'"
proof -
  obtain r where db': "db' = db\<lparr>db_rules := db_rules db @ [r], db_next_rule := db_next_rule db + 1\<rparr>"
    "dr_node_id r = cq_node_id req" "dr_tunnel_id r = cq_tunnel_id req"
    using assms(3) by (auto simp: create_insert_def insert_rule_def Let_def split: option.splits)
  have "find_node db (cq_node_id req) \<noteq> None"
    using assms(1) by (auto simp: create_checks_def bindR_eq_Inr)
  moreover have "list_ex (\<lambda>h. hp_tunnel_id h = t \<and> hp_ordinal h = 0 \<and> hp_node_id h = cq_node_id req) (db_hops db)"
    if "cq_tunnel_id req = Some t" for t
    using assms(1) that find_SomeD
    by (fastforce simp: create_checks_def create_granted_def bindR_eq_Inr list_ex_iff list_for_tunnel_def)
  ultimately have "rule_placed db r"
    using db'(2,3) node_alive_find [of db "cq_node_id req"] by (auto simp: rule_placed_def split: option.split)
  then show ?thesis
    using assms(2) by (auto simp: db' refs_ok_def rule_placed_def node_alive_def split: option.splits)
qed

lemma create_rule_refs: "keepsA (\<lambda>p. refs_ok (pn_db p)) (create_rule re io auth ip req)"
  unfolding create_rule_def
proof (rule keeps_ask_bind, goal_cases)
  case (1 p x)
  obtain owner ej ls port where x: "x = (owner, (ej, ls), port)" by (cases x) auto
  let ?w = "write_db io ''insert_rule'' map_sqlx_to_api (create_insert req owner port)"
  have w: "refs_ok (pn_db (snd (?w p)))"
    using created_rule_placed [of re io auth req "pn_db p" owner "(ej, ls)" port] 1
    by (auto simp: write_db_def x split: prod.split sum.split)
  have d: "keepsA (\<lambda>p. refs_ok (pn_db p)) (doA (dispatch_rule_apply_locked pe io r))" for pe r
    by (rule refs_send) simp
  show ?case
    unfolding x prod.case
    by (rule keeps_at [where P = "\<lambda>p. refs_ok (pn_db p)" and m = ?w and p = p, OF w]) (intro refs_rules keeps_inv d)
qed

lemma other_rules_refs:
  "keepsA (\<lambda>p. refs_ok (pn_db p)) (update_rule re io auth ip i ureq)" "keepsA (\<lambda>p. refs_ok (pn_db p)) (delete_rule io auth ip i)"
  "keepsA (\<lambda>p. refs_ok (pn_db p)) (set_enabled_handler re io auth ip i on act)"
  "keepsA (\<lambda>p. refs_ok (pn_db p)) (restart_rule_handler io auth ip i)" "keepsA (\<lambda>p. refs_ok (pn_db p)) (get_rule re io auth i)"
  "keepsA (\<lambda>p. refs_ok (pn_db p)) (rule_stats io auth i)" "keepsA (\<lambda>p. refs_ok (pn_db p)) (rule_logs io auth i)"
  "keepsA (\<lambda>p. refs_ok (pn_db p)) (list_rules re io auth q)"
proof -
  have d: "keepsA (\<lambda>p. refs_ok (pn_db p)) (doA (dispatch_rule_apply_locked pe io r))" for pe r
    by (rule refs_send) simp
  have s: "keepsA (\<lambda>p. refs_ok (pn_db p)) (\<lambda>p. case dispatch_rule_remove_to i ns p of (ok, p1) \<Rightarrow> (Inr ok, p1))" for i ns
    by (rule refs_send) (simp add: case_prod_beta)
  have r: "keepsA (\<lambda>p. refs_ok (pn_db p)) (\<lambda>p. case dispatch_rule_restart io r p of
      (Inl e, p1) \<Rightarrow> (Inl (Database e), p1) | (Inr ok, p1) \<Rightarrow> (Inr ok, p1))" for io r
    by (rule refs_send) (use send_frame(5) in \<open>auto split: prod.split sum.split dest: arg_cong [of _ _ snd]\<close>)
  show "keepsA (\<lambda>p. refs_ok (pn_db p)) (update_rule re io auth ip i ureq)"
    unfolding update_rule_def update_stored_def by (intro refs_rules keeps_inv d; assumption)
  show "keepsA (\<lambda>p. refs_ok (pn_db p)) (delete_rule io auth ip i)"
    unfolding delete_rule_def by (intro refs_rules s)
  show "keepsA (\<lambda>p. refs_ok (pn_db p)) (set_enabled_handler re io auth ip i on act)"
    unfolding set_enabled_handler_def by (intro refs_rules d)
  show "keepsA (\<lambda>p. refs_ok (pn_db p)) (restart_rule_handler io auth ip i)" "keepsA (\<lambda>p. refs_ok (pn_db p)) (get_rule re io auth i)"
    "keepsA (\<lambda>p. refs_ok (pn_db p)) (rule_stats io auth i)" "keepsA (\<lambda>p. refs_ok (pn_db p)) (rule_logs io auth i)"
    "keepsA (\<lambda>p. refs_ok (pn_db p)) (list_rules re io auth q)"
    unfolding restart_rule_handler_def get_rule_def rule_stats_def rule_logs_def list_rules_def Let_def
    by (intro refs_rules r)+
qed

section \<open>Accounts, tunnels and nodes keep the references\<close>

lemma users_refs:
  "keepsA (\<lambda>p. refs_ok (pn_db p)) (create_user ue io auth ip creq)" "keepsA (\<lambda>p. refs_ok (pn_db p)) (update_user ue io auth ip i req)"
  "keepsA (\<lambda>p. refs_ok (pn_db p)) (delete_user io auth ip i)"
  by (rule refs_framed, rule users_frame, rule refs_ok_cong; simp add: beside_users_def)+

lemma chain_alive:
  "chain_pools io db ord ns = Inr pools \<Longrightarrow> \<forall>n \<in> set ns. node_alive db n"
  by (induction ns arbitrary: ord pools) (auto simp: bindR_eq_Inr node_alive_find [symmetric])

lemma created_tunnel_refs:
  assumes "create_tunnel_checks re io auth req db = Inr hops" "refs_ok db" "create_with_hops name transport hops db = (Inr tid, db')"
  shows "refs_ok db'"
proof (rule refs_ok_mono [OF assms(2)])
  let ?t = "\<lparr>tu_id = db_next_tunnel db, tu_name = name, tu_transport = transport, tu_status = ''unknown'', tu_ratio = 1,
      tu_billing_mode = 2, tu_created_at = db_now db, tu_rotated_at = None, tu_deleted = False\<rparr>"
  let ?db1 = "db\<lparr>db_tunnels := db_tunnels db @ [?t], db_next_tunnel := db_next_tunnel db + 1\<rparr>"
  have i: "insert_hops (db_next_tunnel db) hops ?db1 = Inr db'"
    using assms(3) by (auto simp: create_with_hops_def Let_def split: if_splits sum.splits)
  have db': "db_rules db' = db_rules db" "db_nodes db' = db_nodes db" "db_hops db' = db_hops db @ map (hop_of (db_next_tunnel db)) hops"
    using insert_hops_ok [OF i] by simp_all
  have alive: "node_alive db' n = node_alive db n" for n
    by (simp add: node_alive_def db')
  show "node_alive db n \<Longrightarrow> node_alive db' n" for n
    by (simp add: alive)
  show "set (db_hops db) \<subseteq> set (db_hops db')"
    by (simp add: db')
  show "\<exists>r \<in> set (db_rules db). \<not> dr_deleted r \<and> dr_node_id r' = dr_node_id r \<and> dr_tunnel_id r' = dr_tunnel_id r"
    if "r' \<in> set (db_rules db')" "\<not> dr_deleted r'" for r'
    using that by (auto simp: db')
  obtain pools where c: "chain_pools io db 0 (ct_node_ids req) = Inr pools" "map (\<lambda>h. fst (snd h)) hops = ct_node_ids req"
    using assms(1) by (rule create_checks_hops)
  fix h
  assume "h \<in> set (db_hops db')" "h \<notin> set (db_hops db)"
  then obtain x where x: "x \<in> set hops" "h = hop_of (db_next_tunnel db) x"
    by (auto simp: db')
  then have "hp_node_id h = fst (snd x)"
    by (simp add: hop_of_simps)
  with x(1) have "hp_node_id h \<in> set (ct_node_ids req)"
    unfolding c(2) [symmetric] by simp
  with chain_alive [OF c(1)] show "node_alive db' (hp_node_id h)"
    by (simp add: alive)
qed

lemma tunnel_rows_refs [simp]:
  "refs_ok (change_tunnels P f db) = refs_ok db" "refs_ok (set_tunnel_status i x db) = refs_ok db"
  "refs_ok (pn_db (mark_rotated i p)) = refs_ok (pn_db p)"
  by (rule refs_ok_cong; simp add: change_tunnels_def set_tunnel_status_def mark_rotated_def)+

lemma deleted_tunnel_refs:
  assumes "refs_ok db" "active_rule_refs db i = 0"
  shows "refs_ok (snd (soft_delete_tunnel i db))"
proof (cases "0 < count_tunnels (live_tunnel i) db")
  case True
  then have e: "snd (soft_delete_tunnel i db) = (change_tunnels (live_tunnel i) (\<lambda>t. t\<lparr>tu_deleted := True\<rparr>) db)
      \<lparr>db_hops := filter (\<lambda>h. hp_tunnel_id h \<noteq> i) (db_hops db)\<rparr>"
    by (simp add: soft_delete_tunnel_def change_tunnels_def Let_def)
  have free: "dr_tunnel_id r \<noteq> Some i" if "r \<in> set (db_rules db)" "\<not> dr_deleted r" for r
    using assms(2) that by (auto simp: active_rule_refs_def count_rules_def filter_empty_conv)
  have same: "db_rules (snd (soft_delete_tunnel i db)) = db_rules db" "db_nodes (snd (soft_delete_tunnel i db)) = db_nodes db"
    "db_hops (snd (soft_delete_tunnel i db)) = filter (\<lambda>h. hp_tunnel_id h \<noteq> i) (db_hops db)"
    by (simp_all add: e change_tunnels_def)
  have "rule_placed (snd (soft_delete_tunnel i db)) r" if "r \<in> set (db_rules db)" "\<not> dr_deleted r" for r
  proof -
    have "rule_placed db r" using assms(1) that by (simp add: refs_ok_def)
    with free [OF that] show ?thesis
      by (auto simp: rule_placed_def node_alive_def same list_ex_iff split: option.splits)
  qed
  moreover have "\<forall>h \<in> set (filter (\<lambda>h. hp_tunnel_id h \<noteq> i) (db_hops db)). node_alive (snd (soft_delete_tunnel i db)) (hp_node_id h)"
    using assms(1) by (simp add: refs_ok_def node_alive_def same(2))
  ultimately show ?thesis
    by (simp add: refs_ok_def same)
next
  case False
  then have "snd (soft_delete_tunnel i db) = change_tunnels (live_tunnel i) (\<lambda>t. t\<lparr>tu_deleted := True\<rparr>) db"
    by (simp add: soft_delete_tunnel_def Let_def)
  with assms(1) show ?thesis by simp
qed

lemma refs_beside_tunnels:
  "keepsA (\<lambda>p. refs_ok (pn_db p)) (write_db io q c (update_tunnel_fields i n r m))"
  "keepsA (\<lambda>p. refs_ok (pn_db p)) (doA (\<lambda>p. snd (dispatch_tunnel_credentials pe io t p)))"
  "keepsA (\<lambda>p. refs_ok (pn_db p)) (doA (dispatch_revoke_tunnel_credentials i ns))"
  "keepsA (\<lambda>p. refs_ok (pn_db p)) (doA (\<lambda>p. if b' then p else p\<lparr>pn_db := set_tunnel_status i st (pn_db p)\<rparr>))"
proof -
  show "keepsA (\<lambda>p. refs_ok (pn_db p)) (write_db io q c (update_tunnel_fields i n r m))"
    by (rule keepsA_write) (auto simp: update_tunnel_fields_def split: if_splits)
  have "refs_ok (pn_db (snd (dispatch_tunnel_credentials pe io t p)))" if "refs_ok (pn_db p)" for p
  proof -
    obtain ok p1 where s: "send_credentials pe (tu_id t) (list_for_tunnel (pn_db p) (tu_id t)) p = (ok, p1)" by fastforce
    then have "pn_db p1 = pn_db p"
      using send_credentials_outcome [of pe "tu_id t" "list_for_tunnel (pn_db p) (tu_id t)" p] by simp
    with s that show ?thesis
      by (cases ok) (simp_all add: dispatch_tunnel_credentials_def)
  qed
  then show "keepsA (\<lambda>p. refs_ok (pn_db p)) (doA (\<lambda>p. snd (dispatch_tunnel_credentials pe io t p)))"
    by (rule keepsA_do)
  show "keepsA (\<lambda>p. refs_ok (pn_db p)) (doA (dispatch_revoke_tunnel_credentials i ns))"
    "keepsA (\<lambda>p. refs_ok (pn_db p)) (doA (\<lambda>p. if b' then p else p\<lparr>pn_db := set_tunnel_status i st (pn_db p)\<rparr>))"
    by (rule keepsA_do, simp add: dispatch_revoke_tunnel_credentials_def)+
qed

lemma credentials_refs: "refs_ok (pn_db p) \<Longrightarrow> refs_ok (pn_db (snd (dispatch_tunnel_credentials pe io t p)))"
  using refs_beside_tunnels(2) [of pe io t] by (simp add: keepsA_def)

lemma rotate_refs:
  assumes "refs_ok (pn_db p)"
  shows "refs_ok (pn_db (snd (rotate_credentials_and_restart pe io t p)))"
proof -
  obtain x p1 where d: "dispatch_tunnel_credentials pe io t p = (x, p1)" by fastforce
  with credentials_refs [OF assms, of pe io t] have "refs_ok (pn_db p1)" by simp
  with d show ?thesis
    by (cases x) (simp_all add: rotate_credentials_and_restart_def restart_each_db)
qed

lemma create_tunnel_refs: "keepsA (\<lambda>p. refs_ok (pn_db p)) (create_tunnel re io auth ip req)"
  unfolding create_tunnel_def
proof (rule keeps_ask_bind, goal_cases)
  case (1 p hops)
  let ?w = "write_db io ''create_with_hops'' map_sqlx_tunnel (create_with_hops (trim (ct_name req)) (ct_transport req) hops)"
  have w: "refs_ok (pn_db (snd (?w p)))"
    using created_tunnel_refs [OF 1(2,1)] 1(1) by (auto simp: write_db_def split: prod.split sum.split)
  show ?case
    by (rule keeps_at [where P = "\<lambda>p. refs_ok (pn_db p)" and m = ?w and p = p, OF w]) (intro refs_rules refs_beside_tunnels)
qed

lemma at_ask: "P p \<Longrightarrow> (\<And>x. g (pn_db p) = Inr x \<Longrightarrow> P (snd (f x p))) \<Longrightarrow> P (snd (bindA (ask g) f p))"
  by (simp add: bindA_def split: sum.split)

lemma delete_tunnel_refs: "keepsA (\<lambda>p. refs_ok (pn_db p)) (delete_tunnel io auth ip i)"
proof (unfold keepsA_def, intro allI impI)
  fix p :: panel
  assume ok: "refs_ok (pn_db p)"
  show "refs_ok (pn_db (snd (delete_tunnel io auth ip i p)))"
    unfolding delete_tunnel_def
  proof (rule at_ask [where P = "\<lambda>p. refs_ok (pn_db p)"], rule ok, rule at_ask [where P = "\<lambda>p. refs_ok (pn_db p)"], rule ok,
      rule at_ask [where P = "\<lambda>p. refs_ok (pn_db p)"], rule ok, rule at_ask [where P = "\<lambda>p. refs_ok (pn_db p)"], rule ok, goal_cases)
    case (1 x y z nodes)
    then have "active_rule_refs (pn_db p) i = 0"
      by (auto simp: bindR_eq_Inr)
    from deleted_tunnel_refs [OF ok this] have w: "refs_ok (pn_db (snd (write_db io ''delete_tunnel'' Database (soft_delete_tunnel i) p)))"
      using ok by (auto simp: write_db_def split: prod.split sum.split)
    show ?case
      by (rule keeps_at [where P = "\<lambda>p. refs_ok (pn_db p)" and p = p and m = "write_db io ''delete_tunnel'' Database (soft_delete_tunnel i)", OF w])
        (intro refs_rules refs_beside_tunnels)
  qed
qed

lemma other_tunnels_refs:
  "keepsA (\<lambda>p. refs_ok (pn_db p)) (update_tunnel io auth ip i req)" "keepsA (\<lambda>p. refs_ok (pn_db p)) (restart_tunnel re io auth ip i)"
  "keepsA (\<lambda>p. refs_ok (pn_db p)) (tunnel_status io auth i)" "keepsA (\<lambda>p. refs_ok (pn_db p)) (get_tunnel io auth i)"
proof -
  have r: "keepsA (\<lambda>p. refs_ok (pn_db p)) (\<lambda>p. case rotate_credentials_and_restart pe io t p of
      (Inl _, p1) \<Rightarrow> (Inl Internal, p1) | (Inr sent, p1) \<Rightarrow> (Inr sent, p1))" for pe t
    using rotate_refs [of _ pe io t] by (auto simp: keepsA_def split: prod.split sum.split) (metis snd_conv)+
  show "keepsA (\<lambda>p. refs_ok (pn_db p)) (update_tunnel io auth ip i req)"
    "keepsA (\<lambda>p. refs_ok (pn_db p)) (restart_tunnel re io auth ip i)"
    "keepsA (\<lambda>p. refs_ok (pn_db p)) (tunnel_status io auth i)" "keepsA (\<lambda>p. refs_ok (pn_db p)) (get_tunnel io auth i)"
    unfolding update_tunnel_def restart_tunnel_def tunnel_status_def get_tunnel_def refresh_status_def
    by (intro refs_rules refs_beside_tunnels r)+
qed

lemma refs_node_statements [keeps_inv]:
  assumes "refs_ok db"
  shows "refs_ok (set_block_protocols i m db)" "refs_ok (set_cert_meta i x y db)" "refs_ok (change_nodes P (node_patch req) db)"
  unfolding set_block_protocols_def set_cert_meta_def
  by (rule refs_ok_nodes [OF assms]; simp add: node_patch_def)+

lemma nodes_refs:
  "keepsA (\<lambda>p. refs_ok (pn_db p)) (create_node ne io auth ip creq)" "keepsA (\<lambda>p. refs_ok (pn_db p)) (update_node pe io auth ip i req)"
  "keepsA (\<lambda>p. refs_ok (pn_db p)) (upgrade_agent_handler ne io auth ip i)"
proof -
  have ins: "keepsA (\<lambda>p. refs_ok (pn_db p)) (write_db io q c (insert_node name region ip' display endpoint h lo hi))"
    for q c name region ip' display endpoint h lo hi
  proof (rule keepsA_write)
    fix db x db'
    assume "refs_ok db" "insert_node name region ip' display endpoint h lo hi db = (Inr x, db')"
    then obtain n where db': "db' = db\<lparr>db_nodes := db_nodes db @ [n], db_next_node := db_next_node db + 1\<rparr>"
      by (auto simp: insert_node_def Let_def split: option.splits)
    show "refs_ok db'"
      by (rule refs_ok_mono [OF \<open>refs_ok db\<close>]) (auto simp: db' node_alive_def)
  qed
  have upd: "keepsA (\<lambda>p. refs_ok (pn_db p)) (write_db io q c (update_node_row i req))" for q c
    by (rule keepsA_write) (auto simp: update_node_row_def keeps_inv split: option.splits)
  have d: "keepsA (\<lambda>p. refs_ok (pn_db p)) (doA (apply_each pe io rs))" for rs
    by (rule keepsA_do) simp
  have s: "keepsA (\<lambda>p. refs_ok (pn_db p)) (dispatchA n c)" for n c
    by (simp add: keepsA_def dispatchA_def split: prod.split)
  have u: "keepsA (\<lambda>p. refs_ok (pn_db p)) (update_db io q (set_block_protocols i m))"
    "keepsA (\<lambda>p. refs_ok (pn_db p)) (update_db io q (set_cert_meta i x y))" for q i m x y
    by (rule keepsA_update, erule refs_node_statements)+
  show "keepsA (\<lambda>p. refs_ok (pn_db p)) (create_node ne io auth ip creq)"
    "keepsA (\<lambda>p. refs_ok (pn_db p)) (update_node pe io auth ip i req)"
    "keepsA (\<lambda>p. refs_ok (pn_db p)) (upgrade_agent_handler ne io auth ip i)"
    unfolding create_node_def update_node_def upgrade_agent_handler_def change_mask_def
    by (intro keepsA_bind keepsA_ask keepsA_if keeps_option keeps_prod refs_audit ins upd d s u)+
qed

section \<open>Importing rules\<close>

lemma attempt_state [simp]: "snd (attempt m p) = snd (m p)"
  by (simp add: attempt_def split: prod.split sum.split)

lemma bind_attempt: "bindA (attempt m) f p = f (\<not> isl (fst (m p))) (snd (m p))"
  by (simp add: bindA_def attempt_def split: prod.split sum.split)

lemma run_item_state:
  "snd (run_item re io auth dry item plan p) = (case plan of
     Plan_Create node profile owner extra strat \<Rightarrow>
       if dry then p else snd (execute_create re io (unwrap_or (cl_sub auth) owner) item node profile extra strat p)
   | Plan_Overwrite i node profile extra strat \<Rightarrow> if dry then p else snd (execute_overwrite re io item i profile extra strat p)
   | _ \<Rightarrow> p)"
  by (simp add: run_item_def bind_attempt split: planned_action.split)

lemma keeps_attempt: "keepsA P m \<Longrightarrow> keepsA P (attempt m)"
  by (simp add: keepsA_def)

text \<open>An import keeps what each of its items keeps.\<close>

lemma import_each_keeps:
  assumes step: "\<And>k item plan p. P p \<Longrightarrow>
      plan_item re (item_io io k) strategy reserved target item (pn_db p) = Inr plan \<Longrightarrow>
      P (snd (run_item re (item_io io k) auth dry item plan p))"
  shows "keepsA P (import_each re io auth strategy dry reserved target k seen items)"
proof (induction items arbitrary: k seen)
  case (Cons item rest)
  show ?case
    unfolding import_each.simps
  proof (rule keeps_ask_bind)
    fix p plan
    assume p: "P p" "plan_item re (item_io io k) strategy reserved target item (pn_db p) = Inr plan"
    obtain plan' seen' where c: "check_seen item plan seen = (plan', seen')" by fastforce
    then have "plan' = plan \<or> plan' = Plan_Error ''repeated binding''"
      by (auto simp: check_seen_def Let_def split: option.splits if_splits)
    then have "P (snd (run_item re (item_io io k) auth dry item plan' p))"
      using step [OF p] p(1) by (auto simp: run_item_def)
    then show "P (snd ((case check_seen item plan seen of (plan', seen') \<Rightarrow>
        bindA (run_item re (item_io io k) auth dry item plan') (\<lambda>(action, reason).
        bindA (import_each re io auth strategy dry reserved target (Suc k) seen' rest) (\<lambda>reports.
          returnA (\<lparr>ir_index = k, ir_action = action, ir_reason = reason\<rparr> # reports)))) p))"
      unfolding c prod.case
      by (rule keeps_at) (intro keeps_prod keepsA_bind keepsA_ask Cons.IH)
  qed
qed (simp add: keepsA_def)

text \<open>The statements of one item, on the rules.\<close>

lemma mutex_conflicts_alt: "proto \<in> {''tcp'', ''udp'', ''tcp_udp''} \<Longrightarrow> mutex_conflicts proto = conflicts_with proto"
  by (auto simp: mutex_conflicts_def conflicts_with_def)

lemma free_of_conflict:
  assumes "item_refusal item = None" "bound_rules db node item (mutex_conflicts (ei_protocol item)) = []"
  shows "ensure_no_protocol_conflict no_faults db node (ei_listen_ip item) (uint (ei_listen_port item)) (ei_protocol item) None = Inr ()"
proof -
  have "ei_protocol item \<in> {''tcp'', ''udp'', ''tcp_udp''}"
    using assms(1) by (auto simp: item_refusal_def split: if_splits)
  with assms(2) show ?thesis
    by (simp add: mutex_conflicts_alt ensure_no_protocol_conflict_def bindR_eq_Inr bound_rules_def)
qed

lemma execute_create_rules:
  assumes "panel_ok p" "item_refusal item = None" "bound_rules (pn_db p) node item (mutex_conflicts (ei_protocol item)) = []"
  shows "panel_ok (snd (execute_create re io owner item node profile extra strat p))"
proof -
  let ?w = "write_db io ''insert_rule'' Database
       (insert_rule owner node (trim (ei_name item)) (ei_protocol item) (ei_listen_ip item) (uint (ei_listen_port item))
          (trim (ei_target_host item)) (uint (ei_target_port item)) profile None None (ei_remote_af item))"
  have w: "panel_ok (snd (?w p))"
    using assms(1) rules_inv_insert [of "pn_db p", OF _ _ free_of_conflict [OF assms(2,3)]]
    by (auto simp: panel_ok_def write_db_def split: prod.split sum.split)
  show ?thesis
    unfolding execute_create_def
    by (rule keeps_at [where P = panel_ok and m = ?w and p = p, OF w]) (intro keeps_rules keeps_inv keeps_option)
qed

lemma tame_patch: "1 \<le> tp \<Longrightarrow> tp \<le> 65535 \<Longrightarrow> tame (patched name None None host (Some tp) profile maxc)"
  by (simp add: tame_def patched_def coalesce_def rule_checks_def)

lemma refused_port: "item_refusal item = None \<Longrightarrow> 1 \<le> uint (ei_target_port item) \<and> uint (ei_target_port item) \<le> 65535"
proof -
  assume "item_refusal item = None"
  then have "ei_target_port item \<noteq> 0" by (auto simp: item_refusal_def split: if_splits)
  then have "uint (ei_target_port item) \<noteq> 0" by (simp add: uint_0_iff)
  moreover have "0 \<le> uint (ei_target_port item)" "uint (ei_target_port item) < 65536"
    using uint_bounded [of "ei_target_port item"] by simp_all
  ultimately show ?thesis by linarith
qed

lemma execute_overwrite_rules:
  assumes "item_refusal item = None"
  shows "keepsA panel_ok (execute_overwrite re io item i profile extra strat)"
proof -
  have w: "keepsA panel_ok (write_db io ''update_rule'' Database (update_fields i (Some name) None None (Some host)
      (Some (uint (ei_target_port item))) pr None))" for name host pr
  proof (rule keeps_write)
    fix db x db'
    assume "rules_inv db" "update_fields i (Some name) None None (Some host) (Some (uint (ei_target_port item))) pr None db = (Inr x, db')"
    then show "rules_inv db'"
      using refused_port [OF assms]
      by (auto simp: update_fields_def Let_def split: list.splits intro!: rules_inv_tame tame_patch)
  qed
  show ?thesis
    unfolding execute_overwrite_def by (intro w keeps_rules keeps_inv keeps_option)
qed

lemma import_rules_keeps: "keepsA panel_ok (import_rules re io auth ip q items)"
proof -
  have e: "keepsA panel_ok (import_each re io auth strategy dry reserved target k seen items)" for strategy dry reserved target k seen
  proof (rule import_each_keeps)
    fix k item plan p
    assume p: "panel_ok p" "plan_item re (item_io io k) strategy reserved target item (pn_db p) = Inr plan"
    show "panel_ok (snd (run_item re (item_io io k) auth dry item plan p))"
    proof (cases plan)
      case (Plan_Create node profile owner extra strat)
      have "panel_ok (snd (execute_create re (item_io io k) o' item node profile extra strat p))" for o'
        by (rule plan_create_facts [OF p(2) [unfolded Plan_Create]]) (rule execute_create_rules [OF p(1)])
      then show ?thesis
        using p(1) by (simp add: run_item_state Plan_Create)
    next
      case (Plan_Overwrite i node profile extra strat)
      then have "keepsA panel_ok (execute_overwrite re (item_io io k) item i profile extra strat)"
        using plan_overwrite_facts [OF p(2) [unfolded Plan_Overwrite]] execute_overwrite_rules by metis
      with p(1) show ?thesis
        by (simp add: run_item_state Plan_Overwrite keepsA_def)
    qed (use p(1) in \<open>simp_all add: run_item_state\<close>)
  qed
  show ?thesis
    unfolding import_rules_def Let_def by (intro keeps_rules e)
qed

text \<open>The other tables, and the references.\<close>

lemma framed_attempt: "framed v m \<Longrightarrow> framed v (attempt m)"
  by (simp add: framed_def)

lemma execute_frame:
  "framed beside_rules (execute_create re io owner item node profile extra strat)"
  "framed beside_rules (execute_overwrite re io item i profile extra strat)"
proof -
  have w: "framed beside_rules (write_db io q c (insert_rule a b d e f g h j k l m n))"
    "framed beside_rules (write_db io q c (update_fields i a' b' c' d' e' f' g'))" for io q c a b d e f g h j k l m n a' b' c' d' e' f' g'
    by (rule framed_write; auto simp: insert_rule_def update_fields_def Let_def beside_defs change_rules_def split: option.splits list.splits)+
  show "framed beside_rules (execute_create re io owner item node profile extra strat)"
    "framed beside_rules (execute_overwrite re io item i profile extra strat)"
    unfolding execute_create_def execute_overwrite_def
    by (intro framed_rules w rules_dispatch framed_update; simp)+
qed

lemma run_item_frame: "framed beside_rules (run_item re io auth dry item plan)"
  unfolding run_item_def
  by (cases plan) (simp_all add: framed_rules framed_attempt execute_frame)

lemma import_each_frame: "framed beside_rules (import_each re io auth strategy dry reserved target k seen items)"
proof (induction items arbitrary: k seen)
  case (Cons item rest)
  then show ?case
    unfolding import_each.simps by (intro framed_rules run_item_frame)
qed (simp add: framed_def)

lemma import_frame: "framed beside_rules (import_rules re io auth ip q items)"
  unfolding import_rules_def Let_def by (intro framed_rules rules_audit import_each_frame)

lemma insert_refs:
  assumes "insert_rule owner node name proto ip port host tport profile None maxc af db = (Inr i, db')" "refs_ok db" "node_alive db node"
  shows "refs_ok db'"
proof -
  obtain r where db': "db' = db\<lparr>db_rules := db_rules db @ [r], db_next_rule := db_next_rule db + 1\<rparr>"
    "dr_node_id r = node" "dr_tunnel_id r = None"
    using assms(1) by (auto simp: insert_rule_def Let_def split: option.splits)
  then have "rule_placed db r"
    using assms(3) by (simp add: rule_placed_def)
  with assms(2) show ?thesis
    by (auto simp: db' refs_ok_def rule_placed_def node_alive_def split: option.splits)
qed

lemma refs_dispatch: "keepsA (\<lambda>p. refs_ok (pn_db p)) (doA (dispatch_rule_apply_locked pe io r))"
  by (rule refs_send) simp

lemma execute_create_refs:
  assumes "refs_ok (pn_db p)" "node_alive (pn_db p) node"
  shows "refs_ok (pn_db (snd (execute_create re io owner item node profile extra strat p)))"
proof -
  let ?w = "write_db io ''insert_rule'' Database
       (insert_rule owner node (trim (ei_name item)) (ei_protocol item) (ei_listen_ip item) (uint (ei_listen_port item))
          (trim (ei_target_host item)) (uint (ei_target_port item)) profile None None (ei_remote_af item))"
  have w: "refs_ok (pn_db (snd (?w p)))"
    using insert_refs [OF _ assms] assms(1) by (auto simp: write_db_def split: prod.split sum.split)
  show ?thesis
    unfolding execute_create_def
    by (rule keeps_at [where P = "\<lambda>p. refs_ok (pn_db p)" and m = ?w and p = p, OF w]) (intro refs_rules keeps_inv refs_dispatch)
qed

lemma execute_overwrite_refs: "keepsA (\<lambda>p. refs_ok (pn_db p)) (execute_overwrite re io item i profile extra strat)"
proof -
  have w: "keepsA (\<lambda>p. refs_ok (pn_db p)) (write_db io q c (update_fields i (Some name) None None (Some host) (Some tp) pr None))" for io q c name host tp pr
    by (rule keepsA_write) (auto simp: update_fields_def Let_def stays_def patched_def intro!: refs_ok_rules split: list.splits)
  show ?thesis
    unfolding execute_overwrite_def by (intro refs_rules keeps_inv refs_dispatch w)
qed

lemma lands_alive:
  assumes "lands target item db = Some n" "\<And>m. target = Some m \<Longrightarrow> node_alive db (nd_id m)"
  shows "node_alive db (nd_id n)"
proof (cases target)
  case None
  with assms(1) have "find_node_by_name db (ei_node_name item) = Some n"
    by (simp add: lands_def)
  from find_SomeD [OF this [unfolded find_node_by_name_def]] show ?thesis
    by (auto simp: node_alive_def list_ex_iff live_node_def)
qed (use assms in \<open>simp add: lands_def\<close>)

lemma import_refs: "keepsA (\<lambda>p. refs_ok (pn_db p)) (import_rules re io auth ip q items)"
proof -
  let ?P = "\<lambda>target (p :: panel). refs_ok (pn_db p) \<and> (\<forall>n. target = Some n \<longrightarrow> node_alive (pn_db p) (nd_id n))"
  have e: "keepsA (?P target) (import_each re io auth strategy dry reserved target k seen items)" for target strategy dry reserved k seen
  proof (rule import_each_keeps)
    fix k item plan p
    assume p: "?P target p" "plan_item re (item_io io k) strategy reserved target item (pn_db p) = Inr plan"
    let ?q = "snd (run_item re (item_io io k) auth dry item plan p)"
    have "node_alive (pn_db ?q) n = node_alive (pn_db p) n" for n
      using run_item_frame [of re "item_io io k" auth dry item plan] by (simp add: framed_def beside_rules_def node_alive_def)
    moreover have "refs_ok (pn_db ?q)"
    proof (cases plan)
      case (Plan_Create node profile owner extra strat)
      have "node_alive (pn_db p) node"
        by (rule plan_create_facts [OF p(2) [unfolded Plan_Create]]) (use p(1) lands_alive in blast)
      with p(1) show ?thesis
        by (simp add: run_item_state Plan_Create execute_create_refs)
    next
      case (Plan_Overwrite i node profile extra strat)
      with p(1) execute_overwrite_refs show ?thesis
        by (simp add: run_item_state Plan_Overwrite keepsA_def)
    qed (use p(1) in \<open>simp_all add: run_item_state\<close>)
    ultimately show "?P target ?q"
      using p(1) by simp
  qed
  have each: "refs_ok (pn_db (snd (import_each re io auth strategy dry reserved target k seen items p)))"
    if "refs_ok (pn_db p)" "import_target io t (pn_db p) = Inr target" for strategy dry reserved target k seen p t
  proof -
    have "?P target p"
      using that node_alive_find [of "pn_db p"] find_SomeD
      by (fastforce simp: import_target_def bindR_eq_Inr find_node_def split: option.splits)
    with e show ?thesis
      by (simp add: keepsA_def)
  qed
  show ?thesis
    unfolding import_rules_def Let_def
  proof (rule keepsA_bind [OF keepsA_ask(1)], rule keepsA_bind [OF keepsA_ask(1)], rule keepsA_bind [OF keepsA_ask(1)],
      rule keepsA_bind [OF keepsA_ask(1)], rule keeps_ask_bind, goal_cases)
    case (1 _ _ _ reserved p target)
    then show ?case
      by (intro keeps_at [where P = "\<lambda>p. refs_ok (pn_db p)"] each) (auto intro!: keepsA_bind keepsA_ask keepsA_if refs_audit)
  qed
qed

end
