(* ===== verification/Panel_Inv.thy ===== *)
theory Panel_Inv
  imports Panel_Refs
begin

text \<open>
  The panel as one machine: an event is a call of an administrator or of an account, a call of an
  agent or a tick of a sweep. The invariants of the four tables and the references between them hold along
  every run.
\<close>

section \<open>The sweeps\<close>

text \<open>What a predicate must stand besides, so that no tick of a sweep breaks it.\<close>

locale panel_calls = agent_calls +
  assumes disabled: "Q db \<Longrightarrow> Q (change_rules p (\<lambda>r. r\<lparr>dr_enabled := 0\<rparr>) db)"
    and metered: "Q db \<Longrightarrow> Q (change_users p' (\<lambda>u. u\<lparr>us_used_cached := b u, us_calculated_at := c'\<rparr>) db)"
    and offline: "Q db \<Longrightarrow> Q (change_nodes q (\<lambda>n. n\<lparr>nd_status := ''offline''\<rparr>) db)"
    and rotated: "Q (pn_db pan) \<Longrightarrow> Q (pn_db (mark_rotated i pan))"
    and trimmed: "Q db \<Longrightarrow> Q (db\<lparr>db_rule_stats := a1\<rparr>)" "Q db \<Longrightarrow> Q (db\<lparr>db_rule_stats := a1, db_node_stats := a2\<rparr>)"
begin

lemma system_audited [simp]: "Q (sv_db s) \<Longrightarrow> Q (sv_db (audit_system io act ty t pay s))"
  by (simp add: audit_system_def sv_db_def record_plain_def record_with_ip_def audit)

lemma disable_user_keeps: "Q (pn_db p) \<Longrightarrow> Q (pn_db (snd (disable_rules_for_user pe io u p)))"
  by (simp add: disable_rules_for_user_def disable_found_def disabled Let_def)

lemma disable_each_keeps: "Q (sv_db s) \<Longrightarrow> Q (sv_db (snd (disable_each pe io act why event us hit s)))"
proof (induction us arbitrary: hit s)
  case (Cons u us)
  obtain x p where d: "disable_rules_for_user pe io u (sv_panel s) = (x, p)" by fastforce
  with disable_user_keeps [of "sv_panel s" pe io u] Cons.prems have q: "Q (sv_db (s\<lparr>sv_panel := p\<rparr>))"
    by (simp add: sv_db_def)
  show ?case
  proof (cases x)
    case (Inr n)
    have "Q (sv_db ((audit_system io act ''user'' (Some u) (disable_payload u n why) (s\<lparr>sv_panel := p\<rparr>))\<lparr>sv_notified := z\<rparr>))" for z
      using system_audited [OF q] by (simp add: sv_db_def)
    with Inr d q Cons.IH show ?thesis
      by (simp add: Let_def)
  qed (use d q in simp)
qed simp

lemma refresh_keeps: "Q db \<Longrightarrow> Q (snd (refresh_monthly ca io now xs db))"
proof (induction ca io now xs db rule: refresh_monthly.induct)
  case (2 ca io now i day rest db)
  then show ?case
    by (simp add: refresh_user_def metered split: option.split)
qed simp

lemma quota_keeps: "Q (sv_db s) \<Longrightarrow> Q (sv_db (snd (quota_tick_once ca pe io now s)))"
proof -
  assume q: "Q (sv_db s)"
  let ?s1 = "with_db refresh_rolling s"
  have s1: "Q (sv_db ?s1)"
    using metered [OF q] by (simp add: refresh_rolling_def)
  obtain x db where r: "refresh_monthly ca io now (monthly_users (sv_db ?s1)) (sv_db ?s1) = (x, db)" by fastforce
  then have "Q db"
    using refresh_keeps [OF s1] by (metis snd_conv)
  then have s2: "Q (sv_db (with_db (\<lambda>_. db) ?s1))"
    by simp
  obtain y s3 where d: "disable_each pe io ''user.quota_exceeded_auto_disable_rules'' ''quota_exceeded''
      User_Quota_Exceeded (users_over_limit (sv_db (with_db (\<lambda>_. db) ?s1))) 0 (with_db (\<lambda>_. db) ?s1) = (y, s3)" by fastforce
  with disable_each_keeps [OF s2] have "Q (sv_db s3)" by (metis snd_conv)
  with q s1 s2 r d show ?thesis
    by (simp add: quota_tick_once_def Let_def split: sum.split)
qed

lemma expiry_keeps: "Q (sv_db s) \<Longrightarrow> Q (sv_db (snd (expiry_tick_once pe io s)))"
  by (simp add: expiry_tick_once_def disable_each_keeps)

lemma mark_offline_keeps: "Q (sv_db s) \<Longrightarrow> Q (sv_db (snd (mark_offline io after found flipped s)))"
proof (induction io after found flipped s rule: mark_offline.induct)
  case (2 io after i name rest flipped s)
  have "sv_db (notify_offline i name s') = sv_db s'" for s'
    by (simp add: notify_offline_def sv_db_def)
  with 2 show ?case
    by (simp add: Let_def offline)
qed simp

lemma offline_keeps: "Q (sv_db s) \<Longrightarrow> Q (sv_db (snd (offline_tick_once io var s)))"
proof -
  assume q: "Q (sv_db s)"
  obtain x s1 where m: "mark_offline io (env_secs var 120 10) (stale_nodes (sv_db s) (env_secs var 120 10)) [] s = (x, s1)" by fastforce
  with mark_offline_keeps [OF q] have "Q (sv_db s1)" by (metis snd_conv)
  with q m show ?thesis
    by (auto simp: offline_tick_once_def Let_def split: list.split sum.split prod.splits)
qed

lemma retention_keeps: "Q db \<Longrightarrow> Q (snd (retention_tick_once io f g db))"
  by (simp add: retention_tick_once_def Let_def trimmed split: prod.split sum.split)

lemma credentials_keep: "Q (pn_db p) \<Longrightarrow> Q (pn_db (snd (dispatch_tunnel_credentials pe io t p)))"
proof -
  assume q: "Q (pn_db p)"
  obtain ok p1 where s: "send_credentials pe (tu_id t) (list_for_tunnel (pn_db p) (tu_id t)) p = (ok, p1)" by fastforce
  then have "pn_db p1 = pn_db p"
    using send_credentials_outcome [of pe "tu_id t" "list_for_tunnel (pn_db p) (tu_id t)" p] by simp
  with s q show ?thesis
    by (cases ok) (simp_all add: dispatch_tunnel_credentials_def rotated)
qed

lemma rotate_keeps: "Q (pn_db p) \<Longrightarrow> Q (pn_db (snd (rotate_credentials_and_restart pe io t p)))"
proof -
  assume q: "Q (pn_db p)"
  obtain x p1 where d: "dispatch_tunnel_credentials pe io t p = (x, p1)" by fastforce
  with credentials_keep [OF q, of pe io t] have "Q (pn_db p1)" by simp
  with d show ?thesis
    by (cases x) (simp_all add: rotate_credentials_and_restart_def restart_each_db)
qed

lemma rotate_each_keeps: "Q (pn_db p) \<Longrightarrow> Q (pn_db (snd (rotate_each pe io after ts n p)))"
proof (induction pe io after ts n p rule: rotate_each.induct)
  case (2 pe io after tid rest n p)
  show ?case
  proof (cases "io (''find_tunnel '' @ show_int tid) \<or> find_tunnel (pn_db p) tid = None")
    case True
    with 2 show ?thesis by auto
  next
    case False
    then obtain t where t: "find_tunnel (pn_db p) tid = Some t" by auto
    obtain x p1 where r: "rotate_credentials_and_restart pe io t p = (x, p1)" by fastforce
    with rotate_keeps [OF "2.prems", of pe io t] have q: "Q (pn_db p1)" by simp
    have l: "Q (pn_db (record_plain io a b c d e f g p1))" for a b c d e f g
      using audit [OF q] q by (simp add: record_plain_def record_with_ip_def)
    show ?thesis
      using False t r q l "2.IH" by (cases x) auto
  qed
qed simp

lemma rotation_keeps: "Q (pn_db p) \<Longrightarrow> Q (pn_db (snd (rotate_tick_once pe io var p)))"
  by (simp add: rotate_tick_once_def rotate_each_keeps Let_def)

end

section \<open>The panel as a whole\<close>

lemma panel_inv_split:
  assumes "panel_inv db" "rules_inv db \<Longrightarrow> rules_inv db'" "users_inv db \<Longrightarrow> users_inv db'" "tunnels_inv db \<Longrightarrow> tunnels_inv db'"
    "nodes_inv db \<Longrightarrow> nodes_inv db'" "refs_ok db \<Longrightarrow> refs_ok db'"
  shows "panel_inv db'"
  using assms by (simp add: panel_inv_def)

lemma rules_inv_cong: "db_rules d = db_rules e \<Longrightarrow> db_next_rule d = db_next_rule e \<Longrightarrow> rules_inv d = rules_inv e"
  by (simp add: rules_inv_def rules_wf_def bindings_ok_def)

text \<open>Everything that is read of a database by the invariant.\<close>

lemma panel_inv_same:
  assumes "panel_inv d" "db_rules e = db_rules d" "db_next_rule e = db_next_rule d" "db_users e = db_users d"
    "db_next_user e = db_next_user d" "db_tunnels e = db_tunnels d" "db_next_tunnel e = db_next_tunnel d" "db_hops e = db_hops d"
    "db_nodes e = db_nodes d" "db_next_node e = db_next_node d"
  shows "panel_inv e"
  using assms rules_inv_cong [of e d] users_inv_cong [of e d] tunnels_inv_cong [of e d] nodes_inv_cong [of e d] refs_ok_cong [of e d]
  by (simp add: panel_inv_def)

text \<open>A change of rows of nodes that keeps what the invariant reads, and the same for rules and for users.\<close>

lemma panel_inv_nodes:
  assumes "panel_inv db" "\<And>n. nd_id (f n) = nd_id n" "\<And>n. nd_name (f n) = nd_name n" "\<And>n. nd_deleted (f n) = nd_deleted n"
    "\<And>n. node_ok n \<Longrightarrow> node_ok (f n)"
  shows "panel_inv (change_nodes P f db)"
proof (rule panel_inv_split [OF assms(1)])
  show "nodes_inv db \<Longrightarrow> nodes_inv (change_nodes P f db)"
    by (rule nodes_inv_change) (simp_all add: assms)
  show "refs_ok db \<Longrightarrow> refs_ok (change_nodes P f db)"
    by (rule refs_ok_nodes) (simp_all add: assms)
qed (simp_all add: change_nodes_def rules_inv_def rules_wf_def bindings_ok_def users_inv_def tunnels_inv_def)

lemma panel_inv_rules:
  assumes "panel_inv db" "tame f" "stays f"
  shows "panel_inv (change_rules P f db)"
proof (rule panel_inv_split [OF assms(1)])
  show "rules_inv db \<Longrightarrow> rules_inv (change_rules P f db)"
    by (rule rules_inv_tame [OF _ assms(2)])
  show "refs_ok db \<Longrightarrow> refs_ok (change_rules P f db)"
    by (rule refs_ok_rules [OF _ assms(3)])
qed (simp_all add: change_rules_def users_inv_def tunnels_inv_def nodes_inv_def)

lemma panel_inv_users:
  assumes "panel_inv db" "\<And>u. us_id (f u) = us_id u" "\<And>u. us_username (f u) = us_username u"
    "\<And>u. us_deleted (f u) = us_deleted u" "\<And>u. us_role (f u) = us_role u"
  shows "panel_inv (change_users P f db)"
proof (rule panel_inv_split [OF assms(1)])
  show "users_inv db \<Longrightarrow> users_inv (change_users P f db)"
    by (rule users_inv_tame) (simp_all add: assms)
  show "refs_ok db \<Longrightarrow> refs_ok (change_users P f db)"
    using refs_ok_cong [of "change_users P f db" db] by (simp add: change_users_def)
qed (simp_all add: change_users_def rules_inv_def rules_wf_def bindings_ok_def tunnels_inv_def nodes_inv_def)

lemma panel_inv_deleted_node:
  assumes "panel_inv db" "node_unused db i"
  shows "panel_inv (change_nodes (live_node i) (\<lambda>r. r\<lparr>nd_deleted := True\<rparr>) db)"
proof (rule panel_inv_split [OF assms(1)])
  let ?d = "change_nodes (live_node i) (\<lambda>r. r\<lparr>nd_deleted := True\<rparr>) db"
  show "nodes_inv db \<Longrightarrow> nodes_inv ?d"
    by (rule nodes_inv_statements)
  have alive: "node_alive ?d n" if "node_alive db n" "n \<noteq> i" for n
  proof -
    obtain m where "m \<in> set (db_nodes db)" "live_node n m"
      using \<open>node_alive db n\<close> by (auto simp: node_alive_def list_ex_iff)
    with that(2) show ?thesis
      by (auto simp: node_alive_def change_nodes_def list_ex_iff live_node_def intro!: rev_image_eqI bexI [of _ m])
  qed
  have rows: "db_rules ?d = db_rules db" "db_hops ?d = db_hops db"
    by (simp_all add: change_nodes_def)
  have hops: "hp_node_id h \<noteq> i" if h: "h \<in> set (db_hops db)" for h
  proof -
    obtain t where "t \<in> set (db_tunnels db)" "live_tunnel (hp_tunnel_id h) t"
      using assms(1) h by (auto simp: panel_inv_def tunnels_inv_def list_ex_iff)
    with assms(2) h show ?thesis
      by (auto simp: node_unused_def node_in_active_tunnel_def list_ex_iff live_tunnel_def)
  qed
  show "refs_ok db \<Longrightarrow> refs_ok ?d"
    unfolding refs_ok_def rows
  proof (intro conjI ballI impI, goal_cases)
    case (1 r)
    then have p: "rule_placed db r" "dr_node_id r \<noteq> i"
      using assms(2) by (auto simp: node_unused_def)
    then show ?case
      using alive by (auto simp: rule_placed_def rows split: option.splits)
  next
    case (2 h)
    with alive hops show ?case by blast
  qed
qed (simp_all add: change_nodes_def rules_inv_def rules_wf_def bindings_ok_def users_inv_def tunnels_inv_def)

interpretation panel_state: panel_calls ev panel_inv
proof unfold_locales
  fix db a
  assume "panel_inv db"
  then show "panel_inv (db\<lparr>db_audit := a\<rparr>)"
    by (rule panel_inv_same) simp_all
next
  fix db p l v
  assume "panel_inv db"
  then show "panel_inv (change_nodes p (\<lambda>r. r\<lparr>nd_status := ''online'', nd_last_seen := l, nd_agent_version := v\<rparr>) db)"
    by (rule panel_inv_nodes) (simp_all add: node_ok_def node_checks_def)
next
  fix db p c m w x y l
  assume "panel_inv db"
  then show "panel_inv (change_nodes p (\<lambda>r. r\<lparr>nd_cpu_usage := c, nd_memory_usage := m, nd_load_average := w,
       nd_has_ipv4 := capability x (nd_has_ipv4 r), nd_has_ipv6 := capability y (nd_has_ipv6 r),
       nd_status := ''online'', nd_last_seen := l\<rparr>) db)"
    by (rule panel_inv_nodes) (simp_all add: node_ok_def node_checks_def)
next
  fix db io n nb
  assume i: "panel_inv db"
  have "panel_inv (db\<lparr>db_node_stats := z\<rparr>)" for z
    by (rule panel_inv_same [OF i]) simp_all
  then show "panel_inv (snd (put_node_bucket ev io n nb db))"
    using i by (auto simp: put_node_bucket_def node_ok_def node_checks_def intro!: panel_inv_nodes)
next
  fix db io n rb
  assume i: "panel_inv db"
  have "panel_inv ((change_rules p (\<lambda>r. r\<lparr>dr_rx := a r, dr_tx := b r, dr_conn := c r\<rparr>) db)\<lparr>db_rule_stats := z\<rparr>)"
    for p a b c z
    by (rule panel_inv_same [OF panel_inv_rules [OF i, where f = "\<lambda>r. r\<lparr>dr_rx := a r, dr_tx := b r, dr_conn := c r\<rparr>" and P = p]])
      (simp_all add: tame_def rule_checks_def stays_def)
  then show "panel_inv (snd (put_rule_bucket ev io n rb db))"
    using i by (simp add: put_rule_bucket_def Let_def)
next
  fix db i serial fp
  assume "panel_inv db"
  then show "panel_inv (set_cert_meta i serial fp db)"
    unfolding set_cert_meta_def by (rule panel_inv_nodes) (simp_all add: node_ok_def node_checks_def)
next
  fix db p
  assume "panel_inv db"
  then show "panel_inv (change_rules p (\<lambda>r. r\<lparr>dr_enabled := 0\<rparr>) db)"
    by (rule panel_inv_rules) (simp_all add: tame_def rule_checks_def stays_def)
next
  fix db q
  assume "panel_inv db"
  then show "panel_inv (change_nodes q (\<lambda>n. n\<lparr>nd_status := ''offline''\<rparr>) db)"
    by (rule panel_inv_nodes) (simp_all add: node_ok_def node_checks_def)
next
  fix pan :: panel and i
  assume "panel_inv (pn_db pan)"
  then show "panel_inv (pn_db (mark_rotated i pan))"
    by (rule panel_inv_split)
      (simp_all add: mark_rotated_inv tunnel_rows_refs, simp_all add: mark_rotated_def rules_inv_def rules_wf_def bindings_ok_def users_inv_def nodes_inv_def)
qed (auto intro: panel_inv_deleted_node panel_inv_users panel_inv_same)

section \<open>Runs of the panel\<close>

text \<open>What the panel is given from outside, and one event: a call of somebody, a call of an agent or a tick of a sweep.\<close>

record panel_world =
  pw_routes :: route_env
  pw_users :: user_env
  pw_nodes :: node_env
  pw_auth :: auth_env
  pw_service :: service_env
  pw_calendar :: calendar

datatype panel_event =
    Rules_Event api_call
  | Users_Event user_call
  | Tunnels_Event tunnel_call
  | Add_Node query_faults claims string create_node_request
  | Change_Node query_faults claims string int update_node_request
  | Upgrade_Node query_faults claims string int
  | Password_Event query_faults claims string string string
  | Import_Event query_faults claims string import_query "rule_export_item list"
  | Agent_Event server_event
  | Quota_Sweep query_faults int
  | Expiry_Sweep query_faults
  | Offline_Sweep query_faults "string option"
  | Retention_Sweep query_faults "nat \<Rightarrow> bool" "nat \<Rightarrow> bool"
  | Rotation_Sweep query_faults "string option"

definition on_panel :: "(panel \<Rightarrow> panel) \<Rightarrow> server \<Rightarrow> server" where
  "on_panel f s = s\<lparr>sv_panel := f (sv_panel s)\<rparr>"

fun panel_step :: "panel_world \<Rightarrow> server \<Rightarrow> panel_event \<Rightarrow> server" where
  "panel_step pw s (Rules_Event c) = on_panel (\<lambda>p. api_step (pw_routes pw) p c) s"
| "panel_step pw s (Users_Event c) = on_panel (\<lambda>p. user_step (pw_users pw) p c) s"
| "panel_step pw s (Tunnels_Event c) = on_panel (\<lambda>p. tunnel_step (pw_routes pw) p c) s"
| "panel_step pw s (Add_Node io auth ip req) = on_panel (\<lambda>p. snd (create_node (pw_nodes pw) io auth ip req p)) s"
| "panel_step pw s (Change_Node io auth ip i req) = on_panel (\<lambda>p. snd (update_node (re_panel (pw_routes pw)) io auth ip i req p)) s"
| "panel_step pw s (Upgrade_Node io auth ip i) = on_panel (\<lambda>p. snd (upgrade_agent_handler (pw_nodes pw) io auth ip i p)) s"
| "panel_step pw s (Password_Event io auth ip old new) = on_panel (\<lambda>p. snd (change_password (pw_auth pw) io auth ip old new p)) s"
| "panel_step pw s (Import_Event io auth ip q items) = on_panel (\<lambda>p. snd (import_rules (pw_routes pw) io auth ip q items p)) s"
| "panel_step pw s (Agent_Event e) = server_step (pw_service pw) s e"
| "panel_step pw s (Quota_Sweep io now) = snd (quota_tick_once (pw_calendar pw) (re_panel (pw_routes pw)) io now s)"
| "panel_step pw s (Expiry_Sweep io) = snd (expiry_tick_once (re_panel (pw_routes pw)) io s)"
| "panel_step pw s (Offline_Sweep io var) = snd (offline_tick_once io var s)"
| "panel_step pw s (Retention_Sweep io f g) = on_panel (\<lambda>p. p\<lparr>pn_db := snd (retention_tick_once io f g (pn_db p))\<rparr>) s"
| "panel_step pw s (Rotation_Sweep io var) = on_panel (\<lambda>p. snd (rotate_tick_once (re_panel (pw_routes pw)) io var p)) s"

lemma beside_own:
  "beside_rules d = beside_rules e \<Longrightarrow> users_inv d = users_inv e" "beside_rules d = beside_rules e \<Longrightarrow> tunnels_inv d = tunnels_inv e"
  "beside_rules d = beside_rules e \<Longrightarrow> nodes_inv d = nodes_inv e"
  "beside_users d = beside_users e \<Longrightarrow> rules_inv d = rules_inv e" "beside_users d = beside_users e \<Longrightarrow> tunnels_inv d = tunnels_inv e"
  "beside_users d = beside_users e \<Longrightarrow> nodes_inv d = nodes_inv e" "beside_users d = beside_users e \<Longrightarrow> refs_ok d = refs_ok e"
  "beside_tunnels d = beside_tunnels e \<Longrightarrow> rules_inv d = rules_inv e" "beside_tunnels d = beside_tunnels e \<Longrightarrow> users_inv d = users_inv e"
  "beside_tunnels d = beside_tunnels e \<Longrightarrow> nodes_inv d = nodes_inv e"
  "beside_nodes d = beside_nodes e \<Longrightarrow> rules_inv d = rules_inv e" "beside_nodes d = beside_nodes e \<Longrightarrow> users_inv d = users_inv e"
  "beside_nodes d = beside_nodes e \<Longrightarrow> tunnels_inv d = tunnels_inv e"
  using rules_inv_cong [of d e] users_inv_cong [of d e] tunnels_inv_cong [of d e] nodes_inv_cong [of d e] refs_ok_cong [of d e]
  by (simp_all add: beside_defs)

text \<open>A handler keeps the invariant: its own part, what it leaves alone, and the references.\<close>

lemma panel_of_rules:
  assumes "keepsA panel_ok m" "framed beside_rules m" "keepsA (\<lambda>p. refs_ok (pn_db p)) m"
  shows "panel_inv (pn_db p) \<Longrightarrow> panel_inv (pn_db (snd (m p)))"
  using assms beside_own(1-3) [of "pn_db (snd (m p))" "pn_db p"] by (simp add: panel_inv_def keepsA_def framed_def panel_ok_def)

lemma panel_of_users:
  assumes "keepsA (\<lambda>p. users_inv (pn_db p)) m" "framed beside_users m"
  shows "panel_inv (pn_db p) \<Longrightarrow> panel_inv (pn_db (snd (m p)))"
  using assms beside_own(4-7) [of "pn_db (snd (m p))" "pn_db p"] by (simp add: panel_inv_def keepsA_def framed_def)

lemma panel_of_tunnels:
  assumes "keepsA (\<lambda>p. tunnels_inv (pn_db p)) m" "framed beside_tunnels m" "keepsA (\<lambda>p. refs_ok (pn_db p)) m"
  shows "panel_inv (pn_db p) \<Longrightarrow> panel_inv (pn_db (snd (m p)))"
  using assms beside_own(8-10) [of "pn_db (snd (m p))" "pn_db p"] by (simp add: panel_inv_def keepsA_def framed_def)

lemma panel_of_nodes:
  assumes "keepsA (\<lambda>p. nodes_inv (pn_db p)) m" "framed beside_nodes m" "keepsA (\<lambda>p. refs_ok (pn_db p)) m"
  shows "panel_inv (pn_db p) \<Longrightarrow> panel_inv (pn_db (snd (m p)))"
  using assms beside_own(11-13) [of "pn_db (snd (m p))" "pn_db p"] by (simp add: panel_inv_def keepsA_def framed_def)

lemma rules_event: "panel_inv (pn_db p) \<Longrightarrow> panel_inv (pn_db (api_step re p c))"
proof (cases "ac_call c")
  case (Create req)
  then show "panel_inv (pn_db p) \<Longrightarrow> panel_inv (pn_db (api_step re p c))"
    by (simp add: api_step_def panel_of_rules create_keeps rules_frame create_rule_refs)
next
  case (Restart i)
  then show "panel_inv (pn_db p) \<Longrightarrow> panel_inv (pn_db (api_step re p c))"
    by (simp add: api_step_def panel_of_rules restart_keeps rules_frame other_rules_refs)
qed (simp_all add: api_step_def enable_rule_def disable_rule_def panel_of_rules update_keeps delete_keeps set_enabled_keeps read_keeps
    rules_frame other_rules_refs)

lemma users_event: "panel_inv (pn_db p) \<Longrightarrow> panel_inv (pn_db (user_step ue p c))"
  by (cases c) (simp_all add: panel_of_users create_user_keeps update_user_keeps delete_user_keeps users_frame)

lemma tunnels_event: "panel_inv (pn_db p) \<Longrightarrow> panel_inv (pn_db (tunnel_step re p c))"
  by (cases c) (simp_all add: panel_of_tunnels create_tunnel_keeps tunnel_handlers_keep tunnel_readers_keep tunnels_frame
      create_tunnel_refs delete_tunnel_refs other_tunnels_refs)

lemma nodes_event:
  "panel_inv (pn_db p) \<Longrightarrow> panel_inv (pn_db (snd (create_node ne io auth ip creq p)))"
  "panel_inv (pn_db p) \<Longrightarrow> panel_inv (pn_db (snd (update_node pe io auth ip i req p)))"
  "panel_inv (pn_db p) \<Longrightarrow> panel_inv (pn_db (snd (upgrade_agent_handler ne io auth ip i p)))"
  by (simp_all add: panel_of_nodes create_node_keeps update_node_keeps upgrade_agent_keeps nodes_frame nodes_refs)

lemma password_event: "panel_inv (pn_db p) \<Longrightarrow> panel_inv (pn_db (snd (change_password ae io auth ip old new p)))"
proof (rule panel_of_users)
  have w: "keepsA (\<lambda>p. users_inv (pn_db p)) (write_db io q c (change_password_self i h))" for q c i h
    by (rule keepsA_write) (auto simp: change_password_self_def update_user_row_def intro!: users_inv_tame)
  show "keepsA (\<lambda>p. users_inv (pn_db p)) (change_password ae io auth ip old new)"
    unfolding change_password_def change_password_stored_def by (intro keepsA_bind keepsA_ask keepsA_if accounts_audit w)
  show "framed beside_users (change_password ae io auth ip old new)"
    unfolding change_password_def change_password_stored_def change_password_self_def
    by (intro framed_rules users_writes users_audit)
qed

lemma import_event: "panel_inv (pn_db p) \<Longrightarrow> panel_inv (pn_db (snd (import_rules re io auth ip q items p)))"
  by (rule panel_of_rules [OF import_rules_keeps import_frame import_refs])

lemma panel_step_inv: "panel_inv (sv_db s) \<Longrightarrow> panel_inv (sv_db (panel_step pw s e))"
proof -
  have on: "sv_db (on_panel f s) = pn_db (f (sv_panel s))" for f
    by (simp add: on_panel_def sv_db_def)
  assume i: "panel_inv (sv_db s)"
  then have p: "panel_inv (pn_db (sv_panel s))"
    by (simp add: sv_db_def)
  show ?thesis
    using i panel_state.server_step_keeps panel_state.quota_keeps panel_state.expiry_keeps panel_state.offline_keeps
      panel_state.retention_keeps [OF p] panel_state.rotation_keeps [OF p] rules_event [OF p] users_event [OF p] tunnels_event [OF p]
      nodes_event [OF p] password_event [OF p] import_event [OF p]
    by (cases e) (simp_all add: on)
qed

interpretation panel_runs: invariant_machine "panel_step pw" "\<lambda>s. panel_inv (sv_db s)" for pw
  by unfold_locales (rule panel_step_inv)

section \<open>Properties\<close>

lemma chain_parts_nodes:
  "find_tunnel db t = Some u \<Longrightarrow> fst ` set (tunnel_parts db q t) = hp_node_id ` {h \<in> set (db_hops db). hp_tunnel_id h = t}"
proof -
  assume u: "find_tunnel db t = Some u"
  have "fst ` set (tunnel_parts db q t) = set (map hi_node_id (map (hop_input_of db) (list_for_tunnel db t)))"
    unfolding split_nodes [of "split_input_of q t u", symmetric] using u by (simp add: tunnel_parts_def)
  then show ?thesis
    by (auto simp: list_for_tunnel_def hop_input_of_def)
qed

lemma wanted_of_live:
  assumes "panel_inv db" "r \<in> set (db_rules db)" "\<not> dr_deleted r"
  shows "wanted pe db (dr_node_id r) (dr_id r) \<noteq> None"
    "wanted pe db n (dr_id r) \<noteq> None \<Longrightarrow> node_alive db n"
proof -
  have f: "find_rule db (dr_id r) = Some (select_rule db r)"
    using assms find_ids [of dr_id "db_rules db" r "\<lambda>r. \<not> dr_deleted r"]
    by (simp add: find_rule_def panel_inv_def rules_inv_def rules_wf_def)
  have placed: "rule_placed db r"
    using assms by (simp add: panel_inv_def refs_ok_def)
  show "wanted pe db (dr_node_id r) (dr_id r) \<noteq> None"
  proof (cases "dr_tunnel_id r")
    case None
    with f show ?thesis by (simp add: wanted_def)
  next
    case (Some t)
    then obtain h where h: "h \<in> set (db_hops db)" "hp_tunnel_id h = t" "hp_node_id h = dr_node_id r"
      using placed by (auto simp: rule_placed_def list_ex_iff)
    then have "list_ex (live_tunnel t) (db_tunnels db)"
      using assms(1) by (auto simp: panel_inv_def tunnels_inv_def)
    then obtain u where u: "find_tunnel db t = Some u"
      by (cases "find_tunnel db t") (auto simp: find_tunnel_def find_None_iff list_ex_iff live_tunnel_def)
    have "dr_node_id r \<in> fst ` set (tunnel_parts db (select_rule db r) t)"
      unfolding chain_parts_nodes [OF u] by (rule image_eqI [of _ _ h]) (use h in simp_all)
    with f Some show ?thesis
      by (simp add: wanted_def map_of_eq_None_iff)
  qed
  show "node_alive db n" if w: "wanted pe db n (dr_id r) \<noteq> None"
  proof (cases "dr_tunnel_id r")
    case None
    with f w placed show ?thesis
      by (auto simp: wanted_def rule_placed_def split: if_splits)
  next
    case (Some t)
    with f w have "n \<in> fst ` set (tunnel_parts db (select_rule db r) t)"
      by (simp add: wanted_def map_of_eq_None_iff)
    moreover from this obtain u where "find_tunnel db t = Some u"
      by (cases "find_tunnel db t") (auto simp: tunnel_parts_def)
    ultimately obtain h where "h \<in> set (db_hops db)" "n = hp_node_id h"
      using chain_parts_nodes by blast
    with assms(1) show ?thesis
      by (simp add: panel_inv_def refs_ok_def)
  qed
qed

text \<open>C6. Whatever is done to the panel, in whatever order: calls on rules, accounts, tunnels and nodes, imports, calls of agents, ticks of the
  sweeps, with any statement of the database failing. Every live rule keeps a node to run on: the message the panel would
  send for it exists for its node, every node that should run a part of it is a live row of the table, and the
  tables are what a replay needs to make an agent run exactly its rules: ids are unique, the hops of tunnels are
  in order, and every row of a rule passes the checks of the schema.\<close>

theorem every_rule_has_a_node:
  assumes "panel_inv (sv_db s)" "t = foldl (panel_step pw) s events" "r \<in> set (db_rules (sv_db t))" "\<not> dr_deleted r"
  shows "wanted pe (sv_db t) (dr_node_id r) (dr_id r) \<noteq> None
    \<and> (wanted pe (sv_db t) n (dr_id r) \<noteq> None \<longrightarrow> find_node (sv_db t) n \<noteq> None)
    \<and> rules_wf (sv_db t) \<and> tunnels_wf (sv_db t) \<and> (\<forall>q \<in> set (db_rules (sv_db t)). rule_checks q)"
proof -
  have i: "panel_inv (sv_db t)"
    using panel_runs.run_inv [OF assms(1)] assms(2) by simp
  then have "rules_wf (sv_db t)" "tunnels_wf (sv_db t)" "\<forall>q \<in> set (db_rules (sv_db t)). rule_checks q"
    using tunnels_inv_wf by (auto simp: panel_inv_def rules_inv_def)
  with wanted_of_live [OF i assms(3,4)] show ?thesis
    using node_alive_find [of "sv_db t" n] by blast
qed

text \<open>A small panel: an administrator, an account, two nodes, a tunnel over both and two rules.\<close>

definition small_world :: panel_world where
  "small_world = \<lparr>pw_routes = sample_routes, pw_users = sample_user_env, pw_nodes = sample_nodes_env, pw_auth = sample_auth,
     pw_service = sample_service, pw_calendar = gregorian\<rparr>"

definition small_panel :: server where
  "small_panel = sample_server\<lparr>sv_panel := sample_accounts\<lparr>pn_db := (pn_db sample_accounts)
     \<lparr>db_nodes := [sample_node 1 ''1.1.1.1'', (sample_node 2 ''2.2.2.2'')\<lparr>nd_name := ''m''\<rparr>]\<rparr>\<rparr>\<rparr>"

definition small_day :: "panel_event list" where
  "small_day = [Agent_Event (Delete_Node no_faults sample_admin [] 1), Expiry_Sweep no_faults,
     Rules_Event \<lparr>ac_user = sample_admin, ac_ip = [], ac_faults = no_faults, ac_call = Delete 7\<rparr>,
     Password_Event no_faults sample_admin [] ''w'' ''long enough'']"

lemma small_panel_inv: "panel_inv (sv_db small_panel)"
  by (simp add: panel_inv_def rules_inv_def rules_wf_def bindings_ok_def users_inv_def tunnels_inv_def nodes_inv_def refs_ok_def
      small_panel_def sv_db_def sample_accounts_def sample_db_def sample_rule_def rule_checks_def metered_user_def live_admin_def
      sample_tunnel_def live_tunnel_def hops_ok_def places_ok_def ports_ok_def sample_node_def node_ok_def node_checks_def
      rule_placed_def node_alive_def live_node_def same_listener_def)

lemma small_day_rules:
  "map (\<lambda>r. (dr_id r, dr_deleted r)) (db_rules (sv_db (foldl (panel_step small_world) small_panel small_day))) = [(7, True), (8, False)]"
  unfolding small_day_def foldl_Cons foldl_Nil panel_step.simps by code_simp

lemma every_rule_has_a_node_witness:
  "\<exists>r \<in> set (db_rules (sv_db (foldl (panel_step small_world) small_panel small_day))). dr_id r = 8 \<and> \<not> dr_deleted r
    \<and> wanted sample_env (sv_db (foldl (panel_step small_world) small_panel small_day)) (dr_node_id r) 8 \<noteq> None"
proof -
  let ?t = "foldl (panel_step small_world) small_panel small_day"
  have "(8, False) \<in> set (map (\<lambda>r. (dr_id r, dr_deleted r)) (db_rules (sv_db ?t)))"
    unfolding small_day_rules by simp
  then obtain r where r: "r \<in> set (db_rules (sv_db ?t))" "dr_id r = 8" "\<not> dr_deleted r"
    by auto
  from every_rule_has_a_node [OF small_panel_inv refl r(1,3), of sample_env] r show ?thesis
    by (intro bexI [of _ r]) simp_all
qed

end
