(* ===== verification/Rules_Io_Props.thy ===== *)
theory Rules_Io_Props
  imports Panel_Inv
begin

text \<open>
  What an import does: the steps of one item, that the preview of a list without overlapping items is exact, and that
  exporting the rules of a node and importing them on another one moves the service.
\<close>

section \<open>One item\<close>

text \<open>The row an import creates for an item.\<close>

definition imported_row ::
    "int \<Rightarrow> int \<Rightarrow> rule_export_item \<Rightarrow> int \<Rightarrow> int option \<Rightarrow> string option \<Rightarrow> string \<Rightarrow> db_rule" where
  "imported_row i owner item node profile extra strat =
     \<lparr>dr_id = i, dr_user_id = owner, dr_node_id = node, dr_name = trim (ei_name item), dr_protocol = ei_protocol item,
      dr_listen_ip = ei_listen_ip item, dr_listen_port = uint (ei_listen_port item),
      dr_target_host = trim (ei_target_host item), dr_target_port = uint (ei_target_port item),
      dr_enabled = (if ei_enabled item then 1 else 0), dr_rx = 0, dr_tx = 0, dr_conn = 0, dr_profile_id = profile,
      dr_bandwidth_mbps = None, dr_tunnel_id = None, dr_max_connections = None, dr_extra_targets = extra,
      dr_lb_strategy = strat, dr_send_proxy = 0, dr_remote_af = ei_remote_af item, dr_deleted = False\<rparr>"

definition names_of :: "panel_db \<Rightarrow> node_row list \<times> user_row list \<times> profile_row list" where
  "names_of db = (db_nodes db, db_users db, db_profiles db)"

text \<open>What tells a rule apart for the queries of an import.\<close>

definition key_of :: "db_rule \<Rightarrow> int \<times> int \<times> string \<times> int \<times> string \<times> bool" where
  "key_of r = (dr_id r, dr_node_id r, dr_listen_ip r, dr_listen_port r, dr_protocol r, dr_deleted r)"

definition keys :: "panel_db \<Rightarrow> (int \<times> int \<times> string \<times> int \<times> string \<times> bool) list" where
  "keys db = map key_of (db_rules db)"

fun key_matches :: "int \<Rightarrow> rule_export_item \<Rightarrow> string list \<Rightarrow> int \<times> int \<times> string \<times> int \<times> string \<times> bool \<Rightarrow> bool" where
  "key_matches node item protos (i, n, a, q, proto, gone) =
     (n = node \<and> a = ei_listen_ip item \<and> q = uint (ei_listen_port item) \<and> proto \<in> set protos \<and> \<not> gone)"

lemma bound_rules_keys: "map dr_id (bound_rules db node item protos) = map fst (filter (key_matches node item protos) (keys db))"
proof -
  have "map dr_id (filter (\<lambda>r. dr_node_id r = node \<and> dr_listen_ip r = ei_listen_ip item \<and> dr_listen_port r = uint (ei_listen_port item)
      \<and> dr_protocol r \<in> set protos \<and> \<not> dr_deleted r) rs) = map fst (filter (key_matches node item protos) (map key_of rs))" for rs
    by (induction rs) (auto simp: key_of_def)
  then show ?thesis
    by (simp add: bound_rules_def keys_def)
qed

text \<open>Two databases in which the item meets the same rules.\<close>

definition same_bound :: "panel_db \<Rightarrow> panel_db \<Rightarrow> int \<Rightarrow> rule_export_item \<Rightarrow> bool" where
  "same_bound d e node item =
     (map dr_id (bound_rules d node item [ei_protocol item]) = map dr_id (bound_rules e node item [ei_protocol item])
      \<and> map dr_id (bound_rules d node item (mutex_conflicts (ei_protocol item)))
        = map dr_id (bound_rules e node item (mutex_conflicts (ei_protocol item))))"

lemma plan_binding_cong:
  assumes "same_bound d e node item"
  shows "plan_binding io strategy d item node profile owner t = plan_binding io strategy e item node profile owner t"
proof -
  have b: "(case rs of r # _ \<Rightarrow> Inr (if strategy = ''overwrite'' then Plan_Overwrite (dr_id r) node profile (fst t) (snd t) else Plan_Skip) | [] \<Rightarrow> z)
      = (case map dr_id rs of i # _ \<Rightarrow> Inr (if strategy = ''overwrite'' then Plan_Overwrite i node profile (fst t) (snd t) else Plan_Skip) | [] \<Rightarrow> z)"
    for rs and z :: "api_error + planned_action"
    by (cases rs) simp_all
  have "(bound_rules d node item (mutex_conflicts (ei_protocol item)) \<noteq> []) = (bound_rules e node item (mutex_conflicts (ei_protocol item)) \<noteq> [])"
    using assms unfolding same_bound_def by (metis map_is_Nil_conv)
  with assms show ?thesis
    unfolding plan_binding_def b by (simp add: same_bound_def read_db_def bindR_def split: list.split)
qed

lemma plan_item_cong:
  assumes "names_of d = names_of e"
    "\<And>n. item_refusal item = None \<Longrightarrow> lands target item e = Some n \<Longrightarrow> same_bound d e (nd_id n) item"
  shows "plan_item re io strategy reserved target item d = plan_item re io strategy reserved target item e"
proof -
  have n: "find_node_by_name d = find_node_by_name e" "plan_profile io d item = plan_profile io e item"
    "plan_owner io d item = plan_owner io e item"
    using assms(1) by (auto simp: names_of_def find_node_by_name_def plan_profile_def plan_owner_def find_by_username_def)
  have a: "plan_at_node re io strategy reserved d item n = plan_at_node re io strategy reserved e item n"
    if "item_refusal item = None" "lands target item e = Some n" for n
    unfolding plan_at_node_def n plan_binding_cong [OF assms(2) [OF that]] ..
  show ?thesis
    using a by (auto simp: plan_item_def n lands_def read_db_def bindR_def split: option.split)
qed

text \<open>With all queries answered, every item gets a plan.\<close>

lemma validate_targets_error: "validate_targets re extra strat admin = Inl e \<Longrightarrow> \<exists>msg. e = Bad_Request msg"
proof -
  have c: "check_each f xs = Inl e \<Longrightarrow> \<exists>x. f x = Inl e" for f :: "'a \<Rightarrow> api_error + unit" and xs e
    by (induction xs) (auto simp: bindR_def split: sum.splits)
  show "validate_targets re extra strat admin = Inl e \<Longrightarrow> \<exists>msg. e = Bad_Request msg"
    by (auto simp: validate_targets_def Let_def bindR_def reject_if_def split: if_splits sum.splits dest!: c)
qed

lemma plan_item_total:
  obtains plan where "plan_item re no_faults strategy reserved target item db = Inr plan"
proof -
  obtain x where x: "plan_targets re item = Inr x"
    using validate_targets_error [of re "ei_extra_targets item" "Some (ei_lb_strategy item)" True]
    by (cases "validate_targets re (ei_extra_targets item) (Some (ei_lb_strategy item)) True") (auto simp: plan_targets_def)
  have b: "\<exists>plan. plan_binding no_faults strategy db item n pr ow t = Inr plan" for n pr ow t
    by (simp add: plan_binding_def read_db_def bindR_def split: list.split)
  have "\<exists>plan. plan_at_node re no_faults strategy reserved db item n = Inr plan" for n
    using b by (cases x) (auto simp: plan_at_node_def Let_def plan_profile_def plan_owner_def read_db_def bindR_def x)
  then have "\<exists>plan. plan_item re no_faults strategy reserved target item db = Inr plan"
    by (simp add: plan_item_def read_db_def bindR_def split: option.split)
  with that show thesis by blast
qed

lemma item_io_none [simp]: "item_io no_faults k = no_faults"
  by (simp add: item_io_def fun_eq_iff)

text \<open>A planned creation succeeds, and appends the row.\<close>

definition rows_known :: "panel_db \<Rightarrow> bool" where
  "rows_known db = (\<forall>r \<in> set (db_rules db). list_ex (\<lambda>u. us_id u = dr_user_id r) (db_users db)
     \<and> list_ex (\<lambda>n. nd_id n = dr_node_id r) (db_nodes db))"

lemma item_ports:
  assumes "item_refusal item = None"
  shows "ei_protocol item \<in> {''tcp'', ''udp'', ''tcp_udp''}" "1 \<le> uint (ei_listen_port item)" "uint (ei_listen_port item) \<le> 65535"
proof -
  have "ei_listen_port item \<noteq> 0"
    using assms by (auto simp: item_refusal_def split: if_splits)
  then have "uint (ei_listen_port item) \<noteq> 0" by (simp add: uint_0_iff)
  moreover have "0 \<le> uint (ei_listen_port item)" "uint (ei_listen_port item) < 65536"
    using uint_bounded [of "ei_listen_port item"] by simp_all
  ultimately show "1 \<le> uint (ei_listen_port item)" "uint (ei_listen_port item) \<le> 65535"
    by linarith+
  show "ei_protocol item \<in> {''tcp'', ''udp'', ''tcp_udp''}"
    using assms by (auto simp: item_refusal_def split: if_splits)
qed

lemma unbound_binding:
  assumes "bound_rules db node item [ei_protocol item] = []" "x \<in> set (db_rules db)" "\<not> dr_deleted x"
    "dr_node_id r = node" "dr_listen_ip r = ei_listen_ip item" "dr_listen_port r = uint (ei_listen_port item)" "dr_protocol r = ei_protocol item"
  shows "\<not> same_binding x r"
  using assms by (auto simp: bound_rules_def filter_empty_conv same_binding_def)

lemma create_step:
  assumes "rules_wf (pn_db p)" "item_refusal item = None" "bound_rules (pn_db p) node item [ei_protocol item] = []"
    "list_ex (\<lambda>u. us_id u = owner) (db_users (pn_db p))" "list_ex (\<lambda>n. nd_id n = node) (db_nodes (pn_db p))"
  obtains q where "execute_create re no_faults owner item node profile extra strat p = (Inr (), q)"
    "db_rules (pn_db q) = db_rules (pn_db p) @ [imported_row (db_next_rule (pn_db p)) owner item node profile extra strat]"
    "db_next_rule (pn_db q) = db_next_rule (pn_db p) + 1" "names_of (pn_db q) = names_of (pn_db p)"
proof -
  let ?i = "db_next_rule (pn_db p)"
  let ?r = "(imported_row ?i owner item node profile None ''fifo'')\<lparr>dr_enabled := 1\<rparr>"
  let ?db = "(pn_db p)\<lparr>db_rules := db_rules (pn_db p) @ [?r], db_next_rule := ?i + 1\<rparr>"
  have c: "rule_constraints (pn_db p) ?r = None"
    using item_ports [OF assms(2)] refused_port [OF assms(2)] assms(4,5) unbound_binding [OF assms(3), of _ ?r]
    by (auto simp: rule_constraints_def rule_checks_def imported_row_def list_ex_iff)
  have ins: "insert_rule owner node (trim (ei_name item)) (ei_protocol item) (ei_listen_ip item) (uint (ei_listen_port item))
      (trim (ei_target_host item)) (uint (ei_target_port item)) profile None None (ei_remote_af item) (pn_db p) = (Inr ?i, ?db)"
    using c by (simp add: insert_rule_def imported_row_def Let_def)
  have old: "\<forall>x \<in> set (db_rules (pn_db p)). dr_id x \<noteq> ?i"
    using assms(1) by (auto simp: rules_wf_def)
  let ?db2 = "if extra \<noteq> None \<or> strat \<noteq> ''fifo'' then set_targets ?i extra strat ?db else ?db"
  let ?db3 = "if ei_enabled item then ?db2 else snd (set_enabled ?i False ?db2)"
  have "\<exists>q. execute_create re no_faults owner item node profile extra strat p = (Inr (), q) \<and> pn_db q = ?db3"
    by (auto simp: execute_create_def bindA_def write_db_def update_db_def ins read_db_def split: option.split)
  then obtain q where q: "execute_create re no_faults owner item node profile extra strat p = (Inr (), q)" "pn_db q = ?db3"
    by blast
  have d2: "db_rules ?db2 = db_rules (pn_db p) @ [(imported_row ?i owner item node profile extra strat)\<lparr>dr_enabled := 1\<rparr>]"
    using old by (auto simp: set_targets_def imported_row_def live_id_def change_last)
  have "db_rules ?db3 = db_rules (pn_db p) @ [imported_row ?i owner item node profile extra strat]"
    using d2 old by (auto simp: set_enabled_def imported_row_def live_id_def change_last)
  moreover have "db_next_rule ?db3 = ?i + 1" "names_of ?db3 = names_of (pn_db p)"
    by (simp_all add: set_targets_def set_enabled_def names_of_def)
  ultimately show thesis
    using that [OF q(1)] q(2) by simp
qed

text \<open>So does a planned overwrite; the bindings and the owners stay.\<close>

lemma keys_change: "(\<And>r. key_of (f r) = key_of r) \<Longrightarrow> keys (change_rules P f db) = keys db"
  by (simp add: keys_def change_rules_def o_def)

lemma rows_known_change:
  "rows_known db \<Longrightarrow> (\<And>r. dr_user_id (f r) = dr_user_id r \<and> dr_node_id (f r) = dr_node_id r) \<Longrightarrow> rows_known (change_rules P f db)"
  by (auto simp: rows_known_def set_change_rules)

lemma overwrite_fields:
  assumes "rules_inv db" "rows_known db" "item_refusal item = None"
  shows "\<exists>n. update_fields i (Some name) None None (Some host) (Some (uint (ei_target_port item))) pr None db
    = (Inr n, change_rules (live_id i) (patched (Some name) None None (Some host) (Some (uint (ei_target_port item))) pr None) db)"
proof -
  let ?f = "patched (Some name) None None (Some host) (Some (uint (ei_target_port item))) pr None"
  have "rule_constraints db (?f r) = None" if r: "r \<in> set (db_rules db)" "live_id i r" for r
  proof -
    have "rule_checks (?f r)"
      using assms(1) r(1) tame_patch [of "uint (ei_target_port item)" "Some name" "Some host" pr None] refused_port [OF assms(3)]
      by (auto simp: tame_def rules_inv_def)
    moreover have "\<not> same_binding x (?f r)" if "x \<in> set (db_rules db)" "dr_id x \<noteq> dr_id (?f r)" "\<not> dr_deleted x" for x
      using assms(1) r that by (auto simp: rules_inv_def bindings_ok_def live_id_def patched_def same_binding_def same_listener_def
          protocols_overlap_def coalesce_def)
    moreover have "list_ex (\<lambda>u. us_id u = dr_user_id (?f r)) (db_users db)" "list_ex (\<lambda>n. nd_id n = dr_node_id (?f r)) (db_nodes db)"
      using assms(2) r(1) by (auto simp: rows_known_def patched_def)
    ultimately show ?thesis
      by (auto simp: rule_constraints_def list_ex_iff)
  qed
  then have "List.map_filter (\<lambda>r. rule_constraints db (?f r)) (filter (live_id i) (db_rules db)) = []"
    by (auto simp: map_filter_def filter_empty_conv)
  then show ?thesis
    by (simp add: update_fields_def Let_def)
qed

lemma overwrite_step:
  assumes "rules_inv (pn_db p)" "rows_known (pn_db p)" "item_refusal item = None"
  obtains q where "execute_overwrite re no_faults item i profile extra strat p = (Inr (), q)"
    "keys (pn_db q) = keys (pn_db p)" "names_of (pn_db q) = names_of (pn_db p)" "rows_known (pn_db q)"
proof -
  let ?f = "patched (Some (trim (ei_name item))) None None (Some (trim (ei_target_host item))) (Some (uint (ei_target_port item)))
    (Some (unwrap_or 0 profile)) None"
  let ?db1 = "change_rules (live_id i) ?f (pn_db p)"
  let ?db2 = "snd (set_enabled i (ei_enabled item) ?db1)"
  let ?db3 = "set_targets i extra strat ?db2"
  let ?db4 = "set_remote_af i (ei_remote_af item) ?db3"
  obtain n where u: "update_fields i (Some (trim (ei_name item))) None None (Some (trim (ei_target_host item)))
      (Some (uint (ei_target_port item))) (Some (unwrap_or 0 profile)) None (pn_db p) = (Inr n, ?db1)"
    using overwrite_fields [OF assms] by blast
  have "\<exists>q. execute_overwrite re no_faults item i profile extra strat p = (Inr (), q) \<and> pn_db q = ?db4"
    by (auto simp: execute_overwrite_def bindA_def write_db_def update_db_def u read_db_def split: option.split)
  then obtain q where q: "execute_overwrite re no_faults item i profile extra strat p = (Inr (), q)" "pn_db q = ?db4"
    by blast
  have "keys ?db1 = keys (pn_db p)"
    by (rule keys_change) (simp add: key_of_def patched_def coalesce_def)
  then have "keys ?db4 = keys (pn_db p)"
    by (simp add: set_remote_af_def set_targets_def set_enabled_def keys_change key_of_def)
  moreover have "rows_known ?db1"
    by (rule rows_known_change [OF assms(2)]) (simp add: patched_def)
  then have "rows_known ?db4"
    by (simp add: set_remote_af_def set_targets_def set_enabled_def rows_known_change)
  moreover have "names_of ?db4 = names_of (pn_db p)"
    by (simp add: names_of_def set_remote_af_def set_targets_def set_enabled_def)
  ultimately show thesis
    using that [OF q(1)] q(2) by simp
qed

section \<open>The preview\<close>

text \<open>Two items that never listen on the same address with a common protocol.\<close>

definition apart :: "node_row option \<Rightarrow> rule_export_item \<Rightarrow> rule_export_item \<Rightarrow> bool" where
  "apart target a b =
     (ei_listen_ip a \<noteq> ei_listen_ip b \<or> ei_listen_port a \<noteq> ei_listen_port b \<or> \<not> protocols_overlap (ei_protocol a) (ei_protocol b)
      \<or> (target = None \<and> ei_node_name a \<noteq> ei_node_name b))"

definition unchanged_for :: "node_row option \<Rightarrow> panel_db \<Rightarrow> panel_db \<Rightarrow> rule_export_item \<Rightarrow> bool" where
  "unchanged_for target d e item =
     (\<forall>n. item_refusal item = None \<longrightarrow> lands target item e = Some n \<longrightarrow> same_bound d e (nd_id n) item)"

lemma unchanged_keys:
  "unchanged_for target d e item \<Longrightarrow> keys d' = keys d \<Longrightarrow> unchanged_for target d' e item"
  by (simp add: unchanged_for_def same_bound_def bound_rules_keys)

lemma lands_name:
  assumes "lands None item e = Some n"
  shows "n \<in> set (db_nodes e)" "nd_name n = ei_node_name item"
  using assms find_SomeD [of "\<lambda>n. nd_name n = ei_node_name item \<and> \<not> nd_deleted n" "db_nodes e" n]
  by (auto simp: lands_def find_node_by_name_def)

text \<open>A row created for one item is not met by another one that is apart from it.\<close>

lemma unchanged_created:
  assumes "unchanged_for target d e b" "apart target a b" "distinct (map nd_id (db_nodes e))" "lands target a e = Some m"
    "item_refusal a = None" "keys d' = keys d @ [(i, nd_id m, ei_listen_ip a, uint (ei_listen_port a), ei_protocol a, False)]"
  shows "unchanged_for target d' e b"
  unfolding unchanged_for_def
proof (intro allI impI)
  fix n
  assume b: "item_refusal b = None" "lands target b e = Some n"
  let ?k = "(i, nd_id m, ei_listen_ip a, uint (ei_listen_port a), ei_protocol a, False)"
  have same: "ei_node_name a = ei_node_name b" if "target = None" "nd_id m = nd_id n"
    using lands_name [of a e m] lands_name [of b e n] assms(3,4) b(2) that by (auto simp: distinct_map inj_on_def)
  have "\<not> key_matches (nd_id n) b protos ?k" if "set protos \<subseteq> {x. protocols_overlap x (ei_protocol b)}" for protos
    using assms(2) same that by (auto simp: apart_def word_uint_eq_iff)
  moreover have "set [ei_protocol b] \<subseteq> {x. protocols_overlap x (ei_protocol b)}"
    "set (mutex_conflicts (ei_protocol b)) \<subseteq> {x. protocols_overlap x (ei_protocol b)}"
    using item_ports(1) [OF b(1)] by (auto simp: protocols_overlap_def mutex_conflicts_def)
  ultimately have "\<not> key_matches (nd_id n) b [ei_protocol b] ?k" "\<not> key_matches (nd_id n) b (mutex_conflicts (ei_protocol b)) ?k"
    by blast+
  then show "same_bound d' e (nd_id n) b"
    using assms(1) b by (simp add: unchanged_for_def same_bound_def bound_rules_keys assms(6) del: key_matches.simps)
qed

text \<open>The state of a real import, against the database the preview reads.\<close>

definition import_state :: "node_row option \<Rightarrow> int \<Rightarrow> panel_db \<Rightarrow> rule_export_item list \<Rightarrow> panel_db \<Rightarrow> bool" where
  "import_state target importer e items d =
     (rules_inv d \<and> rows_known d \<and> names_of d = names_of e \<and> distinct (map nd_id (db_nodes e))
      \<and> list_ex (\<lambda>u. us_id u = importer) (db_users e) \<and> (\<forall>n. target = Some n \<longrightarrow> n \<in> set (db_nodes e))
      \<and> sorted_wrt (apart target) items \<and> (\<forall>item \<in> set items. unchanged_for target d e item))"

lemma lands_known: "import_state target importer e items d \<Longrightarrow> lands target item e = Some n \<Longrightarrow> n \<in> set (db_nodes e)"
  using lands_name [of item e n] by (cases target) (auto simp: import_state_def lands_def)

lemma lands_cong: "names_of d = names_of e \<Longrightarrow> lands target item d = lands target item e"
  by (cases target) (simp_all add: lands_def names_of_def find_node_by_name_def)

lemma planned_owner_known:
  assumes "plan_owner io db item = Inr owner" "list_ex (\<lambda>u. us_id u = importer) (db_users db)"
  shows "list_ex (\<lambda>u. us_id u = unwrap_or importer owner) (db_users db)"
proof (cases owner)
  case None
  with assms(2) show ?thesis by simp
next
  case (Some o')
  with assms(1) obtain u where "find_by_username db (the (ei_owner_username item)) = Some u" "us_id u = o'"
    by (auto simp: plan_owner_def dest: sym split: if_splits)
  then show ?thesis
    using Some find_SomeD [of _ "db_users db" u] by (auto simp: find_by_username_def list_ex_iff)
qed

text \<open>One item of a real import that was planned as in the preview.\<close>

lemma real_step:
  assumes "import_state target (cl_sub auth) e (item # rest) (pn_db p)"
    "plan_item re no_faults strategy reserved target item (pn_db p) = Inr plan" "plan' = plan \<or> landing_node plan' = None"
  obtains a r q where "run_item re no_faults auth False item plan' p = (Inr (a, r), q)"
    "\<exists>r'. fst (run_item re no_faults auth True item plan' p') = Inr (a, r')"
    "import_state target (cl_sub auth) e rest (pn_db q)"
    "\<And>node profile owner extra strat. plan' = Plan_Create node profile owner extra strat \<Longrightarrow> a = ''create'' \<and>
       (\<exists>i. db_rules (pn_db q) = db_rules (pn_db p) @ [imported_row i (unwrap_or (cl_sub auth) owner) item node profile extra strat])"
proof -
  note st = assms(1) [unfolded import_state_def]
  have tail: "import_state target (cl_sub auth) e rest (pn_db p)"
    using st by (simp add: import_state_def)
  show thesis
  proof (cases "landing_node plan' = None")
    case True
    with tail show thesis
      by (cases plan') (auto simp: run_item_def intro!: that)
  next
    case False
    with assms(3) have pl: "plan' = plan" by blast
    show thesis
    proof (cases plan)
      case (Plan_Create node profile owner extra strat)
      obtain n where f: "item_refusal item = None" "lands target item (pn_db p) = Some n" "nd_id n = node"
        "bound_rules (pn_db p) node item [ei_protocol item] = []"
        "bound_rules (pn_db p) node item (mutex_conflicts (ei_protocol item)) = []" "plan_owner no_faults (pn_db p) item = Inr owner"
        by (rule plan_create_facts [OF assms(2) [unfolded Plan_Create]]) blast
      have l: "lands target item e = Some n"
        using f(2) st lands_cong [of "pn_db p" e] by simp
      then have "n \<in> set (db_nodes (pn_db p))"
        using lands_known [OF assms(1)] st by (simp add: names_of_def)
      then have known: "list_ex (\<lambda>m. nd_id m = node) (db_nodes (pn_db p))"
        using f(3) by (auto simp: list_ex_iff)
      let ?o = "unwrap_or (cl_sub auth) owner"
      have own: "list_ex (\<lambda>u. us_id u = ?o) (db_users (pn_db p))"
        using planned_owner_known [OF f(6)] st by (simp add: names_of_def)
      obtain q where q: "execute_create re no_faults ?o item node profile extra strat p = (Inr (), q)"
        "db_rules (pn_db q) = db_rules (pn_db p) @ [imported_row (db_next_rule (pn_db p)) ?o item node profile extra strat]"
        "names_of (pn_db q) = names_of (pn_db p)"
        using create_step [OF _ f(1,4) own known] st by (metis rules_inv_def)
      have "rules_inv (pn_db q)"
        using execute_create_rules [of p item node re no_faults ?o profile extra strat] st f(1,5) q(1) by (simp add: panel_ok_def)
      moreover have "rows_known (pn_db q)"
        using st own known q(2,3) by (auto simp: rows_known_def names_of_def imported_row_def)
      moreover have ks: "keys (pn_db q) = keys (pn_db p)
          @ [(db_next_rule (pn_db p), nd_id n, ei_listen_ip item, uint (ei_listen_port item), ei_protocol item, False)]"
        by (simp add: keys_def q(2) key_of_def imported_row_def f(3))
      have "unchanged_for target (pn_db q) e b" if b: "b \<in> set rest" for b
      proof (rule unchanged_created [OF _ _ _ l f(1) ks])
        show "unchanged_for target (pn_db p) e b" "apart target item b" "distinct (map nd_id (db_nodes e))"
          using st b by simp_all
      qed
      ultimately have "import_state target (cl_sub auth) e rest (pn_db q)"
        using st q(3) by (simp add: import_state_def)
      then show thesis
        by (intro that [of "''create''" "owner_note owner (ei_owner_username item)" q])
          (use q(2) in \<open>auto simp: pl Plan_Create run_item_def bind_attempt q(1)\<close>)
    next
      case (Plan_Overwrite i node profile extra strat)
      have f: "item_refusal item = None"
        by (rule plan_overwrite_facts [OF assms(2) [unfolded Plan_Overwrite]]) blast
      obtain q where q: "execute_overwrite re no_faults item i profile extra strat p = (Inr (), q)"
        "keys (pn_db q) = keys (pn_db p)" "names_of (pn_db q) = names_of (pn_db p)" "rows_known (pn_db q)"
        using overwrite_step [OF _ _ f] st by metis
      have "rules_inv (pn_db q)"
        using execute_overwrite_rules [OF f, of re no_faults i profile extra strat] st q(1)
        by (auto simp: keepsA_def panel_ok_def dest: spec [of _ p])
      then have "import_state target (cl_sub auth) e rest (pn_db q)"
        using st q unchanged_keys by (auto simp: import_state_def)
      then show thesis
        by (intro that [of "''overwrite''" "''overwrote rule '' @ show_int i" q])
          (simp_all add: pl Plan_Overwrite run_item_def bind_attempt q(1))
    qed (use False pl in simp_all)
  qed
qed

lemma preview_each:
  assumes "import_state target (cl_sub auth) (pn_db p0) items (pn_db p)"
  shows "\<exists>rs q ds. import_each re no_faults auth strategy False reserved target k seen items p = (Inr rs, q)
    \<and> import_each re no_faults auth strategy True reserved target k seen items p0 = (Inr ds, p0)
    \<and> map ir_action rs = map ir_action ds \<and> length rs = length items"
  using assms
proof (induction items arbitrary: k seen p)
  case (Cons item rest)
  let ?e = "pn_db p0"
  note st = Cons.prems [unfolded import_state_def]
  obtain plan where plan: "plan_item re no_faults strategy reserved target item (pn_db p) = Inr plan"
    by (rule plan_item_total)
  have same: "plan_item re no_faults strategy reserved target item ?e = Inr plan"
    using plan_item_cong [of "pn_db p" ?e item target] st plan by (simp add: unchanged_for_def)
  obtain plan' seen' where c: "check_seen item plan seen = (plan', seen')" by fastforce
  then have "plan' = plan \<or> landing_node plan' = None"
    by (auto simp: check_seen_def Let_def split: option.splits if_splits)
  then obtain a r q r' where s: "run_item re no_faults auth False item plan' p = (Inr (a, r), q)"
    "fst (run_item re no_faults auth True item plan' p0) = Inr (a, r')" "import_state target (cl_sub auth) ?e rest (pn_db q)"
    using real_step [OF Cons.prems plan, of plan' p0] by metis
  have d: "run_item re no_faults auth True item plan' p0 = (Inr (a, r'), p0)"
    using s(2) by (intro prod_eqI) (simp_all add: run_item_state split: planned_action.split)
  from Cons.IH [OF s(3), of "Suc k" seen'] s(1) d plan same c show ?case
    by (auto simp: bindA_def)
qed (simp add: bindA_def)

text \<open>A dry run changes nothing, whatever the database answers.\<close>

lemma dry_each: "snd (import_each re io auth strategy True reserved target k seen items p) = p"
proof (induction items arbitrary: k seen)
  case (Cons item rest)
  have d: "snd (run_item re (item_io io k) auth True item plan p) = p" for plan
    by (simp add: run_item_state split: planned_action.split)
  show ?case
    using Cons.IH d
    by (auto simp: bindA_def split: sum.split prod.split) (metis snd_conv)+
qed simp

lemma target_known: "import_target io t db = Inr target \<Longrightarrow> target = Some n \<Longrightarrow> n \<in> set (db_nodes db)"
  using find_SomeD [of _ "db_nodes db" n] by (auto simp: import_target_def bindR_eq_Inr find_node_def split: option.splits)

text \<open>C8. The preview of an import is exact under these conditions: no statement fails; the caller is an administrator who
  is a row of the users; the strategy is skip, overwrite or left out; the list has at most 1000 items, and the target node, if
  one is given, exists; no two items of the list ask for the same address and port on one node with protocols
  that overlap, where \<^verbatim>\<open>tcp_udp\<close> overlaps \<^verbatim>\<open>tcp\<close> and \<^verbatim>\<open>udp\<close>; and the tables satisfy the panel's invariant, with
  the owner and the node of every rule among their rows. Then the dry run
  changes nothing and announces, item by item, what the real import does, also for items that name a
  binding that exists, are refused, or go to an owner that is not known.\<close>

theorem preview_exact:
  assumes "panel_inv (pn_db p)" "rows_known (pn_db p)" "is_admin auth" "list_ex (\<lambda>u. us_id u = cl_sub auth) (db_users (pn_db p))"
    "iq_strategy q \<in> {None, Some ''skip'', Some ''overwrite''}" "length items \<le> MAX_IMPORT_ITEMS"
    "import_target no_faults (iq_target_node_id q) (pn_db p) = Inr target" "sorted_wrt (apart target) items"
  shows "\<exists>preview report p'. import_rules re no_faults auth ip (q\<lparr>iq_dry_run := None\<rparr>) items p = (Inr preview, p)
    \<and> import_rules re no_faults auth ip (q\<lparr>iq_dry_run := Some 0\<rparr>) items p = (Inr report, p')
    \<and> map ir_action (ip_items report) = map ir_action (ip_items preview) \<and> length (ip_items report) = length items"
proof -
  let ?s = "unwrap_or ''skip'' (iq_strategy q)"
  have "import_state target (cl_sub auth) (pn_db p) items (pn_db p)"
    using assms(1,2,4,8) target_known [OF assms(7)]
    by (auto simp: import_state_def panel_inv_def nodes_inv_def unchanged_for_def same_bound_def)
  then obtain rs q' ds where "import_each re no_faults auth ?s False (reserved_now re no_faults (pn_db p)) target 0 [] items p = (Inr rs, q')"
    "import_each re no_faults auth ?s True (reserved_now re no_faults (pn_db p)) target 0 [] items p = (Inr ds, p)"
    "map ir_action rs = map ir_action ds" "length rs = length items"
    using preview_each by blast
  moreover have "?s \<in> set [''skip'', ''overwrite'']"
    using assms(5) by auto
  ultimately show ?thesis
    using assms(3,6,7) by (simp add: import_rules_def Let_def bindA_def require_admin_def reject_if_def)
qed

section \<open>Moving the rules of a node\<close>

text \<open>A rule that can be exported and imported on a node: it is not part of a tunnel and passes the checks of an import there.\<close>

definition importable :: "route_env \<Rightarrow> int list \<Rightarrow> node_row \<Rightarrow> db_rule \<Rightarrow> bool" where
  "importable re reserved node r =
     (dr_tunnel_id r = None \<and> trim (dr_name r) \<noteq> [] \<and> is_valid_ip (dr_listen_ip r)
      \<and> is_valid_target_host (trim (dr_target_host r)) \<and> dr_remote_af r \<in> set [''auto'', ''v4'', ''v6'']
      \<and> nd_pool_min node \<le> dr_listen_port r \<and> dr_listen_port r \<le> nd_pool_max node \<and> dr_listen_port r \<notin> set reserved
      \<and> \<not> isl (validate_targets re (parse_targets re (dr_extra_targets r)) (Some (dr_lb_strategy r)) True))"

text \<open>What an import makes of a rule: the same service on another node, without a limit on connections and without the PROXY header.\<close>

definition moved :: "route_env \<Rightarrow> panel_db \<Rightarrow> int \<Rightarrow> int \<Rightarrow> db_rule \<Rightarrow> db_rule \<Rightarrow> bool" where
  "moved re db importer node r s =
     (dr_node_id s = node \<and> \<not> dr_deleted s \<and> dr_name s = trim (dr_name r) \<and> dr_protocol s = dr_protocol r
      \<and> dr_listen_ip s = dr_listen_ip r \<and> dr_listen_port s = dr_listen_port r
      \<and> dr_target_host s = trim (dr_target_host r) \<and> dr_target_port s = dr_target_port r
      \<and> (dr_enabled s \<noteq> 0) = (dr_enabled r \<noteq> 0) \<and> dr_remote_af s = dr_remote_af r \<and> dr_lb_strategy s = dr_lb_strategy r
      \<and> parse_targets re (dr_extra_targets s) = map (\<lambda>(h, p). (trim h, p)) (parse_targets re (dr_extra_targets r))
      \<and> mbps_of db (dr_profile_id s) = mbps_of db (dr_profile_id r)
      \<and> dr_user_id s = (if find_user db (dr_user_id r) = None then importer else dr_user_id r)
      \<and> dr_tunnel_id s = None \<and> dr_max_connections s = None \<and> dr_send_proxy s = 0)"

text \<open>Names lead back to the rows they come from.\<close>

definition names_usable :: "panel_db \<Rightarrow> bool" where
  "names_usable db =
     (distinct (map bp_name (filter (\<lambda>b. \<not> bp_deleted b) (db_profiles db))) \<and> (\<forall>b \<in> set (db_profiles db). bp_name b \<noteq> [])
      \<and> (\<forall>u \<in> set (db_users db). us_username u \<noteq> []))"

lemma find_distinct:
  assumes "distinct (map g (filter (\<lambda>x. \<not> gone x) xs))" "x \<in> set xs" "\<not> gone x"
  shows "find (\<lambda>y. g y = g x \<and> \<not> gone y) xs = Some x"
proof (cases "find (\<lambda>y. g y = g x \<and> \<not> gone y) xs")
  case None
  with assms(2,3) show ?thesis by (auto simp: find_None_iff)
next
  case (Some y)
  with find_SomeD [OF Some] assms show ?thesis
    by (auto simp: distinct_map inj_on_def)
qed

lemma exported_profile:
  assumes "names_usable db" "ei_profile_name item = Option.bind (dr_profile_id r) (\<lambda>b. map_option bp_name (find_profile db b))"
  obtains pr where "plan_profile no_faults db item = Inr pr" "mbps_of db pr = mbps_of db (dr_profile_id r)"
proof (cases "Option.bind (dr_profile_id r) (find_profile db)")
  case None
  then have "ei_profile_name item = None"
    using assms(2) by (cases "dr_profile_id r") auto
  then have "plan_profile no_faults db item = Inr None"
    by (simp add: plan_profile_def named_def)
  moreover have "mbps_of db None = mbps_of db (dr_profile_id r)"
    using None by (cases "dr_profile_id r") (simp_all add: mbps_of_def find_profile_def)
  ultimately show thesis by (rule that)
next
  case (Some b)
  then obtain i where i: "dr_profile_id r = Some i" "find_profile db i = Some b"
    by (cases "dr_profile_id r") auto
  have b: "b \<in> set (db_profiles db)" "\<not> bp_deleted b" "bp_id b = i"
    using find_SomeD [OF i(2) [unfolded find_profile_def]] by auto
  have "find (\<lambda>c. bp_name c = bp_name b \<and> \<not> bp_deleted c) (db_profiles db) = Some b"
    by (rule find_distinct) (use assms(1) b in \<open>auto simp: names_usable_def\<close>)
  moreover have "named (ei_profile_name item)" "the (ei_profile_name item) = bp_name b"
    using assms i b by (auto simp: names_usable_def named_def)
  ultimately have "plan_profile no_faults db item = Inr (Some i)"
    using b(3) by (simp add: plan_profile_def)
  then show thesis
    using i(1) by (auto intro: that)
qed

lemma exported_owner:
  assumes "users_inv db" "names_usable db" "ei_owner_username item = map_option us_username (find_user db (dr_user_id r))"
  shows "plan_owner no_faults db item = Inr (if find_user db (dr_user_id r) = None then None else Some (dr_user_id r))"
proof (cases "find_user db (dr_user_id r)")
  case None
  with assms(3) show ?thesis by (simp add: plan_owner_def named_def)
next
  case (Some u)
  have u: "u \<in> set (db_users db)" "\<not> us_deleted u" "us_id u = dr_user_id r"
    using find_SomeD [OF Some [unfolded find_user_def]] by auto
  have "find_by_username db (us_username u) = Some u"
    unfolding find_by_username_def by (rule find_distinct) (use assms(1) u in \<open>auto simp: users_inv_def\<close>)
  with Some u assms(2,3) show ?thesis
    by (auto simp: plan_owner_def named_def names_usable_def)
qed

lemma validated_targets:
  assumes "validate_targets re extra (Some strat) True = Inr (json, s)" "\<And>ts. re_decode re (re_encode re ts) = Some ts"
  shows "s = strat" "parse_targets re json = map (\<lambda>(h, p). (trim h, p)) extra"
  using assms by (auto simp: validate_targets_def Let_def bindR_eq_Inr parse_targets_def split: if_splits)

lemma export_plan:
  assumes "panel_inv db" "names_usable db" "r \<in> set (db_rules db)" "importable re reserved node r" "export_item re db r = Some item"
    "\<And>s. s \<in> set (db_rules db) \<Longrightarrow> dr_node_id s = nd_id node \<Longrightarrow> dr_deleted s" "\<And>ts. re_decode re (re_encode re ts) = Some ts"
  shows "\<exists>pr ow extra strat. plan_item re no_faults strategy reserved (Some node) item db = Inr (Plan_Create (nd_id node) pr ow extra strat)
    \<and> (\<forall>i. moved re db importer (nd_id node) r (imported_row i (unwrap_or importer ow) item (nd_id node) pr extra strat))"
proof -
  note imp = assms(4) [unfolded importable_def]
  have chk: "dr_protocol r \<in> set [''tcp'', ''udp'', ''tcp_udp'']" "1 \<le> dr_listen_port r" "dr_listen_port r \<le> 65535"
    "1 \<le> dr_target_port r" "dr_target_port r \<le> 65535"
    using assms(1,3) by (auto simp: panel_inv_def rules_inv_def rule_checks_def)
  have word: "uint (word_of_int z :: u16) = z" if "1 \<le> z" "z \<le> 65535" for z
    using that by (simp add: uint_word_of_int)
  have nz: "(word_of_int z :: u16) \<noteq> 0" if "1 \<le> z" "z \<le> 65535" for z
    using word [OF that] that by (metis unsigned_0 not_one_le_zero)
  obtain n where n: "find (\<lambda>n. nd_id n = dr_node_id r) (db_nodes db) = Some n"
    using assms(5) by (auto simp: export_item_def split: option.splits)
  have item: "item = \<lparr>ei_name = dr_name r, ei_protocol = dr_protocol r, ei_listen_ip = dr_listen_ip r,
       ei_listen_port = word_of_int (dr_listen_port r), ei_target_host = dr_target_host r,
       ei_target_port = word_of_int (dr_target_port r), ei_enabled = (dr_enabled r \<noteq> 0), ei_node_name = nd_name n,
       ei_tunnel_name = Option.bind (dr_tunnel_id r) (\<lambda>t. map_option tu_name (find_tunnel db t)),
       ei_profile_name = Option.bind (dr_profile_id r) (\<lambda>b. map_option bp_name (find_profile db b)),
       ei_owner_username = map_option us_username (find_user db (dr_user_id r)),
       ei_extra_targets = parse_targets re (dr_extra_targets r), ei_lb_strategy = dr_lb_strategy r,
       ei_remote_af = dr_remote_af r\<rparr>"
    using assms(5) by (simp add: export_item_def n)
  have ok: "item_refusal item = None"
    using imp chk nz [OF chk(2,3)] nz [OF chk(4,5)] by (simp add: item item_refusal_def)
  obtain extra strat where v: "validate_targets re (ei_extra_targets item) (Some (ei_lb_strategy item)) True = Inr (extra, strat)"
    using imp by (cases "validate_targets re (ei_extra_targets item) (Some (ei_lb_strategy item)) True") (auto simp: item)
  obtain pr where pr: "plan_profile no_faults db item = Inr pr" "mbps_of db pr = mbps_of db (dr_profile_id r)"
    by (rule exported_profile [OF assms(2), of item r]) (simp_all add: item)
  let ?ow = "if find_user db (dr_user_id r) = None then None else Some (dr_user_id r)"
  have ow: "plan_owner no_faults db item = Inr ?ow"
    by (rule exported_owner) (use assms(1,2) in \<open>simp_all add: item panel_inv_def\<close>)
  have "bound_rules db (nd_id node) item protos = []" for protos
    using assms(6) by (auto simp: bound_rules_def filter_empty_conv)
  then have "plan_binding no_faults strategy db item (nd_id node) pr ?ow (extra, strat) = Inr (Plan_Create (nd_id node) pr ?ow extra strat)"
    by (simp add: plan_binding_def read_db_def bindR_def)
  then have "plan_item re no_faults strategy reserved (Some node) item db = Inr (Plan_Create (nd_id node) pr ?ow extra strat)"
    using ok pr(1) ow v plan_targets_ok [of re item "(extra, strat)"] imp word [OF chk(2,3)]
    by (simp add: plan_item_def plan_at_node_def Let_def bindR_def item)
  moreover have "moved re db importer (nd_id node) r (imported_row i (unwrap_or importer ?ow) item (nd_id node) pr extra strat)" for i
    using validated_targets [OF v assms(7)] pr(2) word [OF chk(2,3)] word [OF chk(4,5)]
    by (simp add: moved_def imported_row_def item)
  ultimately show ?thesis by blast
qed

lemma import_creates:
  assumes "import_state (Some node) (cl_sub auth) e items (pn_db p)"
    "\<And>item. item \<in> set items \<Longrightarrow> \<exists>pr ow ex st. plan_item re no_faults strategy reserved (Some node) item e = Inr (Plan_Create (nd_id node) pr ow ex st)"
    "\<And>item. item \<in> set items \<Longrightarrow> (nd_id node, ei_listen_ip item, ei_listen_port item, ei_protocol item) \<notin> set seen"
  shows "\<exists>rs q new. import_each re no_faults auth strategy False reserved (Some node) k seen items p = (Inr rs, q)
    \<and> (\<forall>x \<in> set rs. ir_action x = ''create'') \<and> db_rules (pn_db q) = db_rules (pn_db p) @ new
    \<and> list_all2 (\<lambda>item s. \<exists>i pr ow ex st. plan_item re no_faults strategy reserved (Some node) item e = Inr (Plan_Create (nd_id node) pr ow ex st)
        \<and> s = imported_row i (unwrap_or (cl_sub auth) ow) item (nd_id node) pr ex st) items new"
  using assms
proof (induction items arbitrary: k seen p)
  case (Cons item rest)
  let ?key = "\<lambda>item. (nd_id node, ei_listen_ip item, ei_listen_port item, ei_protocol item)"
  note st = Cons.prems(1) [unfolded import_state_def]
  obtain pr ow ex strat where pe: "plan_item re no_faults strategy reserved (Some node) item e = Inr (Plan_Create (nd_id node) pr ow ex strat)"
    using Cons.prems(2) [of item] by auto
  then have plan: "plan_item re no_faults strategy reserved (Some node) item (pn_db p) = Inr (Plan_Create (nd_id node) pr ow ex strat)"
    using plan_item_cong [of "pn_db p" e item "Some node"] st by (simp add: unchanged_for_def)
  have c: "check_seen item (Plan_Create (nd_id node) pr ow ex strat) seen = (Plan_Create (nd_id node) pr ow ex strat, ?key item # seen)"
    using Cons.prems(3) [of item] by (simp add: check_seen_def)
  obtain a r q i where s: "run_item re no_faults auth False item (Plan_Create (nd_id node) pr ow ex strat) p = (Inr (a, r), q)"
    "import_state (Some node) (cl_sub auth) e rest (pn_db q)" "a = ''create''"
    "db_rules (pn_db q) = db_rules (pn_db p) @ [imported_row i (unwrap_or (cl_sub auth) ow) item (nd_id node) pr ex strat]"
    using real_step [OF Cons.prems(1) plan disjI1 [OF refl]] by metis
  have fresh: "?key b \<notin> set (?key item # seen)" if "b \<in> set rest" for b
  proof -
    have "apart (Some node) item b"
      using st that by simp
    then show ?thesis
      using Cons.prems(3) [of b] that by (auto simp: apart_def protocols_overlap_def)
  qed
  let ?row = "imported_row i (unwrap_or (cl_sub auth) ow) item (nd_id node) pr ex strat"
  obtain rs q' new where t: "import_each re no_faults auth strategy False reserved (Some node) (Suc k) (?key item # seen) rest q = (Inr rs, q')"
    "\<forall>x \<in> set rs. ir_action x = ''create''" "db_rules (pn_db q') = db_rules (pn_db q) @ new"
    "list_all2 (\<lambda>item s. \<exists>i pr ow ex st. plan_item re no_faults strategy reserved (Some node) item e = Inr (Plan_Create (nd_id node) pr ow ex st)
        \<and> s = imported_row i (unwrap_or (cl_sub auth) ow) item (nd_id node) pr ex st) rest new"
    using Cons.IH [OF s(2) Cons.prems(2) [OF list.set_intros(2)] fresh, of "Suc k"] by blast
  have "import_each re no_faults auth strategy False reserved (Some node) k seen (item # rest) p
      = (Inr (\<lparr>ir_index = k, ir_action = a, ir_reason = r\<rparr> # rs), q')"
    using s(1) t(1) plan c by (simp add: bindA_def)
  moreover have "db_rules (pn_db q') = db_rules (pn_db p) @ ?row # new"
    using s(4) t(3) by simp
  moreover have "\<exists>i' pr' ow' ex' st'. plan_item re no_faults strategy reserved (Some node) item e = Inr (Plan_Create (nd_id node) pr' ow' ex' st')
        \<and> ?row = imported_row i' (unwrap_or (cl_sub auth) ow') item (nd_id node) pr' ex' st'"
    using pe by blast
  ultimately show ?case
    using s(3) t(2,4)
    by (intro exI [of _ "\<lparr>ir_index = k, ir_action = a, ir_reason = r\<rparr> # rs"] exI [of _ q'] exI [of _ "?row # new"]) (simp del: import_each.simps)
qed simp

definition node_query :: "int \<Rightarrow> export_query" where
  "node_query n = \<lparr>eq_node_id = Some n, eq_user_id = None, eq_tunnel_id = None\<rparr>"

definition to_node :: "int \<Rightarrow> import_query" where
  "to_node m = \<lparr>iq_strategy = None, iq_dry_run = Some 0, iq_target_node_id = Some m\<rparr>"

lemma sorted_wrt_pairs: "distinct xs \<Longrightarrow> (\<And>a b. a \<in> set xs \<Longrightarrow> b \<in> set xs \<Longrightarrow> a \<noteq> b \<Longrightarrow> P a b) \<Longrightarrow> sorted_wrt P xs"
  by (induction xs) auto

text \<open>The exported rules of a node: every live rule, each with an item, no two on the same listener.\<close>

lemma queried_rows:
  assumes "r \<in> set (export_rows (node_query n) db)"
  shows "r \<in> set (db_rules db)" "\<not> dr_deleted r" "dr_node_id r = n"
  using assms by (auto simp: export_rows_def export_filter_def node_query_def)

lemma exported_all:
  assumes "rows_known db" "r \<in> set (db_rules db)"
  obtains item where "export_item re db r = Some item"
proof (cases "find (\<lambda>n. nd_id n = dr_node_id r) (db_nodes db)")
  case None
  with assms show thesis by (auto simp: rows_known_def list_ex_iff find_None_iff)
next
  case (Some n)
  then show thesis by (intro that) (simp add: export_item_def)
qed

lemma export_items_map:
  assumes "rows_known db" "set rs \<subseteq> set (db_rules db)"
  shows "List.map_filter (export_item re db) rs = map (\<lambda>r. the (export_item re db r)) rs"
  using assms(2)
proof (induction rs)
  case (Cons r rs)
  then obtain item where "export_item re db r = Some item"
    using exported_all [OF assms(1), of r re] by auto
  with Cons show ?case by (simp add: map_filter_def)
qed (simp add: map_filter_def)

lemma exported_apart:
  assumes "rules_inv db" "rows_known db" "r \<in> set (db_rules db)" "s \<in> set (db_rules db)" "\<not> dr_deleted r" "\<not> dr_deleted s"
    "dr_node_id r = dr_node_id s" "r \<noteq> s"
  shows "apart target (the (export_item re db r)) (the (export_item re db s))"
proof -
  obtain a where a: "export_item re db r = Some a" by (rule exported_all [OF assms(2,3)])
  obtain b where b: "export_item re db s = Some b" by (rule exported_all [OF assms(2,4)])
  have "dr_id r \<noteq> dr_id s"
    using assms(1,3,4,8) by (auto simp: rules_inv_def rules_wf_def distinct_map inj_on_def)
  then have "\<not> same_listener r s"
    using assms by (auto simp: rules_inv_def bindings_ok_def)
  moreover have "dr_listen_port r = dr_listen_port s" if "word_of_int (dr_listen_port r) = (word_of_int (dr_listen_port s) :: u16)"
  proof -
    have "1 \<le> dr_listen_port r" "dr_listen_port r \<le> 65535" "1 \<le> dr_listen_port s" "dr_listen_port s \<le> 65535"
      using assms(1,3,4) by (auto simp: rules_inv_def rule_checks_def)
    moreover have "uint (word_of_int (dr_listen_port r) :: u16) = uint (word_of_int (dr_listen_port s) :: u16)"
      using that by simp
    ultimately show ?thesis by (simp add: uint_word_of_int)
  qed
  ultimately show ?thesis
    using a b assms(7) by (auto simp: apart_def same_listener_def export_item_def split: option.splits)
qed

text \<open>C7. Exporting the rules of a node and importing the list onto a node with no live rule moves the service, under these
  conditions: no statement fails; the caller is an administrator who is a row of the users; the list has at most
  1000 items; every exported rule is outside tunnels, has a name that is not blank, an address, a target host and an
  address family that an import accepts, extra targets and a strategy that an import accepts, and a port in the pool of
  the new node that is not reserved; the names of the live profiles are distinct, and no
  profile or user has an empty name; the JSON of extra targets reads back as what was written; and the tables satisfy
  the panel's invariant, with the owner and the node of every rule among their rows. Then the import creates one
  rule for every exported one and changes no other, and each new rule listens, forwards, balances and is limited as the
  old one, for the same owner (for the importer where the owner is gone). What the list does not carry is lost: the limit
  on connections and the PROXY header.\<close>

theorem export_import_moves_node:
  assumes "panel_inv (pn_db p)" "rows_known (pn_db p)" "names_usable (pn_db p)" "is_admin auth"
    "list_ex (\<lambda>u. us_id u = cl_sub auth) (db_users (pn_db p))" "find_node (pn_db p) m = Some node"
    "\<And>s. s \<in> set (db_rules (pn_db p)) \<Longrightarrow> dr_node_id s = m \<Longrightarrow> dr_deleted s"
    "\<And>r. r \<in> set (export_rows (node_query n) (pn_db p)) \<Longrightarrow> importable re (reserved_now re no_faults (pn_db p)) node r"
    "length (export_rows (node_query n) (pn_db p)) \<le> MAX_IMPORT_ITEMS" "\<And>ts. re_decode re (re_encode re ts) = Some ts"
  shows "\<exists>report q new. import_rules re no_faults auth ip (to_node m) (export_items re (node_query n) (pn_db p)) p = (Inr report, q)
    \<and> (\<forall>x \<in> set (ip_items report). ir_action x = ''create'') \<and> db_rules (pn_db q) = db_rules (pn_db p) @ new
    \<and> list_all2 (moved re (pn_db p) (cl_sub auth) m) (export_rows (node_query n) (pn_db p)) new"
proof -
  let ?db = "pn_db p" and ?rows = "export_rows (node_query n) (pn_db p)" and ?i = "\<lambda>r. the (export_item re (pn_db p) r)"
  have items: "export_items re (node_query n) ?db = map ?i ?rows"
    unfolding export_items_def by (rule export_items_map [OF assms(2)]) (use queried_rows in blast)
  have node: "nd_id node = m" "node \<in> set (db_nodes ?db)"
    using find_SomeD [OF assms(6) [unfolded find_node_def]] by auto
  have "distinct ?rows"
    using assms(1) by (auto simp: export_rows_def panel_inv_def rules_inv_def rules_wf_def distinct_map)
  then have "sorted_wrt (\<lambda>r s. apart (Some node) (?i r) (?i s)) ?rows"
  proof (rule sorted_wrt_pairs)
    fix a b
    assume "a \<in> set ?rows" "b \<in> set ?rows" "a \<noteq> b"
    with queried_rows assms(1,2) show "apart (Some node) (?i a) (?i b)"
      by (intro exported_apart) (auto simp: panel_inv_def)
  qed
  then have st: "import_state (Some node) (cl_sub auth) ?db (map ?i ?rows) ?db"
    using assms(1,2,5) node(2) by (simp add: import_state_def panel_inv_def nodes_inv_def unchanged_for_def same_bound_def sorted_wrt_map)
  have plan: "\<exists>pr ow ex st. plan_item re no_faults ''skip'' (reserved_now re no_faults ?db) (Some node) (?i r) ?db = Inr (Plan_Create m pr ow ex st)
      \<and> (\<forall>i. moved re ?db (cl_sub auth) m r (imported_row i (unwrap_or (cl_sub auth) ow) (?i r) m pr ex st))" if r: "r \<in> set ?rows" for r
  proof -
    obtain item where "export_item re ?db r = Some item"
      using exported_all [OF assms(2) queried_rows(1) [OF r]] .
    with export_plan [OF assms(1,3) queried_rows(1) [OF r] assms(8) [OF r], of item] assms(7,10) node(1) show ?thesis by simp
  qed
  obtain rs q new where e: "import_each re no_faults auth ''skip'' False (reserved_now re no_faults ?db) (Some node) 0 [] (map ?i ?rows) p = (Inr rs, q)"
    "\<forall>x \<in> set rs. ir_action x = ''create''" "db_rules (pn_db q) = db_rules ?db @ new"
    "list_all2 (\<lambda>item s. \<exists>i pr ow ex st. plan_item re no_faults ''skip'' (reserved_now re no_faults ?db) (Some node) item ?db = Inr (Plan_Create m pr ow ex st)
        \<and> s = imported_row i (unwrap_or (cl_sub auth) ow) item m pr ex st) (map ?i ?rows) new"
    using import_creates [OF st, of re "''skip''" "reserved_now re no_faults ?db" "[]" 0] plan node(1) by fastforce
  have "list_all2 (moved re ?db (cl_sub auth) m) ?rows new"
    using e(4) unfolding list_all2_map1
  proof (rule list.rel_mono_strong)
    fix r s
    assume "r \<in> set ?rows" "\<exists>i pr ow ex st. plan_item re no_faults ''skip'' (reserved_now re no_faults ?db) (Some node) (?i r) ?db = Inr (Plan_Create m pr ow ex st)
        \<and> s = imported_row i (unwrap_or (cl_sub auth) ow) (?i r) m pr ex st"
    with plan show "moved re ?db (cl_sub auth) m r s" by fastforce
  qed
  with e assms(4,6,9) show ?thesis
    by (simp add: import_rules_def Let_def bindA_def require_admin_def reject_if_def items to_node_def import_target_def read_db_def bindR_def ok_or_def)
qed

section \<open>Examples\<close>

text \<open>JSON texts of targets, as a name and a port in turn; enough for the examples.\<close>

definition plain_targets :: "target_dto list \<Rightarrow> string" where
  "plain_targets ts = enc_nat (length ts) @ concat (map (\<lambda>(h, p). enc_string h @ enc_nat (unat p)) ts)"

fun read_targets :: "nat \<Rightarrow> string \<Rightarrow> target_dto list" where
  "read_targets 0 s = []"
| "read_targets (Suc n) s = (let (h, s1) = dec_string s; (p, s2) = dec_nat s1 in (h, of_nat p) # read_targets n s2)"

definition plain_routes :: route_env where
  "plain_routes = \<lparr>re_panel = sample_env, re_encode = plain_targets,
     re_decode = (\<lambda>s. case dec_nat s of (n, t) \<Rightarrow> Some (read_targets n t)), re_ports = (\<lambda>_. None), re_order = (\<lambda>_ _ rs. rs)\<rparr>"

lemma read_plain: "read_targets (length ts) (concat (map (\<lambda>(h, p). enc_string h @ enc_nat (unat p)) ts) @ rest) = ts"
  by (induction ts) (auto simp: dec_enc)

lemma plain_targets_read: "re_decode plain_routes (re_encode plain_routes ts) = Some ts"
  using read_plain [of ts "[]"] by (simp add: plain_routes_def plain_targets_def dec_enc)

text \<open>Node 1 has a rule with a second target; node 2 has none.\<close>

definition moving_panel :: panel where
  "moving_panel = (sv_panel small_panel)\<lparr>pn_db := (sv_db small_panel)
     \<lparr>db_rules := [(sample_rule 7 15000 None)\<lparr>dr_max_connections := Some 9, dr_extra_targets := Some (plain_targets [(''b.c'', 82)])\<rparr>]\<rparr>\<rparr>"

lemma moving_panel_inv: "panel_inv (pn_db moving_panel)"
  using small_panel_inv
  by (simp add: panel_inv_def rules_inv_def rules_wf_def bindings_ok_def users_inv_def tunnels_inv_def nodes_inv_def refs_ok_def
      moving_panel_def small_panel_def sv_db_def sample_accounts_def sample_db_def sample_rule_def rule_checks_def
      rule_placed_def node_alive_def live_node_def sample_node_def same_listener_def)

lemma moving_rows:
  "export_rows (node_query 1) (pn_db moving_panel) = db_rules (pn_db moving_panel)" "rows_known (pn_db moving_panel)"
  "names_usable (pn_db moving_panel)"
  by (simp_all add: export_rows_def export_filter_def node_query_def rows_known_def names_usable_def
      moving_panel_def small_panel_def sv_db_def sample_accounts_def sample_db_def sample_rule_def sample_node_def metered_user_def)

lemma export_import_moves_node_witness:
  "\<exists>report q s. import_rules plain_routes no_faults (sample_user 1 ''admin'') [] (to_node 2)
       (export_items plain_routes (node_query 1) (pn_db moving_panel)) moving_panel = (Inr report, q)
     \<and> db_rules (pn_db q) = db_rules (pn_db moving_panel) @ [s] \<and> dr_node_id s = 2 \<and> dr_listen_port s = 15000
     \<and> parse_targets plain_routes (dr_extra_targets s) = [(''b.c'', 82)] \<and> dr_max_connections s = None"
proof -
  let ?r = "(sample_rule 7 15000 None)\<lparr>dr_max_connections := Some 9, dr_extra_targets := Some (plain_targets [(''b.c'', 82)])\<rparr>"
  have rules: "db_rules (pn_db moving_panel) = [?r]"
    by (simp add: moving_panel_def)
  have targets: "parse_targets plain_routes (Some (plain_targets [(''b.c'', 82)])) = [(''b.c'', 82)]"
    using plain_targets_read [of "[(''b.c'', 82)]"] by (simp add: parse_targets_def plain_routes_def)
  obtain node where node: "find_node (pn_db moving_panel) 2 = Some node" "nd_pool_min node = 10000" "nd_pool_max node = 20000"
    by (simp add: find_node_def moving_panel_def small_panel_def sv_db_def sample_node_def)
  have "\<not> isl (validate_targets plain_routes [(''b.c'', 82)] (Some ''fifo'') True)" "trim ''r'' = ''r''" "is_valid_ip ''1.1.1.1''"
    "is_valid_target_host (trim ''a'')" "reserved_now plain_routes no_faults (pn_db moving_panel) = DEFAULT_RESERVED_PORTS"
    by code_simp+
  then have imp: "importable plain_routes (reserved_now plain_routes no_faults (pn_db moving_panel)) node ?r"
    using node(2,3) targets by (simp add: importable_def sample_rule_def DEFAULT_RESERVED_PORTS_def)
  have admin: "is_admin (sample_user 1 ''admin'')" "list_ex (\<lambda>u. us_id u = cl_sub (sample_user 1 ''admin'')) (db_users (pn_db moving_panel))"
    by (simp_all add: is_admin_def sample_user_def moving_panel_def small_panel_def sv_db_def sample_accounts_def metered_user_def)
  have empty: "dr_node_id s = 2 \<Longrightarrow> dr_deleted s" if "s \<in> set (db_rules (pn_db moving_panel))" for s
    using that by (simp add: rules sample_rule_def)
  obtain report q new where m: "import_rules plain_routes no_faults (sample_user 1 ''admin'') [] (to_node 2)
       (export_items plain_routes (node_query 1) (pn_db moving_panel)) moving_panel = (Inr report, q)"
    "db_rules (pn_db q) = db_rules (pn_db moving_panel) @ new"
    "list_all2 (moved plain_routes (pn_db moving_panel) (cl_sub (sample_user 1 ''admin'')) 2) [?r] new"
    using export_import_moves_node [where re = plain_routes and n = 1 and ip = "[]", OF moving_panel_inv moving_rows(2,3) admin node(1) empty] imp plain_targets_read
    unfolding moving_rows(1) rules by (simp add: MAX_IMPORT_ITEMS_def) blast
  then obtain s where "new = [s]" "moved plain_routes (pn_db moving_panel) (cl_sub (sample_user 1 ''admin'')) 2 ?r s"
    by (auto simp: list_all2_Cons1)
  moreover have "trim ''b.c'' = ''b.c''"
    by code_simp
  ultimately show ?thesis
    using m targets
    by (intro exI [of _ report] exI [of _ q] exI [of _ s]) (auto simp: moved_def sample_rule_def)
qed

text \<open>Two rules on one port with different protocols, a rule with a wrong protocol, and the binding that exists.\<close>

definition import_item :: "string \<Rightarrow> u16 \<Rightarrow> string \<Rightarrow> rule_export_item" where
  "import_item proto port node = \<lparr>ei_name = ''n'', ei_protocol = proto, ei_listen_ip = ''1.1.1.1'', ei_listen_port = port,
     ei_target_host = ''b.c'', ei_target_port = 80, ei_enabled = True, ei_node_name = node, ei_tunnel_name = None,
     ei_profile_name = None, ei_owner_username = Some ''bob'', ei_extra_targets = [], ei_lb_strategy = ''fifo'', ei_remote_af = ''auto''\<rparr>"

definition import_list :: "rule_export_item list" where
  "import_list = [import_item ''tcp'' 16000 ''m'', import_item ''udp'' 16000 ''m'', import_item ''sctp'' 16001 ''m'',
     import_item ''tcp'' 15000 ''n'']"

lemma preview_exact_witness:
  "\<exists>preview report q. import_rules plain_routes no_faults (sample_user 1 ''admin'') []
       \<lparr>iq_strategy = Some ''overwrite'', iq_dry_run = None, iq_target_node_id = None\<rparr> import_list moving_panel = (Inr preview, moving_panel)
     \<and> import_rules plain_routes no_faults (sample_user 1 ''admin'') []
       \<lparr>iq_strategy = Some ''overwrite'', iq_dry_run = Some 0, iq_target_node_id = None\<rparr> import_list moving_panel = (Inr report, q)
     \<and> map ir_action (ip_items report) = map ir_action (ip_items preview)
     \<and> map ir_action (ip_items preview) = [''create'', ''create'', ''error'', ''overwrite'']"
proof -
  let ?q = "\<lparr>iq_strategy = Some ''overwrite'', iq_dry_run = None, iq_target_node_id = None\<rparr>"
  let ?im = "\<lambda>q. import_rules plain_routes no_faults (sample_user 1 ''admin'') [] q import_list moving_panel"
  have admin: "is_admin (sample_user 1 ''admin'')" "list_ex (\<lambda>u. us_id u = cl_sub (sample_user 1 ''admin'')) (db_users (pn_db moving_panel))"
    by (simp_all add: is_admin_def sample_user_def moving_panel_def small_panel_def sv_db_def sample_accounts_def metered_user_def)
  have "sorted_wrt (apart None) import_list"
    by (simp add: import_list_def import_item_def apart_def protocols_overlap_def)
  then obtain preview report q where m: "?im (?q\<lparr>iq_dry_run := None\<rparr>) = (Inr preview, moving_panel)"
    "?im (?q\<lparr>iq_dry_run := Some 0\<rparr>) = (Inr report, q)" "map ir_action (ip_items report) = map ir_action (ip_items preview)"
    using preview_exact [OF moving_panel_inv moving_rows(2) admin, of ?q import_list None plain_routes "[]"]
    by (auto simp: import_target_def MAX_IMPORT_ITEMS_def import_list_def)
  have "(case fst (?im ?q) of Inl _ \<Rightarrow> [] | Inr r \<Rightarrow> map ir_action (ip_items r)) = [''create'', ''create'', ''error'', ''overwrite'']"
    by code_simp
  with m show ?thesis by auto
qed

text \<open>Without that condition the preview is wrong: of two items with the same binding the second is announced as an error and then skipped,
  and of two items with overlapping protocols the second is announced as created and then refused.\<close>

definition preview_of :: "rule_export_item list \<Rightarrow> 8 word \<Rightarrow> string list" where
  "preview_of items dry = (case fst (import_rules plain_routes no_faults (sample_user 1 ''admin'') []
       \<lparr>iq_strategy = None, iq_dry_run = Some dry, iq_target_node_id = Some 2\<rparr> items moving_panel) of
     Inl _ \<Rightarrow> [] | Inr r \<Rightarrow> map ir_action (ip_items r))"

lemma preview_differs:
  "preview_of [import_item ''tcp'' 16000 ''m'', import_item ''tcp'' 16000 ''m''] 1 = [''create'', ''error'']"
  "preview_of [import_item ''tcp'' 16000 ''m'', import_item ''tcp'' 16000 ''m''] 0 = [''create'', ''skip'']"
  "preview_of [import_item ''tcp'' 16000 ''m'', import_item ''tcp_udp'' 16000 ''m''] 1 = [''create'', ''create'']"
  "preview_of [import_item ''tcp'' 16000 ''m'', import_item ''tcp_udp'' 16000 ''m''] 0 = [''create'', ''error'']"
  by code_simp+

end
