(* ===== verification/Spec2Isabelle.thy ===== *)
theory Spec2Isabelle
  imports Agent Tunnel_Certs Dns_Cache Probe Sampler Rules_Commands Control_Props Users_Api Tunnels_Props Rules_Io_Props
begin

text \<open>
  EMORELAY is a control panel (src/crates/panel-server) and a node agent (src/crates/node-agent).
  Administrators and users enter forwarding rules in the panel; the panel stores them in a database
  and sends commands to the agents, one gRPC stream per node; an agent relays TCP and UDP traffic
  by the rules it was given, directly or as a hop of a tunnel of several nodes, and reports traffic
  counters back. Both programs are modelled as functions on explicit states.

  \<^bold>\<open>Conventions.\<close> A struct is a record and an enum a datatype with the names of the source. A
  machine integer whose wrap-around matters is a word (\<^verbatim>\<open>Prelude\<close>); the 64-bit columns of the
  database are \<^verbatim>\<open>int\<close>, and theorems that depend on their width say so. A function that can fail
  returns a sum, the error on the left. A loop that ends is a recursive function, with a measure
  where it needs one; fuel occurs only where the source has a timer or a budget (the attempts of a
  webhook, the turns of a token bucket). What the environment decides is an argument: the time,
  random numbers, the answers of the resolver and of \<^verbatim>\<open>connect\<close>, the statements the database
  refuses (\<open>io\<close>: a predicate on the names of queries, so that any failure at any place is covered; a
  statement that a loop repeats has one name, or one for each row, so that a failure in a single turn is covered where
  the names differ only),
  hashing, certificates, JSON and the order of a hash map.

  \<^bold>\<open>The agent.\<close>
  \<^item> Net_Addr, Relay_Net, Dns_Cache, Upstream: addresses, relay/mod.rs, dns.rs, connecting to a target.
  \<^item> Select, Sniff, Rate_Limits, Stats, Byte_Pump: select.rs, sniff.rs, limit/, stats.rs and the copy loops.
  \<^item> World, Tcp_Relay, Udp_Relay: what the relays of one process share; relay/tcp.rs and relay/udp.rs.
  \<^item> Frame, Tunnel_Task, Tunnel_Flow: tunnel/frame.rs, tunnel/task.rs with the transports, and what
    flows through a chain of hops; Tunnel_Certs: the certificates the panel issues (tls/issue.rs, tls/ca.rs)
    and the checks the hops make on them (tunnel/tls_transport.rs, tunnel/wss_transport.rs).
  \<^item> Manager, Store, Retry, Probe, Sampler, Agent: manager.rs, store.rs and upgrade.rs, retry.rs,
    probe.rs, system.rs and agent.rs: the handling of a command, and the life of the agent.
  \<^item> Proto: the messages of control.proto, which both programs use.

  \<^bold>\<open>The panel.\<close>
  \<^item> Panel_Db: the tables with the constraints of the schema (migrations/) and the queries of models/.
  \<^item> Panel_Util, Api: util.rs, error.rs, audit.rs, auth/extractor.rs; a handler is a function from
    the state of the panel to a result and a new state, written as a chain of steps.
  \<^item> Dispatcher, Tunnel_Split, Tunnel_Dispatch, Replay: grpc/dispatcher.rs, grpc/commands.rs,
    grpc/tunnel_split.rs, grpc/tunnel_dispatch.rs, and the specification \<open>wanted\<close> of what a node has to run.
  \<^item> Rules_Api, Rules_Inv, Rules_Props, Rules_Commands: routes/rules.rs and its properties.
  \<^item> Control_Service, Control_Props: grpc/service.rs, grpc/session.rs, tls/crl.rs, the waiting
    diagnoses of state.rs, and the handlers of routes/nodes.rs that end sessions.
  \<^item> Sweepers, Calendar, User_Quota: sweeper/ and notify/, one turn of each task.
  \<^item> Users_Api: routes/users.rs, models/user.rs and models/grant.rs.
  \<^item> Tunnels_Api, Tunnels_Props: routes/tunnels.rs and models/tunnel.rs.
  \<^item> Auth_Api: routes/auth.rs, routes/subscription.rs and auth/jwt.rs; Nodes_Api, Nodes_Props: routes/nodes.rs
    and models/node.rs; Rules_Io, Rules_Io_Props: routes/rules_io.rs, the export and import of rules.
  \<^item> Panel_Refs, Panel_Inv: the tables together. Each family of handlers leaves the tables of the others
    alone (\<open>framed\<close>) and keeps the references between rows (\<open>refs_ok\<close>); \<open>panel_step\<close> is one event of the whole panel.

  \<^bold>\<open>How the parts meet.\<close> This theory composes the two programs: the replay of the panel is carried
  out by the agent (\<open>replay_makes_agent_run\<close>), the messages of the splitting start the hops
  (\<open>tunnel_serves_one_rule\<close>), and the lock of a node orders commands (\<open>deleted_rule_comes_back\<close>).
  The interfaces are locales of Prelude and Calendar: a machine with an invariant
  (\<open>invariant_machine\<close>, interpreted by the handlers of rules, accounts, tunnels, the agent and
  the whole panel), what the calls of agents and the sweeps may do to the tables (\<open>agent_calls\<close>, extended by
  \<open>panel_calls\<close>), a table of sessions with a capacity, and the laws of a calendar, which the Gregorian
  calendar of Calendar satisfies.

  \<^bold>\<open>What is shown.\<close> Invariants over every run of calls (no two rules listen on the same address, some
  administrator remains, every rule keeps a live node to run on, a session belongs to the node that registered, tables of UDP sessions and
  retries stay within their bounds); the effect of each handler on every branch, errors included;
  the refinement of the database into what the agent runs; agreement of single commands with the
  replay; the preview of an import agrees with the import, and moving rules by export and import keeps
  the service; conservation of traffic counters; faithful copying of bytes and frames; the enforcement
  of limits and expiry dates by the sweeps; which hop accepts which certificate; what an upgrade leaves
  wherever it fails; and a number of defects, each as a theorem about the
  code as it is.

  \<^bold>\<open>Not modelled.\<close> The TLS and WebSocket libraries below the transports of a tunnel (a transport is
  a parameter that delivers bytes in order), the timers that repeat a task, start-up and
  configuration (main.rs, bootstrap.rs, config.rs: calls of libraries), keys and signatures,
  the signing of tokens and the hashing of passwords, routes/system.rs, routes/diagnose.rs (but for the waiting
  results), routes/install.rs, routes/bandwidth_profiles.rs, the web frontend and the deployment files.
  Handlers run one after the other here, except where a theorem states an interleaving of
  statements: the locks of nodes, a late command, and two deletions of accounts.
\<close>

section \<open>The panel and its agents\<close>

lemma wanted_enabled:
  assumes "wanted pe db n i = Some q" "find_rule db i = Some r"
  shows "r_enabled q \<longleftrightarrow> dr_enabled r \<noteq> 0"
  using assms
  by (auto simp: wanted_def rule_to_proto_def dest: parts_enabled split: option.splits if_splits)

lemma wanted_startable:
  assumes "wanted pe db n i = Some q" "\<forall>r \<in> set (db_rules db). rule_checks r"
  shows "startable q"
proof -
  from assms(1) obtain r where r: "find_rule db i = Some r"
    by (auto simp: wanted_def split: option.splits)
  then obtain x where x: "x \<in> set (db_rules db)" "r = select_rule db x"
    by (auto simp: find_rule_def dest: find_SomeD)
  show ?thesis
  proof (cases "dr_tunnel_id r")
    case None
    with assms r x show ?thesis
      by (auto simp: wanted_def startable_def rule_to_proto_def rule_checks_def split: if_splits)
  next
    case (Some tid)
    with assms(1) r have "map_of (tunnel_parts db r tid) n = Some q"
      by (simp add: wanted_def)
    then have "r_tunnel q \<noteq> None"
      by (auto simp: tunnel_parts_def split_tunnel_rule_def split_part_def dest!: map_of_SomeD split: option.splits)
    then show ?thesis by (simp add: startable_def)
  qed
qed

lemma credentials_replay: "credentials c \<Longrightarrow> replay_command c"
  by (auto simp: credentials_def replay_command_def split: option.splits body.splits)

text \<open>C1. A node that connects ends up with what the database says: when no query of the replay fails
  and the agent carries out every command of it, then whatever the agent ran before, it runs
  afterwards exactly the enabled rules that the database gives to its node, each as the message
  made from its row, and nothing else.\<close>

theorem replay_makes_agent_run:
  assumes "reconcile_commands_for_node pe io db n = Inr cmds" "rules_wf db" "tunnels_wf db"
    "\<forall>r \<in> set (db_rules db). rule_checks r" "fst (deliver h (replay_batch pe io db n) ag)"
  shows "agent_running (snd (deliver h (replay_batch pe io db n) ag)) i =
     (case wanted pe db n i of None \<Rightarrow> None | Some r \<Rightarrow> if r_enabled r then Some r else None)"
proof -
  note rules = replay_rules [OF assms(1-3)]
  have b: "replay_batch pe io db n = cmds @ [reconcile_command (authoritative_rule_ids cmds)]"
    using assms(1) by (simp add: replay_batch_def)
  have c: "\<forall>c \<in> set cmds. replay_command c"
    using reconcile_applied(2) [OF assms(1)] credentials_replay by auto
  have s: "\<forall>r \<in> set (applied_rules cmds). startable r"
    using assms(4) applied_wanted [OF assms(1-3)] wanted_startable by blast
  show ?thesis
    using deliver_reconcile [OF _ c rules(1) s replay_ids] assms(5) rules(2) by (simp add: b)
qed

lemma replay_makes_agent_run_witness:
  "agent_running (snd (deliver host0 (replay_batch sample_env (\<lambda>_. False) sample_db 1) old_agent)) 9 = None
   \<and> agent_running (snd (deliver host0 (replay_batch sample_env (\<lambda>_. False) sample_db 1) old_agent)) 8
       = wanted sample_env sample_db 1 8"
proof -
  let ?p = "replay_batch sample_env (\<lambda>_. False) sample_db 1"
  have "(case reconcile_commands_for_node sample_env (\<lambda>_. False) sample_db 1 of Inl _ \<Rightarrow> False | Inr _ \<Rightarrow> True)"
    by code_simp
  then obtain cmds where c: "reconcile_commands_for_node sample_env (\<lambda>_. False) sample_db 1 = Inr cmds"
    by (auto split: sum.splits)
  have ok: "fst (deliver host0 ?p old_agent)"
    by code_simp
  have w: "wanted sample_env sample_db 1 9 = None"
      "(case wanted sample_env sample_db 1 8 of None \<Rightarrow> False | Some r \<Rightarrow> r_enabled r)"
    by code_simp+
  note run = replay_makes_agent_run [OF c sample_db_wf ok]
  from run [of 9] run [of 8] w show ?thesis
    by (auto split: option.splits)
qed

section \<open>Two rules over one tunnel\<close>

text \<open>
  A listener on a wildcard address keeps every other one from its port: neither listener of the
  code asks for \<^verbatim>\<open>SO_REUSEPORT\<close>.
\<close>

definition exclusive_ports :: "env \<Rightarrow> bool" where
  "exclusive_ports ev = (\<forall>held p a b. a \<in> {V6 v6_unspecified, V4 v4_unspecified} \<longrightarrow>
     b \<in> {V6 v6_unspecified, V4 v4_unspecified} \<longrightarrow>
     (Tcp, Sock_Addr a p) \<in> set held \<longrightarrow> \<not> ev_bind ev held Tcp (Sock_Addr b p))"

lemma transport_bind_holds:
  assumes "transport_bind ev t port w = (Inr s, w')"
  obtains p a where "u16_try_from port = Some p" "a \<in> {V6 v6_unspecified, V4 v4_unspecified}"
    "s = (Tcp, Sock_Addr a p)" "w_bound w' = s # w_bound w"
  using assms
  by (auto simp: transport_bind_def bind_tcp_dual_def bound_socket_def split: if_splits option.splits sum.splits)

lemma transport_bind_refused:
  assumes "exclusive_ports ev" "u16_try_from port = Some p" "a \<in> {V6 v6_unspecified, V4 v4_unspecified}"
    "(Tcp, Sock_Addr a p) \<in> set (w_bound w)"
  shows "\<exists>e. fst (transport_bind ev t port w) = Inl e"
proof -
  have "\<not> ev_bind ev (w_bound w) Tcp (Sock_Addr b p)" if "b \<in> {V6 v6_unspecified, V4 v4_unspecified}" for b
    using assms that unfolding exclusive_ports_def by blast
  with assms(2) show ?thesis
    by (auto simp: transport_bind_def bind_tcp_dual_def)
qed

lemma relay_hop_start:
  assumes "r_tunnel r = Some ctx" "tunnel_role_of (tc_role ctx) \<in> {Some Role_Mid, Some Role_Exit}"
    "start_bundle ev r w = (Inr h, w')"
  obtains p a where "u16_try_from (tc_self_inter_port ctx) = Some p" "a \<in> {V6 v6_unspecified, V4 v4_unspecified}"
    "(Tcp, Sock_Addr a p) \<in> set (w_bound w')" "h \<noteq> None"
proof -
  obtain bucket w1 where nb: "new_bucket ev (r_bandwidth_mbps r) w = (bucket, w1)" by fastforce
  obtain t where t: "make_transport ev ctx = Inr t"
    using assms nb by (auto simp: start_bundle_def split: sum.splits)
  obtain k where k: "tunnel_start ev r bucket t w1 = (Inr k, w')" "h \<noteq> None"
    using assms nb t by (auto simp: start_bundle_def split: prod.splits sum.splits)
  then obtain m where "start_relay_hop ev ctx t m w1 = (Inr k, w')"
    using assms(1,2) by (auto simp: tunnel_start_def split: option.splits)
  then obtain s where "transport_bind ev t (tc_self_inter_port ctx) w1 = (Inr s, w')"
    by (auto simp: start_relay_hop_def split: prod.splits sum.splits)
  then show thesis
    by (rule transport_bind_holds) (use that k(2) in auto)
qed

lemma relay_hop_refused:
  assumes "exclusive_ports ev" "r_tunnel r = Some ctx" "tunnel_role_of (tc_role ctx) \<in> {Some Role_Mid, Some Role_Exit}"
    "u16_try_from (tc_self_inter_port ctx) = Some p" "a \<in> {V6 v6_unspecified, V4 v4_unspecified}"
    "(Tcp, Sock_Addr a p) \<in> set (w_bound w)"
  shows "\<exists>e. fst (start_bundle ev r w) = Inl e"
proof (cases "start_bundle ev r w")
  case (Pair res w')
  obtain bucket w1 where nb: "new_bucket ev (r_bandwidth_mbps r) w = (bucket, w1)" by fastforce
  then have b: "w_bound w1 = w_bound w"
    using new_bucket_frame(1) [of ev "r_bandwidth_mbps r" w] by simp
  show ?thesis
  proof (cases "make_transport ev ctx")
    case (Inl e)
    with nb assms(2) show ?thesis by (simp add: start_bundle_def)
  next
    case (Inr t)
    obtain e w2 where e: "transport_bind ev t (tc_self_inter_port ctx) w1 = (Inl e, w2)"
      using transport_bind_refused [OF assms(1,4,5)] assms(6) b by (metis fst_conv surj_pair)
    then have "start_relay_hop ev ctx t m w1 = (Inl e, w2)" for m
      by (simp add: start_relay_hop_def)
    then have "\<exists>e. fst (tunnel_start ev r bucket t w1) = Inl e"
      using assms(2,3) by (auto simp: tunnel_start_def split: option.splits)
    with nb Inr assms(2) show ?thesis
      by (auto simp: start_bundle_def split: prod.splits sum.splits)
  qed
qed

text \<open>C38. Two rules cannot share a tunnel: the hops after the entry listen once per rule on the port of
  the tunnel, so once the part of one enabled rule runs on such a hop, applying the part of another
  rule of the same tunnel there fails and starts nothing, whatever the two rules forward, while
  both entries dial that one listener.\<close>

theorem tunnel_serves_one_rule:
  assumes "exclusive_ports ev" "0 < k" "k < length hops"
    "q = snd (split_tunnel_rule a hops ! k)" "q' = snd (split_tunnel_rule b hops ! k)"
    "si_enabled a" "si_enabled b" "si_rule_id a \<noteq> si_rule_id b" "hm_get (mg_handles m) (si_rule_id b) = None"
    "fst (apply_rule ev q m) = Inr ()" "mgr = snd (apply_rule ev q m)"
  shows "(\<exists>e. fst (apply_rule ev q' mgr) = Inl e)
    \<and> running (snd (apply_rule ev q' mgr)) (si_rule_id b) = None
    \<and> running (snd (apply_rule ev q' mgr)) (si_rule_id a) = Some q
    \<and> map_option next_hop_of (r_tunnel (snd (split_tunnel_rule a hops ! (k - 1))))
        = map_option next_hop_of (r_tunnel (snd (split_tunnel_rule b hops ! (k - 1))))"
proof -
  let ?ca = "split_context a hops k (hops ! k)" and ?cb = "split_context b hops k (hops ! k)"
  have q: "r_id q = si_rule_id a" "r_enabled q" "r_tunnel q = Some ?ca"
    and q': "r_id q' = si_rule_id b" "r_enabled q'" "r_tunnel q' = Some ?cb"
    using assms(3-7) by (simp_all add: split_nth split_part_def)
  have role: "tunnel_role_of (tc_role ?ca) \<in> {Some Role_Mid, Some Role_Exit}"
      "tunnel_role_of (tc_role ?cb) \<in> {Some Role_Mid, Some Role_Exit}"
    and port: "tc_self_inter_port ?cb = tc_self_inter_port ?ca"
    using assms(2) by (simp_all add: split_context_def split_role_def Let_def)
  define m1 where "m1 = drop_handles (r_id q) m"
  obtain h w where st: "start_bundle ev q (mg_world m1) = (Inr h, w)"
    using assms(10) q(2) by (auto simp: apply_rule_def m1_def Let_def split: prod.splits sum.splits option.splits)
  obtain p x where p: "u16_try_from (tc_self_inter_port ?ca) = Some p" "x \<in> {V6 v6_unspecified, V4 v4_unspecified}"
      "(Tcp, Sock_Addr x p) \<in> set (w_bound w)" "h \<noteq> None"
    by (rule relay_hop_start [OF q(3) role(1) st])
  then obtain hs where hs: "h = Some hs" by blast
  have m: "mgr = insert_handles (r_id q) hs w m1"
    using st hs q(2) by (simp add: assms(11) apply_rule_def m1_def [symmetric])
  have free: "drop_handles (r_id q') mgr = mgr"
    using assms(8,9) q(1) q'(1) by (simp add: m m1_def drop_handles_def insert_handles_def drop_handles_get split: option.split)
  have "mg_world mgr = w"
    by (simp add: m insert_handles_def)
  with relay_hop_refused [OF assms(1) q'(3) role(2) _ p(2), of p "mg_world mgr"] p port
  obtain e w2 where e: "start_bundle ev q' (mg_world mgr) = (Inl e, w2)"
    by (metis fst_conv surj_pair)
  have res: "apply_rule ev q' mgr = (Inl e, mgr\<lparr>mg_world := w2\<rparr>)"
    using q'(2) e by (simp add: apply_rule_def free)
  have "running (snd (apply_rule ev q' mgr)) (si_rule_id b) = None"
    using running_apply_error [of ev q' mgr e] q'(1) by (simp add: res)
  moreover have "running (snd (apply_rule ev q' mgr)) (si_rule_id a) = Some q"
    using running_apply_ok [OF assms(10)] assms(8) q q'(1) by (simp add: running_apply [of ev q'] startable_def assms(11))
  moreover have "map_option next_hop_of (r_tunnel (snd (split_tunnel_rule a hops ! (k - 1))))
      = map_option next_hop_of (r_tunnel (snd (split_tunnel_rule b hops ! (k - 1))))"
    using assms(2,3) by (simp add: split_nth split_part_def split_context_def next_hop_of_def Let_def)
  ultimately show ?thesis
    by (simp add: res)
qed

definition linux_env :: env where
  "linux_env = env0\<lparr>ev_bind := (\<lambda>held l sa. \<not> list_ex (\<lambda>(l', sa'). l' = l \<and> sa_port sa' = sa_port sa) held)\<rparr>"

lemma linux_env_exclusive: "exclusive_ports linux_env"
  unfolding exclusive_ports_def linux_env_def by (auto simp: list_ex_iff intro!: bexI [rotated])

lemma tunnel_serves_one_rule_witness:
  "\<exists>m e. fst (apply_rule linux_env (snd (split_tunnel_rule (sample_input\<lparr>si_rule_id := 6\<rparr>) sample_hops ! 2)) m) = Inl e
     \<and> running m 5 \<noteq> None"
proof -
  let ?a = "sample_input" and ?b = "sample_input\<lparr>si_rule_id := 6\<rparr>"
  let ?q = "snd (split_tunnel_rule ?a sample_hops ! 2)" and ?r = "snd (split_tunnel_rule ?b sample_hops ! 2)"
  have len: "(2::nat) < length sample_hops"
    by (simp add: sample_hops_def)
  have ids: "si_enabled ?a" "si_enabled ?b" "si_rule_id ?a \<noteq> si_rule_id ?b" "hm_get (mg_handles manager_new) (si_rule_id ?b) = None"
    by (simp_all add: sample_input_def manager_new_def)
  have ok: "fst (apply_rule linux_env ?q manager_new) = Inr ()"
    by code_simp
  have run: "running (snd (apply_rule linux_env ?q manager_new)) 5 \<noteq> None"
    using running_apply_ok [OF ok] len by (simp add: split_nth split_part_def sample_input_def startable_def)
  from tunnel_serves_one_rule [OF linux_env_exclusive _ len refl refl ids ok refl] run show ?thesis by auto
qed

section \<open>A change that races with a deletion\<close>

text \<open>C39. A deleted rule can come back: the command to apply a rule is built from the row that the change
  read before it waited for the locks of the node. When a deletion runs in between, its command to
  remove is sent before the command to apply; nobody finds the rule any more and no node should
  run it, but the node, which takes its commands in order, runs it, until it connects again.\<close>

theorem deleted_rule_comes_back:
  assumes "update_stored re io u ip i req p = (Inr r, p1)" "delete_rule io' u' ip' i p1 = (Inr d, p2)"
    "p3 = dispatch_rule_apply_locked pe io r p2" "dr_tunnel_id r = None" "dr_enabled r \<noteq> 0" "\<not> io ''block_protocols''"
    "hm_get (dp_channels (pn_dispatcher p)) (dr_node_id r) = Some g" "g < length (dp_cells (pn_dispatcher p))"
    "ch_open (dp_cells (pn_dispatcher p) ! g)" "length (ch_queue (dp_cells (pn_dispatcher p) ! g)) + 1 < CHANNEL_CAPACITY"
  shows "d \<and> find_rule (pn_db p3) i = None \<and> wanted pe (pn_db p3) n i = None
    \<and> (\<exists>cs. ch_sent (dp_cells (pn_dispatcher p3) ! g) = ch_sent (dp_cells (pn_dispatcher p) ! g) @ cs
         \<and> (\<forall>h ag. rule_checks r \<longrightarrow> fst (deliver h cs ag) \<longrightarrow> agent_running (snd (deliver h cs ag)) i \<noteq> None))"
proof -
  define q where "q = rule_to_proto (pe_decode pe) r (node_mask (pn_db p2) (dr_node_id r))"
  note late = late_apply [OF assms(1,2,4,6,7-10) q_def assms(3)]
  have run: "agent_running (snd (deliver h [remove_command i, apply_command q] ag)) i = Some q"
    if "rule_checks r" "fst (deliver h [remove_command i, apply_command q] ag)" for h ag
  proof -
    have "startable q"
      using that(1) by (auto simp: q_def rule_to_proto_def startable_def rule_checks_def)
    then show ?thesis
      using that(2) late(3,4) assms(5) running_apply_ok [of "ho_env h" q]
      by (simp add: case_prod_beta)
  qed
  with late show ?thesis
    by (intro conjI exI [of _ "[remove_command i, apply_command q]"]) (auto simp: wanted_def)
qed

definition online_panel :: panel where
  "online_panel = sample_panel\<lparr>pn_dispatcher := snd (subscribe 1 dispatcher_new)\<rparr>"

lemma deleted_rule_comes_back_witness:
  "\<exists>r p1 p2 d. update_stored sample_routes (\<lambda>_. False) (sample_user 1 ''user'') [] 7 sample_update online_panel = (Inr r, p1)
     \<and> delete_rule (\<lambda>_. False) (sample_user 1 ''user'') [] 7 p1 = (Inr d, p2) \<and> d
     \<and> find_rule (pn_db (dispatch_rule_apply_locked sample_env (\<lambda>_. False) r p2)) 7 = None"
proof -
  let ?u = "update_stored sample_routes (\<lambda>_. False) (sample_user 1 ''user'') [] 7 sample_update online_panel"
  have "case fst ?u of Inl _ \<Rightarrow> False | Inr r \<Rightarrow> dr_tunnel_id r = None \<and> dr_enabled r = 1 \<and> dr_node_id r = 1"
    by code_simp
  then obtain r where fu: "fst ?u = Inr r" and r: "dr_tunnel_id r = None" "dr_enabled r \<noteq> 0" "dr_node_id r = 1"
    by (auto split: sum.splits)
  obtain p1 where u: "?u = (Inr r, p1)"
    using fu by (metis prod.collapse)
  have "case fst (delete_rule (\<lambda>_. False) (sample_user 1 ''user'') [] 7 (snd ?u)) of Inl _ \<Rightarrow> False | Inr _ \<Rightarrow> True"
    by code_simp
  then obtain d where fd: "fst (delete_rule (\<lambda>_. False) (sample_user 1 ''user'') [] 7 p1) = Inr d"
    using u by (auto split: sum.splits)
  obtain p2 where dl: "delete_rule (\<lambda>_. False) (sample_user 1 ''user'') [] 7 p1 = (Inr d, p2)"
    using fd by (metis prod.collapse)
  have ch: "hm_get (dp_channels (pn_dispatcher online_panel)) (dr_node_id r) = Some 0"
      "(0::nat) < length (dp_cells (pn_dispatcher online_panel))" "ch_open (dp_cells (pn_dispatcher online_panel) ! 0)"
      "length (ch_queue (dp_cells (pn_dispatcher online_panel) ! 0)) + 1 < CHANNEL_CAPACITY"
    by (simp_all add: online_panel_def subscribe_def dispatcher_new_def Let_def r(3) CHANNEL_CAPACITY_def)
  from deleted_rule_comes_back [OF u dl refl r(1,2) _ ch, of sample_env] u dl show ?thesis by blast
qed

end
